(* ===== verification/Prelude.thy ===== *)
theory Prelude
  imports Main "HOL-Library.Word" "HOL-Library.Monad_Syntax"
begin

text \<open>
  Shared ground of the development: the machine types of \<open>include/typedefs.h\<close>, the reading and
  writing of C arrays, and the generic lemmas about words, options and lists that the components use.

  A value of type \<open>'a option\<close> returned by an operation of the model reads as follows: \<open>Some\<close> is a
  result the C code computes, \<open>None\<close> is an execution the C code gives no meaning to (an access
  outside the array it goes through) or one that never returns (a loop over a cyclic list).
  A lemma that an operation returns \<open>Some\<close> is therefore a memory-safety and a termination fact.
\<close>

unbundle bit_operations_syntax

named_theorems enc_simps \<open>laws of the tagged word encoding of Lisp values\<close>
named_theorems stack_defs \<open>definitions of the operations on the evaluation stack\<close>
named_theorems cell_simps \<open>reading and writing cells of the cons-cell heap\<close>

subsection \<open>Machine types (include/typedefs.h)\<close>

type_synonym u32 = "32 word"
type_synonym VALUE = "32 word"
type_synonym LTYPE = "32 word"
type_synonym UINT = "32 word"
type_synonym SINT = "32 word"
type_synonym FLOAT = "32 word"
type_synonym CID = "16 word"

text \<open>
  \<open>SINT\<close> shares its 32 bits with \<open>UINT\<close>; where the sign matters the model reads them with \<^const>\<open>sint\<close>.
  \<open>FLOAT\<close> is the bit pattern of the C float.
\<close>

subsection \<open>C arrays\<close>

definition arr_get :: "'a list \<Rightarrow> nat \<Rightarrow> 'a option" where
  "arr_get xs i = (if i < length xs then Some (xs ! i) else None)"

definition arr_set :: "'a list \<Rightarrow> nat \<Rightarrow> 'a \<Rightarrow> 'a list option" where
  "arr_set xs i v = (if i < length xs then Some (xs[i := v]) else None)"

lemma arr_get_Some_iff: "arr_get xs i = Some v \<longleftrightarrow> i < length xs \<and> xs ! i = v"
  by (auto simp: arr_get_def)

lemma arr_set_Some_iff: "arr_set xs i v = Some ys \<longleftrightarrow> i < length xs \<and> ys = xs[i := v]"
  by (auto simp: arr_set_def)

lemma arr_get_in [simp]: "i < length xs \<Longrightarrow> arr_get xs i = Some (xs ! i)"
  by (simp add: arr_get_def)

lemma arr_set_in [simp]: "i < length xs \<Longrightarrow> arr_set xs i v = Some (xs[i := v])"
  by (simp add: arr_set_def)

lemma arr_get_out [simp]: "length xs \<le> i \<Longrightarrow> arr_get xs i = None"
  by (simp add: arr_get_def)

lemma arr_set_out [simp]: "length xs \<le> i \<Longrightarrow> arr_set xs i v = None"
  by (simp add: arr_set_def)

subsection \<open>Words\<close>

lemma unat_lt_of_word_less: "x < y \<Longrightarrow> unat (x :: 'a::len word) < unat y"
  by (simp add: word_less_nat_alt)

lemma unat_u32_of_nat: "n < 2 ^ 32 \<Longrightarrow> unat (of_nat n :: u32) = n"
  by (simp add: unat_of_nat)

lemma word_bit_lt: "unat (x :: 'a::len word) < 2 ^ k \<Longrightarrow> bit x n \<Longrightarrow> n < k"
  proof -
  assume "unat x < 2 ^ k" and "bit x n"
  then have "bit (take_bit k (unat x)) n"
    by (simp add: take_bit_nat_eq_self bit_unsigned_iff bit_imp_possible_bit)
  then show "n < k" by (simp add: bit_take_bit_iff)
qed

lemma u32_bit_bound: "bit (x :: u32) n \<Longrightarrow> n < 32"
  using bit_imp_le_length [of x n] by simp

lemma unat_succ_less: "(i :: u32) < n \<Longrightarrow> unat (i + 1) = Suc (unat i)"
  using unsigned_less [of n, where 'a = nat] by (simp add: unat_word_ariths word_less_nat_alt)

lemma word_loop_step: "(i :: u32) < n \<Longrightarrow> unat n - unat (i + 1) < unat n - unat i"
  by (simp add: unat_succ_less word_less_nat_alt)

end
