(* ===== verification/Stack.thy ===== *)
theory Stack
  imports Prelude
begin

text \<open>
  The word stack of \<open>src/stack.c\<close> and \<open>include/stack.h\<close>, used as continuation stack by the
  evaluators, as mark stack by the garbage collector and as work stack by the printer.

  The struct is a record whose \<open>sk_data\<close> is \<open>None\<close> for a \<open>NULL\<close> (or freed) pointer. The return
  code of an operation is a \<open>bool\<close>; the outer \<open>option\<close> is \<open>None\<close> when the C code indexes outside
  \<open>data\<close>. The C library's \<open>malloc\<close> is an argument: it maps a number of bytes to \<open>None\<close> (no memory)
  or to the words of a fresh block, whose contents are not initialised.
\<close>

type_synonym malloc_fun = "UINT \<Rightarrow> UINT list option"

text \<open>What the code relies on: a block has the size asked for, and no block passes \<open>PTRDIFF_MAX\<close>.\<close>

definition malloc_ok :: "malloc_fun \<Rightarrow> bool" where
  "malloc_ok malloc \<longleftrightarrow>
     (\<forall>n b. malloc n = Some b \<longrightarrow> length b = unat n div 4 \<and> unat n < 2 ^ 31)"

text \<open>The stacks over a static array never grow; they are given a \<open>malloc\<close> that has no memory.\<close>

definition no_malloc :: malloc_fun where
  "no_malloc n = None"

record stack =
  sk_data :: "UINT list option"
  sk_sp :: UINT
  sk_size :: UINT
  sk_growable :: bool

subsection \<open>Operations of stack.c\<close>

definition stack_allocate :: "malloc_fun \<Rightarrow> stack \<Rightarrow> UINT \<Rightarrow> bool \<Rightarrow> bool \<times> stack" where
  "stack_allocate malloc s stack_size growable =
     (let s = s\<lparr>sk_data := malloc (4 * stack_size), sk_sp := 0, sk_size := stack_size,
                sk_growable := growable\<rparr>
      in (sk_data s \<noteq> None, s))"

definition stack_create :: "stack \<Rightarrow> UINT list \<Rightarrow> UINT \<Rightarrow> bool \<times> stack" where
  "stack_create s d n =
     (True, s\<lparr>sk_data := Some d, sk_sp := 0, sk_size := n, sk_growable := False\<rparr>)"

definition stack_free :: "stack \<Rightarrow> stack" where
  "stack_free s = (if sk_data s \<noteq> None then s\<lparr>sk_data := None\<rparr> else s)"

definition stack_clear :: "stack \<Rightarrow> bool \<times> stack" where
  "stack_clear s = (True, s\<lparr>sk_sp := 0\<rparr>)"

definition stack_grow :: "malloc_fun \<Rightarrow> stack \<Rightarrow> (bool \<times> stack) option" where
  "stack_grow malloc s =
     (if \<not> sk_growable s then Some (False, s)
      else
        let new_size = sk_size s * 2 in
        case malloc (4 * new_size) of
          None \<Rightarrow> Some (False, s)
        | Some block \<Rightarrow> do {
            old \<leftarrow> sk_data s;
            if length old < unat (sk_size s) \<or> length block < unat (sk_size s) then None
            else Some (True,
              s\<lparr>sk_data := Some (take (unat (sk_size s)) old @ drop (unat (sk_size s)) block),
                sk_size := new_size\<rparr>)
          })"

partial_function (option) stack_copy_grow ::
  "malloc_fun \<Rightarrow> stack \<Rightarrow> UINT \<Rightarrow> (bool \<times> stack) option" where
  "stack_copy_grow malloc dest src_sp =
     (if sk_size dest < src_sp then
        Option.bind (stack_grow malloc dest) (\<lambda>(ok, dest).
          if \<not> ok then Some (False, dest) else stack_copy_grow malloc dest src_sp)
      else Some (True, dest))"

definition stack_copy :: "malloc_fun \<Rightarrow> stack \<Rightarrow> stack \<Rightarrow> (bool \<times> stack) option" where
  "stack_copy malloc dest src = do {
     (ok, dest) \<leftarrow> (if sk_growable dest then stack_copy_grow malloc dest (sk_sp src)
                    else Some (True, dest));
     if \<not> ok then Some (False, dest)
     else if sk_size dest < sk_size src then Some (False, dest)
     else do {
       from \<leftarrow> sk_data src;
       to \<leftarrow> sk_data dest;
       if length from < unat (sk_sp src) \<or> length to < unat (sk_sp src) then None
       else Some (True, dest\<lparr>sk_sp := sk_sp src,
              sk_data := Some (take (unat (sk_sp src)) from @ drop (unat (sk_sp src)) to)\<rparr>)
     }
   }"

text \<open>\<open>stack_ptr\<close> returns the address of an element: \<open>None\<close> is \<open>NULL\<close>, \<open>Some i\<close> is \<open>&data[i]\<close>.\<close>

definition stack_ptr :: "stack \<Rightarrow> UINT \<Rightarrow> UINT option" where
  "stack_ptr s n = (if sk_sp s < n then None else Some (sk_sp s - n))"

definition stack_drop :: "stack \<Rightarrow> UINT \<Rightarrow> bool \<times> stack" where
  "stack_drop s n = (if sk_sp s < n then (False, s) else (True, s\<lparr>sk_sp := sk_sp s - n\<rparr>))"

definition push_u32 :: "malloc_fun \<Rightarrow> stack \<Rightarrow> UINT \<Rightarrow> (bool \<times> stack) option" where
  "push_u32 malloc s v = do {
     (res, s) \<leftarrow> (if sk_sp s = sk_size s then stack_grow malloc s else Some (True, s));
     if \<not> res then Some (res, s)
     else do {
       d \<leftarrow> sk_data s;
       d \<leftarrow> arr_set d (unat (sk_sp s)) v;
       Some (res, s\<lparr>sk_data := Some d, sk_sp := sk_sp s + 1\<rparr>)
     }
   }"

definition push_k :: "malloc_fun \<Rightarrow> stack \<Rightarrow> UINT \<Rightarrow> (bool \<times> stack) option" where
  "push_k malloc s k = do {
     d \<leftarrow> sk_data s;
     d \<leftarrow> arr_set d (unat (sk_sp s)) k;
     let s = s\<lparr>sk_data := Some d, sk_sp := sk_sp s + 1\<rparr>;
     if sk_size s \<le> sk_sp s then stack_grow malloc s else Some (True, s)
   }"

definition pop_u32 :: "stack \<Rightarrow> (UINT \<times> stack) option" where
  "pop_u32 s = do {
     let s = s\<lparr>sk_sp := sk_sp s - 1\<rparr>;
     d \<leftarrow> sk_data s;
     v \<leftarrow> arr_get d (unat (sk_sp s));
     Some (v, s)
   }"

definition pop_k :: "stack \<Rightarrow> (UINT \<times> stack) option" where
  "pop_k s = do {
     let s = s\<lparr>sk_sp := sk_sp s - 1\<rparr>;
     d \<leftarrow> sk_data s;
     k \<leftarrow> arr_get d (unat (sk_sp s));
     Some (k, s)
   }"

subsection \<open>Inline operations of stack.h\<close>

definition stack_is_empty :: "stack \<Rightarrow> bool" where
  "stack_is_empty s \<longleftrightarrow> sk_sp s = 0"

definition stack_arg_ix :: "stack \<Rightarrow> UINT \<Rightarrow> UINT option option" where
  "stack_arg_ix s ix =
     (if sk_sp s - 1 < ix then Some None
      else do {
        d \<leftarrow> sk_data s;
        v \<leftarrow> arr_get d (unat (sk_sp s - (ix + 1)));
        Some (Some v)
      })"

definition push_u32_2 :: "malloc_fun \<Rightarrow> stack \<Rightarrow> UINT \<Rightarrow> UINT \<Rightarrow> (bool \<times> stack) option" where
  "push_u32_2 malloc s v0 v1 = do {
     (r0, s) \<leftarrow> push_u32 malloc s v0;
     (r1, s) \<leftarrow> push_u32 malloc s v1;
     Some (r0 \<and> r1, s)
   }"

definition push_u32_3 ::
  "malloc_fun \<Rightarrow> stack \<Rightarrow> UINT \<Rightarrow> UINT \<Rightarrow> UINT \<Rightarrow> (bool \<times> stack) option" where
  "push_u32_3 malloc s v0 v1 v2 = do {
     (r0, s) \<leftarrow> push_u32 malloc s v0;
     (r1, s) \<leftarrow> push_u32 malloc s v1;
     (r2, s) \<leftarrow> push_u32 malloc s v2;
     Some (r0 \<and> r1 \<and> r2, s)
   }"

definition push_u32_4 ::
  "malloc_fun \<Rightarrow> stack \<Rightarrow> UINT \<Rightarrow> UINT \<Rightarrow> UINT \<Rightarrow> UINT \<Rightarrow> (bool \<times> stack) option" where
  "push_u32_4 malloc s v0 v1 v2 v3 = do {
     (r0, s) \<leftarrow> push_u32 malloc s v0;
     (r1, s) \<leftarrow> push_u32 malloc s v1;
     (r2, s) \<leftarrow> push_u32 malloc s v2;
     (r3, s) \<leftarrow> push_u32 malloc s v3;
     Some (r0 \<and> r1 \<and> r2 \<and> r3, s)
   }"

definition push_u32_5 ::
  "malloc_fun \<Rightarrow> stack \<Rightarrow> UINT \<Rightarrow> UINT \<Rightarrow> UINT \<Rightarrow> UINT \<Rightarrow> UINT \<Rightarrow> (bool \<times> stack) option" where
  "push_u32_5 malloc s v0 v1 v2 v3 v4 = do {
     (r0, s) \<leftarrow> push_u32 malloc s v0;
     (r1, s) \<leftarrow> push_u32 malloc s v1;
     (r2, s) \<leftarrow> push_u32 malloc s v2;
     (r3, s) \<leftarrow> push_u32 malloc s v3;
     (r4, s) \<leftarrow> push_u32 malloc s v4;
     Some (r0 \<and> r1 \<and> r2 \<and> r3 \<and> r4, s)
   }"

definition pop_u32_2 :: "stack \<Rightarrow> (UINT \<times> UINT \<times> stack) option" where
  "pop_u32_2 s = do {
     (r0, s) \<leftarrow> pop_u32 s;
     (r1, s) \<leftarrow> pop_u32 s;
     Some (r0, r1, s)
   }"

definition pop_u32_3 :: "stack \<Rightarrow> (UINT \<times> UINT \<times> UINT \<times> stack) option" where
  "pop_u32_3 s = do {
     (r0, s) \<leftarrow> pop_u32 s;
     (r1, s) \<leftarrow> pop_u32 s;
     (r2, s) \<leftarrow> pop_u32 s;
     Some (r0, r1, r2, s)
   }"

definition pop_u32_4 :: "stack \<Rightarrow> (UINT \<times> UINT \<times> UINT \<times> UINT \<times> stack) option" where
  "pop_u32_4 s = do {
     (r0, s) \<leftarrow> pop_u32 s;
     (r1, s) \<leftarrow> pop_u32 s;
     (r2, s) \<leftarrow> pop_u32 s;
     (r3, s) \<leftarrow> pop_u32 s;
     Some (r0, r1, r2, r3, s)
   }"

definition pop_u32_5 :: "stack \<Rightarrow> (UINT \<times> UINT \<times> UINT \<times> UINT \<times> UINT \<times> stack) option" where
  "pop_u32_5 s = do {
     (r0, s) \<leftarrow> pop_u32 s;
     (r1, s) \<leftarrow> pop_u32 s;
     (r2, s) \<leftarrow> pop_u32 s;
     (r3, s) \<leftarrow> pop_u32 s;
     (r4, s) \<leftarrow> pop_u32 s;
     Some (r0, r1, r2, r3, r4, s)
   }"


subsection \<open>The contract of a stack\<close>

text \<open>
  Sequences of pushes and pops over any stack; \<open>push_seq\<close> combines the return codes with \<open>&\<close> and
  does not stop at a failure, as the C code's \<open>res &= push_u32(...)\<close> chains do.
\<close>

primrec push_seq :: "('s \<Rightarrow> 'v \<Rightarrow> (bool \<times> 's) option) \<Rightarrow> 's \<Rightarrow> 'v list \<Rightarrow> (bool \<times> 's) option" where
  "push_seq push s [] = Some (True, s)"
| "push_seq push s (v # vs) = do {
     (b, s) \<leftarrow> push s v;
     (bs, s) \<leftarrow> push_seq push s vs;
     Some (b \<and> bs, s)
   }"

primrec pop_seq :: "('s \<Rightarrow> ('v \<times> 's) option) \<Rightarrow> nat \<Rightarrow> 's \<Rightarrow> ('v list \<times> 's) option" where
  "pop_seq pop 0 s = Some ([], s)"
| "pop_seq pop (Suc n) s = do {
     (v, s) \<leftarrow> pop s;
     (vs, s) \<leftarrow> pop_seq pop n s;
     Some (v # vs, s)
   }"

locale lifo =
  fixes push :: "'s \<Rightarrow> 'v \<Rightarrow> (bool \<times> 's) option"
    and pop :: "'s \<Rightarrow> ('v \<times> 's) option"
    and inv :: "'s \<Rightarrow> bool"
    and contents :: "'s \<Rightarrow> 'v list"
  assumes push_law: "inv s \<Longrightarrow> \<exists>b s'. push s v = Some (b, s') \<and> inv s' \<and>
            contents s' = (if b then v # contents s else contents s)"
    and pop_law: "inv s \<Longrightarrow> contents s = v # vs \<Longrightarrow>
            \<exists>s'. pop s = Some (v, s') \<and> inv s' \<and> contents s' = vs"
begin

lemma push_seq_law:
  "inv s \<Longrightarrow> \<exists>b s'. push_seq push s vs = Some (b, s') \<and> inv s' \<and>
     (b \<longrightarrow> contents s' = rev vs @ contents s)"
proof (induction vs arbitrary: s)
  case Nil
  then show ?case by force
next
  case (Cons v vs)
  obtain b s1 where 1: "push s v = Some (b, s1)" "inv s1"
      "contents s1 = (if b then v # contents s else contents s)"
    using push_law [OF Cons.prems] by blast
  then obtain bs s2 where "push_seq push s1 vs = Some (bs, s2)" "inv s2"
      "bs \<longrightarrow> contents s2 = rev vs @ contents s1"
    using Cons.IH by blast
  with 1 show ?case by auto
qed

lemma pop_seq_law:
  "inv s \<Longrightarrow> contents s = vs @ rest \<Longrightarrow>
     \<exists>s'. pop_seq pop (length vs) s = Some (vs, s') \<and> inv s' \<and> contents s' = rest"
proof (induction vs arbitrary: s)
  case Nil
  then show ?case by simp
next
  case (Cons v vs)
  obtain s1 where "pop s = Some (v, s1)" "inv s1" "contents s1 = vs @ rest"
    using pop_law [OF Cons.prems(1), of v "vs @ rest"] Cons.prems(2) by auto
  with Cons.IH [of s1] show ?case by auto
qed

lemma push_seq_pop_seq:
  assumes "inv s" and "push_seq push s vs = Some (True, s1)"
  shows "\<exists>s2. pop_seq pop (length vs) s1 = Some (rev vs, s2) \<and> inv s2 \<and> contents s2 = contents s"
  using push_seq_law [OF assms(1), of vs] assms(2) pop_seq_law [of s1 "rev vs" "contents s"] by auto

end

text \<open>A stack of fixed capacity: a push is refused exactly when the stack is full.\<close>

locale bounded_lifo = lifo +
  fixes cap :: "'a \<Rightarrow> nat"
  assumes push_bounded: "inv s \<Longrightarrow> push s v = Some (b, s') \<Longrightarrow>
            (b \<longleftrightarrow> length (contents s) < cap s) \<and> cap s' = cap s"
begin

lemma push_seq_fits:
  "inv s \<Longrightarrow> length (contents s) + length vs \<le> cap s \<Longrightarrow>
     \<exists>s'. push_seq push s vs = Some (True, s') \<and> inv s' \<and> contents s' = rev vs @ contents s \<and>
       cap s' = cap s"
proof (induction vs arbitrary: s)
  case Nil
  then show ?case by simp
next
  case (Cons v vs)
  obtain b s1 where 1: "push s v = Some (b, s1)" "inv s1"
      "contents s1 = (if b then v # contents s else contents s)"
    using push_law [OF Cons.prems(1)] by blast
  with push_bounded [OF Cons.prems(1) 1(1)] Cons.prems(2)
  have 2: "b" "cap s1 = cap s" by auto
  with 1 Cons.prems(2) Cons.IH [of s1] show ?case by auto
qed

end

subsection \<open>The C stack keeps the contract\<close>

definition stack_wf :: "stack \<Rightarrow> bool" where
  "stack_wf s \<longleftrightarrow> (case sk_data s of None \<Rightarrow> False
     | Some d \<Rightarrow> length d = unat (sk_size s) \<and> sk_sp s \<le> sk_size s \<and> unat (sk_size s) < 2 ^ 29 \<and>
         (sk_growable s \<longrightarrow> sk_size s \<noteq> 0))"

text \<open>The elements, top of the stack first.\<close>

definition stack_list :: "stack \<Rightarrow> UINT list" where
  "stack_list s = (case sk_data s of None \<Rightarrow> [] | Some d \<Rightarrow> rev (take (unat (sk_sp s)) d))"

lemma stack_wfE:
  assumes "stack_wf s"
  obtains d where "sk_data s = Some d" "length d = unat (sk_size s)"
    "unat (sk_sp s) \<le> unat (sk_size s)" "unat (sk_size s) < 2 ^ 29"
    "sk_growable s \<longrightarrow> sk_size s \<noteq> 0"
  using assms by (auto simp: stack_wf_def word_le_nat_alt split: option.splits)

lemma length_stack_list: "stack_wf s \<Longrightarrow> length (stack_list s) = unat (sk_sp s)"
  by (erule stack_wfE) (simp add: stack_list_def)

lemma stack_grow_law:
  assumes wf: "stack_wf s" and ok: "malloc_ok malloc"
  shows "\<exists>b s'. stack_grow malloc s = Some (b, s') \<and> stack_wf s' \<and> stack_list s' = stack_list s \<and>
    sk_sp s' = sk_sp s \<and> sk_growable s' = sk_growable s \<and> (\<not> b \<longrightarrow> s' = s) \<and>
    (b \<longrightarrow> sk_growable s \<and> sk_sp s' < sk_size s' \<and>
      unat (sk_size s') = 2 * unat (sk_size s) \<and> sk_size s \<noteq> 0)"
proof (cases "sk_growable s \<and> malloc (4 * (sk_size s * 2)) \<noteq> None")
  case False
  with wf show ?thesis by (auto simp: stack_grow_def)
next
  case True
  then obtain blk where m: "malloc (4 * (sk_size s * 2)) = Some blk" by auto
  obtain d where d: "sk_data s = Some d" "length d = unat (sk_size s)" "unat (sk_size s) < 2 ^ 29"
      "sk_size s \<noteq> 0" "unat (sk_sp s) \<le> unat (sk_size s)"
    using wf True by (elim stack_wfE) blast
  have n: "unat (4 * (sk_size s * 2)) = 8 * unat (sk_size s)" "unat (sk_size s * 2) = 2 * unat (sk_size s)"
    using d(3) by (simp_all add: unat_word_ariths)
  from ok m n have blk: "length blk = 2 * unat (sk_size s)" "8 * unat (sk_size s) < 2 ^ 31"
    by (force simp: malloc_ok_def)+
  let ?s = "s\<lparr>sk_data := Some (take (unat (sk_size s)) d @ drop (unat (sk_size s)) blk),
               sk_size := sk_size s * 2\<rparr>"
  have "stack_grow malloc s = Some (True, ?s)"
    using True m d blk by (simp add: stack_grow_def Let_def)
  moreover have lt: "sk_sp ?s < sk_size ?s"
    using n d(4,5) unat_gt_0 [of "sk_size s"] by (simp add: word_less_nat_alt)
  moreover have "stack_wf ?s" "stack_list ?s = stack_list s"
    using d n blk lt by (auto simp: stack_wf_def stack_list_def)
  ultimately show ?thesis using True n d(4) by auto
qed

lemma push_room:
  assumes wf: "stack_wf s" and room: "sk_sp s < sk_size s"
  shows "\<exists>s'. (do { d \<leftarrow> sk_data s; d \<leftarrow> arr_set d (unat (sk_sp s)) v;
                Some (True, s\<lparr>sk_data := Some d, sk_sp := sk_sp s + 1\<rparr>) }) = Some (True, s') \<and>
      stack_wf s' \<and> stack_list s' = v # stack_list s \<and>
      sk_size s' = sk_size s \<and> sk_growable s' = sk_growable s"
proof -
  obtain d where d: "sk_data s = Some d" "length d = unat (sk_size s)" "unat (sk_size s) < 2 ^ 29"
      "sk_growable s \<longrightarrow> sk_size s \<noteq> 0"
    using wf by (elim stack_wfE) blast
  have lt: "unat (sk_sp s) < unat (sk_size s)" using room by (simp add: word_less_nat_alt)
  then have n: "unat (sk_sp s + 1) = Suc (unat (sk_sp s))"
    using d(3) by (simp add: unat_word_ariths)
  let ?s = "s\<lparr>sk_data := Some (d[unat (sk_sp s) := v]), sk_sp := sk_sp s + 1\<rparr>"
  have "stack_wf ?s" using d lt n by (simp add: stack_wf_def word_le_nat_alt)
  moreover have "stack_list ?s = v # stack_list s"
    using d lt n by (simp add: stack_list_def take_Suc_conv_app_nth)
  ultimately show ?thesis using d lt by simp
qed

lemma push_u32_law:
  assumes wf: "stack_wf s" and ok: "malloc_ok malloc"
  shows "\<exists>b s'. push_u32 malloc s v = Some (b, s') \<and> stack_wf s' \<and>
    stack_list s' = (if b then v # stack_list s else stack_list s) \<and>
    sk_growable s' = sk_growable s \<and> (\<not> b \<longrightarrow> s' = s) \<and> (sk_sp s < sk_size s \<longrightarrow> b) \<and>
    (\<not> sk_growable s \<longrightarrow> (b \<longleftrightarrow> sk_sp s < sk_size s) \<and> sk_size s' = sk_size s)"
proof (cases "sk_sp s = sk_size s")
  case False
  with wf have lt: "sk_sp s < sk_size s"
    by (auto simp: stack_wf_def split: option.splits)
  from push_room [OF wf lt, of v] lt False show ?thesis
    by (auto simp: push_u32_def)
next
  case True
  then obtain b s1 where g: "stack_grow malloc s = Some (b, s1)" "stack_wf s1"
      "stack_list s1 = stack_list s" "sk_sp s1 = sk_sp s" "sk_growable s1 = sk_growable s"
      "\<not> b \<longrightarrow> s1 = s" "b \<longrightarrow> sk_growable s \<and> sk_sp s1 < sk_size s1"
    using stack_grow_law [OF wf ok] by blast
  show ?thesis
  proof (cases b)
    case False
    with g True wf show ?thesis
      by (intro exI [of _ False] exI [of _ s]) (simp add: push_u32_def)
  next
    case b: True
    with g push_room [of s1 v] True show ?thesis by (auto simp: push_u32_def)
  qed
qed

lemma pop_u32_law:
  assumes wf: "stack_wf s" and c: "stack_list s = v # vs"
  shows "\<exists>s'. pop_u32 s = Some (v, s') \<and> stack_wf s' \<and> stack_list s' = vs \<and>
    sk_size s' = sk_size s \<and> sk_growable s' = sk_growable s"
proof -
  obtain d where d: "sk_data s = Some d" "length d = unat (sk_size s)" "unat (sk_size s) < 2 ^ 29"
      "unat (sk_sp s) \<le> unat (sk_size s)" "sk_growable s \<longrightarrow> sk_size s \<noteq> 0"
    using wf by (elim stack_wfE) blast
  have pos: "0 < unat (sk_sp s)" using c length_stack_list [OF wf] by simp
  then have n: "unat (sk_sp s - 1) = unat (sk_sp s) - 1"
    by (simp add: unat_sub word_le_nat_alt)
  have "take (unat (sk_sp s)) d = take (unat (sk_sp s) - 1) d @ [d ! (unat (sk_sp s) - 1)]"
    using pos d take_Suc_conv_app_nth [of "unat (sk_sp s) - 1" d] by simp
  then have "v = d ! (unat (sk_sp s) - 1)" "vs = rev (take (unat (sk_sp s) - 1) d)"
    using c d(1) by (simp_all add: stack_list_def)
  then show ?thesis
    using d pos n by (auto simp: pop_u32_def stack_wf_def stack_list_def Let_def word_le_nat_alt)
qed

lemma malloc_ok_no_malloc [simp]: "malloc_ok no_malloc"
  by (simp add: malloc_ok_def no_malloc_def)

lemma lifo_stack: "malloc_ok malloc \<Longrightarrow> lifo (push_u32 malloc) pop_u32 stack_wf stack_list"
  by unfold_locales (use push_u32_law pop_u32_law in blast)+

text \<open>The stacks over a fixed array (mark stack, print stack, default evaluation stack).\<close>

definition fixed_stack :: "stack \<Rightarrow> bool" where
  "fixed_stack s \<longleftrightarrow> stack_wf s \<and> \<not> sk_growable s"

interpretation fstack: bounded_lifo "push_u32 no_malloc" pop_u32 fixed_stack stack_list
  "\<lambda>s. unat (sk_size s)"
proof unfold_locales
  fix s v
  assume s: "fixed_stack s"
  then show "\<exists>b s'. push_u32 no_malloc s v = Some (b, s') \<and> fixed_stack s' \<and>
      stack_list s' = (if b then v # stack_list s else stack_list s)"
    using push_u32_law [OF _ malloc_ok_no_malloc, of s v] unfolding fixed_stack_def by fastforce
  fix b s'
  assume "push_u32 no_malloc s v = Some (b, s')"
  with s show "(b \<longleftrightarrow> length (stack_list s) < unat (sk_size s)) \<and> unat (sk_size s') = unat (sk_size s)"
    using push_u32_law [OF _ malloc_ok_no_malloc, of s v]
    by (auto simp: fixed_stack_def length_stack_list word_less_nat_alt)
next
  fix s v vs
  assume "fixed_stack s" and "stack_list s = v # vs"
  then show "\<exists>s'. pop_u32 s = Some (v, s') \<and> fixed_stack s' \<and> stack_list s' = vs"
    using pop_u32_law unfolding fixed_stack_def by fastforce
qed

lemma push_u32_seq:
  "push_u32_2 malloc s a b = push_seq (push_u32 malloc) s [a, b]"
  "push_u32_3 malloc s a b c = push_seq (push_u32 malloc) s [a, b, c]"
  "push_u32_4 malloc s a b c d = push_seq (push_u32 malloc) s [a, b, c, d]"
  "push_u32_5 malloc s a b c d e = push_seq (push_u32 malloc) s [a, b, c, d, e]"
  by (simp_all add: push_u32_2_def push_u32_3_def push_u32_4_def push_u32_5_def
      split: bind_split prod.split)

lemma pop_u32_seq:
  "pop_seq pop_u32 2 s = map_option (\<lambda>(a, b, s). ([a, b], s)) (pop_u32_2 s)"
  "pop_seq pop_u32 3 s = map_option (\<lambda>(a, b, c, s). ([a, b, c], s)) (pop_u32_3 s)"
  "pop_seq pop_u32 4 s = map_option (\<lambda>(a, b, c, d, s). ([a, b, c, d], s)) (pop_u32_4 s)"
  "pop_seq pop_u32 5 s = map_option (\<lambda>(a, b, c, d, e, s). ([a, b, c, d, e], s)) (pop_u32_5 s)"
  by (simp_all add: pop_u32_2_def pop_u32_3_def pop_u32_4_def pop_u32_5_def eval_nat_numeral
      split: bind_split prod.split)

lemma stack_drop_law:
  assumes wf: "stack_wf s" and c: "stack_list s = vs @ rest" and n: "unat n = length vs"
  shows "\<exists>s'. stack_drop s n = (True, s') \<and> stack_wf s' \<and> stack_list s' = rest"
proof -
  obtain d where d: "sk_data s = Some d" "length d = unat (sk_size s)" "unat (sk_size s) < 2 ^ 29"
      "unat (sk_sp s) \<le> unat (sk_size s)" "sk_growable s \<longrightarrow> sk_size s \<noteq> 0"
    using wf by (elim stack_wfE) blast
  have le: "unat n \<le> unat (sk_sp s)" using c n length_stack_list [OF wf] by simp
  then have u: "unat (sk_sp s - n) = unat (sk_sp s) - unat n"
    by (simp add: unat_sub word_le_nat_alt)
  have "rest = drop (length vs) (rev (take (unat (sk_sp s)) d))"
    using c d(1) by (simp add: stack_list_def)
  also have "\<dots> = rev (take (unat (sk_sp s) - unat n) d)"
    using n le d by (simp add: drop_rev min_def)
  finally have "rest = rev (take (unat (sk_sp s) - unat n) d)" .
  then show ?thesis
    using d le u by (auto simp: stack_drop_def stack_wf_def stack_list_def word_le_nat_alt
        word_less_nat_alt)
qed

lemma stack_create_law:
  assumes "length d = unat n" and "unat n < 2 ^ 29"
  shows "\<exists>s'. stack_create s d n = (True, s') \<and> fixed_stack s' \<and> stack_list s' = [] \<and> sk_size s' = n"
  using assms by (simp add: stack_create_def fixed_stack_def stack_wf_def stack_list_def)

lemma stack_is_empty_iff: "stack_wf s \<Longrightarrow> stack_is_empty s \<longleftrightarrow> stack_list s = []"
  using length_stack_list [of s] by (auto simp: stack_is_empty_def unat_eq_zero)

lemma stack_allocate_law:
  assumes "malloc_ok malloc" and "unat n < 2 ^ 29" and "growable \<longrightarrow> n \<noteq> 0"
  shows "\<exists>b s'. stack_allocate malloc s n growable = (b, s') \<and>
    (b \<longrightarrow> stack_wf s' \<and> stack_list s' = [] \<and> sk_size s' = n \<and> sk_growable s' = growable)"
proof -
  have "unat (4 * n) = 4 * unat n" using assms(2) by (simp add: unat_word_ariths)
  then show ?thesis
    using assms by (auto simp: stack_allocate_def Let_def stack_wf_def stack_list_def malloc_ok_def)
qed

lemma stack_copy_grow_law:
  "stack_wf dest \<Longrightarrow> malloc_ok malloc \<Longrightarrow> sk_growable dest \<Longrightarrow>
     \<exists>b dest'. stack_copy_grow malloc dest n = Some (b, dest') \<and> stack_wf dest' \<and>
       stack_list dest' = stack_list dest \<and> (b \<longrightarrow> n \<le> sk_size dest')"
proof (induction "unat n - unat (sk_size dest)" arbitrary: dest rule: less_induct)
  case less
  show ?case
  proof (cases "sk_size dest < n")
    case False
    with less.prems show ?thesis
      by (intro exI [of _ True] exI [of _ dest]) (subst stack_copy_grow.simps, simp add: not_less [symmetric])
  next
    case True
    obtain b d1 where g: "stack_grow malloc dest = Some (b, d1)" "stack_wf d1"
        "stack_list d1 = stack_list dest" "sk_growable d1 = sk_growable dest"
        "b \<longrightarrow> unat (sk_size d1) = 2 * unat (sk_size dest) \<and> sk_size dest \<noteq> 0"
      using stack_grow_law [OF less.prems(1,2)] by blast
    show ?thesis
    proof (cases b)
      case False
      with g True show ?thesis
        by (intro exI [of _ False] exI [of _ d1]) (subst stack_copy_grow.simps, simp)
    next
      case b: True
      with g(5) unat_gt_0 [of "sk_size dest"] have "unat (sk_size dest) < unat (sk_size d1)" by simp
      with True have "unat n - unat (sk_size d1) < unat n - unat (sk_size dest)"
        by (simp add: word_less_nat_alt)
      from less.hyps [OF this] g less.prems b True show ?thesis
        by (subst stack_copy_grow.simps) auto
    qed
  qed
qed

subsection \<open>Properties\<close>

text \<open>a push onto a well-formed stack never leaves the array, keeps the stack well formed and
  puts the value on top; when it is refused (the stack is full, and it may not grow or there is no
  memory to grow) the stack is unchanged.\<close>

theorem push_u32_correct:
  assumes "stack_wf s" and "malloc_ok malloc"
  shows "\<exists>b s'. push_u32 malloc s v = Some (b, s') \<and> stack_wf s' \<and>
    stack_list s' = (if b then v # stack_list s else stack_list s) \<and>
    (\<not> b \<longrightarrow> s' = s \<and> sk_sp s = sk_size s) \<and> (sk_sp s < sk_size s \<longrightarrow> b)"
proof -
  have "\<not> sk_sp s < sk_size s \<Longrightarrow> sk_sp s = sk_size s"
    using assms(1) by (auto simp: stack_wf_def split: option.splits)
  then show ?thesis using push_u32_law [OF assms, of v] by metis
qed

definition two_slots :: stack where
  "two_slots = \<lparr>sk_data = Some [7, 0], sk_sp = 1, sk_size = 2, sk_growable = False\<rparr>"

theorem push_u32_correct_witness:
  "\<exists>b s'. push_u32 no_malloc two_slots 9 = Some (b, s') \<and> stack_wf s' \<and>
    stack_list s' = (if b then 9 # stack_list two_slots else stack_list two_slots) \<and>
    (\<not> b \<longrightarrow> s' = two_slots \<and> sk_sp two_slots = sk_size two_slots) \<and>
    (sk_sp two_slots < sk_size two_slots \<longrightarrow> b)"
  by (rule push_u32_correct) (simp_all add: two_slots_def stack_wf_def)

text \<open>five values pushed by a successful \<open>push_u32_5\<close> come back in the opposite order from
  \<open>pop_u32_5\<close>, and the stack under them is what it was.\<close>

theorem push_u32_5_pop_u32_5:
  assumes "stack_wf s" and "malloc_ok malloc" and "push_u32_5 malloc s a b c d e = Some (True, s1)"
  shows "\<exists>s2. pop_u32_5 s1 = Some (e, d, c, b, a, s2) \<and> stack_wf s2 \<and> stack_list s2 = stack_list s"
  using lifo.push_seq_pop_seq [OF lifo_stack [OF assms(2)] assms(1), of "[a, b, c, d, e]" s1]
    assms(3) pop_u32_seq(4) [of s1]
  by (auto simp: push_u32_seq eval_nat_numeral simp del: push_seq.simps pop_seq.simps)

definition eight_slots :: stack where
  "eight_slots = \<lparr>sk_data = Some [7, 0, 0, 0, 0, 0, 0, 0], sk_sp = 1, sk_size = 8, sk_growable = False\<rparr>"

theorem push_u32_5_pop_u32_5_witness:
  "\<exists>s1 s2. push_u32_5 no_malloc eight_slots 1 2 3 4 5 = Some (True, s1) \<and>
    pop_u32_5 s1 = Some (5, 4, 3, 2, 1, s2) \<and> stack_wf s2 \<and> stack_list s2 = stack_list eight_slots"
proof -
  have "stack_wf eight_slots" by (simp add: eight_slots_def stack_wf_def)
  moreover obtain s1 where "push_u32_5 no_malloc eight_slots 1 2 3 4 5 = Some (True, s1)"
    by (simp add: push_u32_5_def push_u32_def eight_slots_def)
  ultimately show ?thesis using push_u32_5_pop_u32_5 [of eight_slots no_malloc 1 2 3 4 5 s1] by auto
qed

text \<open>\<open>stack_copy\<close> into a well-formed stack always returns; when it reports success the
  destination holds exactly the elements of the source.\<close>

theorem stack_copy_correct:
  assumes "stack_wf dest" and "stack_wf src" and "malloc_ok malloc"
  shows "\<exists>b dest'. stack_copy malloc dest src = Some (b, dest') \<and> stack_wf dest' \<and>
    stack_list dest' = (if b then stack_list src else stack_list dest)"
proof -
  obtain b d1 where g: "(if sk_growable dest then stack_copy_grow malloc dest (sk_sp src)
      else Some (True, dest)) = Some (b, d1)" "stack_wf d1" "stack_list d1 = stack_list dest"
    using stack_copy_grow_law [OF assms(1,3), of "sk_sp src"] assms(1) by (cases "sk_growable dest") auto
  show ?thesis
  proof (cases "b \<and> sk_size src \<le> sk_size d1")
    case False
    with g show ?thesis by (intro exI [of _ False] exI [of _ d1]) (auto simp: stack_copy_def)
  next
    case True
    obtain s where s: "sk_data src = Some s" "length s = unat (sk_size src)" "sk_sp src \<le> sk_size src"
      using assms(2) by (auto simp: stack_wf_def split: option.splits)
    obtain d where d: "sk_data d1 = Some d" "length d = unat (sk_size d1)" "unat (sk_size d1) < 2 ^ 29"
        "sk_growable d1 \<longrightarrow> sk_size d1 \<noteq> 0"
      using g(2) by (auto simp: stack_wf_def split: option.splits)
    let ?d = "d1\<lparr>sk_sp := sk_sp src,
      sk_data := Some (take (unat (sk_sp src)) s @ drop (unat (sk_sp src)) d)\<rparr>"
    have le: "unat (sk_sp src) \<le> unat (sk_size src)" "unat (sk_sp src) \<le> unat (sk_size d1)"
      using True s(3) by (auto simp: word_le_nat_alt)
    then have "stack_copy malloc dest src = Some (True, ?d)"
      using g(1) True s d by (simp add: stack_copy_def not_less [symmetric])
    moreover have "stack_wf ?d" "stack_list ?d = stack_list src"
      using le s d by (auto simp: stack_wf_def stack_list_def word_le_nat_alt)
    ultimately show ?thesis by auto
  qed
qed

theorem stack_copy_correct_witness:
  "\<exists>b dest'. stack_copy no_malloc eight_slots two_slots = Some (b, dest') \<and> stack_wf dest' \<and>
    stack_list dest' = (if b then stack_list two_slots else stack_list eight_slots)"
  by (rule stack_copy_correct) (simp_all add: eight_slots_def two_slots_def stack_wf_def)

text \<open>C39: \<open>push_k\<close> writes before it looks at the size, so on a full stack it writes past the
  end of the array, where \<open>push_u32\<close> refuses.\<close>

theorem push_k_full_out_of_bounds:
  assumes "stack_wf s" and "sk_sp s = sk_size s" and "\<not> sk_growable s"
  shows "push_k malloc s k = None \<and> push_u32 malloc s k = Some (False, s)"
  using assms by (auto simp: push_k_def push_u32_def stack_grow_def stack_wf_def split: option.splits)

theorem push_k_full_out_of_bounds_witness:
  "push_k no_malloc (two_slots\<lparr>sk_sp := 2\<rparr>) 5 = None \<and>
   push_u32 no_malloc (two_slots\<lparr>sk_sp := 2\<rparr>) 5 = Some (False, two_slots\<lparr>sk_sp := 2\<rparr>)"
  by (rule push_k_full_out_of_bounds) (simp_all add: two_slots_def stack_wf_def)

end
