(* ===== verification/Memory.thy ===== *)
theory Memory
  imports Prelude
begin

text \<open>
  The allocator of \<open>src/memory.c\<close>: a word array and, for each word, two status bits in a bitmap.
  It stores the arrays, strings and symbol names of the run-time system.

  The file-scope variables are a record; a \<open>NULL\<close> array is \<open>None\<close>. Pointers are 32-bit addresses and
  \<open>NULL\<close> is 0. \<open>None\<close> as the result of an operation means that it indexes outside the bitmap.
\<close>

record memory_state =
  ms_bitmap :: "u32 list option"
  ms_memory :: "u32 list option"
  ms_memory_size :: u32
  ms_bitmap_size :: u32
  ms_base :: u32

subsection \<open>Operations of memory.c\<close>

abbreviation (input) "FREE_OR_USED \<equiv> (0 :: u32)"
abbreviation (input) "END \<equiv> (1 :: u32)"
abbreviation (input) "START \<equiv> (2 :: u32)"
abbreviation (input) "START_END \<equiv> (3 :: u32)"

datatype alloc_state = INIT | FREE_LENGTH_CHECK | SKIP | ALLOC_DONE

text \<open>
  \<open>memory_init\<close> gets each array as its address and its words (\<open>None\<close> for \<open>NULL\<close>).
\<close>

definition memory_init ::
  "memory_state \<Rightarrow> (u32 \<times> u32 list) option \<Rightarrow> u32 \<Rightarrow> (u32 \<times> u32 list) option \<Rightarrow> u32
   \<Rightarrow> (bool \<times> memory_state) option" where
  "memory_init m data data_size bits bits_size =
     (case data of None \<Rightarrow> Some (False, m)
      | Some (data_addr, data_words) \<Rightarrow>
     (case bits of None \<Rightarrow> Some (False, m)
      | Some (bits_addr, bits_words) \<Rightarrow>
        if data_addr mod 4 \<noteq> 0 \<or> data_size \<noteq> 16 * bits_size \<or> data_size mod 4 \<noteq> 0 \<or>
           bits_addr mod 4 \<noteq> 0 \<or> bits_size < 1 \<or> bits_size mod 4 \<noteq> 0
        then Some (False, m)
        else
          let n = drop_bit 2 bits_size in
          if length bits_words < unat n then None
          else Some (True,
            m\<lparr>ms_bitmap := Some (replicate (unat n) 0 @ drop (unat n) bits_words),
              ms_bitmap_size := n,
              ms_memory := Some data_words,
              ms_base := data_addr,
              ms_memory_size := drop_bit 2 data_size\<rparr>)))"

definition address_to_bitmap_ix :: "memory_state \<Rightarrow> u32 \<Rightarrow> u32" where
  "address_to_bitmap_ix m ptr = drop_bit 2 (ptr - ms_base m)"

definition bitmap_ix_to_address :: "memory_state \<Rightarrow> u32 \<Rightarrow> u32" where
  "bitmap_ix_to_address m ix = ms_base m + push_bit 2 ix"

definition status :: "memory_state \<Rightarrow> u32 \<Rightarrow> u32 option" where
  "status m i = do {
     let ix = push_bit 1 i;
     let word_ix = drop_bit 5 ix;
     let bit_ix = ix AND 0x1F;
     let mask = push_bit (unat bit_ix) 3;
     bm \<leftarrow> ms_bitmap m;
     w \<leftarrow> arr_get bm (unat word_ix);
     Some (drop_bit (unat bit_ix) (w AND mask))
   }"

definition set_status :: "memory_state \<Rightarrow> u32 \<Rightarrow> u32 \<Rightarrow> memory_state option" where
  "set_status m i st = do {
     let ix = push_bit 1 i;
     let word_ix = drop_bit 5 ix;
     let bit_ix = ix AND 0x1F;
     let clr_mask = NOT (push_bit (unat bit_ix) 3);
     let mask = push_bit (unat bit_ix) st;
     bm \<leftarrow> ms_bitmap m;
     w \<leftarrow> arr_get bm (unat word_ix);
     bm \<leftarrow> arr_set bm (unat word_ix) ((w AND clr_mask) OR mask);
     Some (m\<lparr>ms_bitmap := Some bm\<rparr>)
   }"

definition memory_num_words :: "memory_state \<Rightarrow> u32" where
  "memory_num_words m = ms_memory_size m"

text \<open>The loop of \<open>memory_num_free\<close>; the statuses are two bits, so the \<open>default\<close> case is the last.\<close>

function num_free_loop :: "memory_state \<Rightarrow> u32 \<Rightarrow> u32 \<Rightarrow> alloc_state \<Rightarrow> u32 \<Rightarrow> u32 option" where
  "num_free_loop m n i state sum_length =
     (if i < n then do {
        st \<leftarrow> status m i;
        if st = FREE_OR_USED then
          (case state of
             INIT \<Rightarrow> num_free_loop m n (i + 1) FREE_LENGTH_CHECK (sum_length + 1)
           | FREE_LENGTH_CHECK \<Rightarrow> num_free_loop m n (i + 1) FREE_LENGTH_CHECK (sum_length + 1)
           | _ \<Rightarrow> num_free_loop m n (i + 1) state sum_length)
        else if st = END then num_free_loop m n (i + 1) INIT sum_length
        else if st = START then num_free_loop m n (i + 1) SKIP sum_length
        else if st = START_END then num_free_loop m n (i + 1) INIT sum_length
        else Some 0
      } else Some sum_length)"
  by pat_completeness auto
termination
  by (relation "measure (\<lambda>(m, n, i, st, sm). unat n - unat i)") (auto simp: word_loop_step)

definition memory_num_free :: "memory_state \<Rightarrow> u32 option" where
  "memory_num_free m =
     (if ms_memory m = None \<or> ms_bitmap m = None then Some 0
      else num_free_loop m (push_bit 4 (ms_bitmap_size m)) 0 INIT 0)"

text \<open>
  The loop of \<open>memory_allocate\<close> over \<open>(start_ix, end_ix, free_length, state)\<close>. It ends with
  \<open>Inl\<close> where the C code returns \<open>NULL\<close> from inside the loop.
\<close>

type_synonym alloc_vars = "u32 \<times> u32 \<times> u32 \<times> alloc_state"

definition alloc_step :: "u32 \<Rightarrow> u32 \<Rightarrow> u32 \<Rightarrow> alloc_vars \<Rightarrow> unit + alloc_vars" where
  "alloc_step num_words i st vars =
     (case vars of (start_ix, end_ix, free_length, state) \<Rightarrow>
        if st = FREE_OR_USED then
          (case state of
             INIT \<Rightarrow>
               if num_words = 1 then Inr (i, i, free_length, ALLOC_DONE)
               else Inr (i, end_ix, 1, FREE_LENGTH_CHECK)
           | FREE_LENGTH_CHECK \<Rightarrow>
               if free_length + 1 = num_words then Inr (start_ix, i, free_length + 1, ALLOC_DONE)
               else Inr (start_ix, end_ix, free_length + 1, FREE_LENGTH_CHECK)
           | _ \<Rightarrow> Inr vars)
        else if st = END then Inr (start_ix, end_ix, free_length, INIT)
        else if st = START then Inr (start_ix, end_ix, free_length, SKIP)
        else if st = START_END then Inr (start_ix, end_ix, free_length, INIT)
        else Inl ())"

function alloc_loop ::
  "memory_state \<Rightarrow> u32 \<Rightarrow> u32 \<Rightarrow> u32 \<Rightarrow> alloc_vars \<Rightarrow> (unit + alloc_vars) option" where
  "alloc_loop m num_words n i vars =
     (if i < n then
        if snd (snd (snd vars)) = ALLOC_DONE then Some (Inr vars)
        else do {
          st \<leftarrow> status m i;
          case alloc_step num_words i st vars of
            Inl u \<Rightarrow> Some (Inl u)
          | Inr vars \<Rightarrow> alloc_loop m num_words n (i + 1) vars
        }
      else Some (Inr vars))"
  by pat_completeness auto
termination
  by (relation "measure (\<lambda>(m, nw, n, i, vars). unat n - unat i)") (auto simp: word_loop_step)

definition memory_allocate :: "memory_state \<Rightarrow> u32 \<Rightarrow> (u32 \<times> memory_state) option" where
  "memory_allocate m num_words =
     (if ms_memory m = None \<or> ms_bitmap m = None then Some (0, m)
      else do {
        r \<leftarrow> alloc_loop m num_words (push_bit 4 (ms_bitmap_size m)) 0 (0, 0, 0, INIT);
        case r of
          Inl u \<Rightarrow> Some (0, m)
        | Inr (start_ix, end_ix, free_length, state) \<Rightarrow>
            if state = ALLOC_DONE then do {
              m \<leftarrow> (if start_ix = end_ix then set_status m start_ix START_END
                   else do {
                     m \<leftarrow> set_status m start_ix START;
                     set_status m end_ix END
                   });
              Some (bitmap_ix_to_address m start_ix, m)
            } else Some (0, m)
      })"

function free_loop :: "memory_state \<Rightarrow> u32 \<Rightarrow> u32 \<Rightarrow> (bool \<times> memory_state) option" where
  "free_loop m n i =
     (if i < n then do {
        st \<leftarrow> status m i;
        if st = END then do {
          m \<leftarrow> set_status m i FREE_OR_USED;
          Some (True, m)
        } else free_loop m n (i + 1)
      } else Some (False, m))"
  by pat_completeness auto
termination
  by (relation "measure (\<lambda>(m, n, i). unat n - unat i)") (auto simp: word_loop_step)

definition memory_free :: "memory_state \<Rightarrow> u32 \<Rightarrow> (bool \<times> memory_state) option" where
  "memory_free m ptr = do {
     let ix = address_to_bitmap_ix m ptr;
     st \<leftarrow> status m ix;
     if st = START then do {
       m \<leftarrow> set_status m ix FREE_OR_USED;
       free_loop m (push_bit 4 (ms_bitmap_size m)) ix
     }
     else if st = START_END then do {
       m \<leftarrow> set_status m ix FREE_OR_USED;
       Some (True, m)
     }
     else Some (False, m)
   }"

declare num_free_loop.simps [simp del] alloc_loop.simps [simp del] free_loop.simps [simp del]

text \<open>
  C pointers into the managed words, as the array and symbol code uses them: a word access needs
  an aligned address inside the area; a byte access goes through the little-endian word.
\<close>

definition mem_ix :: "memory_state \<Rightarrow> u32 \<Rightarrow> nat" where
  "mem_ix m a = unat (a - ms_base m) div 4"

definition mem_read :: "memory_state \<Rightarrow> u32 \<Rightarrow> u32 option" where
  "mem_read m a = do {
     ws \<leftarrow> ms_memory m;
     if a mod 4 = 0 then arr_get ws (mem_ix m a) else None
   }"

definition mem_write :: "memory_state \<Rightarrow> u32 \<Rightarrow> u32 \<Rightarrow> memory_state option" where
  "mem_write m a v = do {
     ws \<leftarrow> ms_memory m;
     if a mod 4 = 0 then do {
       ws \<leftarrow> arr_set ws (mem_ix m a) v;
       Some (m\<lparr>ms_memory := Some ws\<rparr>)
     } else None
   }"

definition mem_read_byte :: "memory_state \<Rightarrow> u32 \<Rightarrow> 8 word option" where
  "mem_read_byte m a = do {
     ws \<leftarrow> ms_memory m;
     w \<leftarrow> arr_get ws (mem_ix m a);
     Some (ucast (drop_bit (8 * (unat (a - ms_base m) mod 4)) w))
   }"

definition mem_write_byte :: "memory_state \<Rightarrow> u32 \<Rightarrow> 8 word \<Rightarrow> memory_state option" where
  "mem_write_byte m a c = do {
     ws \<leftarrow> ms_memory m;
     w \<leftarrow> arr_get ws (mem_ix m a);
     let sh = 8 * (unat (a - ms_base m) mod 4);
     ws \<leftarrow> arr_set ws (mem_ix m a) ((w AND NOT (push_bit sh 0xFF)) OR push_bit sh (ucast c));
     Some (m\<lparr>ms_memory := Some ws\<rparr>)
   }"

end
