(* ===== verification/Memory_Spec.thy ===== *)
theory Memory_Spec
  imports Prelude
begin

text \<open>
  What the word allocator promises, without bitmaps: the managed area is a row of segments, each
  a single free word or a block of consecutive allocated words. \<open>seg_enc\<close> is the status bit pattern
  documented in \<open>include/memory.h\<close>; \<open>seg_parse\<close> reads a row of segments back from statuses.
\<close>

datatype seg = Free | Block nat

primrec seg_len :: "seg \<Rightarrow> nat" where
  "seg_len Free = 1"
| "seg_len (Block n) = n"

primrec seg_ok :: "seg \<Rightarrow> bool" where
  "seg_ok Free = True"
| "seg_ok (Block n) = (0 < n)"

primrec seg_enc :: "seg \<Rightarrow> u32 list" where
  "seg_enc Free = [0]"
| "seg_enc (Block n) = (if n = 1 then [3] else 2 # replicate (n - 2) 0 @ [1])"

definition segs_len :: "seg list \<Rightarrow> nat" where
  "segs_len ss = sum_list (map seg_len ss)"

definition segs_enc :: "seg list \<Rightarrow> u32 list" where
  "segs_enc ss = concat (map seg_enc ss)"

fun seg_parse :: "nat option \<Rightarrow> u32 list \<Rightarrow> seg list option" where
  "seg_parse None [] = Some []"
| "seg_parse (Some k) [] = None"
| "seg_parse None (s # ss) =
     (if s = 0 then map_option (Cons Free) (seg_parse None ss)
      else if s = 3 then map_option (Cons (Block 1)) (seg_parse None ss)
      else if s = 2 then seg_parse (Some 1) ss
      else None)"
| "seg_parse (Some k) (s # ss) =
     (if s = 0 then seg_parse (Some (k + 1)) ss
      else if s = 1 then map_option (Cons (Block (k + 1))) (seg_parse None ss)
      else None)"

text \<open>The lowest place with \<open>n\<close> free words in a row, given that the last \<open>k\<close> words before \<open>i\<close> are free.\<close>

fun first_fit :: "nat \<Rightarrow> nat \<Rightarrow> nat \<Rightarrow> seg list \<Rightarrow> nat option" where
  "first_fit n k i [] = None"
| "first_fit n k i (Free # ss) = (if k + 1 = n then Some (i - k) else first_fit n (k + 1) (i + 1) ss)"
| "first_fit n k i (Block l # ss) = first_fit n 0 (i + l) ss"

text \<open>A block of \<open>k\<close> words at word index \<open>p\<close>.\<close>

definition block_at :: "seg list \<Rightarrow> nat \<Rightarrow> nat \<Rightarrow> bool" where
  "block_at ss p k \<longleftrightarrow> (\<exists>A B. ss = A @ Block k # B \<and> segs_len A = p)"

definition num_free_segs :: "seg list \<Rightarrow> nat" where
  "num_free_segs ss = length (filter (\<lambda>s. s = Free) ss)"

subsection \<open>Lengths and parsing\<close>

lemma segs_len_simps [simp]:
  "segs_len [] = 0"
  "segs_len (s # ss) = seg_len s + segs_len ss"
  "segs_len (ss @ ts) = segs_len ss + segs_len ts"
  "segs_len (replicate n Free) = n"
  by (simp_all add: segs_len_def sum_list_replicate)

lemma segs_enc_simps [simp]:
  "segs_enc [] = []"
  "segs_enc (s # ss) = seg_enc s @ segs_enc ss"
  "segs_enc (ss @ ts) = segs_enc ss @ segs_enc ts"
  by (simp_all add: segs_enc_def)

lemma segs_enc_replicate [simp]: "segs_enc (replicate n Free) = replicate n 0"
  by (induction n) simp_all

lemma length_seg_enc: "seg_ok s \<Longrightarrow> length (seg_enc s) = seg_len s"
  by (cases s) auto

lemma length_segs_enc: "list_all seg_ok ss \<Longrightarrow> length (segs_enc ss) = segs_len ss"
  by (induction ss) (simp_all add: length_seg_enc)

lemma seg_parse_inside: "seg_parse (Some k) (replicate n 0 @ 1 # ss) =
    map_option (Cons (Block (k + n + 1))) (seg_parse None ss)"
  by (induction n arbitrary: k) simp_all

lemma seg_parse_enc: "list_all seg_ok ss \<Longrightarrow> seg_parse None (segs_enc ss) = Some ss"
proof (induction ss)
  case (Cons s ss)
  show ?case
  proof (cases s)
    case (Block n)
    with Cons show ?thesis
      using seg_parse_inside [of 1 "n - 2" "segs_enc ss"] by (cases "n = 1") auto
  qed (use Cons in simp)
qed simp

lemma seg_parse_sound:
  "seg_parse k sts = Some ss \<Longrightarrow>
     list_all seg_ok ss \<and>
     (case k of None \<Rightarrow> sts = segs_enc ss
      | Some j \<Rightarrow> \<exists>n B. ss = Block (j + n + 1) # B \<and> sts = replicate n 0 @ 1 # segs_enc B)"
proof (induction k sts arbitrary: ss rule: seg_parse.induct)
  case (3 s sts)
  have "s = 2 \<Longrightarrow> \<exists>n B. ss = Block (1 + n + 1) # B \<and> sts = replicate n 0 @ 1 # segs_enc B"
    using 3 by auto
  with 3 show ?case by (fastforce split: if_splits)
next
  case (4 k s sts)
  show ?case
  proof (cases "s = 0")
    case True
    with 4 obtain n B where "ss = Block (k + 1 + n + 1) # B" "sts = replicate n 0 @ 1 # segs_enc B"
        "list_all seg_ok ss" by auto
    with True show ?thesis by (auto intro!: exI [of _ "Suc n"])
  next
    case False
    with 4 show ?thesis by (auto split: if_splits intro!: exI [of _ 0])
  qed
qed simp_all

lemma seg_parse_iff: "seg_parse None sts = Some ss \<longleftrightarrow> list_all seg_ok ss \<and> sts = segs_enc ss"
  using seg_parse_sound [of None] seg_parse_enc by force

subsection \<open>First fit\<close>

lemma free_run_past_block:
  assumes eq: "replicate k Free @ Block l # ss = A @ replicate n Free @ B" and lt: "k < n"
  shows "\<exists>A'. A = replicate k Free @ Block l # A' \<and> ss = A' @ replicate n Free @ B"
proof -
  have "k < length A"
  proof (rule ccontr)
    assume le: "\<not> k < length A"
    have "(replicate k Free @ Block l # ss) ! k = Block l" by (simp add: nth_append)
    moreover have "k - length A < n" using lt by linarith
    then have "(A @ replicate n Free @ B) ! k = Free" using le by (simp add: nth_append)
    ultimately show False using eq by simp
  qed
  then have "take (Suc k) A = take (Suc k) (replicate k Free @ Block l # ss)" by (simp add: eq)
  also have "\<dots> = replicate k Free @ [Block l]" by simp
  finally have A: "A = replicate k Free @ Block l # drop (Suc k) A"
    using append_take_drop_id [of "Suc k" A] by simp
  from eq have "replicate k Free @ Block l # ss =
      replicate k Free @ Block l # (drop (Suc k) A @ replicate n Free @ B)"
    by (subst (asm) A) simp
  then show ?thesis using A by auto
qed

lemma replicate_snoc: "replicate k x @ x # xs = replicate (k + 1) x @ xs"
  by (metis append_Cons append_assoc append_Nil replicate_append_same replicate_Suc Suc_eq_plus1)

lemma first_fit_sound:
  "first_fit n k i ss = Some p \<Longrightarrow> k < n \<Longrightarrow> k \<le> i \<Longrightarrow>
     \<exists>A B. replicate k Free @ ss = A @ replicate n Free @ B \<and> p = i - k + segs_len A \<and>
       (\<forall>A' B'. replicate k Free @ ss = A' @ replicate n Free @ B' \<longrightarrow> segs_len A \<le> segs_len A')"
proof (induction n k i ss rule: first_fit.induct)
  case (2 n k i ss)
  show ?case
  proof (cases "k + 1 = n")
    case True
    with 2 show ?thesis by (intro exI [of _ "[]"] exI [of _ ss]) (auto simp: replicate_snoc)
  next
    case False
    with 2 show ?thesis by (auto simp: replicate_snoc)
  qed
next
  case (3 n k i l ss)
  then obtain A B where A: "ss = A @ replicate n Free @ B" "p = i + l + segs_len A"
      "\<And>A' B'. ss = A' @ replicate n Free @ B' \<Longrightarrow> segs_len A \<le> segs_len A'"
    by fastforce
  have "segs_len (replicate k Free @ Block l # A) \<le> segs_len A'"
    if "replicate k Free @ Block l # ss = A' @ replicate n Free @ B'" for A' B'
    using free_run_past_block [OF that 3(3)] A(3) by auto
  with A 3 show ?case
    by (intro exI [of _ "replicate k Free @ Block l # A"] exI [of _ B]) auto
qed simp

lemma first_fit_complete:
  "first_fit n k i ss = None \<Longrightarrow> k < n \<Longrightarrow> replicate k Free @ ss \<noteq> A @ replicate n Free @ B"
proof (induction n k i ss arbitrary: A rule: first_fit.induct)
  case (1 n k i)
  then have "length (replicate k Free @ []) < length (A @ replicate n Free @ B)" by simp
  then show ?case by (metis less_irrefl)
next
  case (2 n k i ss)
  then have "replicate (k + 1) Free @ ss \<noteq> A @ replicate n Free @ B" by (simp split: if_splits)
  then show ?case by (simp only: replicate_snoc not_False_eq_True)
next
  case (3 n k i l ss)
  then show ?case using free_run_past_block [of k l ss A n B] by fastforce
qed

subsection \<open>Blocks\<close>

lemma append_Cons_eq_cases:
  assumes "A @ x # B = C @ y # D"
  obtains "A = C" "x = y" "B = D"
  | X where "C = A @ x # X" "B = X @ y # D"
  | X where "A = C @ y # X" "D = X @ x # B"
  using assms by (auto simp: append_eq_append_conv2 Cons_eq_append_conv append_eq_Cons_conv)

lemma append3_eq_Cons_cases:
  assumes "A @ C @ B = A1 @ x # B1"
  obtains (left) X where "A = A1 @ x # X" | (mid) "x \<in> set C"
  | (right) Y where "A1 = A @ C @ Y" "B = Y @ x # B1"
  using assms by (fastforce simp: append_eq_append_conv2 append_eq_Cons_conv Cons_eq_append_conv)

lemma block_at_append:
  "block_at (A @ C @ B) p k \<Longrightarrow> list_all (\<lambda>s. s = Free) C \<Longrightarrow> segs_len C = segs_len C' \<Longrightarrow>
     block_at (A @ C' @ B) p k"
proof -
  assume b: "block_at (A @ C @ B) p k" and C: "list_all (\<lambda>s. s = Free) C"
    and len: "segs_len C = segs_len C'"
  obtain A1 B1 where eq: "A @ C @ B = A1 @ Block k # B1" and p: "segs_len A1 = p"
    using b by (auto simp: block_at_def)
  from eq show ?thesis
  proof (cases rule: append3_eq_Cons_cases)
    case left
    with p show ?thesis by (auto simp: block_at_def)
  next
    case mid
    with C show ?thesis by (auto simp: list_all_iff)
  next
    case (right Y)
    with p len show ?thesis
      unfolding block_at_def by (intro exI [of _ "A @ C' @ Y"] exI [of _ B1]) simp
  qed
qed

lemma block_at_free_run:
  assumes "block_at (A @ replicate n Free @ B) p k"
  shows "p + k \<le> segs_len A \<or> segs_len A + n \<le> p"
proof -
  obtain A1 B1 where eq: "A @ replicate n Free @ B = A1 @ Block k # B1" and p: "segs_len A1 = p"
    using assms by (auto simp: block_at_def)
  from eq show ?thesis using p by (cases rule: append3_eq_Cons_cases) auto
qed

lemma list_all_replicate_Free: "list_all (\<lambda>s. s = Free) (replicate n Free)"
  by (simp add: list_all_iff)

lemma block_at_disjoint:
  assumes "block_at ss p k" and "block_at ss q l"
  shows "p = q \<and> k = l \<or> p + k \<le> q \<or> q + l \<le> p"
proof -
  obtain A B where 1: "ss = A @ Block k # B" "segs_len A = p"
    using assms(1) by (auto simp: block_at_def)
  obtain C D where 2: "ss = C @ Block l # D" "segs_len C = q"
    using assms(2) by (auto simp: block_at_def)
  from 1(1) 2(1) have "A @ Block k # B = C @ Block l # D" by simp
  then show ?thesis using 1(2) 2(2) by (cases rule: append_Cons_eq_cases) auto
qed

lemma block_at_bound: "block_at ss p k \<Longrightarrow> p + k \<le> segs_len ss"
  by (auto simp: block_at_def)

lemma num_free_segs_simps [simp]:
  "num_free_segs [] = 0"
  "num_free_segs (s # ss) = (if s = Free then 1 else 0) + num_free_segs ss"
  "num_free_segs (ss @ ts) = num_free_segs ss + num_free_segs ts"
  "num_free_segs (replicate n Free) = n"
  by (simp_all add: num_free_segs_def)

subsection \<open>The contract of an allocator\<close>

text \<open>
  \<open>segs\<close> is the row of segments of a state and \<open>addr\<close> the address of a word. Allocation replaces
  \<open>n\<close> free words by one block or returns \<open>NULL\<close> because there is no such place; freeing a block
  turns it back into free words.
\<close>

locale allocator =
  fixes alloc :: "'m \<Rightarrow> u32 \<Rightarrow> (u32 \<times> 'm) option"
    and free :: "'m \<Rightarrow> u32 \<Rightarrow> (bool \<times> 'm) option"
    and inv :: "'m \<Rightarrow> bool"
    and segs :: "'m \<Rightarrow> seg list"
    and addr :: "'m \<Rightarrow> nat \<Rightarrow> u32"
  assumes alloc_law: "inv m \<Longrightarrow> 0 < unat n \<Longrightarrow> \<exists>r m'. alloc m n = Some (r, m') \<and> inv m' \<and> addr m' = addr m \<and>
        (if r = 0 then m' = m \<and> (\<nexists>A B. segs m = A @ replicate (unat n) Free @ B)
         else \<exists>A B. segs m = A @ replicate (unat n) Free @ B \<and> segs m' = A @ Block (unat n) # B \<and>
               r = addr m (segs_len A))"
    and free_law: "inv m \<Longrightarrow> segs m = A @ Block k # B \<Longrightarrow>
        \<exists>m'. free m (addr m (segs_len A)) = Some (True, m') \<and> inv m' \<and> addr m' = addr m \<and>
             segs m' = A @ replicate k Free @ B"
    and addr_inj: "inv m \<Longrightarrow> p < segs_len (segs m) \<Longrightarrow> q < segs_len (segs m) \<Longrightarrow>
        addr m p = addr m q \<Longrightarrow> p = q"
begin

lemma alloc_block:
  assumes "inv m" and "0 < unat n" and "alloc m n = Some (r, m')" and "r \<noteq> 0"
  shows "\<exists>p. r = addr m p \<and> block_at (segs m') p (unat n) \<and>
    num_free_segs (segs m') + unat n = num_free_segs (segs m)"
  using alloc_law [OF assms(1,2)] assms(3,4) by (fastforce simp: block_at_def)

lemma alloc_keeps_blocks:
  assumes "inv m" and "0 < unat n" and "alloc m n = Some (r, m')" and "block_at (segs m) p k"
  shows "block_at (segs m') p k"
proof (cases "r = 0")
  case True
  with alloc_law [OF assms(1,2)] assms(3,4) show ?thesis by auto
next
  case False
  then obtain A B where "segs m = A @ replicate (unat n) Free @ B" "segs m' = A @ [Block (unat n)] @ B"
    using alloc_law [OF assms(1,2)] assms(3) by auto
  then show ?thesis
    using block_at_append [of A "replicate (unat n) Free" B p k "[Block (unat n)]"] assms(4)
    by (auto simp: list_all_replicate_Free)
qed

lemma alloc_disjoint:
  assumes "inv m" and "0 < unat n" and "alloc m n = Some (r, m')" and "r \<noteq> 0"
    and "block_at (segs m) p k"
  shows "\<exists>q. r = addr m q \<and> block_at (segs m') q (unat n) \<and> (p + k \<le> q \<or> q + unat n \<le> p)"
proof -
  obtain A B where AB: "segs m = A @ replicate (unat n) Free @ B" "segs m' = A @ Block (unat n) # B"
      "r = addr m (segs_len A)"
    using alloc_law [OF assms(1,2)] assms(3,4) by auto
  then have "block_at (segs m') (segs_len A) (unat n)" by (auto simp: block_at_def)
  with AB block_at_free_run [of A "unat n" B p k] assms(5) show ?thesis by auto
qed

lemma free_block:
  assumes "inv m" and "block_at (segs m) p k"
  shows "\<exists>m'. free m (addr m p) = Some (True, m') \<and> inv m' \<and> addr m' = addr m \<and>
    num_free_segs (segs m') = num_free_segs (segs m) + k \<and>
    (\<forall>q l. block_at (segs m) q l \<longrightarrow> q \<noteq> p \<longrightarrow> 0 < l \<longrightarrow> block_at (segs m') q l)"
proof -
  obtain A B where s: "segs m = A @ Block k # B" "segs_len A = p"
    using assms(2) by (auto simp: block_at_def)
  obtain m' where m': "free m (addr m p) = Some (True, m')" "inv m'" "addr m' = addr m"
      "segs m' = A @ replicate k Free @ B"
    using free_law [OF assms(1) s(1)] s(2) by auto
  have "block_at (segs m') q l" if q: "block_at (segs m) q l" "q \<noteq> p" for q l
  proof -
    obtain C D where "A @ Block k # B = C @ Block l # D" "segs_len C = q"
      using q(1) s(1) by (auto simp: block_at_def)
    then show ?thesis
    proof (cases rule: append_Cons_eq_cases)
      case 1
      with q(2) s(2) \<open>segs_len C = q\<close> show ?thesis by simp
    next
      case (2 X)
      with m'(4) \<open>segs_len C = q\<close> show ?thesis
        unfolding block_at_def by (intro exI [of _ "A @ replicate k Free @ X"] exI [of _ D]) simp
    next
      case (3 X)
      with m'(4) \<open>segs_len C = q\<close> show ?thesis
        unfolding block_at_def by (intro exI [of _ C] exI [of _ "X @ replicate k Free @ B"]) simp
    qed
  qed
  with m' s show ?thesis by auto
qed

lemma alloc_then_free:
  assumes "inv m" and "0 < unat n" and "alloc m n = Some (r, m1)" and "r \<noteq> 0"
  shows "\<exists>m2. free m1 r = Some (True, m2) \<and> inv m2 \<and> segs m2 = segs m"
proof -
  obtain A B where "segs m = A @ replicate (unat n) Free @ B" "segs m1 = A @ Block (unat n) # B"
      "r = addr m (segs_len A)" "inv m1" "addr m1 = addr m"
    using alloc_law [OF assms(1,2)] assms(3,4) by auto
  then show ?thesis using free_law [of m1 A "unat n" B] by auto
qed

end

end
