(* ===== verification/Memory_Correct.thy ===== *)
theory Memory_Correct
  imports Memory Memory_Spec
begin

text \<open>
  The bitmap allocator of \<open>Memory\<close> implements the row of segments of \<open>Memory_Spec\<close>: the two-bit
  fields read back what was written, the allocation loop is a first-fit search, freeing is its
  inverse, and the number of free words is the number of free segments.
\<close>

subsection \<open>Two-bit fields\<close>

definition stats :: "u32 list \<Rightarrow> u32 list" where
  "stats bm = map (\<lambda>i. drop_bit (2 * (i mod 16)) (bm ! (i div 16)) AND 3) [0 ..< 16 * length bm]"

lemma length_stats [simp]: "length (stats bm) = 16 * length bm"
  by (simp add: stats_def)

lemma stats_nth: "i < 16 * length bm \<Longrightarrow> stats bm ! i = drop_bit (2 * (i mod 16)) (bm ! (i div 16)) AND 3"
  by (simp add: stats_def)

lemma bit_three: "bit (3 :: u32) n \<longleftrightarrow> n < 2"
proof -
  have "(3 :: u32) = mask 2" by (simp add: mask_eq_exp_minus_1)
  then show ?thesis by (simp only: bit_mask_iff possible_bit_word) auto
qed

lemmas field_bits = bit_drop_bit_eq comp_apply bit_and_iff bit_or_iff bit_not_iff bit_push_bit_iff
  bit_three possible_bit_word

lemma field_index:
  assumes "unat i < 2 ^ 31"
  shows "unat (drop_bit 5 (push_bit 1 i :: u32)) = unat i div 16"
    and "unat (push_bit 1 i AND (0x1F :: u32)) = 2 * (unat i mod 16)"
proof -
  have p: "unat (push_bit 1 i :: u32) = 2 * unat i"
    using assms by (simp add: push_bit_eq_mult unat_word_ariths)
  show "unat (drop_bit 5 (push_bit 1 i :: u32)) = unat i div 16"
  proof -
    have "unat (drop_bit 5 (push_bit 1 i :: u32)) = drop_bit 5 (unat (push_bit 1 i :: u32))"
      by (rule unat_drop_bit_eq)
    also have "\<dots> = unat i div 16" unfolding p drop_bit_eq_div by simp
    finally show ?thesis .
  qed
  have "(0x1F :: u32) = mask 5" by (simp add: mask_eq_exp_minus_1)
  then have "unat (push_bit 1 i AND (0x1F :: u32)) = unat (take_bit 5 (push_bit 1 i :: u32))"
    by (simp only: take_bit_eq_mask)
  also have "\<dots> = take_bit 5 (unat (push_bit 1 i :: u32))"
    by (rule unsigned_take_bit_eq)
  also have "\<dots> = 2 * (unat i mod 16)" unfolding p take_bit_eq_mod
    using mult_mod_right [of 2 "unat i" 16] by simp
  finally show "unat (push_bit 1 i AND (0x1F :: u32)) = 2 * (unat i mod 16)" .
qed

lemma field_read: "k \<le> 30 \<Longrightarrow> drop_bit k (w AND push_bit k 3) = drop_bit k w AND (3 :: u32)"
  by (rule bit_word_eqI) (simp only: field_bits, auto)

lemma field_write_same:
  assumes "k \<le> 30" and "st < (4 :: u32)"
  shows "drop_bit k ((w AND NOT (push_bit k 3)) OR push_bit k st) AND 3 = st"
proof (rule bit_word_eqI)
  fix n assume n: "n < LENGTH(32)"
  have "unat st < 2 ^ 2" using assms(2) by (simp add: word_less_nat_alt)
  from word_bit_lt [OF this, of n] assms(1)
  show "bit (drop_bit k ((w AND NOT (push_bit k 3)) OR push_bit k st) AND 3) n \<longleftrightarrow> bit st n"
    by (simp only: field_bits) auto
qed

lemma field_write_other:
  assumes "j \<noteq> k" and "j < 16" and "k < 16" and "st < (4 :: u32)"
  shows "drop_bit (2 * j) ((w AND NOT (push_bit (2 * k) 3)) OR push_bit (2 * k) st) AND 3 =
    drop_bit (2 * j) w AND 3"
proof (rule bit_word_eqI)
  fix n assume n: "n < LENGTH(32)"
  have "unat st < 2 ^ 2" using assms(4) by (simp add: word_less_nat_alt)
  from word_bit_lt [OF this, of "2 * j + n - 2 * k"] assms(1-3)
  show "bit (drop_bit (2 * j) ((w AND NOT (push_bit (2 * k) 3)) OR push_bit (2 * k) st) AND 3) n \<longleftrightarrow>
      bit (drop_bit (2 * j) w AND 3) n"
    by (simp only: field_bits) auto
qed

lemma status_stats:
  assumes "ms_bitmap m = Some bm" and "unat i < 16 * length bm" and "16 * length bm \<le> 2 ^ 30"
  shows "status m i = Some (stats bm ! unat i)"
proof -
  have lt: "unat i < 2 ^ 31" using assms by simp
  have "unat i div 16 < length bm" using assms(2) by (simp add: div_less_iff_less_mult)
  then show ?thesis
    using assms(1,2) unfolding status_def Let_def field_index [OF lt]
    by (simp only: arr_get_in Option.bind.bind_lunit field_read) (simp add: field_read stats_nth del: drop_bit_and)
qed

lemma set_status_stats:
  assumes m: "ms_bitmap m = Some bm" and i: "unat i < 16 * length bm"
    and len: "16 * length bm \<le> 2 ^ 30" and st: "st < 4"
  shows "\<exists>bm'. set_status m i st = Some (m\<lparr>ms_bitmap := Some bm'\<rparr>) \<and> length bm' = length bm \<and>
    stats bm' = (stats bm)[unat i := st]"
proof -
  have lt: "unat i < 2 ^ 31" using i len by simp
  have d: "unat i div 16 < length bm" using i by (simp add: div_less_iff_less_mult)
  let ?w = "bm ! (unat i div 16)"
  let ?w' = "(?w AND NOT (push_bit (2 * (unat i mod 16)) 3)) OR push_bit (2 * (unat i mod 16)) st"
  let ?bm = "bm[unat i div 16 := ?w']"
  have "set_status m i st = Some (m\<lparr>ms_bitmap := Some ?bm\<rparr>)"
    using m d unfolding set_status_def Let_def field_index [OF lt] by simp
  moreover have "stats ?bm = (stats bm)[unat i := st]"
  proof (rule nth_equalityI)
    fix j assume "j < length (stats ?bm)"
    then have j: "j < 16 * length bm" by simp
    have "j = unat i \<or> j div 16 \<noteq> unat i div 16 \<or>
        (j div 16 = unat i div 16 \<and> j mod 16 \<noteq> unat i mod 16)"
      by (metis div_mult_mod_eq)
    then show "stats ?bm ! j = (stats bm)[unat i := st] ! j"
      using j i d st by (auto simp: stats_nth field_write_same field_write_other nth_list_update
          simp del: drop_bit_and drop_bit_or)
  qed simp
  ultimately show ?thesis by auto
qed

subsection \<open>Well-formed memory\<close>

definition memory_wf :: "memory_state \<Rightarrow> bool" where
  "memory_wf m \<longleftrightarrow>
     (case (ms_bitmap m, ms_memory m) of
        (Some bm, Some ws) \<Rightarrow>
          length bm = unat (ms_bitmap_size m) \<and> length ws = 16 * length bm \<and>
          unat (ms_memory_size m) = 16 * length bm \<and>
          unat (ms_base m) + 64 * length bm \<le> 2 ^ 32 \<and> ms_base m \<noteq> 0 \<and> ms_base m mod 4 = 0 \<and>
          seg_parse None (stats bm) \<noteq> None
      | _ \<Rightarrow> False)"

definition memory_segs :: "memory_state \<Rightarrow> seg list" where
  "memory_segs m =
     (case ms_bitmap m of None \<Rightarrow> []
      | Some bm \<Rightarrow> (case seg_parse None (stats bm) of None \<Rightarrow> [] | Some ss \<Rightarrow> ss))"

definition mem_addr :: "memory_state \<Rightarrow> nat \<Rightarrow> u32" where
  "mem_addr m p = ms_base m + 4 * of_nat p"

lemma memory_wfE:
  assumes "memory_wf m"
  obtains bm ws where "ms_bitmap m = Some bm" "ms_memory m = Some ws"
    "length bm = unat (ms_bitmap_size m)" "length ws = 16 * length bm" "16 * length bm \<le> 2 ^ 30"
    "unat (push_bit 4 (ms_bitmap_size m)) = 16 * length bm"
    "stats bm = segs_enc (memory_segs m)" "list_all seg_ok (memory_segs m)"
    "segs_len (memory_segs m) = 16 * length bm" "ms_base m \<noteq> 0" "ms_base m mod 4 = 0"
    "unat (ms_base m) + 64 * length bm \<le> 2 ^ 32"
proof -
  obtain bm ws ss where m: "ms_bitmap m = Some bm" "ms_memory m = Some ws"
      "length bm = unat (ms_bitmap_size m)" "length ws = 16 * length bm"
      "unat (ms_base m) + 64 * length bm \<le> 2 ^ 32" "ms_base m \<noteq> 0" "ms_base m mod 4 = 0"
      "seg_parse None (stats bm) = Some ss"
    using assms by (auto simp: memory_wf_def split: option.splits)
  then have ss: "memory_segs m = ss" "stats bm = segs_enc ss" "list_all seg_ok ss"
    by (auto simp: memory_segs_def seg_parse_iff seg_parse_enc)
  have "segs_len ss = 16 * length bm"
    using length_segs_enc [OF ss(3)] ss(2) by (metis length_stats)
  moreover have "unat (push_bit 4 (ms_bitmap_size m)) = 16 * length bm"
    using m(3,5) by (simp add: push_bit_eq_mult unat_word_ariths)
  ultimately show ?thesis using m ss by (intro that [of bm ws]) simp_all
qed

text \<open>A new bitmap with the statuses of a row of segments of the same length.\<close>

lemma memory_wf_new_bitmap:
  assumes "memory_wf m" and "ms_bitmap m = Some bm" and "length bm' = length bm"
    and "stats bm' = segs_enc ss" and "list_all seg_ok ss"
  shows "memory_wf (m\<lparr>ms_bitmap := Some bm'\<rparr>)" and "memory_segs (m\<lparr>ms_bitmap := Some bm'\<rparr>) = ss"
  using assms by (auto simp: memory_wf_def memory_segs_def seg_parse_enc split: option.splits)

subsection \<open>The allocation loop is first fit\<close>

fun alloc_list :: "u32 \<Rightarrow> u32 \<Rightarrow> u32 list \<Rightarrow> alloc_vars \<Rightarrow> unit + alloc_vars" where
  "alloc_list nw i [] vars = Inr vars"
| "alloc_list nw i (st # sts) vars =
     (if snd (snd (snd vars)) = ALLOC_DONE then Inr vars
      else case alloc_step nw i st vars of Inl u \<Rightarrow> Inl u | Inr vars \<Rightarrow> alloc_list nw (i + 1) sts vars)"

lemma alloc_loop_list:
  assumes m: "ms_bitmap m = Some bm" and len: "16 * length bm \<le> 2 ^ 30"
    and n: "unat n = 16 * length bm"
  shows "unat i \<le> unat n \<Longrightarrow>
    alloc_loop m nw n i vars = Some (alloc_list nw i (drop (unat i) (stats bm)) vars)"
proof (induction "unat n - unat i" arbitrary: i vars)
  case 0
  then have "\<not> i < n" "drop (unat i) (stats bm) = []" using n by (simp_all add: word_less_nat_alt)
  then show ?case by (simp add: alloc_loop.simps)
next
  case (Suc k)
  then have lt: "i < n" by (simp add: word_less_nat_alt)
  then have ui: "unat i < 16 * length bm" using n by (simp add: word_less_nat_alt)
  have d: "drop (unat i) (stats bm) = stats bm ! unat i # drop (unat (i + 1)) (stats bm)"
    using ui by (simp add: unat_succ_less [OF lt] Cons_nth_drop_Suc)
  have "k = unat n - unat (i + 1)" "unat (i + 1) \<le> unat n"
    using Suc lt by (simp_all add: unat_succ_less [OF lt] word_less_nat_alt)
  then show ?case
    using Suc.hyps(1) lt unfolding d
    by (subst alloc_loop.simps) (simp add: status_stats [OF m ui len] split: sum.split)
qed

lemma alloc_list_skip:
  "alloc_list nw i (replicate k 0 @ sts) (s, e, f, SKIP) =
     alloc_list nw (i + of_nat k) sts (s, e, f, SKIP)"
  by (induction k arbitrary: i) (simp_all add: alloc_step_def ac_simps)

lemma alloc_list_block:
  assumes "0 < l" and "state = INIT \<or> state = FREE_LENGTH_CHECK"
  shows "alloc_list nw i (seg_enc (Block l) @ sts) (s, e, f, state) =
    alloc_list nw (i + of_nat l) sts (s, e, f, INIT)"
proof (cases "l = 1")
  case True
  with assms(2) show ?thesis by (auto simp: alloc_step_def)
next
  case False
  with assms(1) obtain j where l: "l = Suc (Suc j)"
    by (metis One_nat_def Suc_lessI gr0_implies_Suc not0_implies_Suc)
  with assms(2) show ?thesis
    by (auto simp: alloc_step_def alloc_list_skip ac_simps)
qed

lemma alloc_list_first_fit:
  assumes "list_all seg_ok ss" and "n = unat nw" and "0 < n" and "pos + segs_len ss < 2 ^ 32"
    and "k < n" and "k \<le> pos"
    and "if k = 0 then state = INIT else state = FREE_LENGTH_CHECK \<and> f = of_nat k \<and> s = of_nat (pos - k)"
  shows "\<exists>s' e' f' st'. alloc_list nw (of_nat pos) (segs_enc ss) (s, e, f, state) = Inr (s', e', f', st') \<and>
    (case first_fit n k pos ss of
       None \<Rightarrow> st' \<noteq> ALLOC_DONE
     | Some p \<Rightarrow> st' = ALLOC_DONE \<and> s' = of_nat p \<and> e' = of_nat (p + n - 1))"
  using assms
proof (induction n k pos ss arbitrary: s e f state rule: first_fit.induct)
  case (1 n k i)
  then show ?case by (auto split: if_splits)
next
  case (2 n k i ss)
  have stop: "alloc_list nw j (segs_enc ss) (s', e', f', ALLOC_DONE) = Inr (s', e', f', ALLOC_DONE)"
    for j s' e' f' by (cases "segs_enc ss") simp_all
  have nw: "nw = of_nat n" and n32: "n < 2 ^ 32"
    using 2(3) unsigned_less [of nw, where 'a = nat] by simp_all
  show ?case
  proof (cases "k + 1 = n")
    case True
    show ?thesis
    proof (cases "k = 0")
      case k: True
      then have "state = INIT" "nw = 1" using 2(8) nw by (simp_all flip: True)
      with k True stop show ?thesis by (simp add: alloc_step_def)
    next
      case k: False
      then have "state = FREE_LENGTH_CHECK" "f + 1 = nw" "s = of_nat (i - k)"
        using 2(8) True nw by (auto simp: add.commute)
      moreover have "i - k + n - 1 = i" using True 2(7) by simp
      ultimately show ?thesis using True stop by (simp add: alloc_step_def)
    qed
  next
    case False
    have "of_nat (k + 1) \<noteq> nw"
      using False 2(3,6) n32 unat_u32_of_nat [of "k + 1"] by auto
    then have ne: "of_nat k + 1 \<noteq> nw" by (simp add: add.commute)
    have IH: "\<exists>s' e' f' st'. alloc_list nw (of_nat (i + 1)) (segs_enc ss) (s0, e, f0, FREE_LENGTH_CHECK) =
          Inr (s', e', f', st') \<and>
        (case first_fit n (k + 1) (i + 1) ss of None \<Rightarrow> st' \<noteq> ALLOC_DONE
         | Some p \<Rightarrow> st' = ALLOC_DONE \<and> s' = of_nat p \<and> e' = of_nat (p + n - 1))"
      if "f0 = of_nat (k + 1)" "s0 = of_nat (i - k)" for s0 f0
      using 2(2-7) False that by (intro 2(1)) auto
    show ?thesis
      using IH [of "of_nat (k + 1)" "of_nat (i - k)"] 2(8) ne False
      by (cases "k = 0") (auto simp: alloc_step_def ac_simps)
  qed
next
  case (3 n k i l ss)
  have "\<exists>s' e' f' st'. alloc_list nw (of_nat (i + l)) (segs_enc ss) (s, e, f, INIT) = Inr (s', e', f', st') \<and>
      (case first_fit n 0 (i + l) ss of None \<Rightarrow> st' \<noteq> ALLOC_DONE
       | Some p \<Rightarrow> st' = ALLOC_DONE \<and> s' = of_nat p \<and> e' = of_nat (p + n - 1))"
    using 3(2-7) by (intro 3(1)) auto
  moreover have "0 < l" "state = INIT \<or> state = FREE_LENGTH_CHECK"
    using 3(2,8) by (auto split: if_splits)
  ultimately show ?case
    using alloc_list_block [of l state nw "of_nat i" "segs_enc ss" s e f] by simp
qed


subsection \<open>Allocation and freeing refine the segments\<close>

lemma list_update_append_at: "i = length A \<Longrightarrow> (A @ x # B)[i := y] = A @ y # B"
  by simp

lemma write_block:
  assumes "1 < n" and "i = length A" and "j = length A + n - 1"
  shows "(A @ replicate n 0 @ B)[i := 2, j := 1] = A @ seg_enc (Block n) @ B"
proof -
  obtain k where n: "n = Suc (Suc k)"
    using assms(1) by (metis Suc_1 Suc_leI less_imp_Suc_add add_Suc One_nat_def)
  have r: "replicate n (0 :: u32) @ B = 0 # replicate k 0 @ 0 # B"
    by (simp add: n replicate_app_Cons_same)
  show ?thesis using assms(2,3) unfolding r by (simp add: n list_update_append)
qed

lemma unat_mem_addr:
  assumes "memory_wf m" and "p < segs_len (memory_segs m)"
  shows "unat (mem_addr m p) = unat (ms_base m) + 4 * p"
proof -
  obtain bm :: "u32 list" where "segs_len (memory_segs m) = 16 * length bm"
      "unat (ms_base m) + 64 * length bm \<le> 2 ^ 32"
    using assms(1) by (elim memory_wfE)
  with assms(2) have lt: "unat (ms_base m) + 4 * p < 2 ^ 32" by simp
  have "mem_addr m p = of_nat (unat (ms_base m) + 4 * p)" by (simp add: mem_addr_def)
  then show ?thesis by (simp only: unat_u32_of_nat [OF lt])
qed

lemma mem_addr_inj:
  assumes "memory_wf m" and "p < segs_len (memory_segs m)" and "q < segs_len (memory_segs m)"
    and "mem_addr m p = mem_addr m q"
  shows "p = q"
proof -
  have "unat (ms_base m) + 4 * p = unat (ms_base m) + 4 * q"
    using unat_mem_addr [OF assms(1,2)] unat_mem_addr [OF assms(1,3)] unfolding assms(4) by linarith
  then show ?thesis by simp
qed

text \<open>The statuses of the first and the last word of a free run turn it into a block.\<close>

lemma mark_block_stats:
  assumes m: "ms_bitmap m = Some bm" "16 * length bm \<le> 2 ^ 30" and st: "stats bm = segs_enc A @ replicate n 0 @ segs_enc B"
    and lA: "length (segs_enc A) = p" and pn: "p + n \<le> 16 * length bm" and n0: "0 < n" and us: "unat s = p" "unat e = p + n - 1"
  shows "\<exists>bm'. (if s = e then set_status m s START_END
       else do { m \<leftarrow> set_status m s START; set_status m e END }) =
        Some (m\<lparr>ms_bitmap := Some bm'\<rparr>) \<and> length bm' = length bm \<and> stats bm' = segs_enc (A @ Block n # B)"
proof (cases "n = 1")
  case True
  then have "s = e" using us by (simp add: word_unat_eq_iff)
  moreover obtain bm' where "set_status m s 3 = Some (m\<lparr>ms_bitmap := Some bm'\<rparr>)"
      "length bm' = length bm" "stats bm' = (stats bm)[p := 3]"
    using set_status_stats [OF m(1) _ m(2), of s 3] us pn n0 by auto
  ultimately show ?thesis
    using True st list_update_append_at [of p "segs_enc A" 0 "segs_enc B" 3] lA by auto
next
  case False
  then have ne: "s \<noteq> e" using us n0 by auto
  have last: "p + n - 1 < 16 * length bm" using pn n0 by linarith
  obtain bm1 where 1: "set_status m s 2 = Some (m\<lparr>ms_bitmap := Some bm1\<rparr>)" "length bm1 = length bm"
      "stats bm1 = (stats bm)[p := 2]"
    using set_status_stats [OF m(1) _ m(2), of s 2] us pn n0 by auto
  obtain bm2 where 2: "set_status (m\<lparr>ms_bitmap := Some bm1\<rparr>) e 1 = Some (m\<lparr>ms_bitmap := Some bm2\<rparr>)"
      "length bm2 = length bm" "stats bm2 = (stats bm1)[p + n - 1 := 1]"
    using set_status_stats [of "m\<lparr>ms_bitmap := Some bm1\<rparr>" bm1 e 1] 1(2) m(2) us(2) last by auto
  have "stats bm2 = segs_enc (A @ Block n # B)"
    using write_block [of n p "segs_enc A" "p + n - 1" "segs_enc B"] False n0 lA 1(3) 2(3) st by simp
  with ne 1 2 show ?thesis by auto
qed

lemma memory_allocate_refines:
  assumes wf: "memory_wf m" and n0: "0 < unat nw"
  shows "\<exists>r m'. memory_allocate m nw = Some (r, m') \<and> memory_wf m' \<and> ms_memory m' = ms_memory m \<and>
    ms_base m' = ms_base m \<and>
    (case first_fit (unat nw) 0 0 (memory_segs m) of
       None \<Rightarrow> r = 0 \<and> m' = m
     | Some p \<Rightarrow> r = mem_addr m p \<and> r \<noteq> 0 \<and>
         (\<exists>A B. memory_segs m = A @ replicate (unat nw) Free @ B \<and>
            memory_segs m' = A @ Block (unat nw) # B \<and> p = segs_len A))"
proof -
  obtain bm ws where m: "ms_bitmap m = Some bm" "ms_memory m = Some ws" "16 * length bm \<le> 2 ^ 30"
      "unat (push_bit 4 (ms_bitmap_size m)) = 16 * length bm"
      "stats bm = segs_enc (memory_segs m)" "list_all seg_ok (memory_segs m)"
      "segs_len (memory_segs m) = 16 * length bm" "unat (ms_base m) + 64 * length bm \<le> 2 ^ 32"
      "ms_base m \<noteq> 0"
    using wf by (elim memory_wfE)
  obtain s e f st where l: "alloc_loop m nw (push_bit 4 (ms_bitmap_size m)) 0 (0, 0, 0, INIT) =
        Some (Inr (s, e, f, st))"
      "case first_fit (unat nw) 0 0 (memory_segs m) of None \<Rightarrow> st \<noteq> ALLOC_DONE
       | Some p \<Rightarrow> st = ALLOC_DONE \<and> s = of_nat p \<and> e = of_nat (p + unat nw - 1)"
    using alloc_list_first_fit [of "memory_segs m" "unat nw" nw 0 0 INIT 0 0 0]
      alloc_loop_list [OF m(1,3,4), of 0 nw "(0, 0, 0, INIT)"] m n0 by auto
  show ?thesis
  proof (cases "first_fit (unat nw) 0 0 (memory_segs m)")
    case None
    with l m wf show ?thesis by (intro exI [of _ 0] exI [of _ m]) (simp add: memory_allocate_def)
  next
    case (Some p)
    then obtain A B where AB: "memory_segs m = A @ replicate (unat nw) Free @ B" "p = segs_len A"
      using first_fit_sound [OF Some n0] by auto
    have okA: "list_all seg_ok A" "list_all seg_ok B" using m(6) AB by simp_all
    let ?n = "unat nw" and ?ss = "A @ Block (unat nw) # B"
    have st: "stats bm = segs_enc A @ replicate ?n 0 @ segs_enc B" using m(5) AB by simp
    have pn: "p + ?n \<le> 16 * length bm" using m(7) AB by simp
    have lA: "length (segs_enc A) = p" using length_segs_enc okA AB by simp
    have us: "unat s = p" "unat e = p + ?n - 1"
      using l(2) Some pn m(3) by (auto simp: unat_u32_of_nat)
    obtain bm' where b: "(if s = e then set_status m s START_END
         else do { m \<leftarrow> set_status m s START; set_status m e END }) =
          Some (m\<lparr>ms_bitmap := Some bm'\<rparr>)" "length bm' = length bm" "stats bm' = segs_enc ?ss"
      using mark_block_stats [OF m(1,3) st lA pn n0 us] by blast
    have ok: "list_all seg_ok ?ss" using okA n0 by simp
    have s: "st = ALLOC_DONE" "s = of_nat p" using l(2) Some by auto
    have "memory_allocate m nw = do {
        m \<leftarrow> (if s = e then set_status m s START_END
             else do { m \<leftarrow> set_status m s START; set_status m e END });
        Some (bitmap_ix_to_address m s, m) }"
      unfolding memory_allocate_def l(1) using m(1,2) s(1) by simp
    also have "\<dots> = Some (mem_addr m p, m\<lparr>ms_bitmap := Some bm'\<rparr>)"
      unfolding b(1) by (simp add: s(2) bitmap_ix_to_address_def mem_addr_def push_bit_eq_mult mult.commute)
    finally have "memory_allocate m nw = Some (mem_addr m p, m\<lparr>ms_bitmap := Some bm'\<rparr>)" .
    moreover have "unat (mem_addr m p) \<noteq> 0"
      using unat_mem_addr [OF wf, of p] m(7,9) pn n0 by (simp add: unat_eq_zero)
    then have "mem_addr m p \<noteq> 0" by auto
    ultimately show ?thesis
      using memory_wf_new_bitmap [OF wf m(1) b(2,3) ok] AB Some by auto
  qed
qed

lemma free_loop_finds:
  assumes m: "ms_bitmap m = Some bm" and len: "16 * length bm \<le> 2 ^ 30"
    and n: "unat n = 16 * length bm" and q: "unat q < 16 * length bm" "stats bm ! unat q = 1"
  shows "unat i \<le> unat q \<Longrightarrow> \<forall>j. unat i \<le> j \<and> j < unat q \<longrightarrow> stats bm ! j \<noteq> 1 \<Longrightarrow>
    free_loop m n i = map_option (Pair True) (set_status m q 0)"
proof (induction "unat q - unat i" arbitrary: i)
  case 0
  then have "i = q" by (simp add: word_unat_eq_iff)
  moreover have "q < n" using n q by (simp add: word_less_nat_alt)
  ultimately show ?case
    using q status_stats [OF m q(1) len] by (subst free_loop.simps) (simp split: bind_split)
next
  case (Suc k)
  then have lt: "i < q" by (simp add: word_less_nat_alt)
  then have "i < n" using n q by (simp add: word_less_nat_alt)
  have "stats bm ! unat i \<noteq> 1" using Suc.prems lt by (simp add: word_less_nat_alt)
  moreover have "unat i < 16 * length bm" using lt q by (simp add: word_less_nat_alt)
  then have "status m i = Some (stats bm ! unat i)" by (rule status_stats [OF m _ len])
  ultimately have "free_loop m n i = free_loop m n (i + 1)"
    using \<open>i < n\<close> by (subst free_loop.simps) simp
  also have "\<dots> = map_option (Pair True) (set_status m q 0)"
    using Suc lt unat_succ_less [OF lt] by (intro Suc.hyps(1)) (auto simp: word_less_nat_alt)
  finally show ?case .
qed

lemma address_to_bitmap_ix_mem_addr:
  assumes "memory_wf m" and "p < segs_len (memory_segs m)"
  shows "unat (address_to_bitmap_ix m (mem_addr m p)) = p"
proof -
  obtain bm :: "u32 list" where "segs_len (memory_segs m) = 16 * length bm" "16 * length bm \<le> 2 ^ 30"
    using assms(1) by (elim memory_wfE)
  with assms(2) have p: "4 * p < 2 ^ 32" by simp
  have "mem_addr m p - ms_base m = of_nat (4 * p)" by (simp add: mem_addr_def)
  then have "unat (mem_addr m p - ms_base m) = 4 * p" by (simp only: unat_u32_of_nat [OF p])
  then show ?thesis
    unfolding address_to_bitmap_ix_def unat_drop_bit_eq by (simp add: drop_bit_eq_div)
qed

lemma clear_block:
  assumes "1 < k" and "i = length A" and "j = length A + k - 1"
  shows "(A @ seg_enc (Block k) @ B)[i := 0, j := 0] = A @ replicate k 0 @ B"
proof -
  obtain l where k: "k = Suc (Suc l)"
    using assms(1) by (metis Suc_1 Suc_leI less_imp_Suc_add add_Suc One_nat_def)
  show ?thesis using assms(2,3) by (simp add: k list_update_append replicate_app_Cons_same)
qed

text \<open>Clearing the last status of a block of more than one word, whose first has been cleared.\<close>

lemma free_rest_stats:
  assumes m: "16 * length bm \<le> 2 ^ 30" "unat n = 16 * length bm"
    and st: "stats bm = segs_enc A @ seg_enc (Block k) @ segs_enc B" and lA: "length (segs_enc A) = p" and pk: "p + k \<le> 16 * length bm"
    and k: "1 < k" and i: "unat i = p" and 1: "length bm1 = length bm" "stats bm1 = (stats bm)[p := 0]"
  shows "\<exists>bm2. free_loop (m\<lparr>ms_bitmap := Some bm1\<rparr>) n i = Some (True, m\<lparr>ms_bitmap := Some bm2\<rparr>) \<and> length bm2 = length bm \<and>
    stats bm2 = segs_enc (A @ replicate k Free @ B)"
proof -
  let ?q = "of_nat (p + k - 1) :: u32" and ?m = "m\<lparr>ms_bitmap := Some bm1\<rparr>"
  have q: "unat ?q = p + k - 1" using pk m(1) by (intro unat_u32_of_nat) simp
  have last: "p + k - 1 < 16 * length bm" using pk k by linarith
  obtain bm2 where 2: "set_status ?m ?q 0 = Some (m\<lparr>ms_bitmap := Some bm2\<rparr>)"
      "length bm2 = length bm" "stats bm2 = (stats bm1)[p + k - 1 := 0]"
    using set_status_stats [of ?m bm1 ?q 0] 1(1) m(1) q last by auto
  obtain l where l: "k = Suc (Suc l)"
    using k by (cases k; cases "k - 1") auto
  have s1: "stats bm1 = segs_enc A @ (replicate (Suc l) 0 @ [1]) @ segs_enc B"
    using 1(2) st lA by (simp add: l list_update_append)
  have "stats bm1 ! j \<noteq> 1" if "p \<le> j" "j < p + k - 1" for j
  proof -
    have "stats bm1 ! j = (replicate (Suc l) 0 @ [1]) ! (j - p)"
      unfolding s1 using that by (simp only: nth_append lA) (simp add: l)
    then show ?thesis using that by (auto simp: l nth_append nth_Cons')
  qed
  moreover have "stats bm1 ! unat ?q = 1"
    unfolding s1 q by (simp only: nth_append lA) (simp add: l)
  ultimately have "free_loop ?m n i = map_option (Pair True) (set_status ?m ?q 0)"
    using free_loop_finds [of ?m bm1 n ?q i] 1(1) m i q pk k by simp
  moreover have "stats bm2 = segs_enc (A @ replicate k Free @ B)"
    using clear_block [of k p "segs_enc A" "p + k - 1" "segs_enc B"] 2(3) 1(2) st lA k by simp
  ultimately show ?thesis using 2(1,2) by (intro exI [of _ bm2]) simp
qed

lemma memory_free_refines:
  assumes wf: "memory_wf m" and ss: "memory_segs m = A @ Block k # B"
  shows "\<exists>m'. memory_free m (mem_addr m (segs_len A)) = Some (True, m') \<and> memory_wf m' \<and>
    ms_memory m' = ms_memory m \<and> ms_base m' = ms_base m \<and>
    memory_segs m' = A @ replicate k Free @ B"
proof -
  obtain bm where m: "ms_bitmap m = Some bm" "16 * length bm \<le> 2 ^ 30"
      "unat (push_bit 4 (ms_bitmap_size m)) = 16 * length bm"
      "stats bm = segs_enc (memory_segs m)" "list_all seg_ok (memory_segs m)"
      "segs_len (memory_segs m) = 16 * length bm"
    using wf by (elim memory_wfE)
  have ok: "list_all seg_ok A" "list_all seg_ok B" "0 < k" using m(5) ss by simp_all
  let ?p = "segs_len A" and ?i = "address_to_bitmap_ix m (mem_addr m (segs_len A))"
  have pk: "?p + k \<le> 16 * length bm" using m(6) ss by simp
  have i: "unat ?i = ?p"
    using address_to_bitmap_ix_mem_addr [OF wf, of ?p] m(6) pk ok(3) by simp
  have lA: "length (segs_enc A) = ?p" using length_segs_enc ok(1) by simp
  have st: "stats bm = segs_enc A @ seg_enc (Block k) @ segs_enc B" using m(4) ss by simp
  have sti: "status m ?i = Some (if k = 1 then 3 else 2)"
    using status_stats [OF m(1) _ m(2), of ?i] i pk ok(3) st lA by (simp add: nth_append)
  obtain bm1 where 1: "set_status m ?i 0 = Some (m\<lparr>ms_bitmap := Some bm1\<rparr>)" "length bm1 = length bm"
      "stats bm1 = (stats bm)[?p := 0]"
    using set_status_stats [OF m(1) _ m(2), of ?i 0] i pk ok(3) by auto
  have "\<exists>bm'. memory_free m (mem_addr m ?p) = Some (True, m\<lparr>ms_bitmap := Some bm'\<rparr>) \<and>
      length bm' = length bm \<and> stats bm' = segs_enc (A @ replicate k Free @ B)"
  proof (cases "k = 1")
    case True
    then show ?thesis
      using sti 1 st list_update_append_at [of ?p "segs_enc A" 3 "segs_enc B" 0] lA
      by (auto simp: memory_free_def Let_def)
  next
    case False
    then show ?thesis
      using free_rest_stats [OF m(2,3) st lA pk _ i 1(2,3), of m] sti 1(1) ok(3) by (auto simp: memory_free_def Let_def)
  qed
  then obtain bm' where b: "memory_free m (mem_addr m ?p) = Some (True, m\<lparr>ms_bitmap := Some bm'\<rparr>)"
      "length bm' = length bm" "stats bm' = segs_enc (A @ replicate k Free @ B)" by blast
  have "list_all seg_ok (A @ replicate k Free @ B)" using ok by (auto simp: list_all_iff)
  from memory_wf_new_bitmap [OF wf m(1) b(2,3) this] b(1) show ?thesis by auto
qed

subsection \<open>Counting free words\<close>

fun num_free_list :: "u32 list \<Rightarrow> alloc_state \<Rightarrow> u32 \<Rightarrow> u32" where
  "num_free_list [] state sm = sm"
| "num_free_list (st # sts) state sm =
     (if st = FREE_OR_USED then
        (case state of
           INIT \<Rightarrow> num_free_list sts FREE_LENGTH_CHECK (sm + 1)
         | FREE_LENGTH_CHECK \<Rightarrow> num_free_list sts FREE_LENGTH_CHECK (sm + 1)
         | _ \<Rightarrow> num_free_list sts state sm)
      else if st = END then num_free_list sts INIT sm
      else if st = START then num_free_list sts SKIP sm
      else if st = START_END then num_free_list sts INIT sm
      else 0)"

lemma num_free_loop_list:
  assumes m: "ms_bitmap m = Some bm" and len: "16 * length bm \<le> 2 ^ 30"
    and n: "unat n = 16 * length bm"
  shows "unat i \<le> unat n \<Longrightarrow>
    num_free_loop m n i state sm = Some (num_free_list (drop (unat i) (stats bm)) state sm)"
proof (induction "unat n - unat i" arbitrary: i state sm)
  case 0
  then have "\<not> i < n" "drop (unat i) (stats bm) = []" using n by (simp_all add: word_less_nat_alt)
  then show ?case by (simp add: num_free_loop.simps)
next
  case (Suc k)
  then have lt: "i < n" by (simp add: word_less_nat_alt)
  then have ui: "unat i < 16 * length bm" using n by (simp add: word_less_nat_alt)
  have d: "drop (unat i) (stats bm) = stats bm ! unat i # drop (unat (i + 1)) (stats bm)"
    using ui by (simp add: unat_succ_less [OF lt] Cons_nth_drop_Suc)
  have "k = unat n - unat (i + 1)" "unat (i + 1) \<le> unat n"
    using Suc lt by (simp_all add: unat_succ_less [OF lt] word_less_nat_alt)
  then show ?case
    using Suc.hyps(1) lt unfolding d
    by (subst num_free_loop.simps) (simp add: status_stats [OF m ui len] split: alloc_state.split)
qed

lemma num_free_list_skip:
  "num_free_list (replicate k 0 @ sts) SKIP sm = num_free_list sts SKIP sm"
  by (induction k) simp_all

lemma num_free_list_segs:
  "list_all seg_ok ss \<Longrightarrow> state = INIT \<or> state = FREE_LENGTH_CHECK \<Longrightarrow>
     num_free_list (segs_enc ss) state sm = sm + of_nat (num_free_segs ss)"
proof (induction ss arbitrary: state sm)
  case (Cons s ss)
  show ?case
  proof (cases s)
    case Free
    with Cons show ?thesis by (auto simp: ac_simps)
  next
    case (Block l)
    have "num_free_list (seg_enc (Block l) @ sts) state sm = num_free_list sts INIT sm" for sts
      by (simp add: num_free_list_skip)
    with Cons Block show ?thesis by simp
  qed
qed simp

lemma num_free_segs_le: "list_all seg_ok ss \<Longrightarrow> num_free_segs ss \<le> segs_len ss"
  by (induction ss) auto

lemma memory_num_free_refines:
  assumes wf: "memory_wf m"
  shows "\<exists>f. memory_num_free m = Some f \<and> unat f = num_free_segs (memory_segs m)"
proof -
  obtain bm ws where m: "ms_bitmap m = Some bm" "ms_memory m = Some ws" "16 * length bm \<le> 2 ^ 30"
      "unat (push_bit 4 (ms_bitmap_size m)) = 16 * length bm"
      "stats bm = segs_enc (memory_segs m)" "list_all seg_ok (memory_segs m)"
      "segs_len (memory_segs m) = 16 * length bm"
    using wf by (elim memory_wfE)
  have "memory_num_free m = Some (of_nat (num_free_segs (memory_segs m)))"
    using num_free_loop_list [OF m(1,3,4), of 0 INIT 0] m num_free_list_segs [OF m(6), of INIT 0]
    by (simp add: memory_num_free_def del: push_bit_numeral)
  moreover have "num_free_segs (memory_segs m) < 2 ^ 32"
    using num_free_segs_le [OF m(6)] m(3,7) by simp
  ultimately show ?thesis by (auto simp: unat_u32_of_nat)
qed

subsection \<open>The allocator keeps the contract\<close>

interpretation mem: allocator memory_allocate memory_free memory_wf memory_segs mem_addr
proof unfold_locales
  fix m :: memory_state and n :: u32
  assume "memory_wf m" "0 < unat n"
  note r = memory_allocate_refines [OF this]
  show "\<exists>r m'. memory_allocate m n = Some (r, m') \<and> memory_wf m' \<and> mem_addr m' = mem_addr m \<and>
      (if r = 0 then m' = m \<and> (\<nexists>A B. memory_segs m = A @ replicate (unat n) Free @ B)
       else \<exists>A B. memory_segs m = A @ replicate (unat n) Free @ B \<and>
              memory_segs m' = A @ Block (unat n) # B \<and> r = mem_addr m (segs_len A))"
  proof (cases "first_fit (unat n) 0 0 (memory_segs m)")
    case None
    with r first_fit_complete [OF None \<open>0 < unat n\<close>] show ?thesis by auto
  next
    case (Some p)
    with r show ?thesis by (fastforce simp: mem_addr_def fun_eq_iff)
  qed
next
  fix m A k B
  assume "memory_wf m" "memory_segs m = A @ Block k # B"
  from memory_free_refines [OF this]
  show "\<exists>m'. memory_free m (mem_addr m (segs_len A)) = Some (True, m') \<and> memory_wf m' \<and>
      mem_addr m' = mem_addr m \<and> memory_segs m' = A @ replicate k Free @ B"
    by (auto simp: mem_addr_def fun_eq_iff)
next
  fix m p q
  assume "memory_wf m" "p < segs_len (memory_segs m)" "q < segs_len (memory_segs m)"
    "mem_addr m p = mem_addr m q"
  then show "p = q" by (rule mem_addr_inj)
qed

subsection \<open>Properties\<close>

text \<open>C11: an allocation on a well-formed memory never leaves the bitmap. It returns \<open>NULL\<close>, and
  changes nothing, exactly when there is no run of that many free words; otherwise it returns the
  address of the lowest such run, which becomes one block while the rest of the row is unchanged.\<close>

theorem memory_allocate_first_fit:
  assumes "memory_wf m" and "0 < unat n"
  shows "\<exists>r m'. memory_allocate m n = Some (r, m') \<and> memory_wf m' \<and>
    (if r = 0 then m' = m \<and> (\<nexists>A B. memory_segs m = A @ replicate (unat n) Free @ B)
     else \<exists>A B. memory_segs m = A @ replicate (unat n) Free @ B \<and>
            memory_segs m' = A @ Block (unat n) # B \<and> r = mem_addr m (segs_len A) \<and>
            (\<forall>A' B'. memory_segs m = A' @ replicate (unat n) Free @ B' \<longrightarrow> segs_len A \<le> segs_len A'))"
proof (cases "first_fit (unat n) 0 0 (memory_segs m)")
  case None
  with memory_allocate_refines [OF assms] first_fit_complete [OF None assms(2)] show ?thesis by auto
next
  case (Some p)
  obtain A B where AB: "memory_segs m = A @ replicate (unat n) Free @ B" "p = segs_len A"
      "\<forall>A' B'. memory_segs m = A' @ replicate (unat n) Free @ B' \<longrightarrow> segs_len A \<le> segs_len A'"
    using first_fit_sound [OF Some assms(2)] by auto
  obtain m' A1 B1 where m': "memory_allocate m n = Some (mem_addr m p, m')" "memory_wf m'"
      "mem_addr m p \<noteq> 0" "memory_segs m = A1 @ replicate (unat n) Free @ B1"
      "memory_segs m' = A1 @ Block (unat n) # B1" "p = segs_len A1"
    using memory_allocate_refines [OF assms] Some by auto
  then have "memory_segs m = A1 @ replicate (unat n) Free @ B1 \<and>
      memory_segs m' = A1 @ Block (unat n) # B1 \<and> mem_addr m p = mem_addr m (segs_len A1) \<and>
      (\<forall>A' B'. memory_segs m = A' @ replicate (unat n) Free @ B' \<longrightarrow> segs_len A1 \<le> segs_len A')"
    using AB(2,3) by simp
  with m'(1-3) show ?thesis by (metis (no_types, lifting))
qed

text \<open>Sixteen words at address 0x1000: a block of three, a free word, a block of one, eleven free.\<close>

definition demo_memory :: memory_state where
  "demo_memory = \<lparr>ms_bitmap = Some [786], ms_memory = Some (replicate 16 0), ms_memory_size = 16,
     ms_bitmap_size = 1, ms_base = 0x1000\<rparr>"

lemma demo_memory_segs:
  "seg_parse None (stats [786]) = Some ([Block 3, Free, Block 1] @ replicate 11 Free)"
  by code_simp

lemma demo_memory_wf: "memory_wf demo_memory"
  using demo_memory_segs by (simp add: memory_wf_def demo_memory_def)

lemma demo_memory_row: "memory_segs demo_memory = [Block 3, Free, Block 1] @ replicate 11 Free"
  using demo_memory_segs by (simp add: memory_segs_def demo_memory_def)

lemma demo_memory_block: "block_at (memory_segs demo_memory) 0 3"
  unfolding demo_memory_row block_at_def
  by (intro exI [of _ "[]"] exI [of _ "[Free, Block 1] @ replicate 11 Free"]) simp

lemma unat_2 [simp]: "unat (2 :: u32) = 2"
  by simp

theorem memory_allocate_first_fit_witness:
  "\<exists>r m'. memory_allocate demo_memory 2 = Some (r, m') \<and> memory_wf m' \<and>
    (if r = 0 then m' = demo_memory \<and> (\<nexists>A B. memory_segs demo_memory = A @ replicate 2 Free @ B)
     else \<exists>A B. memory_segs demo_memory = A @ replicate 2 Free @ B \<and>
            memory_segs m' = A @ Block 2 # B \<and> r = mem_addr demo_memory (segs_len A) \<and>
            (\<forall>A' B'. memory_segs demo_memory = A' @ replicate 2 Free @ B' \<longrightarrow> segs_len A \<le> segs_len A'))"
  using memory_allocate_first_fit [OF demo_memory_wf, of 2, unfolded unat_2, OF zero_less_numeral] .

text \<open>allocation never touches a live block: every block there was is still there, and the new
  one overlaps none of them.\<close>

theorem memory_allocate_disjoint:
  assumes "memory_wf m" and "0 < unat n" and "memory_allocate m n = Some (r, m')" and "r \<noteq> 0"
    and "block_at (memory_segs m) p k"
  shows "block_at (memory_segs m') p k \<and>
    (\<exists>q. r = mem_addr m q \<and> block_at (memory_segs m') q (unat n) \<and> (p + k \<le> q \<or> q + unat n \<le> p))"
  using mem.alloc_keeps_blocks [OF assms(1-3,5)] mem.alloc_disjoint [OF assms] by blast


theorem memory_allocate_disjoint_witness:
  "block_at (memory_segs (snd (the (memory_allocate demo_memory 2)))) 0 3 \<and>
   (\<exists>q. fst (the (memory_allocate demo_memory 2)) = mem_addr demo_memory q \<and>
     block_at (memory_segs (snd (the (memory_allocate demo_memory 2)))) q 2 \<and> (0 + 3 \<le> q \<or> q + 2 \<le> 0))"
proof -
  have "memory_allocate demo_memory 2 = Some (fst (the (memory_allocate demo_memory 2)), snd (the (memory_allocate demo_memory 2)))"
    and "fst (the (memory_allocate demo_memory 2)) \<noteq> 0"
    unfolding demo_memory_def by code_simp+
  with memory_allocate_disjoint [OF demo_memory_wf, of 2, unfolded unat_2, OF zero_less_numeral]
  show ?thesis using demo_memory_block by blast
qed

text \<open>\<open>memory_free\<close> applied to the address of a block succeeds, gives back exactly the words of
  that block, and leaves every other block in place.\<close>

theorem memory_free_correct:
  assumes "memory_wf m" and "block_at (memory_segs m) p k"
  shows "\<exists>m'. memory_free m (mem_addr m p) = Some (True, m') \<and> memory_wf m' \<and>
    num_free_segs (memory_segs m') = num_free_segs (memory_segs m) + k \<and>
    (\<forall>q l. block_at (memory_segs m) q l \<longrightarrow> q \<noteq> p \<longrightarrow> 0 < l \<longrightarrow> block_at (memory_segs m') q l)"
  using mem.free_block [OF assms] by blast

theorem memory_free_correct_witness:
  "\<exists>m'. memory_free demo_memory (mem_addr demo_memory 0) = Some (True, m') \<and> memory_wf m' \<and>
    num_free_segs (memory_segs m') = num_free_segs (memory_segs demo_memory) + 3 \<and>
    (\<forall>q l. block_at (memory_segs demo_memory) q l \<longrightarrow> q \<noteq> 0 \<longrightarrow> 0 < l \<longrightarrow> block_at (memory_segs m') q l)"
  by (rule memory_free_correct [OF demo_memory_wf demo_memory_block])

text \<open>C12: freeing what was just allocated restores the row of segments, and the free-word count
  reported by \<open>memory_num_free\<close> with it; in between it is lower by exactly the words asked for.\<close>

theorem memory_allocate_free_roundtrip:
  assumes "memory_wf m" and "0 < unat n" and "memory_allocate m n = Some (r, m1)" and "r \<noteq> 0"
  shows "\<exists>m2 f f1. memory_free m1 r = Some (True, m2) \<and> memory_segs m2 = memory_segs m \<and>
    memory_num_free m = Some f \<and> memory_num_free m1 = Some f1 \<and> memory_num_free m2 = Some f \<and>
    unat f1 + unat n = unat f"
proof -
  obtain m2 where m2: "memory_free m1 r = Some (True, m2)" "memory_wf m2" "memory_segs m2 = memory_segs m"
    using mem.alloc_then_free [OF assms] by blast
  have wf1: "memory_wf m1" using mem.alloc_law [OF assms(1,2)] assms(3) by auto
  obtain f f1 f2 where f: "memory_num_free m = Some f" "unat f = num_free_segs (memory_segs m)"
      "memory_num_free m1 = Some f1" "unat f1 = num_free_segs (memory_segs m1)"
      "memory_num_free m2 = Some f2" "unat f2 = num_free_segs (memory_segs m2)"
    using memory_num_free_refines assms(1) wf1 m2(2) by metis
  moreover have "f2 = f" using f m2(3) by (simp add: word_unat_eq_iff)
  moreover have "num_free_segs (memory_segs m1) + unat n = num_free_segs (memory_segs m)"
    using mem.alloc_block [OF assms] by blast
  ultimately show ?thesis using m2 by auto
qed

theorem memory_allocate_free_roundtrip_witness:
  "\<exists>r m1 m2 f f1. memory_allocate demo_memory 2 = Some (r, m1) \<and> memory_free m1 r = Some (True, m2) \<and>
    memory_segs m2 = memory_segs demo_memory \<and>
    memory_num_free demo_memory = Some f \<and> memory_num_free m1 = Some f1 \<and> memory_num_free m2 = Some f \<and>
    unat f1 + 2 = unat f"
proof -
  have "memory_allocate demo_memory 2 = Some (fst (the (memory_allocate demo_memory 2)), snd (the (memory_allocate demo_memory 2)))"
    and "fst (the (memory_allocate demo_memory 2)) \<noteq> 0"
    unfolding demo_memory_def by code_simp+
  with memory_allocate_free_roundtrip [OF demo_memory_wf, of 2, unfolded unat_2, OF zero_less_numeral]
  show ?thesis by blast
qed

text \<open>The statuses of a zeroed bitmap are all free.\<close>

lemma stats_replicate_0: "stats (replicate n 0) = segs_enc (replicate (16 * n) Free)"
  by (rule nth_equalityI) (simp_all add: stats_nth)

lemma seg_parse_free: "seg_parse None (replicate n 0) = Some (replicate n Free)"
  by (induction n) simp_all

text \<open>\<open>memory_init\<close> on buffers that meet its alignment and size conditions gives a well-formed
  memory in which every word is free.\<close>

theorem memory_init_all_free:
  assumes "data_addr mod 4 = 0" and "bits_addr mod 4 = 0" and "data_addr \<noteq> 0"
    and "data_size = 16 * bits_size" and "bits_size mod 4 = 0" and "0 < bits_size"
    and "16 * unat bits_size + unat data_addr \<le> 2 ^ 32"
    and "4 * length bits_words = unat bits_size" and "4 * length data_words = unat data_size"
  shows "\<exists>m'. memory_init m (Some (data_addr, data_words)) data_size (Some (bits_addr, bits_words)) bits_size
      = Some (True, m') \<and> memory_wf m' \<and> memory_segs m' = replicate (length data_words) Free"
proof -
  have lt: "unat bits_size < 2 ^ 28" using assms(3,7) by (simp add: unat_gt_0 [symmetric] del: unat_gt_0)
  have d: "unat data_size = 16 * unat bits_size" using lt by (simp add: assms(4) unat_word_ariths)
  have n: "unat (drop_bit 2 bits_size) = length bits_words" "unat (drop_bit 2 data_size) = length data_words"
    using assms(8,9) by (simp_all add: drop_bit_eq_div unat_div)
  have l: "length data_words = 16 * length bits_words" using assms(8,9) d by simp
  have "data_size mod 4 = 0" unfolding word_unat_eq_iff by (simp add: unat_mod d)
  moreover have "\<not> bits_size < 1" using assms(6) by (simp add: word_less_1)
  ultimately show ?thesis
    using assms(1-7) n l assms(8)
    by (simp add: memory_init_def Let_def memory_wf_def memory_segs_def stats_replicate_0 seg_parse_free)
qed

theorem memory_init_all_free_witness:
  "\<exists>m'. memory_init demo_memory (Some (0x1000, replicate 16 7)) 64 (Some (0x2000, [9])) 4
      = Some (True, m') \<and> memory_wf m' \<and> memory_segs m' = replicate 16 Free"
  using memory_init_all_free [where data_addr = "0x1000" and bits_addr = "0x2000" and data_size = 64
      and bits_size = 4 and bits_words = "[9]" and data_words = "replicate 16 7" and m = demo_memory]
  by simp

end
