(* ===== verification/Values.thy ===== *)
theory Values
  imports Prelude
begin

text \<open>
  The tagged 32-bit representation of Lisp values: the macros and inline functions of
  \<open>include/heap.h\<close> that touch no heap cell, and the symbol identifiers of
  \<open>include/symrepr.h\<close>. Bit 0 of a value is the pointer flag, bit 1 the garbage collector's mark;
  a pointer keeps a cell index in bits 3 to 25 and its type in bits 26 to 31, any other value keeps
  its type in bits 2 and 3 and its payload in bits 4 to 31.

  Macros are abbreviations, inline functions are definitions. The lemmas give each encoder's
  type, payload and mark, so that no later proof looks at bits again.
\<close>

subsection \<open>Macros of heap.h\<close>

abbreviation (input) "CONS_CELL_SIZE \<equiv> (8 :: UINT)"
abbreviation (input) "ADDRESS_SHIFT \<equiv> (3 :: nat)"
abbreviation (input) "VAL_SHIFT \<equiv> (4 :: nat)"

abbreviation (input) "PTR_MASK \<equiv> (0x00000001 :: UINT)"
abbreviation (input) "PTR \<equiv> (0x00000001 :: UINT)"
abbreviation (input) "PTR_VAL_MASK \<equiv> (0x03FFFFF8 :: UINT)"
abbreviation (input) "PTR_TYPE_MASK \<equiv> (0xFC000000 :: UINT)"

abbreviation (input) "PTR_TYPE_CONS \<equiv> (0x10000000 :: LTYPE)"
abbreviation (input) "PTR_TYPE_BOXED_I \<equiv> (0x20000000 :: LTYPE)"
abbreviation (input) "PTR_TYPE_BOXED_U \<equiv> (0x30000000 :: LTYPE)"
abbreviation (input) "PTR_TYPE_BOXED_F \<equiv> (0x40000000 :: LTYPE)"
abbreviation (input) "PTR_TYPE_SYMBOL_INDIRECTION \<equiv> (0x50000000 :: LTYPE)"
abbreviation (input) "PTR_TYPE_BYTECODE \<equiv> (0xC0000000 :: LTYPE)"
abbreviation (input) "PTR_TYPE_ARRAY \<equiv> (0xD0000000 :: LTYPE)"
abbreviation (input) "PTR_TYPE_REF \<equiv> (0xE0000000 :: LTYPE)"
abbreviation (input) "PTR_TYPE_STREAM \<equiv> (0xF0000000 :: LTYPE)"

abbreviation (input) "GC_MASK \<equiv> (0x00000002 :: UINT)"
abbreviation (input) "GC_MARKED \<equiv> (0x00000002 :: UINT)"

abbreviation (input) "VAL_MASK \<equiv> (0xFFFFFFF0 :: UINT)"
abbreviation (input) "VAL_TYPE_MASK \<equiv> (0x0000000C :: UINT)"
abbreviation (input) "VAL_TYPE_SYMBOL \<equiv> (0x00000000 :: LTYPE)"
abbreviation (input) "VAL_TYPE_CHAR \<equiv> (0x00000004 :: LTYPE)"
abbreviation (input) "VAL_TYPE_I \<equiv> (0x00000008 :: LTYPE)"
abbreviation (input) "VAL_TYPE_U \<equiv> (0x0000000C :: LTYPE)"

subsection \<open>Symbol identifiers of symrepr.h\<close>

abbreviation (input) "DEF_REPR_NIL \<equiv> (0x0 :: UINT)"
abbreviation (input) "DEF_REPR_QUOTE \<equiv> (0x1 :: UINT)"
abbreviation (input) "DEF_REPR_TRUE \<equiv> (0x2 :: UINT)"
abbreviation (input) "DEF_REPR_IF \<equiv> (0x3 :: UINT)"
abbreviation (input) "DEF_REPR_LAMBDA \<equiv> (0x4 :: UINT)"
abbreviation (input) "DEF_REPR_CLOSURE \<equiv> (0x5 :: UINT)"
abbreviation (input) "DEF_REPR_LET \<equiv> (0x6 :: UINT)"
abbreviation (input) "DEF_REPR_RERROR \<equiv> (0x7 :: UINT)"
abbreviation (input) "DEF_REPR_TERROR \<equiv> (0x8 :: UINT)"
abbreviation (input) "DEF_REPR_EERROR \<equiv> (0x9 :: UINT)"
abbreviation (input) "DEF_REPR_MERROR \<equiv> (0xA :: UINT)"
abbreviation (input) "DEF_REPR_DIVZERO \<equiv> (0xB :: UINT)"
abbreviation (input) "DEF_REPR_FATAL_ERROR \<equiv> (0xC :: UINT)"
abbreviation (input) "DEF_REPR_DEFINE \<equiv> (0xD :: UINT)"
abbreviation (input) "DEF_REPR_PROGN \<equiv> (0xE :: UINT)"
abbreviation (input) "DEF_REPR_COMMA \<equiv> (0x10 :: UINT)"
abbreviation (input) "DEF_REPR_COMMAAT \<equiv> (0x11 :: UINT)"
abbreviation (input) "DEF_REPR_ARRAY_TYPE \<equiv> (0x20 :: UINT)"
abbreviation (input) "DEF_REPR_BOXED_I_TYPE \<equiv> (0x21 :: UINT)"
abbreviation (input) "DEF_REPR_BOXED_U_TYPE \<equiv> (0x22 :: UINT)"
abbreviation (input) "DEF_REPR_BOXED_F_TYPE \<equiv> (0x23 :: UINT)"
abbreviation (input) "DEF_REPR_REF_TYPE \<equiv> (0x24 :: UINT)"
abbreviation (input) "DEF_REPR_RECOVERED \<equiv> (0x25 :: UINT)"
abbreviation (input) "DEF_REPR_BYTECODE_TYPE \<equiv> (0x26 :: UINT)"
abbreviation (input) "DEF_REPR_NONSENSE \<equiv> (0x27 :: UINT)"
abbreviation (input) "DEF_REPR_NOT_FOUND \<equiv> (0x28 :: UINT)"
abbreviation (input) "DEF_REPR_TYPE_LIST \<equiv> (0x29 :: UINT)"
abbreviation (input) "DEF_REPR_TYPE_I28 \<equiv> (0x2A :: UINT)"
abbreviation (input) "DEF_REPR_TYPE_U28 \<equiv> (0x2B :: UINT)"
abbreviation (input) "DEF_REPR_TYPE_FLOAT \<equiv> (0x2C :: UINT)"
abbreviation (input) "DEF_REPR_TYPE_I32 \<equiv> (0x2D :: UINT)"
abbreviation (input) "DEF_REPR_TYPE_U32 \<equiv> (0x2E :: UINT)"
abbreviation (input) "DEF_REPR_TYPE_ARRAY \<equiv> (0x2F :: UINT)"
abbreviation (input) "DEF_REPR_TYPE_SYMBOL \<equiv> (0x30 :: UINT)"
abbreviation (input) "DEF_REPR_TYPE_CHAR \<equiv> (0x31 :: UINT)"
abbreviation (input) "DEF_REPR_TYPE_REF \<equiv> (0x32 :: UINT)"

abbreviation (input) "FUNDAMENTALS_START \<equiv> (0x100 :: UINT)"
abbreviation (input) "SYM_ADD \<equiv> (0x100 :: UINT)"
abbreviation (input) "SYM_SUB \<equiv> (0x101 :: UINT)"
abbreviation (input) "SYM_MUL \<equiv> (0x102 :: UINT)"
abbreviation (input) "SYM_DIV \<equiv> (0x103 :: UINT)"
abbreviation (input) "SYM_MOD \<equiv> (0x104 :: UINT)"
abbreviation (input) "SYM_EQ \<equiv> (0x105 :: UINT)"
abbreviation (input) "SYM_NUMEQ \<equiv> (0x106 :: UINT)"
abbreviation (input) "SYM_LT \<equiv> (0x107 :: UINT)"
abbreviation (input) "SYM_GT \<equiv> (0x108 :: UINT)"
abbreviation (input) "SYM_EVAL \<equiv> (0x109 :: UINT)"
abbreviation (input) "SYM_AND \<equiv> (0x110 :: UINT)"
abbreviation (input) "SYM_OR \<equiv> (0x111 :: UINT)"
abbreviation (input) "SYM_NOT \<equiv> (0x112 :: UINT)"
abbreviation (input) "SYM_YIELD \<equiv> (0x113 :: UINT)"
abbreviation (input) "SYM_WAIT \<equiv> (0x114 :: UINT)"
abbreviation (input) "SYM_SPAWN \<equiv> (0x115 :: UINT)"
abbreviation (input) "SYM_CONS \<equiv> (0x120 :: UINT)"
abbreviation (input) "SYM_CAR \<equiv> (0x121 :: UINT)"
abbreviation (input) "SYM_CDR \<equiv> (0x122 :: UINT)"
abbreviation (input) "SYM_LIST \<equiv> (0x123 :: UINT)"
abbreviation (input) "SYM_APPEND \<equiv> (0x124 :: UINT)"
abbreviation (input) "SYM_ARRAY_READ \<equiv> (0x130 :: UINT)"
abbreviation (input) "SYM_ARRAY_WRITE \<equiv> (0x131 :: UINT)"
abbreviation (input) "SYM_ARRAY_CREATE \<equiv> (0x132 :: UINT)"
abbreviation (input) "SYM_SYMBOL_TO_STRING \<equiv> (0x140 :: UINT)"
abbreviation (input) "SYM_STRING_TO_SYMBOL \<equiv> (0x141 :: UINT)"
abbreviation (input) "SYM_SYMBOL_TO_UINT \<equiv> (0x142 :: UINT)"
abbreviation (input) "SYM_UINT_TO_SYMBOL \<equiv> (0x143 :: UINT)"
abbreviation (input) "SYM_MK_SYMBOL_INDIRECT \<equiv> (0x144 :: UINT)"
abbreviation (input) "SYM_IS_FUNDAMENTAL \<equiv> (0x150 :: UINT)"
abbreviation (input) "SYM_TYPE_OF \<equiv> (0x200 :: UINT)"
abbreviation (input) "FUNDAMENTALS_END \<equiv> (0x200 :: UINT)"
abbreviation (input) "MAX_SPECIAL_SYMBOLS \<equiv> (4096 :: UINT)"

definition symrepr_is_error :: "UINT \<Rightarrow> bool" where
  "symrepr_is_error symrep \<longleftrightarrow>
     symrep = DEF_REPR_RERROR \<or> symrep = DEF_REPR_TERROR \<or> symrep = DEF_REPR_RERROR \<or>
     symrep = DEF_REPR_MERROR \<or> symrep = DEF_REPR_EERROR \<or> symrep = DEF_REPR_FATAL_ERROR"

subsection \<open>Inline functions of heap.h\<close>

definition val_type :: "VALUE \<Rightarrow> LTYPE" where
  "val_type x = x AND VAL_TYPE_MASK"

definition ptr_type :: "VALUE \<Rightarrow> LTYPE" where
  "ptr_type p = p AND PTR_TYPE_MASK"

definition type_of :: "VALUE \<Rightarrow> LTYPE" where
  "type_of x = (if x AND PTR_MASK \<noteq> 0 then x AND PTR_TYPE_MASK else x AND VAL_TYPE_MASK)"

definition is_ptr :: "VALUE \<Rightarrow> bool" where
  "is_ptr x \<longleftrightarrow> x AND PTR_MASK \<noteq> 0"

definition enc_cons_ptr :: "UINT \<Rightarrow> VALUE" where
  "enc_cons_ptr x = push_bit ADDRESS_SHIFT x OR PTR_TYPE_CONS OR PTR"

definition enc_symbol_indirection :: "UINT \<Rightarrow> VALUE" where
  "enc_symbol_indirection x = push_bit ADDRESS_SHIFT x OR PTR_TYPE_SYMBOL_INDIRECTION OR PTR"

definition dec_symbol_indirection :: "VALUE \<Rightarrow> UINT" where
  "dec_symbol_indirection p = drop_bit ADDRESS_SHIFT (PTR_VAL_MASK AND p)"

definition dec_ptr :: "VALUE \<Rightarrow> UINT" where
  "dec_ptr p = drop_bit ADDRESS_SHIFT (PTR_VAL_MASK AND p)"

definition set_ptr_type :: "VALUE \<Rightarrow> LTYPE \<Rightarrow> VALUE" where
  "set_ptr_type p t = (PTR_VAL_MASK AND p) OR t OR PTR"

definition enc_sym :: "UINT \<Rightarrow> VALUE" where
  "enc_sym s = push_bit VAL_SHIFT s OR VAL_TYPE_SYMBOL"

definition enc_i :: "SINT \<Rightarrow> VALUE" where
  "enc_i x = push_bit VAL_SHIFT x OR VAL_TYPE_I"

definition enc_u :: "UINT \<Rightarrow> VALUE" where
  "enc_u x = push_bit VAL_SHIFT x OR VAL_TYPE_U"

text \<open>\<open>char\<close> is the signed 8-bit type of the x86 build: the cast to \<open>UINT\<close> sign-extends.\<close>

definition enc_char :: "8 word \<Rightarrow> VALUE" where
  "enc_char x = push_bit VAL_SHIFT (scast x) OR VAL_TYPE_CHAR"

definition dec_i :: "VALUE \<Rightarrow> SINT" where
  "dec_i x = signed_drop_bit VAL_SHIFT x"

definition dec_u :: "VALUE \<Rightarrow> UINT" where
  "dec_u x = drop_bit VAL_SHIFT x"

definition dec_char :: "VALUE \<Rightarrow> 8 word" where
  "dec_char x = ucast (drop_bit VAL_SHIFT x)"

definition dec_sym :: "VALUE \<Rightarrow> UINT" where
  "dec_sym x = drop_bit VAL_SHIFT x"

definition val_set_gc_mark :: "VALUE \<Rightarrow> VALUE" where
  "val_set_gc_mark x = x OR GC_MARKED"

definition val_clr_gc_mark :: "VALUE \<Rightarrow> VALUE" where
  "val_clr_gc_mark x = x AND NOT GC_MASK"

definition val_get_gc_mark :: "VALUE \<Rightarrow> bool" where
  "val_get_gc_mark x \<longleftrightarrow> x AND GC_MASK \<noteq> 0"

definition is_number :: "VALUE \<Rightarrow> bool" where
  "is_number x \<longleftrightarrow> (let t = type_of x in
     t = VAL_TYPE_I \<or> t = VAL_TYPE_U \<or> t = PTR_TYPE_BOXED_I \<or> t = PTR_TYPE_BOXED_U \<or>
     t = PTR_TYPE_BOXED_F)"

definition is_special :: "VALUE \<Rightarrow> bool" where
  "is_special symrep \<longleftrightarrow> type_of symrep = VAL_TYPE_SYMBOL \<and> dec_sym symrep < MAX_SPECIAL_SYMBOLS"

definition is_fundamental :: "VALUE \<Rightarrow> bool" where
  "is_fundamental symrep \<longleftrightarrow> type_of symrep = VAL_TYPE_SYMBOL \<and>
     FUNDAMENTALS_START \<le> dec_sym symrep \<and> dec_sym symrep \<le> FUNDAMENTALS_END"

definition is_symbol :: "VALUE \<Rightarrow> bool" where
  "is_symbol exp \<longleftrightarrow> type_of exp = VAL_TYPE_SYMBOL"

definition is_symbol_indirection :: "VALUE \<Rightarrow> bool" where
  "is_symbol_indirection exp \<longleftrightarrow> type_of exp = PTR_TYPE_SYMBOL_INDIRECTION"

definition is_symbol_nil :: "VALUE \<Rightarrow> bool" where
  "is_symbol_nil exp \<longleftrightarrow> is_symbol exp \<and> dec_sym exp = DEF_REPR_NIL"

definition is_symbol_eval :: "VALUE \<Rightarrow> bool" where
  "is_symbol_eval exp \<longleftrightarrow> is_symbol exp \<and> dec_sym exp = SYM_EVAL"

definition is_symbol_merror :: "VALUE \<Rightarrow> bool" where
  "is_symbol_merror exp \<longleftrightarrow> is_symbol exp \<and> dec_sym exp = DEF_REPR_MERROR"

text \<open>The two constants \<open>heap_init\<close> computes, and the error symbols the operations return.\<close>

abbreviation (input) "NIL \<equiv> enc_sym DEF_REPR_NIL"
abbreviation (input) "RECOVERED \<equiv> enc_sym DEF_REPR_RECOVERED"


subsection \<open>The bits of masks and encodings\<close>

lemma bit_PTR_VAL_MASK: "bit PTR_VAL_MASK n \<longleftrightarrow> 3 \<le> n \<and> n < 26"
proof -
  have "PTR_VAL_MASK = push_bit 3 (mask 23)" by (simp add: mask_eq_exp_minus_1)
  then show ?thesis by (simp only: bit_push_bit_iff bit_mask_iff possible_bit_word) auto
qed

lemma bit_PTR_TYPE_MASK: "bit PTR_TYPE_MASK n \<longleftrightarrow> 26 \<le> n \<and> n < 32"
proof -
  have "PTR_TYPE_MASK = push_bit 26 (mask 6)" by (simp add: mask_eq_exp_minus_1)
  then show ?thesis by (simp only: bit_push_bit_iff bit_mask_iff possible_bit_word) auto
qed

lemma bit_VAL_TYPE_MASK: "bit VAL_TYPE_MASK n \<longleftrightarrow> n = 2 \<or> n = 3"
proof -
  have "VAL_TYPE_MASK = push_bit 2 (mask 2)" by (simp add: mask_eq_exp_minus_1)
  then show ?thesis by (simp only: bit_push_bit_iff bit_mask_iff possible_bit_word) auto
qed

lemma bit_PTR_TYPE_CONS: "bit PTR_TYPE_CONS n \<longleftrightarrow> n = 28"
proof -
  have "PTR_TYPE_CONS = push_bit 28 1" by simp
  then show ?thesis by (simp only: bit_push_bit_iff bit_1_iff possible_bit_word) auto
qed

lemma bit_PTR_TYPE_ARRAY: "bit PTR_TYPE_ARRAY n \<longleftrightarrow> n = 28 \<or> n = 30 \<or> n = 31"
proof -
  have "PTR_TYPE_ARRAY = push_bit 28 1 OR push_bit 30 (mask 2)" by (simp add: mask_eq_exp_minus_1)
  then show ?thesis
    by (simp only: bit_or_iff bit_push_bit_iff bit_1_iff bit_mask_iff possible_bit_word) auto
qed

lemma bit_SYMBOL_INDIRECTION: "bit PTR_TYPE_SYMBOL_INDIRECTION n \<longleftrightarrow> n = 28 \<or> n = 30"
proof -
  have "PTR_TYPE_SYMBOL_INDIRECTION = push_bit 28 1 OR push_bit 30 1" by simp
  then show ?thesis
    by (simp only: bit_or_iff bit_push_bit_iff bit_1_iff possible_bit_word) auto
qed

lemma bit_VAL_TYPE_CHAR: "bit VAL_TYPE_CHAR n \<longleftrightarrow> n = 2"
proof -
  have "VAL_TYPE_CHAR = push_bit 2 1" by simp
  then show ?thesis by (simp only: bit_push_bit_iff bit_1_iff possible_bit_word) auto
qed

lemma bit_VAL_TYPE_I: "bit VAL_TYPE_I n \<longleftrightarrow> n = 3"
proof -
  have "VAL_TYPE_I = push_bit 3 1" by simp
  then show ?thesis by (simp only: bit_push_bit_iff bit_1_iff possible_bit_word) auto
qed

lemma bit_GC_MASK: "bit GC_MASK n \<longleftrightarrow> n = 1"
  by (auto simp add: bit_2_iff)

lemma bit_PTR: "bit PTR n \<longleftrightarrow> n = 0"
  by (auto simp add: bit_1_iff)

lemmas mask_bits = bit_PTR_VAL_MASK bit_PTR_TYPE_MASK bit_VAL_TYPE_MASK bit_PTR_TYPE_CONS
  bit_PTR_TYPE_ARRAY bit_SYMBOL_INDIRECTION bit_VAL_TYPE_CHAR bit_VAL_TYPE_I bit_GC_MASK bit_PTR

lemmas word_bits = bit_and_iff bit_or_iff bit_push_bit_iff bit_drop_bit_eq bit_not_iff
  possible_bit_word mask_bits

lemma is_ptr_bit: "is_ptr x \<longleftrightarrow> bit x 0"
  by (simp add: is_ptr_def and_one_eq bit_0 odd_iff_mod_2_eq_one)

lemma val_get_gc_mark_bit: "val_get_gc_mark x \<longleftrightarrow> bit x 1"
  unfolding val_get_gc_mark_def by (simp add: bit_iff_and_push_bit_not_eq_0)

lemma bit_dec_ptr: "bit (dec_ptr p) n \<longleftrightarrow> n < 23 \<and> bit p (n + 3)"
  unfolding dec_ptr_def word_bits by (auto simp: add.commute)

lemma bit_enc_cons_ptr:
  "bit (enc_cons_ptr x) n \<longleftrightarrow> (3 \<le> n \<and> n < 32 \<and> bit x (n - 3)) \<or> n = 28 \<or> n = 0"
  unfolding enc_cons_ptr_def word_bits by auto

lemma bit_type_of:
  "bit (type_of x) n \<longleftrightarrow> bit x n \<and> (if bit x 0 then 26 \<le> n else n = 2 \<or> n = 3)"
  unfolding type_of_def is_ptr_def [symmetric] is_ptr_bit if_distrib [of "\<lambda>w. bit w n"] word_bits
  by (auto dest: u32_bit_bound)

lemma bit_ptr_type: "bit (ptr_type x) n \<longleftrightarrow> bit x n \<and> 26 \<le> n"
  unfolding ptr_type_def word_bits by (auto dest: u32_bit_bound)

lemma bit_val_set_gc_mark: "bit (val_set_gc_mark x) n \<longleftrightarrow> bit x n \<or> n = 1"
  unfolding val_set_gc_mark_def word_bits by auto

lemma bit_val_clr_gc_mark: "bit (val_clr_gc_mark x) n \<longleftrightarrow> bit x n \<and> n \<noteq> 1"
  unfolding val_clr_gc_mark_def word_bits by (auto dest: u32_bit_bound)

lemma bit_set_ptr_type:
  "bit (set_ptr_type p t) n \<longleftrightarrow> (3 \<le> n \<and> n < 26 \<and> bit p n) \<or> bit t n \<or> n = 0"
  unfolding set_ptr_type_def word_bits by auto

lemma bit_enc_sym: "bit (enc_sym s) n \<longleftrightarrow> 4 \<le> n \<and> n < 32 \<and> bit s (n - 4)"
  unfolding enc_sym_def word_bits by auto

lemma bit_enc_i: "bit (enc_i s) n \<longleftrightarrow> (4 \<le> n \<and> n < 32 \<and> bit s (n - 4)) \<or> n = 3"
  unfolding enc_i_def word_bits by auto

lemma bit_enc_u: "bit (enc_u s) n \<longleftrightarrow> (4 \<le> n \<and> n < 32 \<and> bit s (n - 4)) \<or> n = 2 \<or> n = 3"
  unfolding enc_u_def word_bits by auto

lemma bit_enc_char:
  "bit (enc_char c) n \<longleftrightarrow> (4 \<le> n \<and> n < 32 \<and> bit (scast c :: UINT) (n - 4)) \<or> n = 2"
  unfolding enc_char_def word_bits by auto

lemma bit_dec_sym: "bit (dec_sym x) n \<longleftrightarrow> bit x (n + 4)"
  unfolding dec_sym_def word_bits by (simp add: add.commute)

lemma bit_dec_u: "bit (dec_u x) n \<longleftrightarrow> bit x (n + 4)"
  unfolding dec_u_def word_bits by (simp add: add.commute)

lemmas enc_bits = is_ptr_bit val_get_gc_mark_bit bit_dec_ptr bit_enc_cons_ptr bit_type_of
  bit_ptr_type bit_val_set_gc_mark bit_val_clr_gc_mark bit_set_ptr_type bit_enc_sym bit_enc_i
  bit_enc_u bit_enc_char bit_dec_sym bit_dec_u mask_bits


subsection \<open>Laws of the encodings\<close>

lemma dec_ptr_enc_cons_ptr [enc_simps]:
  assumes "unat x < 2 ^ 23"
  shows "dec_ptr (enc_cons_ptr x) = x"
proof (rule bit_word_eqI)
  fix n
  show "bit (dec_ptr (enc_cons_ptr x)) n \<longleftrightarrow> bit x n"
    using word_bit_lt [OF assms, of n] by (auto simp: enc_bits)
qed

lemma is_ptr_enc_cons_ptr [simp]: "is_ptr (enc_cons_ptr x)"
  by (simp add: enc_bits)

lemma type_of_enc_cons_ptr [enc_simps]:
  assumes "unat x < 2 ^ 23"
  shows "type_of (enc_cons_ptr x) = PTR_TYPE_CONS"
proof (rule bit_word_eqI)
  fix n
  show "bit (type_of (enc_cons_ptr x)) n \<longleftrightarrow> bit PTR_TYPE_CONS n"
    using word_bit_lt [OF assms, of "n - 3"] unfolding enc_bits by auto
qed

lemma get_gc_mark_enc_cons_ptr [simp]: "\<not> val_get_gc_mark (enc_cons_ptr x)"
  by (simp add: enc_bits)

lemma gc_mark_laws [simp]:
  "is_ptr (val_set_gc_mark x) = is_ptr x"
  "is_ptr (val_clr_gc_mark x) = is_ptr x"
  "val_get_gc_mark (val_set_gc_mark x)"
  "\<not> val_get_gc_mark (val_clr_gc_mark x)"
  by (simp_all add: enc_bits)

lemma gc_mark_type_of [simp]:
  "type_of (val_set_gc_mark x) = type_of x"
  "type_of (val_clr_gc_mark x) = type_of x"
  by (rule bit_word_eqI, auto simp: enc_bits)+

lemma gc_mark_ptr_type [simp]:
  "ptr_type (val_set_gc_mark x) = ptr_type x"
  "ptr_type (val_clr_gc_mark x) = ptr_type x"
  by (rule bit_word_eqI, auto simp: enc_bits)+

lemma gc_mark_dec_ptr [simp]:
  "dec_ptr (val_set_gc_mark x) = dec_ptr x"
  "dec_ptr (val_clr_gc_mark x) = dec_ptr x"
  by (rule bit_word_eqI, auto simp: enc_bits)+

lemma gc_mark_dec_sym [simp]:
  "dec_sym (val_set_gc_mark x) = dec_sym x"
  "dec_sym (val_clr_gc_mark x) = dec_sym x"
  by (rule bit_word_eqI, auto simp: enc_bits)+

lemma clr_set_gc_mark [simp]:
  "val_clr_gc_mark (val_set_gc_mark x) = val_clr_gc_mark x"
  "val_clr_gc_mark (val_clr_gc_mark x) = val_clr_gc_mark x"
  "val_set_gc_mark (val_set_gc_mark x) = val_set_gc_mark x"
  by (rule bit_word_eqI, auto simp: enc_bits)+

lemma clr_gc_mark_id [simp]: "\<not> val_get_gc_mark x \<Longrightarrow> val_clr_gc_mark x = x"
  by (rule bit_word_eqI) (auto simp: enc_bits)

lemma set_gc_mark_id: "val_get_gc_mark x \<Longrightarrow> val_set_gc_mark x = x"
  by (rule bit_word_eqI) (auto simp: enc_bits)

lemma clr_gc_mark_eqD: "val_clr_gc_mark x = y \<Longrightarrow> x = y \<or> x = val_set_gc_mark y"
proof -
  assume y: "val_clr_gc_mark x = y"
  show ?thesis
  proof (cases "val_get_gc_mark x")
    case True
    have "val_set_gc_mark y = x"
      unfolding y [symmetric] using True by (intro bit_word_eqI) (auto simp: enc_bits)
    then show ?thesis by simp
  next
    case False
    with y show ?thesis by simp
  qed
qed

lemma unat_dec_ptr: "unat (dec_ptr p) < 2 ^ 23"
proof -
  have "take_bit 23 (dec_ptr p) = dec_ptr p"
    by (rule bit_word_eqI) (auto simp: bit_take_bit_iff enc_bits)
  then have "unat (dec_ptr p) = take_bit 23 (unat (dec_ptr p))"
    by (metis unsigned_take_bit_eq)
  then show ?thesis by (metis take_bit_nat_less_exp)
qed

lemma sym_laws [simp]:
  "\<not> is_ptr (enc_sym s)"
  "\<not> val_get_gc_mark (enc_sym s)"
  by (simp_all add: enc_bits)

lemma type_of_enc_sym [simp]: "type_of (enc_sym s) = VAL_TYPE_SYMBOL"
  by (rule bit_word_eqI) (auto simp: enc_bits)

lemma dec_sym_enc_sym:
  assumes "unat s < 2 ^ 28"
  shows "dec_sym (enc_sym s) = s"
proof (rule bit_word_eqI)
  fix n
  show "bit (dec_sym (enc_sym s)) n \<longleftrightarrow> bit s n"
    using word_bit_lt [OF assms, of n] by (auto simp: enc_bits)
qed

lemma enc_sym_dec_sym:
  assumes "\<not> is_ptr x" and "type_of x = VAL_TYPE_SYMBOL" and "\<not> val_get_gc_mark x"
  shows "enc_sym (dec_sym x) = x"
proof (rule bit_word_eqI)
  fix n :: nat
  from assms have b: "\<not> bit x 0" "\<not> bit x 1" by (simp_all add: enc_bits)
  have "\<not> bit (type_of x) n" using assms(2) by simp
  with b have "n = 2 \<or> n = 3 \<Longrightarrow> \<not> bit x n" by (simp add: enc_bits)
  moreover have "n = 0 \<or> n = 1 \<or> n = 2 \<or> n = 3 \<or> 4 \<le> n" by linarith
  ultimately show "bit (enc_sym (dec_sym x)) n \<longleftrightarrow> bit x n"
    using b by (auto simp: enc_bits dest: u32_bit_bound)
qed

lemma type_of_consD [dest]: "type_of x = PTR_TYPE_CONS \<Longrightarrow> is_ptr x"
proof -
  assume a: "type_of x = PTR_TYPE_CONS"
  have "bit (type_of x) 28" unfolding a by (simp only: mask_bits)
  then show ?thesis by (simp add: enc_bits split: if_splits)
qed

lemma type_of_ptr: "is_ptr x \<Longrightarrow> type_of x = ptr_type x"
  by (simp add: type_of_def is_ptr_def ptr_type_def)

lemma type_of_val: "\<not> is_ptr x \<Longrightarrow> type_of x = val_type x"
  by (simp add: type_of_def is_ptr_def val_type_def)

lemma cons_not_symbol: "type_of x = PTR_TYPE_CONS \<Longrightarrow> x \<noteq> enc_sym s"
  by auto

lemma enc_i_laws [simp]: "\<not> is_ptr (enc_i x)" "\<not> val_get_gc_mark (enc_i x)"
  by (simp_all add: enc_bits)

lemma type_of_enc_i [simp]: "type_of (enc_i x) = VAL_TYPE_I"
proof (rule bit_word_eqI)
  fix n show "bit (type_of (enc_i x)) n \<longleftrightarrow> bit VAL_TYPE_I n" unfolding enc_bits by auto
qed

lemma enc_u_laws [simp]: "\<not> is_ptr (enc_u x)" "\<not> val_get_gc_mark (enc_u x)"
  by (simp_all add: enc_bits)

lemma type_of_enc_u [simp]: "type_of (enc_u x) = VAL_TYPE_U"
proof (rule bit_word_eqI)
  fix n
  have "bit VAL_TYPE_U n \<longleftrightarrow> n = 2 \<or> n = 3" by (rule bit_VAL_TYPE_MASK)
  then show "bit (type_of (enc_u x)) n \<longleftrightarrow> bit VAL_TYPE_U n" by (auto simp: enc_bits)
qed

lemma enc_char_laws [simp]: "\<not> is_ptr (enc_char x)" "\<not> val_get_gc_mark (enc_char x)"
  by (simp_all add: enc_bits)

lemma type_of_enc_char [simp]: "type_of (enc_char x) = VAL_TYPE_CHAR"
proof (rule bit_word_eqI)
  fix n show "bit (type_of (enc_char x)) n \<longleftrightarrow> bit VAL_TYPE_CHAR n" unfolding enc_bits by auto
qed

lemma take_bit_28_enc:
  assumes "drop_bit 4 t = 0"
  shows "drop_bit 4 (push_bit 4 x OR t) = take_bit 28 (x :: u32)"
proof (rule bit_word_eqI)
  fix n assume "n < LENGTH(32)"
  have "\<not> bit (drop_bit 4 t) n" using assms by simp
  then show "bit (drop_bit 4 (push_bit 4 x OR t)) n \<longleftrightarrow> bit (take_bit 28 x) n"
    by (auto simp: bit_simps)
qed

lemma dec_u_enc_u: "dec_u (enc_u x) = take_bit 28 x"
  unfolding dec_u_def enc_u_def by (rule take_bit_28_enc) simp

lemma dec_i_enc_i: "sint (dec_i (enc_i x)) = signed_take_bit 27 (sint x)"
proof (rule bit_eqI)
  fix n
  show "bit (sint (dec_i (enc_i x))) n \<longleftrightarrow> bit (signed_take_bit 27 (sint x)) n"
    unfolding dec_i_def bit_sint_iff bit_signed_drop_bit_iff bit_signed_take_bit_iff bit_enc_i
    using le_antisym [of n 27] by (cases "n < 27"; cases "n = 27") (auto simp: min_def)
qed

lemma bit_scast_8: "bit (scast (c :: 8 word) :: UINT) n \<longleftrightarrow> n < 32 \<and> bit c (min n 7)"
  by (auto simp: bit_signed_iff min_def not_le)

lemma dec_char_enc_char: "dec_char (enc_char c) = c"
proof (rule bit_word_eqI)
  fix n assume "n < LENGTH(8)"
  then show "bit (dec_char (enc_char c)) n \<longleftrightarrow> bit c n"
    unfolding dec_char_def bit_unsigned_iff bit_drop_bit_eq bit_enc_char bit_scast_8 by auto
qed

text \<open>A pointer type is a word inside the type mask; every \<open>PTR_TYPE_\<close> macro is one.\<close>

lemma ptr_type_bits: "t AND PTR_TYPE_MASK = t \<Longrightarrow> bit t m \<Longrightarrow> 26 \<le> m"
  by (metis bit_and_iff bit_PTR_TYPE_MASK)

lemma dec_ptr_set_ptr_type:
  assumes "t AND PTR_TYPE_MASK = t"
  shows "dec_ptr (set_ptr_type p t) = dec_ptr p"
proof (rule bit_word_eqI)
  fix n
  show "bit (dec_ptr (set_ptr_type p t)) n \<longleftrightarrow> bit (dec_ptr p) n"
    using ptr_type_bits [OF assms, of "n + 3"] by (auto simp: enc_bits)
qed

lemma type_of_set_ptr_type:
  assumes "t AND PTR_TYPE_MASK = t"
  shows "type_of (set_ptr_type p t) = t"
proof (rule bit_word_eqI)
  fix n
  show "bit (type_of (set_ptr_type p t)) n \<longleftrightarrow> bit t n"
    using ptr_type_bits [OF assms, of n] by (auto simp: enc_bits)
qed

lemma is_ptr_set_ptr_type [simp]: "is_ptr (set_ptr_type p t)"
  by (simp add: enc_bits)

lemma gc_mark_set_ptr_type: "t AND PTR_TYPE_MASK = t \<Longrightarrow> \<not> val_get_gc_mark (set_ptr_type p t)"
  using ptr_type_bits [of t 1] by (auto simp: enc_bits)

lemmas set_ptr_type_laws = dec_ptr_set_ptr_type type_of_set_ptr_type gc_mark_set_ptr_type

text \<open>The type of a cons pointer is changed by OR-ing the new type onto it.\<close>

lemma cons_ptr_bits:
  assumes "type_of p = PTR_TYPE_CONS"
  shows "bit p n \<and> 26 \<le> n \<longleftrightarrow> n = 28"
proof -
  have "is_ptr p" using assms by auto
  then show ?thesis using arg_cong [OF assms, of "\<lambda>w. bit w n"] unfolding enc_bits by auto
qed

lemma type_of_or_array:
  assumes "type_of p = PTR_TYPE_CONS"
  shows "type_of (p OR PTR_TYPE_ARRAY) = PTR_TYPE_ARRAY"
proof (rule bit_word_eqI)
  fix n
  have "is_ptr p" using assms by auto
  then show "bit (type_of (p OR PTR_TYPE_ARRAY)) n \<longleftrightarrow> bit PTR_TYPE_ARRAY n"
    using cons_ptr_bits [OF assms, of n] by (simp only: enc_bits word_bits) auto
qed

lemma or_array_laws [simp]:
  "dec_ptr (p OR PTR_TYPE_ARRAY) = dec_ptr p"
  "is_ptr (p OR PTR_TYPE_ARRAY) = is_ptr p"
  "val_get_gc_mark (p OR PTR_TYPE_ARRAY) = val_get_gc_mark p"
    apply (rule bit_word_eqI)
  by (simp_all only: enc_bits word_bits) auto

lemma or_cons: "type_of p = PTR_TYPE_CONS \<Longrightarrow> p OR PTR_TYPE_CONS = p"
  using cons_ptr_bits [of p 28] by (intro bit_word_eqI) (simp only: word_bits, auto)

subsection \<open>Properties\<close>

text \<open>
  unboxed integers have 28 bits. Encoding and decoding an unsigned number keeps its low 28 bits,
  a signed number comes back sign-extended from bit 27, a character comes back unchanged, and
  decoding never sees the type bits.
\<close>

theorem unboxed_roundtrip:
  "dec_u (enc_u x) = take_bit 28 x \<and> type_of (enc_u x) = VAL_TYPE_U \<and>
   sint (dec_i (enc_i y)) = signed_take_bit 27 (sint y) \<and> type_of (enc_i y) = VAL_TYPE_I \<and>
   dec_char (enc_char c) = c \<and> type_of (enc_char c) = VAL_TYPE_CHAR"
  by (simp add: dec_u_enc_u dec_i_enc_i dec_char_enc_char)

text \<open>
  a cons pointer to any of the \<open>2^23\<close> cells decodes to its cell, and neither the type, the cell
  nor the pointer flag depends on the garbage collector's mark, which can be set and cleared
  without a trace.
\<close>

theorem cons_ptr_roundtrip:
  assumes "unat x < 2 ^ 23"
  shows "dec_ptr (enc_cons_ptr x) = x \<and> type_of (enc_cons_ptr x) = PTR_TYPE_CONS \<and>
    (let p = val_set_gc_mark (enc_cons_ptr x) in
       val_get_gc_mark p \<and> is_ptr p \<and> dec_ptr p = x \<and> type_of p = PTR_TYPE_CONS \<and>
       val_clr_gc_mark p = enc_cons_ptr x)"
  using dec_ptr_enc_cons_ptr [OF assms] type_of_enc_cons_ptr [OF assms] by (simp add: Let_def)

theorem cons_ptr_roundtrip_witness:
  "dec_ptr (enc_cons_ptr 5) = 5 \<and> type_of (enc_cons_ptr 5) = PTR_TYPE_CONS \<and>
    (let p = val_set_gc_mark (enc_cons_ptr 5) in
       val_get_gc_mark p \<and> is_ptr p \<and> dec_ptr p = 5 \<and> type_of p = PTR_TYPE_CONS \<and>
       val_clr_gc_mark p = enc_cons_ptr 5)"
  by (rule cons_ptr_roundtrip) simp

end
