(* ===== verification/Heap.thy ===== *)
theory Heap
  imports Values Memory
begin

text \<open>
  The cons-cell heap of \<open>src/heap.c\<close>: cells, free list, allocation, the list operations, boxed
  numbers and arrays. The garbage collector, in the same C file, is the theory \<open>GC\<close>.

  The static \<open>heap_state\<close> is a record that every operation takes and, if it writes, returns.
  \<open>hs_heap\<close> is \<open>None\<close> for a \<open>NULL\<close> cell array. A pointer to a cell is the cell's index in the array:
  reading a cell outside it is \<open>None\<close>. \<open>size_t\<close> has 32 bits, as on the targets where an array's
  C pointer fits in the 32 bits of a \<open>VALUE\<close>.
\<close>

record cell =
  cell_car :: VALUE
  cell_cdr :: VALUE

record heap_state =
  hs_heap :: "cell list option"
  hs_malloced :: bool
  hs_freelist :: VALUE
  hs_heap_size :: UINT
  hs_heap_bytes :: UINT
  hs_num_alloc :: UINT
  hs_num_alloc_arrays :: UINT
  hs_gc_num :: UINT
  hs_gc_marked :: UINT
  hs_gc_recovered :: UINT
  hs_gc_recovered_arrays :: UINT

subsection \<open>Cells\<close>

definition get_cell :: "heap_state \<Rightarrow> nat \<Rightarrow> cell option" where
  "get_cell h i = do { cells \<leftarrow> hs_heap h; arr_get cells i }"

definition upd_cell :: "heap_state \<Rightarrow> nat \<Rightarrow> (cell \<Rightarrow> cell) \<Rightarrow> heap_state option" where
  "upd_cell h i f = do {
     cells \<leftarrow> hs_heap h;
     c \<leftarrow> arr_get cells i;
     Some (h\<lparr>hs_heap := Some (cells[i := f c])\<rparr>)
   }"

definition ref_cell :: "VALUE \<Rightarrow> nat" where
  "ref_cell addr = unat (dec_ptr addr)"

definition read_car :: "cell \<Rightarrow> VALUE" where
  "read_car c = cell_car c"

definition read_cdr :: "cell \<Rightarrow> VALUE" where
  "read_cdr c = cell_cdr c"

definition set_car_cell :: "VALUE \<Rightarrow> cell \<Rightarrow> cell" where
  "set_car_cell v c = c\<lparr>cell_car := v\<rparr>"

definition set_cdr_cell :: "VALUE \<Rightarrow> cell \<Rightarrow> cell" where
  "set_cdr_cell v c = c\<lparr>cell_cdr := v\<rparr>"

definition set_gc_mark :: "cell \<Rightarrow> cell" where
  "set_gc_mark c = set_cdr_cell (val_set_gc_mark (read_cdr c)) c"

definition clr_gc_mark :: "cell \<Rightarrow> cell" where
  "clr_gc_mark c = set_cdr_cell (val_clr_gc_mark (read_cdr c)) c"

definition get_gc_mark :: "cell \<Rightarrow> bool" where
  "get_gc_mark c = val_get_gc_mark (read_cdr c)"

subsection \<open>Initialisation\<close>

function freelist_loop :: "heap_state \<Rightarrow> UINT \<Rightarrow> UINT \<Rightarrow> heap_state option" where
  "freelist_loop h num_cells i =
     (if i < num_cells then do {
        h \<leftarrow> upd_cell h (ref_cell (enc_cons_ptr (i - 1))) (set_car_cell RECOVERED);
        h \<leftarrow> upd_cell h (ref_cell (enc_cons_ptr (i - 1))) (set_cdr_cell (enc_cons_ptr i));
        freelist_loop h num_cells (i + 1)
      } else Some h)"
  by pat_completeness auto
termination
  by (relation "measure (\<lambda>(h, n, i). unat n - unat i)") (auto simp: word_loop_step)

declare freelist_loop.simps [simp del]

definition generate_freelist :: "heap_state \<Rightarrow> UINT \<Rightarrow> (bool \<times> heap_state) option" where
  "generate_freelist h num_cells =
     (if hs_heap h = None then Some (False, h)
      else do {
        let h = h\<lparr>hs_freelist := enc_cons_ptr 0\<rparr>;
        h \<leftarrow> freelist_loop h num_cells 1;
        h \<leftarrow> upd_cell h (ref_cell (enc_cons_ptr (num_cells - 1))) (set_cdr_cell NIL);
        Some (True, h)
      })"

definition heap_init_state :: "heap_state \<Rightarrow> cell list option \<Rightarrow> UINT \<Rightarrow> bool \<Rightarrow> heap_state" where
  "heap_init_state h addr num_cells malloced =
     h\<lparr>hs_heap := addr, hs_heap_bytes := num_cells * 8, hs_heap_size := num_cells,
       hs_malloced := malloced, hs_num_alloc := 0, hs_num_alloc_arrays := 0, hs_gc_num := 0,
       hs_gc_marked := 0, hs_gc_recovered := 0, hs_gc_recovered_arrays := 0\<rparr>"

definition heap_init_addr :: "heap_state \<Rightarrow> cell list option \<Rightarrow> UINT \<Rightarrow> (bool \<times> heap_state) option" where
  "heap_init_addr h addr num_cells =
     generate_freelist (heap_init_state h addr num_cells False) num_cells"

text \<open>The C library's \<open>malloc\<close> for cells is an argument, from the number of bytes.\<close>

definition heap_init ::
  "(UINT \<Rightarrow> cell list option) \<Rightarrow> heap_state \<Rightarrow> UINT \<Rightarrow> (bool \<times> heap_state) option" where
  "heap_init malloc h num_cells =
     (case malloc (num_cells * 8) of
        None \<Rightarrow> Some (False, h)
      | Some heap \<Rightarrow> generate_freelist (heap_init_state h (Some heap) num_cells True) num_cells)"

text \<open>After \<open>free\<close> the cells must not be accessed any more.\<close>

definition heap_del :: "heap_state \<Rightarrow> heap_state" where
  "heap_del h = (if hs_heap h \<noteq> None \<and> hs_malloced h then h\<lparr>hs_heap := None\<rparr> else h)"

subsection \<open>Breaking apart\<close>

definition car :: "heap_state \<Rightarrow> VALUE \<Rightarrow> VALUE option" where
  "car h c =
     (if type_of c = VAL_TYPE_SYMBOL \<and> c = NIL then Some c
      else if is_ptr c then map_option read_car (get_cell h (ref_cell c))
      else Some (enc_sym DEF_REPR_TERROR))"

definition cdr :: "heap_state \<Rightarrow> VALUE \<Rightarrow> VALUE option" where
  "cdr h c =
     (if type_of c = VAL_TYPE_SYMBOL \<and> c = NIL then Some c
      else if type_of c = PTR_TYPE_CONS then map_option read_cdr (get_cell h (ref_cell c))
      else Some (enc_sym DEF_REPR_TERROR))"

definition set_car :: "heap_state \<Rightarrow> VALUE \<Rightarrow> VALUE \<Rightarrow> heap_state option" where
  "set_car h c v =
     (if is_ptr c \<and> ptr_type c = PTR_TYPE_CONS then upd_cell h (ref_cell c) (set_car_cell v) else Some h)"

definition set_cdr :: "heap_state \<Rightarrow> VALUE \<Rightarrow> VALUE \<Rightarrow> heap_state option" where
  "set_cdr h c v =
     (if type_of c = PTR_TYPE_CONS then upd_cell h (ref_cell c) (set_cdr_cell v) else Some h)"

subsection \<open>Allocation\<close>

partial_function (option) num_free_count :: "heap_state \<Rightarrow> VALUE \<Rightarrow> UINT \<Rightarrow> (VALUE \<times> UINT) option" where
  "num_free_count h cur count =
     (if type_of cur = PTR_TYPE_CONS then
        Option.bind (get_cell h (ref_cell cur)) (\<lambda>c. num_free_count h (read_cdr c) (count + 1))
      else Some (cur, count))"

definition heap_num_free :: "heap_state \<Rightarrow> UINT option" where
  "heap_num_free h = do {
     (cur, count) \<leftarrow> num_free_count h (hs_freelist h) 0;
     if \<not> (type_of cur = VAL_TYPE_SYMBOL) \<and> cur = NIL then Some 0 else Some count
   }"

definition heap_allocate_cell :: "heap_state \<Rightarrow> LTYPE \<Rightarrow> (VALUE \<times> heap_state) option" where
  "heap_allocate_cell h p_type =
     (if \<not> is_ptr (hs_freelist h) then
        if type_of (hs_freelist h) = VAL_TYPE_SYMBOL \<and> hs_freelist h = NIL
        then Some (enc_sym DEF_REPR_MERROR, h)
        else Some (enc_sym DEF_REPR_FATAL_ERROR, h)
      else
        let res = hs_freelist h in
        if type_of res \<noteq> PTR_TYPE_CONS then Some (enc_sym DEF_REPR_FATAL_ERROR, h)
        else do {
          next \<leftarrow> cdr h (hs_freelist h);
          let h = h\<lparr>hs_freelist := next\<rparr>;
          let h = h\<lparr>hs_num_alloc := hs_num_alloc h + 1\<rparr>;
          h \<leftarrow> upd_cell h (ref_cell res) (set_car_cell NIL);
          h \<leftarrow> upd_cell h (ref_cell res) (set_cdr_cell NIL);
          h \<leftarrow> upd_cell h (ref_cell res) clr_gc_mark;
          Some (res OR p_type, h)
        })"

definition heap_num_allocated :: "heap_state \<Rightarrow> UINT" where
  "heap_num_allocated h = hs_num_alloc h"

definition heap_size :: "heap_state \<Rightarrow> UINT" where
  "heap_size h = hs_heap_size h"

definition heap_size_bytes :: "heap_state \<Rightarrow> UINT" where
  "heap_size_bytes h = hs_heap_bytes h"

definition heap_get_state :: "heap_state \<Rightarrow> heap_state" where
  "heap_get_state h =
     \<lparr>hs_heap = hs_heap h, hs_malloced = hs_malloced h, hs_freelist = hs_freelist h,
      hs_heap_size = hs_heap_size h, hs_heap_bytes = hs_heap_bytes h,
      hs_num_alloc = hs_num_alloc h, hs_num_alloc_arrays = hs_num_alloc_arrays h,
      hs_gc_num = hs_gc_num h, hs_gc_marked = hs_gc_marked h,
      hs_gc_recovered = hs_gc_recovered h, hs_gc_recovered_arrays = hs_gc_recovered_arrays h\<rparr>"

definition cons :: "heap_state \<Rightarrow> VALUE \<Rightarrow> VALUE \<Rightarrow> (VALUE \<times> heap_state) option" where
  "cons h a d = do {
     (addr, h) \<leftarrow> heap_allocate_cell h PTR_TYPE_CONS;
     if is_ptr addr then do {
       h \<leftarrow> upd_cell h (ref_cell addr) (set_car_cell a);
       h \<leftarrow> upd_cell h (ref_cell addr) (set_cdr_cell d);
       Some (addr, h)
     } else Some (addr, h)
   }"

subsection \<open>Lists\<close>

text \<open>A loop over the \<open>cdr\<close>s of a cyclic list never returns: it is the value \<open>None\<close>.\<close>

partial_function (option) length_loop :: "heap_state \<Rightarrow> VALUE \<Rightarrow> UINT \<Rightarrow> UINT option" where
  "length_loop h c len =
     (if type_of c = PTR_TYPE_CONS then
        Option.bind (cdr h c) (\<lambda>c. length_loop h c (len + 1))
      else Some len)"

definition length_list :: "heap_state \<Rightarrow> VALUE \<Rightarrow> UINT option" where
  "length_list h c = length_loop h c 0"

text \<open>
  The loop of \<open>reverse\<close> and the first loop of \<open>copy\<close>: cons every element onto an accumulator.
  \<open>Inl\<close> is the early \<open>return\<close> of the out-of-memory symbol.
\<close>

partial_function (option) rev_onto_loop ::
  "heap_state \<Rightarrow> VALUE \<Rightarrow> VALUE \<Rightarrow> ((VALUE + VALUE) \<times> heap_state) option" where
  "rev_onto_loop h cur new_list =
     (if type_of cur = PTR_TYPE_CONS then
        Option.bind (car h cur) (\<lambda>a.
        Option.bind (cons h a new_list) (\<lambda>(new_list, h).
          if type_of new_list = VAL_TYPE_SYMBOL then Some (Inl (enc_sym DEF_REPR_MERROR), h)
          else Option.bind (cdr h cur) (\<lambda>cur. rev_onto_loop h cur new_list)))
      else Some (Inr new_list, h))"

definition reverse :: "heap_state \<Rightarrow> VALUE \<Rightarrow> (VALUE \<times> heap_state) option" where
  "reverse h list =
     (if type_of list = VAL_TYPE_SYMBOL \<and> list = NIL then Some (list, h)
      else do {
        (r, h) \<leftarrow> rev_onto_loop h list NIL;
        Some (case r of Inl v \<Rightarrow> v | Inr v \<Rightarrow> v, h)
      })"

definition copy :: "heap_state \<Rightarrow> VALUE \<Rightarrow> (VALUE \<times> heap_state) option" where
  "copy h list = do {
     (r, h) \<leftarrow> rev_onto_loop h list NIL;
     case r of
       Inl v \<Rightarrow> Some (v, h)
     | Inr res \<Rightarrow> reverse h res
   }"

subsection \<open>Boxed numbers (include/heap.h)\<close>

definition enc_I :: "heap_state \<Rightarrow> SINT \<Rightarrow> (VALUE \<times> heap_state) option" where
  "enc_I h x = do {
     (i, h) \<leftarrow> cons h x (enc_sym DEF_REPR_BOXED_I_TYPE);
     if type_of i = VAL_TYPE_SYMBOL then Some (i, h)
     else Some (set_ptr_type i PTR_TYPE_BOXED_I, h)
   }"

definition enc_U :: "heap_state \<Rightarrow> UINT \<Rightarrow> (VALUE \<times> heap_state) option" where
  "enc_U h x = do {
     (u, h) \<leftarrow> cons h x (enc_sym DEF_REPR_BOXED_U_TYPE);
     if type_of u = VAL_TYPE_SYMBOL then Some (u, h)
     else Some (set_ptr_type u PTR_TYPE_BOXED_U, h)
   }"

definition enc_F :: "heap_state \<Rightarrow> FLOAT \<Rightarrow> (VALUE \<times> heap_state) option" where
  "enc_F h x = do {
     (f, h) \<leftarrow> cons h x (enc_sym DEF_REPR_BOXED_F_TYPE);
     if type_of f = VAL_TYPE_SYMBOL then Some (f, h)
     else Some (set_ptr_type f PTR_TYPE_BOXED_F, h)
   }"

definition dec_f :: "heap_state \<Rightarrow> VALUE \<Rightarrow> FLOAT option" where
  "dec_f h x = car h x"

definition dec_U :: "heap_state \<Rightarrow> VALUE \<Rightarrow> UINT option" where
  "dec_U h x = car h x"

definition dec_I :: "heap_state \<Rightarrow> VALUE \<Rightarrow> SINT option" where
  "dec_I h x = car h x"

definition is_closure :: "heap_state \<Rightarrow> VALUE \<Rightarrow> bool option" where
  "is_closure h exp =
     (if type_of exp = PTR_TYPE_CONS then do {
        a \<leftarrow> car h exp;
        Some (type_of a = VAL_TYPE_SYMBOL \<and> dec_sym a = DEF_REPR_CLOSURE)
      } else Some False)"

subsection \<open>Arrays\<close>

text \<open>
  The integer \<open>heap_allocate_array\<close> returns and the value it stores through \<open>res\<close>, if any. The two
  words of the header are the element type and the number of elements.
\<close>

definition array_words :: "UINT \<Rightarrow> LTYPE \<Rightarrow> UINT" where
  "array_words sz type =
     (if type = VAL_TYPE_CHAR then
        if sz mod 4 = 0 then drop_bit 2 sz else drop_bit 2 sz + 1
      else sz)"

definition heap_allocate_array ::
  "heap_state \<Rightarrow> memory_state \<Rightarrow> UINT \<Rightarrow> LTYPE
   \<Rightarrow> (UINT \<times> VALUE option \<times> heap_state \<times> memory_state) option" where
  "heap_allocate_array h m sz type = do {
     (cell, h) \<leftarrow> heap_allocate_cell h PTR_TYPE_CONS;
     if type_of cell = VAL_TYPE_SYMBOL then Some (cell, None, h, m)
     else do {
       (array, m) \<leftarrow> memory_allocate m (2 + array_words sz type);
       if array = 0 then Some (0, None, h, m)
       else do {
         m \<leftarrow> mem_write m array type;
         m \<leftarrow> mem_write m (array + 4) sz;
         h \<leftarrow> set_car h cell array;
         h \<leftarrow> set_cdr h cell (enc_sym DEF_REPR_ARRAY_TYPE);
         let cell = cell OR PTR_TYPE_ARRAY;
         let h = h\<lparr>hs_num_alloc_arrays := hs_num_alloc_arrays h + 1\<rparr>;
         Some (1, Some cell, h, m)
       }
     }
   }"

end
