(* ===== verification/Heap_Correct.thy ===== *)
theory Heap_Correct
  imports Heap
begin

text \<open>
  Correctness of the cons-cell heap. \<open>heap_wf\<close> is the heap invariant: the free list is a chain of
  distinct cells that ends in \<open>nil\<close>, no cell carries a garbage collector's mark, and the allocation
  counter and the free list together account for every cell. \<open>free_cells\<close> reads the chain.

  The locale \<open>cons_store\<close> states what list code relies on (a new cell is fresh, every live cell
  keeps its contents); the list functions are verified in it and it is interpreted on \<open>heap.c\<close>.
\<close>

subsection \<open>The free list\<close>

primrec free_chain :: "cell list \<Rightarrow> VALUE \<Rightarrow> nat list \<Rightarrow> bool" where
  "free_chain cells v [] \<longleftrightarrow> v = NIL"
| "free_chain cells v (i # is) \<longleftrightarrow>
     i < length cells \<and> v = enc_cons_ptr (of_nat i) \<and> free_chain cells (cell_cdr (cells ! i)) is"

fun free_walk :: "nat \<Rightarrow> cell list \<Rightarrow> VALUE \<Rightarrow> nat list option" where
  "free_walk n cells v =
     (if v = NIL then Some []
      else case n of 0 \<Rightarrow> None
      | Suc n \<Rightarrow>
        if v = enc_cons_ptr (dec_ptr v) \<and> ref_cell v < length cells
        then map_option (Cons (ref_cell v)) (free_walk n cells (cell_cdr (cells ! ref_cell v)))
        else None)"

declare free_walk.simps [simp del]

definition heap_cells :: "heap_state \<Rightarrow> cell list" where
  "heap_cells h = (case hs_heap h of None \<Rightarrow> [] | Some cells \<Rightarrow> cells)"

definition free_cells :: "heap_state \<Rightarrow> nat list" where
  "free_cells h =
     (case free_walk (length (heap_cells h)) (heap_cells h) (hs_freelist h) of None \<Rightarrow> [] | Some fl \<Rightarrow> fl)"

definition heap_wf :: "heap_state \<Rightarrow> bool" where
  "heap_wf h \<longleftrightarrow>
     hs_heap h \<noteq> None \<and> length (heap_cells h) = unat (hs_heap_size h) \<and>
     length (heap_cells h) \<le> 2 ^ 23 \<and>
     free_walk (length (heap_cells h)) (heap_cells h) (hs_freelist h) \<noteq> None \<and>
     distinct (free_cells h) \<and>
     list_all (\<lambda>c. \<not> get_gc_mark c) (heap_cells h) \<and>
     unat (hs_num_alloc h) + length (free_cells h) = length (heap_cells h)"

text \<open>A pointer to a cell that is in use.\<close>

definition live_cell :: "heap_state \<Rightarrow> nat \<Rightarrow> bool" where
  "live_cell h i \<longleftrightarrow> i < length (heap_cells h) \<and> i \<notin> set (free_cells h)"

definition live :: "heap_state \<Rightarrow> VALUE \<Rightarrow> bool" where
  "live h v \<longleftrightarrow> is_ptr v \<and> live_cell h (ref_cell v)"

lemma ref_cell_enc_cons_ptr [cell_simps]: "i < 2 ^ 23 \<Longrightarrow> ref_cell (enc_cons_ptr (of_nat i)) = i"
  by (simp add: ref_cell_def dec_ptr_enc_cons_ptr unat_u32_of_nat)

lemma enc_cons_ptr_neq_sym [simp]: "enc_cons_ptr x \<noteq> enc_sym s" "enc_sym s \<noteq> enc_cons_ptr x"
  by (metis is_ptr_enc_cons_ptr sym_laws(1))+

lemma free_walk_chain:
  "length cells \<le> 2 ^ 23 \<Longrightarrow> free_walk n cells v = Some fl \<longleftrightarrow> free_chain cells v fl \<and> length fl \<le> n"
proof (induction n arbitrary: v fl)
  case 0
  then show ?case by (cases fl) (auto simp: free_walk.simps)
next
  case (Suc n)
  show ?case
  proof (cases fl)
    case Nil
    then show ?thesis by (auto simp: free_walk.simps)
  next
    case (Cons i fl')
    have *: "v = enc_cons_ptr (of_nat i) \<longleftrightarrow> v = enc_cons_ptr (dec_ptr v) \<and> ref_cell v = i"
      if "i < length cells"
      using that Suc.prems by (auto simp: ref_cell_def dec_ptr_enc_cons_ptr unat_u32_of_nat)
    show ?thesis
      using Suc.IH [OF Suc.prems] Cons *
      by (subst free_walk.simps) (auto split: if_splits)
  qed
qed

lemma free_chain_unique: "free_chain cells v fl \<Longrightarrow> length cells \<le> 2 ^ 23 \<Longrightarrow> free_chain cells v fl' \<Longrightarrow> fl = fl'"
  using free_walk_chain [of cells "max (length fl) (length fl')" v fl]
    free_walk_chain [of cells "max (length fl) (length fl')" v fl'] by simp

lemma free_chain_bound: "free_chain cells v fl \<Longrightarrow> i \<in> set fl \<Longrightarrow> i < length cells"
  by (induction fl arbitrary: v) auto

lemma free_chain_length: "free_chain cells v fl \<Longrightarrow> distinct fl \<Longrightarrow> length fl \<le> length cells"
proof -
  assume "free_chain cells v fl" "distinct fl"
  then have "set fl \<subseteq> {..<length cells}" by (auto dest: free_chain_bound)
  then have "card (set fl) \<le> card {..<length cells}" by (intro card_mono) auto
  then show ?thesis using \<open>distinct fl\<close> by (simp add: distinct_card)
qed

lemma free_chain_update:
  "free_chain cells v fl \<Longrightarrow> i \<notin> set fl \<Longrightarrow> free_chain (cells[i := c]) v fl"
  by (induction fl arbitrary: v) auto

text \<open>\<open>heap_wf\<close> with the chain made explicit: the form the proofs use.\<close>

definition heap_inv :: "heap_state \<Rightarrow> cell list \<Rightarrow> nat list \<Rightarrow> bool" where
  "heap_inv h cells fl \<longleftrightarrow>
     hs_heap h = Some cells \<and> length cells = unat (hs_heap_size h) \<and> length cells \<le> 2 ^ 23 \<and>
     free_chain cells (hs_freelist h) fl \<and> distinct fl \<and> (\<forall>c \<in> set cells. \<not> get_gc_mark c) \<and>
     unat (hs_num_alloc h) + length fl = length cells"

lemma heap_inv_wf: "heap_inv h cells fl \<Longrightarrow> heap_wf h \<and> heap_cells h = cells \<and> free_cells h = fl"
  using free_walk_chain [of cells "length cells" "hs_freelist h" fl]
    free_chain_length [of cells "hs_freelist h" fl]
  by (auto simp: heap_inv_def heap_wf_def heap_cells_def free_cells_def list_all_iff)

lemma heap_wf_inv: "heap_wf h \<Longrightarrow> heap_inv h (heap_cells h) (free_cells h)"
proof -
  assume wf: "heap_wf h"
  then obtain fl where "free_walk (length (heap_cells h)) (heap_cells h) (hs_freelist h) = Some fl"
    by (auto simp: heap_wf_def)
  with wf free_walk_chain [of "heap_cells h" "length (heap_cells h)" "hs_freelist h" fl]
  have "free_chain (heap_cells h) (hs_freelist h) (free_cells h)"
    by (simp add: heap_wf_def free_cells_def)
  with wf show ?thesis by (auto simp: heap_wf_def heap_inv_def heap_cells_def list_all_iff)
qed

subsection \<open>Cells\<close>

lemma get_cell_inv: "heap_inv h cells fl \<Longrightarrow> i < length cells \<Longrightarrow> get_cell h i = Some (cells ! i)"
  by (simp add: get_cell_def heap_inv_def)

lemma get_cell_wf: "heap_wf h \<Longrightarrow> live_cell h i \<Longrightarrow> get_cell h i = Some (heap_cells h ! i)"
  by (rule get_cell_inv [OF heap_wf_inv]) (auto simp: live_cell_def)

lemmas cell_defs = read_car_def read_cdr_def set_car_cell_def set_cdr_cell_def set_gc_mark_def
  clr_gc_mark_def get_gc_mark_def

lemma cell_upd_both [simp]: "(c :: cell)\<lparr>cell_car := a, cell_cdr := d\<rparr> = \<lparr>cell_car = a, cell_cdr = d\<rparr>"
  by (cases c) simp

lemma heap_inv_update:
  assumes "heap_inv h cells fl" and "i \<notin> set fl" and "\<not> get_gc_mark c"
  shows "heap_inv (h\<lparr>hs_heap := Some (cells[i := c])\<rparr>) (cells[i := c]) fl"
  using assms set_update_subset_insert [of cells i c] by (auto simp: heap_inv_def free_chain_update)

subsection \<open>Allocation\<close>

lemma heap_allocate_cell_full:
  "heap_inv h cells [] \<Longrightarrow> heap_allocate_cell h t = Some (enc_sym DEF_REPR_MERROR, h)"
  by (simp add: heap_allocate_cell_def heap_inv_def)

definition heap_take :: "heap_state \<Rightarrow> cell list \<Rightarrow> nat \<Rightarrow> cell \<Rightarrow> heap_state" where
  "heap_take h cells i c =
     h\<lparr>hs_freelist := cell_cdr (cells ! i), hs_num_alloc := hs_num_alloc h + 1,
       hs_heap := Some (cells[i := c])\<rparr>"

lemma heap_inv_take:
  assumes "heap_inv h cells (i # fl)" and "\<not> get_gc_mark c"
  shows "heap_inv (heap_take h cells i c) (cells[i := c]) fl"
proof -
  have "unat (hs_num_alloc h) < 2 ^ 23" using assms(1) by (auto simp: heap_inv_def)
  then have "unat (hs_num_alloc h + 1) = unat (hs_num_alloc h) + 1"
    by (simp add: unat_word_ariths)
  then show ?thesis
    using assms set_update_subset_insert [of cells i c]
    by (auto simp: heap_inv_def heap_take_def free_chain_update)
qed

lemma heap_inv_headD:
  assumes "heap_inv h cells (i # fl)"
  shows "i < length cells" "i < 2 ^ 23" "hs_freelist h = enc_cons_ptr (of_nat i)"
    "ref_cell (hs_freelist h) = i" "type_of (hs_freelist h) = PTR_TYPE_CONS" "hs_heap h = Some cells"
  using assms by (auto simp: heap_inv_def ref_cell_enc_cons_ptr type_of_enc_cons_ptr unat_u32_of_nat)

lemma heap_allocate_cell_take:
  assumes "heap_inv h cells (i # fl)"
  shows "heap_allocate_cell h t =
    Some (enc_cons_ptr (of_nat i) OR t, heap_take h cells i \<lparr>cell_car = NIL, cell_cdr = NIL\<rparr>)"
proof -
  note hd = heap_inv_headD [OF assms]
  have [simp]: "cdr h (enc_cons_ptr (of_nat i)) = Some (cell_cdr (cells ! i))"
    using hd by (simp add: cdr_def get_cell_def read_cdr_def)
  show ?thesis
    using hd by (simp add: heap_allocate_cell_def upd_cell_def heap_take_def cell_defs Let_def)
qed

lemma cons_take:
  assumes "heap_inv h cells (i # fl)"
  shows "cons h a d = Some (enc_cons_ptr (of_nat i), heap_take h cells i \<lparr>cell_car = a, cell_cdr = d\<rparr>)"
proof -
  note hd = heap_inv_headD [OF assms]
  have "enc_cons_ptr (of_nat i) OR PTR_TYPE_CONS = enc_cons_ptr (of_nat i)"
    using hd by (intro or_cons) simp
  then show ?thesis
    using hd by (simp add: cons_def heap_allocate_cell_take [OF assms] upd_cell_def heap_take_def
        cell_defs ref_cell_enc_cons_ptr)
qed

subsection \<open>The contract of a store of cons cells\<close>

text \<open>\<open>list_at\<close>: the value \<open>v\<close> is a proper list of live cons cells with the given elements.\<close>

primrec list_at ::
  "(VALUE \<Rightarrow> VALUE option) \<Rightarrow> (VALUE \<Rightarrow> VALUE option) \<Rightarrow> (VALUE \<Rightarrow> bool) \<Rightarrow> VALUE \<Rightarrow> VALUE list \<Rightarrow> bool"
where
  "list_at a d l v [] \<longleftrightarrow> v = NIL"
| "list_at a d l v (x # xs) \<longleftrightarrow>
     type_of v = PTR_TYPE_CONS \<and> \<not> val_get_gc_mark v \<and> l v \<and> a v = Some x \<and>
     (case d v of None \<Rightarrow> False | Some v' \<Rightarrow> list_at a d l v' xs)"

text \<open>Consing a row of values one after the other onto \<open>acc\<close>, giving up when there is no cell left.\<close>

primrec cons_all ::
  "('s \<Rightarrow> VALUE \<Rightarrow> VALUE \<Rightarrow> (VALUE \<times> 's) option) \<Rightarrow> 's \<Rightarrow> VALUE list \<Rightarrow> VALUE
   \<Rightarrow> ((VALUE + VALUE) \<times> 's) option"
where
  "cons_all c s [] acc = Some (Inr acc, s)"
| "cons_all c s (x # xs) acc = do {
     (p, s) \<leftarrow> c s x acc;
     if type_of p = VAL_TYPE_SYMBOL then Some (Inl (enc_sym DEF_REPR_MERROR), s)
     else cons_all c s xs p
   }"

lemma list_at_mark: "list_at a d l v xs \<Longrightarrow> \<not> val_get_gc_mark v"
  by (cases xs) auto

lemma list_at_cong:
  "list_at a d l v xs \<Longrightarrow> (\<And>q. l q \<Longrightarrow> l' q \<and> a' q = a q \<and> d' q = d q) \<Longrightarrow> list_at a' d' l' v xs"
  by (induction xs arbitrary: v) (auto split: option.splits)

lemma list_at_unique: "list_at a d l v xs \<Longrightarrow> list_at a d l v ys \<Longrightarrow> xs = ys"
proof (induction xs arbitrary: v ys)
  case Nil
  then show ?case by (cases ys) auto
next
  case (Cons x xs)
  then show ?case by (cases ys) (auto split: option.splits)
qed

locale cons_store =
  fixes cons :: "'s \<Rightarrow> VALUE \<Rightarrow> VALUE \<Rightarrow> (VALUE \<times> 's) option"
    and car :: "'s \<Rightarrow> VALUE \<Rightarrow> VALUE option"
    and cdr :: "'s \<Rightarrow> VALUE \<Rightarrow> VALUE option"
    and inv :: "'s \<Rightarrow> bool"
    and live :: "'s \<Rightarrow> VALUE \<Rightarrow> bool"
    and room :: "'s \<Rightarrow> nat"
    and ext :: "'s \<Rightarrow> 's \<Rightarrow> bool"
  assumes cons_full: "inv s \<Longrightarrow> room s = 0 \<Longrightarrow> cons s a d = Some (enc_sym DEF_REPR_MERROR, s)"
    and cons_room: "inv s \<Longrightarrow> 0 < room s \<Longrightarrow> \<not> val_get_gc_mark d \<Longrightarrow>
        \<exists>p s'. cons s a d = Some (p, s') \<and> inv s' \<and> ext s s' \<and> room s = Suc (room s') \<and>
          type_of p = PTR_TYPE_CONS \<and> \<not> val_get_gc_mark p \<and> \<not> live s p \<and> live s' p \<and>
          car s' p = Some a \<and> cdr s' p = Some d"
    and ext_refl: "ext s s"
    and ext_trans: "ext s s' \<Longrightarrow> ext s' s'' \<Longrightarrow> ext s s''"
    and ext_cell: "ext s s' \<Longrightarrow> live s q \<Longrightarrow> live s' q \<and> car s' q = car s q \<and> cdr s' q = cdr s q"
begin

lemma list_ext: "list_at (car s) (cdr s) (live s) v xs \<Longrightarrow> ext s s' \<Longrightarrow> list_at (car s') (cdr s') (live s') v xs"
  by (erule list_at_cong) (rule ext_cell)

lemma cons_list:
  assumes "inv s" and "0 < room s" and "list_at (car s) (cdr s) (live s) d ys"
  shows "\<exists>p s'. cons s a d = Some (p, s') \<and> inv s' \<and> ext s s' \<and> room s = Suc (room s') \<and>
    type_of p = PTR_TYPE_CONS \<and> list_at (car s') (cdr s') (live s') p (a # ys)"
  using cons_room [OF assms(1,2) list_at_mark [OF assms(3)], of a] list_ext [OF assms(3)] by fastforce

lemma cons_all_room:
  assumes "inv s" and "length xs \<le> room s" and "list_at (car s) (cdr s) (live s) acc ys"
  shows "\<exists>p s'. cons_all cons s xs acc = Some (Inr p, s') \<and> inv s' \<and> ext s s' \<and>
    room s = room s' + length xs \<and> list_at (car s') (cdr s') (live s') p (rev xs @ ys)"
  using assms
proof (induction xs arbitrary: s acc ys)
  case Nil
  then show ?case by (simp add: ext_refl)
next
  case (Cons x xs)
  obtain p s1 where s1: "cons s x acc = Some (p, s1)" "inv s1" "ext s s1" "room s = Suc (room s1)"
      "type_of p = PTR_TYPE_CONS" "list_at (car s1) (cdr s1) (live s1) p (x # ys)"
    using cons_list [OF Cons.prems(1) _ Cons.prems(3), of x] Cons.prems(2) by auto
  then obtain q s2 where "cons_all cons s1 xs p = Some (Inr q, s2)" "inv s2" "ext s1 s2"
      "room s1 = room s2 + length xs" "list_at (car s2) (cdr s2) (live s2) q (rev xs @ x # ys)"
    using Cons.IH [OF s1(2) _ s1(6)] Cons.prems(2) by auto
  with s1 show ?case by (auto intro: ext_trans)
qed

lemma cons_all_full:
  assumes "inv s" and "room s < length xs" and "\<not> val_get_gc_mark acc"
  shows "\<exists>s'. cons_all cons s xs acc = Some (Inl (enc_sym DEF_REPR_MERROR), s') \<and> inv s' \<and> ext s s' \<and>
    room s' = 0"
  using assms
proof (induction xs arbitrary: s acc)
  case (Cons x xs)
  show ?case
  proof (cases "room s = 0")
    case True
    with Cons.prems(1) show ?thesis by (simp add: cons_full ext_refl)
  next
    case False
    then obtain p s1 where s1: "cons s x acc = Some (p, s1)" "inv s1" "ext s s1" "room s = Suc (room s1)"
        "type_of p = PTR_TYPE_CONS" "\<not> val_get_gc_mark p"
      using cons_room [OF Cons.prems(1) _ Cons.prems(3), of x] by auto
    with Cons.IH [OF s1(2) _ s1(6)] Cons.prems(2) show ?thesis by (auto intro: ext_trans)
  qed
qed simp

end

subsection \<open>The heap keeps the contract\<close>

definition heap_ext :: "heap_state \<Rightarrow> heap_state \<Rightarrow> bool" where
  "heap_ext h h' \<longleftrightarrow> (\<forall>i. live_cell h i \<longrightarrow> live_cell h' i \<and> get_cell h' i = get_cell h i)"

abbreviation room :: "heap_state \<Rightarrow> nat" where
  "room h \<equiv> length (free_cells h)"

abbreviation lisp_list :: "heap_state \<Rightarrow> VALUE \<Rightarrow> VALUE list \<Rightarrow> bool" where
  "lisp_list h \<equiv> list_at (car h) (cdr h) (live h)"

lemma heap_take_ext:
  assumes "heap_inv h cells (i # fl)" and "\<not> get_gc_mark c"
  shows "heap_ext h (heap_take h cells i c)"
  using heap_inv_wf [OF assms(1)] heap_inv_wf [OF heap_inv_take [OF assms]] heap_inv_headD [OF assms(1)]
  by (auto simp: heap_ext_def live_cell_def get_cell_def heap_take_def arr_get_def)

lemma cons_law:
  assumes "heap_wf h" and "0 < room h" and "\<not> val_get_gc_mark d"
  shows "\<exists>i p h'. cons h a d = Some (p, h') \<and> heap_wf h' \<and> heap_ext h h' \<and> free_cells h = i # free_cells h' \<and>
    p = enc_cons_ptr (of_nat i) \<and> ref_cell p = i \<and> type_of p = PTR_TYPE_CONS \<and> live_cell h' i \<and>
    get_cell h' i = Some \<lparr>cell_car = a, cell_cdr = d\<rparr>"
proof -
  obtain i fl where fl: "free_cells h = i # fl" using assms(2) by (cases "free_cells h") auto
  have inv: "heap_inv h (heap_cells h) (i # fl)" using heap_wf_inv [OF assms(1)] fl by simp
  let ?c = "\<lparr>cell_car = a, cell_cdr = d\<rparr>"
  have c: "\<not> get_gc_mark ?c" using assms(3) by (simp add: cell_defs)
  have "distinct (i # fl)" using inv by (simp add: heap_inv_def)
  then show ?thesis
    using cons_take [OF inv, of a d] heap_inv_wf [OF heap_inv_take [OF inv c]] heap_take_ext [OF inv c]
      heap_inv_headD [OF inv] fl
    by (auto simp: live_cell_def get_cell_def heap_take_def)
qed

lemma heap_ext_refl [simp, intro]: "heap_ext h h"
  by (simp add: heap_ext_def)

lemma heap_ext_trans: "heap_ext h h' \<Longrightarrow> heap_ext h' h'' \<Longrightarrow> heap_ext h h''"
  by (simp add: heap_ext_def)

lemma heap_ext_live: "heap_ext h h' \<Longrightarrow> live h q \<Longrightarrow> live h' q \<and> car h' q = car h q \<and> cdr h' q = cdr h q"
  by (auto simp: heap_ext_def live_def car_def cdr_def)

interpretation store: cons_store cons car cdr heap_wf live room heap_ext
proof
  fix h :: heap_state and a d :: VALUE
  assume "heap_wf h" "room h = 0"
  then show "cons h a d = Some (enc_sym DEF_REPR_MERROR, h)"
    using heap_allocate_cell_full [of h "heap_cells h"] heap_wf_inv [of h] by (simp add: cons_def)
next
  fix h :: heap_state and a d :: VALUE
  assume a: "heap_wf h" "0 < room h" "\<not> val_get_gc_mark d"
  from cons_law [OF this, of a] obtain i p h' where 1: "cons h a d = Some (p, h')" "heap_wf h'"
      "heap_ext h h'" "free_cells h = i # free_cells h'" "p = enc_cons_ptr (of_nat i)" "ref_cell p = i"
      "type_of p = PTR_TYPE_CONS" "live_cell h' i" "get_cell h' i = Some \<lparr>cell_car = a, cell_cdr = d\<rparr>"
    by blast
  then have "car h' p = Some a" "cdr h' p = Some d"
    by (simp_all add: car_def cdr_def cell_defs)
  with 1 show "\<exists>p s'. cons h a d = Some (p, s') \<and> heap_wf s' \<and> heap_ext h s' \<and> room h = Suc (room s') \<and>
      type_of p = PTR_TYPE_CONS \<and> \<not> val_get_gc_mark p \<and> \<not> live h p \<and> live s' p \<and>
      car s' p = Some a \<and> cdr s' p = Some d"
    by (auto simp: live_def live_cell_def)
qed (auto intro: heap_ext_trans dest: heap_ext_live)

subsection \<open>Writing a live cell\<close>

lemma upd_cell_live:
  assumes "heap_wf h" and "live_cell h i" and "\<And>c. get_cell h i = Some c \<Longrightarrow> \<not> get_gc_mark (f c)"
  shows "\<exists>h'. upd_cell h i f = Some h' \<and> heap_wf h' \<and> free_cells h' = free_cells h \<and>
    hs_num_alloc h' = hs_num_alloc h \<and> hs_heap_size h' = hs_heap_size h \<and>
    (\<forall>j. get_cell h' j = (if j = i then map_option f (get_cell h i) else get_cell h j)) \<and>
    (\<forall>j. live_cell h' j \<longleftrightarrow> live_cell h j)"
proof -
  have inv: "heap_inv h (heap_cells h) (free_cells h)" by (rule heap_wf_inv [OF assms(1)])
  have i: "i < length (heap_cells h)" "i \<notin> set (free_cells h)" using assms(2) by (auto simp: live_cell_def)
  have "\<not> get_gc_mark (f (heap_cells h ! i))" using assms(3) get_cell_wf [OF assms(1,2)] by simp
  from heap_inv_update [OF inv i(2) this]
  have inv': "heap_inv (h\<lparr>hs_heap := Some ((heap_cells h)[i := f (heap_cells h ! i)])\<rparr>)
      ((heap_cells h)[i := f (heap_cells h ! i)]) (free_cells h)" .
  from heap_inv_wf [OF this] i inv show ?thesis
    by (auto simp: upd_cell_def heap_inv_def live_cell_def get_cell_def arr_get_def)
qed

lemma set_car_live:
  assumes "heap_wf h" and "live h c" and "type_of c = PTR_TYPE_CONS"
  shows "\<exists>h'. set_car h c v = Some h' \<and> heap_wf h' \<and> free_cells h' = free_cells h \<and>
    (\<forall>j. get_cell h' j = (if j = ref_cell c then map_option (set_car_cell v) (get_cell h j) else get_cell h j)) \<and>
    (\<forall>j. live_cell h' j \<longleftrightarrow> live_cell h j)"
proof -
  have i: "live_cell h (ref_cell c)" using assms(2) by (simp add: live_def)
  have "\<not> get_gc_mark (set_car_cell v x)" if "get_cell h (ref_cell c) = Some x" for x
    using that heap_wf_inv [OF assms(1)] get_cell_wf [OF assms(1) i] i
    by (auto simp: cell_defs heap_inv_def live_cell_def)
  from upd_cell_live [where f = "set_car_cell v", OF assms(1) i this] obtain h' where
    "upd_cell h (ref_cell c) (set_car_cell v) = Some h'" "heap_wf h'" "free_cells h' = free_cells h"
    "\<forall>j. get_cell h' j = (if j = ref_cell c then map_option (set_car_cell v) (get_cell h (ref_cell c)) else get_cell h j)"
    "\<forall>j. live_cell h' j \<longleftrightarrow> live_cell h j" by blast
  moreover have "is_ptr c \<and> ptr_type c = PTR_TYPE_CONS" using assms(3) type_of_ptr [of c] by auto
  ultimately show ?thesis by (auto simp: set_car_def)
qed

lemma set_cdr_live:
  assumes "heap_wf h" and "live h c" and "type_of c = PTR_TYPE_CONS" and "\<not> val_get_gc_mark v"
  shows "\<exists>h'. set_cdr h c v = Some h' \<and> heap_wf h' \<and> free_cells h' = free_cells h \<and>
    (\<forall>j. get_cell h' j = (if j = ref_cell c then map_option (set_cdr_cell v) (get_cell h j) else get_cell h j)) \<and>
    (\<forall>j. live_cell h' j \<longleftrightarrow> live_cell h j)"
proof -
  have i: "live_cell h (ref_cell c)" using assms(2) by (simp add: live_def)
  have "\<not> get_gc_mark (set_cdr_cell v x)" if "get_cell h (ref_cell c) = Some x" for x
    using assms(4) by (simp add: cell_defs)
  from upd_cell_live [where f = "set_cdr_cell v", OF assms(1) i this] obtain h' where
    "upd_cell h (ref_cell c) (set_cdr_cell v) = Some h'" "heap_wf h'" "free_cells h' = free_cells h"
    "\<forall>j. get_cell h' j = (if j = ref_cell c then map_option (set_cdr_cell v) (get_cell h (ref_cell c)) else get_cell h j)"
    "\<forall>j. live_cell h' j \<longleftrightarrow> live_cell h j" by blast
  then show ?thesis using assms(3) by (auto simp: set_cdr_def)
qed

subsection \<open>Initialisation and the free-cell count\<close>

lemma freelist_loop_correct:
  assumes "hs_heap h = Some cells" and "length cells = unat n" and "length cells \<le> 2 ^ 23" and "1 \<le> unat i"
  shows "\<exists>cells'. freelist_loop h n i = Some (h\<lparr>hs_heap := Some cells'\<rparr>) \<and> length cells' = length cells \<and>
    (\<forall>j < length cells. cells' ! j =
       (if unat i \<le> j + 1 \<and> j + 1 < length cells
        then \<lparr>cell_car = RECOVERED, cell_cdr = enc_cons_ptr (of_nat (j + 1))\<rparr> else cells ! j))"
  using assms
proof (induction h n i arbitrary: cells rule: freelist_loop.induct)
  case (1 h n i)
  show ?case
  proof (cases "i < n")
    case False
    then have "length cells \<le> unat i" using 1(3) by (simp add: word_less_nat_alt)
    then have "cells ! j = (if unat i \<le> j + 1 \<and> j + 1 < length cells
        then \<lparr>cell_car = RECOVERED, cell_cdr = enc_cons_ptr (of_nat (j + 1))\<rparr> else cells ! j)" for j by auto
    with False 1(2) show ?thesis
      by (subst freelist_loop.simps) (auto intro!: exI [of _ cells])
  next
    case True
    have lt: "unat i < length cells" using True 1(3) by (simp add: word_less_nat_alt)
    have "unat (i - 1) = unat i - 1" using 1(5) by (simp add: unat_sub_if')
    then have ref: "ref_cell (enc_cons_ptr (i - 1)) = unat i - 1" "unat i - 1 < length cells"
      using lt 1(4) by (simp_all add: ref_cell_def dec_ptr_enc_cons_ptr)
    let ?cells = "cells[unat i - 1 := \<lparr>cell_car = RECOVERED, cell_cdr = enc_cons_ptr i\<rparr>]"
    have step: "freelist_loop h n i = freelist_loop (h\<lparr>hs_heap := Some ?cells\<rparr>) n (i + 1)"
      using True ref 1(2) by (subst freelist_loop.simps) (simp add: upd_cell_def cell_defs)
    have i1: "unat (i + 1) = unat i + 1" using unat_succ_less [OF True] by simp
    have IH: "\<exists>cells'. freelist_loop (h\<lparr>hs_heap := Some ?cells\<rparr>) n (i + 1) =
        Some (h\<lparr>hs_heap := Some ?cells\<rparr>\<lparr>hs_heap := Some cells'\<rparr>) \<and> length cells' = length ?cells \<and>
        (\<forall>j < length ?cells. cells' ! j =
          (if unat (i + 1) \<le> j + 1 \<and> j + 1 < length ?cells
           then \<lparr>cell_car = RECOVERED, cell_cdr = enc_cons_ptr (of_nat (j + 1))\<rparr> else ?cells ! j))"
      using 1(3-5) i1 ref 1(2)
      by (intro 1(1) [OF True]) (auto simp: upd_cell_def cell_defs)
    then obtain cells' where c': "freelist_loop h n i = Some (h\<lparr>hs_heap := Some cells'\<rparr>)"
        "length cells' = length cells"
        "\<forall>j < length cells. cells' ! j =
          (if unat i + 1 \<le> j + 1 \<and> j + 1 < length cells
           then \<lparr>cell_car = RECOVERED, cell_cdr = enc_cons_ptr (of_nat (j + 1))\<rparr> else ?cells ! j)"
      unfolding step i1 by auto
    have "cells' ! j = (if unat i \<le> j + 1 \<and> j + 1 < length cells
        then \<lparr>cell_car = RECOVERED, cell_cdr = enc_cons_ptr (of_nat (j + 1))\<rparr> else cells ! j)"
      if j: "j < length cells" for j
    proof (cases "j + 1 = unat i")
      case True
      then have "of_nat (j + 1) = i" by (simp only: of_nat_unat ucast_id)
      moreover have "unat i - 1 = j" "\<not> unat i + 1 \<le> j + 1" using True by simp_all
      ultimately show ?thesis using True j lt c'(3) by simp
    next
      case False
      with j 1(5) c'(3) show ?thesis by (auto simp: nth_list_update)
    qed
    with c'(1,2) show ?thesis by blast
  qed
qed


lemma free_chain_upto:
  assumes "length cells \<le> 2 ^ 23" and "\<forall>j < length cells. cell_cdr (cells ! j) =
      (if j + 1 < length cells then enc_cons_ptr (of_nat (j + 1)) else NIL)"
    and "k < length cells"
  shows "free_chain cells (enc_cons_ptr (of_nat k)) [k..<length cells]"
  using assms(3)
proof (induction "length cells - k" arbitrary: k)
  case (Suc d)
  have *: "[k..<length cells] = k # [Suc k..<length cells]" using Suc.prems by (simp add: upt_conv_Cons)
  show ?case
  proof (cases "Suc k < length cells")
    case True
    then have "free_chain cells (enc_cons_ptr (of_nat (Suc k))) [Suc k..<length cells]"
      using Suc by (intro Suc.hyps) auto
    moreover have "cell_cdr (cells ! k) = enc_cons_ptr (of_nat (Suc k))" using assms(2) True by auto
    ultimately show ?thesis unfolding * using Suc.prems by (simp del: of_nat_Suc)
  next
    case False
    then have e: "[Suc k..<length cells] = []" and "cell_cdr (cells ! k) = NIL"
      using Suc.prems assms(2) by auto
    then show ?thesis unfolding * e using Suc.prems by simp
  qed
qed simp

lemma generate_freelist_correct:
  assumes "hs_heap h = Some cells" and "length cells = unat n" and "unat n = unat (hs_heap_size h)"
    and "0 < unat n" and "unat n \<le> 2 ^ 23" and "hs_num_alloc h = 0"
  shows "\<exists>h'. generate_freelist h n = Some (True, h') \<and> heap_wf h' \<and> free_cells h' = [0..<unat n]"
proof -
  let ?h = "h\<lparr>hs_freelist := enc_cons_ptr 0\<rparr>"
  have "\<exists>cells'. freelist_loop ?h n 1 = Some (?h\<lparr>hs_heap := Some cells'\<rparr>) \<and> length cells' = length cells \<and>
    (\<forall>j < length cells. cells' ! j =
       (if unat (1 :: UINT) \<le> j + 1 \<and> j + 1 < length cells
        then \<lparr>cell_car = RECOVERED, cell_cdr = enc_cons_ptr (of_nat (j + 1))\<rparr> else cells ! j))"
    using assms by (intro freelist_loop_correct) auto
  then obtain cells' where c: "freelist_loop ?h n 1 = Some (?h\<lparr>hs_heap := Some cells'\<rparr>)"
      "length cells' = length cells" "\<forall>j < length cells. j + 1 < length cells \<longrightarrow>
        cells' ! j = \<lparr>cell_car = RECOVERED, cell_cdr = enc_cons_ptr (of_nat (j + 1))\<rparr>"
    by auto
  have "unat (n - 1) = unat n - 1" using assms(4) by (simp add: unat_sub_if')
  then have ref: "ref_cell (enc_cons_ptr (n - 1)) = length cells - 1"
    using assms(2,4,5) by (simp add: ref_cell_def dec_ptr_enc_cons_ptr)
  let ?cells = "cells'[length cells - 1 := set_cdr_cell NIL (cells' ! (length cells - 1))]"
  let ?h' = "?h\<lparr>hs_heap := Some ?cells\<rparr>"
  have len: "length cells - 1 < length cells" using assms(2,4) by simp
  have gen: "generate_freelist h n = Some (True, ?h')"
    using assms(1) c(1,2) len by (simp add: generate_freelist_def upd_cell_def ref)
  have cdrs: "\<forall>j < length ?cells. cell_cdr (?cells ! j) =
      (if j + 1 < length ?cells then enc_cons_ptr (of_nat (j + 1)) else NIL)"
    using c(2,3) len by (auto simp: nth_list_update cell_defs)
  then have marks: "\<forall>x \<in> set ?cells. \<not> get_gc_mark x"
    unfolding all_set_conv_all_nth by (simp add: cell_defs)
  have "free_chain ?cells (enc_cons_ptr (of_nat 0)) [0..<length ?cells]"
    using assms(2,4,5) c(2) by (intro free_chain_upto [OF _ cdrs]) simp_all
  with marks assms(2-6) c(2) have "heap_inv ?h' ?cells [0..<unat n]"
    by (simp add: heap_inv_def)
  from heap_inv_wf [OF this] gen show ?thesis by blast
qed

lemma num_free_count_chain:
  "free_chain (heap_cells h) v fl \<Longrightarrow> hs_heap h = Some (heap_cells h) \<Longrightarrow> length (heap_cells h) \<le> 2 ^ 23 \<Longrightarrow>
    num_free_count h v n = Some (NIL, n + of_nat (length fl))"
proof (induction fl arbitrary: v n)
  case Nil
  then show ?case by (subst num_free_count.simps) simp
next
  case (Cons i fl)
  then have "type_of v = PTR_TYPE_CONS" "get_cell h (ref_cell v) = Some (heap_cells h ! i)"
    by (auto simp: type_of_enc_cons_ptr unat_u32_of_nat ref_cell_enc_cons_ptr get_cell_def)
  then show ?case
    using Cons by (subst num_free_count.simps) (simp add: read_cdr_def add.assoc add.commute [of 1])
qed

end
