(* ===== verification/Heap_Lists.thy ===== *)
theory Heap_Lists
  imports Heap_Correct
begin

text \<open>
  The list functions of \<open>src/heap.c\<close> and the boxed numbers of \<open>include/heap.h\<close>, verified over the
  contract \<open>cons_store\<close>; initialisation and the free-cell count.
\<close>

subsection \<open>A concrete heap\<close>

text \<open>Ten cells: the list \<open>(1 2)\<close> in cells 1 and 0, the others free.\<close>

definition demo_heap :: heap_state where
  "demo_heap = \<lparr>hs_heap = Some (
      [\<lparr>cell_car = enc_i 2, cell_cdr = NIL\<rparr>, \<lparr>cell_car = enc_i 1, cell_cdr = enc_cons_ptr 0\<rparr>] @
      map (\<lambda>i. \<lparr>cell_car = RECOVERED, cell_cdr = enc_cons_ptr i\<rparr>) [3, 4, 5, 6, 7, 8, 9] @
      [\<lparr>cell_car = RECOVERED, cell_cdr = NIL\<rparr>]),
    hs_malloced = False, hs_freelist = enc_cons_ptr 2, hs_heap_size = 10, hs_heap_bytes = 80,
    hs_num_alloc = 2, hs_num_alloc_arrays = 0, hs_gc_num = 0, hs_gc_marked = 0,
    hs_gc_recovered = 0, hs_gc_recovered_arrays = 0\<rparr>"

lemma demo_heap_inv: "heap_inv demo_heap (heap_cells demo_heap) [2, 3, 4, 5, 6, 7, 8, 9]"
  by (simp add: heap_inv_def heap_cells_def demo_heap_def cell_defs)

lemmas demo_heap_wf = heap_inv_wf [OF demo_heap_inv, THEN conjunct1]
lemmas demo_heap_free = heap_inv_wf [OF demo_heap_inv, THEN conjunct2, THEN conjunct2]

lemma demo_heap_list: "lisp_list demo_heap (enc_cons_ptr 1) [enc_i 1, enc_i 2]"
  by code_simp

subsection \<open>Length\<close>

lemma length_loop_list:
  "lisp_list h v xs \<Longrightarrow> length_loop h v n = Some (n + of_nat (length xs))"
proof (induction xs arbitrary: v n)
  case Nil
  then show ?case by (subst length_loop.simps) simp
next
  case (Cons x xs)
  then show ?case
    by (subst length_loop.simps) (auto simp: add.assoc add.commute [of 1] split: option.splits)
qed

subsection \<open>Reverse and copy\<close>

lemma type_of_list: "lisp_list h v xs \<Longrightarrow> xs \<noteq> [] \<Longrightarrow> type_of v = PTR_TYPE_CONS"
  by (cases xs) auto

lemma rev_onto_loop_cons_all:
  assumes "heap_wf h" and "lisp_list h v xs" and "\<not> val_get_gc_mark acc"
  shows "rev_onto_loop h v acc = cons_all cons h xs acc"
  using assms
proof (induction xs arbitrary: h v acc)
  case Nil
  then show ?case by (subst rev_onto_loop.simps) simp
next
  case (Cons x xs)
  from Cons.prems(2) obtain v' where v: "type_of v = PTR_TYPE_CONS" "live h v" "car h v = Some x"
      "cdr h v = Some v'" "lisp_list h v' xs"
    by (auto split: option.splits)
  show ?case
  proof (cases "room h = 0")
    case True
    then show ?thesis
      using v by (subst rev_onto_loop.simps) (simp add: store.cons_full [OF Cons.prems(1) True])
  next
    case False
    then obtain p h' where h': "cons h x acc = Some (p, h')" "heap_wf h'" "heap_ext h h'"
        "type_of p = PTR_TYPE_CONS" "\<not> val_get_gc_mark p"
      using store.cons_room [OF Cons.prems(1) _ Cons.prems(3), of x] by auto
    have "cdr h' v = Some v'" using store.ext_cell [OF h'(3) v(2)] v(4) by simp
    moreover have "lisp_list h' v' xs" by (rule store.list_ext [OF v(5) h'(3)])
    ultimately show ?thesis
      using v h' Cons.IH [OF h'(2) _ h'(5), of v'] by (subst rev_onto_loop.simps) simp
  qed
qed

lemma reverse_cons_all:
  assumes "heap_wf h" and "lisp_list h v xs" and "xs \<noteq> []"
  shows "reverse h v = do { (r, h) \<leftarrow> cons_all cons h xs NIL; Some (case r of Inl v \<Rightarrow> v | Inr v \<Rightarrow> v, h) }"
  using type_of_list [OF assms(2,3)] rev_onto_loop_cons_all [OF assms(1,2), of NIL]
  by (auto simp: reverse_def)

lemma reverse_room:
  assumes "heap_wf h" and "lisp_list h v xs" and "length xs \<le> room h"
  shows "\<exists>p h'. reverse h v = Some (p, h') \<and> heap_wf h' \<and> heap_ext h h' \<and> lisp_list h' p (rev xs) \<and>
    room h = room h' + length xs"
proof (cases "xs = []")
  case True
  with assms show ?thesis by (auto simp: reverse_def)
next
  case False
  then show ?thesis
    using store.cons_all_room [OF assms(1,3), of NIL "[]"] reverse_cons_all [OF assms(1,2) False] by auto
qed

lemma reverse_full:
  assumes "heap_wf h" and "lisp_list h v xs" and "room h < length xs"
  shows "\<exists>h'. reverse h v = Some (enc_sym DEF_REPR_MERROR, h') \<and> heap_wf h' \<and> heap_ext h h'"
proof -
  have "xs \<noteq> []" using assms(3) by auto
  then show ?thesis
    using store.cons_all_full [OF assms(1,3), of NIL] reverse_cons_all [OF assms(1,2)] by auto
qed

text \<open>
  \<open>reverse\<close> of a proper list returns; with enough free cells the result is a fresh list of the
  elements in reverse order and every live cell is unchanged, otherwise the result is the
  out-of-memory symbol and again no live cell has changed.
\<close>

theorem reverse_correct:
  assumes "heap_wf h" and "lisp_list h v xs"
  shows "\<exists>r h'. reverse h v = Some (r, h') \<and> heap_wf h' \<and> heap_ext h h' \<and> lisp_list h' v xs \<and>
    (if length xs \<le> room h then lisp_list h' r (rev xs) \<and> room h = room h' + length xs
     else r = enc_sym DEF_REPR_MERROR)"
  using reverse_room [OF assms] reverse_full [OF assms] store.list_ext [OF assms(2)]
  by (cases "length xs \<le> room h") (fastforce simp: not_le)+

text \<open>
  \<open>copy\<close> of a proper list needs twice as many free cells as the list has; with that many it
  returns a list of the same elements in fresh cells, and the original is unchanged.
\<close>

theorem copy_correct:
  assumes "heap_wf h" and "lisp_list h v xs"
  shows "\<exists>r h'. copy h v = Some (r, h') \<and> heap_wf h' \<and> heap_ext h h' \<and> lisp_list h' v xs \<and>
    (if 2 * length xs \<le> room h then lisp_list h' r xs \<and> room h = room h' + 2 * length xs
     else r = enc_sym DEF_REPR_MERROR)"
proof (cases "length xs \<le> room h")
  case True
  obtain p h1 where h1: "cons_all cons h xs NIL = Some (Inr p, h1)" "heap_wf h1" "heap_ext h h1"
      "room h = room h1 + length xs" "lisp_list h1 p (rev xs)"
    using store.cons_all_room [OF assms(1) True, of NIL "[]"] by auto
  have 1: "copy h v = reverse h1 p"
    using rev_onto_loop_cons_all [OF assms, of NIL] h1(1) by (simp add: copy_def)
  have ext: "heap_ext h h2 \<and> lisp_list h2 v xs" if "heap_ext h1 h2" for h2
    using that h1(3) store.ext_trans store.list_ext [OF assms(2)] by blast
  show ?thesis
  proof (cases "length (rev xs) \<le> room h1")
    case True
    with reverse_room [OF h1(2,5)] ext h1(4) show ?thesis unfolding 1 by auto
  next
    case False
    with reverse_full [OF h1(2,5)] ext h1(4) show ?thesis unfolding 1 by (auto simp: not_le)
  qed
next
  case False
  then show ?thesis
    using store.cons_all_full [OF assms(1), of xs NIL] rev_onto_loop_cons_all [OF assms, of NIL]
      store.list_ext [OF assms(2)] by (auto simp: copy_def not_le)
qed

text \<open>\<open>length\<close> of a proper list returns the number of its elements, modulo the width of the counter.\<close>

theorem length_list_correct:
  assumes "lisp_list h v xs"
  shows "length_list h v = Some (of_nat (length xs))"
  using length_loop_list [OF assms, of 0] by (simp add: length_list_def)


theorem reverse_correct_witness:
  "\<exists>r h'. reverse demo_heap (enc_cons_ptr 1) = Some (r, h') \<and> heap_wf h' \<and> heap_ext demo_heap h' \<and>
    lisp_list h' (enc_cons_ptr 1) [enc_i 1, enc_i 2] \<and> lisp_list h' r [enc_i 2, enc_i 1] \<and>
    room demo_heap = room h' + 2"
  using reverse_correct [OF demo_heap_wf demo_heap_list] by (auto simp: demo_heap_free)

theorem copy_correct_witness:
  "\<exists>r h'. copy demo_heap (enc_cons_ptr 1) = Some (r, h') \<and> heap_wf h' \<and> heap_ext demo_heap h' \<and>
    lisp_list h' (enc_cons_ptr 1) [enc_i 1, enc_i 2] \<and> lisp_list h' r [enc_i 1, enc_i 2] \<and>
    room demo_heap = room h' + 4"
  using copy_correct [OF demo_heap_wf demo_heap_list] by (auto simp: demo_heap_free)

theorem length_list_correct_witness: "length_list demo_heap (enc_cons_ptr 1) = Some 2"
  using length_list_correct [OF demo_heap_list] by simp

subsection \<open>Cons, car and cdr\<close>

text \<open>
  \<open>cons\<close> on a well-formed heap with a free cell returns a cons pointer to a cell that was free,
  from which \<open>car\<close> and \<open>cdr\<close> read the two values back; one cell fewer is free, the invariant
  holds and no live cell changed. Without a free cell it returns the out-of-memory symbol.
\<close>

theorem cons_correct:
  assumes "heap_wf h" and "\<not> val_get_gc_mark d"
  shows "\<exists>p h'. cons h a d = Some (p, h') \<and> heap_wf h' \<and> heap_ext h h' \<and>
    (if room h = 0 then p = enc_sym DEF_REPR_MERROR \<and> h' = h
     else type_of p = PTR_TYPE_CONS \<and> \<not> live h p \<and> live h' p \<and> car h' p = Some a \<and> cdr h' p = Some d \<and>
       room h = Suc (room h'))"
  using store.cons_full [OF assms(1), of a d] store.cons_room [OF assms(1) _ assms(2), of a] assms(1)
  by (cases "room h = 0") auto

theorem cons_correct_witness:
  "\<exists>p h'. cons demo_heap 7 (enc_cons_ptr 1) = Some (p, h') \<and> heap_wf h' \<and> heap_ext demo_heap h' \<and>
    type_of p = PTR_TYPE_CONS \<and> \<not> live demo_heap p \<and> live h' p \<and> car h' p = Some 7 \<and>
    cdr h' p = Some (enc_cons_ptr 1) \<and> room demo_heap = Suc (room h')"
  using cons_correct [OF demo_heap_wf, of "enc_cons_ptr 1" 7] by (simp add: demo_heap_free)

text \<open>
  \<open>set_cdr\<close> on a live cons cell changes the \<open>cdr\<close> of that cell and no other cell, and keeps the
  invariant and the free list.
\<close>

theorem set_cdr_correct:
  assumes "heap_wf h" and "live h c" and "type_of c = PTR_TYPE_CONS" and "\<not> val_get_gc_mark v"
  shows "\<exists>h'. set_cdr h c v = Some h' \<and> heap_wf h' \<and> free_cells h' = free_cells h \<and>
    car h' c = car h c \<and> cdr h' c = Some v \<and>
    (\<forall>q. ref_cell q \<noteq> ref_cell c \<longrightarrow> car h' q = car h q \<and> cdr h' q = cdr h q)"
proof -
  obtain h' where h': "set_cdr h c v = Some h'" "heap_wf h'" "free_cells h' = free_cells h"
      "\<forall>j. get_cell h' j = (if j = ref_cell c then map_option (set_cdr_cell v) (get_cell h j) else get_cell h j)"
    using set_cdr_live [OF assms] by blast
  have "get_cell h (ref_cell c) = Some (heap_cells h ! ref_cell c)"
    using get_cell_wf [OF assms(1)] assms(2) by (simp add: live_def)
  with h' assms(3) show ?thesis by (auto simp: car_def cdr_def cell_defs)
qed

theorem set_cdr_correct_witness:
  "\<exists>h'. set_cdr demo_heap (enc_cons_ptr 1) NIL = Some h' \<and> heap_wf h' \<and>
    free_cells h' = free_cells demo_heap \<and> car h' (enc_cons_ptr 1) = car demo_heap (enc_cons_ptr 1) \<and>
    cdr h' (enc_cons_ptr 1) = Some NIL \<and>
    (\<forall>q. ref_cell q \<noteq> ref_cell (enc_cons_ptr 1) \<longrightarrow> car h' q = car demo_heap q \<and> cdr h' q = cdr demo_heap q)"
proof -
  have "live demo_heap (enc_cons_ptr 1)" and "type_of (enc_cons_ptr 1) = PTR_TYPE_CONS" by code_simp+
  then show ?thesis using set_cdr_correct [OF demo_heap_wf, of "enc_cons_ptr 1" NIL] by simp
qed

subsection \<open>Initialisation and the free-cell count\<close>

text \<open>
  \<open>heap_init_addr\<close> over an array of up to \<open>2^23\<close> cells, with any contents, gives a well-formed heap
  in which every cell is on the free list in address order and \<open>heap_num_free\<close> reports them all.
\<close>

lemma heap_num_free_wf: "heap_wf h \<Longrightarrow> heap_num_free h = Some (of_nat (room h))"
  using num_free_count_chain [of h "hs_freelist h" "free_cells h" 0] heap_wf_inv [of h]
  by (simp add: heap_num_free_def heap_inv_def)

theorem heap_init_addr_correct:
  assumes "length cells = unat n" and "0 < unat n" and "unat n \<le> 2 ^ 23"
  shows "\<exists>h'. heap_init_addr h (Some cells) n = Some (True, h') \<and> heap_wf h' \<and>
    free_cells h' = [0..<unat n] \<and> heap_num_free h' = Some n"
proof -
  obtain h' where h': "heap_init_addr h (Some cells) n = Some (True, h')" "heap_wf h'"
      "free_cells h' = [0..<unat n]"
    unfolding heap_init_addr_def
    using generate_freelist_correct [of "heap_init_state h (Some cells) n False" cells n, OF _ assms(1) _ assms(2,3)]
    by (force simp: heap_init_state_def)
  then show ?thesis using heap_num_free_wf [OF h'(2)] by auto
qed

theorem heap_init_addr_correct_witness:
  "\<exists>h'. heap_init_addr demo_heap (Some (replicate 4 \<lparr>cell_car = 9, cell_cdr = 9\<rparr>)) 4 = Some (True, h') \<and>
    heap_wf h' \<and> free_cells h' = [0, 1, 2, 3] \<and> heap_num_free h' = Some 4"
proof -
  have *: "[0..<unat (4 :: UINT)] = [0, 1, 2, 3]" by (simp add: upt_conv_Cons)
  show ?thesis
    by (rule heap_init_addr_correct [where n = 4, unfolded *]) simp_all
qed

subsection \<open>Boxed numbers\<close>

lemma enc_boxed_room:
  assumes "heap_wf h" and "0 < room h" and "t AND PTR_TYPE_MASK = t"
    and "cons h x (enc_sym s) = Some (p, h')"
  shows "heap_wf h' \<and> heap_ext h h' \<and> room h = Suc (room h') \<and> type_of p \<noteq> VAL_TYPE_SYMBOL \<and>
    type_of (set_ptr_type p t) = t \<and> live h' (set_ptr_type p t) \<and> \<not> val_get_gc_mark (set_ptr_type p t) \<and>
    get_cell h' (ref_cell (set_ptr_type p t)) = Some \<lparr>cell_car = x, cell_cdr = enc_sym s\<rparr>"
  using cons_law [OF assms(1,2), of "enc_sym s" x] assms(3,4)
  by (auto simp: set_ptr_type_laws live_def ref_cell_def)

lemma enc_boxed:
  assumes "heap_wf h" and "0 < room h" and "t AND PTR_TYPE_MASK = t"
  shows "\<exists>p h'. do {
      (i, h) \<leftarrow> cons h x (enc_sym s);
      if type_of i = VAL_TYPE_SYMBOL then Some (i, h) else Some (set_ptr_type i t, h)
    } = Some (p, h') \<and> type_of p = t \<and> car h' p = Some x \<and> heap_wf h' \<and> heap_ext h h' \<and>
    room h = Suc (room h')"
proof -
  obtain p h' where c: "cons h x (enc_sym s) = Some (p, h')"
    using store.cons_room [OF assms(1,2), of "enc_sym s" x] by auto
  have "set_ptr_type p t \<noteq> NIL" by (metis is_ptr_set_ptr_type sym_laws(1))
  then show ?thesis using c enc_boxed_room [OF assms c] by (simp add: car_def read_car_def)
qed

text \<open>
  A full 32-bit signed, unsigned or float value survives boxing: \<open>enc_I\<close>, \<open>enc_U\<close> and \<open>enc_F\<close>
  return a pointer of their type from which \<open>dec_I\<close>, \<open>dec_U\<close> and \<open>dec_f\<close> read all 32 bits back; no live
  cell changes, and each uses one cell.
\<close>

theorem boxed_roundtrip:
  assumes "heap_wf h" and "0 < room h"
  shows "(\<exists>p h'. enc_I h x = Some (p, h') \<and> type_of p = PTR_TYPE_BOXED_I \<and> dec_I h' p = Some x \<and>
      heap_wf h' \<and> heap_ext h h' \<and> room h = Suc (room h')) \<and>
    (\<exists>p h'. enc_U h x = Some (p, h') \<and> type_of p = PTR_TYPE_BOXED_U \<and> dec_U h' p = Some x \<and>
      heap_wf h' \<and> heap_ext h h' \<and> room h = Suc (room h')) \<and>
    (\<exists>p h'. enc_F h x = Some (p, h') \<and> type_of p = PTR_TYPE_BOXED_F \<and> dec_f h' p = Some x \<and>
      heap_wf h' \<and> heap_ext h h' \<and> room h = Suc (room h'))"
  unfolding enc_I_def enc_U_def enc_F_def dec_I_def dec_U_def dec_f_def
  by (intro conjI enc_boxed [OF assms]) simp_all

theorem boxed_roundtrip_witness:
  "(\<exists>p h'. enc_I demo_heap 0xFFFFFFFF = Some (p, h') \<and> type_of p = PTR_TYPE_BOXED_I \<and>
      dec_I h' p = Some 0xFFFFFFFF \<and> heap_wf h' \<and> heap_ext demo_heap h' \<and> room demo_heap = Suc (room h')) \<and>
    (\<exists>p h'. enc_U demo_heap 0xFFFFFFFF = Some (p, h') \<and> type_of p = PTR_TYPE_BOXED_U \<and>
      dec_U h' p = Some 0xFFFFFFFF \<and> heap_wf h' \<and> heap_ext demo_heap h' \<and> room demo_heap = Suc (room h')) \<and>
    (\<exists>p h'. enc_F demo_heap 0xFFFFFFFF = Some (p, h') \<and> type_of p = PTR_TYPE_BOXED_F \<and>
      dec_f h' p = Some 0xFFFFFFFF \<and> heap_wf h' \<and> heap_ext demo_heap h' \<and> room demo_heap = Suc (room h'))"
  by (rule boxed_roundtrip [OF demo_heap_wf]) (simp add: demo_heap_free)

end
