(* ===== verification/Arrays.thy ===== *)
theory Arrays
  imports Heap_Lists Memory_Correct
begin

text \<open>
  Words of the managed memory, and \<open>heap_allocate_array\<close> of \<open>src/heap.c\<close>, the operation that ties a
  cell of the heap to a block of that memory.
\<close>

subsection \<open>Reading and writing words\<close>

lemma mem_ix_mem_addr:
  assumes "memory_wf m" and "p < segs_len (memory_segs m)"
  shows "mem_ix m (mem_addr m p) = p"
proof -
  have "unat (mem_addr m p - ms_base m) = 4 * p"
    using unat_mem_addr [OF assms] by (simp add: unat_sub_if')
  then show ?thesis by (simp add: mem_ix_def)
qed

lemma mem_addr_aligned:
  assumes "memory_wf m" and "p < segs_len (memory_segs m)"
  shows "mem_addr m p mod 4 = 0"
proof -
  have "unat (ms_base m) mod 4 = 0"
    using assms(1) by (elim memory_wfE) (simp add: word_unat_eq_iff unat_mod)
  then show ?thesis using unat_mem_addr [OF assms] by (simp add: word_unat_eq_iff unat_mod)
qed

lemma mem_addr_step: "mem_addr m p + 4 = mem_addr m (p + 1)"
  by (simp add: mem_addr_def algebra_simps)

lemma length_memory: "memory_wf m \<Longrightarrow> \<exists>ws. ms_memory m = Some ws \<and> length ws = segs_len (memory_segs m)"
  by (elim memory_wfE) simp

lemma mem_write_word:
  assumes "memory_wf m" and "p < segs_len (memory_segs m)"
  shows "\<exists>m'. mem_write m (mem_addr m p) v = Some m' \<and> memory_wf m' \<and> memory_segs m' = memory_segs m \<and>
    mem_addr m' = mem_addr m \<and> mem_read m' (mem_addr m p) = Some v \<and>
    (\<forall>q < segs_len (memory_segs m). q \<noteq> p \<longrightarrow> mem_read m' (mem_addr m q) = mem_read m (mem_addr m q))"
proof -
  obtain ws where ws: "ms_memory m = Some ws" "length ws = segs_len (memory_segs m)"
    using length_memory [OF assms(1)] by blast
  let ?m = "m\<lparr>ms_memory := Some (ws[p := v])\<rparr>"
  have w: "mem_write m (mem_addr m p) v = Some ?m"
    using ws assms(2) by (simp add: mem_write_def mem_ix_mem_addr [OF assms] mem_addr_aligned [OF assms])
  have wf: "memory_wf ?m" using assms(1) ws by (simp add: memory_wf_def split: option.splits)
  have segs: "memory_segs ?m = memory_segs m" by (simp add: memory_segs_def)
  have addr: "mem_addr ?m = mem_addr m" by (simp add: mem_addr_def fun_eq_iff)
  have "mem_read ?m (mem_addr m q) = (if q = p then Some v else mem_read m (mem_addr m q))"
    if q: "q < segs_len (memory_segs m)" for q
    using mem_ix_mem_addr [OF wf, of q] mem_addr_aligned [OF wf, of q] mem_ix_mem_addr [OF assms(1) q] q ws
    by (simp add: mem_read_def segs addr)
  with w wf segs addr assms(2) show ?thesis by auto
qed

subsection \<open>heap_allocate_array\<close>

lemma unat_array_size:
  assumes "unat sz < 2 ^ 32 - 2"
  shows "unat (2 + array_words sz type) = 2 + unat (array_words sz type)"
proof -
  have le: "unat (array_words sz type) \<le> unat sz"
  proof (cases "type = VAL_TYPE_CHAR \<and> sz mod 4 \<noteq> 0")
    case True
    have "unat sz mod 4 \<noteq> 0" using True by (simp add: word_unat_eq_iff unat_mod)
    then have "unat sz div 4 + 1 \<le> unat sz" by presburger
    moreover have "unat (array_words sz type) = unat sz div 4 + 1"
      using True assms by (simp add: array_words_def drop_bit_eq_div unat_word_ariths unat_div)
    ultimately show ?thesis by simp
  next
    case False
    then show ?thesis by (auto simp: array_words_def drop_bit_eq_div unat_div)
  qed
  then have "2 + unat (array_words sz type) < 2 ^ 32" using assms by linarith
  then show ?thesis by (simp add: unat_word_ariths)
qed

lemma write_header:
  assumes "memory_wf m" and "memory_segs m = A @ Block n # B" and "2 \<le> n"
  shows "\<exists>m'. do { m1 \<leftarrow> mem_write m (mem_addr m (segs_len A)) t; mem_write m1 (mem_addr m (segs_len A) + 4) sz }
      = Some m' \<and> memory_wf m' \<and> memory_segs m' = memory_segs m \<and> mem_addr m' = mem_addr m \<and>
    mem_read m' (mem_addr m (segs_len A)) = Some t \<and> mem_read m' (mem_addr m (segs_len A + 1)) = Some sz"
proof -
  have q: "segs_len A < segs_len (memory_segs m)" "segs_len A + 1 < segs_len (memory_segs m)"
    unfolding assms(2) using assms(3) by simp_all
  obtain m1 where m1: "mem_write m (mem_addr m (segs_len A)) t = Some m1" "memory_wf m1"
      "memory_segs m1 = memory_segs m" "mem_addr m1 = mem_addr m" "mem_read m1 (mem_addr m (segs_len A)) = Some t"
    using mem_write_word [OF assms(1) q(1), of t] by auto
  then show ?thesis using mem_write_word [OF m1(2), of "segs_len A + 1" sz] q by (auto simp: mem_addr_step)
qed

lemma take_array_cell:
  assumes "heap_inv h cells (i # fl)"
  shows "do {
      h1 \<leftarrow> set_car (heap_take h cells i \<lparr>cell_car = NIL, cell_cdr = NIL\<rparr>) (enc_cons_ptr (of_nat i)) a;
      set_cdr h1 (enc_cons_ptr (of_nat i)) d
    } = Some (heap_take h cells i \<lparr>cell_car = a, cell_cdr = d\<rparr>)"
proof -
  note hd = heap_inv_headD [OF assms]
  have "ptr_type (enc_cons_ptr (of_nat i)) = PTR_TYPE_CONS"
    using hd type_of_ptr [of "enc_cons_ptr (of_nat i)"] by simp
  with hd show ?thesis by (simp add: set_car_def set_cdr_def upd_cell_def heap_take_def cell_defs)
qed

lemma heap_inv_num_alloc_arrays:
  "heap_inv (h\<lparr>hs_num_alloc_arrays := n\<rparr>) = heap_inv h"
  by (simp add: heap_inv_def fun_eq_iff)

lemma heap_allocate_array_outcomes:
  assumes "heap_wf h" and "memory_wf m" and "unat sz < 2 ^ 32 - 2"
  shows "\<exists>r res h' m'. heap_allocate_array h m sz type = Some (r, res, h', m') \<and> heap_wf h' \<and>
    memory_wf m' \<and> heap_ext h h' \<and>
    (if room h = 0 then r = enc_sym DEF_REPR_MERROR \<and> res = None \<and> h' = h \<and> m' = m
     else room h = Suc (room h') \<and>
       (case res of
          None \<Rightarrow> r = 0 \<and> m' = m \<and> (\<nexists>A B. memory_segs m = A @ replicate (2 + unat (array_words sz type)) Free @ B)
        | Some p \<Rightarrow> r = 1 \<and> type_of p = PTR_TYPE_ARRAY \<and> \<not> live h p \<and> live h' p \<and>
            (\<exists>A B. memory_segs m = A @ replicate (2 + unat (array_words sz type)) Free @ B \<and>
               memory_segs m' = A @ Block (2 + unat (array_words sz type)) # B \<and>
               get_cell h' (ref_cell p) =
                 Some \<lparr>cell_car = mem_addr m' (segs_len A), cell_cdr = enc_sym DEF_REPR_ARRAY_TYPE\<rparr> \<and>
               mem_read m' (mem_addr m' (segs_len A)) = Some type \<and> mem_read m' (mem_addr m' (segs_len A + 1)) = Some sz)))"
proof (cases "free_cells h")
  case Nil
  then have "heap_inv h (heap_cells h) []" using heap_wf_inv [OF assms(1)] by simp
  from heap_allocate_cell_full [OF this] Nil assms show ?thesis by (simp add: heap_allocate_array_def)
next
  case (Cons i fl)
  let ?n = "2 + array_words sz type" and ?p = "enc_cons_ptr (of_nat i)"
  let ?take = "\<lambda>a d. heap_take h (heap_cells h) i \<lparr>cell_car = a, cell_cdr = d\<rparr>"
  have inv: "heap_inv h (heap_cells h) (i # fl)" using heap_wf_inv [OF assms(1)] Cons by simp
  have p: "type_of ?p = PTR_TYPE_CONS" "ref_cell ?p = i" using heap_inv_headD [OF inv] by simp_all
  have take: "heap_wf (?take a d)" "free_cells (?take a d) = fl" "heap_ext h (?take a d)"
      "heap_inv (?take a d) ((heap_cells h)[i := \<lparr>cell_car = a, cell_cdr = d\<rparr>]) fl"
    if "\<not> val_get_gc_mark d" for a d
    using that heap_inv_wf [OF heap_inv_take [OF inv]] heap_take_ext [OF inv] heap_inv_take [OF inv]
    by (simp_all add: cell_defs)
  have alloc: "heap_allocate_cell h PTR_TYPE_CONS = Some (?p, ?take NIL NIL)"
    using heap_allocate_cell_take [OF inv, of PTR_TYPE_CONS] or_cons [OF p(1)] by simp
  have n: "unat ?n = 2 + unat (array_words sz type)" by (rule unat_array_size [OF assms(3)])
  then have "0 < unat ?n" by simp
  from mem.alloc_law [OF assms(2) this] obtain r m1 where m1: "memory_allocate m ?n = Some (r, m1)"
      "memory_wf m1" "mem_addr m1 = mem_addr m" "r = 0 \<Longrightarrow> m1 = m \<and> (\<nexists>A B. memory_segs m = A @ replicate (unat ?n) Free @ B)"
      "r \<noteq> 0 \<Longrightarrow> \<exists>A B. memory_segs m = A @ replicate (unat ?n) Free @ B \<and> memory_segs m1 = A @ Block (unat ?n) # B \<and>
        r = mem_addr m (segs_len A)"
    by (metis (no_types, lifting))
  show ?thesis
  proof (cases "r = 0")
    case True
    with alloc m1(1,2,4) take [of NIL NIL] p Cons show ?thesis unfolding n by (simp add: heap_allocate_array_def)
  next
    case False
    then obtain A B where A: "memory_segs m1 = A @ Block (unat ?n) # B" "r = mem_addr m1 (segs_len A)"
        "memory_segs m = A @ replicate (unat ?n) Free @ B"
      using m1(3,5) by auto
    obtain m3 where m3: "do { m2 \<leftarrow> mem_write m1 r type; mem_write m2 (r + 4) sz } = Some m3" "memory_wf m3"
        "memory_segs m3 = memory_segs m1" "mem_addr m3 = mem_addr m1" "mem_read m3 r = Some type"
        "mem_read m3 (mem_addr m1 (segs_len A + 1)) = Some sz"
      using write_header [OF m1(2) A(1), of type sz] n A(2) by auto
    let ?tag = "enc_sym DEF_REPR_ARRAY_TYPE"
    let ?h = "(?take r ?tag)\<lparr>hs_num_alloc_arrays := hs_num_alloc_arrays (?take r ?tag) + 1\<rparr>"
    have wf: "heap_wf ?h" "free_cells ?h = fl" "heap_cells ?h = (heap_cells h)[i := \<lparr>cell_car = r, cell_cdr = ?tag\<rparr>]"
      using heap_inv_wf [of ?h] take(4) [of ?tag r] by (simp_all add: heap_inv_num_alloc_arrays)
    have ext: "heap_ext h ?h"
      using take(2,3) [of ?tag r] wf by (simp add: heap_ext_def live_cell_def get_cell_def heap_cells_def)
    have "heap_allocate_array h m sz type = Some (1, Some (?p OR PTR_TYPE_ARRAY), ?h, m3)"
      using False alloc m1(1) m3(1) take_array_cell [OF inv, of r ?tag] p
      by (auto simp: heap_allocate_array_def Let_def bind_eq_Some_conv)
    moreover have "live ?h (?p OR PTR_TYPE_ARRAY)" "\<not> live h (?p OR PTR_TYPE_ARRAY)"
      using inv p wf Cons by (auto simp: live_def live_cell_def ref_cell_def heap_inv_def)
    moreover have "get_cell ?h (ref_cell (?p OR PTR_TYPE_ARRAY)) = Some \<lparr>cell_car = mem_addr m3 (segs_len A), cell_cdr = ?tag\<rparr>"
      using p A(2) m3(4) heap_inv_headD [OF inv] by (simp add: ref_cell_def get_cell_def heap_take_def)
    then have "\<exists>A B. memory_segs m = A @ replicate (2 + unat (array_words sz type)) Free @ B \<and>
        memory_segs m3 = A @ Block (2 + unat (array_words sz type)) # B \<and>
        get_cell ?h (ref_cell (?p OR PTR_TYPE_ARRAY)) = Some \<lparr>cell_car = mem_addr m3 (segs_len A), cell_cdr = ?tag\<rparr> \<and>
        mem_read m3 (mem_addr m3 (segs_len A)) = Some type \<and> mem_read m3 (mem_addr m3 (segs_len A + 1)) = Some sz"
      using A m3(3-6) n by (intro exI [of _ A] exI [of _ B]) simp
    ultimately show ?thesis
      using wf ext m3(2) type_of_or_array [OF p(1)] Cons assms(3)
      by (intro exI [of _ 1] exI [of _ "Some (?p OR PTR_TYPE_ARRAY)"] exI [of _ ?h] exI [of _ m3]) (simp del: replicate.simps)
  qed
qed

text \<open>
  C38: for every size whose word count does not wrap, \<open>heap_allocate_array\<close> returns. If the heap is
  full it returns the out-of-memory symbol, a nonzero integer, without an array. Otherwise a cell is taken. If and only if
  the memory has no run of free words for header and elements, 0 is returned without an array, and the cell
  stays off the free list. Otherwise 1 is returned and an array pointer to that cell, tagged as an array, whose \<open>car\<close> is the address
  of a new block: it takes the place of such a run, of exactly that length, and starts with element type and size.
\<close>

theorem heap_allocate_array_correct:
  assumes "heap_wf h" and "memory_wf m" and "unat sz < 2 ^ 32 - 2"
  shows "\<exists>r res h' m'. heap_allocate_array h m sz type = Some (r, res, h', m') \<and> heap_wf h' \<and>
    memory_wf m' \<and> heap_ext h h' \<and>
    (if room h = 0 then r = enc_sym DEF_REPR_MERROR \<and> res = None \<and> h' = h \<and> m' = m
     else room h = Suc (room h') \<and>
       (case res of
          None \<Rightarrow> r = 0 \<and> m' = m \<and> (\<nexists>A B. memory_segs m = A @ replicate (2 + unat (array_words sz type)) Free @ B)
        | Some p \<Rightarrow> r = 1 \<and> type_of p = PTR_TYPE_ARRAY \<and> \<not> live h p \<and> live h' p \<and>
            (\<exists>A B. memory_segs m = A @ replicate (2 + unat (array_words sz type)) Free @ B \<and>
               memory_segs m' = A @ Block (2 + unat (array_words sz type)) # B \<and>
               get_cell h' (ref_cell p) =
                 Some \<lparr>cell_car = mem_addr m' (segs_len A), cell_cdr = enc_sym DEF_REPR_ARRAY_TYPE\<rparr> \<and>
               mem_read m' (mem_addr m' (segs_len A)) = Some type \<and> mem_read m' (mem_addr m' (segs_len A + 1)) = Some sz)))"
  by (rule heap_allocate_array_outcomes [OF assms])

text \<open>Five characters fit into the memory of the example, a hundred do not.\<close>

lemma demo_array_words: "unat (array_words 5 VAL_TYPE_CHAR) = 2" "unat (array_words 100 VAL_TYPE_CHAR) = 25"
  by (simp_all add: array_words_def)

lemma demo_memory_fits:
  "\<exists>A B. memory_segs demo_memory = A @ replicate (2 + 2) Free @ B"
  "\<nexists>A B. memory_segs demo_memory = A @ replicate (2 + 25) Free @ B"
proof -
  show "\<exists>A B. memory_segs demo_memory = A @ replicate (2 + 2) Free @ B"
    unfolding demo_memory_row by (intro exI [of _ "[Block 3, Free, Block 1]"] exI [of _ "replicate 7 Free"]) (simp add: eval_nat_numeral)
  show "\<nexists>A B. memory_segs demo_memory = A @ replicate (2 + 25) Free @ B"
  proof
    assume "\<exists>A B. memory_segs demo_memory = A @ replicate (2 + 25) Free @ B"
    then obtain A B where "memory_segs demo_memory = A @ replicate (2 + 25) Free @ B" by blast
    from arg_cong [OF this, of length] show False unfolding demo_memory_row by simp
  qed
qed

theorem heap_allocate_array_correct_witness:
  "(\<exists>p h' m'. heap_allocate_array demo_heap demo_memory 5 VAL_TYPE_CHAR = Some (1, Some p, h', m') \<and>
      type_of p = PTR_TYPE_ARRAY \<and> live h' p) \<and>
   (\<exists>h'. heap_allocate_array demo_heap demo_memory 100 VAL_TYPE_CHAR = Some (0, None, h', demo_memory) \<and>
      room demo_heap = Suc (room h'))"
proof
  show "\<exists>p h' m'. heap_allocate_array demo_heap demo_memory 5 VAL_TYPE_CHAR = Some (1, Some p, h', m') \<and>
      type_of p = PTR_TYPE_ARRAY \<and> live h' p"
    using heap_allocate_array_correct [OF demo_heap_wf demo_memory_wf, of 5 VAL_TYPE_CHAR] demo_memory_fits(1)
    unfolding demo_array_words by (auto simp: demo_heap_free split: option.splits simp del: replicate.simps)
  show "\<exists>h'. heap_allocate_array demo_heap demo_memory 100 VAL_TYPE_CHAR = Some (0, None, h', demo_memory) \<and>
      room demo_heap = Suc (room h')"
    using heap_allocate_array_correct [OF demo_heap_wf demo_memory_wf, of 100 VAL_TYPE_CHAR] demo_memory_fits(2)
    unfolding demo_array_words by (auto simp: demo_heap_free split: option.splits simp del: replicate.simps)
qed

end
