(* ===== verification/GC.thy ===== *)
theory GC
  imports Heap Stack
begin

text \<open>
  The mark-and-sweep garbage collector of \<open>src/heap.c\<close>. The mark phase works with a stack over a
  local array of 1024 words; it returns \<open>False\<close> when that stack is full. The sweep phase gives the
  blocks of unmarked arrays back to the word memory, so it also takes and returns a \<open>memory_state\<close>.
\<close>

subsection \<open>Mark\<close>

definition leaf_type :: "LTYPE \<Rightarrow> bool" where
  "leaf_type t \<longleftrightarrow> t = PTR_TYPE_BOXED_I \<or> t = PTR_TYPE_BOXED_U \<or> t = PTR_TYPE_BOXED_F \<or> t = PTR_TYPE_ARRAY"

partial_function (option) gc_mark_loop :: "heap_state \<Rightarrow> stack \<Rightarrow> (bool \<times> heap_state) option" where
  "gc_mark_loop h s =
     (if stack_is_empty s then Some (True, h)
      else Option.bind (pop_u32 s) (\<lambda>(cur, s).
        if \<not> is_ptr cur then gc_mark_loop h s
        else Option.bind (get_cell h (ref_cell cur)) (\<lambda>c.
          if get_gc_mark c then gc_mark_loop h s
          else Option.bind (upd_cell (h\<lparr>hs_gc_marked := hs_gc_marked h + 1\<rparr>) (ref_cell cur) set_gc_mark) (\<lambda>h.
            if leaf_type (type_of cur) then gc_mark_loop h s
            else Option.bind (cdr h cur) (\<lambda>d.
              Option.bind (push_u32 no_malloc s d) (\<lambda>(res1, s).
              Option.bind (car h cur) (\<lambda>a.
              Option.bind (push_u32 no_malloc s a) (\<lambda>(res2, s).
                if \<not> (res1 \<and> res2) then Some (False, h) else gc_mark_loop h s))))))))"

definition mark_stack :: stack where
  "mark_stack = snd (stack_create
     \<lparr>sk_data = None, sk_sp = 0, sk_size = 0, sk_growable = False\<rparr> (replicate 1024 0) 1024)"

definition gc_mark_phase :: "heap_state \<Rightarrow> VALUE \<Rightarrow> (bool \<times> heap_state) option" where
  "gc_mark_phase h env =
     (if \<not> is_ptr env then Some (True, h)
      else do {
        (_, s) \<leftarrow> push_u32 no_malloc mark_stack env;
        gc_mark_loop h s
      })"

partial_function (option) gc_mark_freelist_loop :: "heap_state \<Rightarrow> VALUE \<Rightarrow> heap_state option" where
  "gc_mark_freelist_loop h cur =
     (if is_ptr cur then
        Option.bind (upd_cell h (ref_cell cur) set_gc_mark) (\<lambda>h.
        Option.bind (get_cell h (ref_cell cur)) (\<lambda>t.
          gc_mark_freelist_loop (h\<lparr>hs_gc_marked := hs_gc_marked h + 1\<rparr>) (read_cdr t)))
      else Some h)"

definition gc_mark_freelist :: "heap_state \<Rightarrow> (bool \<times> heap_state) option" where
  "gc_mark_freelist h =
     (let fl = hs_freelist h in
      if \<not> is_ptr fl then
        if val_type fl = VAL_TYPE_SYMBOL \<and> fl = NIL then Some (True, h) else Some (False, h)
      else do {
        h \<leftarrow> gc_mark_freelist_loop h fl;
        Some (True, h)
      })"

definition aux_root :: "heap_state \<Rightarrow> UINT \<Rightarrow> bool" where
  "aux_root h d \<longleftrightarrow> is_ptr d \<and>
     (let pt_t = ptr_type d in
        pt_t = PTR_TYPE_CONS \<or> pt_t = PTR_TYPE_BOXED_I \<or> pt_t = PTR_TYPE_BOXED_U \<or>
        pt_t = PTR_TYPE_BOXED_F \<or> pt_t = PTR_TYPE_ARRAY \<or> pt_t = PTR_TYPE_REF \<or>
        pt_t = PTR_TYPE_STREAM) \<and>
     dec_ptr d < hs_heap_size h"

text \<open>The array of auxiliary roots is given by its first \<open>aux_size\<close> words.\<close>

fun gc_mark_aux :: "heap_state \<Rightarrow> UINT list \<Rightarrow> (bool \<times> heap_state) option" where
  "gc_mark_aux h [] = Some (True, h)"
| "gc_mark_aux h (d # ds) =
     (if aux_root h d then do {
        (_, h) \<leftarrow> gc_mark_phase h d;
        gc_mark_aux h ds
      } else gc_mark_aux h ds)"

subsection \<open>Sweep\<close>

definition gc_sweep_cell :: "heap_state \<Rightarrow> memory_state \<Rightarrow> UINT \<Rightarrow> (heap_state \<times> memory_state) option" where
  "gc_sweep_cell h m i = do {
     c \<leftarrow> get_cell h (unat i);
     (h, m) \<leftarrow>
       (if \<not> get_gc_mark c then do {
          (h, m) \<leftarrow>
            (if type_of (cell_cdr c) = VAL_TYPE_SYMBOL \<and> dec_sym (cell_cdr c) = DEF_REPR_ARRAY_TYPE
             then do {
               (_, m) \<leftarrow> memory_free m (cell_car c);
               Some (h\<lparr>hs_gc_recovered_arrays := hs_gc_recovered_arrays h + 1\<rparr>, m)
             } else Some (h, m));
          let addr = enc_cons_ptr i;
          h \<leftarrow> upd_cell h (unat i) (set_car_cell RECOVERED);
          h \<leftarrow> upd_cell h (unat i) (set_cdr_cell (hs_freelist h));
          let h = h\<lparr>hs_freelist := addr\<rparr>;
          let h = h\<lparr>hs_num_alloc := hs_num_alloc h - 1\<rparr>;
          Some (h\<lparr>hs_gc_recovered := hs_gc_recovered h + 1\<rparr>, m)
        } else Some (h, m));
     h \<leftarrow> upd_cell h (unat i) clr_gc_mark;
     Some (h, m)
   }"

function gc_sweep_loop ::
  "heap_state \<Rightarrow> memory_state \<Rightarrow> UINT \<Rightarrow> UINT \<Rightarrow> (heap_state \<times> memory_state) option" where
  "gc_sweep_loop h m n i =
     (if i < n then do {
        (h, m) \<leftarrow> gc_sweep_cell h m i;
        gc_sweep_loop h m n (i + 1)
      } else Some (h, m))"
  by pat_completeness auto
termination
  by (relation "measure (\<lambda>(h, m, n, i). unat n - unat i)") (auto simp: word_loop_step)

declare gc_sweep_loop.simps [simp del]

definition gc_sweep_phase :: "heap_state \<Rightarrow> memory_state \<Rightarrow> (bool \<times> heap_state \<times> memory_state) option" where
  "gc_sweep_phase h m = do {
     (h, m) \<leftarrow> gc_sweep_loop h m (hs_heap_size h) 0;
     Some (True, h, m)
   }"

subsection \<open>Collections\<close>

definition gc_state_inc :: "heap_state \<Rightarrow> heap_state" where
  "gc_state_inc h = h\<lparr>hs_gc_num := hs_gc_num h + 1, hs_gc_recovered := 0, hs_gc_marked := 0\<rparr>"

definition heap_perform_gc ::
  "heap_state \<Rightarrow> memory_state \<Rightarrow> VALUE \<Rightarrow> (bool \<times> heap_state \<times> memory_state) option" where
  "heap_perform_gc h m env = do {
     let h = gc_state_inc h;
     (_, h) \<leftarrow> gc_mark_freelist h;
     (_, h) \<leftarrow> gc_mark_phase h env;
     gc_sweep_phase h m
   }"

definition heap_perform_gc_extra ::
  "heap_state \<Rightarrow> memory_state \<Rightarrow> VALUE \<Rightarrow> VALUE \<Rightarrow> VALUE \<Rightarrow> VALUE \<Rightarrow> VALUE
   \<Rightarrow> (bool \<times> heap_state \<times> memory_state) option" where
  "heap_perform_gc_extra h m env env2 exp exp2 list = do {
     let h = gc_state_inc h;
     (_, h) \<leftarrow> gc_mark_freelist h;
     (_, h) \<leftarrow> gc_mark_phase h exp;
     (_, h) \<leftarrow> gc_mark_phase h exp2;
     (_, h) \<leftarrow> gc_mark_phase h env;
     (_, h) \<leftarrow> gc_mark_phase h env2;
     (_, h) \<leftarrow> gc_mark_phase h list;
     gc_sweep_phase h m
   }"

definition heap_perform_gc_aux ::
  "heap_state \<Rightarrow> memory_state \<Rightarrow> VALUE \<Rightarrow> VALUE \<Rightarrow> VALUE \<Rightarrow> VALUE \<Rightarrow> VALUE \<Rightarrow> UINT list
   \<Rightarrow> (bool \<times> heap_state \<times> memory_state) option" where
  "heap_perform_gc_aux h m env env2 exp exp2 exp3 aux_data = do {
     let h = gc_state_inc h;
     (_, h) \<leftarrow> gc_mark_freelist h;
     (_, h) \<leftarrow> gc_mark_phase h exp;
     (_, h) \<leftarrow> gc_mark_phase h exp2;
     (_, h) \<leftarrow> gc_mark_phase h exp3;
     (_, h) \<leftarrow> gc_mark_phase h env;
     (_, h) \<leftarrow> gc_mark_phase h env2;
     (_, h) \<leftarrow> gc_mark_aux h aux_data;
     gc_sweep_phase h m
   }"

end
