(* ===== verification/GC_Mark.thy ===== *)
theory GC_Mark
  imports GC Heap_Lists
begin

text \<open>
  The mark phase computes reachability. A typed heap (\<open>heap_typed\<close>) is one in which every pointer
  held by a live cons cell, as every root, points to a live cell and carries the type that cell is
  tagged with. \<open>reach\<close> is the set of cells reachable from a set of roots, and a marked heap is the
  heap before the collection with the mark set in a set of cells (\<open>mark_heap\<close>).
\<close>

subsection \<open>Typed heaps and reachability\<close>

definition cell_type :: "cell \<Rightarrow> LTYPE" where
  "cell_type c =
     (if cell_cdr c = enc_sym DEF_REPR_ARRAY_TYPE then PTR_TYPE_ARRAY
      else if cell_cdr c = enc_sym DEF_REPR_BOXED_I_TYPE then PTR_TYPE_BOXED_I
      else if cell_cdr c = enc_sym DEF_REPR_BOXED_U_TYPE then PTR_TYPE_BOXED_U
      else if cell_cdr c = enc_sym DEF_REPR_BOXED_F_TYPE then PTR_TYPE_BOXED_F
      else PTR_TYPE_CONS)"

definition value_ok :: "heap_state \<Rightarrow> VALUE \<Rightarrow> bool" where
  "value_ok h v \<longleftrightarrow>
     (is_ptr v \<longrightarrow> live_cell h (ref_cell v) \<and> type_of v = cell_type (heap_cells h ! ref_cell v))"

definition heap_typed :: "heap_state \<Rightarrow> bool" where
  "heap_typed h \<longleftrightarrow>
     list_all (\<lambda>i. live_cell h i \<longrightarrow> cell_type (heap_cells h ! i) = PTR_TYPE_CONS \<longrightarrow>
       value_ok h (cell_car (heap_cells h ! i)) \<and> value_ok h (cell_cdr (heap_cells h ! i)))
       [0..<length (heap_cells h)]"

definition ptr_cells :: "VALUE set \<Rightarrow> nat set" where
  "ptr_cells V = ref_cell ` {v \<in> V. is_ptr v}"

definition children :: "heap_state \<Rightarrow> nat \<Rightarrow> nat set" where
  "children h i =
     (if cell_type (heap_cells h ! i) = PTR_TYPE_CONS
      then ptr_cells {cell_car (heap_cells h ! i), cell_cdr (heap_cells h ! i)} else {})"

inductive_set reach :: "heap_state \<Rightarrow> VALUE set \<Rightarrow> nat set" for h :: heap_state and R :: "VALUE set" where
  root: "i \<in> ptr_cells R \<Longrightarrow> i \<in> reach h R"
| step: "i \<in> reach h R \<Longrightarrow> j \<in> children h i \<Longrightarrow> j \<in> reach h R"

lemma ptr_cells_simps [simp]:
  "ptr_cells {} = {}"
  "ptr_cells (insert v V) = (if is_ptr v then insert (ref_cell v) (ptr_cells V) else ptr_cells V)"
  "ptr_cells (A \<union> B) = ptr_cells A \<union> ptr_cells B"
  by (auto simp: ptr_cells_def)

lemma reach_least: "ptr_cells R \<subseteq> X \<Longrightarrow> (\<And>i. i \<in> X \<Longrightarrow> children h i \<subseteq> X) \<Longrightarrow> reach h R \<subseteq> X"
proof
  fix i assume a: "i \<in> reach h R" "ptr_cells R \<subseteq> X" "\<And>i. i \<in> X \<Longrightarrow> children h i \<subseteq> X"
  from a(1) show "i \<in> X" by induction (use a(2,3) in auto)
qed

lemma reach_Un: "reach h (R \<union> S) = reach h R \<union> reach h S"
proof
  show "reach h (R \<union> S) \<subseteq> reach h R \<union> reach h S"
    by (rule reach_least) (auto intro: reach.intros)
  show "reach h R \<union> reach h S \<subseteq> reach h (R \<union> S)"
    by (intro Un_least reach_least) (auto intro: reach.intros)
qed

lemma reach_empty [simp]: "reach h {} = {}"
  using reach_least [of "{}" "{}" h] by simp

lemma ref_cell_mark [simp]: "ref_cell (val_set_gc_mark v) = ref_cell v"
  by (simp add: ref_cell_def)

lemma value_ok_mark [simp]: "value_ok h (val_set_gc_mark v) = value_ok h v"
  by (simp add: value_ok_def)

lemma heap_typedD:
  "heap_typed h \<Longrightarrow> live_cell h i \<Longrightarrow> cell_type (heap_cells h ! i) = PTR_TYPE_CONS \<Longrightarrow>
     value_ok h (cell_car (heap_cells h ! i)) \<and> value_ok h (cell_cdr (heap_cells h ! i))"
  by (auto simp: heap_typed_def list_all_iff live_cell_def)

lemma cell_type_cases:
  "cell_type c = PTR_TYPE_CONS \<and> \<not> leaf_type (cell_type c) \<or> leaf_type (cell_type c) \<and> cell_type c \<noteq> PTR_TYPE_CONS"
  by (simp add: cell_type_def leaf_type_def)

lemma children_live:
  "heap_typed h \<Longrightarrow> live_cell h i \<Longrightarrow> j \<in> children h i \<Longrightarrow> live_cell h j"
  using heap_typedD [of h i] by (auto simp: children_def value_ok_def split: if_splits)

lemma reach_live:
  assumes "heap_typed h" and "\<And>v. v \<in> R \<Longrightarrow> value_ok h v" and "i \<in> reach h R"
  shows "live_cell h i"
  using assms(3)
  by induction (use assms(1,2) children_live in \<open>auto simp: ptr_cells_def value_ok_def\<close>)

subsection \<open>Marked heaps\<close>

definition mark_set :: "nat set \<Rightarrow> cell list \<Rightarrow> cell list" where
  "mark_set M cells = map (\<lambda>i. if i \<in> M then set_gc_mark (cells ! i) else cells ! i) [0..<length cells]"

definition mark_heap :: "heap_state \<Rightarrow> nat set \<Rightarrow> heap_state" where
  "mark_heap h M = h\<lparr>hs_heap := Some (mark_set M (heap_cells h)), hs_gc_marked := of_nat (card M)\<rparr>"

lemma length_mark_set [simp]: "length (mark_set M cells) = length cells"
  by (simp add: mark_set_def)

lemma mark_set_nth:
  "i < length cells \<Longrightarrow> mark_set M cells ! i = (if i \<in> M then set_gc_mark (cells ! i) else cells ! i)"
  by (simp add: mark_set_def)

lemma mark_set_insert:
  "i < length cells \<Longrightarrow> i \<notin> M \<Longrightarrow>
     (mark_set M cells)[i := set_gc_mark (cells ! i)] = mark_set (insert i M) cells"
  by (rule nth_equalityI) (auto simp: mark_set_nth nth_list_update)

lemma mark_heap_empty: "hs_heap h \<noteq> None \<Longrightarrow> hs_gc_marked h = 0 \<Longrightarrow> mark_heap h {} = h"
  by (auto simp: mark_heap_def mark_set_def heap_cells_def map_nth)

lemma get_cell_mark:
  "i < length (heap_cells h) \<Longrightarrow> get_cell (mark_heap h M) i =
     Some (if i \<in> M then set_gc_mark (heap_cells h ! i) else heap_cells h ! i)"
  by (simp add: get_cell_def mark_heap_def mark_set_nth)

lemma upd_cell_mark:
  "i < length (heap_cells h) \<Longrightarrow> i \<notin> M \<Longrightarrow> finite M \<Longrightarrow>
     upd_cell ((mark_heap h M)\<lparr>hs_gc_marked := hs_gc_marked (mark_heap h M) + 1\<rparr>) i set_gc_mark =
     Some (mark_heap h (insert i M))"
  by (simp add: upd_cell_def mark_heap_def mark_set_nth mark_set_insert add.commute)

lemma wf_unmarked: "heap_wf h \<Longrightarrow> i < length (heap_cells h) \<Longrightarrow> \<not> get_gc_mark (heap_cells h ! i)"
  by (simp add: heap_wf_def list_all_length)

lemma get_gc_mark_set [simp]: "get_gc_mark (set_gc_mark c)"
  by (simp add: cell_defs)

lemma car_cdr_mark:
  assumes "is_ptr v" and "type_of v = PTR_TYPE_CONS" and "ref_cell v < length (heap_cells h)" and "ref_cell v \<in> M"
  shows "car (mark_heap h M) v = Some (cell_car (heap_cells h ! ref_cell v))"
    and "cdr (mark_heap h M) v = Some (val_set_gc_mark (cell_cdr (heap_cells h ! ref_cell v)))"
  using assms by (simp_all add: car_def cdr_def get_cell_mark cell_defs)

subsection \<open>The mark loop\<close>

lemma push_twice:
  assumes "fixed_stack s"
  obtains r1 r2 s1 s2 where "push_u32 no_malloc s a = Some (r1, s1)" "push_u32 no_malloc s1 b = Some (r2, s2)"
    "fixed_stack s2" "sk_size s2 = sk_size s" "r1 \<and> r2 \<Longrightarrow> stack_list s2 = b # a # stack_list s"
    "length (stack_list s) + 2 \<le> unat (sk_size s) \<Longrightarrow> r1 \<and> r2"
proof -
  obtain r1 s1 where 1: "push_u32 no_malloc s a = Some (r1, s1)" "fixed_stack s1"
      "stack_list s1 = (if r1 then a # stack_list s else stack_list s)"
    using fstack.push_law [OF assms, of a] by blast
  obtain r2 s2 where 2: "push_u32 no_malloc s1 b = Some (r2, s2)" "fixed_stack s2"
      "stack_list s2 = (if r2 then b # stack_list s1 else stack_list s1)"
    using fstack.push_law [OF 1(2), of b] by blast
  note b1 = fstack.push_bounded [OF assms 1(1)] and b2 = fstack.push_bounded [OF 1(2) 2(1)]
  show thesis by (rule that [OF 1(1) 2(1,2)]) (use b1 b2 1 2 in \<open>auto simp: word_unat_eq_iff\<close>)
qed

text \<open>The outcome of marking from the values \<open>L\<close> on a heap in which the cells \<open>M\<close> are marked.\<close>

definition marks :: "heap_state \<Rightarrow> nat set \<Rightarrow> VALUE set \<Rightarrow> bool \<Rightarrow> nat set \<Rightarrow> bool" where
  "marks h M L ok M' \<longleftrightarrow> M \<subseteq> M' \<and> M' \<subseteq> {..<length (heap_cells h)} \<and>
     (\<forall>X. ptr_cells L \<subseteq> X \<longrightarrow> (\<forall>i \<in> X. children h i \<subseteq> X) \<longrightarrow> M' \<subseteq> M \<union> X) \<and>
     (ok \<longrightarrow> ptr_cells L \<subseteq> M' \<and> (\<forall>i \<in> M' - M. children h i \<subseteq> M'))"

lemma marks_skip:
  assumes "marks h M L ok M'" and "is_ptr v \<Longrightarrow> ref_cell v \<in> M"
  shows "marks h M (insert v L) ok M'"
  using assms unfolding marks_def by auto

lemma marks_visit:
  assumes m: "marks h (insert i M) (C \<union> L) ok M'" and v: "ref_cell v = i" "is_ptr v"
    and ch: "children h i = ptr_cells C"
  shows "marks h M (insert v L) ok M'"
proof -
  have "M' \<subseteq> M \<union> X" if X: "ptr_cells (insert v L) \<subseteq> X" "\<forall>i \<in> X. children h i \<subseteq> X" for X
  proof -
    have i: "i \<in> X" using X(1) v by simp
    then have "ptr_cells C \<subseteq> X" using X(2) ch by blast
    then have "ptr_cells (C \<union> L) \<subseteq> X" using X(1) v by simp
    then have "M' \<subseteq> insert i M \<union> X" using m X(2) unfolding marks_def by blast
    then show ?thesis using i by auto
  qed
  moreover have "ptr_cells (insert v L) \<subseteq> M' \<and> (\<forall>j \<in> M' - M. children h j \<subseteq> M')" if ok
  proof -
    have "ptr_cells C \<union> ptr_cells L \<subseteq> M'" "\<forall>j \<in> M' - insert i M. children h j \<subseteq> M'" "i \<in> M'"
      using m that unfolding marks_def by simp_all
    then show ?thesis using v ch by (cases "i \<in> M") auto
  qed
  moreover have "M \<subseteq> M' \<and> M' \<subseteq> {..<length (heap_cells h)}" using m unfolding marks_def by auto
  ultimately show ?thesis unfolding marks_def by blast
qed

text \<open>One round of the loop, by what is on top of the stack.\<close>

lemma mark_loop_pop:
  assumes "fixed_stack s" and "stack_list s = v # L"
  shows "\<exists>s1. fixed_stack s1 \<and> stack_list s1 = L \<and> sk_size s1 = sk_size s \<and> gc_mark_loop h s =
      (if \<not> is_ptr v then gc_mark_loop h s1
       else Option.bind (get_cell h (ref_cell v)) (\<lambda>c.
          if get_gc_mark c then gc_mark_loop h s1
          else Option.bind (upd_cell (h\<lparr>hs_gc_marked := hs_gc_marked h + 1\<rparr>) (ref_cell v) set_gc_mark) (\<lambda>h.
            if leaf_type (type_of v) then gc_mark_loop h s1
            else Option.bind (cdr h v) (\<lambda>d.
              Option.bind (push_u32 no_malloc s1 d) (\<lambda>(res1, s).
              Option.bind (car h v) (\<lambda>a.
              Option.bind (push_u32 no_malloc s a) (\<lambda>(res2, s).
                if \<not> (res1 \<and> res2) then Some (False, h) else gc_mark_loop h s)))))))"
proof -
  have "\<not> stack_is_empty s" using assms by (simp add: stack_is_empty_iff fixed_stack_def)
  moreover obtain s1 where s1: "pop_u32 s = Some (v, s1)" "fixed_stack s1" "stack_list s1 = L"
    using fstack.pop_law [OF assms] by blast
  moreover have "sk_size s1 = sk_size s" using s1(1) by (auto simp: pop_u32_def bind_eq_Some_conv)
  ultimately show ?thesis by (subst gc_mark_loop.simps) auto
qed

lemma mark_loop_skip:
  assumes "fixed_stack s" and "stack_list s = v # L" and "value_ok h v" and "\<not> (is_ptr v \<and> ref_cell v \<notin> M)"
  shows "\<exists>s1. fixed_stack s1 \<and> stack_list s1 = L \<and> sk_size s1 = sk_size s \<and>
    gc_mark_loop (mark_heap h M) s = gc_mark_loop (mark_heap h M) s1"
proof -
  have "is_ptr v \<Longrightarrow> ref_cell v < length (heap_cells h)" using assms(3) by (simp add: value_ok_def live_cell_def)
  with mark_loop_pop [OF assms(1,2), of "mark_heap h M"] assms(4) show ?thesis
    by (cases "is_ptr v") (auto simp: get_cell_mark)
qed

lemma mark_loop_visit:
  assumes "heap_wf h" and "fixed_stack s" and "stack_list s = v # L" and "value_ok h v" and "finite M"
    and "is_ptr v" and "ref_cell v \<notin> M"
  shows "\<exists>ok C s1. fixed_stack s1 \<and> sk_size s1 = sk_size s \<and> length C \<le> 2 \<and>
    ptr_cells (set C) = children h (ref_cell v) \<and> (\<forall>c \<in> set C. heap_typed h \<longrightarrow> value_ok h c) \<and>
    (ok \<longrightarrow> stack_list s1 = C @ L) \<and> (length L + 2 \<le> unat (sk_size s) \<longrightarrow> ok) \<and>
    gc_mark_loop (mark_heap h M) s =
      (if ok then gc_mark_loop (mark_heap h (insert (ref_cell v) M)) s1
       else Some (False, mark_heap h (insert (ref_cell v) M)))"
proof -
  let ?i = "ref_cell v" and ?c = "heap_cells h ! ref_cell v"
  have i: "?i < length (heap_cells h)" "type_of v = cell_type ?c" "live_cell h ?i"
    using assms(4,6) by (auto simp: value_ok_def live_cell_def)
  obtain s1 where s1: "fixed_stack s1" "stack_list s1 = L" "sk_size s1 = sk_size s"
      "gc_mark_loop (mark_heap h M) s =
          (if leaf_type (type_of v) then gc_mark_loop (mark_heap h (insert ?i M)) s1
           else Option.bind (cdr (mark_heap h (insert ?i M)) v) (\<lambda>d.
              Option.bind (push_u32 no_malloc s1 d) (\<lambda>(res1, s).
              Option.bind (car (mark_heap h (insert ?i M)) v) (\<lambda>a.
              Option.bind (push_u32 no_malloc s a) (\<lambda>(res2, s).
                if \<not> (res1 \<and> res2) then Some (False, mark_heap h (insert ?i M))
                else gc_mark_loop (mark_heap h (insert ?i M)) s)))))"
    using mark_loop_pop [OF assms(2,3), of "mark_heap h M"] assms(5-7) i wf_unmarked [OF assms(1)]
    by (auto simp: get_cell_mark upd_cell_mark)
  show ?thesis
  proof (cases "leaf_type (type_of v)")
    case True
    then have "children h ?i = {}" using cell_type_cases [of ?c] i by (auto simp: children_def)
    with True s1 show ?thesis by (intro exI [of _ True] exI [of _ "[]"] exI [of _ s1]) simp
  next
    case False
    then have cons: "cell_type ?c = PTR_TYPE_CONS" using cell_type_cases [of ?c] i by auto
    let ?a = "cell_car ?c" and ?d = "val_set_gc_mark (cell_cdr ?c)"
    obtain r1 r2 s2 s3 where p: "push_u32 no_malloc s1 ?d = Some (r1, s2)"
        "push_u32 no_malloc s2 ?a = Some (r2, s3)" "fixed_stack s3" "sk_size s3 = sk_size s1"
        "r1 \<and> r2 \<Longrightarrow> stack_list s3 = ?a # ?d # stack_list s1"
        "length (stack_list s1) + 2 \<le> unat (sk_size s1) \<Longrightarrow> r1 \<and> r2"
      using push_twice [OF s1(1)] by metis
    have "gc_mark_loop (mark_heap h M) s = (if \<not> (r1 \<and> r2) then Some (False, mark_heap h (insert ?i M))
        else gc_mark_loop (mark_heap h (insert ?i M)) s3)"
      using s1(4) False i cons car_cdr_mark [of v h "insert ?i M"] p(1,2) assms(6) by simp
    moreover have "ptr_cells (set [?a, ?d]) = children h ?i" using cons by (simp add: children_def)
    moreover have "\<forall>c \<in> set [?a, ?d]. heap_typed h \<longrightarrow> value_ok h c"
      using heap_typedD [OF _ i(3) cons] by simp
    ultimately show ?thesis using p s1
      by (intro exI [of _ "r1 \<and> r2"] exI [of _ "[?a, ?d]"] exI [of _ s3]) simp
  qed
qed

lemma gc_mark_loop_correct:
  assumes "heap_wf h" and "heap_typed h" and "M \<subseteq> {..<length (heap_cells h)}" and "fixed_stack s"
    and "\<And>v. v \<in> set (stack_list s) \<Longrightarrow> value_ok h v"
  shows "\<exists>ok M'. gc_mark_loop (mark_heap h M) s = Some (ok, mark_heap h M') \<and>
    marks h M (set (stack_list s)) ok M' \<and>
    (length (stack_list s) + (length (heap_cells h) - card M) \<le> unat (sk_size s) \<longrightarrow> ok)"
  using assms(3-5)
proof (induction "2 * (length (heap_cells h) - card M) + length (stack_list s)" arbitrary: M s rule: less_induct)
  case less
  let ?n = "length (heap_cells h)"
  have finM: "finite M" using less.prems(1) by (rule finite_subset) simp
  show ?case
  proof (cases "stack_list s")
    case Nil
    then have "stack_is_empty s" using less.prems(2) by (simp add: stack_is_empty_iff fixed_stack_def)
    then show ?thesis using Nil less.prems(1)
      by (subst gc_mark_loop.simps) (auto simp: marks_def intro!: exI [of _ True] exI [of _ M])
  next
    case (Cons v L)
    have okL: "\<And>w. w \<in> set L \<Longrightarrow> value_ok h w" and okv: "value_ok h v" using less.prems(3) Cons by auto
    show ?thesis
    proof (cases "is_ptr v \<and> ref_cell v \<notin> M")
      case False
      then obtain s1 where s1: "fixed_stack s1" "stack_list s1 = L" "sk_size s1 = sk_size s"
          "gc_mark_loop (mark_heap h M) s = gc_mark_loop (mark_heap h M) s1"
        using mark_loop_skip [OF less.prems(2) Cons okv] by blast
      have "\<exists>ok M'. gc_mark_loop (mark_heap h M) s1 = Some (ok, mark_heap h M') \<and>
          marks h M (set (stack_list s1)) ok M' \<and>
          (length (stack_list s1) + (?n - card M) \<le> unat (sk_size s1) \<longrightarrow> ok)"
        using less.prems(1) s1 Cons okL by (intro less.hyps) simp_all
      with False Cons s1 marks_skip [of h M "set L" _ _ v] show ?thesis by fastforce
    next
      case True
      let ?i = "ref_cell v"
      have M1: "insert ?i M \<subseteq> {..<?n}" using less.prems(1) True okv by (auto simp: value_ok_def live_cell_def)
      have card1: "card (insert ?i M) = Suc (card M)" "card (insert ?i M) \<le> ?n"
        using True finM card_mono [OF _ M1] by auto
      obtain ok C s1 where s1: "fixed_stack s1" "sk_size s1 = sk_size s" "length C \<le> 2"
          "ptr_cells (set C) = children h ?i" "\<forall>c \<in> set C. value_ok h c"
          "ok \<Longrightarrow> stack_list s1 = C @ L" "length L + 2 \<le> unat (sk_size s) \<Longrightarrow> ok"
          "gc_mark_loop (mark_heap h M) s = (if ok then gc_mark_loop (mark_heap h (insert ?i M)) s1
             else Some (False, mark_heap h (insert ?i M)))"
        using mark_loop_visit [OF assms(1) less.prems(2) Cons okv finM] True assms(2) by metis
      show ?thesis
      proof (cases ok)
        case ok: True
        have "\<exists>ok M'. gc_mark_loop (mark_heap h (insert ?i M)) s1 = Some (ok, mark_heap h M') \<and>
            marks h (insert ?i M) (set (stack_list s1)) ok M' \<and>
            (length (stack_list s1) + (?n - card (insert ?i M)) \<le> unat (sk_size s1) \<longrightarrow> ok)"
          using M1 s1 ok Cons okL card1 by (intro less.hyps) auto
        then obtain ok' M' where m: "gc_mark_loop (mark_heap h M) s = Some (ok', mark_heap h M')"
            "marks h (insert ?i M) (set C \<union> set L) ok' M'"
            "length C + length L + (?n - card (insert ?i M)) \<le> unat (sk_size s) \<longrightarrow> ok'"
          using s1 ok by auto
        from marks_visit [OF m(2) refl _ s1(4) [symmetric]] True
        have "marks h M (set (stack_list s)) ok' M'" using Cons by simp
        moreover have "length (stack_list s) + (?n - card M) \<le> unat (sk_size s) \<longrightarrow> ok'"
          using m(3) s1(3) card1 Cons by auto
        ultimately show ?thesis using m(1) by blast
      next
        case False
        have "marks h M (set (stack_list s)) False (insert ?i M)"
          using True M1 Cons by (auto simp: marks_def)
        moreover have "\<not> length (stack_list s) + (?n - card M) \<le> unat (sk_size s)"
        proof
          assume "length (stack_list s) + (?n - card M) \<le> unat (sk_size s)"
          then have "length L + 2 \<le> unat (sk_size s)" using Cons card1 by simp
          then show False using False s1(7) by blast
        qed
        ultimately show ?thesis using s1(8) False by auto
      qed
    qed
  qed
qed

subsection \<open>Mark phases\<close>

text \<open>Marking is complete for \<open>M\<close>: what a marked cell in use points to is marked.\<close>

definition marks_closed :: "heap_state \<Rightarrow> nat set \<Rightarrow> bool" where
  "marks_closed h M \<longleftrightarrow> set (free_cells h) \<subseteq> M \<and> M \<subseteq> {..<length (heap_cells h)} \<and>
     (\<forall>i \<in> M - set (free_cells h). children h i \<subseteq> M)"

lemma marks_reach:
  assumes "heap_typed h" and "marks_closed h M" and "\<And>v. v \<in> L \<Longrightarrow> value_ok h v" and "marks h M L True M'"
  shows "M' = M \<union> reach h L \<and> marks_closed h M'"
proof -
  have M': "M \<subseteq> M'" "M' \<subseteq> {..<length (heap_cells h)}" "ptr_cells L \<subseteq> M'" "\<forall>i \<in> M' - M. children h i \<subseteq> M'"
    using assms(4) by (auto simp: marks_def)
  have closed: "marks_closed h M'" using M' assms(2) unfolding marks_closed_def by blast
  have "M' \<subseteq> M \<union> reach h L"
  proof -
    have "ptr_cells L \<subseteq> reach h L" "\<forall>i \<in> reach h L. children h i \<subseteq> reach h L"
      by (auto intro: reach.intros)
    then show ?thesis using assms(4) unfolding marks_def by blast
  qed
  moreover have "reach h L \<subseteq> M' - set (free_cells h)"
  proof (rule reach_least)
    show "ptr_cells L \<subseteq> M' - set (free_cells h)"
    proof
      fix i assume i: "i \<in> ptr_cells L"
      then obtain v where "v \<in> L" "is_ptr v" "i = ref_cell v" by (auto simp: ptr_cells_def)
      then have "live_cell h i" using assms(3) by (auto simp: value_ok_def)
      then show "i \<in> M' - set (free_cells h)" using M'(3) i by (auto simp: live_cell_def)
    qed
  next
    fix i assume i: "i \<in> M' - set (free_cells h)"
    then have "live_cell h i" using M'(2) by (auto simp: live_cell_def)
    then have "\<forall>j \<in> children h i. live_cell h j" using children_live [OF assms(1)] by blast
    moreover have "children h i \<subseteq> M'" using closed i unfolding marks_closed_def by blast
    ultimately show "children h i \<subseteq> M' - set (free_cells h)" unfolding live_cell_def by blast
  qed
  ultimately show ?thesis using M'(1) closed by blast
qed

lemma mark_stack_law: "fixed_stack mark_stack \<and> stack_list mark_stack = [] \<and> sk_size mark_stack = 1024"
  by (simp add: mark_stack_def stack_create_def fixed_stack_def stack_wf_def stack_list_def)

lemma gc_mark_phase_correct:
  assumes "heap_wf h" and "heap_typed h" and "M \<subseteq> {..<length (heap_cells h)}" and "value_ok h v"
  shows "\<exists>ok M'. gc_mark_phase (mark_heap h M) v = Some (ok, mark_heap h M') \<and> marks h M {v} ok M' \<and>
    (length (heap_cells h) - card M \<le> 1023 \<longrightarrow> ok)"
proof (cases "is_ptr v")
  case False
  then show ?thesis using assms(3)
    by (auto simp: gc_mark_phase_def marks_def intro!: exI [of _ True] exI [of _ M])
next
  case True
  obtain b s where s: "push_u32 no_malloc mark_stack v = Some (b, s)" "fixed_stack s"
      "stack_list s = (if b then v # stack_list mark_stack else stack_list mark_stack)"
    using fstack.push_law [of mark_stack v] mark_stack_law by blast
  with fstack.push_bounded [OF _ s(1)] mark_stack_law
  have s1: "stack_list s = [v]" "unat (sk_size s) = 1024" by auto
  then have "\<And>w. w \<in> set (stack_list s) \<Longrightarrow> value_ok h w" using assms(4) by simp
  from gc_mark_loop_correct [OF assms(1-3) s(2) this] s1 True s(1) show ?thesis
    by (auto simp: gc_mark_phase_def)
qed

primrec gc_mark_all :: "heap_state \<Rightarrow> VALUE list \<Rightarrow> (bool \<times> heap_state) option" where
  "gc_mark_all h [] = Some (True, h)"
| "gc_mark_all h (v # vs) = do {
     (ok, h) \<leftarrow> gc_mark_phase h v;
     (oks, h) \<leftarrow> gc_mark_all h vs;
     Some (ok \<and> oks, h)
   }"

lemma gc_mark_all_correct:
  assumes "heap_wf h" and "heap_typed h" and "marks_closed h M" and "\<And>v. v \<in> set vs \<Longrightarrow> value_ok h v"
  shows "\<exists>ok M'. gc_mark_all (mark_heap h M) vs = Some (ok, mark_heap h M') \<and> M \<subseteq> M' \<and>
    M' \<subseteq> {..<length (heap_cells h)} \<and>
    (ok \<longrightarrow> M' = M \<union> reach h (set vs) \<and> marks_closed h M') \<and>
    (length (heap_cells h) - card M \<le> 1023 \<longrightarrow> ok)"
proof -
  have "\<exists>ok M'. gc_mark_all (mark_heap h M) vs = Some (ok, mark_heap h M') \<and> M \<subseteq> M' \<and>
    M' \<subseteq> {..<length (heap_cells h)} \<and>
    (marks_closed h M \<longrightarrow> ok \<longrightarrow> M' = M \<union> reach h (set vs) \<and> marks_closed h M') \<and>
    (length (heap_cells h) - card M \<le> 1023 \<longrightarrow> ok)"
    if "M \<subseteq> {..<length (heap_cells h)}"
    using that assms(4)
  proof (induction vs arbitrary: M)
    case Nil
    then show ?case by auto
  next
    case (Cons v vs)
    obtain ok1 M1 where 1: "gc_mark_phase (mark_heap h M) v = Some (ok1, mark_heap h M1)"
        "marks h M {v} ok1 M1" "length (heap_cells h) - card M \<le> 1023 \<Longrightarrow> ok1"
      using gc_mark_phase_correct [OF assms(1,2) Cons.prems(1)] Cons.prems(2) by force
    then have M1: "M \<subseteq> M1" "M1 \<subseteq> {..<length (heap_cells h)}" by (auto simp: marks_def)
    have fin: "finite M1" using M1(2) by (rule finite_subset) simp
    obtain ok2 M2 where 2: "gc_mark_all (mark_heap h M1) vs = Some (ok2, mark_heap h M2)" "M1 \<subseteq> M2"
        "M2 \<subseteq> {..<length (heap_cells h)}"
        "marks_closed h M1 \<longrightarrow> ok2 \<longrightarrow> M2 = M1 \<union> reach h (set vs) \<and> marks_closed h M2"
        "length (heap_cells h) - card M1 \<le> 1023 \<Longrightarrow> ok2"
      using Cons.IH [OF M1(2)] Cons.prems(2) by auto
    have "M2 = M \<union> reach h (set (v # vs)) \<and> marks_closed h M2" if "marks_closed h M" "ok1 \<and> ok2"
    proof -
      have "marks h M {v} True M1" using 1(2) that(2) by simp
      from marks_reach [OF assms(2) that(1) _ this] 2(4) that(2) Cons.prems(2) reach_Un [of h "{v}" "set vs"]
      show ?thesis by auto
    qed
    moreover have "card M \<le> card M1" using card_mono [OF fin M1(1)] .
    ultimately have "M2 \<subseteq> {..<length (heap_cells h)} \<and> M \<subseteq> M2 \<and>
        (marks_closed h M \<longrightarrow> ok1 \<and> ok2 \<longrightarrow> M2 = M \<union> reach h (set (v # vs)) \<and> marks_closed h M2) \<and>
        (length (heap_cells h) - card M \<le> 1023 \<longrightarrow> ok1 \<and> ok2)"
      using 1(3) 2(2,3,5) M1 by (meson diff_le_mono2 le_trans order_trans)
    moreover have "gc_mark_all (mark_heap h M) (v # vs) = Some (ok1 \<and> ok2, mark_heap h M2)"
      using 1(1) 2(1) by simp
    ultimately show ?case by blast
  qed
  with assms(3) show ?thesis by (auto simp: marks_closed_def)
qed

subsection \<open>Marking the free list\<close>

lemma mark_freelist_loop:
  "heap_wf h \<Longrightarrow> free_chain (heap_cells h) (val_clr_gc_mark v) fl \<Longrightarrow> distinct fl \<Longrightarrow> finite M \<Longrightarrow>
   M \<inter> set fl = {} \<Longrightarrow> gc_mark_freelist_loop (mark_heap h M) v = Some (mark_heap h (M \<union> set fl))"
proof (induction fl arbitrary: v M)
  case Nil
  then have "\<not> is_ptr v" using gc_mark_laws(2) [of v] by simp
  then show ?case by (subst gc_mark_freelist_loop.simps) simp
next
  case (Cons i fl)
  have len: "length (heap_cells h) \<le> 2 ^ 23" using Cons.prems(1) by (simp add: heap_wf_def)
  have i: "val_clr_gc_mark v = enc_cons_ptr (of_nat i)" "i < length (heap_cells h)"
    using Cons.prems(2) by simp_all
  then have "is_ptr v" using gc_mark_laws(2) [of v] by simp
  moreover have "dec_ptr v = of_nat i"
    using i len gc_mark_dec_ptr(2) [of v] by (simp add: dec_ptr_enc_cons_ptr unat_u32_of_nat)
  ultimately have v: "is_ptr v" "ref_cell v = i" "i < length (heap_cells h)"
    using i len by (simp_all add: ref_cell_def unat_u32_of_nat)
  let ?h = "(mark_heap h M)\<lparr>hs_heap := Some (mark_set (insert i M) (heap_cells h))\<rparr>"
  have upd: "upd_cell (mark_heap h M) i set_gc_mark = Some ?h"
    using v Cons.prems(5) by (simp add: upd_cell_def mark_heap_def mark_set_nth mark_set_insert)
  have "?h\<lparr>hs_gc_marked := hs_gc_marked ?h + 1\<rparr> = mark_heap h (insert i M)"
    using Cons.prems(4,5) by (simp add: mark_heap_def add.commute)
  moreover have "get_cell ?h i = Some (set_gc_mark (heap_cells h ! i))"
    using v by (simp add: get_cell_def mark_set_nth)
  moreover have "gc_mark_freelist_loop (mark_heap h (insert i M)) (val_set_gc_mark (cell_cdr (heap_cells h ! i)))
      = Some (mark_heap h (insert i M \<union> set fl))"
    using Cons.prems wf_unmarked [OF Cons.prems(1) v(3)] by (intro Cons.IH) (auto simp: cell_defs)
  ultimately show ?case using v upd by (subst gc_mark_freelist_loop.simps) (simp add: cell_defs)
qed

lemma gc_mark_freelist_correct:
  assumes "heap_wf h" and "hs_gc_marked h = 0"
  shows "gc_mark_freelist h = Some (True, mark_heap h (set (free_cells h)))"
proof -
  have inv: "heap_inv h (heap_cells h) (free_cells h)" by (rule heap_wf_inv [OF assms(1)])
  have h: "mark_heap h {} = h" using assms inv by (simp add: mark_heap_empty heap_inv_def)
  show ?thesis
  proof (cases "free_cells h")
    case Nil
    then have "hs_freelist h = NIL" using inv by (simp add: heap_inv_def)
    then show ?thesis using Nil h by (simp add: gc_mark_freelist_def type_of_val [symmetric])
  next
    case (Cons i fl)
    then have "is_ptr (hs_freelist h)" "\<not> val_get_gc_mark (hs_freelist h)"
      using inv by (auto simp: heap_inv_def)
    then show ?thesis
      using mark_freelist_loop [OF assms(1), of "hs_freelist h" "free_cells h" "{}"] inv h
      by (simp add: gc_mark_freelist_def heap_inv_def)
  qed
qed

lemma marks_closed_free: "heap_wf h \<Longrightarrow> marks_closed h (set (free_cells h))"
  using heap_wf_inv [of h] free_chain_bound by (fastforce simp: marks_closed_def heap_inv_def)

end
