(* ===== verification/GC_Correct.thy ===== *)
theory GC_Correct
  imports GC_Mark Arrays
begin

text \<open>
  The sweep phase, and the collector as a whole: the cells that are not marked become the head of the
  free list, the blocks of the arrays among them go back to the word memory, and every other cell
  and block is as before.
\<close>

subsection \<open>Arrays of a heap\<close>

text \<open>
  Every live array cell owns a block of the memory: \<open>pos i\<close> is its word index and \<open>len i\<close> its
  length, and no two cells own the same block.
\<close>

definition array_cell :: "heap_state \<Rightarrow> nat \<Rightarrow> bool" where
  "array_cell h i \<longleftrightarrow> live_cell h i \<and> cell_type (heap_cells h ! i) = PTR_TYPE_ARRAY"

definition arrays_at :: "heap_state \<Rightarrow> memory_state \<Rightarrow> (nat \<Rightarrow> nat) \<Rightarrow> (nat \<Rightarrow> nat) \<Rightarrow> bool" where
  "arrays_at h m pos len \<longleftrightarrow>
     (\<forall>i. array_cell h i \<longrightarrow> cell_car (heap_cells h ! i) = mem_addr m (pos i) \<and>
        block_at (memory_segs m) (pos i) (len i)) \<and>
     (\<forall>i j. array_cell h i \<longrightarrow> array_cell h j \<longrightarrow> pos i = pos j \<longrightarrow> i = j)"

text \<open>The test of the sweep loop recognises exactly the array cells.\<close>

lemma cell_type_values: "is_ptr v \<Longrightarrow> value_ok h v \<Longrightarrow> type_of v \<noteq> VAL_TYPE_SYMBOL"
  by (simp add: value_ok_def cell_type_def)

lemma array_test:
  assumes "heap_wf h" and "heap_typed h" and "live_cell h i"
  defines "c \<equiv> heap_cells h ! i"
  shows "type_of (cell_cdr c) = VAL_TYPE_SYMBOL \<and> dec_sym (cell_cdr c) = DEF_REPR_ARRAY_TYPE \<longleftrightarrow>
    cell_type c = PTR_TYPE_ARRAY"
proof
  assume test: "type_of (cell_cdr c) = VAL_TYPE_SYMBOL \<and> dec_sym (cell_cdr c) = DEF_REPR_ARRAY_TYPE"
  have mark: "\<not> val_get_gc_mark (cell_cdr c)"
    using wf_unmarked [OF assms(1)] assms(3) by (simp add: c_def live_cell_def cell_defs)
  show "cell_type c = PTR_TYPE_ARRAY"
  proof (cases "is_ptr (cell_cdr c)")
    case False
    then have "cell_cdr c = enc_sym DEF_REPR_ARRAY_TYPE" using enc_sym_dec_sym [of "cell_cdr c"] test mark by simp
    then show ?thesis by (simp add: cell_type_def)
  next
    case True
    then have "cell_type c = PTR_TYPE_CONS" by (auto simp: cell_type_def)
    then have "value_ok h (cell_cdr c)" using heap_typedD [OF assms(2,3)] by (simp add: c_def)
    with True test show ?thesis using cell_type_values by blast
  qed
next
  assume "cell_type c = PTR_TYPE_ARRAY"
  then have "cell_cdr c = enc_sym DEF_REPR_ARRAY_TYPE" by (simp add: cell_type_def split: if_splits)
  then show "type_of (cell_cdr c) = VAL_TYPE_SYMBOL \<and> dec_sym (cell_cdr c) = DEF_REPR_ARRAY_TYPE"
    by (simp add: dec_sym_enc_sym)
qed

subsection \<open>The sweep loop\<close>

text \<open>
  The state when the cells below \<open>i\<close> have been swept: \<open>cl\<close> is the cell array without marks; the
  marked cells from \<open>i\<close> on still carry theirs.
\<close>

definition dead_below :: "nat set \<Rightarrow> nat \<Rightarrow> nat list" where
  "dead_below M i = filter (\<lambda>j. j \<notin> M) [0..<i]"

definition swept :: "heap_state \<Rightarrow> nat set \<Rightarrow> nat \<Rightarrow> heap_state \<Rightarrow> cell list \<Rightarrow> bool" where
  "swept h M i g cl \<longleftrightarrow>
     hs_heap g = Some (mark_set (M \<inter> {i..}) cl) \<and> length cl = length (heap_cells h) \<and>
     (\<forall>j < length cl. j \<in> M \<or> i \<le> j \<longrightarrow> cl ! j = heap_cells h ! j) \<and>
     (\<forall>c \<in> set cl. \<not> get_gc_mark c) \<and>
     free_chain cl (hs_freelist g) (rev (dead_below M i) @ free_cells h) \<and>
     unat (hs_num_alloc g) + length (dead_below M i) = unat (hs_num_alloc h) \<and>
     hs_heap_size g = hs_heap_size h"

lemma dead_below_Suc: "dead_below M (Suc i) = (if i \<in> M then dead_below M i else dead_below M i @ [i])"
  by (simp add: dead_below_def)

lemma dead_below_le:
  assumes "heap_wf h" and "marks_closed h M" and "i \<le> length (heap_cells h)"
  shows "length (dead_below M i) \<le> unat (hs_num_alloc h)"
proof -
  have fl: "distinct (free_cells h)" "set (free_cells h) \<subseteq> M" "M \<subseteq> {..<length (heap_cells h)}"
      "unat (hs_num_alloc h) + length (free_cells h) = length (heap_cells h)"
    using heap_wf_inv [OF assms(1)] assms(2) by (auto simp: heap_inv_def marks_closed_def)
  have "set (dead_below M i) \<union> set (free_cells h) \<subseteq> {..<length (heap_cells h)}"
    using assms(3) fl by (auto simp: dead_below_def)
  then have "card (set (dead_below M i) \<union> set (free_cells h)) \<le> length (heap_cells h)"
    using card_mono [of "{..<length (heap_cells h)}"] by fastforce
  moreover have "set (dead_below M i) \<inter> set (free_cells h) = {}" using fl by (auto simp: dead_below_def)
  moreover have "distinct (dead_below M i)" by (simp add: dead_below_def)
  ultimately have "length (dead_below M i) + length (free_cells h) \<le> length (heap_cells h)"
    using fl(1) by (simp add: card_Un_disjoint distinct_card)
  then show ?thesis using fl(4) by linarith
qed

lemma mark_set_drop:
  "i < length cl \<Longrightarrow> (\<And>c. c \<in> set cl \<Longrightarrow> \<not> get_gc_mark c) \<Longrightarrow>
     (mark_set (M \<inter> {i..}) cl)[i := clr_gc_mark (mark_set (M \<inter> {i..}) cl ! i)] = mark_set (M \<inter> {Suc i..}) cl"
  by (rule nth_equalityI)
    (auto simp: mark_set_nth nth_list_update cell_defs Suc_le_eq le_less)

lemma mark_set_replace:
  "i < length cl \<Longrightarrow> i \<notin> M \<Longrightarrow>
     (mark_set (M \<inter> {i..}) cl)[i := c] = mark_set (M \<inter> {Suc i..}) (cl[i := c])"
  by (rule nth_equalityI) (auto simp: mark_set_nth nth_list_update Suc_le_eq le_less)

lemma sweep_marked:
  assumes "swept h M i g cl" and "i < length (heap_cells h)" and "i \<in> M" and "unat k = i"
  shows "\<exists>g'. gc_sweep_cell g m k = Some (g', m) \<and> swept h M (Suc i) g' cl"
proof -
  let ?g = "g\<lparr>hs_heap := Some (mark_set (M \<inter> {Suc i..}) cl)\<rparr>"
  have "get_cell g i = Some (set_gc_mark (cl ! i))"
    using assms by (simp add: swept_def get_cell_def mark_set_nth)
  then have "gc_sweep_cell g m k = Some (?g, m)"
    using assms mark_set_drop [of i cl M] by (simp add: swept_def gc_sweep_cell_def upd_cell_def)
  moreover have "swept h M (Suc i) ?g cl" using assms by (auto simp: swept_def dead_below_Suc)
  ultimately show ?thesis by blast
qed

lemma sweep_dead_state:
  assumes "heap_wf h" and "marks_closed h M" and "swept h M i g cl" and "i < length (heap_cells h)"
    and "i \<notin> M" and "unat k = i"
  shows "swept h M (Suc i)
    (g\<lparr>hs_heap := Some (mark_set (M \<inter> {Suc i..}) (cl[i := \<lparr>cell_car = RECOVERED, cell_cdr = hs_freelist g\<rparr>])),
       hs_freelist := enc_cons_ptr k, hs_num_alloc := hs_num_alloc g - 1, hs_gc_recovered := r,
       hs_gc_recovered_arrays := ra\<rparr>) (cl[i := \<lparr>cell_car = RECOVERED, cell_cdr = hs_freelist g\<rparr>])"
proof -
  have k: "k = of_nat i" using assms(6) by (metis of_nat_unat ucast_id)
  let ?fl = "rev (dead_below M i) @ free_cells h"
  have chain: "free_chain cl (hs_freelist g) ?fl" using assms(3) by (simp add: swept_def)
  have mark: "\<not> val_get_gc_mark (hs_freelist g)" using chain by (cases ?fl) auto
  have "i \<notin> set ?fl" using assms(2,5) by (auto simp: dead_below_def marks_closed_def)
  from free_chain_update [OF chain this]
  have "free_chain (cl[i := \<lparr>cell_car = RECOVERED, cell_cdr = hs_freelist g\<rparr>]) (enc_cons_ptr k) (i # ?fl)"
    using assms(3,4) k by (simp add: swept_def)
  moreover have "unat (hs_num_alloc g - 1) + length (dead_below M (Suc i)) = unat (hs_num_alloc h)"
  proof -
    have "length (dead_below M (Suc i)) \<le> unat (hs_num_alloc h)"
      using assms(4) by (intro dead_below_le [OF assms(1,2)]) simp
    moreover have "unat (hs_num_alloc g) + length (dead_below M i) = unat (hs_num_alloc h)"
      using assms(3) by (simp add: swept_def)
    ultimately show ?thesis using assms(5) by (simp add: dead_below_Suc unat_sub_if')
  qed
  moreover have "\<forall>c \<in> set (cl[i := \<lparr>cell_car = RECOVERED, cell_cdr = hs_freelist g\<rparr>]). \<not> get_gc_mark c"
  proof -
    have "\<forall>c \<in> insert \<lparr>cell_car = RECOVERED, cell_cdr = hs_freelist g\<rparr> (set cl). \<not> get_gc_mark c"
      using assms(3) mark by (simp add: swept_def cell_defs)
    then show ?thesis using set_update_subset_insert [of cl i] by blast
  qed
  ultimately show ?thesis
    using assms(3,4,5) by (auto simp: swept_def dead_below_Suc nth_list_update)
qed

text \<open>The memory when the cells below \<open>i\<close> have been swept.\<close>

definition mem_swept ::
  "heap_state \<Rightarrow> memory_state \<Rightarrow> (nat \<Rightarrow> nat) \<Rightarrow> (nat \<Rightarrow> nat) \<Rightarrow> nat set \<Rightarrow> nat \<Rightarrow> memory_state \<Rightarrow> bool" where
  "mem_swept h m pos len M i m' \<longleftrightarrow>
     memory_wf m' \<and> mem_addr m' = mem_addr m \<and> ms_memory m' = ms_memory m \<and>
     (\<forall>q l. block_at (memory_segs m) q l \<longrightarrow>
        (\<forall>j \<in> set (dead_below M i). array_cell h j \<longrightarrow> pos j \<noteq> q) \<longrightarrow> block_at (memory_segs m') q l) \<and>
     num_free_segs (memory_segs m') = num_free_segs (memory_segs m) +
       sum_list (map len (filter (array_cell h) (dead_below M i)))"

lemma block_at_pos: "memory_wf m \<Longrightarrow> block_at (memory_segs m) q l \<Longrightarrow> 0 < l"
  by (elim memory_wfE) (auto simp: block_at_def)

lemma memory_free_frees:
  assumes "memory_wf m" and "block_at (memory_segs m) p k"
  shows "\<exists>m'. memory_free m (mem_addr m p) = Some (True, m') \<and> memory_wf m' \<and> mem_addr m' = mem_addr m \<and>
    ms_memory m' = ms_memory m \<and> num_free_segs (memory_segs m') = num_free_segs (memory_segs m) + k \<and>
    (\<forall>q l. block_at (memory_segs m) q l \<longrightarrow> q \<noteq> p \<longrightarrow> block_at (memory_segs m') q l)"
proof -
  obtain A B where "memory_segs m = A @ Block k # B" "segs_len A = p"
    using assms(2) by (auto simp: block_at_def)
  with memory_free_refines [OF assms(1)] obtain m' where
    "memory_free m (mem_addr m p) = Some (True, m')" "ms_memory m' = ms_memory m" by blast
  with mem.free_block [OF assms] block_at_pos [OF assms(1)] show ?thesis by auto
qed

lemma mem_swept_keep:
  assumes "mem_swept h m pos len M i m'" and "i \<in> M \<or> \<not> array_cell h i"
  shows "mem_swept h m pos len M (Suc i) m'"
  using assms by (auto simp: mem_swept_def dead_below_Suc)

lemma mem_swept_free:
  assumes "arrays_at h m pos len" and "mem_swept h m pos len M i m1" and "i \<notin> M" and "array_cell h i"
  shows "\<exists>m2. memory_free m1 (cell_car (heap_cells h ! i)) = Some (True, m2) \<and>
    mem_swept h m pos len M (Suc i) m2"
proof -
  have car: "cell_car (heap_cells h ! i) = mem_addr m1 (pos i)" and b: "block_at (memory_segs m) (pos i) (len i)"
    using assms by (auto simp: arrays_at_def mem_swept_def)
  have "pos j \<noteq> pos i" if "j \<in> set (dead_below M i)" "array_cell h j" for j
    using that assms(1,4) by (auto simp: arrays_at_def dead_below_def)
  then have "block_at (memory_segs m1) (pos i) (len i)" using b assms(2) by (auto simp: mem_swept_def)
  moreover have wf: "memory_wf m1" using assms(2) by (simp add: mem_swept_def)
  ultimately obtain m2 where m2: "memory_free m1 (mem_addr m1 (pos i)) = Some (True, m2)" "memory_wf m2"
      "mem_addr m2 = mem_addr m1" "ms_memory m2 = ms_memory m1"
      "num_free_segs (memory_segs m2) = num_free_segs (memory_segs m1) + len i"
      "\<forall>q l. block_at (memory_segs m1) q l \<longrightarrow> q \<noteq> pos i \<longrightarrow> block_at (memory_segs m2) q l"
    using memory_free_frees by blast
  have "mem_swept h m pos len M (Suc i) m2"
    using m2 assms(2-4) by (auto simp: mem_swept_def dead_below_Suc)
  with m2(1) car show ?thesis by simp
qed

lemma gc_sweep_cell_dead:
  assumes "hs_heap g = Some cs" and "unat k < length cs" and "\<not> get_gc_mark (cs ! unat k)"
    and "\<not> val_get_gc_mark (hs_freelist g)"
    and "if type_of (cell_cdr (cs ! unat k)) = VAL_TYPE_SYMBOL \<and> dec_sym (cell_cdr (cs ! unat k)) = DEF_REPR_ARRAY_TYPE
      then memory_free m (cell_car (cs ! unat k)) = Some (b, m2) \<and> ra = hs_gc_recovered_arrays g + 1
      else m2 = m \<and> ra = hs_gc_recovered_arrays g"
  shows "gc_sweep_cell g m k = Some
    (g\<lparr>hs_heap := Some (cs[unat k := \<lparr>cell_car = RECOVERED, cell_cdr = hs_freelist g\<rparr>]),
       hs_freelist := enc_cons_ptr k, hs_num_alloc := hs_num_alloc g - 1,
       hs_gc_recovered := hs_gc_recovered g + 1, hs_gc_recovered_arrays := ra\<rparr>, m2)"
  using assms by (auto simp: gc_sweep_cell_def upd_cell_def get_cell_def cell_defs)

lemma sweep_dead:
  assumes "heap_wf h" and "heap_typed h" and "marks_closed h M" and "swept h M i g cl"
    and "i < length (heap_cells h)" and "i \<notin> M" and "unat k = i"
    and "arrays_at h m pos len" and "mem_swept h m pos len M i m1"
  shows "\<exists>g' m2 cl'. gc_sweep_cell g m1 k = Some (g', m2) \<and> swept h M (Suc i) g' cl' \<and>
    mem_swept h m pos len M (Suc i) m2"
proof -
  let ?c = "heap_cells h ! i" and ?new = "\<lparr>cell_car = RECOVERED, cell_cdr = hs_freelist g\<rparr>"
  have live: "live_cell h i" using assms(3,5,6) by (auto simp: live_cell_def marks_closed_def)
  have cl: "length cl = length (heap_cells h)" "cl ! i = ?c" "hs_heap g = Some (mark_set (M \<inter> {i..}) cl)"
    using assms(4,5) by (auto simp: swept_def)
  have cell: "get_cell g i = Some ?c" "\<not> get_gc_mark ?c"
    using cl assms(5,6) wf_unmarked [OF assms(1)] by (simp_all add: get_cell_def mark_set_nth)
  have mark: "\<not> val_get_gc_mark (hs_freelist g)"
    using assms(4) by (cases "rev (dead_below M i) @ free_cells h") (auto simp: swept_def)
  have test: "type_of (cell_cdr ?c) = VAL_TYPE_SYMBOL \<and> dec_sym (cell_cdr ?c) = DEF_REPR_ARRAY_TYPE \<longleftrightarrow> array_cell h i"
    using array_test [OF assms(1,2) live] live by (simp add: array_cell_def)
  obtain b m2 ra where m2: "mem_swept h m pos len M (Suc i) m2"
      "if array_cell h i then memory_free m1 (cell_car ?c) = Some (b, m2) \<and> ra = hs_gc_recovered_arrays g + 1
       else m2 = m1 \<and> ra = hs_gc_recovered_arrays g"
    using mem_swept_free [OF assms(8,9,6)] mem_swept_keep [OF assms(9)] by (cases "array_cell h i") auto
  have i: "mark_set (M \<inter> {i..}) cl ! unat k = ?c" "unat k < length (mark_set (M \<inter> {i..}) cl)"
    using cl assms(5-7) by (simp_all add: mark_set_nth)
  have "gc_sweep_cell g m1 k = Some
    (g\<lparr>hs_heap := Some ((mark_set (M \<inter> {i..}) cl)[unat k := ?new]),
       hs_freelist := enc_cons_ptr k, hs_num_alloc := hs_num_alloc g - 1,
       hs_gc_recovered := hs_gc_recovered g + 1, hs_gc_recovered_arrays := ra\<rparr>, m2)"
    using i cell(2) mark m2(2) test by (intro gc_sweep_cell_dead [OF cl(3), where b = b]) simp_all
  then show ?thesis
    using sweep_dead_state [OF assms(1,3-7)] mark_set_replace [of i cl M] cl assms(5-7) m2(1) by fastforce
qed

lemma gc_sweep_loop_correct:
  assumes "heap_wf h" and "heap_typed h" and "marks_closed h M" and "arrays_at h m pos len"
    and "swept h M (unat i) g cl" and "mem_swept h m pos len M (unat i) m1" and "unat i \<le> unat n"
    and "unat n = length (heap_cells h)"
  shows "\<exists>g' m2 cl'. gc_sweep_loop g m1 n i = Some (g', m2) \<and> swept h M (unat n) g' cl' \<and>
    mem_swept h m pos len M (unat n) m2"
  using assms(5-7)
proof (induction "unat n - unat i" arbitrary: i g cl m1)
  case 0
  then have "unat i = unat n" by simp
  with 0 show ?case by (subst gc_sweep_loop.simps) (auto simp: word_less_nat_alt)
next
  case (Suc d)
  then have lt: "i < n" and i: "unat i < length (heap_cells h)"
    using assms(8) by (simp_all add: word_less_nat_alt)
  obtain g' m2 cl' where 1: "gc_sweep_cell g m1 i = Some (g', m2)" "swept h M (Suc (unat i)) g' cl'"
      "mem_swept h m pos len M (Suc (unat i)) m2"
  proof (cases "unat i \<in> M")
    case True
    then show thesis
      using sweep_marked [OF Suc.prems(1) i True refl, of m1] mem_swept_keep [OF Suc.prems(2)] that by blast
  next
    case False
    then show thesis
      using sweep_dead [OF assms(1-3) Suc.prems(1) i False refl assms(4) Suc.prems(2)] that by blast
  qed
  note step = unat_succ_less [OF lt]
  have "\<exists>g'' m3 cl''. gc_sweep_loop g' m2 n (i + 1) = Some (g'', m3) \<and> swept h M (unat n) g'' cl'' \<and>
      mem_swept h m pos len M (unat n) m3"
    using 1(2,3) Suc step lt by (intro Suc.hyps) (simp_all add: word_less_nat_alt)
  then show ?case using 1(1) lt by (subst gc_sweep_loop.simps) simp
qed

lemma mark_heap_swept:
  assumes "heap_wf h"
  shows "swept h M 0 (mark_heap h M) (heap_cells h)"
  using heap_wf_inv [OF assms] by (simp add: swept_def mark_heap_def heap_inv_def dead_below_def)

lemma mem_swept_0: "memory_wf m \<Longrightarrow> mem_swept h m pos len M 0 m"
  by (simp add: mem_swept_def dead_below_def)

lemma swept_done:
  assumes "heap_wf h" and "marks_closed h M" and "swept h M (length (heap_cells h)) g cl"
  shows "heap_wf g \<and> heap_cells g = cl \<and> free_cells g = rev (dead_below M (length (heap_cells h))) @ free_cells h"
proof -
  let ?n = "length (heap_cells h)"
  have inv: "heap_inv h (heap_cells h) (free_cells h)" by (rule heap_wf_inv [OF assms(1)])
  have M: "M \<subseteq> {..<?n}" "set (free_cells h) \<subseteq> M" using assms(2) by (auto simp: marks_closed_def)
  have "M \<inter> {?n..} = {}" using M(1) by auto
  then have "mark_set (M \<inter> {?n..}) cl = cl" by (simp add: mark_set_def map_nth)
  moreover have "distinct (rev (dead_below M ?n) @ free_cells h)"
    using inv M by (auto simp: heap_inv_def dead_below_def)
  moreover have "length (dead_below M ?n) + unat (hs_num_alloc g) = unat (hs_num_alloc h)"
    using assms(3) by (simp add: swept_def add.commute)
  then have "unat (hs_num_alloc g) + length (rev (dead_below M ?n) @ free_cells h) = ?n"
    using inv by (simp add: heap_inv_def)
  ultimately have "heap_inv g cl (rev (dead_below M ?n) @ free_cells h)"
    using assms(3) inv by (auto simp: heap_inv_def swept_def)
  from heap_inv_wf [OF this] show ?thesis .
qed

subsection \<open>What a collection promises\<close>

text \<open>
  \<open>collected h m pos len R h' m'\<close>: from the heap \<open>h\<close> and memory \<open>m\<close>, the collection with roots \<open>R\<close> keeps
  exactly the cells reachable from \<open>R\<close>, unchanged, puts all others on the free list, and frees
  exactly the blocks of the arrays among those.
\<close>

definition collected ::
  "heap_state \<Rightarrow> memory_state \<Rightarrow> (nat \<Rightarrow> nat) \<Rightarrow> (nat \<Rightarrow> nat) \<Rightarrow> VALUE set \<Rightarrow> heap_state \<Rightarrow> memory_state \<Rightarrow> bool"
where
  "collected h m pos len R h' m' \<longleftrightarrow>
     heap_wf h' \<and> heap_typed h' \<and> memory_wf m' \<and> arrays_at h' m' pos len \<and>
     (\<forall>i. live_cell h' i \<longleftrightarrow> i \<in> reach h R) \<and>
     (\<forall>i \<in> reach h R. get_cell h' i = get_cell h i) \<and>
     ms_memory m' = ms_memory m \<and> mem_addr m' = mem_addr m \<and>
     (\<forall>q l. block_at (memory_segs m) q l \<longrightarrow>
        (\<forall>i. array_cell h i \<longrightarrow> i \<notin> reach h R \<longrightarrow> pos i \<noteq> q) \<longrightarrow> block_at (memory_segs m') q l) \<and>
     num_free_segs (memory_segs m') = num_free_segs (memory_segs m) +
       (\<Sum>i | array_cell h i \<and> i \<notin> reach h R. len i)"

text \<open>A heap that kept exactly the cells reachable from \<open>R\<close> is typed, and its arrays own their blocks.\<close>

lemma typed_keep:
  assumes "heap_typed h" and live: "\<And>i. live_cell h' i \<longleftrightarrow> i \<in> reach h R"
    and cells: "\<And>i. i \<in> reach h R \<Longrightarrow> live_cell h i \<and> heap_cells h' ! i = heap_cells h ! i"
  shows "heap_typed h'"
  unfolding heap_typed_def list_all_iff
proof (intro ballI impI)
  fix i assume i: "live_cell h' i" "cell_type (heap_cells h' ! i) = PTR_TYPE_CONS"
  have ok: "value_ok h' v" if "value_ok h v" "ptr_cells {v} \<subseteq> reach h R" for v
    using that cells live by (cases "is_ptr v") (simp_all add: value_ok_def)
  have r: "i \<in> reach h R" using i(1) live by blast
  then have c: "live_cell h i" "heap_cells h' ! i = heap_cells h ! i" using cells by blast+
  have "children h i \<subseteq> reach h R" using r by (auto intro: reach.step)
  then have "ptr_cells {cell_car (heap_cells h ! i)} \<subseteq> reach h R" "ptr_cells {cell_cdr (heap_cells h ! i)} \<subseteq> reach h R"
    using i(2) c by (auto simp: children_def split: if_splits)
  with heap_typedD [OF assms(1) c(1)] i(2) c ok
  show "value_ok h' (cell_car (heap_cells h' ! i)) \<and> value_ok h' (cell_cdr (heap_cells h' ! i))" by simp
qed

lemma arrays_keep:
  assumes "arrays_at h m pos len" and "mem_addr m' = mem_addr m"
    and arr: "\<And>i. array_cell h' i \<longleftrightarrow> array_cell h i \<and> i \<in> reach h R"
    and cells: "\<And>i. i \<in> reach h R \<Longrightarrow> heap_cells h' ! i = heap_cells h ! i"
    and keep: "\<And>q l. block_at (memory_segs m) q l \<Longrightarrow>
      (\<And>i. array_cell h i \<Longrightarrow> i \<notin> reach h R \<Longrightarrow> pos i \<noteq> q) \<Longrightarrow> block_at (memory_segs m') q l"
  shows "arrays_at h' m' pos len"
  unfolding arrays_at_def
proof (intro conjI allI impI)
  fix i assume i: "array_cell h' i"
  then show "cell_car (heap_cells h' ! i) = mem_addr m' (pos i)"
    using assms(1,2) cells arr by (simp add: arrays_at_def)
  have "block_at (memory_segs m) (pos i) (len i)" using i assms(1) arr by (simp add: arrays_at_def)
  moreover have "\<And>j. array_cell h j \<Longrightarrow> j \<notin> reach h R \<Longrightarrow> pos j \<noteq> pos i"
    using i assms(1) arr unfolding arrays_at_def by blast
  ultimately show "block_at (memory_segs m') (pos i) (len i)" by (rule keep)
next
  fix i j assume "array_cell h' i" "array_cell h' j" "pos i = pos j"
  then show "i = j" using assms(1) arr unfolding arrays_at_def by blast
qed

lemma collected_reach:
  assumes wf: "heap_wf h" "heap_typed h" "memory_wf m" "arrays_at h m pos len"
    and roots: "\<And>v. v \<in> R \<Longrightarrow> value_ok h v"
    and closed: "marks_closed h (set (free_cells h) \<union> reach h R)"
    and sw: "swept h (set (free_cells h) \<union> reach h R) (length (heap_cells h)) h' cl"
    and msw: "mem_swept h m pos len (set (free_cells h) \<union> reach h R) (length (heap_cells h)) m'"
  shows "collected h m pos len R h' m'"
proof -
  let ?n = "length (heap_cells h)" and ?M = "set (free_cells h) \<union> reach h R"
  have rl: "live_cell h i" if "i \<in> reach h R" for i
    using reach_live [OF wf(2) _ that] roots by blast
  have fin: "heap_wf h'" "heap_cells h' = cl" "free_cells h' = rev (dead_below ?M ?n) @ free_cells h"
    using swept_done [OF wf(1) closed sw] by simp_all
  have len: "length cl = ?n" using sw by (simp add: swept_def)
  have live: "live_cell h' i \<longleftrightarrow> i \<in> reach h R" for i
    using rl [of i] by (auto simp: live_cell_def fin len dead_below_def)
  have cells: "heap_cells h' ! i = heap_cells h ! i" if "i \<in> reach h R" for i
    using that sw rl [OF that] len by (auto simp: swept_def fin live_cell_def)
  have get: "get_cell h' i = get_cell h i" if "i \<in> reach h R" for i
    using that cells [OF that] get_cell_wf [OF fin(1), of i] get_cell_wf [OF wf(1), of i] live rl by auto
  have dead: "j \<in> set (dead_below ?M ?n) \<and> array_cell h j \<longleftrightarrow> array_cell h j \<and> j \<notin> reach h R" for j
    by (auto simp: dead_below_def array_cell_def live_cell_def)
  have m': "memory_wf m'" "mem_addr m' = mem_addr m" "ms_memory m' = ms_memory m"
      "num_free_segs (memory_segs m') = num_free_segs (memory_segs m) +
         sum_list (map len (filter (array_cell h) (dead_below ?M ?n)))"
    using msw by (simp_all add: mem_swept_def)
  have keep: "block_at (memory_segs m') q l"
    if "block_at (memory_segs m) q l" "\<And>i. array_cell h i \<Longrightarrow> i \<notin> reach h R \<Longrightarrow> pos i \<noteq> q" for q l
  proof -
    have "\<forall>j \<in> set (dead_below ?M ?n). array_cell h j \<longrightarrow> pos j \<noteq> q" using that(2) dead by blast
    then show ?thesis using that(1) msw unfolding mem_swept_def by blast
  qed
  have arr: "array_cell h' i \<longleftrightarrow> array_cell h i \<and> i \<in> reach h R" for i
    using live cells rl by (auto simp: array_cell_def)
  have "distinct (filter (array_cell h) (dead_below ?M ?n))"
    "set (filter (array_cell h) (dead_below ?M ?n)) = {i. array_cell h i \<and> i \<notin> reach h R}"
    using dead by (auto simp: dead_below_def)
  then have "sum_list (map len (filter (array_cell h) (dead_below ?M ?n))) =
      (\<Sum>i | array_cell h i \<and> i \<notin> reach h R. len i)" by (metis sum_list_distinct_conv_sum_set)
  then show ?thesis
    unfolding collected_def
    using fin(1) m' live get keep typed_keep [OF wf(2) live] rl cells
      arrays_keep [OF wf(4) m'(2) arr cells keep] by simp
qed

subsection \<open>Collections\<close>

text \<open>Marking from the free list and a list of roots, then sweeping.\<close>

definition gc_roots :: "heap_state \<Rightarrow> VALUE list \<Rightarrow> (bool \<times> heap_state) option" where
  "gc_roots h vs = do {
     (_, h) \<leftarrow> gc_mark_freelist (gc_state_inc h);
     gc_mark_all h vs
   }"

lemma heap_wf_gc_state_inc [simp]:
  "heap_wf (gc_state_inc h) = heap_wf h" "heap_cells (gc_state_inc h) = heap_cells h"
  "free_cells (gc_state_inc h) = free_cells h" "hs_heap_size (gc_state_inc h) = hs_heap_size h"
  by (simp_all add: heap_wf_def gc_state_inc_def heap_cells_def free_cells_def)

lemma live_cell_gc_state_inc [simp]: "live_cell (gc_state_inc h) = live_cell h"
  by (simp add: live_cell_def fun_eq_iff)

lemma typed_gc_state_inc [simp]:
  "value_ok (gc_state_inc h) = value_ok h" "heap_typed (gc_state_inc h) = heap_typed h"
  "children (gc_state_inc h) = children h" "array_cell (gc_state_inc h) = array_cell h"
  "arrays_at (gc_state_inc h) = arrays_at h"
  by (simp_all add: value_ok_def heap_typed_def children_def array_cell_def arrays_at_def fun_eq_iff)

lemma reach_gc_state_inc [simp]: "reach (gc_state_inc h) R = reach h R"
  by (intro equalityI reach_least) (auto intro: reach.intros reach.step [where h = "gc_state_inc h"] simp: reach.root)

lemma get_cell_gc_state_inc [simp]: "get_cell (gc_state_inc h) = get_cell h"
  by (simp add: get_cell_def gc_state_inc_def fun_eq_iff)

lemma collected_gc_state_inc [simp]: "collected (gc_state_inc h) m pos len R = collected h m pos len R"
  by (simp add: collected_def fun_eq_iff)

lemma gc_roots_correct:
  assumes "heap_wf h" and "heap_typed h" and "\<And>v. v \<in> set vs \<Longrightarrow> value_ok h v"
  shows "\<exists>ok M. gc_roots h vs = Some (ok, mark_heap (gc_state_inc h) M) \<and>
    (ok \<longrightarrow> M = set (free_cells h) \<union> reach h (set vs) \<and> marks_closed (gc_state_inc h) M) \<and>
    (unat (hs_num_alloc h) \<le> 1023 \<longrightarrow> ok)"
proof -
  let ?h = "gc_state_inc h"
  have wf: "heap_wf ?h" "heap_typed ?h" "\<And>v. v \<in> set vs \<Longrightarrow> value_ok ?h v" using assms by simp_all
  have "gc_mark_freelist ?h = Some (True, mark_heap ?h (set (free_cells ?h)))"
    using wf(1) by (intro gc_mark_freelist_correct) (simp_all add: gc_state_inc_def)
  moreover have "card (set (free_cells h)) + unat (hs_num_alloc h) = length (heap_cells h)"
    using heap_wf_inv [OF assms(1)] by (simp add: heap_inv_def distinct_card)
  then have "length (heap_cells h) - card (set (free_cells h)) = unat (hs_num_alloc h)" by linarith
  ultimately show ?thesis
    using gc_mark_all_correct [of ?h "set (free_cells ?h)" vs] marks_closed_free [OF wf(1)] wf
    by (auto simp: gc_roots_def)
qed

lemma gc_collects:
  assumes "heap_wf h" and "heap_typed h" and "memory_wf m" and "arrays_at h m pos len"
    and roots: "\<And>v. v \<in> set vs \<Longrightarrow> value_ok h v" and "gc_roots h vs = Some (True, hm)"
  shows "\<exists>h' m'. gc_sweep_phase hm m = Some (True, h', m') \<and> collected h m pos len (set vs) h' m'"
proof -
  let ?h = "gc_state_inc h" and ?M = "set (free_cells h) \<union> reach h (set vs)"
  have hm: "hm = mark_heap ?h ?M" and closed: "marks_closed ?h ?M"
    using gc_roots_correct [of h vs] assms(1,2,6) roots by auto
  have wf: "heap_wf ?h" "heap_typed ?h" "arrays_at ?h m pos len" using assms by simp_all
  have n: "unat (hs_heap_size h) = length (heap_cells ?h)"
    using heap_wf_inv [OF assms(1)] by (simp add: heap_inv_def)
  have sw: "swept ?h ?M (unat (0 :: UINT)) hm (heap_cells ?h)"
      "mem_swept ?h m pos len ?M (unat (0 :: UINT)) m"
    using mark_heap_swept [OF wf(1), of ?M] mem_swept_0 [OF assms(3)] hm by simp_all
  from gc_sweep_loop_correct [OF wf(1,2) closed wf(3) sw _ n]
  obtain h' m' cl' where 1: "gc_sweep_loop hm m (hs_heap_size h) 0 = Some (h', m')"
      "swept ?h ?M (length (heap_cells ?h)) h' cl'" "mem_swept ?h m pos len ?M (length (heap_cells ?h)) m'"
    using n by auto
  have "\<And>v. v \<in> set vs \<Longrightarrow> value_ok ?h v" using roots by simp
  from collected_reach [of ?h m pos len "set vs" h' cl' m'] this wf assms(3) closed 1
  have "collected h m pos len (set vs) h' m'" by simp
  moreover have "hs_heap_size hm = hs_heap_size h" by (simp add: hm mark_heap_def gc_state_inc_def)
  ultimately show ?thesis using 1(1) by (simp add: gc_sweep_phase_def)
qed

subsection \<open>Properties\<close>

text \<open>None of the mark phases from these roots fills the mark stack.\<close>

definition mark_fits :: "heap_state \<Rightarrow> VALUE list \<Rightarrow> bool" where
  "mark_fits h vs \<longleftrightarrow> (case gc_roots h vs of Some (ok, hm) \<Rightarrow> ok | None \<Rightarrow> False)"

lemma mark_fits_small:
  assumes "heap_wf h" and "heap_typed h" and "\<And>v. v \<in> set vs \<Longrightarrow> value_ok h v"
    and "unat (hs_num_alloc h) \<le> 1023"
  shows "mark_fits h vs"
  using gc_roots_correct [of h vs] assms by (auto simp: mark_fits_def)

lemma mark_fitsD: "mark_fits h vs \<Longrightarrow> \<exists>hm. gc_roots h vs = Some (True, hm)"
  by (auto simp: mark_fits_def split: option.splits)

lemma gc_mark_all_append:
  "gc_mark_all h (us @ vs) = do { (ok1, h) \<leftarrow> gc_mark_all h us; (ok2, h) \<leftarrow> gc_mark_all h vs; Some (ok1 \<and> ok2, h) }"
  by (induction us arbitrary: h) (auto split: prod.splits bind_splits)

lemma aux_root_mark [simp]: "aux_root (mark_heap h M) d = aux_root h d"
  by (simp add: aux_root_def mark_heap_def)

lemma aux_root_gc_state_inc [simp]: "aux_root (gc_state_inc h) = aux_root h"
  by (simp add: aux_root_def fun_eq_iff)

lemma gc_mark_aux_all:
  assumes "heap_wf h" and "heap_typed h" and "M \<subseteq> {..<length (heap_cells h)}"
    and "\<And>d. d \<in> set ds \<Longrightarrow> aux_root h d \<Longrightarrow> value_ok h d"
  shows "map_option snd (gc_mark_aux (mark_heap h M) ds) =
    map_option snd (gc_mark_all (mark_heap h M) (filter (aux_root h) ds))"
  using assms(3,4)
proof (induction ds arbitrary: M)
  case (Cons d ds)
  show ?case
  proof (cases "aux_root h d")
    case False
    with Cons show ?thesis by simp
  next
    case True
    then obtain ok M' where 1: "gc_mark_phase (mark_heap h M) d = Some (ok, mark_heap h M')"
        "M' \<subseteq> {..<length (heap_cells h)}"
      using gc_mark_phase_correct [OF assms(1,2) Cons.prems(1), of d] Cons.prems(2) by (auto simp: marks_def)
    with Cons.IH [OF 1(2)] Cons.prems(2) True show ?thesis
      by (auto split: bind_splits prod.splits)
  qed
qed simp

text \<open>
  C10: a mark phase started on a heap in which marking is complete for the marked cells returns; if
  it reports success the marked cells are exactly those marked before and those reachable from the
  root, no cell has changed but for its mark, and the count of marked cells is kept. It reports
  success whenever fewer than 1024 cells are unmarked.
\<close>

theorem gc_mark_phase_reach:
  assumes "heap_wf h" and "heap_typed h" and "marks_closed h M" and "value_ok h v"
  shows "\<exists>ok M'. gc_mark_phase (mark_heap h M) v = Some (ok, mark_heap h M') \<and> M \<subseteq> M' \<and>
    (ok \<longrightarrow> M' = M \<union> reach h {v} \<and> marks_closed h M') \<and> (length (heap_cells h) - card M \<le> 1023 \<longrightarrow> ok)"
proof -
  have "M \<subseteq> {..<length (heap_cells h)}" using assms(3) by (simp add: marks_closed_def)
  then obtain ok M' where 1: "gc_mark_phase (mark_heap h M) v = Some (ok, mark_heap h M')" "marks h M {v} ok M'"
      "length (heap_cells h) - card M \<le> 1023 \<longrightarrow> ok"
    using gc_mark_phase_correct [OF assms(1,2) _ assms(4)] by blast
  then show ?thesis using marks_reach [OF assms(2,3), of "{v}" M'] assms(4) by (auto simp: marks_def)
qed

text \<open>
  C9: a collection of a typed heap whose marking fits the mark stack keeps exactly the cells reachable
  from the five root values and from the auxiliary words that look like pointers, with their
  contents; all other cells are on the free list, the blocks of unreachable arrays and only those
  are free, and the heap and memory invariants hold again.
\<close>

theorem heap_perform_gc_aux_correct:
  assumes "heap_wf h" and "heap_typed h" and "memory_wf m" and "arrays_at h m pos len"
    and "\<forall>v \<in> {env, env2, exp, exp2, exp3}. value_ok h v"
    and "\<forall>d \<in> set aux. aux_root h d \<longrightarrow> value_ok h d"
    and "mark_fits h ([exp, exp2, exp3, env, env2] @ filter (aux_root h) aux)"
  shows "\<exists>h' m'. heap_perform_gc_aux h m env env2 exp exp2 exp3 aux = Some (True, h', m') \<and>
    collected h m pos len ({env, env2, exp, exp2, exp3} \<union> set (filter (aux_root h) aux)) h' m'"
proof -
  let ?h = "gc_state_inc h" and ?fix = "[exp, exp2, exp3, env, env2]" and ?aux = "filter (aux_root h) aux"
  have ok: "\<And>v. v \<in> set (?fix @ ?aux) \<Longrightarrow> value_ok h v" using assms(5,6) by auto
  obtain hm where hm: "gc_roots h (?fix @ ?aux) = Some (True, hm)" using mark_fitsD [OF assms(7)] by blast
  from gc_collects [OF assms(1-4) _ hm] ok
  obtain h' m' where 1: "gc_sweep_phase hm m = Some (True, h', m')" "collected h m pos len (set (?fix @ ?aux)) h' m'"
    by blast
  have wf: "heap_wf ?h" "heap_typed ?h" using assms by simp_all
  have fl: "gc_mark_freelist ?h = Some (True, mark_heap ?h (set (free_cells ?h)))"
    using wf(1) by (intro gc_mark_freelist_correct) (simp_all add: gc_state_inc_def)
  obtain ok1 M1 where M1: "gc_mark_all (mark_heap ?h (set (free_cells ?h))) ?fix = Some (ok1, mark_heap ?h M1)"
      "M1 \<subseteq> {..<length (heap_cells ?h)}"
    using gc_mark_all_correct [OF wf marks_closed_free [OF wf(1)], of ?fix] ok by auto
  have "map_option snd (gc_mark_aux (mark_heap ?h M1) aux) = map_option snd (gc_mark_all (mark_heap ?h M1) ?aux)"
    using gc_mark_aux_all [OF wf M1(2), of aux] assms(6) by simp
  moreover have "\<exists>b. gc_mark_all (mark_heap ?h M1) ?aux = Some (b, hm)"
    using hm fl M1(1) by (simp only: gc_roots_def gc_mark_all_append) (auto simp: bind_eq_Some_conv)
  ultimately obtain b where aux: "gc_mark_aux (mark_heap ?h M1) aux = Some (b, hm)" by force
  have "heap_perform_gc_aux h m env env2 exp exp2 exp3 aux = gc_sweep_phase hm m"
    using fl M1(1) aux by (auto simp: heap_perform_gc_aux_def bind_eq_Some_conv)
  moreover have "set (?fix @ ?aux) = {env, env2, exp, exp2, exp3} \<union> set ?aux" by auto
  ultimately show ?thesis using 1 by (simp only:) blast
qed

text \<open>The same for \<open>heap_perform_gc\<close>, whose only root is the environment.\<close>

theorem heap_perform_gc_correct:
  assumes "heap_wf h" and "heap_typed h" and "memory_wf m" and "arrays_at h m pos len"
    and "value_ok h env" and "mark_fits h [env]"
  shows "\<exists>h' m'. heap_perform_gc h m env = Some (True, h', m') \<and> collected h m pos len {env} h' m'"
proof -
  obtain hm where hm: "gc_roots h [env] = Some (True, hm)" using mark_fitsD [OF assms(6)] by blast
  from gc_collects [OF assms(1-4) _ this] assms(5)
  obtain h' m' where 1: "gc_sweep_phase hm m = Some (True, h', m')" "collected h m pos len {env} h' m'" by auto
  have "heap_perform_gc h m env = gc_sweep_phase hm m"
    using hm by (auto simp: heap_perform_gc_def gc_roots_def bind_eq_Some_conv)
  with 1 show ?thesis by auto
qed

subsection \<open>A concrete collection\<close>

lemma demo_heap_typed: "heap_typed demo_heap"
  by code_simp

lemma demo_heap_no_arrays: "\<not> array_cell demo_heap i"
proof
  assume "array_cell demo_heap i"
  then have "i < length (heap_cells demo_heap)" "array_cell demo_heap i" by (auto simp: array_cell_def live_cell_def)
  moreover have "list_all (\<lambda>i. \<not> array_cell demo_heap i) [0..<length (heap_cells demo_heap)]" by code_simp
  ultimately show False by (auto simp: list_all_iff)
qed

lemma demo_heap_root: "value_ok demo_heap (enc_cons_ptr 0)" "value_ok demo_heap (enc_cons_ptr 1)"
    "unat (hs_num_alloc demo_heap) \<le> 1023"
  by code_simp+

theorem gc_mark_phase_reach_witness:
  "\<exists>ok M'. gc_mark_phase (mark_heap demo_heap {2..9}) (enc_cons_ptr 1) = Some (ok, mark_heap demo_heap M') \<and>
    {2..9} \<subseteq> M' \<and> (ok \<longrightarrow> M' = {2..9} \<union> reach demo_heap {enc_cons_ptr 1} \<and> marks_closed demo_heap M') \<and>
    (length (heap_cells demo_heap) - card {2..9 :: nat} \<le> 1023 \<longrightarrow> ok)"
proof -
  have "set (free_cells demo_heap) = {2..9}" by (auto simp: demo_heap_free)
  then show ?thesis
    using gc_mark_phase_reach [OF demo_heap_wf demo_heap_typed marks_closed_free [OF demo_heap_wf] demo_heap_root(2)]
    by simp
qed

lemma demo_arrays: "arrays_at demo_heap demo_memory (\<lambda>i. 0) (\<lambda>i. 0)"
  by (simp add: arrays_at_def demo_heap_no_arrays)

theorem heap_perform_gc_aux_correct_witness:
  "\<exists>h' m'. heap_perform_gc_aux demo_heap demo_memory (enc_cons_ptr 0) NIL NIL NIL NIL [] = Some (True, h', m') \<and>
    collected demo_heap demo_memory (\<lambda>i. 0) (\<lambda>i. 0)
      ({enc_cons_ptr 0, NIL, NIL, NIL, NIL} \<union> set (filter (aux_root demo_heap) [])) h' m'"
proof (rule heap_perform_gc_aux_correct [OF demo_heap_wf demo_heap_typed demo_memory_wf demo_arrays])
  have nil: "value_ok demo_heap NIL" by (simp add: value_ok_def)
  then show "\<forall>v \<in> {enc_cons_ptr 0, NIL, NIL, NIL, NIL}. value_ok demo_heap v" using demo_heap_root by simp
  show "mark_fits demo_heap ([NIL, NIL, NIL, enc_cons_ptr 0, NIL] @ filter (aux_root demo_heap) [])"
    using nil demo_heap_root by (intro mark_fits_small [OF demo_heap_wf demo_heap_typed]) auto
qed simp

theorem heap_perform_gc_correct_witness:
  "\<exists>h' m'. heap_perform_gc demo_heap demo_memory (enc_cons_ptr 0) = Some (True, h', m') \<and>
    collected demo_heap demo_memory (\<lambda>i. 0) (\<lambda>i. 0) {enc_cons_ptr 0} h' m'"
proof (rule heap_perform_gc_correct [OF demo_heap_wf demo_heap_typed demo_memory_wf demo_arrays demo_heap_root(1)])
  show "mark_fits demo_heap [enc_cons_ptr 0]"
    using demo_heap_root by (intro mark_fits_small [OF demo_heap_wf demo_heap_typed]) auto
qed

end
