(* ===== verification/Env.thy ===== *)
theory Env
  imports Heap_Lists
begin

text \<open>
  Environments, \<open>src/env.c\<close>: association lists of key-value pairs on the cons-cell heap. The global
  environment is a word of the state of the evaluators; here are the operations on any environment.
\<close>

subsection \<open>Operations\<close>

definition env_init :: "bool \<times> VALUE" where
  "env_init = (True, enc_sym DEF_REPR_NIL)"

partial_function (option) env_copy_loop :: "heap_state \<Rightarrow> VALUE \<Rightarrow> VALUE \<Rightarrow> (VALUE \<times> heap_state) option" where
  "env_copy_loop h cur res =
     (if type_of cur = PTR_TYPE_CONS then
        Option.bind (car h cur) (\<lambda>entry.
        Option.bind (car h entry) (\<lambda>key.
          if dec_sym key \<noteq> DEF_REPR_NIL then
            Option.bind (cons h entry res) (\<lambda>(res, h).
              if type_of res = VAL_TYPE_SYMBOL \<and> dec_sym res = DEF_REPR_MERROR then Some (res, h)
              else Option.bind (cdr h cur) (\<lambda>cur. env_copy_loop h cur res))
          else Option.bind (cdr h cur) (\<lambda>cur. env_copy_loop h cur res)))
      else Some (res, h))"

definition env_copy_shallow :: "heap_state \<Rightarrow> VALUE \<Rightarrow> (VALUE \<times> heap_state) option" where
  "env_copy_shallow h env = env_copy_loop h env (enc_sym DEF_REPR_NIL)"

partial_function (option) env_lookup_loop :: "heap_state \<Rightarrow> VALUE \<Rightarrow> VALUE \<Rightarrow> VALUE option" where
  "env_lookup_loop h symb cur =
     (if type_of cur = PTR_TYPE_CONS then
        Option.bind (car h cur) (\<lambda>entry.
        Option.bind (car h entry) (\<lambda>key.
          if key = symb then cdr h entry
          else Option.bind (cdr h cur) (env_lookup_loop h symb)))
      else Some (enc_sym DEF_REPR_NOT_FOUND))"

definition env_lookup :: "heap_state \<Rightarrow> VALUE \<Rightarrow> VALUE \<Rightarrow> VALUE option" where
  "env_lookup h symb env =
     (if dec_sym symb = DEF_REPR_NIL then Some symb else env_lookup_loop h symb env)"

text \<open>
  The search loop that \<open>env_set\<close> and \<open>env_modify_binding\<close> share: the heap after the update, or
  \<open>None\<close> inside when no entry has the key.
\<close>

partial_function (option) env_update_loop ::
  "heap_state \<Rightarrow> VALUE \<Rightarrow> VALUE \<Rightarrow> VALUE \<Rightarrow> heap_state option option" where
  "env_update_loop h cur key val =
     (if type_of cur = PTR_TYPE_CONS then
        Option.bind (car h cur) (\<lambda>entry.
        Option.bind (car h entry) (\<lambda>k.
          if k = key then map_option Some (set_cdr h entry val)
          else Option.bind (cdr h cur) (\<lambda>cur. env_update_loop h cur key val)))
      else Some None)"

definition env_set :: "heap_state \<Rightarrow> VALUE \<Rightarrow> VALUE \<Rightarrow> VALUE \<Rightarrow> (VALUE \<times> heap_state) option" where
  "env_set h env key val = do {
     r \<leftarrow> env_update_loop h env key val;
     case r of
       Some h \<Rightarrow> Some (env, h)
     | None \<Rightarrow> do {
         (keyval, h) \<leftarrow> cons h key val;
         if type_of keyval = VAL_TYPE_SYMBOL then Some (keyval, h)
         else do {
           (new_env, h) \<leftarrow> cons h keyval env;
           if type_of new_env = VAL_TYPE_SYMBOL then Some (keyval, h)
           else Some (new_env, h)
         }
       }
   }"

definition env_modify_binding :: "heap_state \<Rightarrow> VALUE \<Rightarrow> VALUE \<Rightarrow> VALUE \<Rightarrow> (VALUE \<times> heap_state) option" where
  "env_modify_binding h env key val = do {
     r \<leftarrow> env_update_loop h env key val;
     case r of
       Some h \<Rightarrow> Some (env, h)
     | None \<Rightarrow> Some (enc_sym DEF_REPR_NOT_FOUND, h)
   }"

partial_function (option) env_params_loop ::
  "heap_state \<Rightarrow> VALUE \<Rightarrow> VALUE \<Rightarrow> VALUE \<Rightarrow> (VALUE \<times> heap_state) option" where
  "env_params_loop h curr_param curr_arg env =
     (if type_of curr_param = PTR_TYPE_CONS then
        Option.bind (car h curr_param) (\<lambda>p.
        Option.bind (car h curr_arg) (\<lambda>a.
        Option.bind (cons h p a) (\<lambda>(entry, h).
          if type_of entry = VAL_TYPE_SYMBOL \<and> dec_sym entry = DEF_REPR_MERROR
          then Some (enc_sym DEF_REPR_MERROR, h)
          else Option.bind (cons h entry env) (\<lambda>(env, h).
            if type_of env = VAL_TYPE_SYMBOL \<and> dec_sym env = DEF_REPR_MERROR
            then Some (enc_sym DEF_REPR_MERROR, h)
            else Option.bind (cdr h curr_param) (\<lambda>curr_param.
                 Option.bind (cdr h curr_arg) (\<lambda>curr_arg.
                   env_params_loop h curr_param curr_arg env))))))
      else Some (env, h))"

definition env_build_params_args ::
  "heap_state \<Rightarrow> VALUE \<Rightarrow> VALUE \<Rightarrow> VALUE \<Rightarrow> (VALUE \<times> heap_state) option" where
  "env_build_params_args h params args env0 = do {
     np \<leftarrow> length_list h params;
     na \<leftarrow> length_list h args;
     if np \<noteq> na then Some (enc_sym DEF_REPR_FATAL_ERROR, h)
     else env_params_loop h params args env0
   }"

end
