(* ===== verification/Env_Correct.thy ===== *)
theory Env_Correct
  imports Env "HOL-Library.AList"
begin

text \<open>
  Environments as association lists. \<open>env_at h v kvs S\<close>: the value \<open>v\<close> is an environment with the
  bindings \<open>kvs\<close>, first match first, whose spine and entries are the distinct live cells \<open>S\<close>. The locale
  \<open>bindings\<close> states the contract of lookup and update; it is interpreted on \<open>env.c\<close>.
\<close>

subsection \<open>The contract of a store of bindings\<close>

locale bindings =
  fixes lookup :: "'s \<Rightarrow> 'k \<Rightarrow> 'e \<Rightarrow> 'v option"
    and set_binding :: "'s \<Rightarrow> 'e \<Rightarrow> 'k \<Rightarrow> 'v \<Rightarrow> ('e \<times> 's) option"
    and env :: "'s \<Rightarrow> 'e \<Rightarrow> ('k \<times> 'v) list \<Rightarrow> bool"
    and room :: "'s \<Rightarrow> nat"
    and key_ok :: "'k \<Rightarrow> bool"
    and val_ok :: "'v \<Rightarrow> bool"
    and not_found :: 'v
  assumes lookup_law: "env s e kvs \<Longrightarrow> key_ok k \<Longrightarrow>
      lookup s k e = Some (case map_of kvs k of None \<Rightarrow> not_found | Some v \<Rightarrow> v)"
    and set_law: "env s e kvs \<Longrightarrow> val_ok v \<Longrightarrow> 2 \<le> room s \<Longrightarrow>
      \<exists>e' s' kvs'. set_binding s e k v = Some (e', s') \<and> env s' e' kvs' \<and> map_of kvs' = (map_of kvs)(k \<mapsto> v) \<and>
        room s \<le> room s' + 2"
begin

lemma lookup_after_set:
  assumes "env s e kvs" and "val_ok v" and "2 \<le> room s" and "key_ok k" and "key_ok k'"
  shows "\<exists>e' s'. set_binding s e k v = Some (e', s') \<and> lookup s' k e' = Some v \<and>
    (k' \<noteq> k \<longrightarrow> lookup s' k' e' = lookup s k' e)"
proof -
  obtain e' s' kvs' where s': "set_binding s e k v = Some (e', s')" "env s' e' kvs'"
      "map_of kvs' = (map_of kvs)(k \<mapsto> v)"
    using set_law [OF assms(1-3), of k] by blast
  then show ?thesis
    using lookup_law [OF s'(2) assms(4)] lookup_law [OF s'(2) assms(5)] lookup_law [OF assms(1,5)] by simp
qed

lemma set_twice:
  assumes "env s e kvs" and "val_ok v" and "val_ok w" and "4 \<le> room s" and "key_ok k"
  shows "\<exists>e1 s1 e2 s2. set_binding s e k v = Some (e1, s1) \<and> set_binding s1 e1 k w = Some (e2, s2) \<and>
    lookup s2 k e2 = Some w"
proof -
  obtain e1 s1 kvs1 where 1: "set_binding s e k v = Some (e1, s1)" "env s1 e1 kvs1" "room s \<le> room s1 + 2"
    using set_law [OF assms(1,2), of k] assms(4) by auto
  then have "2 \<le> room s1" using assms(4) by simp
  from lookup_after_set [OF 1(2) assms(3) this assms(5,5)] 1(1) show ?thesis by blast
qed

end

subsection \<open>Environments on the heap\<close>

primrec env_at :: "heap_state \<Rightarrow> VALUE \<Rightarrow> (VALUE \<times> VALUE) list \<Rightarrow> nat set \<Rightarrow> bool" where
  "env_at h v [] S \<longleftrightarrow> v = NIL \<and> S = {}"
| "env_at h v (kv # kvs) S \<longleftrightarrow>
     type_of v = PTR_TYPE_CONS \<and> \<not> val_get_gc_mark v \<and> live h v \<and>
     (\<exists>e w S'. car h v = Some e \<and> cdr h v = Some w \<and> type_of e = PTR_TYPE_CONS \<and> live h e \<and>
        car h e = Some (fst kv) \<and> cdr h e = Some (snd kv) \<and> env_at h w kvs S' \<and>
        S = insert (ref_cell v) (insert (ref_cell e) S') \<and> ref_cell v \<noteq> ref_cell e \<and>
        ref_cell v \<notin> S' \<and> ref_cell e \<notin> S')"

lemma env_at_mark: "env_at h v kvs S \<Longrightarrow> \<not> val_get_gc_mark v"
  by (cases kvs) auto

lemma env_at_live: "env_at h v kvs S \<Longrightarrow> i \<in> S \<Longrightarrow> live_cell h i"
  by (induction kvs arbitrary: v S) (auto simp: live_def)

lemma car_cdr_same_cell:
  "is_ptr q \<Longrightarrow> get_cell h' (ref_cell q) = get_cell h (ref_cell q) \<Longrightarrow> car h' q = car h q \<and> cdr h' q = cdr h q"
  by (auto simp: car_def cdr_def)

lemma env_at_frame:
  "env_at h v kvs S \<Longrightarrow> (\<And>i. i \<in> S \<Longrightarrow> live_cell h' i \<and> get_cell h' i = get_cell h i) \<Longrightarrow> env_at h' v kvs S"
proof (induction kvs arbitrary: v S)
  case (Cons kv kvs)
  then obtain e w S' where *: "type_of v = PTR_TYPE_CONS" "\<not> val_get_gc_mark v" "live h v"
      "car h v = Some e" "cdr h v = Some w" "type_of e = PTR_TYPE_CONS" "live h e"
      "car h e = Some (fst kv)" "cdr h e = Some (snd kv)" "env_at h w kvs S'"
      "S = insert (ref_cell v) (insert (ref_cell e) S')" "ref_cell v \<noteq> ref_cell e"
      "ref_cell v \<notin> S'" "ref_cell e \<notin> S'" by auto
  have "env_at h' w kvs S'" using Cons.IH [OF *(10)] Cons.prems(2) *(11) by blast
  moreover have "live h' v" "live h' e" using Cons.prems(2) *(3,7,11) by (auto simp: live_def)
  moreover have "car h' v = car h v \<and> cdr h' v = cdr h v" "car h' e = car h e \<and> cdr h' e = cdr h e"
    using Cons.prems(2) *(1,6,11) by (auto intro!: car_cdr_same_cell)
  ultimately show ?case using * by auto
qed simp

lemma env_at_ext: "env_at h v kvs S \<Longrightarrow> heap_ext h h' \<Longrightarrow> env_at h' v kvs S"
  by (rule env_at_frame) (auto simp: heap_ext_def dest: env_at_live)

subsection \<open>Lookup\<close>

lemma env_lookup_loop_env:
  "env_at h v kvs S \<Longrightarrow>
     env_lookup_loop h k v = Some (case map_of kvs k of None \<Rightarrow> enc_sym DEF_REPR_NOT_FOUND | Some x \<Rightarrow> x)"
proof (induction kvs arbitrary: v S)
  case Nil
  then show ?case by (subst env_lookup_loop.simps) simp
next
  case (Cons kv kvs)
  then show ?case by (subst env_lookup_loop.simps) (cases kv, auto)
qed

lemma env_lookup_env:
  "env_at h v kvs S \<Longrightarrow> dec_sym k \<noteq> DEF_REPR_NIL \<Longrightarrow>
     env_lookup h k v = Some (case map_of kvs k of None \<Rightarrow> enc_sym DEF_REPR_NOT_FOUND | Some x \<Rightarrow> x)"
  by (simp add: env_lookup_def env_lookup_loop_env)

subsection \<open>Update in place\<close>

lemma env_update_loop_missing:
  "env_at h v kvs S \<Longrightarrow> map_of kvs k = None \<Longrightarrow> env_update_loop h v k x = Some None"
proof (induction kvs arbitrary: v S)
  case Nil
  then show ?case by (subst env_update_loop.simps) simp
next
  case (Cons kv kvs)
  then show ?case by (subst env_update_loop.simps) (cases kv, auto split: if_splits)
qed

lemma env_update_loop_found:
  assumes "heap_wf h" and "\<not> val_get_gc_mark x"
  shows "env_at h v kvs S \<Longrightarrow> map_of kvs k \<noteq> None \<Longrightarrow>
    \<exists>h'. env_update_loop h v k x = Some (Some h') \<and> heap_wf h' \<and> free_cells h' = free_cells h \<and>
      env_at h' v (AList.update k x kvs) S \<and>
      (\<forall>j. live_cell h' j \<longleftrightarrow> live_cell h j) \<and> (\<forall>j. j \<notin> S \<longrightarrow> get_cell h' j = get_cell h j) \<and>
      get_cell h' (ref_cell v) = get_cell h (ref_cell v)"
proof (induction kvs arbitrary: v S)
  case (Cons kv kvs)
  then obtain e w S' where *: "type_of v = PTR_TYPE_CONS" "\<not> val_get_gc_mark v" "live h v"
      "car h v = Some e" "cdr h v = Some w" "type_of e = PTR_TYPE_CONS" "live h e"
      "car h e = Some (fst kv)" "cdr h e = Some (snd kv)" "env_at h w kvs S'"
      "S = insert (ref_cell v) (insert (ref_cell e) S')" "ref_cell v \<noteq> ref_cell e"
      "ref_cell v \<notin> S'" "ref_cell e \<notin> S'" by auto
  have ptr: "is_ptr v" "is_ptr e" using *(1,6) by auto
  show ?case
  proof (cases "fst kv = k")
    case True
    obtain h' where h': "set_cdr h e x = Some h'" "heap_wf h'" "free_cells h' = free_cells h"
        "\<And>j. get_cell h' j = (if j = ref_cell e then map_option (set_cdr_cell x) (get_cell h j) else get_cell h j)"
        "\<And>j. live_cell h' j \<longleftrightarrow> live_cell h j"
      using set_cdr_live [OF assms(1) *(7,6) assms(2)] by blast
    have "get_cell h (ref_cell e) \<noteq> None" using get_cell_wf [OF assms(1)] *(7) by (simp add: live_def)
    then have e': "car h' e = Some (fst kv)" "cdr h' e = Some x"
      using *(6,8) h'(4) ptr by (auto simp: car_def cdr_def cell_defs)
    have v': "car h' v = Some e" "cdr h' v = Some w"
      using car_cdr_same_cell [OF ptr(1), of h' h] h'(4) *(4,5,12) by simp_all
    have "env_at h' w kvs S'"
      using *(10) h'(4,5) *(14) env_at_live [OF *(10)] by (auto intro: env_at_frame)
    moreover have "live h' v" "live h' e" using h'(5) *(3,7) by (simp_all add: live_def)
    ultimately have "env_at h' v ((k, x) # kvs) S" using * e' v' True by auto
    moreover have "env_update_loop h v k x = Some (Some h')"
      using *(1,4,8) True h'(1) by (subst env_update_loop.simps) simp
    ultimately show ?thesis using h' True *(11,12) by (cases kv) auto
  next
    case False
    with Cons.prems(2) have "map_of kvs k \<noteq> None" by (cases kv) auto
    from Cons.IH [OF *(10) this] obtain h' where h': "env_update_loop h w k x = Some (Some h')" "heap_wf h'"
        "free_cells h' = free_cells h" "env_at h' w (AList.update k x kvs) S'"
        "\<forall>j. live_cell h' j \<longleftrightarrow> live_cell h j" "\<forall>j. j \<notin> S' \<longrightarrow> get_cell h' j = get_cell h j" by blast
    have "get_cell h' (ref_cell v) = get_cell h (ref_cell v)" "get_cell h' (ref_cell e) = get_cell h (ref_cell e)"
      using h'(6) *(13,14) by blast+
    note car_cdr_same_cell [OF ptr(1) this(1)] car_cdr_same_cell [OF ptr(2) this(2)]
    moreover have "live h' v" "live h' e" using h'(5) *(3,7) by (simp_all add: live_def)
    ultimately have "env_at h' v (kv # AList.update k x kvs) S"
      using *(1,2,4,5,6,8,9,11-14) h'(4) by simp blast
    moreover have "env_update_loop h v k x = Some (Some h')"
      using *(1,4,5,8) False h'(1) by (subst env_update_loop.simps) simp
    ultimately show ?thesis using h' False *(11,13) by (cases kv) auto
  qed
qed simp

subsection \<open>Adding a binding\<close>

lemma env_extend:
  assumes "heap_wf h" and "2 \<le> room h" and "env_at h v kvs S" and "\<not> val_get_gc_mark x"
  shows "\<exists>p q h1 h2. cons h k x = Some (p, h1) \<and> type_of p = PTR_TYPE_CONS \<and> cons h1 p v = Some (q, h2) \<and>
    type_of q = PTR_TYPE_CONS \<and> heap_wf h2 \<and> heap_ext h h2 \<and> room h = room h2 + 2 \<and>
    (\<exists>S'. env_at h2 q ((k, x) # kvs) S' \<and> S \<subseteq> S')"
proof -
  have r0: "0 < room h" using assms(2) by linarith
  then obtain p h1 where p: "cons h k x = Some (p, h1)" "heap_wf h1" "heap_ext h h1" "room h = Suc (room h1)"
      "type_of p = PTR_TYPE_CONS" "\<not> val_get_gc_mark p" "\<not> live h p" "live h1 p"
      "car h1 p = Some k" "cdr h1 p = Some x"
    using store.cons_room [OF assms(1) r0 assms(4), of k] by blast
  have r1: "0 < room h1" using assms(2) p(4) by linarith
  have v1: "env_at h1 v kvs S" by (rule env_at_ext [OF assms(3) p(3)])
  obtain q h2 where q: "cons h1 p v = Some (q, h2)" "heap_wf h2" "heap_ext h1 h2" "room h1 = Suc (room h2)"
      "type_of q = PTR_TYPE_CONS" "\<not> val_get_gc_mark q" "\<not> live h1 q" "live h2 q"
      "car h2 q = Some p" "cdr h2 q = Some v"
    using store.cons_room [OF p(2) r1 env_at_mark [OF v1], of p] by blast
  have ptr: "is_ptr p" "is_ptr q" using p(5) q(5) by auto
  have pp: "live h2 p" "car h2 p = Some k" "cdr h2 p = Some x" using store.ext_cell [OF q(3) p(8)] p(9,10) by auto
  have "ref_cell q \<notin> S" using q(7) env_at_live [OF v1] ptr by (auto simp: live_def)
  moreover have "ref_cell p \<notin> S" using p(7) env_at_live [OF assms(3)] ptr by (auto simp: live_def)
  moreover have "ref_cell q \<noteq> ref_cell p" using q(7) p(8) ptr by (auto simp: live_def)
  ultimately have "env_at h2 q ((k, x) # kvs) (insert (ref_cell q) (insert (ref_cell p) S))"
    using q(5,6,8,9,10) p(5) pp env_at_ext [OF v1 q(3)] by simp blast
  moreover have "heap_ext h h2" by (rule heap_ext_trans [OF p(3) q(3)])
  moreover have "room h = room h2 + 2" using p(4) q(4) by linarith
  ultimately show ?thesis using p(1,5) q(1,2,5) by blast
qed


lemma env_set_new:
  assumes "heap_wf h" and "2 \<le> room h" and "env_at h v kvs S" and "\<not> val_get_gc_mark x" and "map_of kvs k = None"
  shows "\<exists>q h'. env_set h v k x = Some (q, h') \<and> heap_wf h' \<and> heap_ext h h' \<and> room h = room h' + 2 \<and>
    (\<exists>S'. env_at h' q ((k, x) # kvs) S')"
  using env_extend [OF assms(1-4), of k] env_update_loop_missing [OF assms(3,5), of x]
  by (auto simp: env_set_def)

lemma env_set_law:
  assumes "heap_wf h" and "2 \<le> room h" and "env_at h v kvs S" and "\<not> val_get_gc_mark x"
  shows "\<exists>q h' kvs'. env_set h v k x = Some (q, h') \<and> heap_wf h' \<and> (\<exists>S'. env_at h' q kvs' S') \<and>
    map_of kvs' = (map_of kvs)(k \<mapsto> x) \<and> room h \<le> room h' + 2"
proof (cases "map_of kvs k")
  case None
  obtain q h' S' where "env_set h v k x = Some (q, h')" "heap_wf h'" "room h = room h' + 2"
      "env_at h' q ((k, x) # kvs) S'"
    using env_set_new [OF assms None] by blast
  then show ?thesis by (intro exI [of _ q] exI [of _ h'] exI [of _ "(k, x) # kvs"]) (simp, blast)
next
  case (Some y)
  then obtain h' where h': "env_update_loop h v k x = Some (Some h')" "heap_wf h'" "free_cells h' = free_cells h"
      "env_at h' v (AList.update k x kvs) S"
    using env_update_loop_found [OF assms(1,4,3), of k] by auto
  then show ?thesis
    by (intro exI [of _ v] exI [of _ h'] exI [of _ "AList.update k x kvs"])
      (auto simp: env_set_def update_conv')
qed

interpretation env: bindings env_lookup env_set "\<lambda>h v kvs. heap_wf h \<and> (\<exists>S. env_at h v kvs S)" room
  "\<lambda>k. dec_sym k \<noteq> DEF_REPR_NIL" "\<lambda>x. \<not> val_get_gc_mark x" "enc_sym DEF_REPR_NOT_FOUND"
proof
  fix h v kvs k
  assume "heap_wf h \<and> (\<exists>S. env_at h v kvs S)" "dec_sym k \<noteq> DEF_REPR_NIL"
  then show "env_lookup h k v = Some (case map_of kvs k of None \<Rightarrow> enc_sym DEF_REPR_NOT_FOUND | Some x \<Rightarrow> x)"
    using env_lookup_env by blast
next
  fix h v kvs x k
  assume "heap_wf h \<and> (\<exists>S. env_at h v kvs S)" "\<not> val_get_gc_mark x" "2 \<le> room h"
  then show "\<exists>e' s' kvs'. env_set h v k x = Some (e', s') \<and> (heap_wf s' \<and> (\<exists>S. env_at s' e' kvs' S)) \<and>
      map_of kvs' = (map_of kvs)(k \<mapsto> x) \<and> room h \<le> room s' + 2"
    using env_set_law by blast
qed

subsection \<open>Parameters\<close>

lemma env_params_loop_env:
  assumes "heap_wf h" and "lisp_list h ps pl" and "lisp_list h as al" and "length pl = length al"
    and "2 * length pl \<le> room h" and "env_at h v kvs S" and "\<forall>a \<in> set al. \<not> val_get_gc_mark a"
  shows "\<exists>q h'. env_params_loop h ps as v = Some (q, h') \<and> heap_wf h' \<and> heap_ext h h' \<and>
    room h = room h' + 2 * length pl \<and> (\<exists>S'. env_at h' q (rev (zip pl al) @ kvs) S')"
  using assms
proof (induction pl arbitrary: h ps as al v kvs S)
  case Nil
  then show ?case by (subst env_params_loop.simps) auto
next
  case (Cons p pl)
  then obtain a al' where al: "al = a # al'" by (cases al) auto
  from Cons.prems(2,3) al obtain ps' as' where l: "type_of ps = PTR_TYPE_CONS" "live h ps" "car h ps = Some p"
      "cdr h ps = Some ps'" "lisp_list h ps' pl" "live h as" "car h as = Some a" "cdr h as = Some as'"
      "lisp_list h as' al'"
    by (auto split: option.splits)
  have "2 \<le> room h" "\<not> val_get_gc_mark a" using Cons.prems(5,7) al by auto
  then obtain e q h1 h2 S' where e: "cons h p a = Some (e, h1)" "type_of e = PTR_TYPE_CONS" "cons h1 e v = Some (q, h2)"
      "type_of q = PTR_TYPE_CONS" "heap_wf h2" "heap_ext h h2" "room h = room h2 + 2"
      "env_at h2 q ((p, a) # kvs) S'"
    using env_extend [OF Cons.prems(1) _ Cons.prems(6), of a p] by blast
  have "env_params_loop h ps as v = env_params_loop h2 ps' as' q"
    using l e store.ext_cell [OF e(6) l(2)] store.ext_cell [OF e(6) l(6)]
    by (subst env_params_loop.simps) simp
  moreover have "\<exists>q' h'. env_params_loop h2 ps' as' q = Some (q', h') \<and> heap_wf h' \<and> heap_ext h2 h' \<and>
      room h2 = room h' + 2 * length pl \<and> (\<exists>S'. env_at h' q' (rev (zip pl al') @ (p, a) # kvs) S')"
    using Cons.prems(4,5,7) al e(7)
    by (intro Cons.IH [OF e(5) store.list_ext [OF l(5) e(6)] store.list_ext [OF l(9) e(6)] _ _ e(8)]) simp_all
  ultimately show ?case using al e(6,7) by (auto intro: heap_ext_trans)
qed

subsection \<open>Properties\<close>

text \<open>
  C32: what \<open>env_set\<close> binds, \<open>env_lookup\<close> finds, and no other binding changes, whether the key was bound
  before or not; two free cells are enough.
\<close>

theorem env_lookup_after_set:
  assumes "heap_wf h" and "env_at h e kvs S" and "\<not> val_get_gc_mark v" and "2 \<le> room h"
    and "dec_sym k \<noteq> DEF_REPR_NIL" and "dec_sym k' \<noteq> DEF_REPR_NIL"
  shows "\<exists>e' h'. env_set h e k v = Some (e', h') \<and> env_lookup h' k e' = Some v \<and>
    (k' \<noteq> k \<longrightarrow> env_lookup h' k' e' = env_lookup h k' e)"
  using env.lookup_after_set [of h e kvs v k k'] assms by blast

text \<open>
  C34: \<open>env_set\<close> on an environment without the key, with one free cell left, returns the pair of key
  and value: neither an environment nor an error symbol.
\<close>

theorem env_set_second_cons_fails:
  assumes "heap_wf h" and "env_at h e kvs S" and "\<not> val_get_gc_mark v" and "room h = 1" and "map_of kvs k = None"
  shows "\<exists>p h'. env_set h e k v = Some (p, h') \<and> type_of p = PTR_TYPE_CONS \<and> car h' p = Some k \<and> cdr h' p = Some v"
proof -
  obtain p h1 where p: "cons h k v = Some (p, h1)" "heap_wf h1" "room h = Suc (room h1)"
      "type_of p = PTR_TYPE_CONS" "car h1 p = Some k" "cdr h1 p = Some v"
    using store.cons_room [OF assms(1) _ assms(3), of k] assms(4) by auto
  have "cons h1 p e = Some (enc_sym DEF_REPR_MERROR, h1)"
    using store.cons_full [OF p(2)] p(3) assms(4) by simp
  with p show ?thesis using env_update_loop_missing [OF assms(2,5), of v] by (simp add: env_set_def)
qed

text \<open>
  C33: \<open>env_build_params_args\<close> binds the parameters to the arguments, later parameters shadowing earlier
  ones and all of them the environment \<open>env0\<close>; different numbers of parameters and arguments are the
  fatal error.
\<close>

theorem env_build_params_args_correct:
  assumes "heap_wf h" and "lisp_list h ps pl" and "lisp_list h as al" and "length pl < 2 ^ 31"
    and "length al < 2 ^ 31" and "2 * length pl \<le> room h" and "env_at h v kvs S"
    and "\<forall>a \<in> set al. \<not> val_get_gc_mark a"
  shows "if length pl = length al
    then \<exists>q h' S'. env_build_params_args h ps as v = Some (q, h') \<and> heap_wf h' \<and> heap_ext h h' \<and>
      env_at h' q (rev (zip pl al) @ kvs) S'
    else env_build_params_args h ps as v = Some (enc_sym DEF_REPR_FATAL_ERROR, h)"
proof -
  have len: "length_list h ps = Some (of_nat (length pl))" "length_list h as = Some (of_nat (length al))"
    using length_loop_list [OF assms(2), of 0] length_loop_list [OF assms(3), of 0]
    by (simp_all add: length_list_def)
  have "unat (of_nat (length pl) :: UINT) = length pl" "unat (of_nat (length al) :: UINT) = length al"
    using assms(4,5) by (simp_all add: unat_u32_of_nat)
  then have "(of_nat (length pl) :: UINT) = of_nat (length al) \<longleftrightarrow> length pl = length al" by metis
  then show ?thesis
    using len env_params_loop_env [OF assms(1-3) _ assms(6-8)] by (auto simp: env_build_params_args_def)
qed

subsection \<open>Concrete environments\<close>

text \<open>The environment \<open>((a . 5))\<close> in cells 1 and 0, for a symbol \<open>a\<close>, and a number of free cells.\<close>

definition env_heap :: "cell list \<Rightarrow> UINT \<Rightarrow> heap_state" where
  "env_heap rest n = \<lparr>hs_heap = Some (
      [\<lparr>cell_car = enc_sym 4096, cell_cdr = enc_i 5\<rparr>, \<lparr>cell_car = enc_cons_ptr 0, cell_cdr = NIL\<rparr>] @ rest),
    hs_malloced = False, hs_freelist = enc_cons_ptr 2, hs_heap_size = n, hs_heap_bytes = 8 * n,
    hs_num_alloc = 2, hs_num_alloc_arrays = 0, hs_gc_num = 0, hs_gc_marked = 0,
    hs_gc_recovered = 0, hs_gc_recovered_arrays = 0\<rparr>"

definition env_heap1 :: heap_state where
  "env_heap1 = env_heap [\<lparr>cell_car = RECOVERED, cell_cdr = NIL\<rparr>] 3"

definition env_heap2 :: heap_state where
  "env_heap2 = env_heap [\<lparr>cell_car = RECOVERED, cell_cdr = enc_cons_ptr 3\<rparr>, \<lparr>cell_car = RECOVERED, cell_cdr = NIL\<rparr>] 4"

lemma env_heap_inv:
  "heap_inv env_heap1 (heap_cells env_heap1) [2]" "heap_inv env_heap2 (heap_cells env_heap2) [2, 3]"
  by (simp_all add: heap_inv_def heap_cells_def env_heap1_def env_heap2_def env_heap_def cell_defs)

lemmas env_heap1_wf = heap_inv_wf [OF env_heap_inv(1)]
lemmas env_heap2_wf = heap_inv_wf [OF env_heap_inv(2)]

lemma env_heap_cells:
  "live env_heap1 (enc_cons_ptr 1)" "live env_heap1 (enc_cons_ptr 0)"
  "live env_heap2 (enc_cons_ptr 1)" "live env_heap2 (enc_cons_ptr 0)"
  "car env_heap1 (enc_cons_ptr 1) = Some (enc_cons_ptr 0)" "cdr env_heap1 (enc_cons_ptr 1) = Some NIL"
  "car env_heap1 (enc_cons_ptr 0) = Some (enc_sym 4096)" "cdr env_heap1 (enc_cons_ptr 0) = Some (enc_i 5)"
  "car env_heap2 (enc_cons_ptr 1) = Some (enc_cons_ptr 0)" "cdr env_heap2 (enc_cons_ptr 1) = Some NIL"
  "car env_heap2 (enc_cons_ptr 0) = Some (enc_sym 4096)" "cdr env_heap2 (enc_cons_ptr 0) = Some (enc_i 5)"
  by code_simp+

lemma env_heap_ptrs:
  "type_of (enc_cons_ptr 0) = PTR_TYPE_CONS" "type_of (enc_cons_ptr 1) = PTR_TYPE_CONS"
  "ref_cell (enc_cons_ptr 0) = 0" "ref_cell (enc_cons_ptr 1) = 1"
  by code_simp+

lemma env_heap_env:
  "env_at env_heap1 (enc_cons_ptr 1) [(enc_sym 4096, enc_i 5)] {0, 1}"
  "env_at env_heap2 (enc_cons_ptr 1) [(enc_sym 4096, enc_i 5)] {0, 1}"
  by (auto simp: env_heap_cells env_heap_ptrs)

theorem env_lookup_after_set_witness:
  "\<exists>e' h'. env_set env_heap2 (enc_cons_ptr 1) (enc_sym 4097) (enc_i 7) = Some (e', h') \<and>
    env_lookup h' (enc_sym 4097) e' = Some (enc_i 7) \<and>
    (enc_sym 4096 \<noteq> enc_sym 4097 \<longrightarrow>
       env_lookup h' (enc_sym 4096) e' = env_lookup env_heap2 (enc_sym 4096) (enc_cons_ptr 1))"
  by (rule env_lookup_after_set [OF _ env_heap_env(2)]) (simp_all add: env_heap2_wf dec_sym_enc_sym)

theorem env_set_second_cons_fails_witness:
  "\<exists>p h'. env_set env_heap1 (enc_cons_ptr 1) (enc_sym 4097) (enc_i 7) = Some (p, h') \<and>
    type_of p = PTR_TYPE_CONS \<and> car h' p = Some (enc_sym 4097) \<and> cdr h' p = Some (enc_i 7)"
proof (rule env_set_second_cons_fails [OF _ env_heap_env(1)])
  have "enc_sym 4097 \<noteq> enc_sym 4096" by code_simp
  then show "map_of [(enc_sym 4096, enc_i 5)] (enc_sym 4097) = None" by simp
qed (simp_all add: env_heap1_wf)

theorem env_build_params_args_correct_witness:
  "\<exists>q h' S'. env_build_params_args demo_heap (enc_cons_ptr 1) (enc_cons_ptr 1) NIL = Some (q, h') \<and> heap_wf h' \<and>
    heap_ext demo_heap h' \<and> env_at h' q (rev (zip [enc_i 1, enc_i 2] [enc_i 1, enc_i 2]) @ []) S'"
proof -
  have "env_at demo_heap NIL [] {}" by simp
  from env_build_params_args_correct [OF demo_heap_wf demo_heap_list demo_heap_list _ _ _ this]
  show ?thesis by (auto simp: demo_heap_free)
qed

end
