(* ===== verification/Exp_Kind.thy ===== *)
theory Exp_Kind
  imports Heap
begin

text \<open>Classification of expressions, \<open>src/exp_kind.c\<close>.\<close>

datatype exp_kind =
    EXP_KIND_ERROR | EXP_SELF_EVALUATING | EXP_VARIABLE | EXP_QUOTED | EXP_DEFINE | EXP_LAMBDA | EXP_IF
  | EXP_PROGN | EXP_NO_ARGS | EXP_APPLICATION | EXP_LET | EXP_AND | EXP_OR

definition exp_kind_of :: "heap_state \<Rightarrow> VALUE \<Rightarrow> exp_kind option" where
  "exp_kind_of h exp =
     (let t = type_of exp in
      if t = VAL_TYPE_SYMBOL \<and> \<not> is_special exp then Some EXP_VARIABLE
      else if t = VAL_TYPE_SYMBOL \<or> t = PTR_TYPE_BOXED_F \<or> t = PTR_TYPE_BOXED_U \<or>
        t = PTR_TYPE_BOXED_I \<or> t = VAL_TYPE_I \<or> t = VAL_TYPE_U \<or> t = VAL_TYPE_CHAR \<or> t = PTR_TYPE_ARRAY
      then Some EXP_SELF_EVALUATING
      else if t = PTR_TYPE_CONS then do {
        head \<leftarrow> car h exp;
        if type_of head = VAL_TYPE_SYMBOL then
          let sym_id = dec_sym head in
          if sym_id = SYM_AND then Some EXP_AND
          else if sym_id = SYM_OR then Some EXP_OR
          else if sym_id = DEF_REPR_QUOTE then Some EXP_QUOTED
          else if sym_id = DEF_REPR_DEFINE then Some EXP_DEFINE
          else if sym_id = DEF_REPR_PROGN then Some EXP_PROGN
          else if sym_id = DEF_REPR_LAMBDA then Some EXP_LAMBDA
          else if sym_id = DEF_REPR_IF then Some EXP_IF
          else if sym_id = DEF_REPR_LET then Some EXP_LET
          else do {
            rest \<leftarrow> cdr h exp;
            if type_of rest = VAL_TYPE_SYMBOL \<and> dec_sym rest = DEF_REPR_NIL
            then Some EXP_NO_ARGS else Some EXP_APPLICATION
          }
        else Some EXP_APPLICATION
      }
      else Some EXP_KIND_ERROR)"

end
