(* ===== verification/QQ_Expand.thy ===== *)
theory QQ_Expand
  imports Heap_Lists
begin

text \<open>
  Expansion of quasiquoted expressions, \<open>src/qq_expand.c\<close>. The two mutually recursive C functions
  are one function with a flag: \<open>qq_exp True\<close> is \<open>qq_expand_list\<close>, \<open>qq_exp False\<close> is \<open>qq_expand\<close>.
  As in the C code, the results of \<open>cons\<close> are not checked for the out-of-memory symbol.
\<close>

definition gen_cons :: "heap_state \<Rightarrow> VALUE \<Rightarrow> VALUE \<Rightarrow> (VALUE \<times> heap_state) option" where
  "gen_cons h a b = do {
     (c, h) \<leftarrow> cons h b (enc_sym DEF_REPR_NIL);
     (c, h) \<leftarrow> cons h a c;
     cons h (enc_sym SYM_CONS) c
   }"

definition append_exp :: "heap_state \<Rightarrow> VALUE \<Rightarrow> VALUE \<Rightarrow> (VALUE \<times> heap_state) option" where
  "append_exp h front back = do {
     (c, h) \<leftarrow> cons h back (enc_sym DEF_REPR_NIL);
     (c, h) \<leftarrow> cons h front c;
     cons h (enc_sym SYM_APPEND) c
   }"

partial_function (option) qq_exp :: "bool \<Rightarrow> heap_state \<Rightarrow> VALUE \<Rightarrow> (VALUE \<times> heap_state) option" where
  "qq_exp as_list h l =
     (if type_of l = PTR_TYPE_CONS then
        Option.bind (car h l) (\<lambda>car_val.
        Option.bind (cdr h l) (\<lambda>cdr_val.
          if type_of car_val = VAL_TYPE_SYMBOL \<and> dec_sym car_val = DEF_REPR_COMMA then
            Option.bind (car h cdr_val) (\<lambda>x.
              if as_list then
                Option.bind (cons h x (enc_sym DEF_REPR_NIL)) (\<lambda>(c, h). cons h (enc_sym SYM_LIST) c)
              else Some (x, h))
          else if type_of car_val = VAL_TYPE_SYMBOL \<and> dec_sym car_val = DEF_REPR_COMMAAT then
            if as_list then Option.bind (car h cdr_val) (\<lambda>x. Some (x, h))
            else Some (enc_sym DEF_REPR_RERROR, h)
          else
            Option.bind (qq_exp True h car_val) (\<lambda>(expand_car, h).
            Option.bind (qq_exp False h cdr_val) (\<lambda>(expand_cdr, h).
            Option.bind (append_exp h expand_car expand_cdr) (\<lambda>(a, h).
              if as_list then
                Option.bind (cons h a (enc_sym DEF_REPR_NIL)) (\<lambda>(c, h). cons h (enc_sym SYM_LIST) c)
              else Some (a, h))))))
      else if as_list then
        Option.bind (cons h l (enc_sym DEF_REPR_NIL)) (\<lambda>(a_list, h).
        Option.bind (cons h a_list (enc_sym DEF_REPR_NIL)) (\<lambda>(c, h). cons h (enc_sym DEF_REPR_QUOTE) c))
      else
        Option.bind (cons h l (enc_sym DEF_REPR_NIL)) (\<lambda>(c, h). cons h (enc_sym DEF_REPR_QUOTE) c))"

definition qq_expand_list :: "heap_state \<Rightarrow> VALUE \<Rightarrow> (VALUE \<times> heap_state) option" where
  "qq_expand_list h l = qq_exp True h l"

definition qq_expand :: "heap_state \<Rightarrow> VALUE \<Rightarrow> (VALUE \<times> heap_state) option" where
  "qq_expand h qquoted = qq_exp False h qquoted"

end
