(* ===== verification/Symrepr.thy ===== *)
theory Symrepr
  imports Values Memory "HOL-Library.Char_ord"
begin

text \<open>
  The symbol table of \<open>src/symrepr.c\<close>: a constant table of special symbols and a linked list, in the
  word memory, of three-word nodes (name, id, next) with the names as C strings in blocks of
  their own. A C string handed in by the caller is its bytes without the final zero; a pointer into
  the memory is an address.
\<close>

type_synonym cstring = "8 word list"

definition cstr :: "string \<Rightarrow> cstring" where
  "cstr s = map of_char s"

record sym_state =
  ss_symlist :: u32
  ss_next_symbol_id :: UINT

abbreviation (input) "NODE_NAME \<equiv> (0 :: u32)"
abbreviation (input) "NODE_ID \<equiv> (4 :: u32)"
abbreviation (input) "NODE_NEXT \<equiv> (8 :: u32)"

definition special_symbols :: "(string \<times> UINT) list" where
  "special_symbols =
    [(''nil'', DEF_REPR_NIL),
     (''quote'', DEF_REPR_QUOTE),
     (''t'', DEF_REPR_TRUE),
     (''if'', DEF_REPR_IF),
     (''lambda'', DEF_REPR_LAMBDA),
     (''closure'', DEF_REPR_CLOSURE),
     (''let'', DEF_REPR_LET),
     (''define'', DEF_REPR_DEFINE),
     (''progn'', DEF_REPR_PROGN),
     (''comma'', DEF_REPR_COMMA),
     (''splice'', DEF_REPR_COMMAAT),
     (''read_error'', DEF_REPR_RERROR),
     (''type_error'', DEF_REPR_TERROR),
     (''eval_error'', DEF_REPR_EERROR),
     (''out_of_memory'', DEF_REPR_MERROR),
     (''fatal_error'', DEF_REPR_FATAL_ERROR),
     (''division_by_zero'', DEF_REPR_DIVZERO),
     (''sym_array'', DEF_REPR_ARRAY_TYPE),
     (''sym_boxed_i'', DEF_REPR_BOXED_I_TYPE),
     (''sym_boxed_u'', DEF_REPR_BOXED_U_TYPE),
     (''sym_boxed_f'', DEF_REPR_BOXED_F_TYPE),
     (''sym_ref'', DEF_REPR_REF_TYPE),
     (''sym_recovered'', DEF_REPR_RECOVERED),
     (''sym_bytecode'', DEF_REPR_BYTECODE_TYPE),
     (''sym_nonsense'', DEF_REPR_NONSENSE),
     (''variable_not_bound'', DEF_REPR_NOT_FOUND),
     (''type-list'', DEF_REPR_TYPE_LIST),
     (''type-i28'', DEF_REPR_TYPE_I28),
     (''type-u28'', DEF_REPR_TYPE_U28),
     (''type-float'', DEF_REPR_TYPE_FLOAT),
     (''type-i32'', DEF_REPR_TYPE_I32),
     (''type-u32'', DEF_REPR_TYPE_U32),
     (''type-array'', DEF_REPR_TYPE_ARRAY),
     (''type-symbol'', DEF_REPR_TYPE_SYMBOL),
     (''type-char'', DEF_REPR_TYPE_CHAR),
     (''type-ref'', DEF_REPR_TYPE_REF),
     (''+'', SYM_ADD),
     (''-'', SYM_SUB),
     (''*'', SYM_MUL),
     (''/'', SYM_DIV),
     (''mod'', SYM_MOD),
     (''='', SYM_EQ),
     (''<'', SYM_LT),
     (''>'', SYM_GT),
     (''eval'', SYM_EVAL),
     (''and'', SYM_AND),
     (''or'', SYM_OR),
     (''not'', SYM_NOT),
     (''yield'', SYM_YIELD),
     (''wait'', SYM_WAIT),
     (''spawn'', SYM_SPAWN),
     (''num-eq'', SYM_NUMEQ),
     (''car'', SYM_CAR),
     (''cdr'', SYM_CDR),
     (''cons'', SYM_CONS),
     (''list'', SYM_LIST),
     (''append'', SYM_APPEND),
     (''array-read'', SYM_ARRAY_READ),
     (''array-write'', SYM_ARRAY_WRITE),
     (''array-create'', SYM_ARRAY_CREATE),
     (''type-of'', SYM_TYPE_OF),
     (''sym-to-str'', SYM_SYMBOL_TO_STRING),
     (''str-to-sym'', SYM_STRING_TO_SYMBOL),
     (''sym-to-u'', SYM_SYMBOL_TO_UINT),
     (''u-to-sym'', SYM_UINT_TO_SYMBOL),
     (''mk-sym-indirect'', SYM_MK_SYMBOL_INDIRECT),
     (''is-fundamental'', SYM_IS_FUNDAMENTAL)]"

subsection \<open>C strings in the memory\<close>

text \<open>\<open>strcmp(name, str) == 0\<close> for a string in memory: bytes are read up to the first difference.\<close>

primrec strcmp_mem :: "memory_state \<Rightarrow> cstring \<Rightarrow> u32 \<Rightarrow> bool option" where
  "strcmp_mem m [] str = do { b \<leftarrow> mem_read_byte m str; Some (b = 0) }"
| "strcmp_mem m (c # cs) str = do {
     b \<leftarrow> mem_read_byte m str;
     if b = c then strcmp_mem m cs (str + 1) else Some False
   }"

primrec write_bytes :: "memory_state \<Rightarrow> u32 \<Rightarrow> cstring \<Rightarrow> memory_state option" where
  "write_bytes m a [] = Some m"
| "write_bytes m a (c # cs) = do {
     m \<leftarrow> mem_write_byte m a c;
     write_bytes m (a + 1) cs
   }"

definition strcpy :: "memory_state \<Rightarrow> u32 \<Rightarrow> cstring \<Rightarrow> memory_state option" where
  "strcpy m dest src = write_bytes m dest (src @ [0])"

partial_function (option) strlen_loop :: "memory_state \<Rightarrow> u32 \<Rightarrow> u32 \<Rightarrow> u32 option" where
  "strlen_loop m str n =
     Option.bind (mem_read_byte m str) (\<lambda>b.
       if b = 0 then Some n else strlen_loop m (str + 1) (n + 1))"

definition strlen :: "memory_state \<Rightarrow> u32 \<Rightarrow> u32 option" where
  "strlen m str = strlen_loop m str 0"

partial_function (option) read_cstring_loop :: "memory_state \<Rightarrow> u32 \<Rightarrow> cstring \<Rightarrow> cstring option" where
  "read_cstring_loop m str acc =
     Option.bind (mem_read_byte m str) (\<lambda>b.
       if b = 0 then Some (rev acc) else read_cstring_loop m (str + 1) (b # acc))"

definition read_cstring :: "memory_state \<Rightarrow> u32 \<Rightarrow> cstring option" where
  "read_cstring m str = read_cstring_loop m str []"

subsection \<open>Operations\<close>

definition symrepr_init :: bool where
  "symrepr_init = True"

partial_function (option) symrepr_del_loop :: "memory_state \<Rightarrow> u32 \<Rightarrow> memory_state option" where
  "symrepr_del_loop m cur =
     (if cur \<noteq> 0 then
        Option.bind (mem_read m (cur + NODE_NEXT)) (\<lambda>next.
        Option.bind (mem_read m (cur + NODE_NAME)) (\<lambda>name.
        Option.bind (memory_free m name) (\<lambda>(_, m).
        Option.bind (memory_free m cur) (\<lambda>(_, m).
          symrepr_del_loop m next))))
      else Some m)"

definition symrepr_del :: "sym_state \<Rightarrow> memory_state \<Rightarrow> memory_state option" where
  "symrepr_del ss m = symrepr_del_loop m (ss_symlist ss)"

partial_function (option) lookup_name_loop :: "memory_state \<Rightarrow> u32 \<Rightarrow> UINT \<Rightarrow> u32 option" where
  "lookup_name_loop m cur sid =
     (if cur \<noteq> 0 then
        Option.bind (mem_read m (cur + NODE_ID)) (\<lambda>nid.
          if sid = nid then mem_read m (cur + NODE_NAME)
          else Option.bind (mem_read m (cur + NODE_NEXT)) (\<lambda>cur. lookup_name_loop m cur sid))
      else Some 0)"

definition lookup_symrepr_name_memory :: "sym_state \<Rightarrow> memory_state \<Rightarrow> UINT \<Rightarrow> u32 option" where
  "lookup_symrepr_name_memory ss m sid = lookup_name_loop m (ss_symlist ss) sid"

text \<open>A name is a constant of the table, a string in memory, or \<open>NULL\<close> (address 0).\<close>

datatype sym_name = SpecialName string | MemoryName u32

definition symrepr_lookup_name :: "sym_state \<Rightarrow> memory_state \<Rightarrow> UINT \<Rightarrow> sym_name option" where
  "symrepr_lookup_name ss m sid =
     (case (if sid < MAX_SPECIAL_SYMBOLS then find (\<lambda>(name, i). sid = i) special_symbols else None) of
        Some (name, i) \<Rightarrow> Some (SpecialName name)
      | None \<Rightarrow> map_option MemoryName (lookup_symrepr_name_memory ss m sid))"

partial_function (option) symrepr_lookup_loop :: "memory_state \<Rightarrow> cstring \<Rightarrow> u32 \<Rightarrow> UINT option option" where
  "symrepr_lookup_loop m name cur =
     (if cur \<noteq> 0 then
        Option.bind (mem_read m (cur + NODE_NAME)) (\<lambda>str.
        Option.bind (strcmp_mem m name str) (\<lambda>eq.
          if eq then map_option Some (mem_read m (cur + NODE_ID))
          else Option.bind (mem_read m (cur + NODE_NEXT)) (symrepr_lookup_loop m name)))
      else Some None)"

text \<open>The id, or \<open>None\<close> inside when the C function returns 0.\<close>

definition symrepr_lookup :: "sym_state \<Rightarrow> memory_state \<Rightarrow> cstring \<Rightarrow> UINT option option" where
  "symrepr_lookup ss m name =
     (case find (\<lambda>(s, i). name = cstr s) special_symbols of
        Some (s, i) \<Rightarrow> Some (Some i)
      | None \<Rightarrow> symrepr_lookup_loop m name (ss_symlist ss))"

definition symrepr_addsym ::
  "sym_state \<Rightarrow> memory_state \<Rightarrow> cstring \<Rightarrow> (UINT option \<times> sym_state \<times> memory_state) option" where
  "symrepr_addsym ss m name =
     (let n = of_nat (length name) + 1 :: u32 in
      if n = 1 then Some (None, ss, m)
      else do {
        (node, m) \<leftarrow> memory_allocate m 3;
        if node = 0 then Some (None, ss, m)
        else do {
          (storage, m) \<leftarrow> (if n mod 4 = 0 then memory_allocate m n else memory_allocate m n);
          if storage = 0 then do {
            (_, m) \<leftarrow> memory_free m node;
            Some (None, ss, m)
          } else do {
            m \<leftarrow> strcpy m storage name;
            m \<leftarrow> mem_write m (node + NODE_NAME) storage;
            m \<leftarrow> mem_write m (node + NODE_NEXT) (if ss_symlist ss = 0 then 0 else ss_symlist ss);
            let ss = ss\<lparr>ss_symlist := node\<rparr>;
            let sid = MAX_SPECIAL_SYMBOLS + ss_next_symbol_id ss;
            let ss = ss\<lparr>ss_next_symbol_id := ss_next_symbol_id ss + 1\<rparr>;
            m \<leftarrow> mem_write m (node + NODE_ID) sid;
            Some (Some sid, ss, m)
          }
        }
      })"

partial_function (option) symrepr_size_loop :: "memory_state \<Rightarrow> u32 \<Rightarrow> u32 \<Rightarrow> u32 option" where
  "symrepr_size_loop m cur n =
     (if cur \<noteq> 0 then
        Option.bind (mem_read m (cur + NODE_NAME)) (\<lambda>str.
        Option.bind (strlen m str) (\<lambda>s.
        Option.bind (mem_read m (cur + NODE_NEXT)) (\<lambda>next.
          symrepr_size_loop m next (n + (s + 1) mod 4 + 12))))
      else Some n)"

definition symrepr_size :: "sym_state \<Rightarrow> memory_state \<Rightarrow> u32 option" where
  "symrepr_size ss m = symrepr_size_loop m (ss_symlist ss) 0"

end
