(* ===== verification/Fundamental.thy ===== *)
theory Fundamental
  imports Arrays Symrepr "HOL-Library.Signed_Division"
begin

text \<open>
  The fundamental operations of \<open>src/fundamental.c\<close>. They read their arguments through a pointer into
  the evaluation stack: \<open>args\<close> is the stack memory from that pointer on, so reading past the
  arguments reads what is above them and reading past the stack is \<open>None\<close>.

  Signed addition, subtraction and multiplication wrap; the one signed quotient that does not fit
  is undefined. Floating point arithmetic is that of the target: a record of functions on bit
  patterns that every operation on numbers takes as its first argument.
\<close>

record float_ops =
  f_of_i :: "SINT \<Rightarrow> FLOAT"
  f_of_u :: "UINT \<Rightarrow> FLOAT"
  i_of_f :: "FLOAT \<Rightarrow> SINT"
  u_of_f :: "FLOAT \<Rightarrow> UINT"
  f_add :: "FLOAT \<Rightarrow> FLOAT \<Rightarrow> FLOAT"
  f_sub :: "FLOAT \<Rightarrow> FLOAT \<Rightarrow> FLOAT"
  f_mul :: "FLOAT \<Rightarrow> FLOAT \<Rightarrow> FLOAT"
  f_div :: "FLOAT \<Rightarrow> FLOAT \<Rightarrow> FLOAT"
  f_neg :: "FLOAT \<Rightarrow> FLOAT"
  f_lt :: "FLOAT \<Rightarrow> FLOAT \<Rightarrow> bool"
  f_eq :: "FLOAT \<Rightarrow> FLOAT \<Rightarrow> bool"

record runtime =
  rt_heap :: heap_state
  rt_mem :: memory_state
  rt_sym :: sym_state

definition i_div :: "SINT \<Rightarrow> SINT \<Rightarrow> SINT option" where
  "i_div a b = (if sint a = - (2 ^ 31) \<and> sint b = - 1 then None
     else Some (word_of_int (sint a sdiv sint b)))"

definition i_mod :: "SINT \<Rightarrow> SINT \<Rightarrow> SINT option" where
  "i_mod a b = (if sint a = - (2 ^ 31) \<and> sint b = - 1 then None
     else Some (word_of_int (sint a smod sint b)))"

subsection \<open>Conversions\<close>

definition as_i :: "float_ops \<Rightarrow> heap_state \<Rightarrow> UINT \<Rightarrow> UINT option" where
  "as_i F h a =
     (let t = type_of a in
      if t = VAL_TYPE_I then Some (dec_i a)
      else if t = VAL_TYPE_U then Some (dec_u a)
      else if t = PTR_TYPE_BOXED_I \<or> t = PTR_TYPE_BOXED_U then car h a
      else if t = PTR_TYPE_BOXED_F then map_option (i_of_f F) (car h a)
      else Some 0)"

definition as_u :: "float_ops \<Rightarrow> heap_state \<Rightarrow> UINT \<Rightarrow> UINT option" where
  "as_u F h a =
     (let t = type_of a in
      if t = VAL_TYPE_I then Some (dec_i a)
      else if t = VAL_TYPE_U then Some (dec_u a)
      else if t = PTR_TYPE_BOXED_I \<or> t = PTR_TYPE_BOXED_U then car h a
      else if t = PTR_TYPE_BOXED_F then map_option (u_of_f F) (car h a)
      else Some 0)"

text \<open>The C function computes a float and returns it as a \<open>UINT\<close>.\<close>

definition as_f :: "float_ops \<Rightarrow> heap_state \<Rightarrow> UINT \<Rightarrow> UINT option" where
  "as_f F h a =
     (let t = type_of a in
      if t = VAL_TYPE_I then Some (u_of_f F (f_of_i F (dec_i a)))
      else if t = VAL_TYPE_U then Some (u_of_f F (f_of_u F (dec_u a)))
      else if t = PTR_TYPE_BOXED_I \<or> t = PTR_TYPE_BOXED_U then map_option (\<lambda>x. u_of_f F (f_of_u F x)) (car h a)
      else if t = PTR_TYPE_BOXED_F then map_option (u_of_f F) (car h a)
      else Some 0)"

subsection \<open>Arithmetic\<close>

definition t_min :: "UINT \<Rightarrow> UINT \<Rightarrow> UINT" where
  "t_min a b = (if type_of a < type_of b then a else b)"

definition t_max :: "UINT \<Rightarrow> UINT \<Rightarrow> UINT" where
  "t_max a b = (if type_of a < type_of b then b else a)"

definition add2 :: "float_ops \<Rightarrow> heap_state \<Rightarrow> UINT \<Rightarrow> UINT \<Rightarrow> (VALUE \<times> heap_state) option" where
  "add2 F h a b =
     (let lo = t_min a b; hi = t_max a b; t = type_of hi in
      if \<not> is_number lo then Some (enc_sym DEF_REPR_EERROR, h)
      else if t = VAL_TYPE_I then do { i1 \<leftarrow> as_i F h lo; Some (enc_i (dec_i hi + i1), h) }
      else if t = VAL_TYPE_U then do { u1 \<leftarrow> as_u F h lo; Some (enc_u (dec_u hi + u1), h) }
      else if t = PTR_TYPE_BOXED_U then do { u0 \<leftarrow> dec_U h hi; u1 \<leftarrow> as_u F h lo; enc_U h (u0 + u1) }
      else if t = PTR_TYPE_BOXED_I then do { i0 \<leftarrow> dec_I h hi; i1 \<leftarrow> as_i F h lo; enc_I h (i0 + i1) }
      else if t = PTR_TYPE_BOXED_F then do {
        f0 \<leftarrow> dec_f h hi; f1 \<leftarrow> as_f F h lo; enc_F h (f_add F f0 (f_of_u F f1)) }
      else Some (enc_sym DEF_REPR_TERROR, h))"

definition mul2 :: "float_ops \<Rightarrow> heap_state \<Rightarrow> UINT \<Rightarrow> UINT \<Rightarrow> (VALUE \<times> heap_state) option" where
  "mul2 F h a b =
     (let lo = t_min a b; hi = t_max a b; t = type_of hi in
      if t = VAL_TYPE_I then do { i1 \<leftarrow> as_i F h lo; Some (enc_i (dec_i hi * i1), h) }
      else if t = VAL_TYPE_U then do { u1 \<leftarrow> as_u F h lo; Some (enc_u (dec_u hi * u1), h) }
      else if t = PTR_TYPE_BOXED_U then do { u0 \<leftarrow> dec_U h hi; u1 \<leftarrow> as_u F h lo; enc_U h (u0 * u1) }
      else if t = PTR_TYPE_BOXED_I then do { i0 \<leftarrow> dec_I h hi; i1 \<leftarrow> as_i F h lo; enc_I h (i0 * i1) }
      else if t = PTR_TYPE_BOXED_F then do {
        f0 \<leftarrow> dec_f h hi; f1 \<leftarrow> as_f F h lo; enc_F h (f_mul F f0 (f_of_u F f1)) }
      else Some (enc_sym DEF_REPR_TERROR, h))"

definition div2 :: "float_ops \<Rightarrow> heap_state \<Rightarrow> UINT \<Rightarrow> UINT \<Rightarrow> (VALUE \<times> heap_state) option" where
  "div2 F h a b =
     (let lo = t_min a b; hi = t_max a b; t = type_of hi; divzero = (enc_sym DEF_REPR_DIVZERO, h) in
      if t = VAL_TYPE_I then do {
        i1 \<leftarrow> as_i F h lo;
        if i1 = 0 then Some divzero else do { q \<leftarrow> i_div (dec_i hi) i1; Some (enc_i q, h) } }
      else if t = VAL_TYPE_U then do {
        u1 \<leftarrow> as_u F h lo; if u1 = 0 then Some divzero else Some (enc_u (dec_u hi div u1), h) }
      else if t = PTR_TYPE_BOXED_U then do {
        u0 \<leftarrow> dec_U h hi; u1 \<leftarrow> as_u F h lo; if u1 = 0 then Some divzero else enc_U h (u0 div u1) }
      else if t = PTR_TYPE_BOXED_I then do {
        i0 \<leftarrow> dec_I h hi; i1 \<leftarrow> as_i F h lo;
        if i1 = 0 then Some divzero else do { q \<leftarrow> i_div i0 i1; enc_I h q } }
      else if t = PTR_TYPE_BOXED_F then do {
        f0 \<leftarrow> dec_f h hi; u1 \<leftarrow> as_f F h lo;
        let f1 = f_of_u F u1;
        if f_eq F f1 (f_of_i F 0) then Some divzero else enc_F h (f_div F f0 f1) }
      else Some (enc_sym DEF_REPR_TERROR, h))"

definition mod2 :: "float_ops \<Rightarrow> heap_state \<Rightarrow> UINT \<Rightarrow> UINT \<Rightarrow> (VALUE \<times> heap_state) option" where
  "mod2 F h a b =
     (let lo = t_min a b; hi = t_max a b; t = type_of hi; divzero = (enc_sym DEF_REPR_DIVZERO, h) in
      if t = VAL_TYPE_I then do {
        i1 \<leftarrow> as_i F h lo;
        if i1 = 0 then Some divzero else do { q \<leftarrow> i_mod (dec_i hi) i1; Some (enc_i q, h) } }
      else if t = VAL_TYPE_U then do {
        u1 \<leftarrow> as_u F h lo; if u1 = 0 then Some divzero else Some (enc_u (dec_u hi mod u1), h) }
      else if t = PTR_TYPE_BOXED_U then do {
        u0 \<leftarrow> dec_U h hi; u1 \<leftarrow> as_u F h lo; if u1 = 0 then Some divzero else enc_U h (u0 mod u1) }
      else if t = PTR_TYPE_BOXED_I then do {
        i0 \<leftarrow> dec_I h hi; i1 \<leftarrow> as_i F h lo;
        if i1 = 0 then Some divzero else do { q \<leftarrow> i_mod i0 i1; enc_I h q } }
      else Some (enc_sym DEF_REPR_TERROR, h))"

definition negate :: "float_ops \<Rightarrow> heap_state \<Rightarrow> UINT \<Rightarrow> (VALUE \<times> heap_state) option" where
  "negate F h a =
     (let t = type_of a in
      if t > VAL_TYPE_CHAR then
        if t = VAL_TYPE_I then Some (enc_i (- dec_i a), h)
        else if t = VAL_TYPE_U then Some (enc_u (- dec_u a), h)
        else if t = PTR_TYPE_BOXED_U then do { u0 \<leftarrow> dec_U h a; enc_U h (- u0) }
        else if t = PTR_TYPE_BOXED_I then do { i0 \<leftarrow> dec_I h a; enc_I h (- i0) }
        else if t = PTR_TYPE_BOXED_F then do { f0 \<leftarrow> dec_f h a; enc_F h (f_neg F f0) }
        else Some (enc_sym DEF_REPR_TERROR, h)
      else Some (enc_sym DEF_REPR_TERROR, h))"

definition sub2 :: "float_ops \<Rightarrow> heap_state \<Rightarrow> UINT \<Rightarrow> UINT \<Rightarrow> (VALUE \<times> heap_state) option" where
  "sub2 F h a b =
     (let lo = t_min a b; hi = t_max a b; t = type_of hi in
      if type_of lo > VAL_TYPE_CHAR then
        if t = VAL_TYPE_I then do { i1 \<leftarrow> as_i F h lo; Some (enc_i (dec_i hi - i1), h) }
        else if t = VAL_TYPE_U then do { u1 \<leftarrow> as_u F h lo; Some (enc_u (dec_u hi - u1), h) }
        else if t = PTR_TYPE_BOXED_U then do { u0 \<leftarrow> dec_U h hi; u1 \<leftarrow> as_u F h lo; enc_U h (u0 - u1) }
        else if t = PTR_TYPE_BOXED_I then do { i0 \<leftarrow> dec_I h hi; i1 \<leftarrow> as_u F h lo; enc_I h (i0 - i1) }
        else if t = PTR_TYPE_BOXED_F then do {
          f0 \<leftarrow> dec_f h hi; f1 \<leftarrow> as_f F h lo; enc_F h (f_sub F f0 (f_of_u F f1)) }
        else Some (enc_sym DEF_REPR_TERROR, h)
      else Some (enc_sym DEF_REPR_TERROR, h))"

subsection \<open>Comparison\<close>

text \<open>\<open>memcmp(a, b, n) == 0\<close>, reading up to the first difference.\<close>

primrec memcmp_eq :: "memory_state \<Rightarrow> u32 \<Rightarrow> u32 \<Rightarrow> nat \<Rightarrow> bool option" where
  "memcmp_eq m a b 0 = Some True"
| "memcmp_eq m a b (Suc n) = do {
     x \<leftarrow> mem_read_byte m a;
     y \<leftarrow> mem_read_byte m b;
     if x = y then memcmp_eq m (a + 1) (b + 1) n else Some False
   }"

definition array_equality :: "heap_state \<Rightarrow> memory_state \<Rightarrow> VALUE \<Rightarrow> VALUE \<Rightarrow> bool option" where
  "array_equality h m a b =
     (if type_of a = PTR_TYPE_ARRAY \<and> type_of a = type_of b then do {
        a' \<leftarrow> car h a;
        b' \<leftarrow> car h b;
        ta \<leftarrow> mem_read m a';
        tb \<leftarrow> mem_read m b';
        if ta = tb then do {
          sa \<leftarrow> mem_read m (a' + 4);
          sb \<leftarrow> mem_read m (b' + 4);
          if sa = sb then
            if ta = VAL_TYPE_U \<or> ta = PTR_TYPE_BOXED_U \<or> ta = VAL_TYPE_I \<or> ta = PTR_TYPE_BOXED_I \<or>
               ta = PTR_TYPE_BOXED_F
            then memcmp_eq m (a' + 8) (b' + 8) (unat (sa * 4))
            else if ta = VAL_TYPE_CHAR then memcmp_eq m (a' + 8) (b' + 8) (unat sa)
            else Some False
          else Some False
        } else Some False
      } else Some False)"

partial_function (option) struct_eq ::
  "float_ops \<Rightarrow> heap_state \<Rightarrow> memory_state \<Rightarrow> VALUE \<Rightarrow> VALUE \<Rightarrow> bool option" where
  "struct_eq F h m a b =
     (if \<not> is_ptr a \<and> \<not> is_ptr b then
        if val_type a = val_type b then
          if val_type a = VAL_TYPE_SYMBOL then Some (dec_sym a = dec_sym b)
          else if val_type a = VAL_TYPE_I then Some (dec_i a = dec_i b)
          else if val_type a = VAL_TYPE_U then Some (dec_u a = dec_u b)
          else if val_type a = VAL_TYPE_CHAR then Some (dec_char a = dec_char b)
          else Some False
        else Some False
      else if is_ptr a \<and> is_ptr b \<and> ptr_type a = ptr_type b then
        if ptr_type a = PTR_TYPE_SYMBOL_INDIRECTION
        then Some (dec_symbol_indirection a = dec_symbol_indirection b)
        else if ptr_type a = PTR_TYPE_CONS then
          Option.bind (car h a) (\<lambda>a1. Option.bind (car h b) (\<lambda>b1.
          Option.bind (struct_eq F h m a1 b1) (\<lambda>eq.
            if eq then
              Option.bind (cdr h a) (\<lambda>a2. Option.bind (cdr h b) (\<lambda>b2. struct_eq F h m a2 b2))
            else Some False)))
        else if ptr_type a = PTR_TYPE_BOXED_I \<or> ptr_type a = PTR_TYPE_BOXED_U then
          Option.bind (car h a) (\<lambda>a1. Option.bind (car h b) (\<lambda>b1. Some (a1 = b1)))
        else if ptr_type a = PTR_TYPE_BOXED_F then
          Option.bind (car h a) (\<lambda>a1. Option.bind (car h b) (\<lambda>b1.
            Some (f_eq F (f_of_u F a1) (f_of_u F b1))))
        else if ptr_type a = PTR_TYPE_ARRAY then array_equality h m a b
        else Some False
      else Some False)"

definition cmpi :: "SINT \<Rightarrow> SINT \<Rightarrow> bool \<Rightarrow> int" where
  "cmpi a b swapped =
     (let res = (if sint a > sint b then 1 else 0) - (if sint a < sint b then 1 else 0)
      in if swapped then - res else res)"

definition cmpu :: "UINT \<Rightarrow> UINT \<Rightarrow> bool \<Rightarrow> int" where
  "cmpu a b swapped =
     (let res = (if a > b then 1 else 0) - (if a < b then 1 else 0)
      in if swapped then - res else res)"

definition cmpf :: "float_ops \<Rightarrow> FLOAT \<Rightarrow> FLOAT \<Rightarrow> bool \<Rightarrow> int" where
  "cmpf F a b swapped =
     (let res = (if f_lt F b a then 1 else 0) - (if f_lt F a b then 1 else 0)
      in if swapped then - res else res)"

definition compare_num :: "float_ops \<Rightarrow> heap_state \<Rightarrow> UINT \<Rightarrow> UINT \<Rightarrow> int option" where
  "compare_num F h a0 b0 =
     (let swapped = type_of a0 < type_of b0; a = t_max a0 b0; b = t_min a0 b0; t = type_of a in
      if type_of b > VAL_TYPE_CHAR then
        if t = VAL_TYPE_I then do { i1 \<leftarrow> as_i F h b; Some (cmpi (dec_i a) i1 swapped) }
        else if t = VAL_TYPE_U then do { u1 \<leftarrow> as_u F h b; Some (cmpu (dec_u a) u1 swapped) }
        else if t = PTR_TYPE_BOXED_U then do { u0 \<leftarrow> dec_U h a; u1 \<leftarrow> as_u F h b; Some (cmpu u0 u1 swapped) }
        else if t = PTR_TYPE_BOXED_I then do { i0 \<leftarrow> dec_I h a; i1 \<leftarrow> as_u F h b; Some (cmpi i0 i1 swapped) }
        else if t = PTR_TYPE_BOXED_F then do {
          f0 \<leftarrow> dec_f h a; f1 \<leftarrow> as_f F h b; Some (cmpf F f0 (f_of_u F f1) swapped) }
        else Some 1
      else Some 1)"

end
