(* ===== verification/Fundamental_Exec.thy ===== *)
theory Fundamental_Exec
  imports Fundamental
begin

text \<open>
  Array access and the dispatch of \<open>fundamental_exec\<close> (\<open>src/fundamental.c\<close>), one definition per group
  of cases of its switch. The state is the record \<open>runtime\<close>: heap, word memory and symbol table.
\<close>

subsection \<open>Arrays\<close>

text \<open>The index argument: \<open>Inl\<close> is the value the C function stores in \<open>result\<close> and returns with.\<close>

definition array_index :: "heap_state \<Rightarrow> VALUE \<Rightarrow> (VALUE + UINT) option" where
  "array_index h index =
     (let t = type_of index in
      if t = VAL_TYPE_U then Some (Inr (dec_u index))
      else if t = VAL_TYPE_I then
        if sint (dec_i index) < 0 then Some (Inl (enc_sym DEF_REPR_EERROR)) else Some (Inr (dec_i index))
      else if t = PTR_TYPE_BOXED_U then map_option Inr (dec_U h index)
      else if t = PTR_TYPE_BOXED_I then do {
        tmp \<leftarrow> dec_I h index;
        if sint tmp < 0 then Some (Inl (enc_sym DEF_REPR_EERROR)) else Some (Inr tmp)
      }
      else Some (Inl (enc_sym DEF_REPR_NIL)))"

definition read_boxed :: "heap_state \<Rightarrow> UINT \<Rightarrow> UINT \<Rightarrow> LTYPE \<Rightarrow> (VALUE \<times> heap_state) option" where
  "read_boxed h x tag type = do {
     (r, h) \<leftarrow> cons h x (enc_sym tag);
     if type_of r = VAL_TYPE_SYMBOL then Some (r, h) else Some (set_ptr_type r type, h)
   }"

definition array_read :: "heap_state \<Rightarrow> memory_state \<Rightarrow> VALUE list \<Rightarrow> (VALUE \<times> heap_state) option" where
  "array_read h m args = do {
     arr \<leftarrow> arr_get args 0;
     index \<leftarrow> arr_get args 1;
     ixr \<leftarrow> array_index h index;
     case ixr of
       Inl r \<Rightarrow> Some (r, h)
     | Inr ix \<Rightarrow>
         if type_of arr = PTR_TYPE_ARRAY then do {
           array \<leftarrow> car h arr;
           sz \<leftarrow> mem_read m (array + 4);
           if ix \<ge> sz then Some (enc_sym DEF_REPR_NIL, h)
           else do {
             t \<leftarrow> mem_read m array;
             if t = VAL_TYPE_CHAR then do { c \<leftarrow> mem_read_byte m (array + 8 + ix); Some (enc_char c, h) }
             else if t = VAL_TYPE_U then do { w \<leftarrow> mem_read m (array + 8 + 4 * ix); Some (enc_u w, h) }
             else if t = VAL_TYPE_I then do { w \<leftarrow> mem_read m (array + 8 + 4 * ix); Some (enc_i w, h) }
             else if t = PTR_TYPE_BOXED_U then do {
               w \<leftarrow> mem_read m (array + 8 + 4 * ix); read_boxed h w DEF_REPR_BOXED_U_TYPE PTR_TYPE_BOXED_U }
             else if t = PTR_TYPE_BOXED_I then do {
               w \<leftarrow> mem_read m (array + 8 + 4 * ix); read_boxed h w DEF_REPR_BOXED_I_TYPE PTR_TYPE_BOXED_I }
             else if t = PTR_TYPE_BOXED_F then do {
               w \<leftarrow> mem_read m (array + 8 + 4 * ix); read_boxed h w DEF_REPR_BOXED_F_TYPE PTR_TYPE_BOXED_F }
             else Some (enc_sym DEF_REPR_EERROR, h)
           }
         } else Some (enc_sym DEF_REPR_EERROR, h)
   }"

definition array_write :: "heap_state \<Rightarrow> memory_state \<Rightarrow> VALUE list \<Rightarrow> (VALUE \<times> memory_state) option" where
  "array_write h m args = do {
     arr \<leftarrow> arr_get args 0;
     index \<leftarrow> arr_get args 1;
     val \<leftarrow> arr_get args 2;
     ixr \<leftarrow> array_index h index;
     case ixr of
       Inl r \<Rightarrow> Some (r, m)
     | Inr ix \<Rightarrow>
         if type_of arr = PTR_TYPE_ARRAY then do {
           array \<leftarrow> car h arr;
           t \<leftarrow> mem_read m array;
           sz \<leftarrow> mem_read m (array + 4);
           if type_of val \<noteq> t \<or> ix \<ge> sz then Some (enc_sym DEF_REPR_NIL, m)
           else if t = VAL_TYPE_CHAR then do {
             m \<leftarrow> mem_write_byte m (array + 8 + ix) (dec_char val); Some (enc_sym DEF_REPR_TRUE, m) }
           else if t = VAL_TYPE_U then do {
             m \<leftarrow> mem_write m (array + 8 + 4 * ix) (dec_u val); Some (enc_sym DEF_REPR_TRUE, m) }
           else if t = VAL_TYPE_I then do {
             m \<leftarrow> mem_write m (array + 8 + 4 * ix) (dec_i val); Some (enc_sym DEF_REPR_TRUE, m) }
           else if t = PTR_TYPE_BOXED_U then do {
             v \<leftarrow> dec_U h val; m \<leftarrow> mem_write m (array + 8 + 4 * ix) v; Some (enc_sym DEF_REPR_TRUE, m) }
           else if t = PTR_TYPE_BOXED_I then do {
             v \<leftarrow> dec_I h val; m \<leftarrow> mem_write m (array + 8 + 4 * ix) v; Some (enc_sym DEF_REPR_TRUE, m) }
           else if t = PTR_TYPE_BOXED_F then do {
             v \<leftarrow> car h val; m \<leftarrow> mem_write m (array + 8 + 4 * ix) v; Some (enc_sym DEF_REPR_TRUE, m) }
           else Some (enc_sym DEF_REPR_EERROR, m)
         } else Some (enc_sym DEF_REPR_NIL, m)
   }"

text \<open>\<open>array_create\<close> leaves \<open>result\<close> as it is.\<close>

definition array_create :: "VALUE \<Rightarrow> VALUE" where
  "array_create result = result"

subsection \<open>Lists\<close>

text \<open>\<open>n\<close> counts down to zero, or stays where it is when it starts negative.\<close>

partial_function (option) index_list_loop :: "heap_state \<Rightarrow> VALUE \<Rightarrow> int \<Rightarrow> VALUE option" where
  "index_list_loop h cur n =
     (if type_of cur = PTR_TYPE_CONS \<and> n > 0 then
        Option.bind (cdr h cur) (\<lambda>cur. index_list_loop h cur (n - 1))
      else Some cur)"

definition index_list :: "heap_state \<Rightarrow> VALUE \<Rightarrow> int \<Rightarrow> VALUE option" where
  "index_list h l n = do { cur \<leftarrow> index_list_loop h l n; car h cur }"

text \<open>\<open>(list a b c)\<close>: \<open>i\<close> counts the arguments that are left, from the last to the first.\<close>

primrec exec_list_loop :: "heap_state \<Rightarrow> VALUE list \<Rightarrow> VALUE \<Rightarrow> nat \<Rightarrow> (VALUE \<times> heap_state) option" where
  "exec_list_loop h args result 0 = Some (result, h)"
| "exec_list_loop h args result (Suc i) = do {
     a \<leftarrow> arr_get args i;
     (result, h) \<leftarrow> cons h a result;
     if type_of result = VAL_TYPE_SYMBOL then Some (result, h) else exec_list_loop h args result i
   }"

definition exec_list :: "heap_state \<Rightarrow> VALUE list \<Rightarrow> UINT \<Rightarrow> (VALUE \<times> heap_state) option" where
  "exec_list h args nargs = exec_list_loop h args (enc_sym DEF_REPR_NIL) (unat nargs)"

partial_function (option) count_cells :: "heap_state \<Rightarrow> VALUE \<Rightarrow> nat \<Rightarrow> nat option" where
  "count_cells h cur n =
     (if type_of cur = PTR_TYPE_CONS then Option.bind (cdr h cur) (\<lambda>cur. count_cells h cur (Suc n))
      else Some n)"

primrec exec_append_loop :: "heap_state \<Rightarrow> VALUE \<Rightarrow> VALUE \<Rightarrow> nat \<Rightarrow> (VALUE \<times> heap_state) option" where
  "exec_append_loop h a result 0 = Some (result, h)"
| "exec_append_loop h a result (Suc i) = do {
     x \<leftarrow> index_list h a (int i);
     (result, h) \<leftarrow> cons h x result;
     if type_of result = VAL_TYPE_SYMBOL then Some (result, h) else exec_append_loop h a result i
   }"

definition exec_append :: "heap_state \<Rightarrow> VALUE list \<Rightarrow> UINT \<Rightarrow> (VALUE \<times> heap_state) option" where
  "exec_append h args nargs =
     (if nargs \<noteq> 2 then Some (enc_sym DEF_REPR_EERROR, h)
      else do {
        a \<leftarrow> arr_get args 0;
        b \<leftarrow> arr_get args 1;
        n \<leftarrow> count_cells h a 0;
        exec_append_loop h a b n
      })"

subsection \<open>Arithmetic, equality and order over all arguments\<close>

text \<open>The loops \<open>for (i = 1; i < nargs; i ++)\<close>: \<open>k\<close> rounds are left, the next argument is \<open>i\<close>.\<close>

primrec fold_args ::
  "(heap_state \<Rightarrow> UINT \<Rightarrow> UINT \<Rightarrow> (VALUE \<times> heap_state) option) \<Rightarrow> heap_state \<Rightarrow> VALUE list \<Rightarrow> VALUE \<Rightarrow> nat \<Rightarrow> nat
   \<Rightarrow> (VALUE \<times> heap_state) option" where
  "fold_args op h args acc i 0 = Some (acc, h)"
| "fold_args op h args acc i (Suc k) = do {
     x \<leftarrow> arr_get args i;
     (acc, h) \<leftarrow> op h acc x;
     if type_of acc = VAL_TYPE_SYMBOL then Some (acc, h) else fold_args op h args acc (Suc i) k
   }"

definition exec_arith ::
  "(heap_state \<Rightarrow> UINT \<Rightarrow> UINT \<Rightarrow> (VALUE \<times> heap_state) option) \<Rightarrow> heap_state \<Rightarrow> VALUE list \<Rightarrow> UINT
   \<Rightarrow> (VALUE \<times> heap_state) option" where
  "exec_arith op h args nargs = do {
     a \<leftarrow> arr_get args 0;
     fold_args op h args a 1 (unat nargs - 1)
   }"

definition exec_sub :: "float_ops \<Rightarrow> heap_state \<Rightarrow> VALUE list \<Rightarrow> UINT \<Rightarrow> (VALUE \<times> heap_state) option" where
  "exec_sub F h args nargs =
     (if nargs = 1 then do { a \<leftarrow> arr_get args 0; negate F h a }
      else exec_arith (sub2 F) h args nargs)"

primrec eq_args ::
  "float_ops \<Rightarrow> heap_state \<Rightarrow> memory_state \<Rightarrow> VALUE list \<Rightarrow> VALUE \<Rightarrow> bool \<Rightarrow> nat \<Rightarrow> nat \<Rightarrow> bool option" where
  "eq_args F h m args a r i 0 = Some r"
| "eq_args F h m args a r i (Suc k) = do {
     b \<leftarrow> arr_get args i;
     r \<leftarrow> (if r then struct_eq F h m a b else Some False);
     eq_args F h m args a r (Suc i) k
   }"

definition exec_eq :: "float_ops \<Rightarrow> heap_state \<Rightarrow> memory_state \<Rightarrow> VALUE list \<Rightarrow> UINT \<Rightarrow> VALUE option" where
  "exec_eq F h m args nargs = do {
     a \<leftarrow> arr_get args 0;
     r \<leftarrow> eq_args F h m args a True 1 (unat nargs - 1);
     Some (enc_sym (if r then DEF_REPR_TRUE else DEF_REPR_NIL))
   }"

primrec cmp_args ::
  "float_ops \<Rightarrow> heap_state \<Rightarrow> VALUE list \<Rightarrow> VALUE \<Rightarrow> int \<Rightarrow> bool \<Rightarrow> nat \<Rightarrow> nat \<Rightarrow> bool option option" where
  "cmp_args F h args a cmp_res r i 0 = Some (Some r)"
| "cmp_args F h args a cmp_res r i (Suc k) = do {
     b \<leftarrow> arr_get args i;
     if \<not> is_number b then Some None
     else do {
       r \<leftarrow> (if r then do { c \<leftarrow> compare_num F h a b; Some (c = cmp_res) } else Some False);
       cmp_args F h args a cmp_res r (Suc i) k
     }
   }"

definition exec_compare :: "float_ops \<Rightarrow> heap_state \<Rightarrow> VALUE list \<Rightarrow> UINT \<Rightarrow> int \<Rightarrow> VALUE option" where
  "exec_compare F h args nargs cmp_res = do {
     a \<leftarrow> arr_get args 0;
     if \<not> is_number a then Some (enc_sym DEF_REPR_TERROR)
     else do {
       r \<leftarrow> cmp_args F h args a cmp_res True 1 (unat nargs - 1);
       Some (case r of None \<Rightarrow> enc_sym DEF_REPR_TERROR
             | Some r \<Rightarrow> enc_sym (if r then DEF_REPR_TRUE else DEF_REPR_NIL))
     }
   }"

definition exec_not :: "VALUE list \<Rightarrow> UINT \<Rightarrow> VALUE option" where
  "exec_not args nargs =
     (if nargs = 0 then Some (enc_sym DEF_REPR_NIL)
      else do {
        a \<leftarrow> arr_get args 0;
        if type_of a = VAL_TYPE_SYMBOL \<and> dec_sym a = DEF_REPR_NIL then Some (enc_sym DEF_REPR_TRUE)
        else Some (enc_sym DEF_REPR_NIL)
      })"

definition exec_type_of :: "VALUE list \<Rightarrow> UINT \<Rightarrow> VALUE option" where
  "exec_type_of args nargs =
     (if nargs \<noteq> 1 then Some (enc_sym DEF_REPR_NIL)
      else do {
        val \<leftarrow> arr_get args 0;
        let t = type_of val;
        Some (enc_sym
          (if t = PTR_TYPE_CONS then DEF_REPR_TYPE_LIST
           else if t = PTR_TYPE_ARRAY then DEF_REPR_TYPE_ARRAY
           else if t = PTR_TYPE_BOXED_I then DEF_REPR_TYPE_I32
           else if t = PTR_TYPE_BOXED_U then DEF_REPR_TYPE_U32
           else if t = PTR_TYPE_BOXED_F then DEF_REPR_TYPE_FLOAT
           else if t = VAL_TYPE_I then DEF_REPR_TYPE_I28
           else if t = VAL_TYPE_U then DEF_REPR_TYPE_U28
           else if t = VAL_TYPE_CHAR then DEF_REPR_TYPE_CHAR
           else if t = VAL_TYPE_SYMBOL then DEF_REPR_TYPE_SYMBOL
           else DEF_REPR_TERROR))
      })"

subsection \<open>Symbols\<close>

definition exec_is_fundamental :: "VALUE list \<Rightarrow> UINT \<Rightarrow> VALUE option" where
  "exec_is_fundamental args nargs =
     (if nargs < 1 then Some (enc_sym DEF_REPR_NIL)
      else do {
        a \<leftarrow> arr_get args 0;
        if type_of a \<noteq> VAL_TYPE_SYMBOL then Some (enc_sym DEF_REPR_NIL)
        else if is_fundamental a then Some (enc_sym DEF_REPR_TRUE)
        else Some (enc_sym DEF_REPR_NIL)
      })"

text \<open>
  When the heap is full \<open>heap_allocate_array\<close> returns a nonzero value and no array: the C code then
  uses an uninitialised variable.
\<close>

definition exec_symbol_to_string :: "runtime \<Rightarrow> VALUE list \<Rightarrow> UINT \<Rightarrow> (VALUE \<times> runtime) option" where
  "exec_symbol_to_string rt args nargs =
     (if nargs < 1 then Some (enc_sym DEF_REPR_NIL, rt)
      else do {
        s \<leftarrow> arr_get args 0;
        if type_of s \<noteq> VAL_TYPE_SYMBOL then Some (enc_sym DEF_REPR_NIL, rt)
        else do {
          name \<leftarrow> symrepr_lookup_name (rt_sym rt) (rt_mem rt) (dec_sym s);
          if name = MemoryName 0 then Some (enc_sym DEF_REPR_NIL, rt)
          else do {
            str \<leftarrow> (case name of SpecialName n \<Rightarrow> Some (cstr n) | MemoryName a \<Rightarrow> read_cstring (rt_mem rt) a);
            let len = (of_nat (length str) :: u32);
            (ok, res, h, m) \<leftarrow> heap_allocate_array (rt_heap rt) (rt_mem rt) (len + 1) VAL_TYPE_CHAR;
            if ok \<noteq> 0 then do {
              v \<leftarrow> res;
              arr \<leftarrow> car h v;
              if arr = 0 then Some (enc_sym DEF_REPR_MERROR, rt\<lparr>rt_heap := h, rt_mem := m\<rparr>)
              else do {
                m \<leftarrow> write_bytes m (arr + 8) (replicate (length str + 1) 0);
                m \<leftarrow> write_bytes m (arr + 8) str;
                Some (v, rt\<lparr>rt_heap := h, rt_mem := m\<rparr>)
              }
            } else Some (enc_sym DEF_REPR_MERROR, rt\<lparr>rt_heap := h, rt_mem := m\<rparr>)
          }
        }
      })"

text \<open>
  The type test of the C code, \<open>type_of(args[0] != PTR_TYPE_ARRAY)\<close>, is the type of a truth value: it
  is zero for either of them, so the test never rejects an argument.
\<close>

definition exec_string_to_symbol :: "runtime \<Rightarrow> VALUE list \<Rightarrow> UINT \<Rightarrow> (VALUE \<times> runtime) option" where
  "exec_string_to_symbol rt args nargs =
     (if nargs < 1 then Some (enc_sym DEF_REPR_EERROR, rt)
      else do {
        a \<leftarrow> arr_get args 0;
        if type_of (if a \<noteq> PTR_TYPE_ARRAY then 1 else 0) \<noteq> 0 then Some (enc_sym DEF_REPR_EERROR, rt)
        else do {
          arr \<leftarrow> car (rt_heap rt) a;
          t \<leftarrow> mem_read (rt_mem rt) arr;
          if t \<noteq> VAL_TYPE_CHAR then Some (enc_sym DEF_REPR_EERROR, rt)
          else do {
            str \<leftarrow> read_cstring (rt_mem rt) (arr + 8);
            found \<leftarrow> symrepr_lookup (rt_sym rt) (rt_mem rt) str;
            case found of
              Some s \<Rightarrow> Some (enc_sym s, rt)
            | None \<Rightarrow> do {
                (added, ss, m) \<leftarrow> symrepr_addsym (rt_sym rt) (rt_mem rt) str;
                case added of
                  Some s \<Rightarrow> Some (enc_sym s, rt\<lparr>rt_sym := ss, rt_mem := m\<rparr>)
                | None \<Rightarrow> Some (enc_sym DEF_REPR_EERROR, rt\<lparr>rt_sym := ss, rt_mem := m\<rparr>)
              }
          }
        }
      })"

definition exec_symbol_to_uint :: "VALUE list \<Rightarrow> VALUE option" where
  "exec_symbol_to_uint args = do {
     s \<leftarrow> arr_get args 0;
     Some (if type_of s = VAL_TYPE_SYMBOL then enc_u (dec_sym s) else enc_sym DEF_REPR_EERROR)
   }"

definition exec_uint_to_symbol :: "VALUE list \<Rightarrow> VALUE option" where
  "exec_uint_to_symbol args = do {
     s \<leftarrow> arr_get args 0;
     Some (if type_of s = VAL_TYPE_U then enc_sym (dec_u s) else enc_sym DEF_REPR_EERROR)
   }"

definition exec_mk_symbol_indirect :: "VALUE list \<Rightarrow> VALUE option" where
  "exec_mk_symbol_indirect args = do {
     s \<leftarrow> arr_get args 0;
     Some (if type_of s = VAL_TYPE_U \<and> dec_u s < 33554432 then enc_symbol_indirection (dec_u s)
           else enc_sym DEF_REPR_EERROR)
   }"

subsection \<open>Dispatch\<close>

definition with_heap :: "runtime \<Rightarrow> (VALUE \<times> heap_state) option \<Rightarrow> (VALUE \<times> runtime) option" where
  "with_heap rt r = map_option (\<lambda>(v, h). (v, rt\<lparr>rt_heap := h\<rparr>)) r"

definition with_value :: "runtime \<Rightarrow> VALUE option \<Rightarrow> (VALUE \<times> runtime) option" where
  "with_value rt r = map_option (\<lambda>v. (v, rt)) r"

definition fundamental_exec ::
  "float_ops \<Rightarrow> runtime \<Rightarrow> VALUE list \<Rightarrow> UINT \<Rightarrow> VALUE \<Rightarrow> (VALUE \<times> runtime) option" where
  "fundamental_exec F rt args nargs op =
     (let s = dec_sym op; h = rt_heap rt; m = rt_mem rt in
      if s = SYM_IS_FUNDAMENTAL then with_value rt (exec_is_fundamental args nargs)
      else if s = SYM_SYMBOL_TO_STRING then exec_symbol_to_string rt args nargs
      else if s = SYM_STRING_TO_SYMBOL then exec_string_to_symbol rt args nargs
      else if s = SYM_SYMBOL_TO_UINT then with_value rt (exec_symbol_to_uint args)
      else if s = SYM_UINT_TO_SYMBOL then with_value rt (exec_uint_to_symbol args)
      else if s = SYM_MK_SYMBOL_INDIRECT then with_value rt (exec_mk_symbol_indirect args)
      else if s = SYM_CONS then do {
        a \<leftarrow> arr_get args 0;
        b \<leftarrow> arr_get args 1;
        with_heap rt (cons h a b)
      }
      else if s = SYM_CAR then do { a \<leftarrow> arr_get args 0; with_value rt (car h a) }
      else if s = SYM_CDR then do { a \<leftarrow> arr_get args 0; with_value rt (cdr h a) }
      else if s = SYM_LIST then with_heap rt (exec_list h args nargs)
      else if s = SYM_APPEND then with_heap rt (exec_append h args nargs)
      else if s = SYM_ADD then with_heap rt (exec_arith (add2 F) h args nargs)
      else if s = SYM_SUB then with_heap rt (exec_sub F h args nargs)
      else if s = SYM_MUL then with_heap rt (exec_arith (mul2 F) h args nargs)
      else if s = SYM_DIV then with_heap rt (exec_arith (div2 F) h args nargs)
      else if s = SYM_MOD then with_heap rt (exec_arith (mod2 F) h args nargs)
      else if s = SYM_EQ then with_value rt (exec_eq F h m args nargs)
      else if s = SYM_NUMEQ then with_value rt (exec_compare F h args nargs 0)
      else if s = SYM_GT then with_value rt (exec_compare F h args nargs 1)
      else if s = SYM_LT then with_value rt (exec_compare F h args nargs (- 1))
      else if s = SYM_NOT then with_value rt (exec_not args nargs)
      else if s = SYM_ARRAY_READ then with_heap rt (array_read h m args)
      else if s = SYM_ARRAY_WRITE then
        map_option (\<lambda>(v, m). (v, rt\<lparr>rt_mem := m\<rparr>)) (array_write h m args)
      else if s = SYM_ARRAY_CREATE then Some (array_create (enc_sym DEF_REPR_EERROR), rt)
      else if s = SYM_TYPE_OF then with_value rt (exec_type_of args nargs)
      else Some (enc_sym DEF_REPR_EERROR, rt))"

end
