(* ===== verification/Extensions.thy ===== *)
theory Extensions
  imports Symrepr
begin

text \<open>
  Native functions registered under a symbol, \<open>src/extensions.c\<close>. A function pointer is a number that
  names the function, 0 being \<open>NULL\<close>; the linked list of nodes is the list of its (symbol, function)
  pairs from the head on. The result of the C library's \<open>malloc\<close> for a node is an argument.
\<close>

type_synonym extension_fptr = nat
type_synonym extensions = "(UINT \<times> extension_fptr) list"

fun extensions_lookup :: "extensions \<Rightarrow> UINT \<Rightarrow> extension_fptr" where
  "extensions_lookup [] symb = 0"
| "extensions_lookup ((s, f) # t) symb = (if s = symb then f else extensions_lookup t symb)"

definition extensions_add ::
  "bool \<Rightarrow> extensions \<Rightarrow> sym_state \<Rightarrow> memory_state \<Rightarrow> cstring \<Rightarrow> extension_fptr
   \<Rightarrow> (bool \<times> extensions \<times> sym_state \<times> memory_state) option" where
  "extensions_add malloc_ok es ss m sym_str ext = do {
     (res, ss, m) \<leftarrow> symrepr_addsym ss m sym_str;
     case res of
       None \<Rightarrow> Some (False, es, ss, m)
     | Some symbol \<Rightarrow>
         if \<not> malloc_ok then Some (False, es, ss, m)
         else Some (True, (symbol, ext) # es, ss, m)
   }"

definition extensions_del :: "extensions \<Rightarrow> extensions" where
  "extensions_del es = []"

definition is_extension :: "extensions \<Rightarrow> VALUE \<Rightarrow> bool" where
  "is_extension es exp \<longleftrightarrow> type_of exp = VAL_TYPE_SYMBOL \<and> extensions_lookup es (dec_sym exp) \<noteq> 0"

end
