(* ===== verification/Eval_Ctx.thy ===== *)
theory Eval_Ctx
  imports Fundamental_Exec Extensions Env Exp_Kind GC
begin

text \<open>
  Evaluation contexts and their queues, \<open>src/eval_cps.c\<close> lines 46-305 and \<open>include/eval_cps.h\<close>.

  Contexts are objects in a store, a map from addresses (0 is \<open>NULL\<close>) to records; the queue of
  runnable contexts and the list of finished ones are linked through \<open>ec_prev\<close> and \<open>ec_next\<close> as in
  the C code. Using a context that is not in the store, also after \<open>free\<close>, is \<open>None\<close>.

  What the code gets from its host is the record \<open>host\<close>: floating point, the C library's \<open>malloc\<close>
  for stacks and contexts (a fresh address and the uninitialised contents found there), the native
  extensions, and the callback for finished contexts. The reading of the microsecond clock is
  \<open>es_now\<close> (\<open>None\<close> when no callback is set).
\<close>

record eval_context =
  ec_program :: VALUE
  ec_curr_exp :: VALUE
  ec_curr_env :: VALUE
  ec_r :: VALUE
  ec_done :: bool
  ec_app_cont :: bool
  ec_K :: stack
  ec_timestamp :: u32
  ec_sleep_us :: u32
  ec_id :: CID
  ec_prev :: nat
  ec_next :: nat

record eval_state =
  es_rt :: runtime
  es_env_global :: VALUE
  es_extensions :: extensions
  es_ctxs :: "nat \<Rightarrow> eval_context option"
  es_queue :: nat
  es_queue_last :: nat
  es_done :: nat
  es_running :: nat
  es_eval_running :: bool
  es_next_ctx_id :: u32
  es_now :: "u32 option"
  es_perform_gc :: bool
  es_last_iteration_gc :: bool

record host =
  hst_float :: float_ops
  hst_malloc :: malloc_fun
  hst_new_ctx :: "eval_state \<Rightarrow> (nat \<times> eval_context) option"
  hst_ext :: "extension_fptr \<Rightarrow> runtime \<Rightarrow> VALUE list \<Rightarrow> UINT \<Rightarrow> (VALUE \<times> runtime) option"
  hst_done :: "eval_state \<Rightarrow> eval_state"

abbreviation es_heap :: "eval_state \<Rightarrow> heap_state" where
  "es_heap es \<equiv> rt_heap (es_rt es)"

definition set_heap :: "eval_state \<Rightarrow> heap_state \<Rightarrow> eval_state" where
  "set_heap es h = es\<lparr>es_rt := (es_rt es)\<lparr>rt_heap := h\<rparr>\<rparr>"

subsection \<open>Contexts in the store\<close>

definition get_ctx :: "eval_state \<Rightarrow> nat \<Rightarrow> eval_context option" where
  "get_ctx es p = (if p = 0 then None else es_ctxs es p)"

definition upd_ctx :: "eval_state \<Rightarrow> nat \<Rightarrow> (eval_context \<Rightarrow> eval_context) \<Rightarrow> eval_state option" where
  "upd_ctx es p f = do { c \<leftarrow> get_ctx es p; Some (es\<lparr>es_ctxs := (es_ctxs es)(p \<mapsto> f c)\<rparr>) }"

definition free_ctx :: "eval_state \<Rightarrow> nat \<Rightarrow> eval_state option" where
  "free_ctx es p = do { _ \<leftarrow> get_ctx es p; Some (es\<lparr>es_ctxs := (es_ctxs es)(p := None)\<rparr>) }"

definition on_K :: "eval_state \<Rightarrow> nat \<Rightarrow> (stack \<Rightarrow> ('a \<times> stack) option) \<Rightarrow> ('a \<times> eval_state) option" where
  "on_K es p f = do {
     c \<leftarrow> get_ctx es p;
     (a, s) \<leftarrow> f (ec_K c);
     es \<leftarrow> upd_ctx es p (\<lambda>c. c\<lparr>ec_K := s\<rparr>);
     Some (a, es)
   }"

definition pop2 :: "stack \<Rightarrow> ((UINT \<times> UINT) \<times> stack) option" where
  "pop2 s = map_option (\<lambda>(a, b, s). ((a, b), s)) (pop_u32_2 s)"

definition pop3 :: "stack \<Rightarrow> ((UINT \<times> UINT \<times> UINT) \<times> stack) option" where
  "pop3 s = map_option (\<lambda>(a, b, c, s). ((a, b, c), s)) (pop_u32_3 s)"

abbreviation (input) "DEFAULT_SLEEP_US \<equiv> (1000 :: u32)"
abbreviation (input) "EVAL_CPS_DEFAULT_STACK_SIZE \<equiv> (256 :: UINT)"
abbreviation (input) "EVAL_CPS_DEFAULT_STACK_GROW_POLICY \<equiv> False"

abbreviation (input) "K_DONE \<equiv> (1 :: UINT)"
abbreviation (input) "K_SET_GLOBAL_ENV \<equiv> (2 :: UINT)"
abbreviation (input) "K_BIND_TO_KEY_REST \<equiv> (3 :: UINT)"
abbreviation (input) "K_IF \<equiv> (4 :: UINT)"
abbreviation (input) "K_PROGN_REST \<equiv> (5 :: UINT)"
abbreviation (input) "K_APPLICATION \<equiv> (6 :: UINT)"
abbreviation (input) "K_APPLICATION_ARGS \<equiv> (7 :: UINT)"
abbreviation (input) "K_AND \<equiv> (8 :: UINT)"
abbreviation (input) "K_OR \<equiv> (9 :: UINT)"
abbreviation (input) "K_WAIT \<equiv> (10 :: UINT)"
abbreviation (input) "K_SPAWN_ALL \<equiv> (11 :: UINT)"

subsection \<open>Queues\<close>

definition enqueue_ctx :: "eval_state \<Rightarrow> nat \<Rightarrow> eval_state option" where
  "enqueue_ctx es p =
     (if es_queue_last es = 0 then do {
        es \<leftarrow> upd_ctx es p (\<lambda>c. c\<lparr>ec_prev := 0, ec_next := 0\<rparr>);
        Some (es\<lparr>es_queue := p, es_queue_last := p\<rparr>)
      } else do {
        let last = es_queue_last es;
        es \<leftarrow> upd_ctx es p (\<lambda>c. c\<lparr>ec_prev := last, ec_next := 0\<rparr>);
        es \<leftarrow> upd_ctx es last (\<lambda>c. c\<lparr>ec_next := p\<rparr>);
        Some (es\<lparr>es_queue_last := p\<rparr>)
      })"

definition finish_ctx :: "host \<Rightarrow> eval_state \<Rightarrow> eval_state option" where
  "finish_ctx H es = do {
     let p = es_running es;
     es \<leftarrow> (if es_done es = 0 then do {
              es \<leftarrow> upd_ctx es p (\<lambda>c. c\<lparr>ec_prev := 0, ec_next := 0\<rparr>);
              Some (es\<lparr>es_done := p\<rparr>)
            } else do {
              let d = es_done es;
              es \<leftarrow> upd_ctx es p (\<lambda>c. c\<lparr>ec_prev := 0, ec_next := d\<rparr>);
              es \<leftarrow> upd_ctx es d (\<lambda>c. c\<lparr>ec_prev := p\<rparr>);
              Some (es\<lparr>es_done := p\<rparr>)
            });
     let es = es\<lparr>es_running := 0\<rparr>;
     Some (hst_done H es)
   }"

partial_function (option) remove_done_loop :: "eval_state \<Rightarrow> CID \<Rightarrow> nat \<Rightarrow> (VALUE option \<times> eval_state) option" where
  "remove_done_loop es cid cur =
     (if cur \<noteq> 0 then
        Option.bind (get_ctx es cur) (\<lambda>c.
          if ec_id c = cid then
            Option.bind (if ec_prev c \<noteq> 0 then upd_ctx es (ec_prev c) (\<lambda>q. q\<lparr>ec_next := ec_next c\<rparr>) else Some es) (\<lambda>es.
            Option.bind (get_ctx es cur) (\<lambda>c.
            Option.bind (if ec_next c \<noteq> 0 then upd_ctx es (ec_next c) (\<lambda>q. q\<lparr>ec_prev := ec_prev c\<rparr>) else Some es) (\<lambda>es.
            Option.bind (get_ctx es cur) (\<lambda>c.
            Option.bind (free_ctx es cur) (\<lambda>es. Some (Some (ec_r c), es))))))
          else remove_done_loop es cid (ec_next c))
      else Some (None, es))"

definition eval_cps_remove_done_ctx :: "eval_state \<Rightarrow> CID \<Rightarrow> (VALUE option \<times> eval_state) option" where
  "eval_cps_remove_done_ctx es cid =
     (if es_done es = 0 then Some (None, es)
      else do {
        d \<leftarrow> get_ctx es (es_done es);
        let cur = ec_next d;
        if ec_id d = cid then do {
          es \<leftarrow> free_ctx es (es_done es);
          let es = es\<lparr>es_done := cur\<rparr>;
          es \<leftarrow> (if cur \<noteq> 0 then upd_ctx es cur (\<lambda>c. c\<lparr>ec_prev := 0\<rparr>) else Some es);
          Some (Some (ec_r d), es)
        } else remove_done_loop es cid cur
      })"

text \<open>One pass of the search of \<open>eval_cps_wait_ctx\<close> over the finished contexts.\<close>

partial_function (option) wait_ctx_scan :: "eval_state \<Rightarrow> CID \<Rightarrow> nat \<Rightarrow> VALUE option option" where
  "wait_ctx_scan es cid cur =
     (if cur \<noteq> 0 then
        Option.bind (get_ctx es cur) (\<lambda>c.
          if ec_id c = cid then Some (Some (ec_r c))
          else if ec_next c \<noteq> 0 then wait_ctx_scan es cid (ec_next c)
          else Some None)
      else Some None)"

definition error_ctx :: "host \<Rightarrow> eval_state \<Rightarrow> VALUE \<Rightarrow> eval_state option" where
  "error_ctx H es err_val = do {
     es \<leftarrow> upd_ctx es (es_running es) (\<lambda>c. c\<lparr>ec_r := err_val\<rparr>);
     finish_ctx H es
   }"

definition elapsed_us :: "u32 \<Rightarrow> u32 \<Rightarrow> u32" where
  "elapsed_us t_now timestamp =
     (if timestamp > t_now then (0xFFFFFFFF - timestamp) + t_now else t_now - timestamp)"

definition unlink_ctx :: "eval_state \<Rightarrow> nat \<Rightarrow> eval_context \<Rightarrow> eval_state option" where
  "unlink_ctx es cur c =
     (if cur = es_queue_last es then
        if ec_prev c \<noteq> 0 then
          upd_ctx (es\<lparr>es_queue_last := ec_prev c\<rparr>) (ec_prev c) (\<lambda>q. q\<lparr>ec_next := 0\<rparr>)
        else Some (es\<lparr>es_queue := 0, es_queue_last := 0\<rparr>)
      else if ec_prev c = 0 then
        if ec_next c \<noteq> 0 then upd_ctx (es\<lparr>es_queue := ec_next c\<rparr>) (ec_next c) (\<lambda>q. q\<lparr>ec_prev := 0\<rparr>)
        else Some (es\<lparr>es_queue := ec_next c\<rparr>)
      else do {
        es \<leftarrow> upd_ctx es (ec_prev c) (\<lambda>q. q\<lparr>ec_next := ec_next c\<rparr>);
        if ec_next c \<noteq> 0 then upd_ctx es (ec_next c) (\<lambda>q. q\<lparr>ec_prev := ec_prev c\<rparr>) else Some es
      })"

text \<open>\<open>Inl us\<close>: no context is ready and the caller is to sleep for \<open>us\<close>.\<close>

partial_function (option) dequeue_loop ::
  "eval_state \<Rightarrow> u32 \<Rightarrow> u32 \<Rightarrow> nat \<Rightarrow> ((u32 + nat) \<times> eval_state) option" where
  "dequeue_loop es t_now min_us cur =
     (if cur \<noteq> 0 then
        Option.bind (get_ctx es cur) (\<lambda>c.
          let t_diff = elapsed_us t_now (ec_timestamp c) in
          if t_diff \<ge> ec_sleep_us c then
            Option.bind (unlink_ctx es cur c) (\<lambda>es. Some (Inr cur, es))
          else dequeue_loop es t_now (if min_us > t_diff then t_diff else min_us) (ec_next c))
      else Some (Inl min_us, es))"

definition dequeue_ctx :: "eval_state \<Rightarrow> ((u32 + nat) \<times> eval_state) option" where
  "dequeue_ctx es =
     dequeue_loop es (case es_now es of Some t \<Rightarrow> t | None \<Rightarrow> 0) DEFAULT_SLEEP_US (es_queue es)"

definition yield_ctx :: "eval_state \<Rightarrow> u32 \<Rightarrow> eval_state option" where
  "yield_ctx es sleep_us = do {
     let p = es_running es;
     es \<leftarrow> (case es_now es of
              Some t \<Rightarrow> upd_ctx es p (\<lambda>c. c\<lparr>ec_timestamp := t, ec_sleep_us := sleep_us\<rparr>)
            | None \<Rightarrow> upd_ctx es p (\<lambda>c. c\<lparr>ec_timestamp := 0, ec_sleep_us := 0\<rparr>));
     es \<leftarrow> upd_ctx es p (\<lambda>c. c\<lparr>ec_r := enc_sym DEF_REPR_TRUE, ec_app_cont := True\<rparr>);
     es \<leftarrow> enqueue_ctx es p;
     Some (es\<lparr>es_running := 0\<rparr>)
   }"

text \<open>
  The last error branch frees the context before its stack, so it reads a freed object.
\<close>

definition create_ctx :: "host \<Rightarrow> eval_state \<Rightarrow> VALUE \<Rightarrow> VALUE \<Rightarrow> UINT \<Rightarrow> bool \<Rightarrow> (CID \<times> eval_state) option" where
  "create_ctx H es program env stack_size grow_stack =
     (if es_next_ctx_id es = 0 then Some (0, es)
      else if type_of program \<noteq> PTR_TYPE_CONS then Some (0, es)
      else case hst_new_ctx H es of
        None \<Rightarrow> Some (0, es)
      | Some (p, raw) \<Rightarrow> do {
          prg \<leftarrow> cdr (es_heap es) program;
          exp \<leftarrow> car (es_heap es) program;
          let es = es\<lparr>es_ctxs := (es_ctxs es)(p \<mapsto> raw\<lparr>ec_program := prg, ec_curr_exp := exp, ec_curr_env := env,
            ec_done := False, ec_app_cont := False, ec_timestamp := 0, ec_sleep_us := 0,
            ec_id := ucast (es_next_ctx_id es)\<rparr>)\<rparr>;
          let es = es\<lparr>es_next_ctx_id := es_next_ctx_id es + 1\<rparr>;
          (ok, es) \<leftarrow> on_K es p (\<lambda>s. Some (stack_allocate (hst_malloc H) s stack_size grow_stack));
          if \<not> ok then do { es \<leftarrow> free_ctx es p; Some (0, es) }
          else do {
            (ok, es) \<leftarrow> on_K es p (\<lambda>s. push_u32 (hst_malloc H) s (enc_u K_DONE));
            if \<not> ok then do {
              es \<leftarrow> free_ctx es p;
              (_, es) \<leftarrow> on_K es p (\<lambda>s. Some ((), stack_free s));
              Some (0, es)
            } else do {
              es \<leftarrow> enqueue_ctx es p;
              c \<leftarrow> get_ctx es p;
              Some (ec_id c, es)
            }
          }
        })"

definition advance_ctx :: "host \<Rightarrow> eval_state \<Rightarrow> eval_state option" where
  "advance_ctx H es = do {
     let p = es_running es;
     c \<leftarrow> get_ctx es p;
     if type_of (ec_program c) = PTR_TYPE_CONS then do {
       (_, es) \<leftarrow> on_K es p (\<lambda>s. push_u32 (hst_malloc H) s (enc_u K_DONE));
       exp \<leftarrow> car (es_heap es) (ec_program c);
       prg \<leftarrow> cdr (es_heap es) (ec_program c);
       upd_ctx es p (\<lambda>c. c\<lparr>ec_curr_exp := exp, ec_program := prg, ec_r := NIL, ec_app_cont := False\<rparr>)
     } else do {
       es \<leftarrow> upd_ctx es p (\<lambda>c. c\<lparr>ec_done := True\<rparr>);
       finish_ctx H es
     }
   }"

end
