(* ===== verification/Eval_Cps.thy ===== *)
theory Eval_Cps
  imports Eval_Ctx
begin

text \<open>
  The continuation-passing evaluator of \<open>src/eval_cps.c\<close>, lines 306-1102: one definition for each
  continuation of \<open>apply_continuation\<close> and for each special form of \<open>evaluation_step\<close>. The context is
  addressed by \<open>p\<close>, as \<open>ctx\<close> in the C code. The flags \<open>perform_gc\<close> and \<open>last_iteration_gc\<close>, locals of
  the run loops passed by reference, are fields of the state.
\<close>

subsection \<open>Error macros\<close>

definition fatal_ctx :: "eval_state \<Rightarrow> nat \<Rightarrow> eval_state option" where
  "fatal_ctx es p = upd_ctx es p (\<lambda>c. c\<lparr>ec_done := True, ec_r := enc_sym DEF_REPR_FATAL_ERROR\<rparr>)"

text \<open>\<open>FATAL_ON_FAIL\<close>: marks the context as done but leaves it running.\<close>

definition FATAL_ON_FAIL ::
  "eval_state \<Rightarrow> nat \<Rightarrow> (stack \<Rightarrow> (bool \<times> stack) option) \<Rightarrow> (eval_state \<Rightarrow> eval_state option) \<Rightarrow> eval_state option" where
  "FATAL_ON_FAIL es p push k = do {
     (ok, es) \<leftarrow> on_K es p push;
     if \<not> ok then fatal_ctx es p else k es
   }"

text \<open>\<open>FOF\<close>: ends the running context with the fatal error.\<close>

definition FOF ::
  "host \<Rightarrow> eval_state \<Rightarrow> nat \<Rightarrow> (stack \<Rightarrow> (bool \<times> stack) option) \<Rightarrow> (eval_state \<Rightarrow> eval_state option) \<Rightarrow> eval_state option" where
  "FOF H es p push k = do {
     (ok, es) \<leftarrow> on_K es p push;
     if \<not> ok then do {
       es \<leftarrow> upd_ctx es (es_running es) (\<lambda>c. c\<lparr>ec_done := True\<rparr>);
       error_ctx H es (enc_sym DEF_REPR_FATAL_ERROR)
     } else k es
   }"

definition app_cont :: "eval_state \<Rightarrow> nat \<Rightarrow> eval_state option" where
  "app_cont es p = upd_ctx es p (\<lambda>c. c\<lparr>ec_app_cont := True\<rparr>)"

definition return_value :: "eval_state \<Rightarrow> nat \<Rightarrow> VALUE \<Rightarrow> eval_state option" where
  "return_value es p v = upd_ctx es p (\<lambda>c. c\<lparr>ec_app_cont := True, ec_r := v\<rparr>)"

definition eval_in :: "eval_state \<Rightarrow> nat \<Rightarrow> VALUE \<Rightarrow> VALUE \<Rightarrow> eval_state option" where
  "eval_in es p exp env = upd_ctx es p (\<lambda>c. c\<lparr>ec_curr_exp := exp, ec_curr_env := env\<rparr>)"

definition is_nil :: "VALUE \<Rightarrow> bool" where
  "is_nil v \<longleftrightarrow> type_of v = VAL_TYPE_SYMBOL \<and> v = NIL"

subsection \<open>Continuations\<close>

definition cont_set_global_env :: "host \<Rightarrow> eval_state \<Rightarrow> nat \<Rightarrow> eval_state option" where
  "cont_set_global_env H es p = do {
     c \<leftarrow> get_ctx es p;
     let val = ec_r c;
     (key, es) \<leftarrow> on_K es p pop_u32;
     (new_env, h) \<leftarrow> env_set (es_heap es) (es_env_global es) key val;
     let es = set_heap es h;
     if type_of new_env = VAL_TYPE_SYMBOL \<and> dec_sym new_env = DEF_REPR_MERROR then
       FATAL_ON_FAIL es p (\<lambda>s. push_u32_2 (hst_malloc H) s key (enc_u K_SET_GLOBAL_ENV))
         (\<lambda>es. Some (es\<lparr>es_perform_gc := True\<rparr>))
     else if type_of new_env = VAL_TYPE_SYMBOL \<and> dec_sym new_env = DEF_REPR_FATAL_ERROR then
       error_ctx H es new_env
     else upd_ctx (es\<lparr>es_env_global := new_env\<rparr>) p (\<lambda>c. c\<lparr>ec_r := key\<rparr>)
   }"

definition cont_progn_rest :: "host \<Rightarrow> eval_state \<Rightarrow> nat \<Rightarrow> eval_state option" where
  "cont_progn_rest H es p = do {
     ((rest, env), es) \<leftarrow> on_K es p pop2;
     if is_nil rest then app_cont es p
     else if symrepr_is_error rest then error_ctx H es rest
     else do {
       d \<leftarrow> cdr (es_heap es) rest;
       a \<leftarrow> car (es_heap es) rest;
       if is_nil d then upd_ctx es p (\<lambda>c. c\<lparr>ec_curr_exp := a\<rparr>)
       else FATAL_ON_FAIL es p (\<lambda>s. push_u32_3 (hst_malloc H) s env d (enc_u K_PROGN_REST))
         (\<lambda>es. eval_in es p a env)
     }
   }"

definition cont_spawn_all :: "host \<Rightarrow> eval_state \<Rightarrow> nat \<Rightarrow> eval_state option" where
  "cont_spawn_all H es p = do {
     ((rest, env), es) \<leftarrow> on_K es p pop2;
     if is_nil rest then app_cont es p
     else do {
       let cid_val = enc_i (es_next_ctx_id es);
       c \<leftarrow> get_ctx es p;
       (cid_list, h) \<leftarrow> cons (es_heap es) cid_val (ec_r c);
       let es = set_heap es h;
       if type_of cid_list = VAL_TYPE_SYMBOL then
         FATAL_ON_FAIL es p (\<lambda>s. push_u32_3 (hst_malloc H) s env rest (enc_u K_SPAWN_ALL))
           (\<lambda>es. app_cont (es\<lparr>es_perform_gc := True\<rparr>) p)
       else do {
         a \<leftarrow> car (es_heap es) rest;
         (_, es) \<leftarrow> create_ctx H es a env EVAL_CPS_DEFAULT_STACK_SIZE EVAL_CPS_DEFAULT_STACK_GROW_POLICY;
         d \<leftarrow> cdr (es_heap es) rest;
         FATAL_ON_FAIL es p (\<lambda>s. push_u32_3 (hst_malloc H) s env d (enc_u K_SPAWN_ALL))
           (\<lambda>es. return_value es p cid_list)
       }
     }
   }"

definition cont_wait :: "host \<Rightarrow> eval_state \<Rightarrow> nat \<Rightarrow> eval_state option" where
  "cont_wait H es p = do {
     (cid_val, es) \<leftarrow> on_K es p pop_u32;
     let cid = (ucast (dec_u cid_val) :: CID);
     (found, es) \<leftarrow> eval_cps_remove_done_ctx es cid;
     case found of
       Some r \<Rightarrow> return_value es p r
     | None \<Rightarrow> FOF H es p (\<lambda>s. push_u32_2 (hst_malloc H) s (enc_u (ucast cid)) (enc_u K_WAIT))
         (\<lambda>es. do {
           es \<leftarrow> return_value es p (enc_sym DEF_REPR_TRUE);
           yield_ctx es 50000
         })
   }"

text \<open>
  The retry when the heap is full: push the continuation again and collect garbage first.
\<close>

definition retry_application :: "host \<Rightarrow> eval_state \<Rightarrow> nat \<Rightarrow> VALUE \<Rightarrow> VALUE \<Rightarrow> eval_state option" where
  "retry_application H es p count fun_val =
     FATAL_ON_FAIL es p (\<lambda>s. push_u32_2 (hst_malloc H) s count (enc_u K_APPLICATION))
       (\<lambda>es. return_value (es\<lparr>es_perform_gc := True\<rparr>) p fun_val)"

primrec closure_args :: "heap_state \<Rightarrow> VALUE list \<Rightarrow> VALUE \<Rightarrow> nat \<Rightarrow> ((VALUE + VALUE) \<times> heap_state) option" where
  "closure_args h fun_args args 0 = Some (Inr args, h)"
| "closure_args h fun_args args (Suc i) = do {
     x \<leftarrow> arr_get fun_args (Suc i);
     (args, h) \<leftarrow> cons h x args;
     if type_of args = VAL_TYPE_SYMBOL then Some (Inl args, h) else closure_args h fun_args args i
   }"

definition drop_args :: "eval_state \<Rightarrow> nat \<Rightarrow> UINT \<Rightarrow> eval_state option" where
  "drop_args es p n = do {
     (_, es) \<leftarrow> on_K es p (\<lambda>s. Some (stack_drop s (n + 1)));
     Some es
   }"

definition apply_closure ::
  "host \<Rightarrow> eval_state \<Rightarrow> nat \<Rightarrow> VALUE \<Rightarrow> VALUE \<Rightarrow> VALUE list \<Rightarrow> eval_state option" where
  "apply_closure H es p count fun_val fun_args = do {
     (r, h) \<leftarrow> closure_args (es_heap es) fun_args NIL (unat (dec_u count));
     let es = set_heap es h;
     case r of
       Inl _ \<Rightarrow> retry_application H es p count fun_val
     | Inr args \<Rightarrow> do {
         d1 \<leftarrow> cdr h fun_val;
         d2 \<leftarrow> cdr h d1;
         d3 \<leftarrow> cdr h d2;
         params \<leftarrow> car h d1;
         exp \<leftarrow> car h d2;
         clo_env \<leftarrow> car h d3;
         np \<leftarrow> length_list h params;
         na \<leftarrow> length_list h args;
         if np \<noteq> na then error_ctx H es (enc_sym DEF_REPR_EERROR)
         else do {
           (local_env, h) \<leftarrow> env_build_params_args h params args clo_env;
           let es = set_heap es h;
           if type_of local_env = VAL_TYPE_SYMBOL \<and> dec_sym local_env = DEF_REPR_MERROR then
             retry_application H es p count fun_val
           else if type_of local_env = VAL_TYPE_SYMBOL \<and> dec_sym local_env = DEF_REPR_FATAL_ERROR then
             upd_ctx es p (\<lambda>c. c\<lparr>ec_r := local_env\<rparr>)
           else do {
             es \<leftarrow> drop_args es p (dec_u count);
             eval_in es p exp local_env
           }
         }
       }
   }"

definition apply_yield :: "host \<Rightarrow> eval_state \<Rightarrow> nat \<Rightarrow> VALUE \<Rightarrow> VALUE list \<Rightarrow> eval_state option" where
  "apply_yield H es p count fun_args = do {
     a \<leftarrow> arr_get fun_args 1;
     if type_of a = VAL_TYPE_I then do {
       es \<leftarrow> drop_args es p (dec_u count);
       yield_ctx es (dec_i a)
     } else error_ctx H es (enc_sym DEF_REPR_EERROR)
   }"

definition apply_wait :: "host \<Rightarrow> eval_state \<Rightarrow> nat \<Rightarrow> VALUE \<Rightarrow> VALUE list \<Rightarrow> eval_state option" where
  "apply_wait H es p count fun_args = do {
     a \<leftarrow> arr_get fun_args 1;
     if type_of a = VAL_TYPE_I then do {
       let cid = (ucast (dec_i a) :: CID);
       es \<leftarrow> drop_args es p (dec_u count);
       FOF H es p (\<lambda>s. push_u32_2 (hst_malloc H) s (enc_u (ucast cid)) (enc_u K_WAIT))
         (\<lambda>es. do {
           es \<leftarrow> return_value es p (enc_sym DEF_REPR_TRUE);
           yield_ctx es 50000
         })
     } else error_ctx H es (enc_sym DEF_REPR_EERROR)
   }"

definition apply_fundamental ::
  "host \<Rightarrow> eval_state \<Rightarrow> nat \<Rightarrow> VALUE \<Rightarrow> VALUE \<Rightarrow> VALUE list \<Rightarrow> eval_state option" where
  "apply_fundamental H es p count fun_val fun_args = do {
     (res, rt) \<leftarrow> fundamental_exec (hst_float H) (es_rt es) (drop 1 fun_args) (dec_u count) fun_val;
     let es = es\<lparr>es_rt := rt\<rparr>;
     if type_of res = VAL_TYPE_SYMBOL \<and> dec_sym res = DEF_REPR_EERROR then error_ctx H es res
     else if type_of res = VAL_TYPE_SYMBOL \<and> dec_sym res = DEF_REPR_MERROR then
       retry_application H es p count fun_val
     else do {
       es \<leftarrow> drop_args es p (dec_u count);
       return_value es p res
     }
   }"

definition apply_extension ::
  "host \<Rightarrow> eval_state \<Rightarrow> nat \<Rightarrow> VALUE \<Rightarrow> VALUE \<Rightarrow> VALUE list \<Rightarrow> eval_state option" where
  "apply_extension H es p count fun_val fun_args =
     (let f = extensions_lookup (es_extensions es) (dec_sym fun_val) in
      if f = 0 then error_ctx H es (enc_sym DEF_REPR_EERROR)
      else do {
        (ext_res, rt) \<leftarrow> hst_ext H f (es_rt es) (drop 1 fun_args) (dec_u count);
        let es = es\<lparr>es_rt := rt\<rparr>;
        if type_of ext_res = VAL_TYPE_SYMBOL \<and> dec_sym ext_res = DEF_REPR_MERROR then
          retry_application H es p count fun_val
        else do {
          es \<leftarrow> drop_args es p (dec_u count);
          return_value es p ext_res
        }
      })"

definition apply_function :: "host \<Rightarrow> eval_state \<Rightarrow> nat \<Rightarrow> VALUE \<Rightarrow> VALUE list \<Rightarrow> eval_state option" where
  "apply_function H es p count fun_args = do {
     fun_val \<leftarrow> arr_get fun_args 0;
     if type_of fun_val = PTR_TYPE_CONS then apply_closure H es p count fun_val fun_args
     else if type_of fun_val = VAL_TYPE_SYMBOL \<and> dec_sym fun_val = SYM_YIELD then
       apply_yield H es p count fun_args
     else if type_of fun_val = VAL_TYPE_SYMBOL \<and> dec_sym fun_val = SYM_WAIT then
       apply_wait H es p count fun_args
     else if type_of fun_val = VAL_TYPE_SYMBOL \<and> dec_sym fun_val = SYM_EVAL then do {
       a \<leftarrow> arr_get fun_args 1;
       es \<leftarrow> upd_ctx es p (\<lambda>c. c\<lparr>ec_curr_exp := a\<rparr>);
       drop_args es p (dec_u count)
     }
     else if is_fundamental fun_val then apply_fundamental H es p count fun_val fun_args
     else apply_extension H es p count fun_val fun_args
   }"

text \<open>\<open>fun_args\<close> points at the function, \<open>count\<close> elements below the top of the stack.\<close>

definition cont_application :: "host \<Rightarrow> eval_state \<Rightarrow> nat \<Rightarrow> eval_state option" where
  "cont_application H es p = do {
     (count, es) \<leftarrow> on_K es p pop_u32;
     c \<leftarrow> get_ctx es p;
     i \<leftarrow> stack_ptr (ec_K c) (dec_u count + 1);
     d \<leftarrow> sk_data (ec_K c);
     apply_function H es p count (drop (unat i) d)
   }"

definition push_and_eval :: "host \<Rightarrow> eval_state \<Rightarrow> nat \<Rightarrow> VALUE \<Rightarrow> VALUE \<Rightarrow> UINT \<Rightarrow> eval_state option" where
  "push_and_eval H es p rest env k = do {
     d \<leftarrow> cdr (es_heap es) rest;
     a \<leftarrow> car (es_heap es) rest;
     FATAL_ON_FAIL es p (\<lambda>s. push_u32_3 (hst_malloc H) s env d (enc_u k)) (\<lambda>es. eval_in es p a env)
   }"

definition cont_and :: "host \<Rightarrow> eval_state \<Rightarrow> nat \<Rightarrow> VALUE \<Rightarrow> eval_state option" where
  "cont_and H es p arg = do {
     ((rest, env), es) \<leftarrow> on_K es p pop2;
     if type_of arg = VAL_TYPE_SYMBOL \<and> dec_sym arg = DEF_REPR_NIL then
       return_value es p (enc_sym DEF_REPR_NIL)
     else if is_nil rest then app_cont es p
     else push_and_eval H es p rest env K_AND
   }"

definition cont_or :: "host \<Rightarrow> eval_state \<Rightarrow> nat \<Rightarrow> VALUE \<Rightarrow> eval_state option" where
  "cont_or H es p arg = do {
     ((rest, env), es) \<leftarrow> on_K es p pop2;
     if type_of arg \<noteq> VAL_TYPE_SYMBOL \<or> dec_sym arg \<noteq> DEF_REPR_NIL then app_cont es p
     else if is_nil rest then return_value es p (enc_sym DEF_REPR_NIL)
     else push_and_eval H es p rest env K_OR
   }"

definition cont_application_args :: "host \<Rightarrow> eval_state \<Rightarrow> nat \<Rightarrow> VALUE \<Rightarrow> eval_state option" where
  "cont_application_args H es p arg = do {
     ((rest, count, env), es) \<leftarrow> on_K es p pop3;
     if type_of arg = VAL_TYPE_SYMBOL \<and> dec_sym arg = SYM_AND then
       if is_nil rest then return_value es p (enc_sym DEF_REPR_TRUE)
       else push_and_eval H es p rest env K_AND
     else if type_of arg = VAL_TYPE_SYMBOL \<and> dec_sym arg = SYM_OR then
       if is_nil rest then return_value es p (enc_sym DEF_REPR_NIL)
       else push_and_eval H es p rest env K_OR
     else FATAL_ON_FAIL es p (\<lambda>s. push_u32 (hst_malloc H) s arg) (\<lambda>es.
       if is_nil rest then
         FATAL_ON_FAIL es p (\<lambda>s. push_u32_2 (hst_malloc H) s count (enc_u K_APPLICATION))
           (\<lambda>es. app_cont es p)
       else do {
         d \<leftarrow> cdr (es_heap es) rest;
         a \<leftarrow> car (es_heap es) rest;
         FATAL_ON_FAIL es p
           (\<lambda>s. push_u32_4 (hst_malloc H) s env (enc_u (dec_u count + 1)) d (enc_u K_APPLICATION_ARGS))
           (\<lambda>es. eval_in es p a env)
       })
   }"

definition cont_bind_to_key_rest :: "host \<Rightarrow> eval_state \<Rightarrow> nat \<Rightarrow> VALUE \<Rightarrow> eval_state option" where
  "cont_bind_to_key_rest H es p arg = do {
     ((key, env, rest), es) \<leftarrow> on_K es p pop3;
     (_, h) \<leftarrow> env_modify_binding (es_heap es) env key arg;
     let es = set_heap es h;
     if type_of rest = PTR_TYPE_CONS then do {
       b \<leftarrow> car h rest;
       keyn \<leftarrow> car h b;
       bd \<leftarrow> cdr h b;
       valn_exp \<leftarrow> car h bd;
       d \<leftarrow> cdr h rest;
       FATAL_ON_FAIL es p (\<lambda>s. push_u32_4 (hst_malloc H) s d env keyn (enc_u K_BIND_TO_KEY_REST))
         (\<lambda>es. eval_in es p valn_exp env)
     } else do {
       (exp, es) \<leftarrow> on_K es p pop_u32;
       eval_in es p exp env
     }
   }"

definition cont_if :: "eval_state \<Rightarrow> nat \<Rightarrow> VALUE \<Rightarrow> eval_state option" where
  "cont_if es p arg = do {
     ((then_branch, else_branch), es) \<leftarrow> on_K es p pop2;
     if type_of arg = VAL_TYPE_SYMBOL \<and> dec_sym arg = DEF_REPR_TRUE
     then upd_ctx es p (\<lambda>c. c\<lparr>ec_curr_exp := then_branch\<rparr>)
     else upd_ctx es p (\<lambda>c. c\<lparr>ec_curr_exp := else_branch\<rparr>)
   }"

definition switch_cont :: "host \<Rightarrow> eval_state \<Rightarrow> nat \<Rightarrow> UINT \<Rightarrow> VALUE \<Rightarrow> eval_state option" where
  "switch_cont H es p k arg =
     (if k = K_DONE then advance_ctx H es
      else if k = K_SET_GLOBAL_ENV then do {
        es \<leftarrow> cont_set_global_env H es p;
        c \<leftarrow> get_ctx es p;
        if \<not> ec_done c then app_cont es p else Some es
      }
      else if k = K_PROGN_REST then cont_progn_rest H es p
      else if k = K_SPAWN_ALL then cont_spawn_all H es p
      else if k = K_WAIT then cont_wait H es p
      else if k = K_APPLICATION then cont_application H es p
      else if k = K_AND then cont_and H es p arg
      else if k = K_OR then cont_or H es p arg
      else if k = K_APPLICATION_ARGS then cont_application_args H es p arg
      else if k = K_BIND_TO_KEY_REST then cont_bind_to_key_rest H es p arg
      else if k = K_IF then cont_if es p arg
      else error_ctx H es (enc_sym DEF_REPR_EERROR))"

definition apply_continuation :: "host \<Rightarrow> eval_state \<Rightarrow> nat \<Rightarrow> eval_state option" where
  "apply_continuation H es p = do {
     (k, es) \<leftarrow> on_K es p pop_u32;
     c \<leftarrow> get_ctx es p;
     let arg = ec_r c;
     es \<leftarrow> upd_ctx es p (\<lambda>c. c\<lparr>ec_app_cont := False\<rparr>);
     switch_cont H es p (dec_u k) arg
   }"

subsection \<open>Garbage collection\<close>

definition gc_mark_value :: "heap_state \<Rightarrow> VALUE \<Rightarrow> heap_state option" where
  "gc_mark_value h v = map_option snd (gc_mark_phase h v)"

definition gc_mark_context :: "heap_state \<Rightarrow> eval_context \<Rightarrow> heap_state option" where
  "gc_mark_context h c = do {
     h \<leftarrow> gc_mark_value h (ec_curr_env c);
     h \<leftarrow> gc_mark_value h (ec_curr_exp c);
     h \<leftarrow> gc_mark_value h (ec_program c);
     h \<leftarrow> gc_mark_value h (ec_r c);
     d \<leftarrow> sk_data (ec_K c);
     if length d < unat (sk_sp (ec_K c)) then None
     else map_option snd (gc_mark_aux h (take (unat (sk_sp (ec_K c))) d))
   }"

partial_function (option) gc_mark_runnable :: "eval_state \<Rightarrow> heap_state \<Rightarrow> nat \<Rightarrow> heap_state option" where
  "gc_mark_runnable es h cur =
     (if cur \<noteq> 0 then
        Option.bind (get_ctx es cur) (\<lambda>c.
        Option.bind (gc_mark_context h c) (\<lambda>h. gc_mark_runnable es h (ec_next c)))
      else Some h)"

partial_function (option) gc_mark_done :: "eval_state \<Rightarrow> heap_state \<Rightarrow> nat \<Rightarrow> heap_state option" where
  "gc_mark_done es h cur =
     (if cur \<noteq> 0 then
        Option.bind (get_ctx es cur) (\<lambda>c.
        Option.bind (gc_mark_value h (ec_r c)) (\<lambda>h. gc_mark_done es h (ec_next c)))
      else Some h)"

definition gc :: "eval_state \<Rightarrow> eval_state option" where
  "gc es = do {
     let h = gc_state_inc (es_heap es);
     (_, h) \<leftarrow> gc_mark_freelist h;
     h \<leftarrow> gc_mark_value h (es_env_global es);
     h \<leftarrow> gc_mark_runnable es h (es_queue es);
     h \<leftarrow> gc_mark_done es h (es_done es);
     c \<leftarrow> get_ctx es (es_running es);
     h \<leftarrow> gc_mark_context h c;
     (_, h, m) \<leftarrow> gc_sweep_phase h (rt_mem (es_rt es));
     Some (es\<lparr>es_rt := (es_rt es)\<lparr>rt_heap := h, rt_mem := m\<rparr>\<rparr>)
   }"

subsection \<open>Special forms\<close>

definition eval_symbol :: "eval_state \<Rightarrow> nat \<Rightarrow> eval_context \<Rightarrow> eval_state option" where
  "eval_symbol es p c = do {
     let exp = ec_curr_exp c;
     v \<leftarrow> (if is_special exp \<or> extensions_lookup (es_extensions es) (dec_sym exp) \<noteq> 0 then Some exp
           else do {
             v \<leftarrow> env_lookup (es_heap es) exp (ec_curr_env c);
             if type_of v = VAL_TYPE_SYMBOL \<and> dec_sym v = DEF_REPR_NOT_FOUND
             then env_lookup (es_heap es) exp (es_env_global es)
             else Some v
           });
     return_value es p v
   }"

definition eval_quote :: "eval_state \<Rightarrow> nat \<Rightarrow> eval_context \<Rightarrow> eval_state option" where
  "eval_quote es p c = do {
     d \<leftarrow> cdr (es_heap es) (ec_curr_exp c);
     v \<leftarrow> car (es_heap es) d;
     return_value es p v
   }"

definition eval_define :: "host \<Rightarrow> eval_state \<Rightarrow> nat \<Rightarrow> eval_context \<Rightarrow> eval_state option" where
  "eval_define H es p c = do {
     d1 \<leftarrow> cdr (es_heap es) (ec_curr_exp c);
     key \<leftarrow> car (es_heap es) d1;
     d2 \<leftarrow> cdr (es_heap es) d1;
     val_exp \<leftarrow> car (es_heap es) d2;
     if type_of key \<noteq> VAL_TYPE_SYMBOL \<or> key = NIL then error_ctx H es (enc_sym DEF_REPR_EERROR)
     else FOF H es p (\<lambda>s. push_u32_2 (hst_malloc H) s key (enc_u K_SET_GLOBAL_ENV))
       (\<lambda>es. upd_ctx es p (\<lambda>c. c\<lparr>ec_curr_exp := val_exp\<rparr>))
   }"

definition eval_progn :: "host \<Rightarrow> eval_state \<Rightarrow> nat \<Rightarrow> eval_context \<Rightarrow> eval_state option" where
  "eval_progn H es p c = do {
     exps \<leftarrow> cdr (es_heap es) (ec_curr_exp c);
     let env = ec_curr_env c;
     if is_nil exps then return_value es p NIL
     else if symrepr_is_error exps then error_ctx H es exps
     else do {
       d \<leftarrow> cdr (es_heap es) exps;
       a \<leftarrow> car (es_heap es) exps;
       FOF H es p (\<lambda>s. push_u32_3 (hst_malloc H) s env d (enc_u K_PROGN_REST)) (\<lambda>es. eval_in es p a env)
     }
   }"

definition eval_spawn :: "host \<Rightarrow> eval_state \<Rightarrow> nat \<Rightarrow> eval_context \<Rightarrow> eval_state option" where
  "eval_spawn H es p c = do {
     prgs \<leftarrow> cdr (es_heap es) (ec_curr_exp c);
     let env = ec_curr_env c;
     if is_nil prgs then return_value es p NIL
     else FOF H es p (\<lambda>s. push_u32_3 (hst_malloc H) s env prgs (enc_u K_SPAWN_ALL))
       (\<lambda>es. return_value es p NIL)
   }"

definition collect_and_resume :: "eval_state \<Rightarrow> nat \<Rightarrow> eval_state option" where
  "collect_and_resume es p = upd_ctx (es\<lparr>es_perform_gc := True\<rparr>) p (\<lambda>c. c\<lparr>ec_app_cont := False\<rparr>)"

definition eval_lambda :: "eval_state \<Rightarrow> nat \<Rightarrow> eval_context \<Rightarrow> eval_state option" where
  "eval_lambda es p c = do {
     (env_cpy, h) \<leftarrow> env_copy_shallow (es_heap es) (ec_curr_env c);
     if type_of env_cpy = VAL_TYPE_SYMBOL \<and> dec_sym env_cpy = DEF_REPR_MERROR then
       collect_and_resume (set_heap es h) p
     else do {
       (env_end, h) \<leftarrow> cons h env_cpy NIL;
       d1 \<leftarrow> cdr h (ec_curr_exp c);
       d2 \<leftarrow> cdr h d1;
       b \<leftarrow> car h d2;
       (body, h) \<leftarrow> cons h b env_end;
       ps \<leftarrow> car h d1;
       (params, h) \<leftarrow> cons h ps body;
       (closure, h) \<leftarrow> cons h (enc_sym DEF_REPR_CLOSURE) params;
       let es = set_heap es h;
       if type_of env_end = VAL_TYPE_SYMBOL \<or> type_of body = VAL_TYPE_SYMBOL \<or>
          type_of params = VAL_TYPE_SYMBOL \<or> type_of closure = VAL_TYPE_SYMBOL
       then collect_and_resume es p
       else return_value es p closure
     }
   }"

definition eval_if :: "host \<Rightarrow> eval_state \<Rightarrow> nat \<Rightarrow> eval_context \<Rightarrow> eval_state option" where
  "eval_if H es p c = do {
     d1 \<leftarrow> cdr (es_heap es) (ec_curr_exp c);
     d2 \<leftarrow> cdr (es_heap es) d1;
     d3 \<leftarrow> cdr (es_heap es) d2;
     else_branch \<leftarrow> car (es_heap es) d3;
     then_branch \<leftarrow> car (es_heap es) d2;
     cond \<leftarrow> car (es_heap es) d1;
     FOF H es p (\<lambda>s. push_u32_3 (hst_malloc H) s else_branch then_branch (enc_u K_IF))
       (\<lambda>es. upd_ctx es p (\<lambda>c. c\<lparr>ec_curr_exp := cond\<rparr>))
   }"

text \<open>The keys of a \<open>let\<close> are bound to \<open>nil\<close> first; \<open>None\<close> inside when the heap is full.\<close>

partial_function (option) let_prealloc :: "heap_state \<Rightarrow> VALUE \<Rightarrow> VALUE \<Rightarrow> (VALUE option \<times> heap_state) option" where
  "let_prealloc h cur new_env =
     (if type_of cur = PTR_TYPE_CONS then
        Option.bind (car h cur) (\<lambda>b.
        Option.bind (car h b) (\<lambda>key.
        Option.bind (cons h key NIL) (\<lambda>(binding, h).
        Option.bind (cons h binding new_env) (\<lambda>(new_env, h).
          if type_of binding = VAL_TYPE_SYMBOL \<or> type_of new_env = VAL_TYPE_SYMBOL then Some (None, h)
          else Option.bind (cdr h cur) (\<lambda>cur. let_prealloc h cur new_env)))))
      else Some (Some new_env, h))"

definition eval_let :: "host \<Rightarrow> eval_state \<Rightarrow> nat \<Rightarrow> eval_context \<Rightarrow> eval_state option" where
  "eval_let H es p c = do {
     d1 \<leftarrow> cdr (es_heap es) (ec_curr_exp c);
     binds \<leftarrow> car (es_heap es) d1;
     d2 \<leftarrow> cdr (es_heap es) d1;
     exp \<leftarrow> car (es_heap es) d2;
     if type_of binds \<noteq> PTR_TYPE_CONS then upd_ctx es p (\<lambda>c. c\<lparr>ec_curr_exp := exp\<rparr>)
     else do {
       (r, h) \<leftarrow> let_prealloc (es_heap es) binds (ec_curr_env c);
       let es = set_heap es h;
       case r of
         None \<Rightarrow> collect_and_resume es p
       | Some new_env \<Rightarrow> do {
           b \<leftarrow> car h binds;
           key0 \<leftarrow> car h b;
           bd \<leftarrow> cdr h b;
           val0_exp \<leftarrow> car h bd;
           rest \<leftarrow> cdr h binds;
           FOF H es p (\<lambda>s. push_u32_5 (hst_malloc H) s exp rest new_env key0 (enc_u K_BIND_TO_KEY_REST))
             (\<lambda>es. eval_in es p val0_exp new_env)
         }
     }
   }"

definition eval_application :: "host \<Rightarrow> eval_state \<Rightarrow> nat \<Rightarrow> eval_context \<Rightarrow> VALUE \<Rightarrow> eval_state option" where
  "eval_application H es p c head = do {
     d \<leftarrow> cdr (es_heap es) (ec_curr_exp c);
     FOF H es p (\<lambda>s. push_u32_4 (hst_malloc H) s (ec_curr_env c) (enc_u 0) d (enc_u K_APPLICATION_ARGS))
       (\<lambda>es. upd_ctx es p (\<lambda>c. c\<lparr>ec_curr_exp := head\<rparr>))
   }"

definition eval_cons :: "host \<Rightarrow> eval_state \<Rightarrow> nat \<Rightarrow> eval_context \<Rightarrow> eval_state option" where
  "eval_cons H es p c = do {
     head \<leftarrow> car (es_heap es) (ec_curr_exp c);
     let sym_id = dec_sym head;
     if type_of head \<noteq> VAL_TYPE_SYMBOL then eval_application H es p c head
     else if sym_id = DEF_REPR_QUOTE then eval_quote es p c
     else if sym_id = DEF_REPR_DEFINE then eval_define H es p c
     else if sym_id = DEF_REPR_PROGN then eval_progn H es p c
     else if sym_id = SYM_SPAWN then eval_spawn H es p c
     else if sym_id = DEF_REPR_LAMBDA then eval_lambda es p c
     else if sym_id = DEF_REPR_IF then eval_if H es p c
     else if sym_id = DEF_REPR_LET then eval_let H es p c
     else eval_application H es p c head
   }"

subsection \<open>The evaluator\<close>

text \<open>\<open>Inl\<close>: the step ends with an error before anything is evaluated.\<close>

definition gc_if_asked :: "host \<Rightarrow> eval_state \<Rightarrow> (eval_state + eval_state) option" where
  "gc_if_asked H es =
     (if es_perform_gc es then
        if es_last_iteration_gc es then map_option Inl (error_ctx H es (enc_sym DEF_REPR_MERROR))
        else do {
          es \<leftarrow> gc (es\<lparr>es_last_iteration_gc := True\<rparr>);
          Some (Inr (es\<lparr>es_perform_gc := False\<rparr>))
        }
      else Some (Inr (es\<lparr>es_last_iteration_gc := False\<rparr>)))"

definition evaluation_step :: "host \<Rightarrow> eval_state \<Rightarrow> eval_state option" where
  "evaluation_step H es = do {
     let p = es_running es;
     r \<leftarrow> gc_if_asked H es;
     case r of
       Inl es \<Rightarrow> Some es
     | Inr es \<Rightarrow> do {
         c \<leftarrow> get_ctx es p;
         if ec_app_cont c then apply_continuation H es p
         else
           let t = type_of (ec_curr_exp c) in
           if t = VAL_TYPE_SYMBOL then eval_symbol es p c
           else if t = PTR_TYPE_BOXED_F \<or> t = PTR_TYPE_BOXED_U \<or> t = PTR_TYPE_BOXED_I \<or> t = VAL_TYPE_I \<or>
             t = VAL_TYPE_U \<or> t = VAL_TYPE_CHAR \<or> t = PTR_TYPE_ARRAY
           then return_value es p (ec_curr_exp c)
           else if t = PTR_TYPE_REF \<or> t = PTR_TYPE_STREAM then error_ctx H es (enc_sym DEF_REPR_EERROR)
           else if t = PTR_TYPE_CONS then eval_cons H es p c
           else error_ctx H es (enc_sym DEF_REPR_EERROR)
       }
   }"

partial_function (option) eval_loop_nc :: "host \<Rightarrow> eval_state \<Rightarrow> eval_state option" where
  "eval_loop_nc H es =
     (if es_running es \<noteq> 0 then Option.bind (evaluation_step H es) (eval_loop_nc H) else Some es)"

text \<open>The static \<open>ctx_non_concurrent\<close> is the context at address 1.\<close>

abbreviation (input) "ctx_non_concurrent \<equiv> (1 :: nat)"

definition evaluate_non_concurrent :: "host \<Rightarrow> eval_state \<Rightarrow> (VALUE \<times> eval_state) option" where
  "evaluate_non_concurrent H es = do {
     es \<leftarrow> eval_loop_nc H (es\<lparr>es_perform_gc := False, es_last_iteration_gc := False\<rparr>);
     if es_done es = 0 then Some (enc_sym DEF_REPR_FATAL_ERROR, es)
     else do {
       c \<leftarrow> get_ctx es ctx_non_concurrent;
       Some (ec_r c, es\<lparr>es_done := 0\<rparr>)
     }
   }"

definition eval_cps_program_ext :: "host \<Rightarrow> eval_state \<Rightarrow> VALUE \<Rightarrow> UINT \<Rightarrow> bool \<Rightarrow> (CID \<times> eval_state) option" where
  "eval_cps_program_ext H es lisp stack_size grow_stack = create_ctx H es lisp NIL stack_size grow_stack"

definition eval_cps_program :: "host \<Rightarrow> eval_state \<Rightarrow> VALUE \<Rightarrow> (CID \<times> eval_state) option" where
  "eval_cps_program H es lisp = create_ctx H es lisp NIL 256 False"

definition eval_cps_program_nc :: "host \<Rightarrow> eval_state \<Rightarrow> VALUE \<Rightarrow> (VALUE \<times> eval_state) option" where
  "eval_cps_program_nc H es lisp =
     (if type_of lisp \<noteq> PTR_TYPE_CONS then Some (enc_sym DEF_REPR_EERROR, es)
      else do {
        prg \<leftarrow> cdr (es_heap es) lisp;
        exp \<leftarrow> car (es_heap es) lisp;
        es \<leftarrow> upd_ctx es ctx_non_concurrent (\<lambda>c. c\<lparr>ec_program := prg, ec_curr_exp := exp, ec_curr_env := NIL,
          ec_done := False, ec_app_cont := False, ec_timestamp := 0, ec_sleep_us := 0, ec_id := 0\<rparr>);
        (_, es) \<leftarrow> on_K es ctx_non_concurrent (\<lambda>s. Some (stack_clear s));
        (ok, es) \<leftarrow> on_K es ctx_non_concurrent (\<lambda>s. push_u32 (hst_malloc H) s (enc_u K_DONE));
        if \<not> ok then Some (enc_sym DEF_REPR_MERROR, es)
        else evaluate_non_concurrent H (es\<lparr>es_running := ctx_non_concurrent\<rparr>)
      })"

definition init_global_env :: "eval_state \<Rightarrow> (bool \<times> eval_state) option" where
  "init_global_env es = do {
     (nil_entry, h) \<leftarrow> cons (es_heap es) NIL NIL;
     (env, h) \<leftarrow> cons h nil_entry (es_env_global es);
     let es = (set_heap es h)\<lparr>es_env_global := env\<rparr>;
     Some (\<not> (type_of nil_entry = VAL_TYPE_SYMBOL \<or> type_of env = VAL_TYPE_SYMBOL), es)
   }"

definition eval_cps_init_nc :: "host \<Rightarrow> eval_state \<Rightarrow> UINT \<Rightarrow> bool \<Rightarrow> (bool \<times> eval_state) option" where
  "eval_cps_init_nc H es stack_size grow_stack = do {
     (ok, es) \<leftarrow> init_global_env es;
     if \<not> ok then Some (False, es)
     else on_K es ctx_non_concurrent (\<lambda>s. Some (stack_allocate (hst_malloc H) s stack_size grow_stack))
   }"

definition eval_cps_init :: "eval_state \<Rightarrow> (bool \<times> eval_state) option" where
  "eval_cps_init es = do {
     (ok, es) \<leftarrow> init_global_env es;
     Some (ok, es\<lparr>es_eval_running := True\<rparr>)
   }"

definition eval_cps_del :: "eval_state \<Rightarrow> eval_state option" where
  "eval_cps_del es = do {
     (_, es) \<leftarrow> on_K es ctx_non_concurrent (\<lambda>s. Some ((), stack_free s));
     Some es
   }"

end
