(* ===== verification/Eval_Spec.thy ===== *)
theory Eval_Spec
  imports Eval_Cps
begin

text \<open>
  A big-step specification of the Lisp dialect that \<open>src/eval_cps.c\<close> evaluates, without stack,
  continuations and garbage collection.

  The evaluation of an expression is divided into tasks: the expression itself, the rest of a
  sequence, of a conjunction, of a disjunction, of the bindings of a \<open>let\<close> or of an argument list,
  and the application of a function to its arguments. \<open>runs H exts n t s v s'\<close> says that the task
  \<open>t\<close> in the scene \<open>s\<close> (heap, memory and symbols; global environment; current environment) has the
  value \<open>v\<close> and ends in \<open>s'\<close>, and that \<open>n\<close> words of evaluation stack are enough for it.

  The scene carries the current environment along because the evaluator does so: after a condition
  or an inner expression of a sequence it does not go back to the environment of the form itself.
\<close>

record scene =
  sc_rt :: runtime
  sc_global :: VALUE
  sc_env :: VALUE

abbreviation sc_heap :: "scene \<Rightarrow> heap_state" where
  "sc_heap s \<equiv> rt_heap (sc_rt s)"

definition with_h :: "scene \<Rightarrow> heap_state \<Rightarrow> scene" where
  "with_h s h = s\<lparr>sc_rt := (sc_rt s)\<lparr>rt_heap := h\<rparr>\<rparr>"

definition is_sym :: "VALUE \<Rightarrow> UINT \<Rightarrow> bool" where
  "is_sym v i \<longleftrightarrow> type_of v = VAL_TYPE_SYMBOL \<and> dec_sym v = i"

definition self_evaluating :: "VALUE \<Rightarrow> bool" where
  "self_evaluating v \<longleftrightarrow> type_of v \<in> {PTR_TYPE_BOXED_F, PTR_TYPE_BOXED_U, PTR_TYPE_BOXED_I, VAL_TYPE_I,
     VAL_TYPE_U, VAL_TYPE_CHAR, PTR_TYPE_ARRAY}"

text \<open>A form \<open>(head . tail)\<close> in the heap, and the heads that are not applied to arguments.\<close>

definition form :: "heap_state \<Rightarrow> VALUE \<Rightarrow> VALUE \<Rightarrow> VALUE \<Rightarrow> bool" where
  "form h exp a d \<longleftrightarrow> type_of exp = PTR_TYPE_CONS \<and> car h exp = Some a \<and> cdr h exp = Some d"

definition special_head :: "VALUE \<Rightarrow> bool" where
  "special_head v \<longleftrightarrow> type_of v = VAL_TYPE_SYMBOL \<and>
     dec_sym v \<in> {DEF_REPR_QUOTE, DEF_REPR_DEFINE, DEF_REPR_PROGN, SYM_SPAWN, DEF_REPR_LAMBDA, DEF_REPR_IF,
       DEF_REPR_LET}"

text \<open>A special symbol or one of an extension stands for itself; others are looked up.\<close>

definition symbol_value :: "extensions \<Rightarrow> scene \<Rightarrow> VALUE \<Rightarrow> VALUE option" where
  "symbol_value exts s exp =
     (if is_special exp \<or> extensions_lookup exts (dec_sym exp) \<noteq> 0 then Some exp
      else do {
        v \<leftarrow> env_lookup (sc_heap s) exp (sc_env s);
        if is_sym v DEF_REPR_NOT_FOUND then env_lookup (sc_heap s) exp (sc_global s) else Some v
      })"

text \<open>
  The closure \<open>(closure params body env)\<close> of a lambda expression, with a copy of the environment's spine;
  \<open>None\<close> when the heap is too full for it.
\<close>

definition make_closure :: "heap_state \<Rightarrow> VALUE \<Rightarrow> VALUE \<Rightarrow> (VALUE \<times> heap_state) option" where
  "make_closure h env e = do {
     (env_cpy, h) \<leftarrow> env_copy_shallow h env;
     if is_sym env_cpy DEF_REPR_MERROR then None else do {
       (env_end, h) \<leftarrow> cons h env_cpy NIL;
       d \<leftarrow> cdr h e;
       d2 \<leftarrow> cdr h d;
       b \<leftarrow> car h d2;
       (body, h) \<leftarrow> cons h b env_end;
       ps \<leftarrow> car h d;
       (params, h) \<leftarrow> cons h ps body;
       (closure, h) \<leftarrow> cons h (enc_sym DEF_REPR_CLOSURE) params;
       if \<exists>v \<in> {env_end, body, params, closure}. type_of v = VAL_TYPE_SYMBOL then None
       else Some (closure, h)
     }
   }"

datatype task =
    Eval VALUE
  | Rest VALUE VALUE VALUE
  | Conj VALUE VALUE VALUE
  | Disj VALUE VALUE VALUE
  | Bind VALUE VALUE VALUE VALUE VALUE
  | Args VALUE "VALUE list" VALUE VALUE
  | Apply VALUE "VALUE list"

inductive runs :: "host \<Rightarrow> extensions \<Rightarrow> nat \<Rightarrow> task \<Rightarrow> scene \<Rightarrow> VALUE \<Rightarrow> scene \<Rightarrow> bool" for H exts where
  eval_self: "self_evaluating e \<Longrightarrow> runs H exts 0 (Eval e) s e s"
| eval_symbol: "type_of e = VAL_TYPE_SYMBOL \<Longrightarrow> symbol_value exts s e = Some v \<Longrightarrow> runs H exts 0 (Eval e) s v s"
| eval_quote: "form (sc_heap s) e a d \<Longrightarrow> is_sym a DEF_REPR_QUOTE \<Longrightarrow> car (sc_heap s) d = Some v \<Longrightarrow>
    runs H exts 0 (Eval e) s v s"
| eval_define: "form (sc_heap s) e a d \<Longrightarrow> is_sym a DEF_REPR_DEFINE \<Longrightarrow>
    car (sc_heap s) d = Some key \<Longrightarrow> cdr (sc_heap s) d = Some d2 \<Longrightarrow> car (sc_heap s) d2 = Some val_exp \<Longrightarrow>
    type_of key = VAL_TYPE_SYMBOL \<Longrightarrow> key \<noteq> NIL \<Longrightarrow>
    runs H exts n (Eval val_exp) s v s1 \<Longrightarrow>
    env_set (sc_heap s1) (sc_global s1) key v = Some (ge, h) \<Longrightarrow>
    \<not> is_sym ge DEF_REPR_MERROR \<Longrightarrow> \<not> is_sym ge DEF_REPR_FATAL_ERROR \<Longrightarrow>
    runs H exts (n + 2) (Eval e) s key ((with_h s1 h)\<lparr>sc_global := ge\<rparr>)"
| eval_progn_nil: "form (sc_heap s) e a NIL \<Longrightarrow> is_sym a DEF_REPR_PROGN \<Longrightarrow> runs H exts 0 (Eval e) s NIL s"
| eval_progn: "form (sc_heap s) e a exps \<Longrightarrow> is_sym a DEF_REPR_PROGN \<Longrightarrow>
    \<not> is_nil exps \<Longrightarrow> \<not> symrepr_is_error exps \<Longrightarrow>
    car (sc_heap s) exps = Some x \<Longrightarrow> cdr (sc_heap s) exps = Some xs \<Longrightarrow>
    runs H exts n (Eval x) s v s1 \<Longrightarrow> runs H exts m (Rest (sc_env s) xs v) s1 w s2 \<Longrightarrow>
    runs H exts (max (n + 3) m) (Eval e) s w s2"
| rest_nil: "is_nil xs \<Longrightarrow> runs H exts 0 (Rest env xs v) s v s"
| rest_last: "\<not> is_nil xs \<Longrightarrow> \<not> symrepr_is_error xs \<Longrightarrow> car (sc_heap s) xs = Some x \<Longrightarrow>
    cdr (sc_heap s) xs = Some d \<Longrightarrow> is_nil d \<Longrightarrow> runs H exts n (Eval x) s w s1 \<Longrightarrow>
    runs H exts n (Rest env xs v) s w s1"
| rest_more: "\<not> is_nil xs \<Longrightarrow> \<not> symrepr_is_error xs \<Longrightarrow> car (sc_heap s) xs = Some x \<Longrightarrow>
    cdr (sc_heap s) xs = Some d \<Longrightarrow> \<not> is_nil d \<Longrightarrow> runs H exts n (Eval x) (s\<lparr>sc_env := env\<rparr>) v1 s1 \<Longrightarrow>
    runs H exts m (Rest env d v1) s1 w s2 \<Longrightarrow>
    runs H exts (max (n + 3) m) (Rest env xs v) s w s2"
| eval_if: "form (sc_heap s) e a d \<Longrightarrow> is_sym a DEF_REPR_IF \<Longrightarrow> car (sc_heap s) d = Some c \<Longrightarrow>
    cdr (sc_heap s) d = Some d2 \<Longrightarrow> car (sc_heap s) d2 = Some x \<Longrightarrow> cdr (sc_heap s) d2 = Some d3 \<Longrightarrow>
    car (sc_heap s) d3 = Some y \<Longrightarrow> runs H exts n (Eval c) s v s1 \<Longrightarrow>
    runs H exts m (Eval (if is_sym v DEF_REPR_TRUE then x else y)) s1 w s2 \<Longrightarrow>
    runs H exts (max (n + 3) m) (Eval e) s w s2"
| eval_lambda: "form (sc_heap s) e a d \<Longrightarrow> is_sym a DEF_REPR_LAMBDA \<Longrightarrow>
    make_closure (sc_heap s) (sc_env s) e = Some (v, h) \<Longrightarrow> runs H exts 0 (Eval e) s v (with_h s h)"
| eval_let_nil: "form (sc_heap s) e a d \<Longrightarrow> is_sym a DEF_REPR_LET \<Longrightarrow> car (sc_heap s) d = Some binds \<Longrightarrow>
    cdr (sc_heap s) d = Some d2 \<Longrightarrow> car (sc_heap s) d2 = Some body \<Longrightarrow> type_of binds \<noteq> PTR_TYPE_CONS \<Longrightarrow>
    runs H exts n (Eval body) s v s1 \<Longrightarrow> runs H exts n (Eval e) s v s1"
| eval_let: "form (sc_heap s) e a d \<Longrightarrow> is_sym a DEF_REPR_LET \<Longrightarrow> car (sc_heap s) d = Some binds \<Longrightarrow>
    cdr (sc_heap s) d = Some d2 \<Longrightarrow> car (sc_heap s) d2 = Some body \<Longrightarrow> type_of binds = PTR_TYPE_CONS \<Longrightarrow>
    let_prealloc (sc_heap s) binds (sc_env s) = Some (Some env, h) \<Longrightarrow>
    car h binds = Some b \<Longrightarrow> cdr h binds = Some bs \<Longrightarrow> car h b = Some key \<Longrightarrow> cdr h b = Some bd \<Longrightarrow>
    car h bd = Some x \<Longrightarrow>
    runs H exts n (Eval x) ((with_h s h)\<lparr>sc_env := env\<rparr>) v s1 \<Longrightarrow>
    runs H exts m (Bind body env key bs v) s1 w s2 \<Longrightarrow>
    runs H exts (max (n + 5) m) (Eval e) s w s2"
| bind_last: "env_modify_binding (sc_heap s) env key v = Some (r, h) \<Longrightarrow> type_of bs \<noteq> PTR_TYPE_CONS \<Longrightarrow>
    runs H exts n (Eval body) ((with_h s h)\<lparr>sc_env := env\<rparr>) w s1 \<Longrightarrow>
    runs H exts n (Bind body env key bs v) s w s1"
| bind_more: "env_modify_binding (sc_heap s) env key v = Some (r, h) \<Longrightarrow> type_of bs = PTR_TYPE_CONS \<Longrightarrow>
    car h bs = Some b \<Longrightarrow> cdr h bs = Some bs' \<Longrightarrow> car h b = Some key' \<Longrightarrow> cdr h b = Some bd \<Longrightarrow>
    car h bd = Some x \<Longrightarrow>
    runs H exts n (Eval x) ((with_h s h)\<lparr>sc_env := env\<rparr>) v' s1 \<Longrightarrow>
    runs H exts m (Bind body env key' bs' v') s1 w s2 \<Longrightarrow>
    runs H exts (max (n + 5) m) (Bind body env key bs v) s w s2"
| eval_application: "form (sc_heap s) e a d \<Longrightarrow> \<not> special_head a \<Longrightarrow>
    runs H exts n (Eval a) s v s1 \<Longrightarrow> runs H exts m (Args (sc_env s) [] d v) s1 w s2 \<Longrightarrow>
    runs H exts (max (n + 4) m) (Eval e) s w s2"
| args_and_nil: "is_sym v SYM_AND \<Longrightarrow> is_nil xs \<Longrightarrow>
    runs H exts 0 (Args env [] xs v) s (enc_sym DEF_REPR_TRUE) s"
| args_and: "is_sym v SYM_AND \<Longrightarrow> \<not> is_nil xs \<Longrightarrow> car (sc_heap s) xs = Some x \<Longrightarrow> cdr (sc_heap s) xs = Some d \<Longrightarrow>
    runs H exts n (Eval x) (s\<lparr>sc_env := env\<rparr>) v1 s1 \<Longrightarrow> runs H exts m (Conj env d v1) s1 w s2 \<Longrightarrow>
    runs H exts (max (n + 3) m) (Args env [] xs v) s w s2"
| conj_nil: "is_sym v DEF_REPR_NIL \<Longrightarrow> runs H exts 0 (Conj env xs v) s NIL s"
| conj_last: "\<not> is_sym v DEF_REPR_NIL \<Longrightarrow> is_nil xs \<Longrightarrow> runs H exts 0 (Conj env xs v) s v s"
| conj_more: "\<not> is_sym v DEF_REPR_NIL \<Longrightarrow> \<not> is_nil xs \<Longrightarrow> car (sc_heap s) xs = Some x \<Longrightarrow>
    cdr (sc_heap s) xs = Some d \<Longrightarrow>
    runs H exts n (Eval x) (s\<lparr>sc_env := env\<rparr>) v1 s1 \<Longrightarrow> runs H exts m (Conj env d v1) s1 w s2 \<Longrightarrow>
    runs H exts (max (n + 3) m) (Conj env xs v) s w s2"
| args_or_nil: "is_sym v SYM_OR \<Longrightarrow> is_nil xs \<Longrightarrow> runs H exts 0 (Args env [] xs v) s NIL s"
| args_or: "is_sym v SYM_OR \<Longrightarrow> \<not> is_nil xs \<Longrightarrow> car (sc_heap s) xs = Some x \<Longrightarrow> cdr (sc_heap s) xs = Some d \<Longrightarrow>
    runs H exts n (Eval x) (s\<lparr>sc_env := env\<rparr>) v1 s1 \<Longrightarrow> runs H exts m (Disj env d v1) s1 w s2 \<Longrightarrow>
    runs H exts (max (n + 3) m) (Args env [] xs v) s w s2"
| disj_true: "\<not> is_sym v DEF_REPR_NIL \<Longrightarrow> runs H exts 0 (Disj env xs v) s v s"
| disj_last: "is_sym v DEF_REPR_NIL \<Longrightarrow> is_nil xs \<Longrightarrow> runs H exts 0 (Disj env xs v) s NIL s"
| disj_more: "is_sym v DEF_REPR_NIL \<Longrightarrow> \<not> is_nil xs \<Longrightarrow> car (sc_heap s) xs = Some x \<Longrightarrow>
    cdr (sc_heap s) xs = Some d \<Longrightarrow>
    runs H exts n (Eval x) (s\<lparr>sc_env := env\<rparr>) v1 s1 \<Longrightarrow> runs H exts m (Disj env d v1) s1 w s2 \<Longrightarrow>
    runs H exts (max (n + 3) m) (Disj env xs v) s w s2"
| args_done: "\<not> is_sym v SYM_AND \<Longrightarrow> \<not> is_sym v SYM_OR \<Longrightarrow> is_nil xs \<Longrightarrow> rev (v # acc) = f # vs \<Longrightarrow>
    runs H exts m (Apply f vs) s w s1 \<Longrightarrow>
    runs H exts (max (length acc + 3) m) (Args env acc xs v) s w s1"
| args_more: "\<not> is_sym v SYM_AND \<Longrightarrow> \<not> is_sym v SYM_OR \<Longrightarrow> \<not> is_nil xs \<Longrightarrow> car (sc_heap s) xs = Some x \<Longrightarrow>
    cdr (sc_heap s) xs = Some d \<Longrightarrow>
    runs H exts n (Eval x) (s\<lparr>sc_env := env\<rparr>) v1 s1 \<Longrightarrow> runs H exts m (Args env (v # acc) d v1) s1 w s2 \<Longrightarrow>
    runs H exts (max (length acc + 5 + n) m) (Args env acc xs v) s w s2"
| apply_closure: "type_of f = PTR_TYPE_CONS \<Longrightarrow>
    closure_args (sc_heap s) (f # vs) NIL (length vs) = Some (Inr args, h) \<Longrightarrow>
    cdr h f = Some d1 \<Longrightarrow> car h d1 = Some params \<Longrightarrow> cdr h d1 = Some d2 \<Longrightarrow> car h d2 = Some body \<Longrightarrow>
    cdr h d2 = Some d3 \<Longrightarrow> car h d3 = Some clo_env \<Longrightarrow>
    length_list h params = Some np \<Longrightarrow> length_list h args = Some np \<Longrightarrow>
    env_build_params_args h params args clo_env = Some (env, h1) \<Longrightarrow>
    \<not> is_sym env DEF_REPR_MERROR \<Longrightarrow> \<not> is_sym env DEF_REPR_FATAL_ERROR \<Longrightarrow>
    runs H exts n (Eval body) ((with_h s h1)\<lparr>sc_env := env\<rparr>) w s1 \<Longrightarrow> runs H exts n (Apply f vs) s w s1"
| apply_eval: "is_sym f SYM_EVAL \<Longrightarrow> runs H exts n (Eval x) s w s1 \<Longrightarrow> runs H exts n (Apply f (x # vs)) s w s1"
| apply_fundamental: "type_of f = VAL_TYPE_SYMBOL \<Longrightarrow> dec_sym f \<notin> {SYM_YIELD, SYM_WAIT, SYM_EVAL} \<Longrightarrow>
    is_fundamental f \<Longrightarrow>
    (\<forall>rest. fundamental_exec (hst_float H) (sc_rt s) (vs @ rest) (of_nat (length vs)) f = Some (w, rt)) \<Longrightarrow>
    \<not> is_sym w DEF_REPR_EERROR \<Longrightarrow> \<not> is_sym w DEF_REPR_MERROR \<Longrightarrow>
    runs H exts 0 (Apply f vs) s w (s\<lparr>sc_rt := rt\<rparr>)"
| apply_extension: "type_of f \<noteq> PTR_TYPE_CONS \<Longrightarrow>
    \<not> (type_of f = VAL_TYPE_SYMBOL \<and> (dec_sym f \<in> {SYM_YIELD, SYM_WAIT, SYM_EVAL} \<or> is_fundamental f)) \<Longrightarrow>
    extensions_lookup exts (dec_sym f) \<noteq> 0 \<Longrightarrow>
    (\<forall>rest. hst_ext H (extensions_lookup exts (dec_sym f)) (sc_rt s) (vs @ rest) (of_nat (length vs)) = Some (w, rt)) \<Longrightarrow>
    \<not> is_sym w DEF_REPR_MERROR \<Longrightarrow>
    runs H exts 0 (Apply f vs) s w (s\<lparr>sc_rt := rt\<rparr>)"

text \<open>
  A program is a list of expressions, evaluated one after the other; its value is that of the last.
\<close>

inductive runs_program :: "host \<Rightarrow> extensions \<Rightarrow> nat \<Rightarrow> VALUE \<Rightarrow> scene \<Rightarrow> VALUE \<Rightarrow> scene \<Rightarrow> bool" for H exts where
  last: "car (sc_heap s) prg = Some e \<Longrightarrow> cdr (sc_heap s) prg = Some d \<Longrightarrow> runs H exts n (Eval e) s v s1 \<Longrightarrow>
    type_of d \<noteq> PTR_TYPE_CONS \<Longrightarrow> runs_program H exts n prg s v s1"
| more: "car (sc_heap s) prg = Some e \<Longrightarrow> cdr (sc_heap s) prg = Some d \<Longrightarrow> runs H exts n (Eval e) s v s1 \<Longrightarrow>
    type_of d = PTR_TYPE_CONS \<Longrightarrow> runs_program H exts m d s1 w s2 \<Longrightarrow>
    runs_program H exts (max n m) prg s w s2"

end
