(* ===== verification/Eval_Machine.thy ===== *)
theory Eval_Machine
  imports Eval_Spec
begin

text \<open>
  Runs of the evaluator of \<open>src/eval_cps.c\<close>: what one call of \<open>evaluation_step\<close> does with the running
  context, seen through the list of words on its stack.

  A \<open>setting\<close> names what stays fixed while an expression is evaluated: the host, the state of all
  other contexts, the address of the running context, the parts of it that evaluation does not
  touch, and the size of its stack. \<open>evaluating\<close> and \<open>returning\<close> describe the two kinds of states
  between steps; \<open>goes M P Q\<close> says that from every state in \<open>P\<close> some steps lead to one in \<open>Q\<close>.
\<close>

subsection \<open>Stacks as lists\<close>

definition stack_is :: "stack \<Rightarrow> UINT list \<Rightarrow> nat \<Rightarrow> bool" where
  "stack_is k xs n \<longleftrightarrow> stack_wf k \<and> stack_list k = xs \<and> unat (sk_size k) = n"

lemma push_u32_fits:
  assumes "stack_is k xs n" and "length xs < n"
  shows "\<exists>k'. push_u32 malloc k v = Some (True, k') \<and> stack_is k' (v # xs) n"
proof -
  have wf: "stack_wf k" and lt: "sk_sp k < sk_size k"
    using assms length_stack_list [of k] by (auto simp: stack_is_def word_less_nat_alt)
  then have "sk_sp k \<noteq> sk_size k" by auto
  with push_room [OF wf lt, of v] assms(1) show ?thesis by (auto simp: push_u32_def stack_is_def)
qed

lemma push_words_fit:
  "stack_is k xs n \<Longrightarrow> length xs + length vs \<le> n \<Longrightarrow>
     \<exists>k'. push_seq (push_u32 malloc) k vs = Some (True, k') \<and> stack_is k' (rev vs @ xs) n"
proof (induction vs arbitrary: k xs)
  case Nil
  then show ?case by simp
next
  case (Cons v vs)
  then obtain k1 where k1: "push_u32 malloc k v = Some (True, k1)" "stack_is k1 (v # xs) n"
    using push_u32_fits [of k xs n malloc v] by auto
  with Cons.IH [OF k1(2)] Cons.prems show ?case by auto
qed

lemma push_fits:
  assumes "stack_is k xs n"
  shows "length xs + 2 \<le> n \<Longrightarrow> \<exists>k'. push_u32_2 malloc k a b = Some (True, k') \<and> stack_is k' (b # a # xs) n"
    and "length xs + 3 \<le> n \<Longrightarrow> \<exists>k'. push_u32_3 malloc k a b c = Some (True, k') \<and> stack_is k' (c # b # a # xs) n"
    and "length xs + 4 \<le> n \<Longrightarrow> \<exists>k'. push_u32_4 malloc k a b c d = Some (True, k') \<and>
      stack_is k' (d # c # b # a # xs) n"
    and "length xs + 5 \<le> n \<Longrightarrow> \<exists>k'. push_u32_5 malloc k a b c d e = Some (True, k') \<and>
      stack_is k' (e # d # c # b # a # xs) n"
  using push_words_fit [OF assms, of "[a, b]"] push_words_fit [OF assms, of "[a, b, c]"]
    push_words_fit [OF assms, of "[a, b, c, d]"] push_words_fit [OF assms, of "[a, b, c, d, e]"]
  by (simp_all add: push_u32_seq del: push_seq.simps)

lemma pop_is:
  "stack_is k (v # xs) n \<Longrightarrow> \<exists>k'. pop_u32 k = Some (v, k') \<and> stack_is k' xs n"
  using pop_u32_law [of k v xs] unfolding stack_is_def by (metis (no_types, lifting))

lemma pop2_is:
  assumes "stack_is k (v # w # xs) n"
  shows "\<exists>k'. pop2 k = Some ((v, w), k') \<and> stack_is k' xs n"
proof -
  obtain k1 where "pop_u32 k = Some (v, k1)" "stack_is k1 (w # xs) n" using pop_is [OF assms] by blast
  then show ?thesis using pop_is [of k1 w xs n] by (auto simp: pop2_def pop_u32_2_def)
qed

lemma pop3_is:
  assumes "stack_is k (u # v # w # xs) n"
  shows "\<exists>k'. pop3 k = Some ((u, v, w), k') \<and> stack_is k' xs n"
proof -
  obtain k1 where k1: "pop_u32 k = Some (u, k1)" "stack_is k1 (v # w # xs) n" using pop_is [OF assms] by blast
  then obtain k2 where "pop_u32 k1 = Some (v, k2)" "stack_is k2 (w # xs) n" using pop_is by blast
  with k1 show ?thesis using pop_is [of k2 w xs n] by (auto simp: pop3_def pop_u32_3_def)
qed

text \<open>The topmost words, as the code finds them in the memory of the stack, in the order in which they were pushed.\<close>

lemma stack_top_words:
  assumes k: "stack_is k (rev vs @ stk) n"
  shows "\<exists>d rest. stack_ptr k (of_nat (length vs)) = Some (of_nat (length stk)) \<and> sk_data k = Some d \<and>
    unat (of_nat (length stk) :: u32) = length stk \<and> drop (length stk) d = vs @ rest"
    and "\<exists>k'. stack_drop k (of_nat (length vs)) = (True, k') \<and> stack_is k' stk n"
proof -
  obtain d where d: "sk_data k = Some d" "length d = n" "n < 2 ^ 29" "unat (sk_sp k) \<le> n" "rev (take (unat (sk_sp k)) d) = rev vs @ stk"
    using k by (auto simp: stack_is_def stack_list_def elim!: stack_wfE)
  have t: "take (unat (sk_sp k)) d = rev stk @ vs" using d(5) by (simp add: rev_swap)
  have len: "unat (sk_sp k) = length stk + length vs"
    using d(2,4) arg_cong [OF t, of length] by (simp add: min_def split: if_splits)
  have u: "unat (of_nat (length vs) :: u32) = length vs" "unat (of_nat (length stk) :: u32) = length stk"
    using len d(3,4) by (auto intro!: unat_u32_of_nat)
  then have le: "(of_nat (length vs) :: u32) \<le> sk_sp k" unfolding word_le_nat_alt using len by simp
  have sp: "sk_sp k - of_nat (length vs) = of_nat (length stk)"
    unfolding word_unat_eq_iff using u len unat_sub [OF le] by simp
  have "drop (length stk) d = vs @ drop (unat (sk_sp k)) d"
    using arg_cong [OF append_take_drop_id [of "unat (sk_sp k)" d], of "drop (length stk)"] t by simp
  then show "\<exists>d rest. stack_ptr k (of_nat (length vs)) = Some (of_nat (length stk)) \<and> sk_data k = Some d \<and>
    unat (of_nat (length stk) :: u32) = length stk \<and> drop (length stk) d = vs @ rest"
    using d(1) le sp u(2) by (simp add: stack_ptr_def not_less)
  have wf: "stack_wf k" and l: "stack_list k = rev vs @ stk" and sz: "unat (sk_size k) = n" using k by (auto simp: stack_is_def)
  obtain k' where "stack_drop k (of_nat (length vs)) = (True, k')" "stack_wf k'" "stack_list k' = stk"
    using stack_drop_law [OF wf l, of "of_nat (length vs)"] u(1) by auto
  moreover from this have "sk_size k' = sk_size k" by (auto simp: stack_drop_def split: if_splits)
  ultimately show "\<exists>k'. stack_drop k (of_nat (length vs)) = (True, k') \<and> stack_is k' stk n" using sz by (simp add: stack_is_def)
qed

subsection \<open>States of a running context\<close>

record setting =
  st_host :: host
  st_es :: eval_state
  st_p :: nat
  st_ctx :: eval_context
  st_size :: nat

definition setting_ok :: "setting \<Rightarrow> bool" where
  "setting_ok M \<longleftrightarrow> st_p M \<noteq> 0 \<and> es_running (st_es M) = st_p M \<and> \<not> es_perform_gc (st_es M) \<and>
     \<not> es_last_iteration_gc (st_es M) \<and> \<not> ec_done (st_ctx M) \<and> st_size M < 2 ^ 28"

definition machine :: "setting \<Rightarrow> runtime \<Rightarrow> VALUE \<Rightarrow> eval_context \<Rightarrow> eval_state" where
  "machine M rt ge c = (st_es M)\<lparr>es_rt := rt, es_env_global := ge, es_ctxs := (es_ctxs (st_es M))(st_p M \<mapsto> c)\<rparr>"

definition frame :: "eval_context \<Rightarrow> eval_context \<Rightarrow> bool" where
  "frame c c' \<longleftrightarrow> ec_program c' = ec_program c \<and> ec_done c' = ec_done c \<and> ec_timestamp c' = ec_timestamp c \<and>
     ec_sleep_us c' = ec_sleep_us c \<and> ec_id c' = ec_id c \<and> ec_prev c' = ec_prev c \<and> ec_next c' = ec_next c"

definition evaluating :: "setting \<Rightarrow> scene \<Rightarrow> VALUE \<Rightarrow> UINT list \<Rightarrow> eval_state \<Rightarrow> bool" where
  "evaluating M s e stk x \<longleftrightarrow> (\<exists>c. x = machine M (sc_rt s) (sc_global s) c \<and> frame (st_ctx M) c \<and>
     ec_curr_exp c = e \<and> ec_curr_env c = sc_env s \<and> \<not> ec_app_cont c \<and> stack_is (ec_K c) stk (st_size M))"

definition returning :: "setting \<Rightarrow> scene \<Rightarrow> VALUE \<Rightarrow> UINT list \<Rightarrow> eval_state \<Rightarrow> bool" where
  "returning M s v stk x \<longleftrightarrow> (\<exists>c. x = machine M (sc_rt s) (sc_global s) c \<and> frame (st_ctx M) c \<and>
     ec_r c = v \<and> ec_curr_env c = sc_env s \<and> ec_app_cont c \<and> stack_is (ec_K c) stk (st_size M))"

primrec eval_steps :: "host \<Rightarrow> nat \<Rightarrow> eval_state \<Rightarrow> eval_state option" where
  "eval_steps H 0 x = Some x"
| "eval_steps H (Suc k) x = Option.bind (evaluation_step H x) (eval_steps H k)"

definition goes :: "setting \<Rightarrow> (eval_state \<Rightarrow> bool) \<Rightarrow> (eval_state \<Rightarrow> bool) \<Rightarrow> bool" where
  "goes M P Q \<longleftrightarrow> (\<forall>x. P x \<longrightarrow> (\<exists>k y. eval_steps (st_host M) k x = Some y \<and> Q y))"

lemma eval_steps_add:
  "eval_steps H (k + l) x = Option.bind (eval_steps H k x) (eval_steps H l)"
  by (induction k arbitrary: x) (simp_all split: bind_split)

lemma goes_trans [trans]: "goes M P Q \<Longrightarrow> goes M Q R \<Longrightarrow> goes M P R"
  unfolding goes_def by (metis eval_steps_add Option.bind.bind_lunit)

lemma goes_step: "(\<And>x. P x \<Longrightarrow> \<exists>y. evaluation_step (st_host M) x = Some y \<and> Q y) \<Longrightarrow> goes M P Q"
  unfolding goes_def by (metis eval_steps.simps Option.bind.bind_lunit)

lemma setting_okD:
  assumes "setting_ok M"
  shows "st_p M \<noteq> 0" "es_running (st_es M) = st_p M" "\<not> es_perform_gc (st_es M)"
    "\<not> es_last_iteration_gc (st_es M)" "\<not> ec_done (st_ctx M)" "st_size M < 2 ^ 28"
  using assms by (auto simp: setting_ok_def)

subsection \<open>The evaluator's primitives on such a state\<close>

named_theorems machine_simps \<open>the primitives of the evaluator on a running context\<close>

lemma machine_fields [machine_simps]:
  "es_rt (machine M rt ge c) = rt"
  "es_env_global (machine M rt ge c) = ge"
  "es_running (machine M rt ge c) = es_running (st_es M)"
  "es_extensions (machine M rt ge c) = es_extensions (st_es M)"
  "(machine M rt ge c)\<lparr>es_env_global := ge'\<rparr> = machine M rt ge' c"
  "(machine M rt ge c)\<lparr>es_rt := rt'\<rparr> = machine M rt' ge c"
  "set_heap (machine M rt ge c) h = machine M (rt\<lparr>rt_heap := h\<rparr>) ge c"
  by (simp_all add: machine_def set_heap_def)

lemma machine_ctx [machine_simps]:
  assumes "st_p M \<noteq> 0"
  shows "get_ctx (machine M rt ge c) (st_p M) = Some c"
    and "upd_ctx (machine M rt ge c) (st_p M) f = Some (machine M rt ge (f c))"
    and "on_K (machine M rt ge c) (st_p M) g =
      map_option (\<lambda>(a, k). (a, machine M rt ge (c\<lparr>ec_K := k\<rparr>))) (g (ec_K c))"
  using assms by (simp_all add: get_ctx_def upd_ctx_def on_K_def machine_def split: bind_split prod.split)

lemma machine_updates [machine_simps]:
  assumes "st_p M \<noteq> 0"
  shows "app_cont (machine M rt ge c) (st_p M) = Some (machine M rt ge (c\<lparr>ec_app_cont := True\<rparr>))"
    and "return_value (machine M rt ge c) (st_p M) v = Some (machine M rt ge (c\<lparr>ec_app_cont := True, ec_r := v\<rparr>))"
    and "eval_in (machine M rt ge c) (st_p M) e env =
      Some (machine M rt ge (c\<lparr>ec_curr_exp := e, ec_curr_env := env\<rparr>))"
  using machine_ctx [OF assms] by (simp_all add: app_cont_def return_value_def eval_in_def)

lemma machine_push:
  assumes "st_p M \<noteq> 0" and "push (ec_K c) = Some (True, k')"
  shows "FOF H (machine M rt ge c) (st_p M) push f = f (machine M rt ge (c\<lparr>ec_K := k'\<rparr>))"
    and "FATAL_ON_FAIL (machine M rt ge c) (st_p M) push f = f (machine M rt ge (c\<lparr>ec_K := k'\<rparr>))"
  using assms by (simp_all add: FOF_def FATAL_ON_FAIL_def machine_ctx)

lemma machine_step_cont:
  assumes "setting_ok M" and "ec_app_cont c"
  shows "evaluation_step H (machine M rt ge c) = apply_continuation H (machine M rt ge c) (st_p M)"
proof -
  have "(machine M rt ge c)\<lparr>es_last_iteration_gc := False\<rparr> = machine M rt ge c"
    using setting_okD [OF assms(1)] by (cases "st_es M") (simp add: machine_def)
  moreover have "\<not> es_perform_gc (machine M rt ge c)" using setting_okD [OF assms(1)] by (simp add: machine_def)
  ultimately show ?thesis
    using assms setting_okD [OF assms(1)]
    by (simp add: evaluation_step_def gc_if_asked_def machine_fields machine_ctx)
qed

lemma machine_step_eval:
  assumes "setting_ok M" and "\<not> ec_app_cont c"
  shows "type_of (ec_curr_exp c) = PTR_TYPE_CONS \<Longrightarrow>
      evaluation_step H (machine M rt ge c) = eval_cons H (machine M rt ge c) (st_p M) c"
    and "type_of (ec_curr_exp c) = VAL_TYPE_SYMBOL \<Longrightarrow>
      evaluation_step H (machine M rt ge c) = eval_symbol (machine M rt ge c) (st_p M) c"
    and "self_evaluating (ec_curr_exp c) \<Longrightarrow>
      evaluation_step H (machine M rt ge c) = return_value (machine M rt ge c) (st_p M) (ec_curr_exp c)"
proof -
  have "(machine M rt ge c)\<lparr>es_last_iteration_gc := False\<rparr> = machine M rt ge c"
    using setting_okD [OF assms(1)] by (cases "st_es M") (simp add: machine_def)
  moreover have "\<not> es_perform_gc (machine M rt ge c)" using setting_okD [OF assms(1)] by (simp add: machine_def)
  ultimately have 1: "evaluation_step H (machine M rt ge c) =
      (let es = machine M rt ge c; p = st_p M; t = type_of (ec_curr_exp c) in
           if t = VAL_TYPE_SYMBOL then eval_symbol es p c
           else if t = PTR_TYPE_BOXED_F \<or> t = PTR_TYPE_BOXED_U \<or> t = PTR_TYPE_BOXED_I \<or> t = VAL_TYPE_I \<or>
             t = VAL_TYPE_U \<or> t = VAL_TYPE_CHAR \<or> t = PTR_TYPE_ARRAY
           then return_value es p (ec_curr_exp c)
           else if t = PTR_TYPE_REF \<or> t = PTR_TYPE_STREAM then error_ctx H es (enc_sym DEF_REPR_EERROR)
           else if t = PTR_TYPE_CONS then eval_cons H es p c
           else error_ctx H es (enc_sym DEF_REPR_EERROR))"
    using assms setting_okD [OF assms(1)]
    by (simp add: evaluation_step_def gc_if_asked_def machine_fields machine_ctx Let_def)
  show "type_of (ec_curr_exp c) = PTR_TYPE_CONS \<Longrightarrow>
      evaluation_step H (machine M rt ge c) = eval_cons H (machine M rt ge c) (st_p M) c" by (simp add: 1)
  show "type_of (ec_curr_exp c) = VAL_TYPE_SYMBOL \<Longrightarrow>
      evaluation_step H (machine M rt ge c) = eval_symbol (machine M rt ge c) (st_p M) c" by (simp add: 1)
  show "self_evaluating (ec_curr_exp c) \<Longrightarrow>
      evaluation_step H (machine M rt ge c) = return_value (machine M rt ge c) (st_p M) (ec_curr_exp c)"
    by (auto simp: 1 self_evaluating_def)
qed

text \<open>
  A continuation is applied by taking its code from the stack; the rules for its single steps
  assume this has been done.
\<close>

definition resumed :: "setting \<Rightarrow> scene \<Rightarrow> VALUE \<Rightarrow> UINT list \<Rightarrow> eval_context \<Rightarrow> bool" where
  "resumed M s v stk c \<longleftrightarrow> frame (st_ctx M) c \<and> ec_r c = v \<and> ec_curr_env c = sc_env s \<and> \<not> ec_app_cont c \<and>
     stack_is (ec_K c) stk (st_size M)"

lemma returning_goes:
  assumes ok: "setting_ok M" and k: "take_bit 28 k = k"
    and Q: "\<And>c. resumed M s v stk c \<Longrightarrow>
      \<exists>y. switch_cont (st_host M) (machine M (sc_rt s) (sc_global s) c) (st_p M) k v = Some y \<and> Q y"
  shows "goes M (returning M s v (enc_u k # stk)) Q"
proof (rule goes_step)
  fix x
  assume "returning M s v (enc_u k # stk) x"
  then obtain c where c: "x = machine M (sc_rt s) (sc_global s) c" "frame (st_ctx M) c" "ec_r c = v"
      "ec_curr_env c = sc_env s" "ec_app_cont c" "stack_is (ec_K c) (enc_u k # stk) (st_size M)"
    by (auto simp: returning_def)
  obtain k' where k': "pop_u32 (ec_K c) = Some (enc_u k, k')" "stack_is k' stk (st_size M)"
    using pop_is [OF c(6)] by blast
  have "resumed M s v stk (c\<lparr>ec_K := k', ec_app_cont := False\<rparr>)"
    using c k'(2) by (simp add: resumed_def frame_def)
  from Q [OF this] c k' k show "\<exists>y. evaluation_step (st_host M) x = Some y \<and> Q y"
    by (simp add: machine_step_cont [OF ok] apply_continuation_def machine_ctx [OF setting_okD(1) [OF ok]]
        dec_u_enc_u)
qed

lemma evaluating_goes:
  assumes "setting_ok M"
    and "\<And>c. frame (st_ctx M) c \<Longrightarrow> ec_curr_exp c = e \<Longrightarrow> ec_curr_env c = sc_env s \<Longrightarrow> \<not> ec_app_cont c \<Longrightarrow>
      stack_is (ec_K c) stk (st_size M) \<Longrightarrow>
      \<exists>y. evaluation_step (st_host M) (machine M (sc_rt s) (sc_global s) c) = Some y \<and> Q y"
  shows "goes M (evaluating M s e stk) Q"
  using assms(2) by (intro goes_step) (auto simp: evaluating_def)

text \<open>The states the rules end in.\<close>

lemma evaluatingI:
  "frame (st_ctx M) c \<Longrightarrow> ec_curr_exp c = e \<Longrightarrow> ec_curr_env c = sc_env s \<Longrightarrow> \<not> ec_app_cont c \<Longrightarrow>
    stack_is (ec_K c) stk (st_size M) \<Longrightarrow> rt = sc_rt s \<Longrightarrow> ge = sc_global s \<Longrightarrow>
    evaluating M s e stk (machine M rt ge c)"
  by (auto simp: evaluating_def)

lemma returningI:
  "frame (st_ctx M) c \<Longrightarrow> ec_r c = v \<Longrightarrow> ec_curr_env c = sc_env s \<Longrightarrow> ec_app_cont c \<Longrightarrow>
    stack_is (ec_K c) stk (st_size M) \<Longrightarrow> rt = sc_rt s \<Longrightarrow> ge = sc_global s \<Longrightarrow>
    returning M s v stk (machine M rt ge c)"
  by (auto simp: returning_def)

lemma frame_updates [simp]:
  "frame c (c'\<lparr>ec_curr_exp := e\<rparr>) = frame c c'" "frame c (c'\<lparr>ec_curr_env := e\<rparr>) = frame c c'"
  "frame c (c'\<lparr>ec_r := e\<rparr>) = frame c c'" "frame c (c'\<lparr>ec_app_cont := b\<rparr>) = frame c c'"
  "frame c (c'\<lparr>ec_K := k\<rparr>) = frame c c'"
  by (simp_all add: frame_def)

end
