(* ===== verification/Eval_Steps.thy ===== *)
theory Eval_Steps
  imports Eval_Machine
begin

text \<open>
  The single steps of the evaluator: for every special form and every continuation, from which state
  to which state one call of \<open>evaluation_step\<close> leads.
\<close>

lemmas ok_p = setting_okD(1)

subsection \<open>Expressions\<close>

lemma step_self:
  assumes "setting_ok M" and "self_evaluating e"
  shows "goes M (evaluating M s e stk) (returning M s e stk)"
  using assms
  by (intro evaluating_goes) (auto simp: machine_step_eval(3) machine_updates [OF ok_p] intro!: returningI)

lemma step_symbol:
  assumes "setting_ok M" and "type_of e = VAL_TYPE_SYMBOL" and "symbol_value (es_extensions (st_es M)) s e = Some v"
  shows "goes M (evaluating M s e stk) (returning M s v stk)"
proof (rule evaluating_goes [OF assms(1)])
  fix c
  assume c: "frame (st_ctx M) c" "ec_curr_exp c = e" "ec_curr_env c = sc_env s" "\<not> ec_app_cont c"
    "stack_is (ec_K c) stk (st_size M)"
  let ?x = "machine M (sc_rt s) (sc_global s) c"
  have "eval_symbol ?x (st_p M) c = Option.bind (symbol_value (es_extensions (st_es M)) s e) (return_value ?x (st_p M))"
    using c(2,3) by (simp add: eval_symbol_def symbol_value_def is_sym_def machine_fields Let_def cong: if_cong)
  then show "\<exists>y. evaluation_step (st_host M) ?x = Some y \<and> returning M s v stk y"
    using assms c by (auto simp: machine_step_eval(2) machine_updates [OF ok_p] intro!: returningI)
qed

lemma form_eval_cons:
  assumes "form h e a d" and "ec_curr_exp c = e" and "h = rt_heap rt" and "type_of a = VAL_TYPE_SYMBOL"
  shows "dec_sym a = DEF_REPR_QUOTE \<Longrightarrow> eval_cons H (machine M rt ge c) p c = eval_quote (machine M rt ge c) p c"
    and "dec_sym a = DEF_REPR_DEFINE \<Longrightarrow> eval_cons H (machine M rt ge c) p c = eval_define H (machine M rt ge c) p c"
    and "dec_sym a = DEF_REPR_PROGN \<Longrightarrow> eval_cons H (machine M rt ge c) p c = eval_progn H (machine M rt ge c) p c"
    and "dec_sym a = DEF_REPR_LAMBDA \<Longrightarrow> eval_cons H (machine M rt ge c) p c = eval_lambda (machine M rt ge c) p c"
    and "dec_sym a = DEF_REPR_IF \<Longrightarrow> eval_cons H (machine M rt ge c) p c = eval_if H (machine M rt ge c) p c"
    and "dec_sym a = DEF_REPR_LET \<Longrightarrow> eval_cons H (machine M rt ge c) p c = eval_let H (machine M rt ge c) p c"
  using assms by (simp_all add: eval_cons_def form_def machine_fields)

lemma step_quote:
  assumes ok: "setting_ok M" and f: "form (sc_heap s) e a d" "is_sym a DEF_REPR_QUOTE" and "car (sc_heap s) d = Some v"
  shows "goes M (evaluating M s e stk) (returning M s v stk)"
  using assms
  by (intro evaluating_goes)
    (auto simp: machine_step_eval(1) form_eval_cons(1) form_def is_sym_def eval_quote_def machine_fields
      machine_updates [OF ok_p] intro!: returningI)

lemma step_define:
  assumes ok: "setting_ok M" and f: "form (sc_heap s) e a d" "is_sym a DEF_REPR_DEFINE"
    and "car (sc_heap s) d = Some key" "cdr (sc_heap s) d = Some d2" "car (sc_heap s) d2 = Some x"
    and "type_of key = VAL_TYPE_SYMBOL" "key \<noteq> NIL" and room: "length stk + 2 \<le> st_size M"
  shows "goes M (evaluating M s e stk) (evaluating M s x (enc_u K_SET_GLOBAL_ENV # key # stk))"
proof (rule evaluating_goes [OF ok])
  fix c
  assume c: "frame (st_ctx M) c" "ec_curr_exp c = e" "ec_curr_env c = sc_env s" "\<not> ec_app_cont c"
    "stack_is (ec_K c) stk (st_size M)"
  obtain k where k: "push_u32_2 (hst_malloc (st_host M)) (ec_K c) key (enc_u K_SET_GLOBAL_ENV) = Some (True, k)"
      "stack_is k (enc_u K_SET_GLOBAL_ENV # key # stk) (st_size M)"
    using push_fits(1) [OF c(5) room] by blast
  have t: "type_of e = PTR_TYPE_CONS" using f(1) by (simp add: form_def)
  show "\<exists>y. evaluation_step (st_host M) (machine M (sc_rt s) (sc_global s) c) = Some y \<and>
      evaluating M s x (enc_u K_SET_GLOBAL_ENV # key # stk) y"
    using assms c k t
    by (simp add: machine_step_eval(1) form_eval_cons(2) [OF f(1) c(2) refl] is_sym_def eval_define_def form_def
        machine_fields machine_ctx [OF ok_p] FOF_def evaluatingI)
qed

lemma step_progn_nil:
  assumes ok: "setting_ok M" and f: "form (sc_heap s) e a NIL" "is_sym a DEF_REPR_PROGN"
  shows "goes M (evaluating M s e stk) (returning M s NIL stk)"
  using assms
  by (intro evaluating_goes)
    (auto simp: machine_step_eval(1) form_eval_cons(3) form_def is_sym_def eval_progn_def is_nil_def machine_fields
      machine_updates [OF ok_p] intro!: returningI)

lemma step_progn:
  assumes ok: "setting_ok M" and f: "form (sc_heap s) e a exps" "is_sym a DEF_REPR_PROGN"
    and exps: "\<not> is_nil exps" "\<not> symrepr_is_error exps" "car (sc_heap s) exps = Some x" "cdr (sc_heap s) exps = Some xs"
    and room: "length stk + 3 \<le> st_size M"
  shows "goes M (evaluating M s e stk) (evaluating M s x (enc_u K_PROGN_REST # xs # sc_env s # stk))"
proof (rule evaluating_goes [OF ok])
  fix c
  assume c: "frame (st_ctx M) c" "ec_curr_exp c = e" "ec_curr_env c = sc_env s" "\<not> ec_app_cont c"
    "stack_is (ec_K c) stk (st_size M)"
  obtain k where k: "push_u32_3 (hst_malloc (st_host M)) (ec_K c) (sc_env s) xs (enc_u K_PROGN_REST) = Some (True, k)"
      "stack_is k (enc_u K_PROGN_REST # xs # sc_env s # stk) (st_size M)"
    using push_fits(2) [OF c(5) room] by blast
  have t: "type_of e = PTR_TYPE_CONS" using f(1) by (simp add: form_def)
  show "\<exists>y. evaluation_step (st_host M) (machine M (sc_rt s) (sc_global s) c) = Some y \<and>
      evaluating M s x (enc_u K_PROGN_REST # xs # sc_env s # stk) y"
    using assms c k t
    by (simp add: machine_step_eval(1) form_eval_cons(3) [OF f(1) c(2) refl] is_sym_def eval_progn_def form_def
        machine_fields machine_ctx [OF ok_p] machine_updates [OF ok_p] FOF_def evaluatingI)
qed

lemma step_if:
  assumes ok: "setting_ok M" and f: "form (sc_heap s) e a d" "is_sym a DEF_REPR_IF"
    and d: "car (sc_heap s) d = Some b" "cdr (sc_heap s) d = Some d2" "car (sc_heap s) d2 = Some x"
      "cdr (sc_heap s) d2 = Some d3" "car (sc_heap s) d3 = Some y"
    and room: "length stk + 3 \<le> st_size M"
  shows "goes M (evaluating M s e stk) (evaluating M s b (enc_u K_IF # x # y # stk))"
proof (rule evaluating_goes [OF ok])
  fix c
  assume c: "frame (st_ctx M) c" "ec_curr_exp c = e" "ec_curr_env c = sc_env s" "\<not> ec_app_cont c"
    "stack_is (ec_K c) stk (st_size M)"
  obtain k where k: "push_u32_3 (hst_malloc (st_host M)) (ec_K c) y x (enc_u K_IF) = Some (True, k)"
      "stack_is k (enc_u K_IF # x # y # stk) (st_size M)"
    using push_fits(2) [OF c(5) room] by blast
  have t: "type_of e = PTR_TYPE_CONS" using f(1) by (simp add: form_def)
  show "\<exists>z. evaluation_step (st_host M) (machine M (sc_rt s) (sc_global s) c) = Some z \<and>
      evaluating M s b (enc_u K_IF # x # y # stk) z"
    using assms c k t
    by (simp add: machine_step_eval(1) form_eval_cons(5) [OF f(1) c(2) refl] is_sym_def eval_if_def form_def
        machine_fields machine_ctx [OF ok_p] FOF_def evaluatingI)
qed

lemma eval_lambda_make_closure:
  assumes "make_closure (rt_heap rt) (ec_curr_env c) (ec_curr_exp c) = Some (v, h)" and "st_p M \<noteq> 0"
  shows "eval_lambda (machine M rt ge c) (st_p M) c =
    Some (machine M (rt\<lparr>rt_heap := h\<rparr>) ge (c\<lparr>ec_app_cont := True, ec_r := v\<rparr>))"
proof -
  obtain cpy h1 en h2 d d2 b bo h3 ps pa h4 where
    "env_copy_shallow (rt_heap rt) (ec_curr_env c) = Some (cpy, h1)" "\<not> is_sym cpy DEF_REPR_MERROR"
    "cons h1 cpy NIL = Some (en, h2)" "cdr h2 (ec_curr_exp c) = Some d" "cdr h2 d = Some d2" "car h2 d2 = Some b"
    "cons h2 b en = Some (bo, h3)" "car h3 d = Some ps" "cons h3 ps bo = Some (pa, h4)"
    "cons h4 (enc_sym DEF_REPR_CLOSURE) pa = Some (v, h)" "\<forall>x \<in> {en, bo, pa, v}. type_of x \<noteq> VAL_TYPE_SYMBOL"
    using assms(1) by (auto simp: make_closure_def bind_eq_Some_conv split: if_splits)
  then show ?thesis
    using assms(2)
    by (auto simp: eval_lambda_def is_sym_def machine_fields machine_updates)
qed

lemma step_lambda:
  assumes ok: "setting_ok M" and f: "form (sc_heap s) e a d" "is_sym a DEF_REPR_LAMBDA"
    and v: "make_closure (sc_heap s) (sc_env s) e = Some (v, h)"
  shows "goes M (evaluating M s e stk) (returning M (with_h s h) v stk)"
proof (rule evaluating_goes [OF ok])
  fix c
  assume c: "frame (st_ctx M) c" "ec_curr_exp c = e" "ec_curr_env c = sc_env s" "\<not> ec_app_cont c"
    "stack_is (ec_K c) stk (st_size M)"
  have t: "type_of e = PTR_TYPE_CONS" using f(1) by (simp add: form_def)
  show "\<exists>y. evaluation_step (st_host M) (machine M (sc_rt s) (sc_global s) c) = Some y \<and>
      returning M (with_h s h) v stk y"
    using assms c t
    by (simp add: machine_step_eval(1) form_eval_cons(4) [OF f(1) c(2) refl] is_sym_def
        eval_lambda_make_closure [OF _ ok_p] returningI with_h_def)
qed

lemma step_let_nil:
  assumes ok: "setting_ok M" and f: "form (sc_heap s) e a d" "is_sym a DEF_REPR_LET"
    and d: "car (sc_heap s) d = Some binds" "cdr (sc_heap s) d = Some d2" "car (sc_heap s) d2 = Some body"
      "type_of binds \<noteq> PTR_TYPE_CONS"
  shows "goes M (evaluating M s e stk) (evaluating M s body stk)"
  using assms
  by (intro evaluating_goes)
    (auto simp: machine_step_eval(1) form_eval_cons(6) form_def is_sym_def eval_let_def machine_fields
      machine_ctx [OF ok_p] intro!: evaluatingI)

lemma step_let:
  assumes ok: "setting_ok M" and f: "form (sc_heap s) e a d" "is_sym a DEF_REPR_LET"
    and d: "car (sc_heap s) d = Some binds" "cdr (sc_heap s) d = Some d2" "car (sc_heap s) d2 = Some body"
      "type_of binds = PTR_TYPE_CONS" and pre: "let_prealloc (sc_heap s) binds (sc_env s) = Some (Some env, h)"
    and b: "car h binds = Some b" "cdr h binds = Some bs" "car h b = Some key" "cdr h b = Some bd" "car h bd = Some x"
    and room: "length stk + 5 \<le> st_size M"
  shows "goes M (evaluating M s e stk)
    (evaluating M ((with_h s h)\<lparr>sc_env := env\<rparr>) x (enc_u K_BIND_TO_KEY_REST # key # env # bs # body # stk))"
proof (rule evaluating_goes [OF ok])
  fix c
  assume c: "frame (st_ctx M) c" "ec_curr_exp c = e" "ec_curr_env c = sc_env s" "\<not> ec_app_cont c"
    "stack_is (ec_K c) stk (st_size M)"
  obtain k where k: "push_u32_5 (hst_malloc (st_host M)) (ec_K c) body bs env key (enc_u K_BIND_TO_KEY_REST) = Some (True, k)"
      "stack_is k (enc_u K_BIND_TO_KEY_REST # key # env # bs # body # stk) (st_size M)"
    using push_fits(4) [OF c(5) room] by blast
  have t: "type_of e = PTR_TYPE_CONS" using f(1) by (simp add: form_def)
  show "\<exists>z. evaluation_step (st_host M) (machine M (sc_rt s) (sc_global s) c) = Some z \<and>
      evaluating M ((with_h s h)\<lparr>sc_env := env\<rparr>) x (enc_u K_BIND_TO_KEY_REST # key # env # bs # body # stk) z"
    using assms c k t
    by (simp add: machine_step_eval(1) form_eval_cons(6) [OF f(1) c(2) refl] is_sym_def eval_let_def form_def
        machine_fields machine_ctx [OF ok_p] machine_updates [OF ok_p] FOF_def evaluatingI with_h_def Let_def)
qed

lemma step_application:
  assumes ok: "setting_ok M" and f: "form (sc_heap s) e a d" "\<not> special_head a" and room: "length stk + 4 \<le> st_size M"
  shows "goes M (evaluating M s e stk)
    (evaluating M s a (enc_u K_APPLICATION_ARGS # d # enc_u 0 # sc_env s # stk))"
proof (rule evaluating_goes [OF ok])
  fix c
  assume c: "frame (st_ctx M) c" "ec_curr_exp c = e" "ec_curr_env c = sc_env s" "\<not> ec_app_cont c"
    "stack_is (ec_K c) stk (st_size M)"
  obtain k where k: "push_u32_4 (hst_malloc (st_host M)) (ec_K c) (sc_env s) (enc_u 0) d (enc_u K_APPLICATION_ARGS) = Some (True, k)"
      "stack_is k (enc_u K_APPLICATION_ARGS # d # enc_u 0 # sc_env s # stk) (st_size M)"
    using push_fits(3) [OF c(5) room] by blast
  have t: "type_of e = PTR_TYPE_CONS" using f(1) by (simp add: form_def)
  have "eval_cons (st_host M) (machine M (sc_rt s) (sc_global s) c) (st_p M) c =
      eval_application (st_host M) (machine M (sc_rt s) (sc_global s) c) (st_p M) c a"
    using f c(2) by (auto simp: eval_cons_def form_def special_head_def machine_fields Let_def)
  then show "\<exists>z. evaluation_step (st_host M) (machine M (sc_rt s) (sc_global s) c) = Some z \<and>
      evaluating M s a (enc_u K_APPLICATION_ARGS # d # enc_u 0 # sc_env s # stk) z"
    using assms c k t
    by (simp add: machine_step_eval(1) eval_application_def form_def
        machine_fields machine_ctx [OF ok_p] FOF_def evaluatingI)
qed

subsection \<open>Continuations\<close>

lemma resumedD:
  assumes "resumed M s v stk c"
  shows "frame (st_ctx M) c" "ec_r c = v" "ec_curr_env c = sc_env s" "\<not> ec_app_cont c"
    "stack_is (ec_K c) stk (st_size M)"
  using assms by (auto simp: resumed_def)

lemmas resume_simps = switch_cont_def machine_fields machine_ctx machine_updates FATAL_ON_FAIL_def

lemma cont_define:
  assumes ok: "setting_ok M" and e: "env_set (sc_heap s) (sc_global s) key v = Some (ge, h)"
    "\<not> is_sym ge DEF_REPR_MERROR" "\<not> is_sym ge DEF_REPR_FATAL_ERROR"
  shows "goes M (returning M s v (enc_u K_SET_GLOBAL_ENV # key # stk)) (returning M ((with_h s h)\<lparr>sc_global := ge\<rparr>) key stk)"
proof (rule returning_goes [OF ok])
  fix c
  assume c: "resumed M s v (key # stk) c"
  obtain k where k: "pop_u32 (ec_K c) = Some (key, k)" "stack_is k stk (st_size M)"
    using pop_is [OF resumedD(5) [OF c]] by blast
  have "\<not> ec_done c" using resumedD(1) [OF c] setting_okD(5) [OF ok] by (simp add: frame_def)
  then show "\<exists>y. switch_cont (st_host M) (machine M (sc_rt s) (sc_global s) c) (st_p M) K_SET_GLOBAL_ENV v = Some y \<and>
      returning M ((with_h s h)\<lparr>sc_global := ge\<rparr>) key stk y"
    using resumedD [OF c] k e ok_p [OF ok]
    by (auto simp: resume_simps cont_set_global_env_def is_sym_def with_h_def intro!: returningI)
qed simp

lemma cont_rest_nil:
  assumes ok: "setting_ok M" and "is_nil xs"
  shows "goes M (returning M s v (enc_u K_PROGN_REST # xs # env # stk)) (returning M s v stk)"
proof (rule returning_goes [OF ok])
  fix c
  assume c: "resumed M s v (xs # env # stk) c"
  obtain k where k: "pop2 (ec_K c) = Some ((xs, env), k)" "stack_is k stk (st_size M)"
    using pop2_is [OF resumedD(5) [OF c]] by blast
  then show "\<exists>y. switch_cont (st_host M) (machine M (sc_rt s) (sc_global s) c) (st_p M) K_PROGN_REST v = Some y \<and>
      returning M s v stk y"
    using resumedD [OF c] assms(2) ok_p [OF ok] by (auto simp: resume_simps cont_progn_rest_def intro!: returningI)
qed simp

lemma cont_rest_last:
  assumes ok: "setting_ok M" and xs: "\<not> is_nil xs" "\<not> symrepr_is_error xs" "car (sc_heap s) xs = Some x"
    "cdr (sc_heap s) xs = Some d" "is_nil d"
  shows "goes M (returning M s v (enc_u K_PROGN_REST # xs # env # stk)) (evaluating M s x stk)"
proof (rule returning_goes [OF ok])
  fix c
  assume c: "resumed M s v (xs # env # stk) c"
  obtain k where k: "pop2 (ec_K c) = Some ((xs, env), k)" "stack_is k stk (st_size M)"
    using pop2_is [OF resumedD(5) [OF c]] by blast
  then show "\<exists>y. switch_cont (st_host M) (machine M (sc_rt s) (sc_global s) c) (st_p M) K_PROGN_REST v = Some y \<and>
      evaluating M s x stk y"
    using resumedD [OF c] xs ok_p [OF ok] by (auto simp: resume_simps cont_progn_rest_def intro!: evaluatingI)
qed simp

lemma cont_rest_more:
  assumes ok: "setting_ok M" and xs: "\<not> is_nil xs" "\<not> symrepr_is_error xs" "car (sc_heap s) xs = Some x"
    "cdr (sc_heap s) xs = Some d" "\<not> is_nil d" and room: "length stk + 3 \<le> st_size M"
  shows "goes M (returning M s v (enc_u K_PROGN_REST # xs # env # stk))
    (evaluating M (s\<lparr>sc_env := env\<rparr>) x (enc_u K_PROGN_REST # d # env # stk))"
proof (rule returning_goes [OF ok])
  fix c
  assume c: "resumed M s v (xs # env # stk) c"
  obtain k where k: "pop2 (ec_K c) = Some ((xs, env), k)" "stack_is k stk (st_size M)"
    using pop2_is [OF resumedD(5) [OF c]] by blast
  then obtain k' where k': "push_u32_3 (hst_malloc (st_host M)) k env d (enc_u K_PROGN_REST) = Some (True, k')"
      "stack_is k' (enc_u K_PROGN_REST # d # env # stk) (st_size M)"
    using push_fits(2) [OF k(2) room] by blast
  then show "\<exists>y. switch_cont (st_host M) (machine M (sc_rt s) (sc_global s) c) (st_p M) K_PROGN_REST v = Some y \<and>
      evaluating M (s\<lparr>sc_env := env\<rparr>) x (enc_u K_PROGN_REST # d # env # stk) y"
    using resumedD [OF c] k xs ok_p [OF ok] by (auto simp: resume_simps cont_progn_rest_def intro!: evaluatingI)
qed simp

lemma cont_branch:
  assumes ok: "setting_ok M"
  shows "goes M (returning M s v (enc_u K_IF # x # y # stk))
    (evaluating M s (if is_sym v DEF_REPR_TRUE then x else y) stk)"
proof (rule returning_goes [OF ok])
  fix c
  assume c: "resumed M s v (x # y # stk) c"
  obtain k where k: "pop2 (ec_K c) = Some ((x, y), k)" "stack_is k stk (st_size M)"
    using pop2_is [OF resumedD(5) [OF c]] by blast
  then show "\<exists>z. switch_cont (st_host M) (machine M (sc_rt s) (sc_global s) c) (st_p M) K_IF v = Some z \<and>
      evaluating M s (if is_sym v DEF_REPR_TRUE then x else y) stk z"
    using resumedD [OF c] ok_p [OF ok] by (auto simp: resume_simps cont_if_def is_sym_def intro!: evaluatingI)
qed simp

text \<open>The next operand of \<open>and\<close> or \<open>or\<close> is evaluated under the same continuation.\<close>

lemma push_and_eval_machine:
  assumes ok: "setting_ok M" and c: "frame (st_ctx M) c" "\<not> ec_app_cont c" "stack_is (ec_K c) stk (st_size M)"
    and xs: "car (sc_heap s) xs = Some x" "cdr (sc_heap s) xs = Some d" and room: "length stk + 3 \<le> st_size M"
  shows "\<exists>y. push_and_eval H (machine M (sc_rt s) (sc_global s) c) (st_p M) xs env k = Some y \<and>
    evaluating M (s\<lparr>sc_env := env\<rparr>) x (enc_u k # d # env # stk) y"
proof -
  obtain k' where "push_u32_3 (hst_malloc H) (ec_K c) env d (enc_u k) = Some (True, k')"
      "stack_is k' (enc_u k # d # env # stk) (st_size M)"
    using push_fits(2) [OF c(3) room] by blast
  then show ?thesis
    using c xs ok_p [OF ok] by (auto simp: push_and_eval_def resume_simps intro!: evaluatingI)
qed

lemma cont_conj:
  assumes ok: "setting_ok M"
  shows "is_sym v DEF_REPR_NIL \<Longrightarrow>
      goes M (returning M s v (enc_u K_AND # xs # env # stk)) (returning M s NIL stk)"
    and "\<not> is_sym v DEF_REPR_NIL \<Longrightarrow> is_nil xs \<Longrightarrow>
      goes M (returning M s v (enc_u K_AND # xs # env # stk)) (returning M s v stk)"
    and "\<not> is_sym v DEF_REPR_NIL \<Longrightarrow> \<not> is_nil xs \<Longrightarrow> car (sc_heap s) xs = Some x \<Longrightarrow> cdr (sc_heap s) xs = Some d \<Longrightarrow>
      length stk + 3 \<le> st_size M \<Longrightarrow>
      goes M (returning M s v (enc_u K_AND # xs # env # stk)) (evaluating M (s\<lparr>sc_env := env\<rparr>) x (enc_u K_AND # d # env # stk))"
proof -
  have pop: "\<exists>k. pop2 (ec_K c) = Some ((xs, env), k) \<and> stack_is k stk (st_size M) \<and> frame (st_ctx M) (c\<lparr>ec_K := k\<rparr>) \<and>
      ec_r c = v \<and> ec_curr_env c = sc_env s \<and> \<not> ec_app_cont c" if "resumed M s v (xs # env # stk) c" for c
    using pop2_is [OF resumedD(5) [OF that]] resumedD [OF that] by auto
  show "is_sym v DEF_REPR_NIL \<Longrightarrow>
      goes M (returning M s v (enc_u K_AND # xs # env # stk)) (returning M s NIL stk)"
    by (rule returning_goes [OF ok])
      (use ok_p [OF ok] in \<open>auto dest!: pop simp: resume_simps cont_and_def is_sym_def intro!: returningI\<close>)
  show "\<not> is_sym v DEF_REPR_NIL \<Longrightarrow> is_nil xs \<Longrightarrow>
      goes M (returning M s v (enc_u K_AND # xs # env # stk)) (returning M s v stk)"
    by (rule returning_goes [OF ok])
      (use ok_p [OF ok] in \<open>auto dest!: pop simp: resume_simps cont_and_def is_sym_def intro!: returningI\<close>)
  show "\<not> is_sym v DEF_REPR_NIL \<Longrightarrow> \<not> is_nil xs \<Longrightarrow> car (sc_heap s) xs = Some x \<Longrightarrow> cdr (sc_heap s) xs = Some d \<Longrightarrow>
      length stk + 3 \<le> st_size M \<Longrightarrow>
      goes M (returning M s v (enc_u K_AND # xs # env # stk)) (evaluating M (s\<lparr>sc_env := env\<rparr>) x (enc_u K_AND # d # env # stk))"
    by (rule returning_goes [OF ok])
      (use ok_p [OF ok] in \<open>auto dest!: pop simp: resume_simps cont_and_def is_sym_def intro!: push_and_eval_machine [OF ok]\<close>)
qed

lemma cont_disj:
  assumes ok: "setting_ok M"
  shows "\<not> is_sym v DEF_REPR_NIL \<Longrightarrow>
      goes M (returning M s v (enc_u K_OR # xs # env # stk)) (returning M s v stk)"
    and "is_sym v DEF_REPR_NIL \<Longrightarrow> is_nil xs \<Longrightarrow>
      goes M (returning M s v (enc_u K_OR # xs # env # stk)) (returning M s NIL stk)"
    and "is_sym v DEF_REPR_NIL \<Longrightarrow> \<not> is_nil xs \<Longrightarrow> car (sc_heap s) xs = Some x \<Longrightarrow> cdr (sc_heap s) xs = Some d \<Longrightarrow>
      length stk + 3 \<le> st_size M \<Longrightarrow>
      goes M (returning M s v (enc_u K_OR # xs # env # stk)) (evaluating M (s\<lparr>sc_env := env\<rparr>) x (enc_u K_OR # d # env # stk))"
proof -
  have pop: "\<exists>k. pop2 (ec_K c) = Some ((xs, env), k) \<and> stack_is k stk (st_size M) \<and> frame (st_ctx M) (c\<lparr>ec_K := k\<rparr>) \<and>
      ec_r c = v \<and> ec_curr_env c = sc_env s \<and> \<not> ec_app_cont c" if "resumed M s v (xs # env # stk) c" for c
    using pop2_is [OF resumedD(5) [OF that]] resumedD [OF that] by auto
  show "\<not> is_sym v DEF_REPR_NIL \<Longrightarrow>
      goes M (returning M s v (enc_u K_OR # xs # env # stk)) (returning M s v stk)"
    by (rule returning_goes [OF ok])
      (use ok_p [OF ok] in \<open>auto dest!: pop simp: resume_simps cont_or_def is_sym_def intro!: returningI\<close>)
  show "is_sym v DEF_REPR_NIL \<Longrightarrow> is_nil xs \<Longrightarrow>
      goes M (returning M s v (enc_u K_OR # xs # env # stk)) (returning M s NIL stk)"
    by (rule returning_goes [OF ok])
      (use ok_p [OF ok] in \<open>auto dest!: pop simp: resume_simps cont_or_def is_sym_def intro!: returningI\<close>)
  show "is_sym v DEF_REPR_NIL \<Longrightarrow> \<not> is_nil xs \<Longrightarrow> car (sc_heap s) xs = Some x \<Longrightarrow> cdr (sc_heap s) xs = Some d \<Longrightarrow>
      length stk + 3 \<le> st_size M \<Longrightarrow>
      goes M (returning M s v (enc_u K_OR # xs # env # stk)) (evaluating M (s\<lparr>sc_env := env\<rparr>) x (enc_u K_OR # d # env # stk))"
    by (rule returning_goes [OF ok])
      (use ok_p [OF ok] in \<open>auto dest!: pop simp: resume_simps cont_or_def is_sym_def intro!: push_and_eval_machine [OF ok]\<close>)
qed

lemma cont_bind_last:
  assumes ok: "setting_ok M" and "env_modify_binding (sc_heap s) env key v = Some (r, h)" and "type_of bs \<noteq> PTR_TYPE_CONS"
  shows "goes M (returning M s v (enc_u K_BIND_TO_KEY_REST # key # env # bs # body # stk))
    (evaluating M ((with_h s h)\<lparr>sc_env := env\<rparr>) body stk)"
proof (rule returning_goes [OF ok])
  fix c
  assume c: "resumed M s v (key # env # bs # body # stk) c"
  obtain k where k: "pop3 (ec_K c) = Some ((key, env, bs), k)" "stack_is k (body # stk) (st_size M)"
    using pop3_is [OF resumedD(5) [OF c]] by blast
  then obtain k' where k': "pop_u32 k = Some (body, k')" "stack_is k' stk (st_size M)" using pop_is by blast
  with k show "\<exists>y. switch_cont (st_host M) (machine M (sc_rt s) (sc_global s) c) (st_p M) K_BIND_TO_KEY_REST v = Some y \<and>
      evaluating M ((with_h s h)\<lparr>sc_env := env\<rparr>) body stk y"
    using resumedD [OF c] assms ok_p [OF ok]
    by (auto simp: resume_simps cont_bind_to_key_rest_def with_h_def intro!: evaluatingI)
qed simp

lemma cont_bind_more:
  assumes ok: "setting_ok M" and "env_modify_binding (sc_heap s) env key v = Some (r, h)" and "type_of bs = PTR_TYPE_CONS"
    and b: "car h bs = Some b" "cdr h bs = Some bs'" "car h b = Some key'" "cdr h b = Some bd" "car h bd = Some x"
    and room: "length stk + 5 \<le> st_size M"
  shows "goes M (returning M s v (enc_u K_BIND_TO_KEY_REST # key # env # bs # body # stk))
    (evaluating M ((with_h s h)\<lparr>sc_env := env\<rparr>) x (enc_u K_BIND_TO_KEY_REST # key' # env # bs' # body # stk))"
proof (rule returning_goes [OF ok])
  fix c
  assume c: "resumed M s v (key # env # bs # body # stk) c"
  obtain k where k: "pop3 (ec_K c) = Some ((key, env, bs), k)" "stack_is k (body # stk) (st_size M)"
    using pop3_is [OF resumedD(5) [OF c]] by blast
  then obtain k' where k': "push_u32_4 (hst_malloc (st_host M)) k bs' env key' (enc_u K_BIND_TO_KEY_REST) = Some (True, k')"
      "stack_is k' (enc_u K_BIND_TO_KEY_REST # key' # env # bs' # body # stk) (st_size M)"
    using push_fits(3) [OF k(2)] room by fastforce
  with k show "\<exists>y. switch_cont (st_host M) (machine M (sc_rt s) (sc_global s) c) (st_p M) K_BIND_TO_KEY_REST v = Some y \<and>
      evaluating M ((with_h s h)\<lparr>sc_env := env\<rparr>) x (enc_u K_BIND_TO_KEY_REST # key' # env # bs' # body # stk) y"
    using resumedD [OF c] assms ok_p [OF ok]
    by (auto simp: resume_simps cont_bind_to_key_rest_def with_h_def intro!: evaluatingI)
qed simp

subsection \<open>Arguments and applications\<close>

text \<open>The number of arguments is a 28 bit number on the stack.\<close>

definition argc :: "'a list \<Rightarrow> UINT" where
  "argc vs = enc_u (of_nat (length vs))"

lemma dec_argc: "length vs < 2 ^ 28 \<Longrightarrow> dec_u (argc vs) = of_nat (length vs)"
  by (simp add: argc_def dec_u_enc_u take_bit_of_nat take_bit_nat_eq_self)

lemma argc_Cons: "length vs < 2 ^ 28 \<Longrightarrow> enc_u (dec_u (argc vs) + 1) = argc (v # vs)"
  by (simp add: dec_argc) (simp add: argc_def add.commute)

lemma cont_args_logic:
  assumes ok: "setting_ok M"
  shows "is_sym v SYM_AND \<Longrightarrow> is_nil xs \<Longrightarrow>
      goes M (returning M s v (enc_u K_APPLICATION_ARGS # xs # n # env # stk)) (returning M s (enc_sym DEF_REPR_TRUE) stk)"
    and "is_sym v SYM_OR \<Longrightarrow> is_nil xs \<Longrightarrow>
      goes M (returning M s v (enc_u K_APPLICATION_ARGS # xs # n # env # stk)) (returning M s NIL stk)"
    and "is_sym v SYM_AND \<Longrightarrow> \<not> is_nil xs \<Longrightarrow> car (sc_heap s) xs = Some x \<Longrightarrow> cdr (sc_heap s) xs = Some d \<Longrightarrow>
      length stk + 3 \<le> st_size M \<Longrightarrow>
      goes M (returning M s v (enc_u K_APPLICATION_ARGS # xs # n # env # stk))
        (evaluating M (s\<lparr>sc_env := env\<rparr>) x (enc_u K_AND # d # env # stk))"
    and "is_sym v SYM_OR \<Longrightarrow> \<not> is_nil xs \<Longrightarrow> car (sc_heap s) xs = Some x \<Longrightarrow> cdr (sc_heap s) xs = Some d \<Longrightarrow>
      length stk + 3 \<le> st_size M \<Longrightarrow>
      goes M (returning M s v (enc_u K_APPLICATION_ARGS # xs # n # env # stk))
        (evaluating M (s\<lparr>sc_env := env\<rparr>) x (enc_u K_OR # d # env # stk))"
proof -
  have pop: "\<exists>k. pop3 (ec_K c) = Some ((xs, n, env), k) \<and> stack_is k stk (st_size M) \<and> frame (st_ctx M) (c\<lparr>ec_K := k\<rparr>) \<and>
      ec_r c = v \<and> ec_curr_env c = sc_env s \<and> \<not> ec_app_cont c" if "resumed M s v (xs # n # env # stk) c" for c
    using pop3_is [OF resumedD(5) [OF that]] resumedD [OF that] by auto
  show "is_sym v SYM_AND \<Longrightarrow> is_nil xs \<Longrightarrow>
      goes M (returning M s v (enc_u K_APPLICATION_ARGS # xs # n # env # stk)) (returning M s (enc_sym DEF_REPR_TRUE) stk)"
    by (rule returning_goes [OF ok])
      (use ok_p [OF ok] in \<open>auto dest!: pop simp: resume_simps cont_application_args_def is_sym_def intro!: returningI\<close>)
  show "is_sym v SYM_OR \<Longrightarrow> is_nil xs \<Longrightarrow>
      goes M (returning M s v (enc_u K_APPLICATION_ARGS # xs # n # env # stk)) (returning M s NIL stk)"
    by (rule returning_goes [OF ok])
      (use ok_p [OF ok] in \<open>auto dest!: pop simp: resume_simps cont_application_args_def is_sym_def intro!: returningI\<close>)
  show "is_sym v SYM_AND \<Longrightarrow> \<not> is_nil xs \<Longrightarrow> car (sc_heap s) xs = Some x \<Longrightarrow> cdr (sc_heap s) xs = Some d \<Longrightarrow>
      length stk + 3 \<le> st_size M \<Longrightarrow>
      goes M (returning M s v (enc_u K_APPLICATION_ARGS # xs # n # env # stk))
        (evaluating M (s\<lparr>sc_env := env\<rparr>) x (enc_u K_AND # d # env # stk))"
    by (rule returning_goes [OF ok])
      (use ok_p [OF ok] in \<open>auto dest!: pop simp: resume_simps cont_application_args_def is_sym_def
        intro!: push_and_eval_machine [OF ok]\<close>)
  show "is_sym v SYM_OR \<Longrightarrow> \<not> is_nil xs \<Longrightarrow> car (sc_heap s) xs = Some x \<Longrightarrow> cdr (sc_heap s) xs = Some d \<Longrightarrow>
      length stk + 3 \<le> st_size M \<Longrightarrow>
      goes M (returning M s v (enc_u K_APPLICATION_ARGS # xs # n # env # stk))
        (evaluating M (s\<lparr>sc_env := env\<rparr>) x (enc_u K_OR # d # env # stk))"
    by (rule returning_goes [OF ok])
      (use ok_p [OF ok] in \<open>auto dest!: pop simp: resume_simps cont_application_args_def is_sym_def
        intro!: push_and_eval_machine [OF ok]\<close>)
qed

lemma cont_args_done:
  assumes ok: "setting_ok M" and v: "\<not> is_sym v SYM_AND" "\<not> is_sym v SYM_OR" and "is_nil xs"
    and room: "length stk + 3 \<le> st_size M"
  shows "goes M (returning M s v (enc_u K_APPLICATION_ARGS # xs # n # env # stk))
    (returning M s v (enc_u K_APPLICATION # n # v # stk))"
proof (rule returning_goes [OF ok])
  fix c
  assume c: "resumed M s v (xs # n # env # stk) c"
  obtain k where k: "pop3 (ec_K c) = Some ((xs, n, env), k)" "stack_is k stk (st_size M)"
    using pop3_is [OF resumedD(5) [OF c]] by blast
  then obtain k1 where k1: "push_u32 (hst_malloc (st_host M)) k v = Some (True, k1)" "stack_is k1 (v # stk) (st_size M)"
    using push_u32_fits [OF k(2)] room by fastforce
  then obtain k2 where "push_u32_2 (hst_malloc (st_host M)) k1 n (enc_u K_APPLICATION) = Some (True, k2)"
      "stack_is k2 (enc_u K_APPLICATION # n # v # stk) (st_size M)"
    using push_fits(1) [OF k1(2)] room by fastforce
  with k k1 show "\<exists>y. switch_cont (st_host M) (machine M (sc_rt s) (sc_global s) c) (st_p M) K_APPLICATION_ARGS v = Some y \<and>
      returning M s v (enc_u K_APPLICATION # n # v # stk) y"
    using resumedD [OF c] assms ok_p [OF ok]
    by (auto simp: resume_simps cont_application_args_def is_sym_def intro!: returningI)
qed simp

lemma cont_args_more:
  assumes ok: "setting_ok M" and v: "\<not> is_sym v SYM_AND" "\<not> is_sym v SYM_OR" and "\<not> is_nil xs"
    and xs: "car (sc_heap s) xs = Some x" "cdr (sc_heap s) xs = Some d" and room: "length stk + 5 \<le> st_size M"
  shows "goes M (returning M s v (enc_u K_APPLICATION_ARGS # xs # n # env # stk))
    (evaluating M (s\<lparr>sc_env := env\<rparr>) x (enc_u K_APPLICATION_ARGS # d # enc_u (dec_u n + 1) # env # v # stk))"
proof (rule returning_goes [OF ok])
  fix c
  assume c: "resumed M s v (xs # n # env # stk) c"
  obtain k where k: "pop3 (ec_K c) = Some ((xs, n, env), k)" "stack_is k stk (st_size M)"
    using pop3_is [OF resumedD(5) [OF c]] by blast
  then obtain k1 where k1: "push_u32 (hst_malloc (st_host M)) k v = Some (True, k1)" "stack_is k1 (v # stk) (st_size M)"
    using push_u32_fits [OF k(2)] room by fastforce
  then obtain k2 where "push_u32_4 (hst_malloc (st_host M)) k1 env (enc_u (dec_u n + 1)) d (enc_u K_APPLICATION_ARGS) = Some (True, k2)"
      "stack_is k2 (enc_u K_APPLICATION_ARGS # d # enc_u (dec_u n + 1) # env # v # stk) (st_size M)"
    using push_fits(3) [OF k1(2)] room by fastforce
  with k k1 show "\<exists>y. switch_cont (st_host M) (machine M (sc_rt s) (sc_global s) c) (st_p M) K_APPLICATION_ARGS v = Some y \<and>
      evaluating M (s\<lparr>sc_env := env\<rparr>) x (enc_u K_APPLICATION_ARGS # d # enc_u (dec_u n + 1) # env # v # stk) y"
    using resumedD [OF c] assms ok_p [OF ok]
    by (auto simp: resume_simps cont_application_args_def is_sym_def intro!: evaluatingI)
qed simp

text \<open>The function and its arguments, as \<open>cont_application\<close> finds them in the memory of the stack.\<close>

lemma argc_Suc:
  assumes "stack_is k (rev vs @ f # stk) n" and "n < 2 ^ 28"
  shows "dec_u (argc vs) + 1 = of_nat (length (f # vs))"
proof -
  have "length (stack_list k) \<le> n" using assms(1) length_stack_list [of k] by (auto simp: stack_is_def elim!: stack_wfE)
  then have "length vs < 2 ^ 28" using assms by (simp add: stack_is_def)
  then show ?thesis by (simp add: dec_argc)
qed

lemma stack_args:
  assumes k: "stack_is k (rev vs @ f # stk) n" and n: "n < 2 ^ 28"
  shows "\<exists>i d rest. stack_ptr k (dec_u (argc vs) + 1) = Some i \<and> sk_data k = Some d \<and> drop (unat i) d = f # vs @ rest"
  unfolding argc_Suc [OF assms] using stack_top_words(1) [of k "f # vs" stk n] k by auto

lemma stack_drop_args:
  assumes k: "stack_is k (rev vs @ f # stk) n" and n: "n < 2 ^ 28"
  shows "\<exists>k'. stack_drop k (dec_u (argc vs) + 1) = (True, k') \<and> stack_is k' stk n"
  unfolding argc_Suc [OF assms] using stack_top_words(2) [of k "f # vs" stk n] k by auto

lemma application_goes:
  assumes ok: "setting_ok M"
    and Q: "\<And>c k' rest. frame (st_ctx M) c \<Longrightarrow> ec_curr_env c = sc_env s \<Longrightarrow> \<not> ec_app_cont c \<Longrightarrow>
      stack_drop (ec_K c) (dec_u (argc vs) + 1) = (True, k') \<Longrightarrow> stack_is k' stk (st_size M) \<Longrightarrow>
      \<exists>y. apply_function (st_host M) (machine M (sc_rt s) (sc_global s) c) (st_p M) (argc vs) (f # vs @ rest) = Some y \<and> Q y"
  shows "goes M (returning M s v (enc_u K_APPLICATION # argc vs # rev vs @ f # stk)) Q"
proof (rule returning_goes [OF ok])
  fix c
  assume c: "resumed M s v (argc vs # rev vs @ f # stk) c"
  obtain k where k: "pop_u32 (ec_K c) = Some (argc vs, k)" "stack_is k (rev vs @ f # stk) (st_size M)"
    using pop_is [OF resumedD(5) [OF c]] by blast
  obtain i d rest where i: "stack_ptr k (dec_u (argc vs) + 1) = Some i" "sk_data k = Some d" "drop (unat i) d = f # vs @ rest"
    using stack_args [OF k(2) setting_okD(6) [OF ok]] by blast
  obtain k' where k': "stack_drop k (dec_u (argc vs) + 1) = (True, k')" "stack_is k' stk (st_size M)"
    using stack_drop_args [OF k(2) setting_okD(6) [OF ok]] by blast
  have "cont_application (st_host M) (machine M (sc_rt s) (sc_global s) c) (st_p M) =
      apply_function (st_host M) (machine M (sc_rt s) (sc_global s) (c\<lparr>ec_K := k\<rparr>)) (st_p M) (argc vs) (f # vs @ rest)"
    using k(1) i ok_p [OF ok] by (simp add: cont_application_def machine_ctx)
  moreover have "frame (st_ctx M) (c\<lparr>ec_K := k\<rparr>)" using resumedD(1) [OF c] by simp
  ultimately show "\<exists>y. switch_cont (st_host M) (machine M (sc_rt s) (sc_global s) c) (st_p M) K_APPLICATION v = Some y \<and> Q y"
    using Q [of "c\<lparr>ec_K := k\<rparr>" k' rest] resumedD [OF c] k' by (simp add: switch_cont_def)
qed simp

lemma closure_args_append:
  "i < length xs \<Longrightarrow> closure_args h (xs @ ys) args i = closure_args h xs args i"
proof (induction i arbitrary: h args)
  case (Suc i)
  then have "arr_get (xs @ ys) (Suc i) = arr_get xs (Suc i)" by (simp add: nth_append)
  with Suc show ?case by (simp cong: if_cong)
qed simp

lemma drop_args_machine:
  assumes "st_p M \<noteq> 0" and "stack_drop (ec_K c) (n + 1) = (True, k')"
  shows "drop_args (machine M rt ge c) (st_p M) n = Some (machine M rt ge (c\<lparr>ec_K := k'\<rparr>))"
  using assms by (simp add: drop_args_def machine_ctx)

lemma cont_closure:
  assumes ok: "setting_ok M" and f: "type_of f = PTR_TYPE_CONS" and n: "length vs < 2 ^ 28"
    and args: "closure_args (sc_heap s) (f # vs) NIL (length vs) = Some (Inr args, h)"
    and clo: "cdr h f = Some d1" "car h d1 = Some params" "cdr h d1 = Some d2" "car h d2 = Some body"
      "cdr h d2 = Some d3" "car h d3 = Some clo_env"
    and len: "length_list h params = Some np" "length_list h args = Some np"
    and env: "env_build_params_args h params args clo_env = Some (env, h1)"
      "\<not> is_sym env DEF_REPR_MERROR" "\<not> is_sym env DEF_REPR_FATAL_ERROR"
  shows "goes M (returning M s v (enc_u K_APPLICATION # argc vs # rev vs @ f # stk))
    (evaluating M ((with_h s h1)\<lparr>sc_env := env\<rparr>) body stk)"
proof (rule application_goes [OF ok])
  fix c k' rest
  assume c: "frame (st_ctx M) c" "ec_curr_env c = sc_env s" "\<not> ec_app_cont c"
    "stack_drop (ec_K c) (dec_u (argc vs) + 1) = (True, k')" "stack_is k' stk (st_size M)"
  have "unat (of_nat (length vs) :: u32) = length vs" using n by (intro unat_u32_of_nat) simp
  moreover have "closure_args (sc_heap s) (f # vs @ rest) NIL (length vs) = Some (Inr args, h)"
    using closure_args_append [of "length vs" "f # vs" "sc_heap s" rest NIL] args by simp
  ultimately have "apply_closure (st_host M) (machine M (sc_rt s) (sc_global s) c) (st_p M) (argc vs) f (f # vs @ rest) =
      Some (machine M ((sc_rt s)\<lparr>rt_heap := h1\<rparr>) (sc_global s)
        (c\<lparr>ec_K := k', ec_curr_exp := body, ec_curr_env := env\<rparr>))"
    using clo len env c(4) ok_p [OF ok]
    by (auto simp: apply_closure_def dec_argc [OF n] machine_fields machine_updates drop_args_machine is_sym_def)
  then show "\<exists>y. apply_function (st_host M) (machine M (sc_rt s) (sc_global s) c) (st_p M) (argc vs) (f # vs @ rest) = Some y \<and>
      evaluating M ((with_h s h1)\<lparr>sc_env := env\<rparr>) body stk y"
    using c f by (auto simp: apply_function_def with_h_def intro!: evaluatingI)
qed

lemma cont_eval:
  assumes ok: "setting_ok M" and f: "is_sym f SYM_EVAL"
  shows "goes M (returning M s v (enc_u K_APPLICATION # argc (x # vs) # rev (x # vs) @ f # stk)) (evaluating M s x stk)"
proof (rule application_goes [OF ok])
  fix c k' rest
  assume c: "frame (st_ctx M) c" "ec_curr_env c = sc_env s" "\<not> ec_app_cont c"
    "stack_drop (ec_K c) (dec_u (argc (x # vs)) + 1) = (True, k')" "stack_is k' stk (st_size M)"
  then show "\<exists>y. apply_function (st_host M) (machine M (sc_rt s) (sc_global s) c) (st_p M) (argc (x # vs)) (f # (x # vs) @ rest) = Some y \<and>
      evaluating M s x stk y"
    using f ok_p [OF ok]
    by (auto simp: apply_function_def is_sym_def machine_ctx drop_args_machine intro!: evaluatingI)
qed

lemma cont_fundamental:
  assumes ok: "setting_ok M" and f: "type_of f = VAL_TYPE_SYMBOL" "dec_sym f \<notin> {SYM_YIELD, SYM_WAIT, SYM_EVAL}" "is_fundamental f"
    and n: "length vs < 2 ^ 28"
    and w: "\<forall>rest. fundamental_exec (hst_float (st_host M)) (sc_rt s) (vs @ rest) (of_nat (length vs)) f = Some (w, rt)"
      "\<not> is_sym w DEF_REPR_EERROR" "\<not> is_sym w DEF_REPR_MERROR"
  shows "goes M (returning M s v (enc_u K_APPLICATION # argc vs # rev vs @ f # stk)) (returning M (s\<lparr>sc_rt := rt\<rparr>) w stk)"
proof (rule application_goes [OF ok])
  fix c k' rest
  assume c: "frame (st_ctx M) c" "ec_curr_env c = sc_env s" "\<not> ec_app_cont c"
    "stack_drop (ec_K c) (dec_u (argc vs) + 1) = (True, k')" "stack_is k' stk (st_size M)"
  then have "apply_fundamental (st_host M) (machine M (sc_rt s) (sc_global s) c) (st_p M) (argc vs) f (f # vs @ rest) =
      Some (machine M rt (sc_global s) (c\<lparr>ec_K := k', ec_app_cont := True, ec_r := w\<rparr>))"
    using w ok_p [OF ok]
    by (auto simp: apply_fundamental_def dec_argc [OF n] machine_fields machine_updates drop_args_machine is_sym_def)
  then show "\<exists>y. apply_function (st_host M) (machine M (sc_rt s) (sc_global s) c) (st_p M) (argc vs) (f # vs @ rest) = Some y \<and>
      returning M (s\<lparr>sc_rt := rt\<rparr>) w stk y"
    using c f by (auto simp: apply_function_def intro!: returningI)
qed

lemma cont_extension:
  assumes ok: "setting_ok M" and f: "type_of f \<noteq> PTR_TYPE_CONS"
      "\<not> (type_of f = VAL_TYPE_SYMBOL \<and> (dec_sym f \<in> {SYM_YIELD, SYM_WAIT, SYM_EVAL} \<or> is_fundamental f))"
    and n: "length vs < 2 ^ 28" and ext: "extensions_lookup (es_extensions (st_es M)) (dec_sym f) \<noteq> 0"
    and w: "\<forall>rest. hst_ext (st_host M) (extensions_lookup (es_extensions (st_es M)) (dec_sym f)) (sc_rt s) (vs @ rest)
      (of_nat (length vs)) = Some (w, rt)" "\<not> is_sym w DEF_REPR_MERROR"
  shows "goes M (returning M s v (enc_u K_APPLICATION # argc vs # rev vs @ f # stk)) (returning M (s\<lparr>sc_rt := rt\<rparr>) w stk)"
proof (rule application_goes [OF ok])
  fix c k' rest
  assume c: "frame (st_ctx M) c" "ec_curr_env c = sc_env s" "\<not> ec_app_cont c"
    "stack_drop (ec_K c) (dec_u (argc vs) + 1) = (True, k')" "stack_is k' stk (st_size M)"
  then have "apply_extension (st_host M) (machine M (sc_rt s) (sc_global s) c) (st_p M) (argc vs) f (f # vs @ rest) =
      Some (machine M rt (sc_global s) (c\<lparr>ec_K := k', ec_app_cont := True, ec_r := w\<rparr>))"
    using w ext ok_p [OF ok]
    by (auto simp: apply_extension_def dec_argc [OF n] machine_fields machine_updates drop_args_machine is_sym_def Let_def)
  moreover have "is_fundamental f \<Longrightarrow> type_of f = VAL_TYPE_SYMBOL" by (simp add: is_fundamental_def split: if_splits)
  ultimately show "\<exists>y. apply_function (st_host M) (machine M (sc_rt s) (sc_global s) c) (st_p M) (argc vs) (f # vs @ rest) = Some y \<and>
      returning M (s\<lparr>sc_rt := rt\<rparr>) w stk y"
    using c f by (auto simp: apply_function_def intro!: returningI)
qed

end
