(* ===== verification/Eval_Correct.thy ===== *)
theory Eval_Correct
  imports Eval_Steps
begin

text \<open>
  The evaluator of \<open>src/eval_cps.c\<close> implements the big-step specification of \<open>Eval_Spec\<close>: a task that
  \<open>runs\<close> is carried out by finitely many evaluation steps, with the stack back at its old height, and
  \<open>eval_cps_program_nc\<close> returns the value of a program.
\<close>

subsection \<open>Simulation\<close>

text \<open>The state in which the evaluator takes up a task, with the stack \<open>stk\<close> below it.\<close>

fun entry :: "setting \<Rightarrow> task \<Rightarrow> scene \<Rightarrow> UINT list \<Rightarrow> eval_state \<Rightarrow> bool" where
  "entry M (Eval e) s stk = evaluating M s e stk"
| "entry M (Rest env xs v) s stk = returning M s v (enc_u K_PROGN_REST # xs # env # stk)"
| "entry M (Conj env xs v) s stk = returning M s v (enc_u K_AND # xs # env # stk)"
| "entry M (Disj env xs v) s stk = returning M s v (enc_u K_OR # xs # env # stk)"
| "entry M (Bind body env key bs v) s stk =
     returning M s v (enc_u K_BIND_TO_KEY_REST # key # env # bs # body # stk)"
| "entry M (Args env acc xs v) s stk =
     returning M s v (enc_u K_APPLICATION_ARGS # xs # argc acc # env # acc @ stk)"
| "entry M (Apply f vs) s stk =
     (\<lambda>x. length vs < 2 ^ 28 \<and> (\<exists>r. returning M s r (enc_u K_APPLICATION # argc vs # rev vs @ f # stk) x))"

lemma goes_apply: "(\<And>r. length vs < 2 ^ 28 \<Longrightarrow> goes M (P r) Q) \<Longrightarrow> goes M (\<lambda>x. length vs < 2 ^ 28 \<and> (\<exists>r. P r x)) Q"
  unfolding goes_def by blast

lemma goes_trans3: "goes M P Q \<Longrightarrow> goes M Q R \<Longrightarrow> goes M R S \<Longrightarrow> goes M P S"
  by (blast intro: goes_trans)

lemma simulation:
  assumes ok: "setting_ok M" and "runs (st_host M) (es_extensions (st_es M)) n t s v s'" and "length stk + n \<le> st_size M"
  shows "goes M (entry M t s stk) (returning M s' v stk)"
  using assms(2,3)
proof (induction arbitrary: stk rule: runs.induct)
  case (eval_self e s)
  then show ?case by (simp add: step_self [OF ok])
next
  case (eval_symbol e s v)
  then show ?case by (simp add: step_symbol [OF ok])
next
  case (eval_quote s e a d v)
  then show ?case by (simp add: step_quote [OF ok])
next
  case eval_define
  show ?case unfolding entry.simps
    by (rule goes_trans3 [OF step_define [OF ok] eval_define.IH [unfolded entry.simps] cont_define [OF ok]])
      (use eval_define in auto)
next
  case eval_progn_nil
  then show ?case by (simp add: step_progn_nil [OF ok])
next
  case eval_progn
  show ?case unfolding entry.simps
    by (rule goes_trans3 [OF step_progn [OF ok] eval_progn.IH [unfolded entry.simps]]) (use eval_progn in auto)
next
  case rest_nil
  then show ?case by (simp add: cont_rest_nil [OF ok])
next
  case rest_last
  show ?case unfolding entry.simps
    by (rule goes_trans [OF cont_rest_last [OF ok] rest_last.IH [unfolded entry.simps]]) (use rest_last in auto)
next
  case rest_more
  show ?case unfolding entry.simps
    by (rule goes_trans3 [OF cont_rest_more [OF ok] rest_more.IH [unfolded entry.simps]]) (use rest_more in auto)
next
  case (eval_if s e a d c d2 x d3 y n v s1 m w s2)
  have "goes M (evaluating M s e stk) (evaluating M s c (enc_u K_IF # x # y # stk))"
    using eval_if by (intro step_if [OF ok]) auto
  also have "goes M \<dots> (returning M s1 v (enc_u K_IF # x # y # stk))"
    using eval_if.IH(1) [of "enc_u K_IF # x # y # stk"] eval_if.prems by simp
  also have "goes M \<dots> (returning M s2 w stk)"
    by (rule goes_trans [OF cont_branch [OF ok] eval_if.IH(2) [unfolded entry.simps]]) (use eval_if.prems in simp)
  finally show ?case by simp
next
  case eval_lambda
  then show ?case by (simp add: step_lambda [OF ok])
next
  case eval_let_nil
  show ?case unfolding entry.simps
    by (rule goes_trans [OF step_let_nil [OF ok] eval_let_nil.IH [unfolded entry.simps]]) (use eval_let_nil in auto)
next
  case eval_let
  show ?case unfolding entry.simps
    by (rule goes_trans3 [OF step_let [OF ok] eval_let.IH [unfolded entry.simps]]) (use eval_let in auto)
next
  case bind_last
  show ?case unfolding entry.simps
    by (rule goes_trans [OF cont_bind_last [OF ok] bind_last.IH [unfolded entry.simps]]) (use bind_last in auto)
next
  case bind_more
  show ?case unfolding entry.simps
    by (rule goes_trans3 [OF cont_bind_more [OF ok] bind_more.IH [unfolded entry.simps]]) (use bind_more in auto)
next
  case eval_application
  show ?case unfolding entry.simps
    by (rule goes_trans3 [OF step_application [OF ok] eval_application.IH [unfolded entry.simps argc_def list.size semiring_1_class.of_nat_0 append_Nil]])
      (use eval_application in auto)
next
  case args_and_nil
  then show ?case by (simp add: cont_args_logic(1) [OF ok])
next
  case args_and
  show ?case unfolding entry.simps append_Nil
    by (rule goes_trans3 [OF cont_args_logic(3) [OF ok] args_and.IH [unfolded entry.simps]]) (use args_and in auto)
next
  case conj_nil
  then show ?case by (simp add: cont_conj(1) [OF ok])
next
  case conj_last
  then show ?case by (simp add: cont_conj(2) [OF ok])
next
  case conj_more
  show ?case unfolding entry.simps
    by (rule goes_trans3 [OF cont_conj(3) [OF ok] conj_more.IH [unfolded entry.simps]]) (use conj_more in auto)
next
  case args_or_nil
  then show ?case by (simp add: cont_args_logic(2) [OF ok])
next
  case args_or
  show ?case unfolding entry.simps append_Nil
    by (rule goes_trans3 [OF cont_args_logic(4) [OF ok] args_or.IH [unfolded entry.simps]]) (use args_or in auto)
next
  case disj_true
  then show ?case by (simp add: cont_disj(1) [OF ok])
next
  case disj_last
  then show ?case by (simp add: cont_disj(2) [OF ok])
next
  case disj_more
  show ?case unfolding entry.simps
    by (rule goes_trans3 [OF cont_disj(3) [OF ok] disj_more.IH [unfolded entry.simps]]) (use disj_more in auto)
next
  case (args_done v xs acc f vs m s w s1 env)
  then have acc: "v # acc = rev vs @ [f]" by (metis rev_rev_ident rev.simps(2))
  have len: "length acc = length vs" using arg_cong [OF acc, of length] by simp
  have stk: "rev vs @ f # stk = v # acc @ stk" using arg_cong [OF acc, of "\<lambda>l. l @ stk"] by simp
  have argc: "argc vs = argc acc" using len by (simp add: argc_def)
  have "length (acc @ stk) + 3 \<le> st_size M" using args_done.prems by simp
  then have "goes M (entry M (Args env acc xs v) s stk) (returning M s v (enc_u K_APPLICATION # argc vs # rev vs @ f # stk))"
    unfolding entry.simps argc stk by (rule cont_args_done [OF ok args_done.hyps(1-3)])
  moreover have "length stk + m \<le> st_size M" "length vs < 2 ^ 28"
    using args_done.prems len setting_okD(6) [OF ok] by simp_all
  with args_done.IH [of stk] have "goes M (returning M s v (enc_u K_APPLICATION # argc vs # rev vs @ f # stk)) (returning M s1 w stk)"
    unfolding entry.simps goes_def by blast
  ultimately show ?case by (rule goes_trans)
next
  case (args_more v xs s x d n env v1 s1 m acc w s2)
  let ?stk = "enc_u K_APPLICATION_ARGS # d # argc (v # acc) # env # v # acc @ stk"
  have "length acc < 2 ^ 28" using args_more.prems setting_okD(6) [OF ok] by simp
  then have "goes M (entry M (Args env acc xs v) s stk) (evaluating M (s\<lparr>sc_env := env\<rparr>) x ?stk)"
    using args_more cont_args_more [OF ok, of v xs s x d "acc @ stk" "argc acc" env] by (simp add: argc_Cons [symmetric])
  also have "goes M \<dots> (returning M s1 v1 ?stk)" using args_more.IH(1) [of ?stk] args_more.prems by simp
  also have "goes M \<dots> (returning M s2 w stk)" using args_more.IH(2) [of stk] args_more.prems by simp
  finally show ?case .
next
  case apply_closure
  show ?case unfolding entry.simps
    by (rule goes_apply, rule goes_trans [OF cont_closure [OF ok] apply_closure.IH [unfolded entry.simps]])
      (use apply_closure in auto)
next
  case apply_eval
  show ?case unfolding entry.simps
    by (rule goes_apply, rule goes_trans [OF cont_eval [OF ok] apply_eval.IH [unfolded entry.simps]])
      (use apply_eval in auto)
next
  case apply_fundamental
  then show ?case unfolding entry.simps by (intro goes_apply cont_fundamental [OF ok]) auto
next
  case apply_extension
  then show ?case unfolding entry.simps by (intro goes_apply cont_extension [OF ok]) auto
qed

subsection \<open>Programs\<close>

text \<open>After the last expression: the context is finished and none is running.\<close>

definition finished :: "setting \<Rightarrow> scene \<Rightarrow> VALUE \<Rightarrow> eval_state \<Rightarrow> bool" where
  "finished M s v x \<longleftrightarrow> es_rt x = sc_rt s \<and> es_env_global x = sc_global s \<and> es_done x = st_p M \<and> es_running x = 0 \<and>
     (\<exists>c. get_ctx x (st_p M) = Some c \<and> ec_r c = v \<and> ec_id c = ec_id (st_ctx M) \<and> stack_is (ec_K c) [] (st_size M))"

definition next_program :: "setting \<Rightarrow> VALUE \<Rightarrow> setting" where
  "next_program M prg = M\<lparr>st_ctx := (st_ctx M)\<lparr>ec_program := prg\<rparr>\<rparr>"

lemma next_program_simps [simp]:
  "st_host (next_program M prg) = st_host M" "st_es (next_program M prg) = st_es M"
  "st_size (next_program M prg) = st_size M" "st_p (next_program M prg) = st_p M"
  "ec_program (st_ctx (next_program M prg)) = prg" "setting_ok (next_program M prg) = setting_ok M"
  "machine (next_program M prg) = machine M" "goes (next_program M prg) = goes M" "finished (next_program M prg) = finished M"
  by (simp_all add: next_program_def setting_ok_def fun_eq_iff machine_def goes_def finished_def)

lemma program_last:
  assumes ok: "setting_ok M" and "type_of (ec_program (st_ctx M)) \<noteq> PTR_TYPE_CONS"
    and "es_done (st_es M) = 0" and "\<forall>x. hst_done (st_host M) x = x"
  shows "goes M (returning M s v [enc_u K_DONE]) (finished M s v)"
proof (rule returning_goes [OF ok])
  fix c
  assume c: "resumed M s v [] c"
  let ?x = "machine M (sc_rt s) (sc_global s) c"
  have "ec_program c = ec_program (st_ctx M)" using resumedD(1) [OF c] by (simp add: frame_def)
  moreover have "es_done (machine M rt ge c') = 0" for rt ge c' using assms(3) by (simp add: machine_def)
  ultimately have "advance_ctx (st_host M) ?x =
      Some ((machine M (sc_rt s) (sc_global s) (c\<lparr>ec_done := True, ec_prev := 0, ec_next := 0\<rparr>))
        \<lparr>es_done := st_p M, es_running := 0\<rparr>)"
    using assms(2,4) setting_okD [OF ok]
    by (simp add: advance_ctx_def finish_ctx_def machine_ctx machine_fields Let_def)
  then show "\<exists>y. switch_cont (st_host M) ?x (st_p M) K_DONE v = Some y \<and> finished M s v y"
    using resumedD(1,2,5) [OF c] ok_p [OF ok]
    by (simp add: switch_cont_def finished_def machine_def get_ctx_def frame_def)
qed simp

lemma program_next:
  assumes ok: "setting_ok M" and prg: "type_of (ec_program (st_ctx M)) = PTR_TYPE_CONS"
    "car (sc_heap s) (ec_program (st_ctx M)) = Some e" "cdr (sc_heap s) (ec_program (st_ctx M)) = Some d"
    and room: "0 < st_size M"
  shows "goes M (returning M s v [enc_u K_DONE]) (evaluating (next_program M d) s e [enc_u K_DONE])"
proof (rule returning_goes [OF ok])
  fix c
  assume c: "resumed M s v [] c"
  obtain k where k: "push_u32 (hst_malloc (st_host M)) (ec_K c) (enc_u K_DONE) = Some (True, k)"
      "stack_is k [enc_u K_DONE] (st_size M)"
    using push_u32_fits [OF resumedD(5) [OF c]] room by fastforce
  have "ec_program c = ec_program (st_ctx M)" using resumedD(1) [OF c] by (simp add: frame_def)
  moreover have "frame (st_ctx (next_program M d)) (c\<lparr>ec_program := d\<rparr>)"
    using resumedD(1) [OF c] by (simp add: frame_def next_program_def)
  ultimately show "\<exists>y. switch_cont (st_host M) (machine M (sc_rt s) (sc_global s) c) (st_p M) K_DONE v = Some y \<and>
      evaluating (next_program M d) s e [enc_u K_DONE] y"
    using resumedD [OF c] prg k setting_okD [OF ok]
    by (auto simp: switch_cont_def advance_ctx_def machine_ctx machine_fields evaluating_def frame_def)
qed simp

lemma program_simulation:
  assumes "runs_program H exts n prg s v s'" and "setting_ok M" and "st_host M = H" and "es_extensions (st_es M) = exts"
    and "Suc n \<le> st_size M" and "car (sc_heap s) prg = Some e" and "cdr (sc_heap s) prg = Some (ec_program (st_ctx M))"
    and "es_done (st_es M) = 0" and "\<forall>x. hst_done H x = x"
  shows "goes M (evaluating M s e [enc_u K_DONE]) (finished M s' v)"
  using assms
proof (induction arbitrary: M e rule: runs_program.induct)
  case (last s prg e' d n v s1)
  then have "goes M (evaluating M s e [enc_u K_DONE]) (returning M s1 v [enc_u K_DONE])"
    using simulation [of M n "Eval e" s v s1 "[enc_u K_DONE]"] by simp
  also have "goes M \<dots> (finished M s1 v)" using last by (intro program_last) auto
  finally show ?case .
next
  case (more s prg e' d n v s1 m w s2)
  then obtain e2 d2 where d: "car (sc_heap s1) d = Some e2" "cdr (sc_heap s1) d = Some d2"
    by (auto elim: runs_program.cases)
  from more have "goes M (evaluating M s e [enc_u K_DONE]) (returning M s1 v [enc_u K_DONE])"
    using simulation [of M n "Eval e" s v s1 "[enc_u K_DONE]"] by simp
  also have "goes M \<dots> (evaluating (next_program M d2) s1 e2 [enc_u K_DONE])"
    using more d by (intro program_next) auto
  also have "goes M \<dots> (finished M s2 w)" using more.IH [of "next_program M d2" e2] more.prems d by simp
  finally show ?case .
qed

lemma step_needs_running: "es_running x = 0 \<Longrightarrow> evaluation_step H x = None"
  by (simp add: evaluation_step_def gc_if_asked_def gc_def error_ctx_def upd_ctx_def get_ctx_def
      split: bind_split sum.split)

lemma eval_loop_nc_steps:
  "eval_steps H k x = Some y \<Longrightarrow> es_running y = 0 \<Longrightarrow> eval_loop_nc H x = Some y"
proof (induction k arbitrary: x)
  case 0
  then show ?case by (subst eval_loop_nc.simps) simp
next
  case (Suc k)
  then obtain z where z: "evaluation_step H x = Some z" "eval_steps H k z = Some y" by (auto simp: bind_eq_Some_conv)
  then have "es_running x \<noteq> 0" using step_needs_running [of x H] by auto
  with z Suc show ?case by (subst eval_loop_nc.simps) simp
qed

lemma program_nc_returns:
  assumes "runs_program H (es_extensions es) n lisp \<lparr>sc_rt = es_rt es, sc_global = es_env_global es, sc_env = NIL\<rparr> v s'"
    and "type_of lisp = PTR_TYPE_CONS" and "es_ctxs es ctx_non_concurrent = Some c" and "stack_wf (ec_K c)"
    and "n < unat (sk_size (ec_K c))" and "unat (sk_size (ec_K c)) < 2 ^ 28" and "es_done es = 0"
    and "\<forall>x. hst_done H x = x"
  shows "\<exists>es'. eval_cps_program_nc H es lisp = Some (v, es') \<and> es_rt es' = sc_rt s' \<and> es_env_global es' = sc_global s' \<and>
    es_done es' = 0 \<and> (\<exists>c'. es_ctxs es' ctx_non_concurrent = Some c' \<and> stack_wf (ec_K c') \<and> sk_size (ec_K c') = sk_size (ec_K c))"
proof -
  let ?s = "\<lparr>sc_rt = es_rt es, sc_global = es_env_global es, sc_env = NIL\<rparr>"
  obtain e prg where e: "car (es_heap es) lisp = Some e" "cdr (es_heap es) lisp = Some prg"
    using assms(1) by (auto elim: runs_program.cases)
  let ?c = "c\<lparr>ec_program := prg, ec_curr_exp := e, ec_curr_env := NIL, ec_done := False, ec_app_cont := False,
    ec_timestamp := 0, ec_sleep_us := 0, ec_id := 0, ec_K := (ec_K c)\<lparr>sk_sp := 0\<rparr>\<rparr>"
  have "stack_is ((ec_K c)\<lparr>sk_sp := 0\<rparr>) [] (unat (sk_size (ec_K c)))"
    using assms(4) by (auto simp: stack_is_def stack_wf_def stack_list_def split: option.splits)
  then obtain k where k: "push_u32 (hst_malloc H) ((ec_K c)\<lparr>sk_sp := 0\<rparr>) (enc_u K_DONE) = Some (True, k)"
      "stack_is k [enc_u K_DONE] (unat (sk_size (ec_K c)))"
    using push_u32_fits assms(5) by fastforce
  let ?M = "\<lparr>st_host = H, st_es = es\<lparr>es_running := 1, es_perform_gc := False, es_last_iteration_gc := False\<rparr>,
    st_p = 1, st_ctx = ?c, st_size = unat (sk_size (ec_K c))\<rparr>"
  let ?x = "machine ?M (es_rt es) (es_env_global es) (?c\<lparr>ec_K := k\<rparr>)"
  have ok: "setting_ok ?M" using assms(6) by (simp add: setting_ok_def)
  have "evaluating ?M ?s e [enc_u K_DONE] ?x" using k(2) by (intro evaluatingI) (simp_all add: frame_def)
  then obtain l y where y: "eval_steps H l ?x = Some y" "finished ?M s' v y"
    using program_simulation [OF assms(1) ok _ _ _ _ _ _ assms(8), of e] assms(5,7) e by (auto simp: goes_def)
  then have loop: "eval_loop_nc H ?x = Some y" by (intro eval_loop_nc_steps) (auto simp: finished_def)
  have x: "?x = es\<lparr>es_ctxs := (es_ctxs es)(ctx_non_concurrent \<mapsto> ?c\<lparr>ec_K := k\<rparr>), es_running := 1, es_perform_gc := False,
      es_last_iteration_gc := False\<rparr>" by (simp add: machine_def)
  have "evaluate_non_concurrent H (es\<lparr>es_ctxs := (es_ctxs es)(ctx_non_concurrent \<mapsto> ?c\<lparr>ec_K := k\<rparr>), es_running := 1\<rparr>) =
      Some (v, y\<lparr>es_done := 0\<rparr>)"
    using loop y(2) unfolding evaluate_non_concurrent_def x by (auto simp: finished_def)
  then have "eval_cps_program_nc H es lisp = Some (v, y\<lparr>es_done := 0\<rparr>)"
    using assms(2,3) e k(1)
    by (simp add: eval_cps_program_nc_def upd_ctx_def get_ctx_def on_K_def stack_clear_def)
  then show ?thesis using y(2) by (auto simp: finished_def get_ctx_def stack_is_def unsigned_word_eqI split: if_splits)
qed

end
