(* ===== verification/Eval_Program.thy ===== *)
theory Eval_Program
  imports Eval_Correct
begin

text \<open>
  The correctness of the evaluator of \<open>src/eval_cps.c\<close> as properties, and an example program on which
  they are applied, \<open>(if (let ((x t)) x) x nil)\<close>. The example also shows where the evaluator departs
  from lexical scoping: the branch of the \<open>if\<close> is evaluated in the environment that its condition leaves
  behind.
\<close>

subsection \<open>An example program\<close>

text \<open>Cells given by their contents; the free cells start at \<open>free\<close>.\<close>

definition cells_heap :: "(VALUE \<times> VALUE) list \<Rightarrow> u32 \<Rightarrow> u32 \<Rightarrow> heap_state" where
  "cells_heap cs free n = \<lparr>hs_heap = Some (map (\<lambda>(a, d). \<lparr>cell_car = a, cell_cdr = d\<rparr>) cs),
    hs_malloced = False, hs_freelist = enc_cons_ptr free, hs_heap_size = n, hs_heap_bytes = 8 * n,
    hs_num_alloc = free, hs_num_alloc_arrays = 0, hs_gc_num = 0, hs_gc_marked = 0,
    hs_gc_recovered = 0, hs_gc_recovered_arrays = 0\<rparr>"

abbreviation (input) "sym_x \<equiv> enc_sym 4096"

definition leak_code :: "(VALUE \<times> VALUE) list" where
  "leak_code =
    [(enc_cons_ptr 1, NIL),
     (enc_sym DEF_REPR_IF, enc_cons_ptr 2), (enc_cons_ptr 5, enc_cons_ptr 3), (sym_x, enc_cons_ptr 4), (NIL, NIL),
     (enc_sym DEF_REPR_LET, enc_cons_ptr 6), (enc_cons_ptr 8, enc_cons_ptr 7), (sym_x, NIL),
     (enc_cons_ptr 9, NIL), (sym_x, enc_cons_ptr 10), (enc_sym DEF_REPR_TRUE, NIL)]"

definition leak0 :: heap_state where
  "leak0 = cells_heap (leak_code @ [(RECOVERED, enc_cons_ptr 12), (RECOVERED, enc_cons_ptr 13), (RECOVERED, NIL)]) 11 14"

definition leak1 :: heap_state where
  "leak1 = cells_heap (leak_code @ [(sym_x, NIL), (enc_cons_ptr 11, NIL), (RECOVERED, NIL)]) 13 14"

definition leak2 :: heap_state where
  "leak2 = cells_heap (leak_code @ [(sym_x, enc_sym DEF_REPR_TRUE), (enc_cons_ptr 11, NIL), (RECOVERED, NIL)]) 13 14"


lemmas run_defs = cells_heap_def leak_code_def leak0_def leak1_def leak2_def car_def cdr_def cons_def heap_allocate_cell_def
  upd_cell_def get_cell_def ref_cell_def cell_defs is_ptr_def type_of_def dec_ptr_def enc_cons_ptr_def enc_sym_def set_cdr_def


lemma leak_heaps:
  "let_prealloc leak0 (enc_cons_ptr 8) NIL = Some (Some (enc_cons_ptr 12), leak1)"
  "env_modify_binding leak1 (enc_cons_ptr 12) sym_x (enc_sym DEF_REPR_TRUE) = Some (enc_cons_ptr 12, leak2)"
  by (simp_all add: let_prealloc.simps env_modify_binding_def env_update_loop.simps run_defs)

lemma leak_forms:
  "form leak0 (enc_cons_ptr 1) (enc_sym DEF_REPR_IF) (enc_cons_ptr 2)"
  "form leak0 (enc_cons_ptr 5) (enc_sym DEF_REPR_LET) (enc_cons_ptr 6)"
  by (simp_all add: form_def run_defs)

lemma leak_lookup: "env_lookup leak2 sym_x (enc_cons_ptr 12) = Some (enc_sym DEF_REPR_TRUE)"
  by (simp add: env_lookup_def env_lookup_loop.simps dec_sym_def run_defs)

lemma leak_syms: "is_sym (enc_sym DEF_REPR_IF) DEF_REPR_IF" "is_sym (enc_sym DEF_REPR_LET) DEF_REPR_LET"
  "\<not> is_special sym_x" "is_special (enc_sym DEF_REPR_TRUE)" "is_sym (enc_sym DEF_REPR_TRUE) DEF_REPR_TRUE" "\<not> is_sym (enc_sym DEF_REPR_TRUE) DEF_REPR_NOT_FOUND"
  by (simp_all add: is_sym_def is_special_def dec_sym_enc_sym)

definition leak_scene :: "runtime \<Rightarrow> scene" where
  "leak_scene rt = \<lparr>sc_rt = rt\<lparr>rt_heap := leak0\<rparr>, sc_global = NIL, sc_env = NIL\<rparr>"

abbreviation (input) "leak_end rt \<equiv> (with_h (leak_scene rt) leak2)\<lparr>sc_env := enc_cons_ptr 12\<rparr>"

lemma leak_x: "runs H [] 0 (Eval sym_x) (leak_end rt) (enc_sym DEF_REPR_TRUE) (leak_end rt)"
  by (rule runs.eval_symbol) (simp_all add: symbol_value_def leak_syms leak_lookup with_h_def)

lemma leak_let: "runs H [] 5 (Eval (enc_cons_ptr 5)) (leak_scene rt) (enc_sym DEF_REPR_TRUE) (leak_end rt)"
proof -
  let ?s = "with_h (leak_scene rt) leak1\<lparr>sc_env := enc_cons_ptr 12\<rparr>"
  have 1: "runs H [] 0 (Eval (enc_sym DEF_REPR_TRUE)) ?s (enc_sym DEF_REPR_TRUE) ?s"
    by (rule runs.eval_symbol) (simp_all add: symbol_value_def leak_syms)
  have 2: "runs H [] 0 (Bind sym_x (enc_cons_ptr 12) sym_x NIL (enc_sym DEF_REPR_TRUE)) ?s
     (enc_sym DEF_REPR_TRUE) (leak_end rt)"
    by (rule runs.bind_last [where r = "enc_cons_ptr 12" and h = leak2])
      (use leak_x [of H rt] in \<open>simp_all add: leak_heaps with_h_def\<close>)
  have "runs H [] (max (0 + 5) 0) (Eval (enc_cons_ptr 5)) (leak_scene rt) (enc_sym DEF_REPR_TRUE) (leak_end rt)"
    by (rule runs.eval_let [where a = "enc_sym DEF_REPR_LET" and d = "enc_cons_ptr 6" and binds = "enc_cons_ptr 8" and
         ?d2.0 = "enc_cons_ptr 7" and b = "enc_cons_ptr 9" and bd = "enc_cons_ptr 10", OF _ _ _ _ _ _ _ _ _ _ _ _ 1 2])
      (simp_all add: leak_scene_def leak_forms leak_heaps leak_syms, simp_all add: run_defs)
  then show ?thesis by simp
qed

lemma leak_program: "runs_program H [] 8 (enc_cons_ptr 0) (leak_scene rt) (enc_sym DEF_REPR_TRUE) (leak_end rt)"
proof -
  have "runs H [] (max (5 + 3) 0) (Eval (enc_cons_ptr 1)) (leak_scene rt) (enc_sym DEF_REPR_TRUE) (leak_end rt)"
    by (rule runs.eval_if [where a = "enc_sym DEF_REPR_IF" and d = "enc_cons_ptr 2" and ?d2.0 = "enc_cons_ptr 3" and x = sym_x and
         ?d3.0 = "enc_cons_ptr 4" and y = NIL, OF _ _ _ _ _ _ _ leak_let])
      (use leak_x [of H rt] in \<open>simp_all add: leak_scene_def leak_forms leak_syms\<close>, simp_all add: run_defs)
  then show ?thesis
    by (intro runs_program.last [where e = "enc_cons_ptr 1" and d = NIL]) (simp_all add: leak_scene_def, simp_all add: run_defs)
qed
definition leak_stack :: stack where
  "leak_stack = \<lparr>sk_data = Some (replicate 16 0), sk_sp = 0, sk_size = 16, sk_growable = False\<rparr>"

definition leak_state :: "eval_state \<Rightarrow> eval_context \<Rightarrow> eval_state" where
  "leak_state es c = es\<lparr>es_rt := (es_rt es)\<lparr>rt_heap := leak0\<rparr>, es_env_global := NIL, es_extensions := [],
     es_ctxs := (es_ctxs es)(ctx_non_concurrent \<mapsto> c\<lparr>ec_K := leak_stack\<rparr>), es_done := 0\<rparr>"

definition leak_setting :: "host \<Rightarrow> eval_state \<Rightarrow> eval_context \<Rightarrow> setting" where
  "leak_setting H es c = \<lparr>st_host = H,
     st_es = es\<lparr>es_running := 1, es_perform_gc := False, es_last_iteration_gc := False, es_extensions := []\<rparr>,
     st_p = 1, st_ctx = c\<lparr>ec_done := False\<rparr>, st_size = 16\<rparr>"

lemma leak_stack_wf: "stack_wf leak_stack" "stack_is leak_stack [] 16" "unat (sk_size leak_stack) = 16"
  by (simp_all add: leak_stack_def stack_wf_def stack_is_def stack_list_def)

subsection \<open>Properties\<close>

text \<open>
  The evaluator implements the specification. When the specification gives an expression the value
  \<open>v\<close>, then a context that evaluates the expression, on a stack with room for the evaluation, reaches
  after finitely many steps the state in which it returns \<open>v\<close>, with the heap, the memory, the global
  and the current environment of the specification and with the stack as it was.
\<close>

theorem evaluation_correct:
  assumes "setting_ok M" and "runs (st_host M) (es_extensions (st_es M)) n (Eval e) s v s'"
    and "length stk + n \<le> st_size M" and "evaluating M s e stk x"
  shows "\<exists>k y. eval_steps (st_host M) k x = Some y \<and> returning M s' v stk y"
  using simulation [OF assms(1-3)] assms(4) by (auto simp: goes_def)

theorem evaluation_correct_witness:
  "\<forall>H es c. \<exists>k y. eval_steps H k (machine (leak_setting H es c) ((es_rt es)\<lparr>rt_heap := leak0\<rparr>) NIL
       (c\<lparr>ec_done := False, ec_curr_exp := enc_cons_ptr 5, ec_curr_env := NIL, ec_app_cont := False, ec_K := leak_stack\<rparr>)) = Some y \<and>
     returning (leak_setting H es c) (leak_end (es_rt es)) (enc_sym DEF_REPR_TRUE) [] y"
proof (intro allI)
  fix H es c
  let ?M = "leak_setting H es c" and ?c = "c\<lparr>ec_done := False, ec_curr_exp := enc_cons_ptr 5, ec_curr_env := NIL,
    ec_app_cont := False, ec_K := leak_stack\<rparr>"
  let ?x = "machine ?M ((es_rt es)\<lparr>rt_heap := leak0\<rparr>) NIL ?c"
  have "setting_ok ?M" by (simp add: leak_setting_def setting_ok_def)
  moreover have "runs (st_host ?M) (es_extensions (st_es ?M)) 5 (Eval (enc_cons_ptr 5)) (leak_scene (es_rt es))
      (enc_sym DEF_REPR_TRUE) (leak_end (es_rt es))"
    using leak_let by (simp add: leak_setting_def)
  moreover have "evaluating ?M (leak_scene (es_rt es)) (enc_cons_ptr 5) [] ?x"
    using leak_stack_wf(2) by (intro evaluatingI) (simp_all add: leak_setting_def leak_scene_def frame_def)
  moreover have "length [] + 5 \<le> st_size ?M" by (simp add: leak_setting_def)
  ultimately have "\<exists>k y. eval_steps (st_host ?M) k ?x = Some y \<and> returning ?M (leak_end (es_rt es)) (enc_sym DEF_REPR_TRUE) [] y"
    by (intro evaluation_correct)
  then show "\<exists>k y. eval_steps H k ?x = Some y \<and> returning ?M (leak_end (es_rt es)) (enc_sym DEF_REPR_TRUE) [] y"
    by (simp add: leak_setting_def)
qed

text \<open>
  C1: \<open>eval_cps_program_nc\<close> returns the value of a program. When the specification runs the list of
  expressions \<open>lisp\<close> from the empty environment to the value \<open>v\<close>, within the stack of the static
  context, then the call terminates and returns \<open>v\<close>, and leaves the heap, the memory and the global
  environment of the specification.
\<close>

theorem eval_cps_program_nc_correct:
  assumes "runs_program H (es_extensions es) n lisp \<lparr>sc_rt = es_rt es, sc_global = es_env_global es, sc_env = NIL\<rparr> v s'"
    and "type_of lisp = PTR_TYPE_CONS" and "es_ctxs es ctx_non_concurrent = Some c" and "stack_wf (ec_K c)"
    and "n < unat (sk_size (ec_K c))" and "unat (sk_size (ec_K c)) < 2 ^ 28" and "es_done es = 0"
    and "\<forall>x. hst_done H x = x"
  shows "\<exists>es'. eval_cps_program_nc H es lisp = Some (v, es') \<and> es_rt es' = sc_rt s' \<and> es_env_global es' = sc_global s'"
  using program_nc_returns [OF assms] by blast

theorem eval_cps_program_nc_correct_witness:
  "\<forall>H es c. \<exists>es'. eval_cps_program_nc (H\<lparr>hst_done := \<lambda>x. x\<rparr>) (leak_state es c) (enc_cons_ptr 0) = Some (enc_sym DEF_REPR_TRUE, es') \<and>
     es_rt es' = (es_rt es)\<lparr>rt_heap := leak2\<rparr> \<and> es_env_global es' = NIL"
proof (intro allI)
  fix H es c
  show "\<exists>es'. eval_cps_program_nc (H\<lparr>hst_done := \<lambda>x. x\<rparr>) (leak_state es c) (enc_cons_ptr 0) = Some (enc_sym DEF_REPR_TRUE, es') \<and>
     es_rt es' = (es_rt es)\<lparr>rt_heap := leak2\<rparr> \<and> es_env_global es' = NIL"
    using eval_cps_program_nc_correct [of "H\<lparr>hst_done := \<lambda>x. x\<rparr>" "leak_state es c" 8 "enc_cons_ptr 0" "enc_sym DEF_REPR_TRUE" "leak_end (es_rt es)"
        "c\<lparr>ec_K := leak_stack\<rparr>"]
      leak_program [of "H\<lparr>hst_done := \<lambda>x. x\<rparr>" "es_rt es"] leak_stack_wf
    by (auto simp: leak_state_def leak_scene_def with_h_def type_of_enc_cons_ptr)
qed


end
