(* ===== verification/Ready_Queue.thy ===== *)
theory Ready_Queue
  imports Eval_Ctx
begin

text \<open>
  The queue of runnable contexts of \<open>src/eval_cps.c\<close>. The doubly linked list in the store of contexts
  represents a list of addresses; \<open>enqueue_ctx\<close> appends to it and \<open>dequeue_ctx\<close> takes out the first context
  whose sleeping time is over. The locale \<open>ready_queue\<close> states this as an interface; it is proved in it
  that contexts that are all ready run in the order in which they were enqueued.
\<close>

subsection \<open>The interface\<close>

primrec enqueue_all :: "('s \<Rightarrow> 'p \<Rightarrow> 's option) \<Rightarrow> 's \<Rightarrow> 'p list \<Rightarrow> 's option" where
  "enqueue_all enqueue s [] = Some s"
| "enqueue_all enqueue s (p # ps) = Option.bind (enqueue s p) (\<lambda>s. enqueue_all enqueue s ps)"

primrec dequeue_n :: "('s \<Rightarrow> (('u + 'p) \<times> 's) option) \<Rightarrow> nat \<Rightarrow> 's \<Rightarrow> ('p list \<times> 's) option" where
  "dequeue_n dequeue 0 s = Some ([], s)"
| "dequeue_n dequeue (Suc n) s = Option.bind (dequeue s) (\<lambda>(r, s).
     case r of Inl u \<Rightarrow> Some ([], s)
     | Inr p \<Rightarrow> Option.bind (dequeue_n dequeue n s) (\<lambda>(ps, s). Some (p # ps, s)))"

locale ready_queue =
  fixes enqueue :: "'s \<Rightarrow> 'p \<Rightarrow> 's option"
    and dequeue :: "'s \<Rightarrow> (('u + 'p) \<times> 's) option"
    and holds :: "'s \<Rightarrow> 'p list \<Rightarrow> bool"
    and known :: "'s \<Rightarrow> 'p \<Rightarrow> bool"
    and ready :: "'s \<Rightarrow> 'p \<Rightarrow> bool"
  assumes enqueue_law: "holds s ps \<Longrightarrow> known s p \<Longrightarrow> p \<notin> set ps \<Longrightarrow>
            \<exists>s'. enqueue s p = Some s' \<and> holds s' (ps @ [p]) \<and> known s' = known s \<and> ready s' = ready s"
    and dequeue_ready: "holds s ps \<Longrightarrow> find (ready s) ps = Some p \<Longrightarrow>
            \<exists>s'. dequeue s = Some (Inr p, s') \<and> holds s' (remove1 p ps) \<and> known s' = known s \<and> ready s' = ready s"
    and dequeue_none: "holds s ps \<Longrightarrow> find (ready s) ps = None \<Longrightarrow> \<exists>u. dequeue s = Some (Inl u, s)"
begin

lemma enqueue_all_law:
  "holds s ps \<Longrightarrow> distinct (ps @ qs) \<Longrightarrow> list_all (known s) qs \<Longrightarrow>
     \<exists>s'. enqueue_all enqueue s qs = Some s' \<and> holds s' (ps @ qs) \<and> ready s' = ready s"
proof (induction qs arbitrary: s ps)
  case (Cons q qs)
  then obtain s1 where s1: "enqueue s q = Some s1" "holds s1 (ps @ [q])" "known s1 = known s" "ready s1 = ready s"
    using enqueue_law [of s ps q] by auto
  with Cons.IH [OF s1(2)] Cons.prems show ?case by simp
qed auto

lemma dequeue_n_law:
  "holds s ps \<Longrightarrow> list_all (ready s) ps \<Longrightarrow> \<exists>s'. dequeue_n dequeue (length ps) s = Some (ps, s') \<and> holds s' []"
proof (induction ps arbitrary: s)
  case (Cons p ps)
  then obtain s1 where s1: "dequeue s = Some (Inr p, s1)" "holds s1 ps" "ready s1 = ready s"
    using dequeue_ready [of s "p # ps" p] by auto
  with Cons.IH [OF s1(2)] Cons.prems show ?case by auto
qed auto

lemma fifo:
  assumes "holds s []" and "distinct ps" and "list_all (known s) ps" and "list_all (ready s) ps"
  shows "\<exists>s' s''. enqueue_all enqueue s ps = Some s' \<and> dequeue_n dequeue (length ps) s' = Some (ps, s'') \<and> holds s'' []"
  using enqueue_all_law [OF assms(1), of ps] dequeue_n_law assms(2-4) by fastforce

end

subsection \<open>Linked contexts\<close>

definition hd_or :: "'a list \<Rightarrow> 'a \<Rightarrow> 'a" where
  "hd_or xs b = (case xs of [] \<Rightarrow> b | x # _ \<Rightarrow> x)"

definition last_or :: "'a list \<Rightarrow> 'a \<Rightarrow> 'a" where
  "last_or xs a = (if xs = [] then a else last xs)"

lemma hd_last_or [simp]:
  "hd_or [] b = b" "hd_or (x # xs) b = x" "last_or [] a = a" "last_or (xs @ [x]) a = x" "last_or (x # xs) a = last_or xs x"
  "hd_or (xs @ ys) b = hd_or xs (hd_or ys b)" "last_or (xs @ ys) a = last_or ys (last_or xs a)"
  by (simp_all add: hd_or_def last_or_def split: list.split)

primrec linked :: "(nat \<Rightarrow> eval_context option) \<Rightarrow> nat \<Rightarrow> nat list \<Rightarrow> nat \<Rightarrow> bool" where
  "linked m a [] b \<longleftrightarrow> True"
| "linked m a (p # ps) b \<longleftrightarrow> (\<exists>c. m p = Some c \<and> ec_prev c = a \<and> ec_next c = hd_or ps b) \<and> linked m p ps b"

lemma linked_append: "linked m a (xs @ ys) b \<longleftrightarrow> linked m a xs (hd_or ys b) \<and> linked m (last_or xs a) ys b"
  by (induction xs arbitrary: a) auto

lemma linked_frame: "(\<And>q. q \<in> set ps \<Longrightarrow> m' q = m q) \<Longrightarrow> linked m' a ps b = linked m a ps b"
  by (induction ps arbitrary: a) auto

lemma linked_upd_other [simp]: "p \<notin> set ps \<Longrightarrow> linked (m(p := v)) a ps b = linked m a ps b"
  by (rule linked_frame) auto

lemma linked_set_next:
  assumes "linked m a (xs @ [x]) b" and "x \<notin> set xs" and "m x = Some c"
  shows "linked (m(x \<mapsto> c\<lparr>ec_next := b'\<rparr>)) a (xs @ [x]) b'"
  using assms by (simp add: linked_append)

lemma linked_set_prev:
  assumes "linked m a (x # xs) b" and "x \<notin> set xs" and "m x = Some c"
  shows "linked (m(x \<mapsto> c\<lparr>ec_prev := a'\<rparr>)) a' (x # xs) b"
  using assms by simp

definition queue_at :: "eval_state \<Rightarrow> nat list \<Rightarrow> bool" where
  "queue_at es ps \<longleftrightarrow> distinct ps \<and> 0 \<notin> set ps \<and> linked (es_ctxs es) 0 ps 0 \<and>
     es_queue es = hd_or ps 0 \<and> es_queue_last es = last_or ps 0"

text \<open>What the queue operations leave alone: everything of a context but its links.\<close>

definition payload :: "eval_context \<Rightarrow> eval_context" where
  "payload c = c\<lparr>ec_prev := 0, ec_next := 0\<rparr>"

definition same_payloads :: "eval_state \<Rightarrow> eval_state \<Rightarrow> bool" where
  "same_payloads es es' \<longleftrightarrow> (\<forall>p. map_option payload (es_ctxs es' p) = map_option payload (es_ctxs es p)) \<and>
     es_now es' = es_now es \<and> es_rt es' = es_rt es"

lemma payload_links [simp]:
  "payload (c\<lparr>ec_prev := a\<rparr>) = payload c" "payload (c\<lparr>ec_next := a\<rparr>) = payload c"
  by (simp_all add: payload_def)

lemma same_payloads_trans: "same_payloads es es' \<Longrightarrow> same_payloads es' es'' \<Longrightarrow> same_payloads es es''"
  by (simp add: same_payloads_def)

lemma same_payloads_upd:
  "es_ctxs es p = Some c \<Longrightarrow> payload c' = payload c \<Longrightarrow>
     same_payloads es (es\<lparr>es_ctxs := (es_ctxs es)(p \<mapsto> c')\<rparr>)"
  by (simp add: same_payloads_def)

lemma linked_nth: "linked m a ps b \<Longrightarrow> p \<in> set ps \<Longrightarrow> \<exists>c. m p = Some c"
  by (induction ps arbitrary: a) auto

subsection \<open>Operations\<close>

lemma enqueue_ctx_law:
  assumes q: "queue_at es ps" and p: "p \<noteq> 0" "p \<notin> set ps" "es_ctxs es p = Some c"
  shows "\<exists>es'. enqueue_ctx es p = Some es' \<and> queue_at es' (ps @ [p]) \<and> same_payloads es es'"
proof (cases ps rule: rev_cases)
  case Nil
  with q p show ?thesis
    by (auto simp: enqueue_ctx_def queue_at_def upd_ctx_def get_ctx_def same_payloads_def payload_def)
next
  case (snoc xs x)
  obtain d where d: "es_ctxs es x = Some d" using q linked_nth [of "es_ctxs es" 0 ps 0 x] snoc by (auto simp: queue_at_def)
  let ?m = "(es_ctxs es)(p \<mapsto> c\<lparr>ec_prev := x, ec_next := 0\<rparr>)"
  let ?es = "es\<lparr>es_ctxs := ?m(x \<mapsto> d\<lparr>ec_next := p\<rparr>), es_queue_last := p\<rparr>"
  have x: "x \<noteq> 0" "x \<noteq> p" "x \<notin> set xs" "p \<notin> set xs" "distinct xs" "0 \<notin> set xs"
    using q p snoc by (auto simp: queue_at_def)
  have l: "linked (es_ctxs es) 0 (xs @ [x]) 0" "es_queue es = hd_or (xs @ [x]) 0" "es_queue_last es = x"
    using q snoc by (auto simp: queue_at_def)
  have "enqueue_ctx es p = Some ?es"
    using x l(3) p d by (simp add: enqueue_ctx_def upd_ctx_def get_ctx_def Let_def)
  moreover have "queue_at ?es (ps @ [p])"
    using x l p d snoc by (auto simp: queue_at_def linked_append)
  moreover have "same_payloads es ?es" using p d x by (simp add: same_payloads_def payload_def)
  ultimately show ?thesis by blast
qed

lemma unlink_ctx_law:
  assumes q: "queue_at es (xs @ p # ys)" and p: "es_ctxs es p = Some c"
  shows "\<exists>es'. unlink_ctx es p c = Some es' \<and> queue_at es' (xs @ ys) \<and> same_payloads es es'"
proof -
  have l: "linked (es_ctxs es) 0 xs p" "linked (es_ctxs es) p ys 0" "ec_prev c = last_or xs 0" "ec_next c = hd_or ys 0"
    "es_queue es = hd_or xs p" "es_queue_last es = last_or ys p"
    using q p by (auto simp: queue_at_def linked_append)
  have dist: "distinct xs" "distinct ys" "p \<notin> set xs" "p \<notin> set ys" "set xs \<inter> set ys = {}" "0 \<notin> set xs" "0 \<notin> set ys" "p \<noteq> 0"
    using q by (auto simp: queue_at_def)
  have last: "last_or ys p = p \<longleftrightarrow> ys = []" using dist(4) by (cases ys rule: rev_cases) auto
  show ?thesis
  proof (cases xs rule: rev_cases)
    case xs: Nil
    show ?thesis
    proof (cases ys)
      case Nil
      with xs l show ?thesis by (simp add: unlink_ctx_def queue_at_def same_payloads_def)
    next
      case (Cons y zs)
      then obtain d where d: "es_ctxs es y = Some d" using linked_nth [OF l(2)] by auto
      have "unlink_ctx es p c = Some (es\<lparr>es_queue := y, es_ctxs := (es_ctxs es)(y \<mapsto> d\<lparr>ec_prev := 0\<rparr>)\<rparr>)"
        using xs l Cons d last dist by (auto simp: unlink_ctx_def upd_ctx_def get_ctx_def)
      then show ?thesis
        using xs l Cons d dist by (auto simp: queue_at_def same_payloads_def)
    qed
  next
    case xs: (snoc us x)
    then obtain d where d: "es_ctxs es x = Some d" using linked_nth [OF l(1)] by auto
    show ?thesis
    proof (cases ys)
      case Nil
      then have "unlink_ctx es p c = Some (es\<lparr>es_queue_last := x, es_ctxs := (es_ctxs es)(x \<mapsto> d\<lparr>ec_next := 0\<rparr>)\<rparr>)"
        using xs l d last dist by (simp add: unlink_ctx_def upd_ctx_def get_ctx_def)
      then show ?thesis
        using xs l Nil d dist by (auto simp: queue_at_def same_payloads_def linked_append)
    next
      case (Cons y zs)
      then obtain e where e: "es_ctxs es y = Some e" using linked_nth [OF l(2)] by auto
      have "unlink_ctx es p c = Some (es\<lparr>es_ctxs := (es_ctxs es)(x \<mapsto> d\<lparr>ec_next := y\<rparr>, y \<mapsto> e\<lparr>ec_prev := x\<rparr>)\<rparr>)"
        using xs l Cons d e last dist by (auto simp: unlink_ctx_def upd_ctx_def get_ctx_def)
      then show ?thesis
        using xs l Cons d e dist by (auto simp: queue_at_def same_payloads_def linked_append)
    qed
  qed
qed

definition ctx_now :: "eval_state \<Rightarrow> u32" where
  "ctx_now es = (case es_now es of Some t \<Rightarrow> t | None \<Rightarrow> 0)"

definition ctx_ready :: "eval_state \<Rightarrow> nat \<Rightarrow> bool" where
  "ctx_ready es p = (case es_ctxs es p of None \<Rightarrow> False
     | Some c \<Rightarrow> ec_sleep_us c \<le> elapsed_us (ctx_now es) (ec_timestamp c))"

definition ctx_known :: "eval_state \<Rightarrow> nat \<Rightarrow> bool" where
  "ctx_known es p \<longleftrightarrow> p \<noteq> 0 \<and> es_ctxs es p \<noteq> None"

lemma same_payloadsD:
  assumes "same_payloads es es'"
  shows "ctx_known es' = ctx_known es" "ctx_ready es' = ctx_ready es"
proof -
  have now: "ctx_now es' = ctx_now es" using assms by (simp add: same_payloads_def ctx_now_def)
  have eq: "map_option payload (es_ctxs es' p) = map_option payload (es_ctxs es p)" for p
    using assms by (simp add: same_payloads_def)
  have fields: "payload c = payload d \<Longrightarrow> ec_timestamp c = ec_timestamp d \<and> ec_sleep_us c = ec_sleep_us d" for c d
    by (cases c, cases d) (simp add: payload_def)
  show "ctx_known es' = ctx_known es"
  proof
    fix p show "ctx_known es' p = ctx_known es p" using eq [of p] by (cases "es_ctxs es p"; cases "es_ctxs es' p") (auto simp: ctx_known_def)
  qed
  show "ctx_ready es' = ctx_ready es"
  proof
    fix p show "ctx_ready es' p = ctx_ready es p"
      using eq [of p] by (cases "es_ctxs es p"; cases "es_ctxs es' p") (auto simp: ctx_ready_def now dest: fields)
  qed
qed

text \<open>The time since a context was put to sleep, and what the loop makes of a row of them.\<close>

definition ctx_elapsed :: "eval_state \<Rightarrow> nat \<Rightarrow> u32" where
  "ctx_elapsed es p = (case es_ctxs es p of None \<Rightarrow> 0 | Some c \<Rightarrow> elapsed_us (ctx_now es) (ec_timestamp c))"

lemma Min_image_Cons: "Min (insert u (f ` set (x # xs))) = Min (insert (min u (f x)) (f ` set xs))" for u :: "'a :: linorder"
proof (cases "xs = []")
  case False
  then have "Min (insert (min u (f x)) (f ` set xs)) = min (min u (f x)) (Min (f ` set xs))" by simp
  also have "\<dots> = min u (Min (insert (f x) (f ` set xs)))" using False by (simp add: min.assoc)
  finally show ?thesis by simp
qed simp

lemma dequeue_loop_law:
  assumes "queue_at es (xs @ ys)" and "\<forall>q \<in> set xs. \<not> ctx_ready es q"
  shows "case find (ctx_ready es) ys of
      None \<Rightarrow> dequeue_loop es (ctx_now es) us (hd_or ys 0) = Some (Inl (Min (insert us (ctx_elapsed es ` set ys))), es)
    | Some p \<Rightarrow> \<exists>es'. dequeue_loop es (ctx_now es) us (hd_or ys 0) = Some (Inr p, es') \<and>
        queue_at es' (xs @ remove1 p ys) \<and> same_payloads es es'"
  using assms
proof (induction ys arbitrary: xs us)
  case Nil
  then show ?case by (simp add: dequeue_loop.simps)
next
  case (Cons y ys)
  then obtain c where c: "es_ctxs es y = Some c" "ec_next c = hd_or ys 0" "y \<noteq> 0"
    by (auto simp: queue_at_def linked_append)
  let ?t = "elapsed_us (ctx_now es) (ec_timestamp c)"
  show ?case
  proof (cases "ctx_ready es y")
    case True
    moreover obtain es' where "unlink_ctx es y c = Some es'" "queue_at es' (xs @ ys)" "same_payloads es es'"
      using unlink_ctx_law [OF Cons.prems(1) c(1)] by blast
    ultimately show ?thesis
      using c by (subst dequeue_loop.simps) (auto simp: ctx_ready_def get_ctx_def Let_def)
  next
    case False
    have "(if us > ?t then ?t else us) = min us (ctx_elapsed es y)" using c by (auto simp: ctx_elapsed_def min_def)
    then have "dequeue_loop es (ctx_now es) us y = dequeue_loop es (ctx_now es) (min us (ctx_elapsed es y)) (hd_or ys 0)"
      using False c by (subst dequeue_loop.simps) (simp add: ctx_ready_def get_ctx_def Let_def)
    moreover have "queue_at es ((xs @ [y]) @ ys)" "\<forall>q \<in> set (xs @ [y]). \<not> ctx_ready es q"
      using Cons.prems False by simp_all
    moreover have "y \<noteq> p" if "find (ctx_ready es) ys = Some p" for p
      using that False by (auto simp: find_Some_iff)
    ultimately show ?thesis
      using Cons.IH [of "xs @ [y]" "min us (ctx_elapsed es y)"] False Min_image_Cons [of us "ctx_elapsed es" y ys]
      by (auto split: option.splits)
  qed
qed

lemma dequeue_ctx_loop: "dequeue_ctx es = dequeue_loop es (ctx_now es) DEFAULT_SLEEP_US (es_queue es)"
  by (simp add: dequeue_ctx_def ctx_now_def)

lemma dequeue_ctx_law:
  assumes "queue_at es ps"
  shows "case find (ctx_ready es) ps of
      None \<Rightarrow> dequeue_ctx es = Some (Inl (Min (insert DEFAULT_SLEEP_US (ctx_elapsed es ` set ps))), es)
    | Some p \<Rightarrow> \<exists>es'. dequeue_ctx es = Some (Inr p, es') \<and> queue_at es' (remove1 p ps) \<and> same_payloads es es'"
proof -
  have "es_queue es = hd_or ps 0" using assms by (simp add: queue_at_def)
  then show ?thesis
    using dequeue_loop_law [of es "[]" ps DEFAULT_SLEEP_US] assms by (simp add: dequeue_ctx_loop split: option.splits)
qed

interpretation rq: ready_queue enqueue_ctx dequeue_ctx queue_at ctx_known ctx_ready
proof
  fix s ps p
  assume "queue_at s ps" and "ctx_known s p" and "p \<notin> set ps"
  then show "\<exists>s'. enqueue_ctx s p = Some s' \<and> queue_at s' (ps @ [p]) \<and> ctx_known s' = ctx_known s \<and> ctx_ready s' = ctx_ready s"
    using enqueue_ctx_law [of s ps p] same_payloadsD [of s] by (force simp: ctx_known_def)
next
  fix s ps p
  assume "queue_at s ps" and "find (ctx_ready s) ps = Some p"
  then show "\<exists>s'. dequeue_ctx s = Some (Inr p, s') \<and> queue_at s' (remove1 p ps) \<and> ctx_known s' = ctx_known s \<and>
      ctx_ready s' = ctx_ready s"
    using dequeue_ctx_law [of s ps] same_payloadsD [of s] by force
next
  fix s ps
  assume "queue_at s ps" and "find (ctx_ready s) ps = None"
  then show "\<exists>u. dequeue_ctx s = Some (Inl u, s)" using dequeue_ctx_law [of s ps] by auto
qed

subsection \<open>Properties\<close>

text \<open>
  C29: on a well-formed queue \<open>dequeue_ctx\<close> returns the first context whose sleeping time is over and
  unlinks exactly that one, wherever it stands, and contexts keep everything but their links. When no context is
  ready it changes nothing and gives the least of \<open>DEFAULT_SLEEP_US\<close> and the times that the queued contexts
  have slept already (not the times they still have to sleep).
\<close>

theorem dequeue_ctx_correct:
  assumes "queue_at es ps"
  shows "case find (ctx_ready es) ps of
      None \<Rightarrow> dequeue_ctx es = Some (Inl (Min (insert DEFAULT_SLEEP_US (ctx_elapsed es ` set ps))), es)
    | Some p \<Rightarrow> \<exists>es'. dequeue_ctx es = Some (Inr p, es') \<and> queue_at es' (remove1 p ps) \<and> same_payloads es es'"
  by (rule dequeue_ctx_law [OF assms])

text \<open>
  C30: contexts that are enqueued one after the other on an empty queue, and are all ready, are dequeued
  in the same order, and the queue is empty again.
\<close>

theorem scheduling_fifo:
  assumes "queue_at es []" and "distinct ps" and "list_all (ctx_known es) ps" and "list_all (ctx_ready es) ps"
  shows "\<exists>es' es''. enqueue_all enqueue_ctx es ps = Some es' \<and>
    dequeue_n dequeue_ctx (length ps) es' = Some (ps, es'') \<and> queue_at es'' []"
  by (rule rq.fifo [OF assms])

text \<open>
  \<open>yield_ctx\<close> puts the running context at the end of the queue with its clock started, so that it
  is ready again only after the requested time (at once when there is no clock), and leaves none running.
\<close>

theorem yield_ctx_correct:
  assumes "queue_at es ps" and "ctx_known es (es_running es)" and "es_running es \<notin> set ps"
  shows "\<exists>es'. yield_ctx es us = Some es' \<and> queue_at es' (ps @ [es_running es]) \<and> es_running es' = 0 \<and>
    ctx_ready es' (es_running es) = (es_now es = None \<or> us = 0)"
proof -
  let ?p = "es_running es"
  obtain c where c: "es_ctxs es ?p = Some c" "?p \<noteq> 0" using assms(2) by (auto simp: ctx_known_def)
  let ?c = "(case es_now es of Some t \<Rightarrow> c\<lparr>ec_timestamp := t, ec_sleep_us := us\<rparr>
    | None \<Rightarrow> c\<lparr>ec_timestamp := 0, ec_sleep_us := 0\<rparr>)\<lparr>ec_r := enc_sym DEF_REPR_TRUE, ec_app_cont := True\<rparr>"
  let ?es = "es\<lparr>es_ctxs := (es_ctxs es)(?p \<mapsto> ?c)\<rparr>"
  have q: "queue_at ?es ps" using assms(1,3) by (simp add: queue_at_def)
  then obtain es' where es': "enqueue_ctx ?es ?p = Some es'" "queue_at es' (ps @ [?p])" "same_payloads ?es es'"
    using enqueue_ctx_law [OF q c(2) assms(3)] by auto
  have "ctx_ready ?es ?p = (es_now es = None \<or> us = 0)"
    by (auto simp: ctx_ready_def ctx_now_def elapsed_us_def split: option.split)
  moreover have "yield_ctx es us = Some (es'\<lparr>es_running := 0\<rparr>)"
    using c es'(1) by (auto simp: yield_ctx_def upd_ctx_def get_ctx_def Let_def split: option.split)
  moreover have "ctx_ready (es'\<lparr>es_running := 0\<rparr>) = ctx_ready es'"
    by (simp add: fun_eq_iff ctx_ready_def ctx_now_def split: option.split)
  ultimately show ?thesis
    using es'(2) same_payloadsD(2) [OF es'(3)] by (auto simp: queue_at_def)
qed

text \<open>
  C31: across an overflow of the microsecond counter the elapsed time is one too small.
\<close>

theorem elapsed_us_overflow:
  assumes "timestamp > t_now"
  shows "elapsed_us t_now timestamp = (t_now - timestamp) - 1"
proof -
  have "(0xFFFFFFFF :: u32) = - 1" by simp
  then show ?thesis using assms unfolding elapsed_us_def by (simp add: algebra_simps)
qed

subsection \<open>Witnesses\<close>

text \<open>At time 5, contexts 1 (asleep) and 2 (ready) are queued, context 3 is running.\<close>

definition three_ctxs :: "eval_state \<Rightarrow> eval_context \<Rightarrow> eval_state" where
  "three_ctxs es c = es\<lparr>es_ctxs := [1 \<mapsto> c\<lparr>ec_timestamp := 5, ec_sleep_us := 100, ec_prev := 0, ec_next := 2\<rparr>,
       2 \<mapsto> c\<lparr>ec_timestamp := 1, ec_sleep_us := 3, ec_prev := 1, ec_next := 0\<rparr>,
       3 \<mapsto> c\<lparr>ec_timestamp := 0, ec_sleep_us := 0\<rparr>],
     es_queue := 1, es_queue_last := 2, es_running := 3, es_now := Some 5\<rparr>"

lemma three_ctxs_queue: "queue_at (three_ctxs es c) [1, 2]"
  by (simp add: queue_at_def three_ctxs_def)

lemma three_ctxs_ready:
  "\<not> ctx_ready (three_ctxs es c) 1" "ctx_ready (three_ctxs es c) 2" "ctx_ready (three_ctxs es c) 3"
  by (simp_all add: ctx_ready_def ctx_now_def three_ctxs_def elapsed_us_def)

text \<open>At time 22 two contexts are queued that have slept for 12 and 7 and have 88 and 23 left.\<close>

definition sleeping_ctxs :: "eval_state \<Rightarrow> eval_context \<Rightarrow> eval_state" where
  "sleeping_ctxs es c = es\<lparr>es_ctxs := [1 \<mapsto> c\<lparr>ec_timestamp := 10, ec_sleep_us := 100, ec_prev := 0, ec_next := 2\<rparr>,
       2 \<mapsto> c\<lparr>ec_timestamp := 15, ec_sleep_us := 30, ec_prev := 1, ec_next := 0\<rparr>],
     es_queue := 1, es_queue_last := 2, es_now := Some 22\<rparr>"

lemma sleeping_ctxs_facts:
  "queue_at (sleeping_ctxs es c) [1, 2]" "\<not> ctx_ready (sleeping_ctxs es c) 1" "\<not> ctx_ready (sleeping_ctxs es c) 2"
  "ctx_elapsed (sleeping_ctxs es c) 1 = 12" "ctx_elapsed (sleeping_ctxs es c) 2 = 7"
  by (simp_all add: queue_at_def ctx_ready_def ctx_elapsed_def ctx_now_def sleeping_ctxs_def elapsed_us_def)

theorem dequeue_ctx_correct_witness:
  "\<forall>es c. (\<exists>es'. dequeue_ctx (three_ctxs es c) = Some (Inr 2, es') \<and> queue_at es' [1] \<and> same_payloads (three_ctxs es c) es') \<and>
     dequeue_ctx (sleeping_ctxs es c) = Some (Inl 7, sleeping_ctxs es c)"
proof (intro allI conjI)
  fix es c
  show "\<exists>es'. dequeue_ctx (three_ctxs es c) = Some (Inr 2, es') \<and> queue_at es' [1] \<and> same_payloads (three_ctxs es c) es'"
    using dequeue_ctx_correct [OF three_ctxs_queue [of es c]] three_ctxs_ready [of es c] by simp
  show "dequeue_ctx (sleeping_ctxs es c) = Some (Inl 7, sleeping_ctxs es c)"
    using dequeue_ctx_correct [OF sleeping_ctxs_facts(1) [of es c]] sleeping_ctxs_facts(2-) [of es c] by (simp add: min_def)
qed

definition idle_ctxs :: "eval_state \<Rightarrow> eval_context \<Rightarrow> eval_state" where
  "idle_ctxs es c = (three_ctxs es c)\<lparr>es_queue := 0, es_queue_last := 0\<rparr>"

lemma idle_ctxs_ready: "ctx_ready (idle_ctxs es c) = ctx_ready (three_ctxs es c)"
  by (simp add: fun_eq_iff ctx_ready_def ctx_now_def idle_ctxs_def split: option.split)

theorem scheduling_fifo_witness:
  "\<forall>es c. \<exists>es' es''. enqueue_all enqueue_ctx (idle_ctxs es c) [3, 2] = Some es' \<and>
     dequeue_n dequeue_ctx 2 es' = Some ([3, 2], es'') \<and> queue_at es'' []"
proof (intro allI)
  fix es c
  have "queue_at (idle_ctxs es c) []" "list_all (ctx_known (idle_ctxs es c)) [3, 2]"
    by (simp_all add: queue_at_def idle_ctxs_def ctx_known_def three_ctxs_def)
  then show "\<exists>es' es''. enqueue_all enqueue_ctx (idle_ctxs es c) [3, 2] = Some es' \<and>
     dequeue_n dequeue_ctx 2 es' = Some ([3, 2], es'') \<and> queue_at es'' []"
    using scheduling_fifo [of "idle_ctxs es c" "[3, 2]"] three_ctxs_ready [of es c]
    by (simp add: idle_ctxs_ready numeral_2_eq_2 del: enqueue_all.simps dequeue_n.simps)
qed

theorem yield_ctx_correct_witness:
  "\<forall>es c. \<exists>es'. yield_ctx (three_ctxs es c) 50 = Some es' \<and> queue_at es' [1, 2, 3] \<and> es_running es' = 0 \<and> \<not> ctx_ready es' 3"
proof (intro allI)
  fix es c
  have "es_running (three_ctxs es c) = 3" "es_now (three_ctxs es c) = Some 5" "ctx_known (three_ctxs es c) 3"
    by (simp_all add: three_ctxs_def ctx_known_def)
  then show "\<exists>es'. yield_ctx (three_ctxs es c) 50 = Some es' \<and> queue_at es' [1, 2, 3] \<and> es_running es' = 0 \<and> \<not> ctx_ready es' 3"
    using yield_ctx_correct [OF three_ctxs_queue [of es c], of 50] by simp
qed

theorem elapsed_us_overflow_witness: "elapsed_us 4 0xFFFFFFFE = 5"
  using elapsed_us_overflow [of 4 "0xFFFFFFFE"] by simp

end
