(* ===== verification/Compression.thy ===== *)
theory Compression
  imports Prelude
begin

text \<open>
  The compressor of program text, \<open>src/compression.c\<close> and \<open>include/compression.h\<close>: a prefix code for
  characters and keywords, with string literals copied byte by byte, comments left out and white
  space reduced to single spaces.

  Text is a HOL string without its final zero; reading the character after the last one gives the
  zero. Compressed data are bytes. The counters of the compressor, bounded by the length of the text
  and by eight times this length, are natural numbers and integers; those of the decompressor, which depend
  on the data, are 32 bit words. \<open>malloc\<close> is the parameter \<open>has_mem\<close> that tells whether a block of a given size can be had.
  The size that \<open>compression_compress\<close> stores through its pointer argument is the length of the bytes it returns.
\<close>

subsection \<open>The code table\<close>

definition codes :: "(string \<times> string) list" where
  "codes =
    [(''9'', ''010111''), (''8'', ''101110''), (''7'', ''100001''),
     (''6'', ''100010''), (''5'', ''100100''), (''4'', ''011000''),
     (''3'', ''100101''), (''2'', ''011001''), (''1'', ''011101''),
     (''0'', ''011011''), ('','', ''110101''), ([CHR 0x60], ''110110''),
     ('' '', ''110000''), ([CHR 0x27], ''110111''), ([CHR 0x5C], ''101111''),
     ([CHR 0x22], ''111000''), (''#'', ''110010''), (''.'', ''111001''),
     (''>'', ''110011''), (''<'', ''111100''), (''='', ''111101''),
     (''/'', ''111010''), (''*'', ''110001''), (''-'', ''111011''),
     (''+'', ''110100''), (''nil'', ''101000''), (''cdr'', ''101001''),
     (''car'', ''101010''), (''cons'', ''100110''), (''let'', ''100111''),
     (''define'', ''011110''), (''progn'', ''011111''), (''quote'', ''010110''),
     (''list'', ''101100''), (''if'', ''011100''), (''lambda'', ''100011''),
     (''(('', ''101101''), (''))'', ''011010''), ('')'', ''101011''),
     (''('', ''100000''), (''z'', ''001111''), (''y'', ''000100''),
     (''x'', ''000000''), (''w'', ''000001''), (''v'', ''010011''),
     (''u'', ''000010''), (''t'', ''001000''), (''s'', ''001001''),
     (''r'', ''010000''), (''q'', ''010001''), (''p'', ''1111111''),
     (''o'', ''001100''), (''n'', ''001110''), (''m'', ''1111100''),
     (''l'', ''000101''), (''k'', ''000110''), (''j'', ''000011''),
     (''i'', ''001010''), (''h'', ''1111110''), (''g'', ''001101''),
     (''f'', ''1111101''), (''e'', ''000111''), (''d'', ''001011''),
     (''c'', ''010100''), (''b'', ''010010''), (''a'', ''010101'')]"

abbreviation (input) "QUOTE_CHAR \<equiv> CHR 0x22"
abbreviation (input) "BACKSLASH \<equiv> CHR 0x5C"
abbreviation (input) "NUL \<equiv> CHR 0x00"

definition code_key :: "nat \<Rightarrow> string" where
  "code_key ix = fst (codes ! ix)"

definition code_bits :: "nat \<Rightarrow> string" where
  "code_bits ix = snd (codes ! ix)"

text \<open>The character at an index; the final zero after the last one.\<close>

definition str_at :: "string \<Rightarrow> nat \<Rightarrow> char option" where
  "str_at s i = (if i < length s then Some (s ! i) else if i = length s then Some NUL else None)"

subsection \<open>Longest matches\<close>

text \<open>The loop over the table: the index and the length of the best match so far. \<open>None\<close> stands for \<open>-1\<close>.\<close>

primrec match_key_loop :: "(string \<times> string) list \<Rightarrow> string \<Rightarrow> nat \<Rightarrow> nat option \<Rightarrow> nat \<Rightarrow> nat option" where
  "match_key_loop [] str i best len = best"
| "match_key_loop (c # cs) str i best len =
     (let s_len = length (fst c) in
      if s_len \<le> length str \<and> take s_len str = fst c \<and> s_len > len
      then match_key_loop cs str (Suc i) (Some i) s_len
      else match_key_loop cs str (Suc i) best len)"

definition match_longest_key :: "string \<Rightarrow> nat option" where
  "match_longest_key str = match_key_loop codes str 0 None 0"

definition get_bit :: "8 word list \<Rightarrow> u32 \<Rightarrow> bool option" where
  "get_bit src pos = do {
     byte \<leftarrow> arr_get src (unat (pos div 8));
     Some (bit byte (unat (pos mod 8)))
   }"

text \<open>All bits of a code are compared, also after the first difference.\<close>

primrec match_bits :: "8 word list \<Rightarrow> u32 \<Rightarrow> string \<Rightarrow> bool option" where
  "match_bits src pos [] = Some True"
| "match_bits src pos (c # cs) = do {
     b \<leftarrow> get_bit src pos;
     r \<leftarrow> match_bits src (pos + 1) cs;
     Some (r \<and> c = (if b then CHR ''1'' else CHR ''0''))
   }"

primrec match_code_loop ::
  "(string \<times> string) list \<Rightarrow> 8 word list \<Rightarrow> u32 \<Rightarrow> u32 \<Rightarrow> nat \<Rightarrow> nat option \<Rightarrow> nat \<Rightarrow> nat option option" where
  "match_code_loop [] src start bits_left i best len = Some best"
| "match_code_loop (c # cs) src start bits_left i best len =
     (let s_len = length (snd c) in
      if s_len \<le> unat bits_left then do {
        m \<leftarrow> match_bits src start (snd c);
        if m \<and> s_len > len then match_code_loop cs src start bits_left (Suc i) (Some i) s_len
        else match_code_loop cs src start bits_left (Suc i) best len
      } else match_code_loop cs src start bits_left (Suc i) best len)"

definition match_longest_code :: "8 word list \<Rightarrow> u32 \<Rightarrow> u32 \<Rightarrow> nat option option" where
  "match_longest_code src start_bit total_bits = match_code_loop codes src start_bit (total_bits - start_bit) 0 None 0"

subsection \<open>Compression\<close>

definition is_blank :: "char \<Rightarrow> bool" where
  "is_blank c \<longleftrightarrow> c = CHR 0x0A \<or> c = CHR '' '' \<or> c = CHR 0x09 \<or> c = CHR 0x0D"

definition isspace :: "char \<Rightarrow> bool" where
  "isspace c \<longleftrightarrow> c = CHR '' '' \<or> c = CHR 0x09 \<or> c = CHR 0x0A \<or> c = CHR 0x0B \<or> c = CHR 0x0C \<or> c = CHR 0x0D"

text \<open>The inner loop over a comment ends at the line end or at the final zero.\<close>

partial_function (option) skip_comment :: "string \<Rightarrow> nat \<Rightarrow> nat option" where
  "skip_comment s i = Option.bind (str_at s i) (\<lambda>c.
     if c \<noteq> NUL \<and> c \<noteq> CHR 0x0A then skip_comment s (Suc i) else Some i)"

text \<open>The length in bits, or \<open>-1\<close> for text that has no code.\<close>

partial_function (option) compressed_length_loop :: "string \<Rightarrow> nat \<Rightarrow> int \<Rightarrow> bool \<Rightarrow> bool \<Rightarrow> int option" where
  "compressed_length_loop s i comp_len string_mode gobbling =
     (if i < length s then
        Option.bind (str_at s i) (\<lambda>c.
        if string_mode then
          Option.bind (str_at s (i - 1)) (\<lambda>prev.
            if c = QUOTE_CHAR \<and> prev \<noteq> BACKSLASH
            then compressed_length_loop s (Suc i) (comp_len + 8) False gobbling
            else compressed_length_loop s (Suc i) (comp_len + 8) True gobbling)
        else if c = CHR '';'' then
          Option.bind (skip_comment s i) (\<lambda>i. compressed_length_loop s i comp_len string_mode gobbling)
        else if is_blank c then compressed_length_loop s (Suc i) comp_len string_mode True
        else
          let i = (if gobbling then i - 1 else i) in
          Option.bind (str_at s i) (\<lambda>c.
          let string_mode = (c = QUOTE_CHAR) in
          case (if isspace c then match_longest_key '' '' else match_longest_key (drop i s)) of
            None \<Rightarrow> Some (- 1)
          | Some ix \<Rightarrow> compressed_length_loop s (i + length (code_key ix)) (comp_len + int (length (code_bits ix)))
              string_mode False))
      else Some comp_len)"

definition compressed_length :: "string \<Rightarrow> int option" where
  "compressed_length s = compressed_length_loop s 0 0 False False"

definition set_bit_of :: "8 word \<Rightarrow> nat \<Rightarrow> bool \<Rightarrow> 8 word" where
  "set_bit_of c bit_pos on =
     (let bval = push_bit bit_pos 1 in if on then c OR bval else c AND NOT bval)"

definition put_bit :: "8 word list \<Rightarrow> nat \<Rightarrow> bool \<Rightarrow> 8 word list option" where
  "put_bit dest pos on = do {
     byte \<leftarrow> arr_get dest (pos div 8);
     arr_set dest (pos div 8) (set_bit_of byte (pos mod 8) on)
   }"

primrec put_bits :: "8 word list \<Rightarrow> nat \<Rightarrow> bool list \<Rightarrow> (8 word list \<times> nat) option" where
  "put_bits dest pos [] = Some (dest, pos)"
| "put_bits dest pos (b # bs) = do {
     dest \<leftarrow> put_bit dest pos b;
     put_bits dest (Suc pos) bs
   }"

definition char_byte :: "char \<Rightarrow> 8 word" where
  "char_byte c = of_nat (of_char c)"

definition byte_char :: "8 word \<Rightarrow> char" where
  "byte_char w = char_of (unat w)"

definition emit_string_char_code :: "8 word list \<Rightarrow> char \<Rightarrow> nat \<Rightarrow> (8 word list \<times> nat) option" where
  "emit_string_char_code dest c pos = put_bits dest pos (map (bit (char_byte c)) [0..<8])"

definition emit_code :: "8 word list \<Rightarrow> string \<Rightarrow> nat \<Rightarrow> (8 word list \<times> nat) option" where
  "emit_code dest code pos = put_bits dest pos (map (\<lambda>c. c = CHR ''1'') code)"

text \<open>\<open>Some None\<close>: the text has no code and \<open>NULL\<close> is returned. The white space of \<open>s\<close> is overwritten by spaces.\<close>

partial_function (option) compress_loop ::
  "string \<Rightarrow> nat \<Rightarrow> bool \<Rightarrow> bool \<Rightarrow> 8 word list \<Rightarrow> nat \<Rightarrow> 8 word list option option" where
  "compress_loop s i string_mode gobbling dest pos =
     (if i < length s then
        Option.bind (str_at s i) (\<lambda>c.
        if string_mode then
          Option.bind (str_at s (i - 1)) (\<lambda>prev.
            if c = QUOTE_CHAR \<and> prev \<noteq> BACKSLASH then
              Option.bind (emit_string_char_code dest QUOTE_CHAR pos) (\<lambda>(dest, pos).
                compress_loop s (Suc i) False gobbling dest pos)
            else Option.bind (emit_string_char_code dest c pos) (\<lambda>(dest, pos).
                compress_loop s (Suc i) True gobbling dest pos))
        else if c = CHR '';'' then
          Option.bind (skip_comment s i) (\<lambda>i. compress_loop s i string_mode gobbling dest pos)
        else if is_blank c then compress_loop (s[i := CHR '' '']) (Suc i) string_mode True dest pos
        else
          let i = (if gobbling then i - 1 else i) in
          Option.bind (str_at s i) (\<lambda>c.
          let string_mode = (c = QUOTE_CHAR) in
          case match_longest_key (drop i s) of
            None \<Rightarrow> Some None
          | Some ix \<Rightarrow> Option.bind (emit_code dest (code_bits ix) pos) (\<lambda>(dest, pos).
              compress_loop s (i + length (code_key ix)) string_mode False dest pos)))
      else Some (Some dest))"

definition header_bytes :: "u32 \<Rightarrow> 8 word list" where
  "header_bytes v = [ucast v, ucast (drop_bit 8 v), ucast (drop_bit 16 v), ucast (drop_bit 24 v)]"

definition compression_compress :: "(u32 \<Rightarrow> bool) \<Rightarrow> string \<Rightarrow> 8 word list option option" where
  "compression_compress has_mem s = do {
     len \<leftarrow> compressed_length s;
     let c_size_bits = (word_of_int len :: u32);
     let c_size_bytes = 4 + c_size_bits div 8 + (if c_size_bits mod 8 > 0 then 1 else 0);
     if c_size_bits = 0 \<or> \<not> has_mem c_size_bytes then Some None
     else do {
       let dest = replicate (unat c_size_bytes) 0;
       if length dest < 4 then None
       else compress_loop s 0 False False (header_bytes c_size_bits @ drop 4 dest) 32
     }
   }"

subsection \<open>Decompression\<close>

record decomp_state =
  dc_compressed_bits :: u32
  dc_i :: u32
  dc_string_mode :: bool
  dc_last_string_char :: char
  dc_src :: "8 word list"

definition read_header :: "8 word list \<Rightarrow> u32 option" where
  "read_header src =
     (case src of a # b # c # d # _ \<Rightarrow> Some (ucast a OR push_bit 8 (ucast b) OR push_bit 16 (ucast c) OR push_bit 24 (ucast d))
      | _ \<Rightarrow> None)"

definition compression_init_state :: "8 word list \<Rightarrow> decomp_state option" where
  "compression_init_state src = do {
     bits \<leftarrow> read_header src;
     Some \<lparr>dc_compressed_bits = bits, dc_i = 32, dc_string_mode = False, dc_last_string_char = NUL, dc_src = src\<rparr>
   }"

primrec read_bits :: "8 word list \<Rightarrow> u32 \<Rightarrow> nat \<Rightarrow> nat \<Rightarrow> 8 word \<Rightarrow> (8 word \<times> u32) option" where
  "read_bits src pos i 0 c = Some (c, pos)"
| "read_bits src pos i (Suc n) c = do {
     b \<leftarrow> get_bit src pos;
     read_bits src (pos + 1) (Suc i) n (set_bit_of c i b)
   }"

definition read_character :: "8 word list \<Rightarrow> u32 \<Rightarrow> (char \<times> u32) option" where
  "read_character src pos = map_option (\<lambda>(w, p). (byte_char w, p)) (read_bits src pos 0 8 0)"

primrec emit_key :: "string \<Rightarrow> string \<Rightarrow> nat \<Rightarrow> (string \<times> nat) option" where
  "emit_key dest [] char_pos = Some (dest, char_pos)"
| "emit_key dest (k # ks) char_pos = do {
     dest \<leftarrow> arr_set dest char_pos k;
     emit_key dest ks (Suc char_pos)
   }"

text \<open>The number of characters written to the buffer, 0 at the end and \<open>-1\<close> for data that match no code.\<close>

definition compression_decompress_incremental ::
  "decomp_state \<Rightarrow> nat \<Rightarrow> (int \<times> string \<times> decomp_state) option" where
  "compression_decompress_incremental s dest_n =
     (let dest_buff = replicate dest_n NUL in
      if dc_i s < dc_compressed_bits s + 32 then
        if dc_string_mode s then do {
          (c, i) \<leftarrow> read_character (dc_src s) (dc_i s);
          let s = s\<lparr>dc_i := i, dc_string_mode := \<not> (c = QUOTE_CHAR \<and> dc_last_string_char s \<noteq> BACKSLASH),
                    dc_last_string_char := c\<rparr>;
          dest_buff \<leftarrow> arr_set dest_buff 0 c;
          Some (1, dest_buff, s)
        } else do {
          m \<leftarrow> match_longest_code (dc_src s) (dc_i s) (dc_compressed_bits s + 32);
          case m of
            None \<Rightarrow> Some (- 1, dest_buff, s)
          | Some ix \<Rightarrow> do {
              let s = (if code_key ix = [QUOTE_CHAR] then s\<lparr>dc_string_mode := True, dc_last_string_char := NUL\<rparr> else s);
              (dest_buff, char_pos) \<leftarrow> emit_key dest_buff (code_key ix) 0;
              Some (int char_pos, dest_buff, s\<lparr>dc_i := dc_i s + of_nat (length (code_bits ix))\<rparr>)
            }
        }
      else Some (0, dest_buff, s))"

text \<open>The characters are copied to \<open>dest\<close> without a look at its size.\<close>

partial_function (option) decompress_loop :: "decomp_state \<Rightarrow> string \<Rightarrow> nat \<Rightarrow> (bool \<times> string) option" where
  "decompress_loop s dest char_pos =
     Option.bind (compression_decompress_incremental s 32) (\<lambda>(num_chars, dest_buff, s).
       if num_chars = 0 then Some (True, dest)
       else if num_chars = - 1 then Some (False, dest)
       else Option.bind (emit_key dest (take (nat num_chars) dest_buff) char_pos) (\<lambda>(dest, char_pos).
         decompress_loop s dest char_pos))"

definition compression_decompress :: "nat \<Rightarrow> 8 word list \<Rightarrow> (bool \<times> string) option" where
  "compression_decompress dest_n src = do {
     s \<leftarrow> compression_init_state src;
     decompress_loop s (replicate dest_n NUL) 0
   }"

end
