(* ===== verification/Compression_Bits.thy ===== *)
theory Compression_Bits
  imports Compression
begin

text \<open>
  Byte arrays as sequences of bits, and the facts about the code table of \<open>src/compression.c\<close> the
  round trip rests on: no code is a prefix of another, so the decompressor's search finds the code that
  the compressor wrote.
\<close>

subsection \<open>Bits of a byte array\<close>

definition bits_of :: "8 word list \<Rightarrow> bool list" where
  "bits_of bytes = map (\<lambda>j. bit (bytes ! (j div 8)) (j mod 8)) [0..<8 * length bytes]"

lemma length_bits_of [simp]: "length (bits_of bytes) = 8 * length bytes"
  by (simp add: bits_of_def)

lemma nth_bits_of: "j < 8 * length bytes \<Longrightarrow> bits_of bytes ! j = bit (bytes ! (j div 8)) (j mod 8)"
  by (simp add: bits_of_def)

lemma bit_set_bit_of: "k < 8 \<Longrightarrow> j < 8 \<Longrightarrow> bit (set_bit_of w k b) j = (if j = k then b else bit w j)"
  by (auto simp: set_bit_of_def Let_def bit_or_iff bit_and_iff bit_not_iff bit_exp_iff)

lemma put_bit_bits:
  assumes "pos < 8 * length dest"
  shows "\<exists>d. put_bit dest pos b = Some d \<and> length d = length dest \<and> bits_of d = (bits_of dest)[pos := b]"
proof -
  let ?d = "dest[pos div 8 := set_bit_of (dest ! (pos div 8)) (pos mod 8) b]"
  have lt: "pos div 8 < length dest" using assms by simp
  then have "put_bit dest pos b = Some ?d" by (simp add: put_bit_def)
  moreover have "bits_of ?d = (bits_of dest)[pos := b]"
  proof (rule nth_equalityI)
    fix j
    assume "j < length (bits_of ?d)"
    then have j: "j < 8 * length dest" by simp
    show "bits_of ?d ! j = (bits_of dest)[pos := b] ! j"
    proof (cases "j div 8 = pos div 8")
      case True
      then have "j = pos \<longleftrightarrow> j mod 8 = pos mod 8" by (metis mult_div_mod_eq)
      with True j lt show ?thesis by (auto simp: nth_bits_of nth_list_update bit_set_bit_of)
    next
      case False
      with j show ?thesis by (auto simp: nth_bits_of nth_list_update)
    qed
  qed simp
  ultimately show ?thesis by simp
qed

lemma put_bits_bits:
  "pos + length bs \<le> 8 * length dest \<Longrightarrow>
     \<exists>d. put_bits dest pos bs = Some (d, pos + length bs) \<and> length d = length dest \<and>
       bits_of d = take pos (bits_of dest) @ bs @ drop (pos + length bs) (bits_of dest)"
proof (induction bs arbitrary: dest pos)
  case (Cons b bs)
  obtain d where d: "put_bit dest pos b = Some d" "length d = length dest" "bits_of d = (bits_of dest)[pos := b]"
    using put_bit_bits [of pos dest b] Cons.prems by auto
  obtain d' where d': "put_bits d (Suc pos) bs = Some (d', Suc pos + length bs)" "length d' = length d"
      "bits_of d' = take (Suc pos) (bits_of d) @ bs @ drop (Suc pos + length bs) (bits_of d)"
    using Cons.IH [of "Suc pos" d] Cons.prems d(2) by auto
  have "take (Suc pos) ((bits_of dest)[pos := b]) = take pos (bits_of dest) @ [b]"
    using Cons.prems by (simp add: take_Suc_conv_app_nth)
  with d d' show ?case by simp
qed simp

lemma get_bit_bits:
  assumes "unat pos < 8 * length src"
  shows "get_bit src pos = Some (bits_of src ! unat pos)"
  using assms by (simp add: get_bit_def nth_bits_of unat_div unat_mod)

definition code_bools :: "string \<Rightarrow> bool list" where
  "code_bools code = map (\<lambda>c. c = CHR ''1'') code"

definition binary :: "string \<Rightarrow> bool" where
  "binary code \<longleftrightarrow> set code \<subseteq> {CHR ''0'', CHR ''1''}"

lemma length_code_bools [simp]: "length (code_bools c) = length c"
  by (simp add: code_bools_def)

lemma match_bits_bits:
  assumes "binary code" and "p + length code \<le> 8 * length src" and "p + length code < 2 ^ 32"
  shows "match_bits src (of_nat p) code = Some (take (length code) (drop p (bits_of src)) = code_bools code)"
  using assms
proof (induction code arbitrary: p)
  case (Cons c code)
  have p: "unat (of_nat p :: u32) = p" using Cons.prems by (intro unat_u32_of_nat) simp
  have suc: "(of_nat p + 1 :: u32) = of_nat (Suc p)" by simp
  have "take (length (c # code)) (drop p (bits_of src)) = bits_of src ! p # take (length code) (drop (Suc p) (bits_of src))"
    using Cons.prems by (simp add: Cons_nth_drop_Suc [symmetric])
  moreover have "binary code" "c = CHR ''0'' \<or> c = CHR ''1''" using Cons.prems(1) by (auto simp: binary_def)
  ultimately show ?case
    using Cons.IH [of "Suc p"] Cons.prems get_bit_bits [of "of_nat p" src] p
    unfolding match_bits.simps suc by (auto simp: code_bools_def)
qed (simp add: code_bools_def)

subsection \<open>Facts about the code table\<close>

definition code_clash :: "string \<Rightarrow> string \<Rightarrow> bool" where
  "code_clash c d \<longleftrightarrow> take (length d) c = d \<or> take (length c) d = c"

primrec clash_free :: "string list \<Rightarrow> bool" where
  "clash_free [] = True"
| "clash_free (c # cs) = (list_all (\<lambda>d. \<not> code_clash c d) cs \<and> clash_free cs)"

definition entry_ok :: "string \<times> string \<Rightarrow> bool" where
  "entry_ok = (\<lambda>(k, c). k \<noteq> [] \<and> length k \<le> 6 \<and> c \<noteq> [] \<and> length c \<le> 8 * length k \<and> list_all (\<lambda>x. x = CHR ''0'' \<or> x = CHR ''1'') c \<and>
     (hd k = QUOTE_CHAR \<longrightarrow> k = [QUOTE_CHAR]) \<and>
     list_all (\<lambda>x. x \<noteq> CHR '';'' \<and> x \<noteq> NUL \<and> (is_blank x \<longrightarrow> k = '' '') \<and> (x = QUOTE_CHAR \<longrightarrow> k = [QUOTE_CHAR])) k)"

lemma codes_clash_free: "clash_free (map snd codes)" by code_simp

lemma codes_ok: "list_all entry_ok codes" by code_simp

lemma length_codes: "length codes = 66" by code_simp

lemma code_ok:
  assumes "ix < 66"
  shows "entry_ok (code_key ix, code_bits ix)"
  using codes_ok assms length_codes by (simp add: code_key_def code_bits_def list_all_length)

lemma code_entry:
  assumes "ix < 66"
  shows "code_key ix \<noteq> []" "length (code_key ix) \<le> 6" "code_bits ix \<noteq> []" "length (code_bits ix) \<le> 8 * length (code_key ix)"
    "binary (code_bits ix)" "hd (code_key ix) = QUOTE_CHAR \<Longrightarrow> code_key ix = [QUOTE_CHAR]"
  using code_ok [OF assms] unfolding entry_ok_def binary_def list_all_iff prod.case by blast+

lemma clash_free_nth: "clash_free cs \<Longrightarrow> i < length cs \<Longrightarrow> j < length cs \<Longrightarrow> i \<noteq> j \<Longrightarrow> \<not> code_clash (cs ! i) (cs ! j)"
proof (induction cs arbitrary: i j)
  case (Cons c cs)
  have sym: "code_clash a b \<Longrightarrow> code_clash b a" for a b by (auto simp: code_clash_def)
  show ?case
  proof (cases i; cases j)
    fix k l assume "i = Suc k" "j = Suc l"
    with Cons show ?thesis by simp
  qed (use Cons.prems sym in \<open>auto simp: list_all_length\<close>)
qed simp

text \<open>Codes agree with a bit sequence in at most one place of the table.\<close>

lemma code_unique:
  assumes "i < 66" "j < 66" and "take (length (code_bits i)) bs = code_bools (code_bits i)"
    and "take (length (code_bits j)) bs = code_bools (code_bits j)"
  shows "i = j"
proof (rule ccontr)
  assume "i \<noteq> j"
  then have nc: "\<not> code_clash (code_bits i) (code_bits j)"
    using clash_free_nth [OF codes_clash_free, of i j] assms length_codes by (simp add: code_bits_def)
  have inj: "binary c \<Longrightarrow> binary d \<Longrightarrow> code_bools c = code_bools d \<Longrightarrow> c = d" for c d
  proof (induction c arbitrary: d)
    case (Cons x c)
    then show ?case by (cases d) (auto simp: code_bools_def binary_def)
  qed (simp add: code_bools_def)
  have bin: "binary (take n (code_bits k))" if "k < 66" for n k
    using code_entry(5) [OF that] set_take_subset [of n "code_bits k"] by (auto simp: binary_def)
  have cut: "take (length (code_bits k)) (code_bits l) = code_bits k"
    if "length (code_bits k) \<le> length (code_bits l)" "k < 66" "l < 66"
      "take (length (code_bits k)) bs = code_bools (code_bits k)" "take (length (code_bits l)) bs = code_bools (code_bits l)" for k l
  proof (rule inj [OF bin [OF that(3)] code_entry(5) [OF that(2)]])
    have "code_bools (take (length (code_bits k)) (code_bits l)) = take (length (code_bits k)) (take (length (code_bits l)) bs)"
      using that(5) by (simp add: code_bools_def take_map)
    also have "\<dots> = code_bools (code_bits k)" using that(1,4) by (simp add: min_def)
    finally show "code_bools (take (length (code_bits k)) (code_bits l)) = code_bools (code_bits k)" .
  qed
  show False
    using nc cut [of i j] cut [of j i] assms by (cases "length (code_bits i) \<le> length (code_bits j)") (auto simp: code_clash_def)
qed

end
