(* ===== verification/Compression_Lex.thy ===== *)
theory Compression_Lex
  imports Compression_Bits
begin

text \<open>
  What the two loops over the text in \<open>src/compression.c\<close> have in common: \<open>compressed_length\<close> and
  \<open>compression_compress\<close> both run through the text as the function \<open>lex\<close> does, which yields the keys and
  raw characters that are written. \<open>normalise\<close> says, without reference to codes, which text this is.
\<close>

subsection \<open>Longest keys\<close>

lemma match_key_loop_sound:
  "match_key_loop cs str i best len = Some ix \<Longrightarrow>
     best = Some ix \<or> (i \<le> ix \<and> ix < i + length cs \<and> (\<exists>rest. str = fst (cs ! (ix - i)) @ rest))"
proof (induction cs arbitrary: i best len)
  case (Cons c cs)
  let ?hit = "length (fst c) \<le> length str \<and> take (length (fst c)) str = fst c \<and> length (fst c) > len"
  show ?case
  proof (cases ?hit)
    case True
    then have "match_key_loop cs str (Suc i) (Some i) (length (fst c)) = Some ix" using Cons.prems by (simp add: Let_def)
    from Cons.IH [OF this] True show ?thesis
      by (auto simp: nth_Cons' intro: append_take_drop_id [symmetric]) (metis append_take_drop_id)
  next
    case False
    then have "match_key_loop cs str (Suc i) best len = Some ix" using Cons.prems by (simp add: Let_def split: if_splits)
    from Cons.IH [OF this] show ?thesis by (auto simp: nth_Cons')
  qed
qed simp

lemma match_longest_key_sound:
  assumes "match_longest_key str = Some ix"
  shows "ix < 66" "\<exists>rest. str = code_key ix @ rest"
  using match_key_loop_sound [of codes str 0 None 0 ix] assms length_codes
  by (auto simp: match_longest_key_def code_key_def)

lemma match_longest_key_blank: "match_longest_key (CHR '' '' # t) = Some 12"
  by (simp add: match_longest_key_def codes_def)

lemma key_12: "code_key 12 = '' ''" by code_simp

subsection \<open>Items\<close>

datatype item = Key nat | Raw char

fun item_bits :: "item \<Rightarrow> bool list" where
  "item_bits (Key ix) = code_bools (code_bits ix)"
| "item_bits (Raw c) = map (bit (char_byte c)) [0..<8]"

fun item_text :: "item \<Rightarrow> string" where
  "item_text (Key ix) = code_key ix"
| "item_text (Raw c) = [c]"

definition items_bits :: "item list \<Rightarrow> bool list" where
  "items_bits its = concat (map item_bits its)"

definition items_text :: "item list \<Rightarrow> string" where
  "items_text its = concat (map item_text its)"

lemma items_simps [simp]:
  "items_bits [] = []" "items_bits (it # its) = item_bits it @ items_bits its"
  "items_text [] = []" "items_text (it # its) = item_text it @ items_text its"
  by (simp_all add: items_bits_def items_text_def)

text \<open>
  The mode is \<open>None\<close> in code and \<open>Some b\<close> in a string literal, where \<open>b\<close> tells whether the last
  character was a backslash; \<open>gob\<close> tells whether white space is pending.
\<close>

function lex :: "bool option \<Rightarrow> bool \<Rightarrow> string \<Rightarrow> item list option" where
  "lex m gob [] = Some []"
| "lex (Some b) gob (c # cs) =
     map_option (Cons (Raw c)) (lex (if c = QUOTE_CHAR \<and> \<not> b then None else Some (c = BACKSLASH)) gob cs)"
| "lex None gob (c # cs) =
     (if c = CHR '';'' then lex None gob (dropWhile (\<lambda>x. x \<noteq> CHR 0x0A) cs)
      else if is_blank c then lex None True cs
      else if gob then map_option (Cons (Key 12)) (lex None False (c # cs))
      else case match_longest_key (c # cs) of None \<Rightarrow> None
        | Some ix \<Rightarrow> map_option (Cons (Key ix))
            (lex (if c = QUOTE_CHAR then Some False else None) False (drop (length (code_key ix)) (c # cs))))"
  by pat_completeness auto

termination
proof (relation "measures [\<lambda>(m, gob, s). length s, \<lambda>(m, gob, s). if gob then 1 else 0]")
  fix gob c cs ix
  assume "match_longest_key (c # cs) = Some ix"
  then have "code_key ix \<noteq> []" using match_longest_key_sound(1) code_entry(1) by blast
  then show "((if c = QUOTE_CHAR then Some False else None, False, drop (length (code_key ix)) (c # cs)), None, gob, c # cs)
      \<in> measures [\<lambda>(m, gob, s). length s, \<lambda>(m, gob, s). if gob then 1 else 0]" by (cases "code_key ix") (auto simp: less_Suc_eq_le)
qed (auto simp: le_imp_less_Suc length_dropWhile_le)

subsection \<open>Normal text\<close>

text \<open>
  Outside string literals comments go and a run of white space becomes one space, which is dropped at
  the end of the text; string literals stay as they are.
\<close>

function normal :: "bool option \<Rightarrow> bool \<Rightarrow> string \<Rightarrow> string" where
  "normal m gob [] = []"
| "normal (Some b) gob (c # cs) = c # normal (if c = QUOTE_CHAR \<and> \<not> b then None else Some (c = BACKSLASH)) gob cs"
| "normal None gob (c # cs) =
     (if c = CHR '';'' then normal None gob (dropWhile (\<lambda>x. x \<noteq> CHR 0x0A) cs)
      else if is_blank c then normal None True cs
      else (if gob then '' '' else []) @ c # normal (if c = QUOTE_CHAR then Some False else None) False cs)"
  by pat_completeness auto

termination
  by (relation "measure (\<lambda>(m, gob, s). length s)") (auto simp: le_imp_less_Suc length_dropWhile_le)

definition normalise :: "string \<Rightarrow> string" where
  "normalise s = normal None False s"

lemma normal_plain:
  "list_all (\<lambda>x. x \<noteq> CHR '';'' \<and> \<not> is_blank x \<and> x \<noteq> QUOTE_CHAR) k \<Longrightarrow> normal None False (k @ t) = k @ normal None False t"
  by (induction k) auto

lemma match_key_cases:
  assumes "match_longest_key (c # cs) = Some ix" and "\<not> is_blank c"
  shows "ix < 66" "c # cs = code_key ix @ drop (length (code_key ix)) (c # cs)"
    "c = QUOTE_CHAR \<longleftrightarrow> code_key ix = [QUOTE_CHAR]"
    "code_key ix \<noteq> [QUOTE_CHAR] \<Longrightarrow> list_all (\<lambda>x. x \<noteq> CHR '';'' \<and> \<not> is_blank x \<and> x \<noteq> QUOTE_CHAR) (code_key ix)"
proof -
  show ix: "ix < 66" using match_longest_key_sound(1) [OF assms(1)] .
  obtain rest where rest: "c # cs = code_key ix @ rest" using match_longest_key_sound(2) [OF assms(1)] by blast
  then show "c # cs = code_key ix @ drop (length (code_key ix)) (c # cs)" by simp
  have hd: "hd (code_key ix) = c" using rest code_entry(1) [OF ix] by (cases "code_key ix") auto
  then show "c = QUOTE_CHAR \<longleftrightarrow> code_key ix = [QUOTE_CHAR]" using code_entry(6) [OF ix] by auto
  have "code_key ix \<noteq> '' ''" using hd assms(2) by (auto simp: is_blank_def)
  then show "list_all (\<lambda>x. x \<noteq> CHR '';'' \<and> \<not> is_blank x \<and> x \<noteq> QUOTE_CHAR) (code_key ix)" if "code_key ix \<noteq> [QUOTE_CHAR]"
    using code_ok [OF ix] that unfolding entry_ok_def prod.case list_all_iff by blast
qed

lemma lex_text: "lex m gob s = Some its \<Longrightarrow> items_text its = normal m gob s"
proof (induction m gob s arbitrary: its rule: lex.induct)
  case (3 gob c cs)
  show ?case
  proof (cases "c = CHR '';'' \<or> is_blank c \<or> gob")
    case True
    with 3 show ?thesis by (auto simp: key_12 split: if_splits)
  next
    case False
    with 3(5) obtain ix its' where ix: "match_longest_key (c # cs) = Some ix"
        "lex (if c = QUOTE_CHAR then Some False else None) False (drop (length (code_key ix)) (c # cs)) = Some its'" "its = Key ix # its'"
      by (auto split: option.splits)
    note m = match_key_cases [OF ix(1)]
    have IH: "items_text its' = normal (if c = QUOTE_CHAR then Some False else None) False (drop (length (code_key ix)) (c # cs))"
      using 3(4) False ix(1,2) by blast
    show ?thesis
    proof (cases "c = QUOTE_CHAR")
      case True
      then show ?thesis using False m(3) IH ix(3) by simp
    next
      case nq: False
      then have "normal None False (c # cs) = code_key ix @ normal None False (drop (length (code_key ix)) (c # cs))"
        using normal_plain [OF m(4)] m(2,3) False by metis
      with nq IH ix(3) False show ?thesis by simp
    qed
  qed
qed auto

end
