(* ===== verification/Compression_Scan.thy ===== *)
theory Compression_Scan
  imports Compression_Lex
begin

text \<open>
  The loops of \<open>compressed_length\<close> and \<open>compression_compress\<close> in \<open>src/compression.c\<close> follow \<open>lex\<close>: the
  first computes the number of bits of the items, the second writes them. Both loops are shown to end and
  to stay inside the text and the output.
\<close>

subsection \<open>Where the loops stand\<close>

text \<open>
  Index \<open>i\<close> stands in the text with mode \<open>m\<close>; when white space is pending the character before \<open>i\<close>
  satisfies \<open>B\<close>, which is what the step back of the loops reads, or a comment has just been skipped.
\<close>

definition stands :: "(char \<Rightarrow> bool) \<Rightarrow> bool option \<Rightarrow> bool \<Rightarrow> string \<Rightarrow> nat \<Rightarrow> bool" where
  "stands B m gob s i \<longleftrightarrow> i \<le> length s \<and> NUL \<notin> set s \<and>
     (case m of Some b \<Rightarrow> \<not> gob \<and> 0 < i \<and> b = (s ! (i - 1) = BACKSLASH)
      | None \<Rightarrow> gob \<longrightarrow> 0 < i \<and> (B (s ! (i - 1)) \<or> i = length s \<or> is_blank (s ! i)))"

lemma stands_start: "NUL \<notin> set s \<Longrightarrow> stands B None False s 0"
  by (simp add: stands_def)

lemma drop_ConsD: "drop i s = c # cs \<Longrightarrow> i < length s \<and> s ! i = c \<and> drop (Suc i) s = cs"
  by (metis Cons_nth_drop_Suc drop_eq_Nil list.inject not_le list.distinct(1))

lemma str_at_in: "i < length s \<Longrightarrow> str_at s i = Some (s ! i)"
  by (simp add: str_at_def)

lemma stands_string_step:
  "stands B (Some b) gob s i \<Longrightarrow> drop i s = c # cs \<Longrightarrow>
     stands B (if c = QUOTE_CHAR \<and> \<not> b then None else Some (c = BACKSLASH)) gob s (Suc i)"
  using drop_ConsD [of i s c cs] by (auto simp: stands_def)

lemma skip_comment_drop:
  assumes "NUL \<notin> set s" "i \<le> length s"
  shows "\<exists>j. skip_comment s i = Some j \<and> i \<le> j \<and> j \<le> length s \<and> drop j s = dropWhile (\<lambda>x. x \<noteq> CHR 0x0A) (drop i s) \<and>
    (j = length s \<or> s ! j = CHR 0x0A)"
  using assms(2)
proof (induction "length s - i" arbitrary: i)
  case 0
  then show ?case by (subst skip_comment.simps) (simp add: str_at_def)
next
  case (Suc n)
  have i: "i < length s" and arith: "n = length s - Suc i" "Suc i \<le> length s" using Suc.hyps(2) by arith+
  have "s ! i \<noteq> NUL" using assms(1) nth_mem [OF i] by metis
  moreover have "drop i s = s ! i # drop (Suc i) s" using i by (simp add: Cons_nth_drop_Suc)
  moreover obtain j where "skip_comment s (Suc i) = Some j" "Suc i \<le> j" "j \<le> length s"
      "drop j s = dropWhile (\<lambda>x. x \<noteq> CHR 0x0A) (drop (Suc i) s)" "j = length s \<or> s ! j = CHR 0x0A"
    using Suc.hyps(1) [of "Suc i"] i arith by blast
  ultimately show ?case using i by (subst skip_comment.simps) (auto simp: str_at_def)
qed

lemma comment_step:
  assumes "stands B None gob s i" and "drop i s = CHR '';'' # cs"
  obtains j where "skip_comment s i = Some j" "drop j s = dropWhile (\<lambda>x. x \<noteq> CHR 0x0A) cs" "stands B None gob s j"
proof -
  obtain j where j: "skip_comment s i = Some j" "i \<le> j" "j \<le> length s" "drop j s = dropWhile (\<lambda>x. x \<noteq> CHR 0x0A) (drop i s)"
      "j = length s \<or> s ! j = CHR 0x0A"
    using skip_comment_drop [of s i] assms(1) by (auto simp: stands_def)
  have "stands B None gob s j" using j assms(1) by (auto simp: stands_def is_blank_def)
  with j assms(2) that show ?thesis by simp
qed

lemma key_step:
  assumes "stands B None gob s i" and "drop i s = c # cs" and "\<not> is_blank c" and "match_longest_key (c # cs) = Some ix"
  shows "stands B (if c = QUOTE_CHAR then Some False else None) False s (i + length (code_key ix))"
    "drop (i + length (code_key ix)) s = drop (length (code_key ix)) (c # cs)"
proof -
  note k = match_key_cases [OF assms(4,3)]
  have "i + length (code_key ix) \<le> length s"
    using arg_cong [OF k(2), of length] assms(1) arg_cong [OF assms(2), of length]
    by (simp add: stands_def)
  then show "stands B (if c = QUOTE_CHAR then Some False else None) False s (i + length (code_key ix))"
    using assms(1) k(3) drop_ConsD [OF assms(2)] by (auto simp: stands_def)
  show "drop (i + length (code_key ix)) s = drop (length (code_key ix)) (c # cs)"
    using assms(2) by (metis add.commute drop_drop)
qed

subsection \<open>The length\<close>

lemma match_blank_alone: "match_longest_key '' '' = Some 12"
  using match_longest_key_blank [of "[]"] by simp

lemma is_blank_isspace: "is_blank c \<Longrightarrow> isspace c"
  by (auto simp: is_blank_def isspace_def)

lemma isspace_cases: "isspace c \<Longrightarrow> is_blank c \<or> c = CHR 0x0B \<or> c = CHR 0x0C"
  by (auto simp: is_blank_def isspace_def)

lemma no_key_tabs: "match_longest_key (CHR 0x0B # t) = None" "match_longest_key (CHR 0x0C # t) = None"
  by (simp_all add: match_longest_key_def codes_def)

text \<open>The cases of the loop over code, with the step back over pending white space taken.\<close>

lemma length_loop_steps:
  assumes "drop i s = c # cs"
  shows "c = CHR '';'' \<Longrightarrow> skip_comment s i = Some j \<Longrightarrow>
      compressed_length_loop s i len False gob = compressed_length_loop s j len False gob"
    "is_blank c \<Longrightarrow> compressed_length_loop s i len False gob = compressed_length_loop s (Suc i) len False True"
    "c \<noteq> CHR '';'' \<Longrightarrow> \<not> is_blank c \<Longrightarrow> 0 < i \<Longrightarrow> is_blank (s ! (i - 1)) \<Longrightarrow>
      compressed_length_loop s i len False True = compressed_length_loop s i (len + int (length (code_bits 12))) False False"
    "c \<noteq> CHR '';'' \<Longrightarrow> \<not> is_blank c \<Longrightarrow> match_longest_key (c # cs) = Some ix \<Longrightarrow>
      compressed_length_loop s i len False False =
      compressed_length_loop s (i + length (code_key ix)) (len + int (length (code_bits ix))) (c = QUOTE_CHAR) False"
    "c \<noteq> CHR '';'' \<Longrightarrow> \<not> isspace c \<Longrightarrow> match_longest_key (c # cs) = None \<Longrightarrow> compressed_length_loop s i len False False = Some (- 1)"
proof -
  note d = drop_ConsD [OF assms]
  note loop = compressed_length_loop.simps [of s i]
  show "compressed_length_loop s i len False gob = compressed_length_loop s j len False gob"
    if "c = CHR '';''" "skip_comment s i = Some j"
    using d that by (subst loop) (simp add: str_at_in)
  show "compressed_length_loop s i len False gob = compressed_length_loop s (Suc i) len False True" if "is_blank c"
    using d that by (subst loop) (auto simp: str_at_in is_blank_def)
  show "compressed_length_loop s i len False True = compressed_length_loop s i (len + int (length (code_bits 12))) False False"
    if "c \<noteq> CHR '';''" "\<not> is_blank c" "0 < i" "is_blank (s ! (i - 1))"
    using d that is_blank_isspace [OF that(4)]
    by (subst loop) (auto simp: str_at_in Let_def match_blank_alone key_12 is_blank_def)
  show "compressed_length_loop s i len False False =
      compressed_length_loop s (i + length (code_key ix)) (len + int (length (code_bits ix))) (c = QUOTE_CHAR) False"
    if "c \<noteq> CHR '';''" "\<not> is_blank c" "match_longest_key (c # cs) = Some ix"
  proof -
    have "\<not> isspace c" using that(2,3) isspace_cases [of c] no_key_tabs by auto
    with d that assms show ?thesis by (subst loop) (simp add: str_at_in Let_def)
  qed
  show "compressed_length_loop s i len False False = Some (- 1)"
    if "c \<noteq> CHR '';''" "\<not> isspace c" "match_longest_key (c # cs) = None"
    using d that assms is_blank_isspace [of c] by (subst loop) (auto simp: str_at_in Let_def)
qed

lemma length_loop_string:
  assumes "drop i s = c # cs" "stands B (Some b) gob s i"
  shows "compressed_length_loop s i len True gob = compressed_length_loop s (Suc i) (len + 8) (\<not> (c = QUOTE_CHAR \<and> \<not> b)) gob"
  using assms drop_ConsD [OF assms(1)] by (subst compressed_length_loop.simps) (auto simp: str_at_in stands_def)

lemma stands_blank:
  "stands B None gob s i \<Longrightarrow> drop i s = c # cs \<Longrightarrow> B c \<Longrightarrow> stands B None True s (Suc i)"
  using drop_ConsD [of i s c cs] by (auto simp: stands_def)

lemma stands_pending:
  "stands B None True s i \<Longrightarrow> drop i s = c # cs \<Longrightarrow> \<not> is_blank c \<Longrightarrow> 0 < i \<and> B (s ! (i - 1)) \<and> stands B None False s i"
  using drop_ConsD [of i s c cs] by (auto simp: stands_def)

lemma lex_length:
  "stands is_blank m gob s i \<Longrightarrow> lex m gob (drop i s) = Some its \<Longrightarrow>
     compressed_length_loop s i len (m \<noteq> None) gob = Some (len + int (length (items_bits its)))"
proof (induction m gob "drop i s" arbitrary: i len its rule: lex.induct)
  case (1 m gob)
  then show ?case by (subst compressed_length_loop.simps) simp
next
  case (2 b gob c cs)
  note eq = 2(2) [symmetric]
  let ?m = "if c = QUOTE_CHAR \<and> \<not> b then None else Some (c = BACKSLASH)"
  obtain its' where its: "its = Raw c # its'" "lex ?m gob cs = Some its'" using 2(4) eq by auto
  have "compressed_length_loop s (Suc i) (len + 8) (?m \<noteq> None) gob = Some (len + 8 + int (length (items_bits its')))"
    using 2(1) [of "Suc i" its' "len + 8"] stands_string_step [OF 2(3) eq] drop_ConsD [OF eq] its(2) by simp
  then show ?case using length_loop_string [OF eq 2(3)] its(1) by (cases "c = QUOTE_CHAR \<and> \<not> b") auto
next
  case (3 gob c cs)
  note eq = 3(5) [symmetric] and st = 3(6)
  note step = length_loop_steps [OF eq]
  have lex: "lex None gob (c # cs) = Some its" using 3(7) eq by simp
  consider "c = CHR '';''" | "c \<noteq> CHR '';''" "is_blank c" | "c \<noteq> CHR '';''" "\<not> is_blank c" gob | "c \<noteq> CHR '';''" "\<not> is_blank c" "\<not> gob"
    by blast
  then show ?case
  proof cases
    case 1
    obtain j where "skip_comment s i = Some j" "drop j s = dropWhile (\<lambda>x. x \<noteq> CHR 0x0A) cs" "stands is_blank None gob s j"
      using comment_step [OF st] eq 1 by auto
    then show ?thesis using 3(1) [OF 1, of j its len] step(1) [OF 1] lex 1 by simp
  next
    case 2
    then show ?thesis using 3(2) [OF 2, of "Suc i" its len] step(2) stands_blank [OF st eq] lex drop_ConsD [OF eq] by simp
  next
    case c: 3
    obtain its' where its: "its = Key 12 # its'" "lex None False (c # cs) = Some its'" using lex c by auto
    then show ?thesis
      using 3(3) [OF c, of i its' "len + int (length (code_bits 12))"] step(3) c stands_pending [of is_blank s i c cs] st eq by simp
  next
    case c: 4
    obtain ix its' where its: "match_longest_key (c # cs) = Some ix" "its = Key ix # its'"
        "lex (if c = QUOTE_CHAR then Some False else None) False (drop (length (code_key ix)) (c # cs)) = Some its'"
      using lex c by (auto split: option.splits)
    note key = key_step [OF st eq c(2) its(1)]
    show ?thesis
      using 3(4) [OF c its(1), of "i + length (code_key ix)" its' "len + int (length (code_bits ix))"] step(4) [OF c(1,2) its(1)] key its c
      by (cases "c = QUOTE_CHAR") auto
  qed
qed

subsection \<open>The output\<close>

definition written :: "nat \<Rightarrow> bool list \<Rightarrow> 8 word list \<Rightarrow> 8 word list \<Rightarrow> bool" where
  "written pos bs dest d \<longleftrightarrow> length d = length dest \<and>
     bits_of d = take pos (bits_of dest) @ bs @ drop (pos + length bs) (bits_of dest)"

lemma written_none: "written pos [] dest dest"
  by (simp add: written_def)

lemma written_append:
  "written pos bs dest d \<Longrightarrow> written (pos + length bs) bs' d d' \<Longrightarrow> pos + length bs \<le> 8 * length dest \<Longrightarrow>
     written pos (bs @ bs') dest d'"
  by (auto simp: written_def algebra_simps)

lemma put_bits_written:
  "pos + length bs \<le> 8 * length dest \<Longrightarrow> \<exists>d. put_bits dest pos bs = Some (d, pos + length bs) \<and> written pos bs dest d"
  using put_bits_bits [of pos bs dest] by (auto simp: written_def)

lemma put_item:
  assumes "pos + length (item_bits it) \<le> 8 * length dest"
  obtains d where "(case it of Key ix \<Rightarrow> emit_code dest (code_bits ix) pos | Raw c \<Rightarrow> emit_string_char_code dest c pos)
      = Some (d, pos + length (item_bits it))" "written pos (item_bits it) dest d" "length d = length dest"
  using put_bits_written [OF assms] that
  by (cases it) (auto simp: emit_code_def emit_string_char_code_def code_bools_def written_def)

lemma compress_loop_steps:
  assumes "drop i s = c # cs"
  shows "c = CHR '';'' \<Longrightarrow> skip_comment s i = Some j \<Longrightarrow>
      compress_loop s i False gob dest pos = compress_loop s j False gob dest pos"
    "is_blank c \<Longrightarrow> compress_loop s i False gob dest pos = compress_loop (s[i := CHR '' '']) (Suc i) False True dest pos"
    "c \<noteq> CHR '';'' \<Longrightarrow> \<not> is_blank c \<Longrightarrow> 0 < i \<Longrightarrow> s ! (i - 1) = CHR '' '' \<Longrightarrow> emit_code dest (code_bits 12) pos = Some (d, pos') \<Longrightarrow>
      compress_loop s i False True dest pos = compress_loop s i False False d pos'"
    "c \<noteq> CHR '';'' \<Longrightarrow> \<not> is_blank c \<Longrightarrow> match_longest_key (c # cs) = Some ix \<Longrightarrow> emit_code dest (code_bits ix) pos = Some (d, pos') \<Longrightarrow>
      compress_loop s i False False dest pos = compress_loop s (i + length (code_key ix)) (c = QUOTE_CHAR) False d pos'"
    "c \<noteq> CHR '';'' \<Longrightarrow> \<not> is_blank c \<Longrightarrow> match_longest_key (c # cs) = None \<Longrightarrow> compress_loop s i False False dest pos = Some None"
proof -
  note d = drop_ConsD [OF assms]
  note loop = compress_loop.simps [of s i]
  show "compress_loop s i False gob dest pos = compress_loop s j False gob dest pos"
    if "c = CHR '';''" "skip_comment s i = Some j"
    using d that by (subst loop) (simp add: str_at_in)
  show "compress_loop s i False gob dest pos = compress_loop (s[i := CHR '' '']) (Suc i) False True dest pos" if "is_blank c"
    using d that by (subst loop) (auto simp: str_at_in is_blank_def)
  show "compress_loop s i False True dest pos = compress_loop s i False False d pos'"
    if "c \<noteq> CHR '';''" "\<not> is_blank c" "0 < i" "s ! (i - 1) = CHR '' ''" "emit_code dest (code_bits 12) pos = Some (d, pos')"
  proof -
    have "match_longest_key (drop (i - 1) s) = Some 12"
      using that(3,4) d match_longest_key_blank [of "drop i s"] Cons_nth_drop_Suc [of "i - 1" s] by auto
    moreover have "i - 1 < length s" using d by linarith
    then have "str_at s (i - 1) = Some (CHR '' '')" using that(4) by (simp add: str_at_in)
    ultimately show ?thesis using d that by (subst loop) (simp add: str_at_in Let_def key_12)
  qed
  show "compress_loop s i False False dest pos = compress_loop s (i + length (code_key ix)) (c = QUOTE_CHAR) False d pos'"
    if "c \<noteq> CHR '';''" "\<not> is_blank c" "match_longest_key (c # cs) = Some ix" "emit_code dest (code_bits ix) pos = Some (d, pos')"
    using d that assms by (subst loop) (simp add: str_at_in Let_def)
  show "compress_loop s i False False dest pos = Some None"
    if "c \<noteq> CHR '';''" "\<not> is_blank c" "match_longest_key (c # cs) = None"
    using d that assms by (subst loop) (simp add: str_at_in Let_def)
qed

lemma compress_loop_string:
  assumes "drop i s = c # cs" "stands B (Some b) gob s i" "emit_string_char_code dest c pos = Some (d, pos')"
  shows "compress_loop s i True gob dest pos = compress_loop s (Suc i) (\<not> (c = QUOTE_CHAR \<and> \<not> b)) gob d pos'"
  using assms drop_ConsD [OF assms(1)] by (subst compress_loop.simps) (auto simp: str_at_in stands_def)

lemma stands_overwrite:
  assumes "stands B None gob s i" "drop i s = c # cs" "B (CHR '' '')"
  shows "stands B None True (s[i := CHR '' '']) (Suc i)" "drop (Suc i) (s[i := CHR '' '']) = cs"
  using assms drop_ConsD [OF assms(2)] set_update_subset_insert [of s i "CHR '' ''"] by (auto simp: stands_def)

lemma items_bits_bound: "pos + length (items_bits (it # its)) \<le> n \<Longrightarrow> pos + length (item_bits it) \<le> n"
  by simp

lemma lex_compress:
  "stands (\<lambda>c. c = CHR '' '') m gob s i \<Longrightarrow> lex m gob (drop i s) = Some its \<Longrightarrow> pos + length (items_bits its) \<le> 8 * length dest \<Longrightarrow>
     \<exists>d. compress_loop s i (m \<noteq> None) gob dest pos = Some (Some d) \<and> written pos (items_bits its) dest d"
proof (induction m gob "drop i s" arbitrary: i s its dest pos rule: lex.induct)
  case (1 m gob)
  then show ?case using written_none by (subst compress_loop.simps) auto
next
  case (2 b gob c cs)
  note eq = 2(2) [symmetric] and st = 2(3)
  let ?m = "if c = QUOTE_CHAR \<and> \<not> b then None else Some (c = BACKSLASH)"
  obtain its' where its: "its = Raw c # its'" "lex ?m gob cs = Some its'" using 2(4) eq by auto
  obtain d where d: "emit_string_char_code dest c pos = Some (d, pos + length (item_bits (Raw c)))"
      "written pos (item_bits (Raw c)) dest d" "length d = length dest"
    using put_item [of pos "Raw c" dest] 2(5) its(1) by auto
  obtain d' where "compress_loop s (Suc i) (?m \<noteq> None) gob d (pos + length (item_bits (Raw c))) = Some (Some d')"
      "written (pos + length (item_bits (Raw c))) (items_bits its') d d'"
    using 2(1) [of "Suc i" s its' "pos + length (item_bits (Raw c))" d] stands_string_step [OF st eq] drop_ConsD [OF eq] its 2(5) d(3) by auto
  then show ?case
    using compress_loop_string [OF eq st d(1)] written_append [OF d(2)] its(1) 2(5) by (cases "c = QUOTE_CHAR \<and> \<not> b") auto
next
  case (3 gob c cs)
  note eq = 3(5) [symmetric] and st = 3(6)
  note step = compress_loop_steps [OF eq]
  have lex: "lex None gob (c # cs) = Some its" using 3(7) eq by simp
  consider "c = CHR '';''" | "c \<noteq> CHR '';''" "is_blank c" | "c \<noteq> CHR '';''" "\<not> is_blank c" gob | "c \<noteq> CHR '';''" "\<not> is_blank c" "\<not> gob"
    by blast
  then show ?case
  proof cases
    case 1
    obtain j where "skip_comment s i = Some j" "drop j s = dropWhile (\<lambda>x. x \<noteq> CHR 0x0A) cs" "stands (\<lambda>c. c = CHR '' '') None gob s j"
      using comment_step [OF st] eq 1 by auto
    then show ?thesis using 3(1) [OF 1, of j s its pos dest] step(1) [OF 1] lex 1 3(8) by simp
  next
    case 2
    then show ?thesis
      using 3(2) [OF 2, of "Suc i" "s[i := CHR '' '']" its pos dest] step(2) stands_overwrite [OF st eq] lex 3(8) by simp
  next
    case c: 3
    obtain its' where its: "its = Key 12 # its'" "lex None False (c # cs) = Some its'" using lex c by auto
    obtain d where d: "emit_code dest (code_bits 12) pos = Some (d, pos + length (item_bits (Key 12)))"
        "written pos (item_bits (Key 12)) dest d" "length d = length dest"
      using put_item [of pos "Key 12" dest] 3(8) its(1) by auto
    show ?thesis
      using 3(3) [OF c, of i s its' "pos + length (item_bits (Key 12))" d] step(3) [OF c(1,2) _ _ d(1)] c
        stands_pending [of "\<lambda>c. c = CHR '' ''" s i c cs] st eq its 3(8) d(3) written_append [OF d(2)] by auto
  next
    case c: 4
    obtain ix its' where its: "match_longest_key (c # cs) = Some ix" "its = Key ix # its'"
        "lex (if c = QUOTE_CHAR then Some False else None) False (drop (length (code_key ix)) (c # cs)) = Some its'"
      using lex c by (auto split: option.splits)
    obtain d where d: "emit_code dest (code_bits ix) pos = Some (d, pos + length (item_bits (Key ix)))"
        "written pos (item_bits (Key ix)) dest d" "length d = length dest"
      using put_item [of pos "Key ix" dest] 3(8) its(2) by auto
    note key = key_step [OF st eq c(2) its(1)]
    show ?thesis
      using 3(4) [OF c its(1), of "i + length (code_key ix)" s its' "pos + length (item_bits (Key ix))" d] step(4) [OF c(1,2) its(1) d(1)]
        key its c d(3) 3(8) written_append [OF d(2)]
      by (cases "c = QUOTE_CHAR") auto
  qed
qed

subsection \<open>Text without a code\<close>

lemma lex_length_none:
  "stands is_blank m gob s i \<Longrightarrow> lex m gob (drop i s) = None \<Longrightarrow> CHR 0x0B \<notin> set s \<Longrightarrow> CHR 0x0C \<notin> set s \<Longrightarrow>
     compressed_length_loop s i len (m \<noteq> None) gob = Some (- 1)"
proof (induction m gob "drop i s" arbitrary: i len rule: lex.induct)
  case (1 m gob)
  then show ?case by simp
next
  case (2 b gob c cs)
  note eq = 2(2) [symmetric]
  let ?m = "if c = QUOTE_CHAR \<and> \<not> b then None else Some (c = BACKSLASH)"
  have "compressed_length_loop s (Suc i) (len + 8) (?m \<noteq> None) gob = Some (- 1)"
    using 2(1) [of "Suc i" "len + 8"] stands_string_step [OF 2(3) eq] drop_ConsD [OF eq] 2(4-6) eq by simp
  then show ?case using length_loop_string [OF eq 2(3)] by (cases "c = QUOTE_CHAR \<and> \<not> b") auto
next
  case (3 gob c cs)
  note eq = 3(5) [symmetric] and st = 3(6) and tabs = 3(8,9)
  note step = length_loop_steps [OF eq]
  have lex: "lex None gob (c # cs) = None" using 3(7) eq by simp
  consider "c = CHR '';''" | "c \<noteq> CHR '';''" "is_blank c" | "c \<noteq> CHR '';''" "\<not> is_blank c" gob | "c \<noteq> CHR '';''" "\<not> is_blank c" "\<not> gob"
    by blast
  then show ?case
  proof cases
    case 1
    obtain j where "skip_comment s i = Some j" "drop j s = dropWhile (\<lambda>x. x \<noteq> CHR 0x0A) cs" "stands is_blank None gob s j"
      using comment_step [OF st] eq 1 by auto
    then show ?thesis using 3(1) [OF 1, of j len] step(1) [OF 1] lex 1 tabs by simp
  next
    case 2
    then show ?thesis using 3(2) [OF 2, of "Suc i" len] step(2) stands_blank [OF st eq] lex drop_ConsD [OF eq] tabs by simp
  next
    case c: 3
    then show ?thesis
      using 3(3) [OF c, of i "len + int (length (code_bits 12))"] step(3) c stands_pending [of is_blank s i c cs] st eq lex tabs by simp
  next
    case c: 4
    show ?thesis
    proof (cases "match_longest_key (c # cs)")
      case None
      have "c \<in> set s" using drop_ConsD [OF eq] nth_mem by blast
      then have "\<not> isspace c" using isspace_cases [of c] c(2) tabs by blast
      then show ?thesis using step(5) [OF c(1)] None c by simp
    next
      case (Some ix)
      note key = key_step [OF st eq c(2) Some]
      show ?thesis
        using 3(4) [OF c Some, of "i + length (code_key ix)" "len + int (length (code_bits ix))"] step(4) [OF c(1,2) Some] key c lex Some tabs
        by (cases "c = QUOTE_CHAR") auto
    qed
  qed
qed

lemma lex_compress_none:
  "stands (\<lambda>c. c = CHR '' '') m gob s i \<Longrightarrow> lex m gob (drop i s) = None \<Longrightarrow>
     pos + 8 * (length (drop i s) + of_bool gob) \<le> 8 * length dest \<Longrightarrow> compress_loop s i (m \<noteq> None) gob dest pos = Some None"
proof (induction m gob "drop i s" arbitrary: i s dest pos rule: lex.induct)
  case (1 m gob)
  then show ?case by simp
next
  case (2 b gob c cs)
  note eq = 2(2) [symmetric] and st = 2(3)
  let ?m = "if c = QUOTE_CHAR \<and> \<not> b then None else Some (c = BACKSLASH)"
  have cap: "pos + 8 * (Suc (length cs) + of_bool gob) \<le> 8 * length dest" using 2(5) unfolding eq by simp
  obtain d where d: "emit_string_char_code dest c pos = Some (d, pos + 8)" "length d = length dest"
    using put_item [of pos "Raw c" dest] cap by auto
  have "compress_loop s (Suc i) (?m \<noteq> None) gob d (pos + 8) = Some None"
    using 2(1) [of "Suc i" s "pos + 8" d] stands_string_step [OF st eq] drop_ConsD [OF eq] 2(4) eq cap d(2) by simp
  then show ?case using compress_loop_string [OF eq st d(1)] by (cases "c = QUOTE_CHAR \<and> \<not> b") auto
next
  case (3 gob c cs)
  note eq = 3(5) [symmetric] and st = 3(6)
  note step = compress_loop_steps [OF eq]
  have lex: "lex None gob (c # cs) = None" using 3(7) eq by simp
  have cap: "pos + 8 * (Suc (length cs) + of_bool gob) \<le> 8 * length dest" using 3(8) unfolding eq by simp
  consider "c = CHR '';''" | "c \<noteq> CHR '';''" "is_blank c" | "c \<noteq> CHR '';''" "\<not> is_blank c" gob | "c \<noteq> CHR '';''" "\<not> is_blank c" "\<not> gob"
    by blast
  then show ?case
  proof cases
    case 1
    obtain j where j: "skip_comment s i = Some j" "drop j s = dropWhile (\<lambda>x. x \<noteq> CHR 0x0A) cs" "stands (\<lambda>c. c = CHR '' '') None gob s j"
      using comment_step [OF st] eq 1 by auto
    have "length (drop j s) \<le> length cs" using j(2) length_dropWhile_le [of _ cs] by simp
    then show ?thesis using 3(1) [OF 1, of j s pos dest] step(1) [OF 1 j(1)] j lex 1 cap by simp
  next
    case 2
    have "pos + 8 * (length (drop (Suc i) (s[i := CHR '' ''])) + of_bool True) \<le> 8 * length dest"
      using cap unfolding stands_overwrite(2) [OF st eq refl] by simp
    then show ?thesis using 2 3(2) [OF 2, of "Suc i" "s[i := CHR '' '']" pos dest] step(2) stands_overwrite [OF st eq] lex by simp
  next
    case c: 3
    obtain d where d: "emit_code dest (code_bits 12) pos = Some (d, pos + length (code_bits 12))" "length d = length dest"
      using put_item [of pos "Key 12" dest] cap c code_entry(4) [of 12] by (auto simp: key_12)
    have "pos + length (code_bits 12) + 8 * (Suc (length cs)) \<le> 8 * length dest" using cap c code_entry(4) [of 12] by (simp add: key_12)
    then show ?thesis
      using 3(3) [OF c, of i s "pos + length (code_bits 12)" d] step(3) [OF c(1,2) _ _ d(1)] c
        stands_pending [of "\<lambda>c. c = CHR '' ''" s i c cs] st eq lex d(2) by auto
  next
    case c: 4
    show ?thesis
    proof (cases "match_longest_key (c # cs)")
      case None
      then show ?thesis using step(5) [OF c(1,2)] c by simp
    next
      case (Some ix)
      note k = match_key_cases [OF Some c(2)] and key = key_step [OF st eq c(2) Some]
      have len: "length (code_key ix) \<le> Suc (length cs)" "length (code_bits ix) \<le> 8 * length (code_key ix)"
        using arg_cong [OF k(2), of length] code_entry(4) [OF k(1)] by simp_all
      obtain d where d: "emit_code dest (code_bits ix) pos = Some (d, pos + length (code_bits ix))" "length d = length dest"
        using put_item [of pos "Key ix" dest] cap len by auto
      have "pos + length (code_bits ix) + 8 * length (drop (i + length (code_key ix)) s) \<le> 8 * length d"
        using cap len d(2) unfolding key(2) by simp
      then show ?thesis
        using 3(4) [OF c Some, of "i + length (code_key ix)" s "pos + length (code_bits ix)" d] step(4) [OF c(1,2) Some d(1)]
          key c lex Some by (cases "c = QUOTE_CHAR") auto
    qed
  qed
qed

end
