(* ===== verification/Compression_Decode.thy ===== *)
theory Compression_Decode
  imports Compression_Scan
begin

text \<open>
  The decompressor of \<open>src/compression.c\<close> reads back what \<open>compression_compress\<close> writes: the search in
  the code table finds the code that starts at the bit position, and the mode of the decompressor
  follows that of \<open>lex\<close>.
\<close>

subsection \<open>Finding a code\<close>

definition code_here :: "8 word list \<Rightarrow> nat \<Rightarrow> nat \<Rightarrow> nat \<Rightarrow> bool" where
  "code_here src p n ix \<longleftrightarrow> length (code_bits ix) \<le> n \<and> take (length (code_bits ix)) (drop p (bits_of src)) = code_bools (code_bits ix)"

lemma match_code_step:
  assumes "i < 66" and "p + unat n \<le> 8 * length src" and "p + unat n < 2 ^ 32"
  shows "match_code_loop (drop i codes) src (of_nat p) n i best len =
    (if code_here src p (unat n) i \<and> length (code_bits i) > len
     then match_code_loop (drop (Suc i) codes) src (of_nat p) n (Suc i) (Some i) (length (code_bits i))
     else match_code_loop (drop (Suc i) codes) src (of_nat p) n (Suc i) best len)"
proof -
  have "drop i codes = codes ! i # drop (Suc i) codes" using assms(1) length_codes by (simp add: Cons_nth_drop_Suc)
  moreover have "match_bits src (of_nat p) (code_bits i) = Some (take (length (code_bits i)) (drop p (bits_of src)) = code_bools (code_bits i))"
    if "length (code_bits i) \<le> unat n"
    using that assms by (intro match_bits_bits code_entry) auto
  ultimately show ?thesis by (auto simp: Let_def code_here_def code_bits_def)
qed

lemma match_code_none:
  assumes "p + unat n \<le> 8 * length src" "p + unat n < 2 ^ 32"
    and "i \<le> 66" and "\<And>j. i \<le> j \<Longrightarrow> j < 66 \<Longrightarrow> \<not> code_here src p (unat n) j"
  shows "match_code_loop (drop i codes) src (of_nat p) n i best len = Some best"
  using assms(3,4)
proof (induction i rule: inc_induct)
  case base
  then show ?case by (simp add: length_codes)
next
  case (step i)
  then show ?case by (simp add: match_code_step [OF _ assms(1,2)])
qed

lemma match_code_one:
  assumes "p + unat n \<le> 8 * length src" "p + unat n < 2 ^ 32" and "code_here src p (unat n) ix" and "ix < 66"
    and "i \<le> ix"
  shows "match_code_loop (drop i codes) src (of_nat p) n i None 0 = Some (Some ix)"
proof -
  have other: "\<not> code_here src p (unat n) j" if "j < 66" "j \<noteq> ix" for j
    using code_unique [OF that(1) assms(4), of "drop p (bits_of src)"] that(2) assms(3) by (auto simp: code_here_def)
  show ?thesis using assms(5)
  proof (induction i rule: inc_induct)
    case base
    have "match_code_loop (drop (Suc ix) codes) src (of_nat p) n (Suc ix) (Some ix) (length (code_bits ix)) = Some (Some ix)"
      using assms(4) other by (intro match_code_none [OF assms(1,2)]) auto
    then show ?case using assms(3) code_entry(3) [OF assms(4)] by (simp add: match_code_step [OF assms(4,1,2)])
  next
    case (step i)
    then show ?case using assms(4) other [of i] by (simp add: match_code_step [OF _ assms(1,2)])
  qed
qed

lemma match_longest_code_finds:
  assumes "code_here src p n ix" "ix < 66" "p + n \<le> 8 * length src" "p + n < 2 ^ 32"
  shows "match_longest_code src (of_nat p) (of_nat (p + n)) = Some (Some ix)"
proof -
  have "unat (of_nat (p + n) - of_nat p :: u32) = n" using assms(4) by (simp add: unat_u32_of_nat)
  then show ?thesis
    using match_code_one [of p "of_nat (p + n) - of_nat p" src ix 0] assms by (simp add: match_longest_code_def)
qed

subsection \<open>Characters of string literals\<close>

lemma read_bits_bits:
  "p + n \<le> 8 * length src \<Longrightarrow> p + n < 2 ^ 32 \<Longrightarrow> i + n \<le> 8 \<Longrightarrow>
     \<exists>w'. read_bits src (of_nat p) i n w = Some (w', of_nat (p + n)) \<and>
       (\<forall>j < 8. bit w' j = (if i \<le> j \<and> j < i + n then bits_of src ! (p + (j - i)) else bit w j))"
proof (induction n arbitrary: p i w)
  case (Suc n)
  have p: "unat (of_nat p :: u32) = p" using Suc.prems(2) by (intro unat_u32_of_nat) simp
  let ?w = "set_bit_of w i (bits_of src ! p)"
  have next_pos: "(of_nat p + 1 :: u32) = of_nat (Suc p)" by simp
  obtain w' where w': "read_bits src (of_nat (Suc p)) (Suc i) n ?w = Some (w', of_nat (Suc p + n))"
      "\<forall>j < 8. bit w' j = (if Suc i \<le> j \<and> j < Suc i + n then bits_of src ! (Suc p + (j - Suc i)) else bit ?w j)"
    using Suc.IH [of "Suc p" "Suc i" ?w] Suc.prems by auto
  have "get_bit src (of_nat p) = Some (bits_of src ! p)" using get_bit_bits [of "of_nat p" src] p Suc.prems(1) by simp
  moreover have "bit w' j = (if i \<le> j \<and> j < i + Suc n then bits_of src ! (p + (j - i)) else bit w j)" if "j < 8" for j
  proof (cases "j = i")
    case False
    then have "Suc p + (j - Suc i) = p + (j - i)" if "i \<le> j" using that by simp
    with False \<open>j < 8\<close> w'(2) Suc.prems(3) show ?thesis by (auto simp: bit_set_bit_of)
  qed (use that w'(2) in \<open>auto simp: bit_set_bit_of\<close>)
  ultimately show ?case using w'(1) unfolding read_bits.simps next_pos by auto
qed auto

lemma byte_char_char_byte [simp]: "byte_char (char_byte c) = c"
proof -
  have "(of_char c :: nat) < 256" by simp
  then show ?thesis by (simp add: byte_char_def char_byte_def unat_of_nat)
qed

lemma read_character_raw:
  assumes "take 8 (drop p (bits_of src)) = item_bits (Raw c)" "p + 8 \<le> 8 * length src" "p + 8 < 2 ^ 32"
  shows "read_character src (of_nat p) = Some (c, of_nat (p + 8))"
proof -
  obtain w where w: "read_bits src (of_nat p) 0 8 0 = Some (w, of_nat (p + 8))" "\<forall>j < 8. bit w j = bits_of src ! (p + j)"
    using read_bits_bits [of p 8 src 0 0] assms(2,3) by auto
  have "bit w j = bit (char_byte c) j" if "j < 8" for j
    using w(2) that arg_cong [OF assms(1), of "\<lambda>l. l ! j"] assms(2) by simp
  then have "w = char_byte c" by (intro bit_word_eqI) simp
  with w(1) show ?thesis by (simp add: read_character_def)
qed

subsection \<open>The output\<close>

lemma emit_key_fits:
  "pos + length ks \<le> length dest \<Longrightarrow> emit_key dest ks pos = Some (take pos dest @ ks @ drop (pos + length ks) dest, pos + length ks)"
proof (induction ks arbitrary: dest pos)
  case (Cons k ks)
  have "take (Suc pos) (dest[pos := k]) = take pos dest @ [k]" using Cons.prems by (simp add: take_Suc_conv_app_nth)
  with Cons show ?case by simp
qed simp

lemma emit_key_splice:
  assumes "pos + length ks \<le> length dest"
  obtains d where "emit_key dest ks pos = Some (d, pos + length ks)" "length d = length dest"
    "take (pos + length ks) d = take pos dest @ ks" "\<And>n. drop (pos + length ks + n) d = drop (pos + length ks + n) dest"
  using emit_key_fits [OF assms] that [of "take pos dest @ ks @ drop (pos + length ks) dest"] assms by (simp add: ac_simps)

lemma emit_key_overflow: "length dest < pos + length ks \<Longrightarrow> pos \<le> length dest \<Longrightarrow> emit_key dest ks pos = None"
proof (induction ks arbitrary: dest pos)
  case (Cons k ks)
  then show ?case by (cases "pos < length dest") auto
qed simp

subsection \<open>One step of the decompressor\<close>

fun wf_items :: "bool option \<Rightarrow> item list \<Rightarrow> bool" where
  "wf_items m [] = True"
| "wf_items None (Key ix # its) = (ix < 66 \<and> wf_items (if code_key ix = [QUOTE_CHAR] then Some False else None) its)"
| "wf_items (Some b) (Raw c # its) = wf_items (if c = QUOTE_CHAR \<and> \<not> b then None else Some (c = BACKSLASH)) its"
| "wf_items m its = False"

lemma wf_lex: "lex m gob s = Some its \<Longrightarrow> wf_items m its"
proof (induction m gob s arbitrary: its rule: lex.induct)
  case (3 gob c cs)
  show ?case
  proof (cases "c = CHR '';'' \<or> is_blank c \<or> gob")
    case True
    with 3 show ?thesis by (auto simp: key_12 split: if_splits)
  next
    case False
    with 3(5) obtain ix its' where ix: "match_longest_key (c # cs) = Some ix"
        "lex (if c = QUOTE_CHAR then Some False else None) False (drop (length (code_key ix)) (c # cs)) = Some its'" "its = Key ix # its'"
      by (auto split: option.splits)
    then show ?thesis using 3(4) False match_key_cases [OF ix(1)] by simp
  qed
qed auto

text \<open>The state of the decompressor at bit \<open>p\<close> of the data, of which \<open>n\<close> bits are left.\<close>

definition decoding :: "bool option \<Rightarrow> nat \<Rightarrow> nat \<Rightarrow> decomp_state \<Rightarrow> bool" where
  "decoding m p n s \<longleftrightarrow> dc_i s = of_nat p \<and> dc_compressed_bits s + 32 = of_nat (p + n) \<and> dc_string_mode s = (m \<noteq> None) \<and>
     (\<forall>b. m = Some b \<longrightarrow> b = (dc_last_string_char s = BACKSLASH)) \<and> p + n \<le> 8 * length (dc_src s) \<and> p + n < 2 ^ 32"

lemma decoding_end: "decoding m p 0 s \<Longrightarrow> compression_decompress_incremental s k = Some (0, replicate k NUL, s)"
  by (simp add: decoding_def compression_decompress_incremental_def Let_def)

lemma decoding_less: "decoding m p n s \<Longrightarrow> 0 < n \<Longrightarrow> dc_i s < dc_compressed_bits s + 32"
  by (simp add: decoding_def word_less_nat_alt unat_u32_of_nat del: of_nat_add)

lemma decode_key:
  assumes "decoding None p n s" "ix < 66" "code_here (dc_src s) p n ix"
  shows "\<exists>s'. compression_decompress_incremental s 32 =
      Some (int (length (code_key ix)), code_key ix @ replicate (32 - length (code_key ix)) NUL, s') \<and> dc_src s' = dc_src s \<and>
    decoding (if code_key ix = [QUOTE_CHAR] then Some False else None) (p + length (code_bits ix)) (n - length (code_bits ix)) s'"
proof -
  have n: "length (code_bits ix) \<le> n" "0 < n"
    using assms(3) code_entry(3) [OF assms(2)] by (auto simp: code_here_def simp flip: length_greater_0_conv)
  have "match_longest_code (dc_src s) (dc_i s) (dc_compressed_bits s + 32) = Some (Some ix)"
    using match_longest_code_finds [OF assms(3,2)] assms(1) by (simp add: decoding_def)
  moreover have "emit_key (replicate 32 NUL) (code_key ix) 0 =
      Some (code_key ix @ replicate (32 - length (code_key ix)) NUL, length (code_key ix))"
    using emit_key_fits [of 0 "code_key ix" "replicate 32 NUL"] code_entry(2) [OF assms(2)] by simp
  ultimately show ?thesis
    using decoding_less [OF assms(1) n(2)] assms(1) n(1)
    by (auto simp: compression_decompress_incremental_def Let_def decoding_def)
qed

lemma decode_raw:
  assumes "decoding (Some b) p n s" "8 \<le> n" "take 8 (drop p (bits_of (dc_src s))) = item_bits (Raw c)"
  shows "\<exists>s'. compression_decompress_incremental s 32 = Some (1, c # replicate 31 NUL, s') \<and> dc_src s' = dc_src s \<and>
    decoding (if c = QUOTE_CHAR \<and> \<not> b then None else Some (c = BACKSLASH)) (p + 8) (n - 8) s'"
proof -
  have "read_character (dc_src s) (dc_i s) = Some (c, of_nat (p + 8))"
    using read_character_raw [OF assms(3)] assms(1,2) by (simp add: decoding_def)
  moreover have "arr_set (replicate 32 NUL) 0 c = Some (c # replicate 31 NUL)" by (simp add: arr_set_def numeral_eq_Suc)
  moreover have "dc_i s < dc_compressed_bits s + 32" using decoding_less [OF assms(1)] assms(2) by simp
  ultimately show ?thesis
    using assms(1,2) by (auto simp: compression_decompress_incremental_def Let_def decoding_def)
qed

subsection \<open>The whole text\<close>

lemma decompress_items:
  "wf_items m its \<Longrightarrow> decoding m p (length (items_bits its)) s \<Longrightarrow>
     take (length (items_bits its)) (drop p (bits_of (dc_src s))) = items_bits its \<Longrightarrow> pos \<le> length dest \<Longrightarrow>
     decompress_loop s dest pos =
       (if pos + length (items_text its) \<le> length dest
        then Some (True, take pos dest @ items_text its @ drop (pos + length (items_text its)) dest) else None)"
proof (induction m its arbitrary: p s dest pos rule: wf_items.induct)
  case (1 m)
  then show ?case by (subst decompress_loop.simps) (simp add: decoding_end)
next
  case (2 ix its)
  let ?k = "code_key ix" and ?c = "length (code_bits ix)"
  have ix: "ix < 66" using 2(2) by simp
  have here: "code_here (dc_src s) p (?c + length (items_bits its)) ix"
    using arg_cong [OF 2(4), of "take ?c"] by (simp add: code_here_def)
  have rest: "take (length (items_bits its)) (drop (p + ?c) (bits_of (dc_src s))) = items_bits its"
    using arg_cong [OF 2(4), of "drop ?c"] by (simp add: drop_take add.commute)
  obtain s' where s': "compression_decompress_incremental s 32 = Some (int (length ?k), ?k @ replicate (32 - length ?k) NUL, s')"
      "dc_src s' = dc_src s" "decoding (if ?k = [QUOTE_CHAR] then Some False else None) (p + ?c) (length (items_bits its)) s'"
    using decode_key [OF _ ix here] 2(3) by auto
  note loop = decompress_loop.simps [of s dest pos]
  show ?case
  proof (cases "pos + length ?k \<le> length dest")
    case True
    then obtain d where d: "emit_key dest ?k pos = Some (d, pos + length ?k)" "length d = length dest"
        "take (pos + length ?k) d = take pos dest @ ?k" "\<And>n. drop (pos + length ?k + n) d = drop (pos + length ?k + n) dest"
      using emit_key_splice by blast
    note IH = 2(1) [of "p + ?c" s' "pos + length ?k" d]
    show ?thesis
      using s' rest IH 2(2) code_entry(1) [OF ix] d True by (subst loop) (simp add: add.assoc)
  next
    case False
    then show ?thesis using s'(1) code_entry(1) [OF ix] emit_key_overflow [of dest pos ?k] 2(5) by (subst loop) simp
  qed
next
  case (3 b c its)
  have here: "take 8 (drop p (bits_of (dc_src s))) = item_bits (Raw c)"
    using arg_cong [OF 3(4), of "take 8"] by simp
  have rest: "take (length (items_bits its)) (drop (p + 8) (bits_of (dc_src s))) = items_bits its"
    using arg_cong [OF 3(4), of "drop 8"] by (simp add: drop_take add.commute)
  obtain s' where s': "compression_decompress_incremental s 32 = Some (1, c # replicate 31 NUL, s')" "dc_src s' = dc_src s"
      "decoding (if c = QUOTE_CHAR \<and> \<not> b then None else Some (c = BACKSLASH)) (p + 8) (length (items_bits its)) s'"
    using decode_raw [of b p "8 + length (items_bits its)" s, OF _ _ here] 3(3) by auto
  note loop = decompress_loop.simps [of s dest pos]
  show ?case
  proof (cases "pos + length [c] \<le> length dest")
    case True
    then obtain d where d: "emit_key dest [c] pos = Some (d, pos + length [c])" "length d = length dest"
        "take (pos + length [c]) d = take pos dest @ [c]" "\<And>n. drop (pos + length [c] + n) d = drop (pos + length [c] + n) dest"
      using emit_key_splice by blast
    note IH = 3(1) [of "p + 8" s' "pos + length [c]" d]
    show ?thesis using s' rest IH 3(2) d True by (subst loop) simp
  next
    case False
    then show ?thesis using s'(1) emit_key_overflow [of dest pos "[c]"] 3(5) by (subst loop) simp
  qed
qed auto

end
