(* ===== verification/Compression_Correct.thy ===== *)
theory Compression_Correct
  imports Compression_Decode
begin

text \<open>
  The round trip of \<open>src/compression.c\<close>: \<open>compression_decompress\<close> gives back the text that was
  compressed, up to comments and white space. The texts that can be compressed are those whose characters
  outside of comments and string literals are in the alphabet of the code table.
\<close>

subsection \<open>Texts that have a code\<close>

definition alphabet :: string where
  "alphabet = filter (\<lambda>c. c \<noteq> CHR '' '') (map hd (filter (\<lambda>k. length k = 1) (map fst codes)))"

function encodable :: "bool option \<Rightarrow> string \<Rightarrow> bool" where
  "encodable m [] = True"
| "encodable (Some b) (c # cs) = encodable (if c = QUOTE_CHAR \<and> \<not> b then None else Some (c = BACKSLASH)) cs"
| "encodable None (c # cs) =
     (if c = CHR '';'' then encodable None (dropWhile (\<lambda>x. x \<noteq> CHR 0x0A) cs)
      else if is_blank c then encodable None cs
      else c \<in> set alphabet \<and> encodable (if c = QUOTE_CHAR then Some False else None) cs)"
  by pat_completeness auto

termination
  by (relation "measure (\<lambda>(m, s). length s)") (auto simp: le_imp_less_Suc length_dropWhile_le)

lemma key_chars: "list_all (\<lambda>(k, c). list_all (\<lambda>x. x \<in> set alphabet \<or> k = '' '') k) codes"
  by code_simp

lemma key_alphabet:
  assumes "ix < 66" and "code_key ix \<noteq> '' ''"
  shows "set (code_key ix) \<subseteq> set alphabet"
proof -
  have "codes ! ix \<in> set codes" using assms(1) length_codes by simp
  from list_all_iff [THEN iffD1, OF key_chars, THEN bspec, OF this]
  have "list_all (\<lambda>x. x \<in> set alphabet \<or> code_key ix = '' '') (code_key ix)"
    unfolding code_key_def case_prod_unfold .
  with assms(2) show ?thesis unfolding list_all_iff by blast
qed

lemma match_key_loop_keeps: "match_key_loop cs str i (Some ix) len \<noteq> None"
  by (induction cs arbitrary: i ix len) (simp_all add: Let_def)

lemma match_key_loop_finds: "(k, c) \<in> set cs \<Longrightarrow> k \<noteq> [] \<Longrightarrow> match_key_loop cs (k @ t) i None 0 \<noteq> None"
  using match_key_loop_keeps by (induction cs arbitrary: i) (auto simp: Let_def)

lemma match_longest_key_iff:
  assumes "\<not> is_blank c"
  shows "match_longest_key (c # cs) \<noteq> None \<longleftrightarrow> c \<in> set alphabet"
proof
  assume "match_longest_key (c # cs) \<noteq> None"
  then obtain ix where ix: "match_longest_key (c # cs) = Some ix" by blast
  note k = match_key_cases [OF ix assms]
  have "c \<in> set (code_key ix)" using k(2) code_entry(1) [OF k(1)] by (cases "code_key ix") auto
  moreover have "code_key ix \<noteq> '' ''" using calculation assms by (auto simp: is_blank_def)
  ultimately show "c \<in> set alphabet" using key_alphabet [OF k(1)] by blast
next
  assume "c \<in> set alphabet"
  then obtain k where k: "k \<in> set (map fst codes)" "length k = 1" "c = hd k" by (auto simp: alphabet_def)
  have "k = [c]" using k(2,3) by (auto simp: length_Suc_conv)
  with k(1) obtain b where "([c], b) \<in> set codes" by auto
  then show "match_longest_key (c # cs) \<noteq> None"
    using match_key_loop_finds [of "[c]" b codes cs 0] by (simp add: match_longest_key_def)
qed

lemma encodable_plain:
  "list_all (\<lambda>x. x \<noteq> CHR '';'' \<and> \<not> is_blank x \<and> x \<noteq> QUOTE_CHAR) k \<Longrightarrow> set k \<subseteq> set alphabet \<Longrightarrow>
     encodable None (k @ t) = encodable None t"
  by (induction k) auto

lemma lex_encodable: "lex m gob s \<noteq> None \<longleftrightarrow> encodable m s"
proof (induction m gob s rule: lex.induct)
  case (3 gob c cs)
  consider "c = CHR '';''" | "c \<noteq> CHR '';''" "is_blank c" | "c \<noteq> CHR '';''" "\<not> is_blank c" gob | "c \<noteq> CHR '';''" "\<not> is_blank c" "\<not> gob"
    by blast
  then show ?case
  proof cases
    case 4
    show ?thesis
    proof (cases "match_longest_key (c # cs)")
      case None
      then show ?thesis using 4 match_longest_key_iff [OF 4(2), of cs] by auto
    next
      case (Some ix)
      note k = match_key_cases [OF Some 4(2)]
      have "encodable None (c # cs) = encodable (if c = QUOTE_CHAR then Some False else None) (drop (length (code_key ix)) (c # cs))"
      proof (cases "c = QUOTE_CHAR")
        case True
        then show ?thesis using 4 k(3) match_longest_key_iff [OF 4(2), of cs] Some by simp
      next
        case False
        have "code_key ix \<noteq> '' ''" using k(2) 4(2) by (auto simp: is_blank_def)
        then show ?thesis using encodable_plain [OF k(4), of "drop (length (code_key ix)) (c # cs)"] key_alphabet [OF k(1)] k(2,3) False by metis
      qed
      then show ?thesis using 3(4) [OF 4 Some] 4 Some by simp
    qed
  qed (use 3 in auto)
qed simp_all

subsection \<open>Bounds\<close>

lemma lex_bits_bound: "lex m gob s = Some its \<Longrightarrow> length (items_bits its) \<le> 8 * (length s + of_bool gob)"
proof (induction m gob s arbitrary: its rule: lex.induct)
  case (2 b gob c cs)
  then show ?case by fastforce
next
  case (3 gob c cs)
  consider "c = CHR '';''" | "c \<noteq> CHR '';''" "is_blank c" | "c \<noteq> CHR '';''" "\<not> is_blank c" gob | "c \<noteq> CHR '';''" "\<not> is_blank c" "\<not> gob"
    by blast
  then show ?case
  proof cases
    case 1
    then show ?thesis using 3(1) [OF 1, of its] 3(5) length_dropWhile_le [of "\<lambda>x. x \<noteq> CHR 0x0A" cs] by simp
  next
    case 2
    then show ?thesis using 3(2) [OF 2, of its] 3(5) by simp
  next
    case c: 3
    then obtain its' where "its = Key 12 # its'" "lex None False (c # cs) = Some its'" using 3(5) by auto
    then show ?thesis using 3(3) [OF c, of its'] c code_entry(4) [of 12] by (simp add: key_12)
  next
    case c: 4
    then obtain ix its' where its: "match_longest_key (c # cs) = Some ix" "its = Key ix # its'"
        "lex (if c = QUOTE_CHAR then Some False else None) False (drop (length (code_key ix)) (c # cs)) = Some its'"
      using 3(5) by (auto split: option.splits)
    note k = match_key_cases [OF its(1) c(2)]
    show ?thesis
      using 3(4) [OF c its(1,3)] its(2) code_entry(4) [OF k(1)] arg_cong [OF k(2), of length] c(3) by simp
  qed
qed simp

lemma lex_bits_empty: "lex m gob s = Some its \<Longrightarrow> items_bits its = [] \<longleftrightarrow> items_text its = []"
proof -
  assume "lex m gob s = Some its"
  then have "wf_items m its" by (rule wf_lex)
  then show ?thesis using code_entry by (induction m its rule: wf_items.induct) (auto simp: code_bools_def)
qed

subsection \<open>Header\<close>

lemma length_header [simp]: "length (header_bytes v) = 4"
  by (simp add: header_bytes_def)

lemma read_header_bytes: "read_header (header_bytes v @ rest) = Some v"
proof -
  have "ucast (ucast v :: 8 word) OR push_bit 8 (ucast (ucast (drop_bit 8 v) :: 8 word)) OR
      push_bit 16 (ucast (ucast (drop_bit 16 v) :: 8 word)) OR push_bit 24 (ucast (ucast (drop_bit 24 v) :: 8 word)) = v"
    (is "?w = v")
  proof (rule bit_word_eqI)
    fix n
    assume "n < LENGTH(32)"
    then consider "n < 8" | "8 \<le> n" "n < 16" | "16 \<le> n" "n < 24" | "24 \<le> n" "n < 32" by fastforce
    then show "bit ?w n = bit v n"
      by cases (auto simp: bit_or_iff bit_push_bit_iff bit_unsigned_iff bit_drop_bit_eq)
  qed
  then show ?thesis by (simp add: header_bytes_def read_header_def)
qed

lemma bits_of_prefix:
  assumes "take (8 * n) (bits_of d) = take (8 * n) (bits_of d')" "n \<le> length d" "n \<le> length d'"
  shows "take n d = take n d'"
proof (rule nth_equalityI)
  fix k
  assume "k < length (take n d)"
  then have k: "k < n" by simp
  have "d ! k = d' ! k"
  proof (rule bit_word_eqI)
    fix j
    assume "j < LENGTH(8)"
    then have j: "j < 8" by simp
    then have "8 * k + j < 8 * n" using k by simp
    then have "bits_of d ! (8 * k + j) = bits_of d' ! (8 * k + j)"
      using arg_cong [OF assms(1), of "\<lambda>l. l ! (8 * k + j)"] by simp
    then show "bit (d ! k) j \<longleftrightarrow> bit (d' ! k) j" using nth_bits_of [of "8 * k + j"] j k assms(2,3) by simp
  qed
  with k show "take n d ! k = take n d' ! k" by simp
qed (use assms in simp)

text \<open>What is written behind the header leaves the header as it is.\<close>

lemma written_header:
  assumes "written 32 bs (header_bytes v @ zs) d" "length bs \<le> 8 * length zs"
  shows "read_header d = Some v" "take (length bs) (drop 32 (bits_of d)) = bs" "length d = 4 + length zs"
proof -
  show len: "length d = 4 + length zs" using assms(1) by (simp add: written_def)
  have "take 4 d = take 4 (header_bytes v @ zs)"
    using assms len by (intro bits_of_prefix) (simp_all add: written_def)
  then have "d = header_bytes v @ drop 4 d" by (metis append_eq_conv_conj append_take_drop_id length_header)
  then show "read_header d = Some v" by (metis read_header_bytes)
  show "take (length bs) (drop 32 (bits_of d)) = bs" using assms by (simp add: written_def)
qed

definition size_bytes :: "nat \<Rightarrow> nat" where
  "size_bytes n = 4 + (n + 7) div 8"

lemma c_size_bytes:
  assumes "n < 2 ^ 31"
  shows "unat (4 + (of_nat n :: u32) div 8 + (if (of_nat n :: u32) mod 8 > 0 then 1 else 0)) = size_bytes n"
proof -
  have n: "unat (of_nat n :: u32) = n" using assms by (intro unat_u32_of_nat) simp
  have d: "unat ((of_nat n :: u32) div 8) = n div 8" "unat ((of_nat n :: u32) mod 8) = n mod 8" using n by (simp_all add: unat_div unat_mod)
  have "n div 8 < 2 ^ 28" using assms by (simp add: div_less_iff_less_mult)
  moreover have "(of_nat n :: u32) mod 8 > 0 \<longleftrightarrow> n mod 8 > 0" using d(2) by (simp add: word_less_nat_alt)
  moreover have "(n + 7) div 8 = n div 8 + (if n mod 8 > 0 then 1 else 0)" by presburger
  ultimately show ?thesis using d(1) by (simp add: size_bytes_def unat_word_ariths)
qed

subsection \<open>The compressor as a whole\<close>

lemma compress_run:
  assumes "compressed_length s = Some len" "word_of_int len = bits" "bits \<noteq> 0"
    and "c_size = 4 + bits div 8 + (if bits mod 8 > 0 then 1 else 0)" "has_mem c_size" "4 \<le> unat (c_size :: u32)"
  shows "compression_compress has_mem s = compress_loop s 0 False False (header_bytes bits @ replicate (unat c_size - 4) 0) 32"
proof -
  have "\<not> length (replicate (unat c_size) (0 :: 8 word)) < 4" using assms(6) by simp
  then show ?thesis
    using assms(1-5) unfolding compression_compress_def by (simp del: length_replicate add: Let_def)
qed

lemma compression_compress_result:
  assumes "NUL \<notin> set s" "length s < 2 ^ 28" "encodable None s" "normalise s \<noteq> []" "\<forall>n. has_mem n"
  obtains its d where "lex None False s = Some its" "compression_compress has_mem s = Some (Some d)"
    "compressed_length s = Some (int (length (items_bits its)))" "length d = size_bytes (length (items_bits its))"
    "read_header d = Some (of_nat (length (items_bits its)))" "take (length (items_bits its)) (drop 32 (bits_of d)) = items_bits its"
    "length (items_bits its) \<le> 8 * length s"
proof -
  obtain its where its: "lex None False s = Some its" using lex_encodable assms(3) by blast
  define n where "n = length (items_bits its)"
  let ?bits = "of_nat n :: u32"
  let ?size = "4 + ?bits div 8 + (if ?bits mod 8 > 0 then 1 else 0)"
  have bound: "n \<le> 8 * length s" "n < 2 ^ 31" using lex_bits_bound [OF its] assms(2) by (simp_all add: n_def)
  have "n \<noteq> 0" using lex_bits_empty [OF its] lex_text [OF its] assms(4) by (simp add: n_def normalise_def)
  moreover have "unat ?bits = n" using bound(2) by (intro unat_u32_of_nat) simp
  ultimately have nz: "?bits \<noteq> 0" by (metis unsigned_0)
  have len: "compressed_length s = Some (int n)"
    using lex_length [OF stands_start, of s its 0] assms(1) its by (simp add: compressed_length_def n_def)
  have size: "unat ?size = size_bytes n" using c_size_bytes bound(2) by blast
  have run: "compression_compress has_mem s = compress_loop s 0 False False (header_bytes ?bits @ replicate (size_bytes n - 4) 0) 32"
    using compress_run [OF len _ nz refl, of has_mem] assms(5) size by (simp add: size_bytes_def)
  have cap: "n \<le> 8 * (size_bytes n - 4)" by (simp add: size_bytes_def)
  obtain d where d: "compression_compress has_mem s = Some (Some d)"
      "written 32 (items_bits its) (header_bytes ?bits @ replicate (size_bytes n - 4) 0) d"
    using lex_compress [OF stands_start, of s its 32 "header_bytes ?bits @ replicate (size_bytes n - 4) 0"] assms(1) its run cap
    by (auto simp: n_def)
  note w = written_header [OF d(2)]
  show ?thesis
    by (rule that [OF its d(1)]) (use w len cap bound in \<open>simp_all add: n_def size_bytes_def\<close>)
qed

lemma decompress_result:
  assumes "lex None False s = Some its" "read_header d = Some (of_nat (length (items_bits its)))"
    "take (length (items_bits its)) (drop 32 (bits_of d)) = items_bits its" "length d = size_bytes (length (items_bits its))"
    "length (items_bits its) < 2 ^ 31"
  shows "compression_decompress dest_n d =
    (if length (normalise s) \<le> dest_n then Some (True, normalise s @ replicate (dest_n - length (normalise s)) NUL) else None)"
proof -
  let ?s = "\<lparr>dc_compressed_bits = of_nat (length (items_bits its)), dc_i = 32, dc_string_mode = False, dc_last_string_char = NUL, dc_src = d\<rparr>"
  have "decoding None 32 (length (items_bits its)) ?s"
    using assms(4,5) by (simp add: decoding_def size_bytes_def)
  then have "decompress_loop ?s (replicate dest_n NUL) 0 =
      (if length (items_text its) \<le> dest_n then Some (True, items_text its @ replicate (dest_n - length (items_text its)) NUL) else None)"
    using decompress_items [OF wf_lex [OF assms(1)], of 32 ?s 0 "replicate dest_n NUL"] assms(3) by simp
  then show ?thesis
    using assms(2) lex_text [OF assms(1)] by (simp add: compression_decompress_def compression_init_state_def normalise_def)
qed

subsection \<open>Properties\<close>

text \<open>
  C13: decompressing the data that compressing a text gives yields the text without its comments and with its
  white space reduced, string literals untouched, followed by the zeros of the buffer; both directions end and
  stay inside their arrays. The text has no zero character, is shorter than \<open>2 ^ 28\<close> characters, has characters of the
  code table outside of comments and string literals, and is more than comments and white space; the buffer is large enough.
\<close>

theorem compression_roundtrip:
  assumes "NUL \<notin> set s" "length s < 2 ^ 28" "encodable None s" "normalise s \<noteq> []" "\<forall>n. has_mem n"
    and "length (normalise s) \<le> dest_n"
  shows "\<exists>d. compression_compress has_mem s = Some (Some d) \<and>
    compression_decompress dest_n d = Some (True, normalise s @ replicate (dest_n - length (normalise s)) NUL)"
proof -
  obtain its d where r: "lex None False s = Some its" "compression_compress has_mem s = Some (Some d)"
      "length d = size_bytes (length (items_bits its))" "read_header d = Some (of_nat (length (items_bits its)))"
      "take (length (items_bits its)) (drop 32 (bits_of d)) = items_bits its" "length (items_bits its) \<le> 8 * length s"
    using compression_compress_result [OF assms(1-5)] by blast
  with decompress_result [OF r(1,4,5,3), of dest_n] assms(2,6) show ?thesis by auto
qed

text \<open>A program with a comment, white space, keywords and a string literal.\<close>

definition sample_text :: string where
  "sample_text = ''(define  f '' @ [CHR 0x09, CHR 0x0A] @ ''(lambda (x) ; Comment'' @ [CHR 0x0A] @ ''  (cons x '' @
     [CHR 0x22] @ '';A  B'' @ [CHR 0x5C, CHR 0x22] @ ''C'' @ [CHR 0x22] @ ''))) ''"

lemma sample_text_size: "NUL \<notin> set sample_text" "length sample_text < 2 ^ 28"
  by (simp_all add: sample_text_def)

lemma sample_text_encodable: "encodable None sample_text"
  by code_simp

lemma sample_text_normalise:
  "normalise sample_text = ''(define f (lambda (x) (cons x '' @ [CHR 0x22] @ '';A  B'' @ [CHR 0x5C, CHR 0x22] @ ''C'' @ [CHR 0x22] @ '')))''"
  by code_simp

lemmas sample_text_facts = sample_text_size sample_text_encodable sample_text_normalise

theorem compression_roundtrip_witness:
  "\<exists>d. compression_compress (\<lambda>n. True) sample_text = Some (Some d) \<and>
     compression_decompress 49 d =
       Some (True, ''(define f (lambda (x) (cons x '' @ [CHR 0x22] @ '';A  B'' @ [CHR 0x5C, CHR 0x22] @ ''C'' @ [CHR 0x22] @ '')))'' @ replicate 6 NUL)"
  using compression_roundtrip [of sample_text "\<lambda>n. True" 49] sample_text_facts by simp

text \<open>
  \<open>compressed_length\<close> announces the number of bits that \<open>compression_compress\<close> writes behind its header, and
  the result is never longer than the text and the four bytes of the header.
\<close>

theorem compressed_size:
  assumes "NUL \<notin> set s" "length s < 2 ^ 28" "encodable None s" "normalise s \<noteq> []" "\<forall>n. has_mem n"
  shows "\<exists>n d. compressed_length s = Some (int n) \<and> compression_compress has_mem s = Some (Some d) \<and>
    read_header d = Some (of_nat n) \<and> n \<le> 8 * length s \<and> length d = 4 + (n + 7) div 8 \<and> length d \<le> 4 + length s"
proof -
  obtain its d where "compression_compress has_mem s = Some (Some d)"
      "compressed_length s = Some (int (length (items_bits its)))" "length d = size_bytes (length (items_bits its))"
      "read_header d = Some (of_nat (length (items_bits its)))" "length (items_bits its) \<le> 8 * length s"
    using compression_compress_result [OF assms] by blast
  then show ?thesis by (intro exI [of _ "length (items_bits its)"] exI [of _ d]) (simp add: size_bytes_def)
qed

theorem compressed_size_witness:
  "\<exists>n d. compressed_length sample_text = Some (int n) \<and> compression_compress (\<lambda>n. True) sample_text = Some (Some d) \<and>
    read_header d = Some (of_nat n) \<and> n \<le> 8 * length sample_text \<and> length d = 4 + (n + 7) div 8 \<and> length d \<le> 4 + length sample_text"
  using compressed_size [of sample_text "\<lambda>n. True"] sample_text_facts by simp

text \<open>
  A text with a character outside of comments and string literals that the code table does not have is
  refused: \<open>compressed_length\<close> gives \<open>-1\<close>, and \<open>compression_compress\<close> gives \<open>NULL\<close> whether or not the block for
  the announced length can be had. (The text is free of the vertical tab and the form feed, which \<open>isspace\<close> accepts
  in one loop and not in the other.)
\<close>

theorem compression_rejects:
  assumes "NUL \<notin> set s" "length s < 2 ^ 28" "\<not> encodable None s" "CHR 0x0B \<notin> set s" "CHR 0x0C \<notin> set s"
  shows "compressed_length s = Some (- 1) \<and> compression_compress has_mem s = Some None"
proof -
  have lex: "lex None False s = None" using lex_encodable assms(3) by blast
  have len: "compressed_length s = Some (- 1)"
    using lex_length_none [OF stands_start, of s 0] assms lex by (simp add: compressed_length_def)
  show ?thesis
  proof (cases "has_mem 0x20000004")
    case True
    have "compression_compress has_mem s =
        compress_loop s 0 False False (header_bytes 0xFFFFFFFF @ replicate (unat (0x20000004 :: u32) - 4) 0) 32"
      using True by (intro compress_run [OF len]) simp_all
    moreover have "compress_loop s 0 (None \<noteq> (None :: bool option)) False (header_bytes 0xFFFFFFFF @ replicate (unat (0x20000004 :: u32) - 4) 0) 32 = Some None"
      using assms(1,2) lex by (intro lex_compress_none stands_start) simp_all
    ultimately show ?thesis using len by simp
  next
    case False
    then show ?thesis using len by (simp add: compression_compress_def Let_def)
  qed
qed

lemma lower_case_only: "\<not> encodable None ''(F 1)''"
  by code_simp

theorem compression_rejects_witness:
  "compressed_length ''(F 1)'' = Some (- 1) \<and> compression_compress (\<lambda>n. True) ''(F 1)'' = Some None"
  by (rule compression_rejects [OF _ _ lower_case_only]) simp_all

text \<open>
  C14: \<open>compression_decompress\<close> does not look at the size of the buffer it is given beyond clearing it: with a
  buffer that is one or more characters too small for the text, it writes outside of the buffer.
\<close>

theorem decompress_overruns:
  assumes "NUL \<notin> set s" "length s < 2 ^ 28" "encodable None s" "dest_n < length (normalise s)" "\<forall>n. has_mem n"
  shows "\<exists>d. compression_compress has_mem s = Some (Some d) \<and> compression_decompress dest_n d = None"
proof -
  have "normalise s \<noteq> []" using assms(4) by auto
  then obtain its d where r: "lex None False s = Some its" "compression_compress has_mem s = Some (Some d)"
      "length d = size_bytes (length (items_bits its))" "read_header d = Some (of_nat (length (items_bits its)))"
      "take (length (items_bits its)) (drop 32 (bits_of d)) = items_bits its" "length (items_bits its) \<le> 8 * length s"
    using compression_compress_result [OF assms(1-3) _ assms(5)] by blast
  with decompress_result [OF r(1,4,5,3), of dest_n] assms(2,4) show ?thesis by auto
qed

theorem decompress_overruns_witness:
  "\<exists>d. compression_compress (\<lambda>n. True) sample_text = Some (Some d) \<and> compression_decompress 42 d = None"
  using decompress_overruns [of sample_text 42 "\<lambda>n. True"] sample_text_facts by simp

end
