(* ===== verification/Tokenizer.thy ===== *)
theory Tokenizer
  imports Compression "HOL-Library.Char_ord"
begin

text \<open>
  The tokeniser of \<open>src/tokpar.c\<close>: the character streams over a C string and over compressed text, and
  the recognisers of the tokens.

  A stream is a record of functions on its state, as the C struct of function pointers is. A C string
  is a HOL string whose final zero can be read and nothing behind it. \<open>malloc\<close> and \<open>strtod\<close> are
  parameters, the first told by whether a block of a given size can be had, the second by
  the float it gives for a text. The character tests are those of the C locale, and false for bytes from
  128 on. Integer literals wrap at 32 bits. The text of a token is part of the token, so the block that holds it in C
  and its \<open>free\<close> are not modelled.
\<close>

record 's tokenizer_char_stream =
  has_more :: "'s \<Rightarrow> bool option"
  get :: "'s \<Rightarrow> (char \<times> 's) option"
  peek :: "'s \<Rightarrow> nat \<Rightarrow> char option"
  drop_n :: "'s \<Rightarrow> nat \<Rightarrow> 's option"

record tok_env =
  te_malloc :: "nat \<Rightarrow> bool"
  te_strtod :: "string \<Rightarrow> FLOAT"

datatype token =
    TOKOPENPAR | TOKCLOSEPAR | TOKQUOTE
  | TOKSYMBOL string nat
  | TOKINT SINT | TOKUINT UINT | TOKBOXEDINT SINT | TOKBOXEDUINT UINT | TOKBOXEDFLOAT FLOAT
  | TOKSTRING string nat
  | TOKCHAR char
  | TOKBACKQUOTE | TOKCOMMA | TOKCOMMAAT | TOKENIZER_ERROR | TOKENIZER_END

subsection \<open>Punctuation\<close>

definition tok_openpar :: "'s tokenizer_char_stream \<Rightarrow> 's \<Rightarrow> (nat \<times> 's) option" where
  "tok_openpar S s = do {
     c \<leftarrow> peek S s 0;
     if c = CHR ''('' then do { s \<leftarrow> drop_n S s 1; Some (1, s) } else Some (0, s)
   }"

definition tok_closepar :: "'s tokenizer_char_stream \<Rightarrow> 's \<Rightarrow> (nat \<times> 's) option" where
  "tok_closepar S s = do {
     c \<leftarrow> peek S s 0;
     if c = CHR '')'' then do { s \<leftarrow> drop_n S s 1; Some (1, s) } else Some (0, s)
   }"

definition tok_quote :: "'s tokenizer_char_stream \<Rightarrow> 's \<Rightarrow> (nat \<times> 's) option" where
  "tok_quote S s = do {
     c \<leftarrow> peek S s 0;
     if c = CHR 0x27 then do { s \<leftarrow> drop_n S s 1; Some (1, s) } else Some (0, s)
   }"

definition tok_backquote :: "'s tokenizer_char_stream \<Rightarrow> 's \<Rightarrow> (nat \<times> 's) option" where
  "tok_backquote S s = do {
     c \<leftarrow> peek S s 0;
     if c = CHR 0x60 then do { s \<leftarrow> drop_n S s 1; Some (1, s) } else Some (0, s)
   }"

definition tok_commaat :: "'s tokenizer_char_stream \<Rightarrow> 's \<Rightarrow> (nat \<times> 's) option" where
  "tok_commaat S s = do {
     c \<leftarrow> peek S s 0;
     if c = CHR '','' then do {
       d \<leftarrow> peek S s 1;
       if d = CHR 0x40 then do { s \<leftarrow> drop_n S s 2; Some (2, s) } else Some (0, s)
     } else Some (0, s)
   }"

definition tok_comma :: "'s tokenizer_char_stream \<Rightarrow> 's \<Rightarrow> (nat \<times> 's) option" where
  "tok_comma S s = do {
     c \<leftarrow> peek S s 0;
     if c = CHR '','' then do { s \<leftarrow> drop_n S s 1; Some (1, s) } else Some (0, s)
   }"

subsection \<open>Symbols, strings and characters\<close>

definition symchar0 :: "char \<Rightarrow> bool" where
  "symchar0 c \<longleftrightarrow> c \<in> set ''abcdefghijklmnopqrstuvwxyzABCDEFGHIJKLMNOPQRSTUVWXYZ+-*/=<>''"

definition symchar :: "char \<Rightarrow> bool" where
  "symchar c \<longleftrightarrow> c \<in> set ''abcdefghijklmnopqrstuvwxyzABCDEFGHIJKLMNOPQRSTUVWXYZ0123456789+-*/=<>''"

definition tolower :: "char \<Rightarrow> char" where
  "tolower c = (if CHR ''A'' \<le> c \<and> c \<le> CHR ''Z'' then char_of (of_char c + 32 :: nat) else c)"

definition isgraph :: "char \<Rightarrow> bool" where
  "isgraph c \<longleftrightarrow> CHR 0x21 \<le> c \<and> c \<le> CHR 0x7E"

text \<open>\<open>while (test(peek(str,n))) n++\<close>\<close>

partial_function (option) scan :: "'s tokenizer_char_stream \<Rightarrow> 's \<Rightarrow> (char \<Rightarrow> bool) \<Rightarrow> nat \<Rightarrow> nat option" where
  "scan S s test n = Option.bind (peek S s n) (\<lambda>c. if test c then scan S s test (Suc n) else Some n)"

primrec get_chars :: "'s tokenizer_char_stream \<Rightarrow> 's \<Rightarrow> nat \<Rightarrow> (string \<times> 's) option" where
  "get_chars S s 0 = Some ([], s)"
| "get_chars S s (Suc n) = do {
     (c, s) \<leftarrow> get S s;
     (cs, s) \<leftarrow> get_chars S s n;
     Some (c # cs, s)
   }"

text \<open>The number of characters read, or -1, and the text of the token.\<close>

definition tok_symbol :: "tok_env \<Rightarrow> 's tokenizer_char_stream \<Rightarrow> 's \<Rightarrow> (int \<times> string \<times> 's) option" where
  "tok_symbol E S s = do {
     c \<leftarrow> peek S s 0;
     if \<not> symchar0 c then Some (0, [], s)
     else do {
       len \<leftarrow> scan S s symchar 1;
       if \<not> te_malloc E (len + 1) then Some (- 1, [], s)
       else do {
         (cs, s) \<leftarrow> get_chars S s len;
         Some (int len, map tolower cs, s)
       }
     }
   }"

text \<open>A string that is not closed gives 0, but its opening quote has been taken from the stream.\<close>

definition tok_string :: "tok_env \<Rightarrow> 's tokenizer_char_stream \<Rightarrow> 's \<Rightarrow> (int \<times> string \<times> 's) option" where
  "tok_string E S s = do {
     c \<leftarrow> peek S s 0;
     if c \<noteq> QUOTE_CHAR then Some (0, [], s)
     else do {
       (_, s) \<leftarrow> get S s;
       len \<leftarrow> scan S s (\<lambda>c. c \<noteq> NUL \<and> c \<noteq> QUOTE_CHAR) 0;
       c \<leftarrow> peek S s len;
       if c \<noteq> QUOTE_CHAR then Some (0, [], s)
       else if \<not> te_malloc E (len + 1) then Some (- 1, [], s)
       else do {
         (cs, s) \<leftarrow> get_chars S s len;
         (_, s) \<leftarrow> get S s;
         Some (int len + 2, cs, s)
       }
     }
   }"

text \<open>A chain of tests \<open>peek(str,n) == c\<^sub>0 && peek(str,n+1) == c\<^sub>1 && ...\<close>, which stops at the first difference.\<close>

primrec peeks :: "'s tokenizer_char_stream \<Rightarrow> 's \<Rightarrow> nat \<Rightarrow> string \<Rightarrow> bool option" where
  "peeks S s n [] = Some True"
| "peeks S s n (c # cs) = do {
     d \<leftarrow> peek S s n;
     if d = c then peeks S s (Suc n) cs else Some False
   }"

definition tok_char :: "'s tokenizer_char_stream \<Rightarrow> 's \<Rightarrow> (nat \<times> char \<times> 's) option" where
  "tok_char S s = do {
     newline \<leftarrow> peeks S s 0 (BACKSLASH # ''#newline'');
     if newline then do { s \<leftarrow> drop_n S s 9; Some (9, CHR 0x0A, s) }
     else do {
       hash \<leftarrow> peeks S s 0 [BACKSLASH, CHR ''#''];
       if hash then do {
         c \<leftarrow> peek S s 2;
         if isgraph c then do { s \<leftarrow> drop_n S s 3; Some (3, c, s) } else Some (0, NUL, s)
       } else Some (0, NUL, s)
     }
   }"

subsection \<open>Numbers\<close>

definition is_digit :: "char \<Rightarrow> bool" where
  "is_digit c \<longleftrightarrow> CHR ''0'' \<le> c \<and> c \<le> CHR ''9''"

definition digit :: "char \<Rightarrow> u32" where
  "digit c = of_nat (of_char c) - 48"

partial_function (option) scan_dec :: "'s tokenizer_char_stream \<Rightarrow> 's \<Rightarrow> nat \<Rightarrow> u32 \<Rightarrow> (nat \<times> u32) option" where
  "scan_dec S s n acc = Option.bind (peek S s n) (\<lambda>c.
     if is_digit c then scan_dec S s (Suc n) (acc * 10 + digit c) else Some (n, acc))"

definition tok_i :: "'s tokenizer_char_stream \<Rightarrow> 's \<Rightarrow> (nat \<times> SINT \<times> 's) option" where
  "tok_i S s = do {
     (n, acc) \<leftarrow> scan_dec S s 0 0;
     c \<leftarrow> peek S s n;
     if c = CHR ''U'' \<or> c = CHR ''u'' \<or> c = CHR ''.'' \<or> c = CHR ''I'' then Some (0, 0, s)
     else do { s \<leftarrow> drop_n S s n; Some (n, acc, s) }
   }"

definition tok_I :: "'s tokenizer_char_stream \<Rightarrow> 's \<Rightarrow> (nat \<times> SINT \<times> 's) option" where
  "tok_I S s = do {
     (n, acc) \<leftarrow> scan_dec S s 0 0;
     i32 \<leftarrow> peeks S s n ''i32'';
     if i32 then do { s \<leftarrow> drop_n S s (n + 3); Some (n + 3, acc, s) } else Some (0, 0, s)
   }"

definition tok_u :: "'s tokenizer_char_stream \<Rightarrow> 's \<Rightarrow> (nat \<times> UINT \<times> 's) option" where
  "tok_u S s = do {
     (n, acc) \<leftarrow> scan_dec S s 0 0;
     u28 \<leftarrow> peeks S s n ''u28'';
     if u28 then do { s \<leftarrow> drop_n S s (n + 3); Some (n + 3, acc, s) } else Some (0, 0, s)
   }"

definition is_low_hex :: "char \<Rightarrow> bool" where
  "is_low_hex c \<longleftrightarrow> CHR ''a'' \<le> c \<and> c \<le> CHR ''f''"

definition is_high_hex :: "char \<Rightarrow> bool" where
  "is_high_hex c \<longleftrightarrow> CHR ''A'' \<le> c \<and> c \<le> CHR ''F''"

definition hex_digit :: "char \<Rightarrow> u32" where
  "hex_digit c =
     (if is_low_hex c then 10 + (of_nat (of_char c) - 97)
      else if is_high_hex c then 10 + (of_nat (of_char c) - 65)
      else digit c)"

partial_function (option) scan_hex :: "'s tokenizer_char_stream \<Rightarrow> 's \<Rightarrow> nat \<Rightarrow> u32 \<Rightarrow> (nat \<times> u32) option" where
  "scan_hex S s n acc = Option.bind (peek S s n) (\<lambda>c.
     if is_digit c \<or> is_low_hex c \<or> is_high_hex c then scan_hex S s (Suc n) (acc * 16 + hex_digit c) else Some (n, acc))"

definition tok_U :: "'s tokenizer_char_stream \<Rightarrow> 's \<Rightarrow> (nat \<times> UINT \<times> 's) option" where
  "tok_U S s = do {
     c \<leftarrow> peek S s 0;
     hex \<leftarrow> (if c = CHR ''0'' then do { d \<leftarrow> peek S s 1; Some (d = CHR ''x'' \<or> d = CHR ''X'') } else Some False);
     if hex then do {
       (n, acc) \<leftarrow> scan_hex S s 2 0;
       s \<leftarrow> drop_n S s n;
       Some (n, acc, s)
     } else do {
       (n, acc) \<leftarrow> scan_dec S s 0 0;
       u32 \<leftarrow> peeks S s n ''u32'';
       if u32 then do { s \<leftarrow> drop_n S s (n + 3); Some (n + 3, acc, s) } else Some (0, 0, s)
     }
   }"

text \<open>Of a literal of more than 255 characters only the first 255 are taken from the stream.\<close>

definition tok_F :: "tok_env \<Rightarrow> 's tokenizer_char_stream \<Rightarrow> 's \<Rightarrow> (nat \<times> FLOAT \<times> 's) option" where
  "tok_F E S s = do {
     n \<leftarrow> scan S s is_digit 0;
     c \<leftarrow> peek S s n;
     if c \<noteq> CHR ''.'' then Some (0, 0, s)
     else do {
       let n = Suc n;
       c \<leftarrow> peek S s n;
       if \<not> is_digit c then Some (0, 0, s)
       else do {
         n \<leftarrow> scan S s is_digit n;
         let m = (if n > 255 then 255 else n);
         (fbuf, s) \<leftarrow> get_chars S s m;
         Some (n, te_strtod E fbuf, s)
       }
     }
   }"

subsection \<open>The next token\<close>

partial_function (option) skip_line :: "'s tokenizer_char_stream \<Rightarrow> 's \<Rightarrow> 's option" where
  "skip_line S s = Option.bind (has_more S s) (\<lambda>m.
     if m then Option.bind (peek S s 0) (\<lambda>c.
       if c \<noteq> CHR 0x0A then Option.bind (drop_n S s 1) (skip_line S) else Some s)
     else Some s)"

partial_function (option) clean_whitespace :: "'s tokenizer_char_stream \<Rightarrow> 's \<Rightarrow> 's option" where
  "clean_whitespace S s = Option.bind (peek S s 0) (\<lambda>c.
     if c = CHR '';'' then Option.bind (skip_line S s) (clean_whitespace S)
     else if isspace c then Option.bind (drop_n S s 1) (clean_whitespace S)
     else Some s)"

definition next_number :: "tok_env \<Rightarrow> 's tokenizer_char_stream \<Rightarrow> 's \<Rightarrow> (token \<times> 's) option" where
  "next_number E S s = do {
     (n, f, s) \<leftarrow> tok_F E S s;
     if n \<noteq> 0 then Some (TOKBOXEDFLOAT f, s)
     else do {
       (n, u, s) \<leftarrow> tok_U S s;
       if n \<noteq> 0 then Some (TOKBOXEDUINT u, s)
       else do {
         (n, u, s) \<leftarrow> tok_u S s;
         if n \<noteq> 0 then Some (TOKUINT u, s)
         else do {
           (n, i, s) \<leftarrow> tok_I S s;
           if n \<noteq> 0 then Some (TOKBOXEDINT i, s)
           else do {
             (n, i, s) \<leftarrow> tok_i S s;
             if n \<noteq> 0 then Some (TOKINT i, s) else Some (TOKENIZER_ERROR, s)
           }
         }
       }
     }
   }"

definition next_text :: "tok_env \<Rightarrow> 's tokenizer_char_stream \<Rightarrow> 's \<Rightarrow> (token \<times> 's) option" where
  "next_text E S s = do {
     (n, text, s) \<leftarrow> tok_symbol E S s;
     if n > 0 then Some (TOKSYMBOL text (nat n), s)
     else if n < 0 then Some (TOKENIZER_ERROR, s)
     else do {
       (n, c, s) \<leftarrow> tok_char S s;
       if n \<noteq> 0 then Some (TOKCHAR c, s)
       else do {
         (n, text, s) \<leftarrow> tok_string E S s;
         if n > 0 then Some (TOKSTRING text (nat (n - 2)), s)
         else if n < 0 then Some (TOKENIZER_ERROR, s)
         else next_number E S s
       }
     }
   }"

definition next_token :: "tok_env \<Rightarrow> 's tokenizer_char_stream \<Rightarrow> 's \<Rightarrow> (token \<times> 's) option" where
  "next_token E S s = do {
     m \<leftarrow> has_more S s;
     if \<not> m then Some (TOKENIZER_END, s)
     else do {
       s \<leftarrow> clean_whitespace S s;
       m \<leftarrow> has_more S s;
       if \<not> m then Some (TOKENIZER_END, s)
       else do {
         (n, s) \<leftarrow> tok_quote S s;
         if n \<noteq> 0 then Some (TOKQUOTE, s)
         else do {
           (n, s) \<leftarrow> tok_backquote S s;
           if n \<noteq> 0 then Some (TOKBACKQUOTE, s)
           else do {
             (n, s) \<leftarrow> tok_commaat S s;
             if n \<noteq> 0 then Some (TOKCOMMAAT, s)
             else do {
               (n, s) \<leftarrow> tok_comma S s;
               if n \<noteq> 0 then Some (TOKCOMMA, s)
               else do {
                 (n, s) \<leftarrow> tok_openpar S s;
                 if n \<noteq> 0 then Some (TOKOPENPAR, s)
                 else do {
                   (n, s) \<leftarrow> tok_closepar S s;
                   if n \<noteq> 0 then Some (TOKCLOSEPAR, s) else next_text E S s
                 }
               }
             }
           }
         }
       }
     }
   }"

subsection \<open>The stream over a C string\<close>

record tokenizer_state =
  ts_str :: string
  ts_pos :: nat

definition more_string :: "tokenizer_state \<Rightarrow> bool option" where
  "more_string s = do { c \<leftarrow> str_at (ts_str s) (ts_pos s); Some (c \<noteq> NUL) }"

definition get_string :: "tokenizer_state \<Rightarrow> (char \<times> tokenizer_state) option" where
  "get_string s = do { c \<leftarrow> str_at (ts_str s) (ts_pos s); Some (c, s\<lparr>ts_pos := ts_pos s + 1\<rparr>) }"

definition peek_string :: "tokenizer_state \<Rightarrow> nat \<Rightarrow> char option" where
  "peek_string s n = str_at (ts_str s) (ts_pos s + n)"

definition drop_string :: "tokenizer_state \<Rightarrow> nat \<Rightarrow> tokenizer_state option" where
  "drop_string s n = Some (s\<lparr>ts_pos := ts_pos s + n\<rparr>)"

definition string_stream :: "tokenizer_state tokenizer_char_stream" where
  "string_stream = \<lparr>has_more = more_string, get = get_string, peek = peek_string, drop_n = drop_string\<rparr>"

subsection \<open>The stream over compressed text\<close>

abbreviation (input) "DECOMP_BUFF_SIZE \<equiv> (32 :: nat)"

record tokenizer_compressed_state =
  tc_ds :: decomp_state
  tc_decomp_buff :: string
  tc_decomp_bytes :: int
  tc_buff_pos :: int

definition ds_left :: "decomp_state \<Rightarrow> bool" where
  "ds_left ds \<longleftrightarrow> dc_i ds < dc_compressed_bits ds + 32"

definition more_compressed :: "tokenizer_compressed_state \<Rightarrow> bool option" where
  "more_compressed s = Some (ds_left (tc_ds s) \<or> tc_buff_pos s < tc_decomp_bytes s)"

definition buffered_char :: "tokenizer_compressed_state \<Rightarrow> (char \<times> tokenizer_compressed_state) option" where
  "buffered_char s = do {
     c \<leftarrow> arr_get (tc_decomp_buff s) (nat (tc_buff_pos s));
     Some (c, s\<lparr>tc_buff_pos := tc_buff_pos s + 1\<rparr>)
   }"

definition get_compressed :: "tokenizer_compressed_state \<Rightarrow> (char \<times> tokenizer_compressed_state) option" where
  "get_compressed s =
     (if \<not> ds_left (tc_ds s) \<and> tc_buff_pos s \<ge> tc_decomp_bytes s then Some (NUL, s)
      else if tc_buff_pos s \<ge> tc_decomp_bytes s then do {
        (n, buff, ds) \<leftarrow> compression_decompress_incremental (tc_ds s) DECOMP_BUFF_SIZE;
        let s = s\<lparr>tc_ds := ds, tc_decomp_buff := buff\<rparr>;
        if n = 0 then Some (NUL, s)
        else buffered_char (s\<lparr>tc_decomp_bytes := n, tc_buff_pos := 0\<rparr>)
      } else buffered_char s)"

text \<open>The state is copied and put back after the characters have been read.\<close>

primrec peek_loop :: "tokenizer_compressed_state \<Rightarrow> nat \<Rightarrow> char option" where
  "peek_loop s 0 = map_option fst (get_compressed s)"
| "peek_loop s (Suc n) = do { (_, s) \<leftarrow> get_compressed s; peek_loop s n }"

definition peek_compressed :: "tokenizer_compressed_state \<Rightarrow> nat \<Rightarrow> char option" where
  "peek_compressed s n = peek_loop s n"

primrec drop_compressed :: "tokenizer_compressed_state \<Rightarrow> nat \<Rightarrow> tokenizer_compressed_state option" where
  "drop_compressed s 0 = Some s"
| "drop_compressed s (Suc n) = do { (_, s) \<leftarrow> get_compressed s; drop_compressed s n }"

definition compressed_stream :: "tokenizer_compressed_state tokenizer_char_stream" where
  "compressed_stream = \<lparr>has_more = more_compressed, get = get_compressed, peek = peek_compressed, drop_n = drop_compressed\<rparr>"

end
