(* ===== verification/Parser.thy ===== *)
theory Parser
  imports Tokenizer Fundamental QQ_Expand
begin

text \<open>
  The parser of \<open>src/tokpar.c\<close>: the recursive descent over tokens that builds expressions on the heap,
  interns symbols and stores string literals as arrays, and \<open>prelude_load\<close> of \<open>src/prelude.c\<close>.

  \<open>parse_sexp\<close> and \<open>parse_sexp_list\<close> call each other; they are one function on the two kinds of
  task. Their state is the record \<open>runtime\<close> and the state of the stream.
\<close>

definition rt_cons :: "runtime \<Rightarrow> VALUE \<Rightarrow> VALUE \<Rightarrow> (VALUE \<times> runtime) option" where
  "rt_cons rt a b = do { (v, h) \<leftarrow> cons (rt_heap rt) a b; Some (v, rt\<lparr>rt_heap := h\<rparr>) }"

definition is_rerror :: "VALUE \<Rightarrow> bool" where
  "is_rerror v \<longleftrightarrow> type_of v = VAL_TYPE_SYMBOL \<and> dec_sym v = DEF_REPR_RERROR"

definition parse_symbol :: "runtime \<Rightarrow> string \<Rightarrow> (VALUE \<times> runtime) option" where
  "parse_symbol rt text = do {
     found \<leftarrow> symrepr_lookup (rt_sym rt) (rt_mem rt) (cstr text);
     case found of
       Some sid \<Rightarrow> Some (enc_sym sid, rt)
     | None \<Rightarrow> do {
         (added, ss, m) \<leftarrow> symrepr_addsym (rt_sym rt) (rt_mem rt) (cstr text);
         let rt = rt\<lparr>rt_sym := ss, rt_mem := m\<rparr>;
         case added of
           Some sid \<Rightarrow> Some (enc_sym sid, rt)
         | None \<Rightarrow> Some (enc_sym DEF_REPR_RERROR, rt)
       }
   }"

text \<open>The result of \<open>heap_allocate_array\<close> is not looked at; when it fails, \<open>v\<close> has no value.\<close>

definition parse_string :: "runtime \<Rightarrow> string \<Rightarrow> nat \<Rightarrow> (VALUE \<times> runtime) option" where
  "parse_string rt text text_len = do {
     (_, r, h, m) \<leftarrow> heap_allocate_array (rt_heap rt) (rt_mem rt) (of_nat text_len + 1) VAL_TYPE_CHAR;
     v \<leftarrow> r;
     arr \<leftarrow> car h v;
     m \<leftarrow> write_bytes m (arr + 8) (replicate (text_len + 1) 0);
     m \<leftarrow> write_bytes m (arr + 8) (take text_len (cstr text));
     Some (v, rt\<lparr>rt_heap := h, rt_mem := m\<rparr>)
   }"

definition parse_boxed :: "runtime \<Rightarrow> UINT \<Rightarrow> UINT \<Rightarrow> LTYPE \<Rightarrow> (VALUE \<times> runtime) option" where
  "parse_boxed rt w tag type = do { (v, rt) \<leftarrow> rt_cons rt w (enc_sym tag); Some (set_ptr_type v type, rt) }"

text \<open>The list of a symbol and an expression, as read for a quote, a comma and a comma-at.\<close>

definition wrap_sexp :: "runtime \<Rightarrow> UINT \<Rightarrow> VALUE \<Rightarrow> (VALUE \<times> runtime) option" where
  "wrap_sexp rt sid v =
     (if is_rerror v then Some (v, rt)
      else do {
        (l, rt) \<leftarrow> rt_cons rt v (enc_sym DEF_REPR_NIL);
        rt_cons rt (enc_sym sid) l
      })"

definition expand_sexp :: "runtime \<Rightarrow> VALUE \<Rightarrow> (VALUE \<times> runtime) option" where
  "expand_sexp rt v =
     (if is_rerror v then Some (v, rt)
      else do { (e, h) \<leftarrow> qq_expand (rt_heap rt) v; Some (e, rt\<lparr>rt_heap := h\<rparr>) })"

definition list_sexp :: "runtime \<Rightarrow> VALUE \<Rightarrow> VALUE \<Rightarrow> (VALUE \<times> runtime) option" where
  "list_sexp rt hd_v tl_v =
     (if is_rerror hd_v \<or> is_rerror tl_v then Some (enc_sym DEF_REPR_RERROR, rt) else rt_cons rt hd_v tl_v)"

text \<open>The tokens that are an expression on their own; \<open>None\<close> for the others.\<close>

definition parse_atom :: "runtime \<Rightarrow> token \<Rightarrow> (VALUE \<times> runtime) option option" where
  "parse_atom rt tok =
     (case tok of
        TOKSYMBOL text n \<Rightarrow> Some (parse_symbol rt text)
      | TOKSTRING text n \<Rightarrow> Some (parse_string rt text n)
      | TOKINT i \<Rightarrow> Some (Some (enc_i i, rt))
      | TOKUINT u \<Rightarrow> Some (Some (enc_u u, rt))
      | TOKCHAR c \<Rightarrow> Some (Some (enc_char (of_char c), rt))
      | TOKBOXEDINT i \<Rightarrow> Some (parse_boxed rt i DEF_REPR_BOXED_I_TYPE PTR_TYPE_BOXED_I)
      | TOKBOXEDUINT u \<Rightarrow> Some (parse_boxed rt u DEF_REPR_BOXED_U_TYPE PTR_TYPE_BOXED_U)
      | TOKBOXEDFLOAT f \<Rightarrow> Some (parse_boxed rt f DEF_REPR_BOXED_F_TYPE PTR_TYPE_BOXED_F)
      | TOKENIZER_END \<Rightarrow> Some (Some (enc_sym DEF_REPR_RERROR, rt))
      | TOKENIZER_ERROR \<Rightarrow> Some (Some (enc_sym DEF_REPR_RERROR, rt))
      | TOKCLOSEPAR \<Rightarrow> Some (Some (enc_sym DEF_REPR_RERROR, rt))
      | _ \<Rightarrow> None)"

datatype parse_task = Sexp token | Sexp_List token

partial_function (option) parse_exp ::
  "tok_env \<Rightarrow> 's tokenizer_char_stream \<Rightarrow> parse_task \<Rightarrow> runtime \<Rightarrow> 's \<Rightarrow> (VALUE \<times> runtime \<times> 's) option" where
  "parse_exp E S task rt s =
     (case task of
        Sexp tok \<Rightarrow>
          (case parse_atom rt tok of
             Some r \<Rightarrow> map_option (\<lambda>(v, rt). (v, rt, s)) r
           | None \<Rightarrow>
               Option.bind (next_token E S s) (\<lambda>(t, s).
                 if tok = TOKOPENPAR then parse_exp E S (Sexp_List t) rt s
                 else Option.bind (parse_exp E S (Sexp t) rt s) (\<lambda>(v, rt, s).
                   map_option (\<lambda>(v, rt). (v, rt, s))
                     (if tok = TOKQUOTE then wrap_sexp rt DEF_REPR_QUOTE v
                      else if tok = TOKBACKQUOTE then expand_sexp rt v
                      else if tok = TOKCOMMAAT then wrap_sexp rt DEF_REPR_COMMAAT v
                      else wrap_sexp rt DEF_REPR_COMMA v))))
      | Sexp_List tok \<Rightarrow>
          if tok = TOKENIZER_END \<or> tok = TOKENIZER_ERROR then Some (enc_sym DEF_REPR_RERROR, rt, s)
          else if tok = TOKCLOSEPAR then Some (enc_sym DEF_REPR_NIL, rt, s)
          else
            Option.bind (parse_exp E S (Sexp tok) rt s) (\<lambda>(hd_v, rt, s).
            Option.bind (next_token E S s) (\<lambda>(t, s).
            Option.bind (parse_exp E S (Sexp_List t) rt s) (\<lambda>(tl_v, rt, s).
              map_option (\<lambda>(v, rt). (v, rt, s)) (list_sexp rt hd_v tl_v)))))"

definition parse_sexp :: "tok_env \<Rightarrow> 's tokenizer_char_stream \<Rightarrow> token \<Rightarrow> runtime \<Rightarrow> 's \<Rightarrow> (VALUE \<times> runtime \<times> 's) option" where
  "parse_sexp E S tok rt s = parse_exp E S (Sexp tok) rt s"

definition parse_sexp_list :: "tok_env \<Rightarrow> 's tokenizer_char_stream \<Rightarrow> token \<Rightarrow> runtime \<Rightarrow> 's \<Rightarrow> (VALUE \<times> runtime \<times> 's) option" where
  "parse_sexp_list E S tok rt s = parse_exp E S (Sexp_List tok) rt s"

partial_function (option) parse_program ::
  "tok_env \<Rightarrow> 's tokenizer_char_stream \<Rightarrow> runtime \<Rightarrow> 's \<Rightarrow> (VALUE \<times> runtime) option" where
  "parse_program E S rt s =
     Option.bind (next_token E S s) (\<lambda>(tok, s).
       if tok = TOKENIZER_ERROR then Some (enc_sym DEF_REPR_RERROR, rt)
       else if tok = TOKENIZER_END then Some (enc_sym DEF_REPR_NIL, rt)
       else
         Option.bind (parse_sexp E S tok rt s) (\<lambda>(hd_v, rt, s).
         Option.bind (parse_program E S rt s) (\<lambda>(tl_v, rt).
           rt_cons rt hd_v tl_v)))"

definition tokpar_parse :: "tok_env \<Rightarrow> runtime \<Rightarrow> string \<Rightarrow> (VALUE \<times> runtime) option" where
  "tokpar_parse E rt str = parse_program E string_stream rt \<lparr>ts_str = str, ts_pos = 0\<rparr>"

definition tokpar_parse_compressed :: "tok_env \<Rightarrow> runtime \<Rightarrow> 8 word list \<Rightarrow> (VALUE \<times> runtime) option" where
  "tokpar_parse_compressed E rt bytes = do {
     ds \<leftarrow> compression_init_state bytes;
     parse_program E compressed_stream rt
       \<lparr>tc_ds = ds, tc_decomp_buff = replicate DECOMP_BUFF_SIZE NUL, tc_decomp_bytes = 0, tc_buff_pos = 0\<rparr>
   }"

text \<open>The text of the prelude is a file that the build generates.\<close>

definition prelude_load :: "tok_env \<Rightarrow> string \<Rightarrow> runtime \<Rightarrow> (VALUE \<times> runtime) option" where
  "prelude_load E prelude rt = tokpar_parse E rt prelude"

end
