(* ===== verification/Token_Stream.thy ===== *)
theory Token_Stream
  imports Tokenizer
begin

text \<open>
  What the tokeniser of \<open>src/tokpar.c\<close> needs of a character stream, as a locale: the stream delivers a text
  character by character, with a zero after its end. In the locale every recogniser is shown to do on the
  stream what it does on the plain list of characters, which is the reference stream \<open>text_stream\<close>.
\<close>

definition text_stream :: "string tokenizer_char_stream" where
  "text_stream =
     \<lparr>has_more = (\<lambda>t. Some (t \<noteq> [])),
      get = (\<lambda>t. case t of [] \<Rightarrow> None | c # cs \<Rightarrow> Some (c, cs)),
      peek = str_at,
      drop_n = (\<lambda>t n. if n \<le> length t then Some (drop n t) else None)\<rparr>"

lemma text_stream_simps [simp]:
  "has_more text_stream t = Some (t \<noteq> [])" "get text_stream [] = None" "get text_stream (c # cs) = Some (c, cs)"
  "peek text_stream t n = str_at t n" "drop_n text_stream t n = (if n \<le> length t then Some (drop n t) else None)"
  by (simp_all add: text_stream_def)

subsection \<open>One computation follows another\<close>

definition sim :: "('a \<Rightarrow> 'b \<Rightarrow> bool) \<Rightarrow> 'a option \<Rightarrow> 'b option \<Rightarrow> bool" where
  "sim Q p q \<longleftrightarrow> (\<forall>x. p = Some x \<longrightarrow> (\<exists>y. q = Some y \<and> Q x y))"

lemma sim_Some: "sim Q (Some x) (Some y) \<longleftrightarrow> Q x y"
  by (simp add: sim_def)

lemma sim_None [simp]: "sim Q None q"
  by (simp add: sim_def)

lemma simD: "sim Q p q \<Longrightarrow> p = Some x \<Longrightarrow> \<exists>y. q = Some y \<and> Q x y"
  by (simp add: sim_def)

lemma sim_antisym: "sim (=) p q \<Longrightarrow> sim (=) q p \<Longrightarrow> p = q"
  by (cases p; cases q) (auto simp: sim_def)

lemma sim_bind: "sim Q p q \<Longrightarrow> (\<And>x y. Q x y \<Longrightarrow> sim Q' (f x) (g y)) \<Longrightarrow> sim Q' (Option.bind p f) (Option.bind q g)"
  by (auto simp: sim_def bind_eq_Some_conv)

lemma sim_bind_eq: "sim (=) p q \<Longrightarrow> (\<And>x. sim Q' (f x) (g x)) \<Longrightarrow> sim Q' (Option.bind p f) (Option.bind q g)"
  by (erule sim_bind) auto

lemma sim_if: "(b \<Longrightarrow> sim Q p q) \<Longrightarrow> (\<not> b \<Longrightarrow> sim Q p' q') \<Longrightarrow> sim Q (if b then p else p') (if b then q else q')"
  by simp

definition with_state :: "('s \<Rightarrow> 't \<Rightarrow> bool) \<Rightarrow> 'a \<times> 's \<Rightarrow> 'a \<times> 't \<Rightarrow> bool" where
  "with_state R = (\<lambda>(a, s) (b, t). a = b \<and> R s t)"

definition with_state2 :: "('s \<Rightarrow> 't \<Rightarrow> bool) \<Rightarrow> 'a \<times> 'b \<times> 's \<Rightarrow> 'a \<times> 'b \<times> 't \<Rightarrow> bool" where
  "with_state2 R = (\<lambda>(a, b, s) (a', b', t). a = a' \<and> b = b' \<and> R s t)"

lemma with_state_simps [simp]:
  "with_state R (a, s) (b, t) \<longleftrightarrow> a = b \<and> R s t" "with_state2 R (a, x, s) (b, y, t) \<longleftrightarrow> a = b \<and> x = y \<and> R s t"
  by (simp_all add: with_state_def with_state2_def)

lemma sim_bind_state:
  "sim (with_state R) p q \<Longrightarrow> (\<And>a s t. R s t \<Longrightarrow> sim Q (f a s) (g a t)) \<Longrightarrow>
     sim Q (Option.bind p (case_prod f)) (Option.bind q (case_prod g))"
  by (erule sim_bind) (auto simp: with_state_def)

lemma sim_bind_state2:
  "sim (with_state2 R) p q \<Longrightarrow> (\<And>a b s t. R s t \<Longrightarrow> sim Q (f a b s) (g a b t)) \<Longrightarrow>
     sim Q (Option.bind p (\<lambda>(a, b, s). f a b s)) (Option.bind q (\<lambda>(a, b, t). g a b t))"
  by (erule sim_bind) (auto simp: with_state2_def)

lemma sim_bind_pair:
  "sim (=) p q \<Longrightarrow> (\<And>a b. sim Q (f a b) (g a b)) \<Longrightarrow> sim Q (Option.bind p (case_prod f)) (Option.bind q (case_prod g))"
  by (erule sim_bind) auto

subsection \<open>The contract of a stream\<close>

definition is_hex :: "char \<Rightarrow> bool" where
  "is_hex c \<longleftrightarrow> is_digit c \<or> is_low_hex c \<or> is_high_hex c"

locale char_stream =
  fixes S :: "'s tokenizer_char_stream" and delivers :: "string \<Rightarrow> 's \<Rightarrow> bool"
  assumes more_law: "delivers t s \<Longrightarrow> has_more S s = Some (t \<noteq> [])"
    and get_law: "delivers (c # cs) s \<Longrightarrow> \<exists>s'. get S s = Some (c, s') \<and> delivers cs s'"
    and peek_law: "delivers t s \<Longrightarrow> n \<le> length t \<Longrightarrow> peek S s n = str_at t n"
    and nul_law: "delivers t s \<Longrightarrow> NUL \<notin> set t"
    and drop_law: "delivers t s \<Longrightarrow> n \<le> length t \<Longrightarrow> \<exists>s'. drop_n S s n = Some s' \<and> delivers (drop n t) s'"
begin

lemma sim_more: "delivers t s \<Longrightarrow> sim (=) (has_more text_stream t) (has_more S s)"
  using more_law by (simp add: sim_def)

lemma sim_peek: "delivers t s \<Longrightarrow> sim (=) (peek text_stream t n) (peek S s n)"
  using peek_law by (auto simp: sim_def str_at_def split: if_splits)

lemma sim_get: "delivers t s \<Longrightarrow> sim (with_state delivers) (get text_stream t) (get S s)"
proof (cases t)
  case (Cons c cs)
  assume "delivers t s"
  with Cons get_law [of c cs s] show ?thesis by (auto simp: sim_def)
qed (simp add: sim_def)

lemma sim_drop: "delivers t s \<Longrightarrow> sim delivers (drop_n text_stream t n) (drop_n S s n)"
  using drop_law by (auto simp: sim_def)

lemmas sim_ops = sim_bind_eq [OF sim_more] sim_bind_eq [OF sim_peek] sim_bind_state [OF sim_get] sim_bind [OF sim_drop] sim_if

text \<open>The loops over the stream, which end at a zero at the latest.\<close>

lemma scan_law:
  assumes "delivers t s" and "\<not> test NUL" and "n \<le> length (t)"
  shows "scan S s test n = Some (n + length (takeWhile test (drop n (t))))"
  using assms(3)
proof (induction "length (t) - n" arbitrary: n)
  case 0
  then show ?case using peek_law [OF assms(1), of n] assms(2) by (subst scan.simps) (simp add: str_at_def)
next
  case (Suc k)
  then have n: "n < length (t)" by linarith
  then have "drop n (t) = t ! n # drop (Suc n) (t)" by (simp add: Cons_nth_drop_Suc)
  then show ?case
    using Suc.hyps(1) [of "Suc n"] Suc.hyps(2) n peek_law [OF assms(1), of n] by (subst scan.simps) (simp add: str_at_def)
qed

lemma scan_dec_law:
  assumes "delivers t s" and "n \<le> length (t)"
  shows "scan_dec S s n acc = Some (n + length (takeWhile is_digit (drop n (t))),
    foldl (\<lambda>a c. a * 10 + digit c) acc (takeWhile is_digit (drop n (t))))"
  using assms(2)
proof (induction "length (t) - n" arbitrary: n acc)
  case 0
  then show ?case using peek_law [OF assms(1), of n] by (subst scan_dec.simps) (simp add: str_at_def is_digit_def less_eq_char_def)
next
  case (Suc k)
  then have n: "n < length (t)" by linarith
  then have "drop n (t) = t ! n # drop (Suc n) (t)" by (simp add: Cons_nth_drop_Suc)
  then show ?case
    using Suc.hyps(1) [of "Suc n"] Suc.hyps(2) n peek_law [OF assms(1), of n] by (subst scan_dec.simps) (simp add: str_at_def)
qed

lemma scan_hex_law:
  assumes "delivers t s" and "n \<le> length (t)"
  shows "scan_hex S s n acc = Some (n + length (takeWhile is_hex (drop n (t))),
    foldl (\<lambda>a c. a * 16 + hex_digit c) acc (takeWhile is_hex (drop n (t))))"
  using assms(2)
proof (induction "length (t) - n" arbitrary: n acc)
  case 0
  then show ?case using peek_law [OF assms(1), of n]
    by (subst scan_hex.simps) (simp add: str_at_def is_digit_def is_low_hex_def is_high_hex_def less_eq_char_def)
next
  case (Suc k)
  then have n: "n < length (t)" by linarith
  then have "drop n (t) = t ! n # drop (Suc n) (t)" by (simp add: Cons_nth_drop_Suc)
  then show ?case
    using Suc.hyps(1) [of "Suc n"] Suc.hyps(2) n peek_law [OF assms(1), of n]
    by (subst scan_hex.simps) (simp add: str_at_def is_hex_def)
qed

lemma skip_line_law: "delivers t s \<Longrightarrow> \<exists>s'. skip_line S s = Some s' \<and> delivers (dropWhile (\<lambda>c. c \<noteq> CHR 0x0A) t) s'"
proof (induction t arbitrary: s)
  case Nil
  then show ?case using more_law [of "[]" s] by (subst skip_line.simps) simp
next
  case (Cons c cs)
  note ops = more_law [OF Cons.prems] peek_law [OF Cons.prems, of 0]
  show ?case
  proof (cases "c = CHR 0x0A")
    case True
    then show ?thesis using ops Cons.prems by (subst skip_line.simps) (simp add: str_at_def)
  next
    case False
    obtain s' where s': "drop_n S s 1 = Some s'" "delivers cs s'" using drop_law [OF Cons.prems, of 1] by auto
    then show ?thesis using ops Cons.IH [OF s'(2)] False by (subst skip_line.simps) (simp add: str_at_def)
  qed
qed

end

text \<open>White space and comments in front of a token.\<close>

function trim :: "string \<Rightarrow> string" where
  "trim [] = []"
| "trim (c # cs) = (if c = CHR '';'' then trim (dropWhile (\<lambda>c. c \<noteq> CHR 0x0A) cs) else if isspace c then trim cs else c # cs)"
  by pat_completeness auto

termination
  by (relation "measure length") (auto simp: le_imp_less_Suc length_dropWhile_le)

context char_stream
begin

lemma clean_whitespace_law: "delivers t s \<Longrightarrow> \<exists>s'. clean_whitespace S s = Some s' \<and> delivers (trim t) s'"
proof (induction t arbitrary: s rule: trim.induct)
  case 1
  then show ?case using peek_law [of "[]" s 0] by (subst clean_whitespace.simps) (simp add: str_at_def isspace_def)
next
  case (2 c cs)
  note ok = 2(3)
  have peek: "peek S s 0 = Some c" using peek_law [OF ok, of 0] by (simp add: str_at_def)
  consider "c = CHR '';''" | "c \<noteq> CHR '';''" "isspace c" | "c \<noteq> CHR '';''" "\<not> isspace c" by blast
  then show ?case
  proof cases
    case 1
    obtain s' where "skip_line S s = Some s'" "delivers (dropWhile (\<lambda>c. c \<noteq> CHR 0x0A) cs) s'"
      using skip_line_law [OF ok] 1 by auto
    then show ?thesis using 2(1) [OF 1, of s'] peek 1 by (subst clean_whitespace.simps) simp
  next
    case c: 2
    obtain s' where "drop_n S s 1 = Some s'" "delivers cs s'" using drop_law [OF ok, of 1] by auto
    then show ?thesis using 2(2) [OF c, of s'] peek c by (subst clean_whitespace.simps) simp
  next
    case 3
    then show ?thesis using peek ok by (subst clean_whitespace.simps) simp
  qed
qed

end

subsection \<open>The recognisers on a stream and on its text\<close>

interpretation plain: char_stream text_stream "\<lambda>t t'. t' = t \<and> NUL \<notin> set t"
proof unfold_locales
  fix t t' :: string and n
  assume "t' = t \<and> NUL \<notin> set t" "n \<le> length t"
  then show "\<exists>s'. drop_n text_stream t' n = Some s' \<and> s' = drop n t \<and> NUL \<notin> set (drop n t)" using set_drop_subset [of n t] by auto
qed auto

context char_stream
begin

lemma sim_scan: "delivers t s \<Longrightarrow> \<not> test NUL \<Longrightarrow> sim (=) (scan text_stream t test n) (scan S s test n)"
proof (cases "n \<le> length t")
  case True
  assume "delivers t s" "\<not> test NUL"
  then show ?thesis using True plain.scan_law [of t t test n] scan_law [of t s test n] nul_law by (simp add: sim_def)
next
  case False
  then show ?thesis by (subst (1) scan.simps) (simp add: str_at_def)
qed

lemma sim_scan_dec: "delivers t s \<Longrightarrow> sim (=) (scan_dec text_stream t n acc) (scan_dec S s n acc)"
proof (cases "n \<le> length t")
  case True
  assume "delivers t s"
  then show ?thesis using True plain.scan_dec_law [of t t n acc] scan_dec_law [of t s n acc] nul_law by (simp add: sim_def)
next
  case False
  then show ?thesis by (subst (1) scan_dec.simps) (simp add: str_at_def)
qed

lemma sim_scan_hex: "delivers t s \<Longrightarrow> sim (=) (scan_hex text_stream t n acc) (scan_hex S s n acc)"
proof (cases "n \<le> length t")
  case True
  assume "delivers t s"
  then show ?thesis using True plain.scan_hex_law [of t t n acc] scan_hex_law [of t s n acc] nul_law by (simp add: sim_def)
next
  case False
  then show ?thesis by (subst (1) scan_hex.simps) (simp add: str_at_def)
qed

lemma sim_get_chars: "delivers t s \<Longrightarrow> sim (with_state delivers) (get_chars text_stream t n) (get_chars S s n)"
proof (induction n arbitrary: t s)
  case (Suc n)
  then show ?case
    unfolding get_chars.simps by (intro sim_bind_state [OF sim_get] sim_bind_state [OF Suc.IH]) (simp_all add: sim_Some)
qed (simp add: sim_Some)

lemma sim_peeks: "delivers t s \<Longrightarrow> sim (=) (peeks text_stream t n cs) (peeks S s n cs)"
proof (induction cs arbitrary: n)
  case (Cons c cs)
  then show ?case unfolding peeks.simps by (intro sim_ops) (simp_all add: sim_Some)
qed (simp add: sim_Some)

lemma sim_clean_whitespace: "delivers t s \<Longrightarrow> sim delivers (clean_whitespace text_stream t) (clean_whitespace S s)"
  using plain.clean_whitespace_law [of t t] clean_whitespace_law [of t s] nul_law [of t s] by (auto simp: sim_def)

lemmas sim_loops = sim_bind_eq [OF sim_scan] sim_bind_pair [OF sim_scan_dec] sim_bind_pair [OF sim_scan_hex]
  sim_bind_state [OF sim_get_chars] sim_bind_eq [OF sim_peeks] sim_bind [OF sim_clean_whitespace]

lemma sim_punctuation:
  assumes "delivers t s"
  shows "sim (with_state delivers) (tok_openpar text_stream t) (tok_openpar S s)"
    "sim (with_state delivers) (tok_closepar text_stream t) (tok_closepar S s)"
    "sim (with_state delivers) (tok_quote text_stream t) (tok_quote S s)"
    "sim (with_state delivers) (tok_backquote text_stream t) (tok_backquote S s)"
    "sim (with_state delivers) (tok_commaat text_stream t) (tok_commaat S s)"
    "sim (with_state delivers) (tok_comma text_stream t) (tok_comma S s)"
  unfolding tok_openpar_def tok_closepar_def tok_quote_def tok_backquote_def tok_commaat_def tok_comma_def
  by (intro sim_ops; use assms in \<open>simp add: sim_Some\<close>)+

lemma sim_tok_symbol: "delivers t s \<Longrightarrow> sim (with_state2 delivers) (tok_symbol E text_stream t) (tok_symbol E S s)"
  unfolding tok_symbol_def by (intro sim_ops sim_loops) (simp_all add: sim_Some symchar_def)

lemma sim_tok_string: "delivers t s \<Longrightarrow> sim (with_state2 delivers) (tok_string E text_stream t) (tok_string E S s)"
  unfolding tok_string_def by (intro sim_ops sim_loops) (simp_all add: sim_Some)

lemma sim_tok_char: "delivers t s \<Longrightarrow> sim (with_state2 delivers) (tok_char text_stream t) (tok_char S s)"
  unfolding tok_char_def by (intro sim_ops sim_loops) (simp_all add: sim_Some)

lemma sim_tok_numbers:
  assumes "delivers t s"
  shows "sim (with_state2 delivers) (tok_i text_stream t) (tok_i S s)"
    "sim (with_state2 delivers) (tok_I text_stream t) (tok_I S s)"
    "sim (with_state2 delivers) (tok_u text_stream t) (tok_u S s)"
  unfolding tok_i_def tok_I_def tok_u_def by (intro sim_ops sim_loops; use assms in \<open>simp add: sim_Some\<close>)+

lemma sim_tok_U: "delivers t s \<Longrightarrow> sim (with_state2 delivers) (tok_U text_stream t) (tok_U S s)"
  unfolding tok_U_def by (intro sim_ops sim_loops sim_bind_eq) (simp_all add: sim_Some)

lemma sim_tok_F: "delivers t s \<Longrightarrow> sim (with_state2 delivers) (tok_F E text_stream t) (tok_F E S s)"
  unfolding tok_F_def Let_def by (intro sim_ops sim_loops) (simp_all add: sim_Some is_digit_def less_eq_char_def)

lemmas sim_toks = sim_punctuation [THEN sim_bind_state] sim_tok_symbol [THEN sim_bind_state2] sim_tok_string [THEN sim_bind_state2]
  sim_tok_char [THEN sim_bind_state2] sim_tok_numbers [THEN sim_bind_state2] sim_tok_U [THEN sim_bind_state2] sim_tok_F [THEN sim_bind_state2]

lemma sim_next_number: "delivers t s \<Longrightarrow> sim (with_state delivers) (next_number E text_stream t) (next_number E S s)"
  unfolding next_number_def by (intro sim_if sim_toks) (simp_all add: sim_Some)

lemma sim_next_text: "delivers t s \<Longrightarrow> sim (with_state delivers) (next_text E text_stream t) (next_text E S s)"
  unfolding next_text_def by (intro sim_if sim_toks sim_next_number) (simp_all add: sim_Some)

lemma sim_next_token: "delivers t s \<Longrightarrow> sim (with_state delivers) (next_token E text_stream t) (next_token E S s)"
  unfolding next_token_def by (intro sim_ops sim_loops sim_toks sim_next_text) (simp_all add: sim_Some)

end

end
