(* ===== verification/Token_Total.thy ===== *)
theory Token_Total
  imports Token_Stream "HOL-Library.Sublist"
begin

text \<open>
  The tokeniser of \<open>src/tokpar.c\<close> on plain text: every recogniser returns, reads at most the zero behind
  the text, and leaves a suffix of the text; \<open>next_token\<close> takes at least one character for
  every token other than the end and the error.
\<close>

text \<open>An environment in which every \<open>malloc\<close> of the tokeniser succeeds.\<close>

definition mallocs :: "tok_env \<Rightarrow> bool" where
  "mallocs E \<longleftrightarrow> (\<forall>n. te_malloc E n)"

definition nul_free :: "string \<Rightarrow> bool" where
  "nul_free t \<longleftrightarrow> NUL \<notin> set t"

lemma nul_free_suffix: "nul_free t \<Longrightarrow> suffix t' t \<Longrightarrow> nul_free t'"
  by (auto simp: nul_free_def suffix_def)

text \<open>What a recogniser leaves: a suffix of the text, and a shorter one when it has found something.\<close>

definition leaves :: "string \<Rightarrow> bool \<Rightarrow> string \<Rightarrow> bool" where
  "leaves t found t' \<longleftrightarrow> suffix t' t \<and> (found \<longrightarrow> length t' < length t)"

lemma leaves_refl [simp]: "leaves t False t"
  by (simp add: leaves_def)

lemma leaves_drop [simp]: "leaves t found (drop n t) \<longleftrightarrow> (found \<longrightarrow> 0 < n \<and> t \<noteq> [])"
  by (auto simp: leaves_def suffix_drop)

lemma leaves_trans: "leaves t b t' \<Longrightarrow> leaves t' found t'' \<Longrightarrow> leaves t found t''"
  by (auto simp: leaves_def dest: suffix_length_le suffix_order.trans)

lemma str_at_some: "n \<le> length t \<Longrightarrow> \<exists>c. str_at t n = Some c"
  by (simp add: str_at_def)

lemma str_at_charD: "str_at t n = Some c \<Longrightarrow> c \<noteq> NUL \<Longrightarrow> n < length t \<and> t ! n = c"
  by (auto simp: str_at_def split: if_splits)

lemma str_at_first: "str_at t 0 = Some c \<Longrightarrow> c \<noteq> NUL \<Longrightarrow> \<exists>cs. t = c # cs"
  by (cases t) (auto simp: str_at_def)

lemma peeks_text: "n \<le> length t \<Longrightarrow> NUL \<notin> set cs \<Longrightarrow> peeks text_stream t n cs = Some (take (length cs) (drop n t) = cs)"
proof (induction cs arbitrary: n)
  case (Cons c cs)
  show ?case
  proof (cases "n < length t")
    case True
    then have "drop n t = t ! n # drop (Suc n) t" by (simp add: Cons_nth_drop_Suc)
    with True Cons show ?thesis by (simp add: str_at_def)
  next
    case False
    with Cons.prems show ?thesis by (auto simp: str_at_def)
  qed
qed simp

lemma get_chars_text: "n \<le> length t \<Longrightarrow> get_chars text_stream t n = Some (take n t, drop n t)"
proof (induction n arbitrary: t)
  case (Suc n)
  then show ?case by (cases t) auto
qed simp

lemma scan_text:
  "nul_free t \<Longrightarrow> \<not> test NUL \<Longrightarrow> n \<le> length t \<Longrightarrow> scan text_stream t test n = Some (n + length (takeWhile test (drop n t)))"
  using plain.scan_law by (simp add: nul_free_def)

lemma scan_dec_text:
  "nul_free t \<Longrightarrow> n \<le> length t \<Longrightarrow> scan_dec text_stream t n acc =
     Some (n + length (takeWhile is_digit (drop n t)), foldl (\<lambda>a c. a * 10 + digit c) acc (takeWhile is_digit (drop n t)))"
  using plain.scan_dec_law by (simp add: nul_free_def)

lemma takeWhile_bound: "n \<le> length t \<Longrightarrow> n + length (takeWhile test (drop n t)) \<le> length t"
  using length_takeWhile_le [of test "drop n t"] by simp

subsection \<open>Recognisers\<close>

lemma punctuation_text:
  "\<exists>t'. tok_quote text_stream t = Some (of_bool (t' \<noteq> t), t') \<and> leaves t (t' \<noteq> t) t'"
  "\<exists>t'. tok_backquote text_stream t = Some (of_bool (t' \<noteq> t), t') \<and> leaves t (t' \<noteq> t) t'"
  "\<exists>t'. tok_comma text_stream t = Some (of_bool (t' \<noteq> t), t') \<and> leaves t (t' \<noteq> t) t'"
  "\<exists>t'. tok_openpar text_stream t = Some (of_bool (t' \<noteq> t), t') \<and> leaves t (t' \<noteq> t) t'"
  "\<exists>t'. tok_closepar text_stream t = Some (of_bool (t' \<noteq> t), t') \<and> leaves t (t' \<noteq> t) t'"
  by (cases t; simp add: tok_quote_def tok_backquote_def tok_comma_def tok_openpar_def tok_closepar_def str_at_def leaves_def suffix_ConsI)+

lemma commaat_text: "\<exists>n t'. tok_commaat text_stream t = Some (n, t') \<and> leaves t (n \<noteq> 0) t'"
proof (cases t)
  case (Cons c cs)
  then show ?thesis by (cases cs) (auto simp: tok_commaat_def str_at_def leaves_def suffix_ConsI)
qed (simp add: tok_commaat_def str_at_def)

lemma symbol_text: "nul_free t \<Longrightarrow> \<exists>n x t'. tok_symbol E text_stream t = Some (n, x, t') \<and> leaves t (n > 0) t'"
proof (cases t)
  case (Cons c cs)
  assume "nul_free t"
  then have "scan text_stream t symchar 1 = Some (Suc (length (takeWhile symchar cs)))"
    using scan_text [of t symchar 1] Cons by (simp add: symchar_def)
  moreover have "Suc (length (takeWhile symchar cs)) \<le> length t" using Cons length_takeWhile_le [of symchar cs] by simp
  ultimately show ?thesis
    using Cons get_chars_text [of "Suc (length (takeWhile symchar cs))" t]
    by (simp add: tok_symbol_def str_at_def leaves_def suffix_drop suffix_ConsI less_Suc_eq_le)
qed (simp add: tok_symbol_def str_at_def symchar0_def)

lemma char_text: "\<exists>n x t'. tok_char text_stream t = Some (n, x, t') \<and> leaves t (n \<noteq> 0) t'"
proof -
  have nl: "peeks text_stream t 0 (BACKSLASH # ''#newline'') = Some (take 9 t = BACKSLASH # ''#newline'')"
    using peeks_text [of 0 t "BACKSLASH # ''#newline''"] by (simp add: numeral_eq_Suc)
  have hash: "peeks text_stream t 0 [BACKSLASH, CHR ''#''] = Some (take 2 t = [BACKSLASH, CHR ''#''])"
    using peeks_text [of 0 t "[BACKSLASH, CHR ''#'']"] by (simp add: numeral_eq_Suc)
  have "9 \<le> length t" if "take 9 t = BACKSLASH # ''#newline''" using arg_cong [OF that, of length] by simp
  moreover have "2 \<le> length t" if "take 2 t = [BACKSLASH, CHR ''#'']" using arg_cong [OF that, of length] by simp
  moreover have "3 \<le> length t" if "str_at t 2 = Some c" "isgraph c" for c
  proof -
    have "\<not> isgraph NUL" by (simp add: isgraph_def less_eq_char_def)
    then have "c \<noteq> NUL" using that(2) by auto
    then show ?thesis using str_at_charD [OF that(1)] by simp
  qed
  ultimately show ?thesis
    using str_at_some [of 2 t] unfolding tok_char_def nl hash bind.simps
    by (auto simp del: peeks.simps)
qed

lemma string_text: "nul_free t \<Longrightarrow> \<exists>n x t'. tok_string E text_stream t = Some (n, x, t') \<and> leaves t (n > 0) t'"
proof (cases t)
  case (Cons c cs)
  assume "nul_free t"
  with Cons have cs: "nul_free cs" by (simp add: nul_free_def)
  let ?inner = "\<lambda>c. c \<noteq> NUL \<and> c \<noteq> QUOTE_CHAR"
  let ?n = "length (takeWhile ?inner cs)"
  have scan: "scan text_stream cs ?inner 0 = Some ?n" using scan_text [OF cs, of ?inner 0] by simp
  have n: "?n \<le> length cs" by (rule length_takeWhile_le)
  obtain d where d: "str_at cs ?n = Some d" using str_at_some [OF n] by blast
  have "\<exists>q. drop ?n cs = QUOTE_CHAR # q \<and> suffix q cs \<and> length q < length cs" if "d = QUOTE_CHAR"
  proof -
    have lt: "?n < length cs" "cs ! ?n = QUOTE_CHAR" using str_at_charD [OF d] that by simp_all
    then show ?thesis by (auto simp: Cons_nth_drop_Suc [symmetric] suffix_drop)
  qed
  then show ?thesis
    using Cons scan d get_chars_text [OF n]
    by (auto simp: tok_string_def str_at_def [of _ 0] leaves_def suffix_ConsI)
qed (simp add: tok_string_def str_at_def)

lemma dec_bound: "length (takeWhile is_digit t) \<le> length t"
  by (rule length_takeWhile_le)

lemma number_text:
  assumes "nul_free t"
  shows "\<exists>n x t'. tok_I text_stream t = Some (n, x, t') \<and> leaves t (n \<noteq> 0) t'"
    "\<exists>n x t'. tok_u text_stream t = Some (n, x, t') \<and> leaves t (n \<noteq> 0) t'"
    "\<exists>n x t'. tok_i text_stream t = Some (n, x, t') \<and> leaves t (n \<noteq> 0) t'"
proof -
  let ?n = "length (takeWhile is_digit t)"
  note dec = scan_dec_text [OF assms, of 0, simplified]
  have peeks: "peeks text_stream t ?n cs = Some (take (length cs) (drop ?n t) = cs)" if "NUL \<notin> set cs" for cs
    using peeks_text [OF dec_bound that] .
  have word: "?n + length cs \<le> length t" if "NUL \<notin> set cs" "take (length cs) (drop ?n t) = cs" for cs
    using arg_cong [OF that(2), of length] dec_bound [of t] by simp
  show "\<exists>n x t'. tok_I text_stream t = Some (n, x, t') \<and> leaves t (n \<noteq> 0) t'"
    using peeks [of "''i32''"] word [of "''i32''"] unfolding tok_I_def dec
    by (auto simp: leaves_def suffix_drop numeral_eq_Suc simp del: peeks.simps)
  show "\<exists>n x t'. tok_u text_stream t = Some (n, x, t') \<and> leaves t (n \<noteq> 0) t'"
    using peeks [of "''u28''"] word [of "''u28''"] unfolding tok_u_def dec
    by (auto simp: leaves_def suffix_drop numeral_eq_Suc simp del: peeks.simps)
  obtain c where "str_at t ?n = Some c" using str_at_some [OF dec_bound] by blast
  then show "\<exists>n x t'. tok_i text_stream t = Some (n, x, t') \<and> leaves t (n \<noteq> 0) t'"
    using dec_bound [of t] unfolding tok_i_def dec by (cases t) (auto simp: leaves_def suffix_drop suffix_ConsI)
qed

lemma tok_U_text:
  assumes "nul_free t"
  shows "\<exists>n x t'. tok_U text_stream t = Some (n, x, t') \<and> leaves t (n \<noteq> 0) t'"
proof (cases "\<exists>d ds. t = CHR ''0'' # d # ds \<and> (d = CHR ''x'' \<or> d = CHR ''X'')")
  case True
  then obtain d ds where t: "t = CHR ''0'' # d # ds" "d = CHR ''x'' \<or> d = CHR ''X''" by blast
  obtain n acc where "scan_hex text_stream t 2 0 = Some (2 + n, acc)" "2 + n \<le> length t"
    using plain.scan_hex_law [of t t 2 0] assms t(1) takeWhile_bound [of 2 t] by (auto simp: nul_free_def)
  then show ?thesis using t by (auto simp: tok_U_def str_at_def leaves_def suffix_drop suffix_ConsI)
next
  case False
  let ?n = "length (takeWhile is_digit t)"
  note dec = scan_dec_text [OF assms, of 0, simplified]
  have hex: "\<exists>c. str_at t 0 = Some c \<and> (c = CHR ''0'' \<longrightarrow> (\<exists>d. str_at t 1 = Some d \<and> d \<noteq> CHR ''x'' \<and> d \<noteq> CHR ''X''))"
    using False by (cases t rule: remdups_adj.cases) (auto simp: str_at_def)
  have peeks: "peeks text_stream t ?n ''u32'' = Some (take 3 (drop ?n t) = ''u32'')"
    using peeks_text [OF dec_bound, of "''u32''"] by (simp add: numeral_eq_Suc)
  have word: "?n + 3 \<le> length t" if "take 3 (drop ?n t) = ''u32''"
    using arg_cong [OF that, of length] dec_bound [of t] by simp
  show ?thesis using hex word unfolding tok_U_def dec by (auto simp: peeks leaves_def suffix_drop simp del: peeks.simps)
qed

lemma tok_F_text:
  assumes "nul_free t"
  shows "\<exists>n x t'. tok_F E text_stream t = Some (n, x, t') \<and> leaves t (n \<noteq> 0) t'"
proof -
  have nd: "\<not> is_digit NUL" by (simp add: is_digit_def less_eq_char_def)
  let ?n = "length (takeWhile is_digit t)"
  have scan: "scan text_stream t is_digit 0 = Some ?n" using scan_text [of t is_digit 0] assms nd by simp
  obtain c where c: "str_at t ?n = Some c" using str_at_some [OF dec_bound] by blast
  show ?thesis
  proof (cases "c = CHR ''.''")
    case True
    then have n: "Suc ?n \<le> length t" using str_at_charD [OF c] by simp
    obtain d where d: "str_at t (Suc ?n) = Some d" using str_at_some [OF n] by blast
    define m where "m = Suc ?n + length (takeWhile is_digit (drop (Suc ?n) t))"
    have scan': "scan text_stream t is_digit (Suc ?n) = Some m" using scan_text [of t is_digit "Suc ?n"] assms nd n by (simp add: m_def)
    have "m \<le> length t" using takeWhile_bound [OF n] by (simp add: m_def)
    then have "get_chars text_stream t (if m > 255 then 255 else m) = Some (take (if m > 255 then 255 else m) t, drop (if m > 255 then 255 else m) t)"
      by (intro get_chars_text) simp
    moreover have "0 < m" "t \<noteq> []" using n by (auto simp: m_def)
    ultimately show ?thesis using scan c True d scan' by (simp add: tok_F_def Let_def)
  next
    case False
    then show ?thesis using scan c by (simp add: tok_F_def)
  qed
qed

subsection \<open>The next token\<close>

lemma trim_suffix: "suffix (trim t) t"
proof (induction t rule: trim.induct)
  case (2 c cs)
  then show ?case using suffix_dropWhile [of "\<lambda>c. c \<noteq> CHR 0x0A" cs] by (auto intro: suffix_ConsI suffix_order.trans)
qed simp

definition is_end :: "token \<Rightarrow> bool" where
  "is_end tok \<longleftrightarrow> tok = TOKENIZER_END \<or> tok = TOKENIZER_ERROR"

lemma is_end_simps [simp]: "is_end TOKENIZER_END" "is_end TOKENIZER_ERROR"
  by (simp_all add: is_end_def)

lemma next_number_text:
  assumes "nul_free t"
  shows "\<exists>tok t'. next_number E text_stream t = Some (tok, t') \<and> leaves t (\<not> is_end tok) t'"
proof -
  obtain n x t1 where 1: "tok_F E text_stream t = Some (n, x, t1)" "leaves t (n \<noteq> 0) t1" using tok_F_text [OF assms] by blast
  have f1: "nul_free t1" using nul_free_suffix [OF assms] 1(2) by (simp add: leaves_def)
  obtain n2 x2 t2 where 2: "tok_U text_stream t1 = Some (n2, x2, t2)" "leaves t1 (n2 \<noteq> 0) t2" using tok_U_text [OF f1] by blast
  have f2: "nul_free t2" using nul_free_suffix [OF f1] 2(2) by (simp add: leaves_def)
  obtain n3 x3 t3 where 3: "tok_u text_stream t2 = Some (n3, x3, t3)" "leaves t2 (n3 \<noteq> 0) t3" using number_text(2) [OF f2] by blast
  have f3: "nul_free t3" using nul_free_suffix [OF f2] 3(2) by (simp add: leaves_def)
  obtain n4 x4 t4 where 4: "tok_I text_stream t3 = Some (n4, x4, t4)" "leaves t3 (n4 \<noteq> 0) t4" using number_text(1) [OF f3] by blast
  have f4: "nul_free t4" using nul_free_suffix [OF f3] 4(2) by (simp add: leaves_def)
  obtain n5 x5 t5 where 5: "tok_i text_stream t4 = Some (n5, x5, t5)" "leaves t4 (n5 \<noteq> 0) t5" using number_text(3) [OF f4] by blast
  note l2 = leaves_trans [OF 1(2) 2(2)] note l3 = leaves_trans [OF l2 3(2)] note l4 = leaves_trans [OF l3 4(2)]
  note l5 = leaves_trans [OF l4 5(2)]
  show ?thesis using 1 2(1) 3(1) 4(1) 5(1) l2 l3 l4 l5 by (auto simp: next_number_def is_end_def)
qed

lemma next_text_text:
  assumes "nul_free t"
  shows "\<exists>tok t'. next_text E text_stream t = Some (tok, t') \<and> leaves t (\<not> is_end tok) t'"
proof -
  obtain n x t1 where 1: "tok_symbol E text_stream t = Some (n, x, t1)" "leaves t (n > 0) t1" using symbol_text [OF assms] by blast
  have f1: "nul_free t1" using nul_free_suffix [OF assms] 1(2) by (simp add: leaves_def)
  obtain n2 x2 t2 where 2: "tok_char text_stream t1 = Some (n2, x2, t2)" "leaves t1 (n2 \<noteq> 0) t2" using char_text by blast
  have f2: "nul_free t2" using nul_free_suffix [OF f1] 2(2) by (simp add: leaves_def)
  obtain n3 x3 t3 where 3: "tok_string E text_stream t2 = Some (n3, x3, t3)" "leaves t2 (n3 > 0) t3" using string_text [OF f2] by blast
  have f3: "nul_free t3" using nul_free_suffix [OF f2] 3(2) by (simp add: leaves_def)
  obtain tok t4 where 4: "next_number E text_stream t3 = Some (tok, t4)" "leaves t3 (\<not> is_end tok) t4" using next_number_text [OF f3] by blast
  note l2 = leaves_trans [OF 1(2) 2(2)] note l3 = leaves_trans [OF l2 3(2)] note l4 = leaves_trans [OF l3 4(2)]
  show ?thesis using 1 2(1) 3(1) 4(1) l2 l3 l4 by (auto simp: next_text_def is_end_def)
qed

text \<open>One step of the chain in \<open>next_token\<close>.\<close>

lemma leaves_chain:
  assumes "p = Some (n, t1)" "leaves t b t1" "n \<noteq> 0 \<Longrightarrow> length t1 < length t" "\<not> is_end tok"
    and "\<And>t1. leaves t b t1 \<Longrightarrow> p = Some (n, t1) \<Longrightarrow> \<exists>tok t'. q t1 = Some (tok, t') \<and> leaves t1 (\<not> is_end tok) t'"
  shows "\<exists>tok' t'. Option.bind p (\<lambda>(n, s). if n \<noteq> 0 then Some (tok, s) else q s) = Some (tok', t') \<and> leaves t (\<not> is_end tok') t'"
proof (cases "n = 0")
  case True
  with assms(5) [OF assms(2,1)] leaves_trans [OF assms(2)] assms(1) show ?thesis by auto
next
  case False
  with assms(1-4) show ?thesis by (auto simp: leaves_def)
qed

lemma next_token_text:
  assumes "nul_free t"
  shows "\<exists>tok t'. next_token E text_stream t = Some (tok, t') \<and> leaves t (\<not> is_end tok) t'"
proof -
  have clean: "clean_whitespace text_stream t = Some (trim t)"
    using plain.clean_whitespace_law [of t t] assms by (auto simp: nul_free_def)
  have trim: "leaves t False (trim t)" using trim_suffix by (simp add: leaves_def)
  have free: "nul_free t1" if "leaves u b t1" "nul_free u" for u b t1 using that nul_free_suffix by (auto simp: leaves_def)
  have nf: "nul_free (trim t)" using free [OF trim assms] .
  have "\<exists>tok t'. Option.bind (tok_quote text_stream u) (\<lambda>(n, s). if n \<noteq> 0 then Some (TOKQUOTE, s) else
      Option.bind (tok_backquote text_stream s) (\<lambda>(n, s). if n \<noteq> 0 then Some (TOKBACKQUOTE, s) else
      Option.bind (tok_commaat text_stream s) (\<lambda>(n, s). if n \<noteq> 0 then Some (TOKCOMMAAT, s) else
      Option.bind (tok_comma text_stream s) (\<lambda>(n, s). if n \<noteq> 0 then Some (TOKCOMMA, s) else
      Option.bind (tok_openpar text_stream s) (\<lambda>(n, s). if n \<noteq> 0 then Some (TOKOPENPAR, s) else
      Option.bind (tok_closepar text_stream s) (\<lambda>(n, s). if n \<noteq> 0 then Some (TOKCLOSEPAR, s) else next_text E text_stream s))))))
      = Some (tok, t') \<and> leaves u (\<not> is_end tok) t'" if "nul_free u" for u
  proof -
    have step: "\<exists>tok' t'. Option.bind p (\<lambda>(n, s). if n \<noteq> 0 then Some (tok, s) else q s) = Some (tok', t') \<and> leaves u (\<not> is_end tok') t'"
      if h: "\<exists>n t1. p = Some (n :: nat, t1) \<and> leaves u (n \<noteq> 0) t1" "\<not> is_end tok" "nul_free u"
        "\<And>t1. nul_free t1 \<Longrightarrow> \<exists>tok t'. q t1 = Some (tok, t') \<and> leaves t1 (\<not> is_end tok) t'" for p tok q u
    proof -
      obtain n t1 where p: "p = Some (n, t1)" "leaves u (n \<noteq> 0) t1" using h(1) by blast
      show ?thesis
        by (rule leaves_chain [OF p]) (use p(2) h free in \<open>auto simp: leaves_def\<close>)
    qed
    have one: "\<exists>n t1. p = Some (n :: nat, t1) \<and> leaves v (n \<noteq> 0) t1"
      if h: "\<exists>t'. p = Some (of_bool (t' \<noteq> v), t') \<and> leaves v (t' \<noteq> v) t'" for p v
    proof -
      obtain t' where "p = Some (of_bool (t' \<noteq> v), t')" "leaves v (t' \<noteq> v) t'" using h by blast
      then show ?thesis by (intro exI [of _ "of_bool (t' \<noteq> v)"] exI [of _ t']) auto
    qed
    show ?thesis
      by (intro step one punctuation_text commaat_text next_text_text that) (simp_all add: is_end_def)
  qed
  from this [OF nf] obtain tok t' where "next_token E text_stream t = Some (tok, t')" "leaves (trim t) (\<not> is_end tok) t'" if "trim t \<noteq> []" "t \<noteq> []"
    by (auto simp: next_token_def clean)
  moreover have "next_token E text_stream t = Some (TOKENIZER_END, trim t)" if "trim t = [] \<or> t = []"
    using that by (auto simp: next_token_def clean)
  ultimately show ?thesis using trim leaves_trans [OF trim] by (metis is_end_simps(1))
qed

end
