(* ===== verification/Parser_Streams.thy ===== *)
theory Parser_Streams
  imports Parser Token_Total Compression_Correct
begin

text \<open>
  The two streams of \<open>src/tokpar.c\<close> keep the contract of a character stream, the one over compressed text
  by the correctness of the decompressor. Two streams that deliver the same text give the same tokens, and the
  parser builds the same expressions from them.
\<close>

subsection \<open>The stream over a C string\<close>

definition string_delivers :: "string \<Rightarrow> string \<Rightarrow> tokenizer_state \<Rightarrow> bool" where
  "string_delivers str t s \<longleftrightarrow> ts_str s = str \<and> nul_free (ts_str s) \<and> ts_pos s \<le> length (ts_str s) \<and> t = drop (ts_pos s) (ts_str s)"

lemma str_at_drop: "p \<le> length s \<Longrightarrow> n \<le> length s - p \<Longrightarrow> str_at s (p + n) = str_at (drop p s) n"
  by (auto simp: str_at_def)

interpretation str: char_stream string_stream "string_delivers str" for str
proof unfold_locales
  fix str t s
  assume d: "string_delivers str t s"
  note D = d [unfolded string_delivers_def nul_free_def]
  have le: "n \<le> length t \<Longrightarrow> ts_pos s + n \<le> length (ts_str s)" for n using D by auto
  show "has_more string_stream s = Some (t \<noteq> [])"
    using D by (auto simp: string_stream_def more_string_def str_at_def) (metis nth_mem)
  show "NUL \<notin> set t" using D set_drop_subset [of "ts_pos s" "ts_str s"] by auto
  show "peek string_stream s n = str_at t n" if "n \<le> length t" for n
    using D that str_at_drop [of "ts_pos s" "ts_str s" n] by (auto simp: string_stream_def peek_string_def)
  show "\<exists>s'. drop_n string_stream s n = Some s' \<and> string_delivers str (drop n t) s'" if "n \<le> length t" for n
    using D le [OF that] by (auto simp: string_stream_def drop_string_def string_delivers_def nul_free_def add.commute)
next
  fix str c cs s
  assume d: "string_delivers str (c # cs) s"
  then have "ts_pos s < length (ts_str s)" "ts_str s ! ts_pos s = c" "drop (Suc (ts_pos s)) (ts_str s) = cs"
    using drop_ConsD [of "ts_pos s" "ts_str s" c cs] by (auto simp: string_delivers_def)
  with d show "\<exists>s'. get string_stream s = Some (c, s') \<and> string_delivers str cs s'"
    by (auto simp: string_stream_def get_string_def str_at_def string_delivers_def)
qed

subsection \<open>The stream over compressed text\<close>

text \<open>
  What is left to deliver: the rest of the buffer and the text of the items the decompressor has not read yet.
\<close>

definition compressed_delivers :: "string \<Rightarrow> tokenizer_compressed_state \<Rightarrow> bool" where
  "compressed_delivers t s \<longleftrightarrow> nul_free t \<and> (\<exists>m its p.
     wf_items m its \<and> decoding m p (length (items_bits its)) (tc_ds s) \<and>
     take (length (items_bits its)) (drop p (bits_of (dc_src (tc_ds s)))) = items_bits its \<and>
     length (tc_decomp_buff s) = DECOMP_BUFF_SIZE \<and> 0 \<le> tc_buff_pos s \<and> tc_buff_pos s \<le> tc_decomp_bytes s \<and> tc_decomp_bytes s \<le> 32 \<and>
     t = drop (nat (tc_buff_pos s)) (take (nat (tc_decomp_bytes s)) (tc_decomp_buff s)) @ items_text its)"

lemma ds_left_iff: "decoding m p n ds \<Longrightarrow> ds_left ds \<longleftrightarrow> n \<noteq> 0"
  using decoding_less [of m p n ds] by (cases n) (auto simp: ds_left_def decoding_def)

lemma decode_item:
  assumes "wf_items m (it # its)" "decoding m p (length (items_bits (it # its))) ds"
    and "take (length (items_bits (it # its))) (drop p (bits_of (dc_src ds))) = items_bits (it # its)"
  shows "\<exists>m' ds'. compression_decompress_incremental ds 32 =
      Some (int (length (item_text it)), item_text it @ replicate (32 - length (item_text it)) NUL, ds') \<and>
    dc_src ds' = dc_src ds \<and> wf_items m' its \<and> decoding m' (p + length (item_bits it)) (length (items_bits its)) ds' \<and>
    take (length (items_bits its)) (drop (p + length (item_bits it)) (bits_of (dc_src ds))) = items_bits its \<and>
    item_text it \<noteq> [] \<and> length (item_text it) \<le> 32"
proof -
  have rest: "take (length (items_bits its)) (drop (p + length (item_bits it)) (bits_of (dc_src ds))) = items_bits its"
    using arg_cong [OF assms(3), of "drop (length (item_bits it))"] by (simp add: drop_take add.commute)
  have first: "take (length (item_bits it)) (drop p (bits_of (dc_src ds))) = item_bits it"
    using arg_cong [OF assms(3), of "take (length (item_bits it))"] by simp
  show ?thesis
  proof (cases it)
    case (Key ix)
    then have m: "m = None" "ix < 66" using assms(1) by (cases m; simp)+
    have here: "code_here (dc_src ds) p (length (items_bits (it # its))) ix" using first Key by (simp add: code_here_def)
    show ?thesis
      using decode_key [OF assms(2) [unfolded m(1)] m(2) here] assms(1) rest code_entry(1,2) [OF m(2)] m(1)
      unfolding Key by fastforce
  next
    case (Raw c)
    then obtain b where m: "m = Some b" using assms(1) by (cases m) auto
    show ?thesis
      using decode_raw [OF assms(2) [unfolded m], of c] first assms(1) rest m unfolding Raw by fastforce
  qed
qed

lemma wf_items_empty:
  assumes "wf_items m its"
  shows "items_text its = [] \<longleftrightarrow> its = []" "items_bits its = [] \<longleftrightarrow> its = []"
  using assms code_entry by (induction m its rule: wf_items.induct) (auto simp: code_bools_def)

lemma buffered_char_law:
  assumes "length (tc_decomp_buff s) = 32" "0 \<le> tc_buff_pos s" "tc_buff_pos s < tc_decomp_bytes s" "tc_decomp_bytes s \<le> 32"
  shows "buffered_char s = Some (tc_decomp_buff s ! nat (tc_buff_pos s), s\<lparr>tc_buff_pos := tc_buff_pos s + 1\<rparr>)"
    "drop (nat (tc_buff_pos s)) (take (nat (tc_decomp_bytes s)) (tc_decomp_buff s)) =
      tc_decomp_buff s ! nat (tc_buff_pos s) # drop (nat (tc_buff_pos s + 1)) (take (nat (tc_decomp_bytes s)) (tc_decomp_buff s))"
proof -
  have lt: "nat (tc_buff_pos s) < nat (tc_decomp_bytes s)" "nat (tc_decomp_bytes s) \<le> length (tc_decomp_buff s)" using assms by linarith+
  have suc: "nat (tc_buff_pos s + 1) = Suc (nat (tc_buff_pos s))" using assms(2) by linarith
  have "nat (tc_buff_pos s) < length (tc_decomp_buff s)" using lt by linarith
  then show "buffered_char s = Some (tc_decomp_buff s ! nat (tc_buff_pos s), s\<lparr>tc_buff_pos := tc_buff_pos s + 1\<rparr>)"
    by (simp add: buffered_char_def)
  show "drop (nat (tc_buff_pos s)) (take (nat (tc_decomp_bytes s)) (tc_decomp_buff s)) =
      tc_decomp_buff s ! nat (tc_buff_pos s) # drop (nat (tc_buff_pos s + 1)) (take (nat (tc_decomp_bytes s)) (tc_decomp_buff s))"
    using lt Cons_nth_drop_Suc [of "nat (tc_buff_pos s)" "take (nat (tc_decomp_bytes s)) (tc_decomp_buff s)"] unfolding suc by simp
qed

lemma get_compressed_more:
  assumes "compressed_delivers (c # cs) s"
  shows "\<exists>s'. get_compressed s = Some (c, s') \<and> compressed_delivers cs s'"
proof -
  from assms obtain m its p where D: "nul_free (c # cs)" "wf_items m its" "decoding m p (length (items_bits its)) (tc_ds s)"
      "take (length (items_bits its)) (drop p (bits_of (dc_src (tc_ds s)))) = items_bits its"
      "length (tc_decomp_buff s) = 32" "0 \<le> tc_buff_pos s" "tc_buff_pos s \<le> tc_decomp_bytes s" "tc_decomp_bytes s \<le> 32"
      "c # cs = drop (nat (tc_buff_pos s)) (take (nat (tc_decomp_bytes s)) (tc_decomp_buff s)) @ items_text its"
    unfolding compressed_delivers_def by blast
  have free: "nul_free cs" using D(1) by (simp add: nul_free_def)
  show ?thesis
  proof (cases "tc_buff_pos s < tc_decomp_bytes s")
    case True
    note b = buffered_char_law [OF D(5,6) True D(8)]
    have "c = tc_decomp_buff s ! nat (tc_buff_pos s)"
      "cs = drop (nat (tc_buff_pos s + 1)) (take (nat (tc_decomp_bytes s)) (tc_decomp_buff s)) @ items_text its"
      using D(9) unfolding b(2) by simp_all
    moreover have "compressed_delivers cs (s\<lparr>tc_buff_pos := tc_buff_pos s + 1\<rparr>)"
      unfolding compressed_delivers_def using free D(2-8) True calculation(2)
      by (intro conjI exI [of _ m] exI [of _ its] exI [of _ p]) simp_all
    ultimately show ?thesis using b(1) True by (simp add: get_compressed_def)
  next
    case False
    then have left_text: "items_text its = c # cs" "tc_buff_pos s = tc_decomp_bytes s" using D(7,9) by simp_all
    then obtain it its' where its: "its = it # its'" by (cases its) auto
    obtain m' ds' where r: "compression_decompress_incremental (tc_ds s) 32 =
          Some (int (length (item_text it)), item_text it @ replicate (32 - length (item_text it)) NUL, ds')"
        "dc_src ds' = dc_src (tc_ds s)" "wf_items m' its'" "decoding m' (p + length (item_bits it)) (length (items_bits its')) ds'"
        "take (length (items_bits its')) (drop (p + length (item_bits it)) (bits_of (dc_src (tc_ds s)))) = items_bits its'"
        "item_text it \<noteq> []" "length (item_text it) \<le> 32"
      using decode_item [OF D(2-4) [unfolded its]] by blast
    let ?s = "s\<lparr>tc_ds := ds', tc_decomp_buff := item_text it @ replicate (32 - length (item_text it)) NUL,
        tc_decomp_bytes := int (length (item_text it)), tc_buff_pos := 0\<rparr>"
    have left: "ds_left (tc_ds s)" using ds_left_iff [OF D(3)] wf_items_empty(2) [OF D(2)] its by simp
    have len: "length (tc_decomp_buff ?s) = 32" "0 \<le> tc_buff_pos ?s" "tc_buff_pos ?s < tc_decomp_bytes ?s" "tc_decomp_bytes ?s \<le> 32"
      using r(6,7) by simp_all
    note b = buffered_char_law [OF len]
    have hd: "item_text it = c # tl (item_text it)" "cs = tl (item_text it) @ items_text its'"
      using left_text(1) its r(6) by (cases "item_text it"; simp)+
    have "compressed_delivers cs (?s\<lparr>tc_buff_pos := tc_buff_pos ?s + 1\<rparr>)"
      unfolding compressed_delivers_def using free r hd
      by (intro conjI exI [of _ m'] exI [of _ its'] exI [of _ "p + length (item_bits it)"]) (simp_all add: drop_Suc Suc_le_eq)
    moreover have "tc_decomp_buff ?s ! nat (tc_buff_pos ?s) = c" using hd(1) by (cases "item_text it") auto
    ultimately show ?thesis using b(1) left r(1,6) left_text(2) by (simp add: get_compressed_def Let_def)
  qed
qed

lemma compressed_more:
  assumes "compressed_delivers t s"
  shows "more_compressed s = Some (t \<noteq> [])" "t = [] \<Longrightarrow> get_compressed s = Some (NUL, s)"
proof -
  from assms obtain m its p where D: "wf_items m its" "decoding m p (length (items_bits its)) (tc_ds s)"
      "length (tc_decomp_buff s) = 32" "0 \<le> tc_buff_pos s" "tc_buff_pos s \<le> tc_decomp_bytes s" "tc_decomp_bytes s \<le> 32"
      "t = drop (nat (tc_buff_pos s)) (take (nat (tc_decomp_bytes s)) (tc_decomp_buff s)) @ items_text its"
    unfolding compressed_delivers_def by blast
  have left: "ds_left (tc_ds s) \<longleftrightarrow> its \<noteq> []" using ds_left_iff [OF D(2)] wf_items_empty(2) [OF D(1)] by simp
  have "drop (nat (tc_buff_pos s)) (take (nat (tc_decomp_bytes s)) (tc_decomp_buff s)) = [] \<longleftrightarrow> \<not> tc_buff_pos s < tc_decomp_bytes s"
    using D(3-6) by auto
  then have empty: "t = [] \<longleftrightarrow> \<not> ds_left (tc_ds s) \<and> \<not> tc_buff_pos s < tc_decomp_bytes s"
    using D(7) left wf_items_empty(1) [OF D(1)] by auto
  then show "more_compressed s = Some (t \<noteq> [])" "t = [] \<Longrightarrow> get_compressed s = Some (NUL, s)"
    by (auto simp: more_compressed_def get_compressed_def)
qed

lemma compressed_loops:
  "compressed_delivers t s \<Longrightarrow> n \<le> length t \<Longrightarrow> peek_loop s n = str_at t n"
  "compressed_delivers t s \<Longrightarrow> n \<le> length t \<Longrightarrow> \<exists>s'. drop_compressed s n = Some s' \<and> compressed_delivers (drop n t) s'"
proof (induction n arbitrary: t s)
  case 0
  {
    case 1
    then show ?case using compressed_more(2) [of t s] get_compressed_more [of "hd t" "tl t" s] by (cases t) (auto simp: str_at_def)
  next
    case 2
    then show ?case by simp
  }
next
  case (Suc n)
  {
    case 1
    then obtain c cs where t: "t = c # cs" by (cases t) auto
    then obtain s' where "get_compressed s = Some (c, s')" "compressed_delivers cs s'" using get_compressed_more 1(1) by blast
    then show ?case using Suc.IH(1) [of cs s'] 1(2) t by (simp add: str_at_def)
  next
    case 2
    then obtain c cs where t: "t = c # cs" by (cases t) auto
    then obtain s' where "get_compressed s = Some (c, s')" "compressed_delivers cs s'" using get_compressed_more 2(1) by blast
    then show ?case using Suc.IH(2) [of cs s'] 2(2) t by simp
  }
qed

interpretation comp: char_stream compressed_stream compressed_delivers
proof unfold_locales
  show "NUL \<notin> set t" if "compressed_delivers t s" for t s using that by (simp add: compressed_delivers_def nul_free_def)
qed (simp_all add: compressed_stream_def compressed_more get_compressed_more compressed_loops peek_compressed_def)

subsection \<open>Streams that give the same tokens\<close>

text \<open>
  Two streams related by \<open>R\<close> give the same token and stay related. Then a run of the parser on the first
  is a run on the second.
\<close>

lemma sim_from: "p = Some x \<Longrightarrow> sim Q p q \<Longrightarrow> sim Q (Some x) q"
  by simp

locale same_tokens =
  fixes E :: tok_env and S :: "'s tokenizer_char_stream" and S' :: "'t tokenizer_char_stream" and R :: "'s \<Rightarrow> 't \<Rightarrow> bool"
  assumes token_law: "R s s' \<Longrightarrow> \<exists>tok u u'. next_token E S s = Some (tok, u) \<and> next_token E S' s' = Some (tok, u') \<and> R u u'"
begin

lemma sim_token: "R s s' \<Longrightarrow> sim (with_state R) (next_token E S s) (next_token E S' s')"
  using token_law [of s s'] by (auto simp: sim_def)

lemma sim_parse_exp: "R s s' \<Longrightarrow> sim (with_state2 R) (parse_exp E S task rt s) (parse_exp E S' task rt s')"
proof -
  have "(E0, S0) = (E, S) \<longrightarrow> (\<forall>s'. R s s' \<longrightarrow> sim (with_state2 R) (Some y) (parse_exp E S' task rt s'))"
    if "parse_exp E0 S0 task rt s = Some y" for E0 S0 task rt s y
    using that
  proof (rule parse_exp.raw_induct [where P = "\<lambda>E0 S0 task rt s y. (E0, S0) = (E, S) \<longrightarrow>
      (\<forall>s'. R s s' \<longrightarrow> sim (with_state2 R) (Some y) (parse_exp E S' task rt s'))", rotated], goal_cases)
    case (1 f E0 S0 task rt s y)
    show ?case
    proof (intro impI allI)
      fix s'
      assume eq: "(E0, S0) = (E, S)" and R: "R s s'"
      have rec: "R s s' \<Longrightarrow> sim (with_state2 R) (f E S task rt s) (parse_exp E S' task rt s')" for s s' task rt
        using 1(1) [of E S task rt s] by (auto simp: sim_def)
      have atom: "sim (with_state2 R) (map_option (\<lambda>(v, rt). (v, rt, s)) r) (map_option (\<lambda>(v, rt). (v, rt, s')) r)" if "R s s'" for s s' r
        using that by (auto simp: sim_def)
      show "sim (with_state2 R) (Some y) (parse_exp E S' task rt s')"
        by (rule sim_from [OF 1(2)], subst parse_exp.simps)
          (use eq R in \<open>auto split: parse_task.splits option.splits simp: sim_Some
             intro!: sim_bind_state [OF sim_token] sim_bind_state2 [OF rec] rec atom sim_if\<close>)
    qed
  qed
  then show "R s s' \<Longrightarrow> ?thesis" by (cases "parse_exp E S task rt s") auto
qed

lemma sim_parse_program: "R s s' \<Longrightarrow> sim (=) (parse_program E S rt s) (parse_program E S' rt s')"
proof -
  have "(E0, S0) = (E, S) \<longrightarrow> (\<forall>s'. R s s' \<longrightarrow> sim (=) (Some y) (parse_program E S' rt s'))"
    if "parse_program E0 S0 rt s = Some y" for E0 S0 rt s y
    using that
  proof (rule parse_program.raw_induct [where P = "\<lambda>E0 S0 rt s y. (E0, S0) = (E, S) \<longrightarrow>
      (\<forall>s'. R s s' \<longrightarrow> sim (=) (Some y) (parse_program E S' rt s'))", rotated], goal_cases)
    case (1 f E0 S0 rt s y)
    show ?case
    proof (intro impI allI)
      fix s'
      assume eq: "(E0, S0) = (E, S)" and R: "R s s'"
      have rec: "R s s' \<Longrightarrow> sim (=) (f E S rt s) (parse_program E S' rt s')" for s s' rt
        using 1(1) [of E S rt s] by (auto simp: sim_def)
      show "sim (=) (Some y) (parse_program E S' rt s')"
        by (rule sim_from [OF 1(2)], subst parse_program.simps)
          (use eq R in \<open>auto simp: sim_Some parse_sexp_def sim_def [of "(=)" p p for p]
             intro!: sim_bind_state [OF sim_token] sim_bind_state2 [OF sim_parse_exp] sim_bind_pair [OF rec] sim_if\<close>)
    qed
  qed
  then show "R s s' \<Longrightarrow> ?thesis" by (cases "parse_program E S rt s") auto
qed

end

text \<open>Streams that deliver the same text are such.\<close>

locale two_streams = one: char_stream S d + two: char_stream S' d'
  for S :: "'s tokenizer_char_stream" and d and S' :: "'t tokenizer_char_stream" and d'
begin

definition same_text :: "'s \<Rightarrow> 't \<Rightarrow> bool" where
  "same_text s s' \<longleftrightarrow> (\<exists>t. d t s \<and> d' t s')"

lemma same_next_token:
  assumes "same_text s s'"
  shows "\<exists>tok u u'. next_token E S s = Some (tok, u) \<and> next_token E S' s' = Some (tok, u') \<and> same_text u u'"
proof -
  obtain t where t: "d t s" "d' t s'" using assms by (auto simp: same_text_def)
  then have "nul_free t" using one.nul_law by (simp add: nul_free_def)
  then obtain tok t1 where "next_token E text_stream t = Some (tok, t1)" using next_token_text by blast
  with simD [OF one.sim_next_token [OF t(1)]] simD [OF two.sim_next_token [OF t(2)]] show ?thesis
    by (fastforce simp: same_text_def with_state_def)
qed

end

sublocale two_streams \<subseteq> tokens: same_tokens E S S' same_text for E
  by unfold_locales (rule same_next_token)

interpretation str_comp: two_streams string_stream "string_delivers str" compressed_stream compressed_delivers for str
  by unfold_locales

interpretation comp_str: two_streams compressed_stream compressed_delivers string_stream "string_delivers str" for str
  by unfold_locales

lemma parse_same_text:
  assumes "string_delivers str t s" "compressed_delivers t s'"
  shows "parse_program E compressed_stream rt s' = parse_program E string_stream rt s"
proof -
  have 1: "str_comp.same_text str s s'" using assms unfolding str_comp.same_text_def by blast
  have 2: "comp_str.same_text str s' s" using assms unfolding comp_str.same_text_def by blast
  show ?thesis
    using comp_str.tokens.sim_parse_program [OF 2, of E rt] str_comp.tokens.sim_parse_program [OF 1, of E rt] by (rule sim_antisym)
qed

end
