(* ===== verification/Normal_Tokens.thy ===== *)
theory Normal_Tokens
  imports Parser_Streams
begin

text \<open>
  The compressor of \<open>src/compression.c\<close> drops comments and reduces white space, and finds comments and string literals by rules
  of its own. This theory shows that the tokeniser of \<open>src/tokpar.c\<close> reads the same tokens from a text and from what the
  compressor keeps of it, if no backslash hides a semicolon or a quote from one of the two.
\<close>

subsection \<open>Recognisers look at the front of a text only\<close>

definition stop :: "char \<Rightarrow> bool" where
  "stop c \<longleftrightarrow> is_blank c \<or> c = CHR '';'' \<or> c = QUOTE_CHAR"

definition stopped :: "string \<Rightarrow> bool" where
  "stopped r \<longleftrightarrow> r = [] \<or> stop (hd r)"

definition stops :: "(char \<Rightarrow> bool) \<Rightarrow> bool" where
  "stops test \<longleftrightarrow> \<not> test NUL \<and> (\<forall>c. stop c \<longrightarrow> \<not> test c)"

text \<open>The result of a recogniser when the text goes on with \<open>r\<close>.\<close>

definition on_with :: "string \<Rightarrow> ('a \<times> string) option \<Rightarrow> ('a \<times> string) option" where
  "on_with r = map_option (\<lambda>(a, s). (a, s @ r))"

definition on_with2 :: "string \<Rightarrow> ('a \<times> 'b \<times> string) option \<Rightarrow> ('a \<times> 'b \<times> string) option" where
  "on_with2 r = map_option (\<lambda>(a, b, s). (a, b, s @ r))"

lemma on_with_simps [simp]:
  "on_with r None = None" "on_with r (Some (a, s)) = Some (a, s @ r)" "on_with2 r None = None" "on_with2 r (Some (a, b, s)) = Some (a, b, s @ r)"
  by (simp_all add: on_with_def on_with2_def)

lemma stops_tests: "stops symchar" "stops symchar0" "stops is_digit" "stops is_hex"
  by (auto simp: stops_def stop_def is_blank_def symchar_def symchar0_def is_digit_def is_hex_def is_low_hex_def is_high_hex_def less_eq_char_def)

lemma takeWhile_front: "stopped r \<Longrightarrow> stops test \<Longrightarrow> takeWhile test (w @ r) = takeWhile test w"
  by (induction w) (cases r, auto simp: stopped_def stops_def)

lemma nul_free_append [simp]: "nul_free (w @ r) \<longleftrightarrow> nul_free w \<and> nul_free r"
  by (auto simp: nul_free_def)

lemma scan_front:
  assumes "nul_free (w @ r)" "stopped r" "stops test" "n \<le> length w"
  shows "scan text_stream (w @ r) test n = scan text_stream w test n"
  using assms scan_text [of "w @ r" test n] scan_text [of w test n] takeWhile_front [OF assms(2,3), of "drop n w"] by (simp add: stops_def)

lemma scan_dec_front:
  assumes "nul_free (w @ r)" "stopped r" "n \<le> length w"
  shows "scan_dec text_stream (w @ r) n acc = scan_dec text_stream w n acc"
  using assms scan_dec_text [of "w @ r" n acc] scan_dec_text [of w n acc] takeWhile_front [OF assms(2) stops_tests(3), of "drop n w"] by simp

lemma scan_hex_front:
  assumes "nul_free (w @ r)" "stopped r" "n \<le> length w"
  shows "scan_hex text_stream (w @ r) n acc = scan_hex text_stream w n acc"
  using assms plain.scan_hex_law [of "w @ r" "w @ r" n acc] plain.scan_hex_law [of w w n acc]
    takeWhile_front [OF assms(2) stops_tests(4), of "drop n w"] by (simp add: nul_free_def)

lemma take_front:
  assumes "stopped r" and "list_all (\<lambda>c. \<not> stop c) cs"
  shows "take (length cs) (w @ r) = cs \<longleftrightarrow> take (length cs) w = cs"
proof (cases "length cs \<le> length w")
  case False
  have "take (length cs) (w @ r) \<noteq> cs" if "r \<noteq> []"
  proof
    assume eq: "take (length cs) (w @ r) = cs"
    have "cs ! length w = take (length cs) (w @ r) ! length w" using eq by simp
    then have "cs ! length w = hd r" using False that by (simp add: hd_conv_nth nth_append)
    then show False using assms that False by (metis list_all_length not_le stopped_def)
  qed
  then show ?thesis using False by (cases "r = []") auto
qed simp

lemma peeks_front:
  assumes "stopped r" "n \<le> length w" "list_all (\<lambda>c. \<not> stop c) cs" "NUL \<notin> set cs"
  shows "peeks text_stream (w @ r) n cs = peeks text_stream w n cs"
  using peeks_text [of n "w @ r" cs] peeks_text [of n w cs] take_front [OF assms(1,3), of "drop n w"] assms by simp

lemma str_at_front:
  assumes "stopped r" "n \<le> length w"
  obtains c d where "str_at (w @ r) n = Some c" "str_at w n = Some d" "c = d \<or> stop c \<and> d = NUL \<and> r \<noteq> [] \<and> hd r = c \<and> n = length w"
proof (cases "n < length w")
  case False
  then have n: "n = length w" using assms(2) by simp
  then show ?thesis using assms(1) that by (cases r) (auto simp: str_at_def stopped_def)
qed (use that in \<open>simp add: str_at_def nth_append\<close>)

lemma str_at_test:
  assumes "stopped r" "n \<le> length w" "stops test"
  obtains c d where "str_at (w @ r) n = Some c" "str_at w n = Some d" "test c \<longleftrightarrow> test d"
proof (rule str_at_front [OF assms(1,2)])
  fix c d
  assume "str_at (w @ r) n = Some c" "str_at w n = Some d" "c = d \<or> stop c \<and> d = NUL \<and> r \<noteq> [] \<and> hd r = c \<and> n = length w"
  then show thesis using that [of c d] assms(3) by (auto simp: stops_def)
qed

lemma get_chars_front: "n \<le> length w \<Longrightarrow> get_chars text_stream (w @ r) n = on_with r (get_chars text_stream w n)"
  using get_chars_text [of n "w @ r"] get_chars_text [of n w] by simp

lemma not_stop: "list_all (\<lambda>c. \<not> stop c) ''i32''" "list_all (\<lambda>c. \<not> stop c) ''u28''" "list_all (\<lambda>c. \<not> stop c) ''u32''"
    "list_all (\<lambda>c. \<not> stop c) (BACKSLASH # ''#newline'')" "list_all (\<lambda>c. \<not> stop c) [BACKSLASH, CHR ''#'']"
  by (simp_all add: stop_def is_blank_def)

lemma tok_symbol_front:
  assumes "nul_free (w @ r)" "stopped r"
  shows "tok_symbol E text_stream (w @ r) = on_with2 r (tok_symbol E text_stream w)"
proof (cases "w \<noteq> [] \<and> symchar0 (hd w)")
  case True
  then have 1: "1 \<le> length w" "str_at (w @ r) 0 = Some (hd w)" "str_at w 0 = Some (hd w)" by (cases w; simp add: str_at_def)+
  let ?n = "1 + length (takeWhile symchar (drop 1 w))"
  have n: "scan text_stream w symchar 1 = Some ?n" "?n \<le> length w"
    using scan_text [of w symchar 1] takeWhile_bound [OF 1(1)] assms(1) 1(1) by (simp_all add: symchar_def)
  then have "scan text_stream (w @ r) symchar 1 = Some ?n" using scan_front [OF assms stops_tests(1) 1(1)] by simp
  then show ?thesis
    using True 1 n get_chars_front [OF n(2), of r] get_chars_text [OF n(2)] by (simp add: tok_symbol_def)
next
  case False
  then have "\<exists>c. str_at (w @ r) 0 = Some c \<and> \<not> symchar0 c" "\<exists>c. str_at w 0 = Some c \<and> \<not> symchar0 c"
    using assms(2) stops_tests(2) by (cases w; cases r; auto simp: str_at_def stopped_def stops_def)+
  then show ?thesis by (auto simp: tok_symbol_def)
qed

lemma scan_dec_some: "nul_free w \<Longrightarrow> \<exists>n acc. scan_dec text_stream w 0 0 = Some (n, acc) \<and> n \<le> length w"
  using scan_dec_text [of w 0 0] length_takeWhile_le [of is_digit w] by simp

lemma peeks_bound: "peeks text_stream w n cs = Some True \<Longrightarrow> n \<le> length w \<Longrightarrow> NUL \<notin> set cs \<Longrightarrow> n + length cs \<le> length w"
proof -
  assume a: "peeks text_stream w n cs = Some True" "n \<le> length w" "NUL \<notin> set cs"
  then have "length (take (length cs) (drop n w)) = length cs" using peeks_text [of n w cs] by simp
  then show ?thesis using a(2) by simp
qed

text \<open>A decimal number with a suffix of three characters.\<close>

lemma suffixed_front:
  assumes "nul_free (w @ r)" "stopped r" "list_all (\<lambda>c. \<not> stop c) [a, b, c]" "NUL \<notin> set [a, b, c]"
  shows "do { (n, acc) \<leftarrow> scan_dec text_stream (w @ r) 0 0; ok \<leftarrow> peeks text_stream (w @ r) n [a, b, c];
      if ok then do { s \<leftarrow> drop_n text_stream (w @ r) (n + 3); Some (n + 3, acc, s) } else Some (0, 0, w @ r) } =
    on_with2 r (do { (n, acc) \<leftarrow> scan_dec text_stream w 0 0; ok \<leftarrow> peeks text_stream w n [a, b, c];
      if ok then do { s \<leftarrow> drop_n text_stream w (n + 3); Some (n + 3, acc, s) } else Some (0, 0, w) })"
proof -
  obtain n acc where n: "scan_dec text_stream w 0 0 = Some (n, acc)" "n \<le> length w" using scan_dec_some assms(1) by fastforce
  have n': "scan_dec text_stream (w @ r) 0 0 = Some (n, acc)" using n scan_dec_front [OF assms(1,2)] by simp
  obtain ok where ok: "peeks text_stream w n [a, b, c] = Some ok" using peeks_text [OF n(2) assms(4)] by blast
  have ok': "peeks text_stream (w @ r) n [a, b, c] = Some ok" using ok peeks_front [OF assms(2) n(2) assms(3,4)] by simp
  have "n + 3 \<le> length w" if ok using peeks_bound [OF _ n(2) assms(4)] ok that by simp
  then show ?thesis using n n' ok ok' by (cases ok) (simp_all del: peeks.simps)
qed

lemma tok_suffixed_front:
  assumes "nul_free (w @ r)" "stopped r"
  shows "tok_I text_stream (w @ r) = on_with2 r (tok_I text_stream w)" "tok_u text_stream (w @ r) = on_with2 r (tok_u text_stream w)"
  unfolding tok_I_def tok_u_def by (rule suffixed_front [OF assms not_stop(1)] suffixed_front [OF assms not_stop(2)]; simp)+

lemma tok_i_front:
  assumes "nul_free (w @ r)" "stopped r"
  shows "tok_i text_stream (w @ r) = on_with2 r (tok_i text_stream w)"
proof -
  obtain n acc where n: "scan_dec text_stream w 0 0 = Some (n, acc)" "n \<le> length w" using scan_dec_some assms(1) by fastforce
  have n': "scan_dec text_stream (w @ r) 0 0 = Some (n, acc)" using n scan_dec_front [OF assms] by simp
  let ?test = "\<lambda>c. c = CHR ''U'' \<or> c = CHR ''u'' \<or> c = CHR ''.'' \<or> c = CHR ''I''"
  have "stops ?test" by (auto simp: stops_def stop_def is_blank_def)
  from str_at_test [OF assms(2) n(2) this]
  obtain c d where "str_at (w @ r) n = Some c" "str_at w n = Some d" "?test c \<longleftrightarrow> ?test d" by blast
  then show ?thesis using n n' unfolding tok_i_def by (cases "?test d") simp_all
qed

lemma tok_U_front:
  assumes "nul_free (w @ r)" "stopped r"
  shows "tok_U text_stream (w @ r) = on_with2 r (tok_U text_stream w)"
proof -
  let ?hex = "\<lambda>t. do { c \<leftarrow> peek text_stream t 0;
      if c = CHR ''0'' then do { d \<leftarrow> peek text_stream t 1; Some (d = CHR ''x'' \<or> d = CHR ''X'') } else Some False }"
  have x: "stops (\<lambda>c. c = CHR ''0'')" "stops (\<lambda>c. c = CHR ''x'' \<or> c = CHR ''X'')" by (auto simp: stops_def stop_def is_blank_def)
  obtain c d where c: "str_at (w @ r) 0 = Some c" "str_at w 0 = Some d" "c = CHR ''0'' \<longleftrightarrow> d = CHR ''0''"
    by (rule str_at_test [OF assms(2) _ x(1), of 0 w]) simp_all
  have "\<exists>hex. ?hex (w @ r) = Some hex \<and> ?hex w = Some hex \<and> (hex \<longrightarrow> 2 \<le> length w)"
  proof (cases "d = CHR ''0''")
    case True
    then have w: "1 \<le> length w" using str_at_charD [OF c(2)] by (simp add: Suc_le_eq)
    obtain c' d' where "str_at (w @ r) 1 = Some c'" "str_at w 1 = Some d'" "(c' = CHR ''x'' \<or> c' = CHR ''X'') \<longleftrightarrow> (d' = CHR ''x'' \<or> d' = CHR ''X'')"
      by (rule str_at_test [OF assms(2) w x(2)]) simp_all
    then show ?thesis using c True str_at_charD [of w 1 d'] by auto
  qed (use c in auto)
  then obtain hex where hex: "?hex (w @ r) = Some hex" "?hex w = Some hex" "hex \<Longrightarrow> 2 \<le> length w" by blast
  have U: "tok_U text_stream t = Option.bind (?hex t) (\<lambda>hex.
      if hex then do { (n, acc) \<leftarrow> scan_hex text_stream t 2 0; s \<leftarrow> drop_n text_stream t n; Some (n, acc, s) }
      else do { (n, acc) \<leftarrow> scan_dec text_stream t 0 0; ok \<leftarrow> peeks text_stream t n ''u32'';
        if ok then do { s \<leftarrow> drop_n text_stream t (n + 3); Some (n + 3, acc, s) } else Some (0, 0, t) })" for t
    unfolding tok_U_def bind_assoc ..
  show ?thesis
  proof (cases hex)
    case True
    obtain n acc where n: "scan_hex text_stream w 2 0 = Some (n, acc)" "n \<le> length w"
      using plain.scan_hex_law [of w w 2 0] takeWhile_bound [OF hex(3) [OF True], of is_hex] hex(3) [OF True] assms(1) by (simp add: nul_free_def)
    have "scan_hex text_stream (w @ r) 2 0 = Some (n, acc)" using n(1) scan_hex_front [OF assms hex(3) [OF True]] by simp
    with n True show ?thesis unfolding U hex(1,2) by simp
  next
    case False
    then show ?thesis
      unfolding U hex(1,2) bind.bind_lunit if_not_P [OF False] by (intro suffixed_front [OF assms not_stop(3)]) simp
  qed
qed

lemma tok_F_front:
  assumes "nul_free (w @ r)" "stopped r"
  shows "tok_F E text_stream (w @ r) = on_with2 r (tok_F E text_stream w)"
proof -
  let ?n = "length (takeWhile is_digit w)"
  have n: "scan text_stream w is_digit 0 = Some ?n" "scan text_stream (w @ r) is_digit 0 = Some ?n" "?n \<le> length w"
    using scan_text [of w is_digit 0] scan_front [OF assms stops_tests(3), of 0] assms(1) length_takeWhile_le [of is_digit w]
    by (simp_all add: is_digit_def less_eq_char_def)
  have "stops (\<lambda>c. c = CHR ''.'')" by (auto simp: stops_def stop_def is_blank_def)
  from str_at_test [OF assms(2) n(3) this]
  obtain c d where c: "str_at (w @ r) ?n = Some c" "str_at w ?n = Some d" "c = CHR ''.'' \<longleftrightarrow> d = CHR ''.''" by blast
  show ?thesis
  proof (cases "d = CHR ''.''")
    case True
    then have S: "Suc ?n \<le> length w" using str_at_charD [OF c(2)] by simp
    from str_at_test [OF assms(2) S stops_tests(3)]
    obtain c' d' where c': "str_at (w @ r) (Suc ?n) = Some c'" "str_at w (Suc ?n) = Some d'" "is_digit c' \<longleftrightarrow> is_digit d'" by blast
    let ?m = "Suc ?n + length (takeWhile is_digit (drop (Suc ?n) w))"
    have "scan text_stream w is_digit (Suc ?n) = Some ?m" "scan text_stream (w @ r) is_digit (Suc ?n) = Some ?m" "?m \<le> length w"
      using scan_text [of w is_digit "Suc ?n"] scan_front [OF assms stops_tests(3) S] assms(1) S takeWhile_bound [OF S, of is_digit]
      by (simp_all add: is_digit_def less_eq_char_def)
    then obtain m where m: "scan text_stream w is_digit (Suc ?n) = Some m" "scan text_stream (w @ r) is_digit (Suc ?n) = Some m" "m \<le> length w" by blast
    have "(if m > 255 then 255 else m) \<le> length w" using m(3) by simp
    note g = get_chars_front [OF this, of r] get_chars_text [OF this]
    show ?thesis using n c True c' m(1,2) g by (simp add: tok_F_def Let_def del: get_chars.simps)
  qed (use n c in \<open>simp add: tok_F_def\<close>)
qed

text \<open>The character of a literal may be one that ends other tokens.\<close>

definition hides :: "string \<Rightarrow> string \<Rightarrow> bool" where
  "hides w r \<longleftrightarrow> suffix [BACKSLASH, CHR ''#''] w \<and> r \<noteq> [] \<and> (hd r = CHR '';'' \<or> hd r = QUOTE_CHAR)"

lemma tok_char_front:
  assumes "stopped r" "\<not> hides w r"
  shows "tok_char text_stream (w @ r) = on_with2 r (tok_char text_stream w)"
proof -
  let ?nl = "BACKSLASH # ''#newline''" and ?hash = "[BACKSLASH, CHR ''#'']"
  have p: "peeks text_stream (w @ r) 0 ?nl = peeks text_stream w 0 ?nl" "peeks text_stream (w @ r) 0 ?hash = peeks text_stream w 0 ?hash"
    by (rule peeks_front [OF assms(1) _ not_stop(4)] peeks_front [OF assms(1) _ not_stop(5)]; simp)+
  obtain nl hash where q: "peeks text_stream w 0 ?nl = Some nl" "peeks text_stream w 0 ?hash = Some hash"
    using peeks_text [of 0 w ?nl] peeks_text [of 0 w ?hash] by (simp del: peeks.simps)
  have len: "nl \<Longrightarrow> 9 \<le> length w" "hash \<Longrightarrow> 2 \<le> length w"
    using peeks_bound [of w 0 ?nl] peeks_bound [of w 0 ?hash] q by (simp_all del: peeks.simps)
  have last: "w = ?hash" if hash "length w = 2"
    using that q(2) peeks_text [of 0 w ?hash] by (simp del: peeks.simps)
  show ?thesis
  proof (cases "hash \<and> \<not> nl")
    case True
    obtain c d where c: "str_at (w @ r) 2 = Some c" "str_at w 2 = Some d" "c = d \<or> stop c \<and> d = NUL \<and> r \<noteq> [] \<and> hd r = c \<and> 2 = length w"
      by (rule str_at_front [OF assms(1) len(2)]) (use True in auto)
    have "isgraph c \<longleftrightarrow> isgraph d" using c(3) last True assms(2) by (auto simp: hides_def stop_def is_blank_def isgraph_def less_eq_char_def)
    moreover have "c = d" if "isgraph d" using that c(3) by (auto simp: isgraph_def less_eq_char_def)
    moreover have "3 \<le> length w" if "isgraph d" using str_at_charD [OF c(2)] that
      by (cases "d = NUL") (auto simp: isgraph_def less_eq_char_def)
    ultimately show ?thesis using True p q c(1,2) by (auto simp: tok_char_def simp del: peeks.simps)
  next
    case False
    then show ?thesis using p q len(1) by (cases nl) (auto simp: tok_char_def simp del: peeks.simps)
  qed
qed

subsection \<open>Tokens look at the front of a text only\<close>

lemma on_with_chain:
  assumes "p = Some (n, x, t1)" "p' = on_with2 r p" "n = 0 \<Longrightarrow> q' (t1 @ r) = on_with r (q t1)"
  shows "Option.bind p' (\<lambda>(n :: nat, x, s). if n \<noteq> 0 then Some (tok x, s) else q' s) =
    on_with r (Option.bind p (\<lambda>(n, x, s). if n \<noteq> 0 then Some (tok x, s) else q s))"
  using assms by simp

lemma next_number_front:
  assumes "nul_free (w @ r)" "stopped r"
  shows "next_number E text_stream (w @ r) = on_with r (next_number E text_stream w)"
proof -
  have free: "nul_free (t' @ r)" if "nul_free (t @ r)" "leaves t b t'" for t t' b
    using that nul_free_suffix [of t t'] by (simp add: leaves_def)
  obtain n x t1 where 1: "tok_F E text_stream w = Some (n, x, t1)" "leaves w (n \<noteq> 0) t1" using tok_F_text assms(1) by fastforce
  note f1 = free [OF assms(1) 1(2)]
  obtain n2 x2 t2 where 2: "tok_U text_stream t1 = Some (n2, x2, t2)" "leaves t1 (n2 \<noteq> 0) t2" using tok_U_text f1 by fastforce
  note f2 = free [OF f1 2(2)]
  obtain n3 x3 t3 where 3: "tok_u text_stream t2 = Some (n3, x3, t3)" "leaves t2 (n3 \<noteq> 0) t3" using number_text(2) f2 by fastforce
  note f3 = free [OF f2 3(2)]
  obtain n4 x4 t4 where 4: "tok_I text_stream t3 = Some (n4, x4, t4)" "leaves t3 (n4 \<noteq> 0) t4" using number_text(1) f3 by fastforce
  note f4 = free [OF f3 4(2)]
  obtain n5 x5 t5 where 5: "tok_i text_stream t4 = Some (n5, x5, t5)" using number_text(3) f4 by fastforce
  show ?thesis
    unfolding next_number_def
    by (intro on_with_chain [OF 1(1) tok_F_front [OF assms]] on_with_chain [OF 2(1) tok_U_front [OF f1 assms(2)]]
        on_with_chain [OF 3(1) tok_suffixed_front(2) [OF f2 assms(2)]] on_with_chain [OF 4(1) tok_suffixed_front(1) [OF f3 assms(2)]]
        on_with_chain [OF 5 tok_i_front [OF f4 assms(2)]]) simp
qed

lemma tok_char_0: "tok_char text_stream t = Some (0, x, t') \<Longrightarrow> t' = t"
  by (auto simp: tok_char_def bind_eq_Some_conv split: if_splits)

lemma next_text_front:
  assumes "nul_free (w @ r)" "stopped r" "\<not> hides w r" "w \<noteq> []" "hd w \<noteq> QUOTE_CHAR"
  shows "next_text E text_stream (w @ r) = on_with r (next_text E text_stream w)"
proof -
  have w: "nul_free w" using assms(1) by simp
  obtain n x t1 where 1: "tok_symbol E text_stream w = Some (n, x, t1)" using symbol_text [OF w] by blast
  have t1: "t1 = w" if "n = 0" using 1 that assms(4) get_chars_text
    by (cases w) (auto simp: tok_symbol_def bind_eq_Some_conv scan_text [OF w] symchar_def split: if_splits)
  obtain n2 x2 t2 where 2: "tok_char text_stream w = Some (n2, x2, t2)" using char_text by blast
  have t2: "t2 = w" if "n2 = 0" using 2 that tok_char_0 by simp
  have 3: "tok_string E text_stream w = Some (0, [], w)" "tok_string E text_stream (w @ r) = Some (0, [], w @ r)"
    using assms(4,5) by (cases w; simp add: tok_string_def str_at_def)+
  show ?thesis
    using 1 2 3 t1 t2 tok_symbol_front [OF assms(1,2), of E] tok_char_front [OF assms(2,3)] next_number_front [OF assms(1,2), of E]
    by (auto simp: next_text_def)
qed

text \<open>The token after white space and comments, by its first character.\<close>

lemma next_token_first:
  assumes "nul_free t" "trim t = c # cs"
  shows "next_token E text_stream t =
    (if c = CHR 0x27 then Some (TOKQUOTE, cs) else if c = CHR 0x60 then Some (TOKBACKQUOTE, cs)
     else if c = CHR '','' then (if cs \<noteq> [] \<and> hd cs = CHR 0x40 then Some (TOKCOMMAAT, tl cs) else Some (TOKCOMMA, cs))
     else if c = CHR ''('' then Some (TOKOPENPAR, cs) else if c = CHR '')'' then Some (TOKCLOSEPAR, cs)
     else next_text E text_stream (c # cs))"
proof -
  have "clean_whitespace text_stream t = Some (c # cs)" using plain.clean_whitespace_law [of t t] assms by (auto simp: nul_free_def)
  moreover have "t \<noteq> []" using assms(2) by auto
  moreover have "tok_commaat text_stream (c # cs) = (if c = CHR '','' \<and> cs \<noteq> [] \<and> hd cs = CHR 0x40 then Some (2, tl cs) else Some (0, c # cs))"
    by (cases cs) (auto simp: tok_commaat_def str_at_def)
  ultimately show ?thesis
    by (simp add: next_token_def tok_quote_def tok_backquote_def tok_comma_def tok_openpar_def tok_closepar_def str_at_def)
qed

lemma next_token_none: "nul_free t \<Longrightarrow> trim t = [] \<Longrightarrow> next_token E text_stream t = Some (TOKENIZER_END, [])"
  using plain.clean_whitespace_law [of t t] by (cases "t = []") (auto simp: next_token_def nul_free_def)

subsection \<open>Texts and normal texts\<close>

text \<open>
  No backslash stands before a quote, which the compressor takes as an escape in a string literal and the tokeniser does not, and
  none in the character literals of the semicolon and of the quote, in which the compressor sees a comment or a string literal.
\<close>

fun plain_literals :: "string \<Rightarrow> bool" where
  "plain_literals [] = True"
| "plain_literals (c # cs) \<longleftrightarrow>
     (c = BACKSLASH \<longrightarrow> take 1 cs \<noteq> [QUOTE_CHAR] \<and> take 2 cs \<noteq> [CHR ''#'', CHR '';''] \<and> take 2 cs \<noteq> [CHR ''#'', QUOTE_CHAR]) \<and>
     plain_literals cs"

lemma plain_literals_append: "plain_literals (a @ b) \<Longrightarrow> plain_literals b"
  by (induction a) auto

lemma plain_literals_suffix: "plain_literals t \<Longrightarrow> suffix t' t \<Longrightarrow> plain_literals t'"
  by (auto simp: suffix_def dest: plain_literals_append)

lemma plain_literals_hides: "plain_literals (w @ r) \<Longrightarrow> \<not> hides w r"
proof
  assume p: "plain_literals (w @ r)" "hides w r"
  then obtain v where "w = v @ [BACKSLASH, CHR ''#'']" by (auto simp: hides_def suffix_def)
  then have "plain_literals (BACKSLASH # CHR ''#'' # r)" using p(1) plain_literals_append [of v "BACKSLASH # CHR ''#'' # r"]
    by (simp del: plain_literals.simps)
  then show False using p(2) by (cases r) (auto simp: hides_def)
qed

lemma normal_gob: "normal None True t = [] \<or> (\<exists>u. normal None True t = CHR '' '' # u)"
proof (induction t rule: trim.induct)
  case (2 c cs)
  then show ?case by (cases "is_blank c") (auto simp: is_blank_def isspace_def)
qed simp

lemma normal_stopped:
  assumes "stopped r"
  shows "stopped (normal None False r)" "\<not> hides w r \<Longrightarrow> \<not> hides w (normal None False r)"
proof -
  have "normal None False r = [] \<or> (\<exists>u. normal None False r = CHR '' '' # u) \<or> (\<exists>u. normal None False r = QUOTE_CHAR # u \<and> hd r = QUOTE_CHAR \<and> r \<noteq> [])"
  proof (cases r)
    case (Cons c cs)
    have "dropWhile (\<lambda>x. x \<noteq> CHR 0x0A) cs = [] \<or> (\<exists>ds. dropWhile (\<lambda>x. x \<noteq> CHR 0x0A) cs = CHR 0x0A # ds)"
      by (induction cs) auto
    moreover have "normal None False (CHR 0x0A # ds) = normal None True ds" for ds by (simp add: is_blank_def)
    moreover have "normal None False r = normal None False (dropWhile (\<lambda>x. x \<noteq> CHR 0x0A) cs)" if "c = CHR '';''" using Cons that by simp
    ultimately have "c = CHR '';'' \<Longrightarrow> normal None False r = [] \<or> (\<exists>u. normal None False r = CHR '' '' # u)"
      using normal_gob by (metis normal.simps(1))
    moreover have "is_blank c \<Longrightarrow> normal None False r = [] \<or> (\<exists>u. normal None False r = CHR '' '' # u)"
      using normal_gob [of cs] Cons by (auto simp: is_blank_def)
    moreover have "c = QUOTE_CHAR \<Longrightarrow> \<exists>u. normal None False r = QUOTE_CHAR # u" using Cons by (simp add: is_blank_def)
    moreover have "c = CHR '';'' \<or> is_blank c \<or> c = QUOTE_CHAR" using assms Cons by (auto simp: stopped_def stop_def)
    ultimately show ?thesis using Cons by auto
  qed simp
  then show "stopped (normal None False r)" "\<not> hides w r \<Longrightarrow> \<not> hides w (normal None False r)"
    by (auto simp: stopped_def stop_def is_blank_def hides_def)
qed

lemma trim_normal:
  "trim t = [] \<and> trim (normal None gob t) = [] \<or>
   (\<exists>c cs. trim t = c # cs \<and> \<not> isspace c \<and> c \<noteq> CHR '';'' \<and>
      trim (normal None gob t) = c # normal (if c = QUOTE_CHAR then Some False else None) False cs)"
proof (induction t arbitrary: gob rule: trim.induct)
  case (2 c cs)
  have blank: "is_blank c \<Longrightarrow> isspace c" by (auto simp: is_blank_def isspace_def)
  consider "c = CHR '';''" | "c \<noteq> CHR '';''" "is_blank c" | "c \<noteq> CHR '';''" "isspace c" "\<not> is_blank c" | "c \<noteq> CHR '';''" "\<not> isspace c"
    by blast
  then show ?case
  proof cases
    case 1
    then show ?thesis using 2(1) [OF 1, of gob] by simp
  next
    case c: 2
    then show ?thesis using 2(2) [OF c(1) blank, of True] blank by simp
  next
    case c: 3
    then have "c \<noteq> QUOTE_CHAR" by (auto simp: isspace_def)
    then show ?thesis using 2(2) [OF c(1,2), of False] c by (auto simp: isspace_def)
  next
    case 4
    then have "\<not> is_blank c" using blank by blast
    then show ?thesis using 4 by (cases gob) (simp_all add: isspace_def [of "CHR '' ''"])
  qed
qed simp

lemma normal_string:
  "QUOTE_CHAR \<notin> set body \<Longrightarrow> plain_literals (body @ QUOTE_CHAR # rest) \<Longrightarrow> \<not> (b \<and> body = []) \<Longrightarrow>
     normal (Some b) False (body @ QUOTE_CHAR # rest) = body @ QUOTE_CHAR # normal None False rest"
proof (induction body arbitrary: b)
  case (Cons x xs)
  then show ?case by (cases xs) auto
qed simp

lemma normal_open_string: "QUOTE_CHAR \<notin> set cs \<Longrightarrow> normal (Some b) False cs = cs"
  by (induction cs arbitrary: b) auto

lemma next_text_string:
  assumes "nul_free (body @ rest)" "QUOTE_CHAR \<notin> set body" "mallocs E"
  shows "next_text E text_stream (QUOTE_CHAR # body @ QUOTE_CHAR # rest) = Some (TOKSTRING body (length body), rest)"
proof -
  let ?t = "body @ QUOTE_CHAR # rest" and ?test = "\<lambda>c. c \<noteq> NUL \<and> c \<noteq> QUOTE_CHAR"
  have "takeWhile ?test ?t = body" using assms(1,2) by (subst takeWhile_append2) (auto simp: nul_free_def)
  moreover have "nul_free ?t" using assms(1) by (simp add: nul_free_def)
  ultimately have "scan text_stream ?t ?test 0 = Some (length body)" using scan_text [of ?t ?test 0] by simp
  then have "tok_string E text_stream (QUOTE_CHAR # ?t) = Some (int (length body) + 2, body, rest)"
    using get_chars_text [of "length body" ?t] assms(3) by (simp add: tok_string_def str_at_def mallocs_def)
  moreover have "tok_symbol E text_stream (QUOTE_CHAR # ?t) = Some (0, [], QUOTE_CHAR # ?t)" "tok_char text_stream (QUOTE_CHAR # ?t) = Some (0, NUL, QUOTE_CHAR # ?t)"
    by (simp_all add: tok_symbol_def tok_char_def str_at_def symchar0_def)
  ultimately show ?thesis by (simp add: next_text_def)
qed

subsection \<open>The same tokens\<close>

text \<open>A text and what the compressor keeps of it; after the quote of an open string literal the two are equal.\<close>

definition reads_as :: "string \<Rightarrow> string \<Rightarrow> bool" where
  "reads_as t u \<longleftrightarrow> nul_free t \<and> nul_free u \<and> (u = t \<or> plain_literals t \<and> (\<exists>gob. u = normal None gob t))"

lemma normal_nul_free: "nul_free t \<Longrightarrow> nul_free (normal m gob t)"
proof (induction m gob t rule: normal.induct)
  case (3 gob c cs)
  have "nul_free (dropWhile (\<lambda>x. x \<noteq> CHR 0x0A) cs)" using 3(4) by (auto simp: nul_free_def dest: set_dropWhileD)
  with 3 show ?case by (auto simp: nul_free_def split: if_splits)
qed (auto simp: nul_free_def)

lemma reads_as_refl: "nul_free t \<Longrightarrow> reads_as t t"
  by (simp add: reads_as_def)

lemma reads_as_normal: "nul_free t \<Longrightarrow> plain_literals t \<Longrightarrow> reads_as t (normal None gob t)"
  using normal_nul_free by (auto simp: reads_as_def)

text \<open>Both texts begin with the same atom.\<close>

lemma same_atom:
  assumes "nul_free (c # cs)" "plain_literals (c # cs)" "\<not> isspace c" "c \<noteq> CHR '';''" "c \<noteq> QUOTE_CHAR"
  shows "\<exists>tok t' u'. next_text E text_stream (c # cs) = Some (tok, t') \<and>
    next_text E text_stream (c # normal None False cs) = Some (tok, u') \<and> reads_as t' u'"
proof -
  let ?go = "\<lambda>c. \<not> stop c"
  let ?w = "takeWhile ?go (c # cs)" and ?r = "dropWhile ?go (c # cs)"
  have go: "?go c" using assms(3-5) by (auto simp: stop_def is_blank_def isspace_def)
  have w: "?w \<noteq> []" "hd ?w \<noteq> QUOTE_CHAR" "list_all ?go ?w" using go assms(5) by (auto simp: list_all_iff dest: set_takeWhileD)
  have wr: "?w @ ?r = c # cs" by (rule takeWhile_dropWhile_id)
  have r: "stopped ?r" using hd_dropWhile [of ?go "c # cs"] unfolding stopped_def by blast
  have plain: "normal None False (v @ ?r) = v @ normal None False ?r" if "list_all ?go v" for v
    using that by (intro normal_plain) (auto simp: list_all_iff stop_def)
  have u: "c # normal None False cs = ?w @ normal None False ?r"
  proof -
    have "c # normal None False cs = normal None False (c # cs)" using assms(4,5) go by (simp add: stop_def)
    also have "\<dots> = ?w @ normal None False ?r" using plain [OF w(3)] unfolding wr .
    finally show ?thesis .
  qed
  have nf: "nul_free (?w @ ?r)" "nul_free (?w @ normal None False ?r)"
    using assms(1) normal_nul_free [of cs None False] unfolding wr u [symmetric] by (simp_all add: nul_free_def)
  have hid: "\<not> hides ?w ?r" by (rule plain_literals_hides) (simp only: wr assms(2))
  obtain tok s where s: "next_text E text_stream ?w = Some (tok, s)" "suffix s ?w"
    using next_text_text [of ?w E] nf(1) by (auto simp: leaves_def)
  from s(2) obtain zs where "?w = zs @ s" unfolding suffix_def by blast
  then have go_s: "list_all ?go s" using w(3) by (metis list_all_append)
  have "next_text E text_stream (?w @ ?r) = Some (tok, s @ ?r)" "next_text E text_stream (?w @ normal None False ?r) = Some (tok, s @ normal None False ?r)"
    using next_text_front [OF nf(1) r hid w(1,2), of E] next_text_front [OF nf(2) normal_stopped(1) [OF r] normal_stopped(2) [OF r hid] w(1,2), of E] s(1)
    by simp_all
  moreover have "s @ normal None False ?r = normal None False (s @ ?r)" using plain [OF go_s] by simp
  moreover have "suffix (s @ ?r) (?w @ ?r)" using s(2) by (auto simp: suffix_def)
  then have "nul_free (s @ ?r)" "plain_literals (s @ ?r)" unfolding wr using assms(1,2) nul_free_suffix plain_literals_suffix by blast+
  ultimately show ?thesis unfolding u wr using reads_as_normal by metis
qed

text \<open>Both texts begin with a string literal, or with a quote that is not closed.\<close>

lemma same_string:
  assumes "nul_free cs" "plain_literals cs" "mallocs E"
  shows "\<exists>tok t' u'. next_text E text_stream (QUOTE_CHAR # cs) = Some (tok, t') \<and>
    next_text E text_stream (QUOTE_CHAR # normal (Some False) False cs) = Some (tok, u') \<and> reads_as t' u'"
proof (cases "QUOTE_CHAR \<in> set cs")
  case True
  then obtain body rest where cs: "cs = body @ QUOTE_CHAR # rest" "QUOTE_CHAR \<notin> set body" by (meson split_list_first)
  have nf: "nul_free (body @ rest)" "nul_free rest" "nul_free (body @ normal None False rest)"
    using assms(1) cs(1) normal_nul_free [of rest None False] by (simp_all add: nul_free_def)
  have "plain_literals rest" using assms(2) plain_literals_append [of "body @ [QUOTE_CHAR]" rest] cs(1) by simp
  then show ?thesis
    using next_text_string [OF nf(1) cs(2) assms(3)] next_text_string [OF nf(3) cs(2) assms(3)] normal_string [OF cs(2), of rest False] assms(2)
      reads_as_normal [OF nf(2)] cs(1) by auto
next
  case False
  have "nul_free (QUOTE_CHAR # cs)" using assms(1) by (simp add: nul_free_def)
  then obtain tok t' where "next_text E text_stream (QUOTE_CHAR # cs) = Some (tok, t')" "nul_free t'"
    using next_text_text [of "QUOTE_CHAR # cs" E] nul_free_suffix by (auto simp: leaves_def)
  then show ?thesis using normal_open_string [OF False] reads_as_refl by auto
qed

lemma normal_at:
  assumes "cs \<noteq> []" "hd cs = CHR 0x40"
  shows "normal None False cs = CHR 0x40 # normal None False (tl cs)"
  using assms by (cases cs) (simp_all add: is_blank_def)

lemma normal_not_at:
  assumes "\<not> (cs \<noteq> [] \<and> hd cs = CHR 0x40)"
  shows "\<not> (normal None False cs \<noteq> [] \<and> hd (normal None False cs) = CHR 0x40)"
proof (cases "stopped cs")
  case True
  then show ?thesis using normal_stopped(1) [OF True] by (auto simp: stopped_def stop_def is_blank_def)
next
  case False
  then obtain c ds where "cs = c # ds" "\<not> stop c" by (cases cs) (auto simp: stopped_def)
  then show ?thesis using assms by (auto simp: stop_def)
qed

lemma same_token:
  assumes "reads_as t u" "mallocs E"
  shows "\<exists>tok t' u'. next_token E text_stream t = Some (tok, t') \<and> next_token E text_stream u = Some (tok, u') \<and> reads_as t' u'"
proof (cases "u = t")
  case True
  have "nul_free t" using assms(1) by (simp add: reads_as_def)
  then show ?thesis using next_token_text [of t E] nul_free_suffix True reads_as_refl by (fastforce simp: leaves_def)
next
  case False
  then obtain gob where t: "nul_free t" "nul_free u" "plain_literals t" "u = normal None gob t" using assms(1) by (auto simp: reads_as_def)
  show ?thesis
  proof (cases "trim t = []")
    case True
    then have "trim u = []" using trim_normal [of t gob] t(4) by auto
    then show ?thesis using True next_token_none [OF t(1)] next_token_none [OF t(2)] reads_as_refl [of "[]"] by (simp add: nul_free_def)
  next
    case False
    then obtain c cs where c: "trim t = c # cs" "\<not> isspace c" "c \<noteq> CHR '';''" "trim u = c # normal (if c = QUOTE_CHAR then Some False else None) False cs"
      using trim_normal [of t gob] t(4) by auto
    have "suffix (c # cs) t" using trim_suffix [of t] c(1) by simp
    then have ok: "nul_free (c # cs)" "plain_literals (c # cs)" using t(1,3) nul_free_suffix plain_literals_suffix by blast+
    then have ok': "nul_free cs" "plain_literals cs" by (simp_all add: nul_free_def)
    then have tl: "nul_free (tl cs)" "plain_literals (tl cs)" using nul_free_suffix plain_literals_suffix suffix_tl by blast+
    note first = next_token_first [OF t(1) c(1), of E] next_token_first [OF t(2) c(4), of E]
    consider "c = QUOTE_CHAR" | "c = CHR '',''" | "c \<in> {CHR 0x27, CHR 0x60, CHR ''('', CHR '')''}"
      | "c \<notin> {CHR 0x27, CHR 0x60, CHR ''('', CHR '')'', CHR '','', QUOTE_CHAR}" by blast
    then show ?thesis
    proof cases
      case 1
      then show ?thesis using first same_string [OF ok' assms(2)] by simp
    next
      case 2
      then show ?thesis
        using first normal_at [of cs] normal_not_at [of cs] reads_as_normal [OF ok', of False] reads_as_normal [OF tl, of False]
        by (cases "cs \<noteq> [] \<and> hd cs = CHR 0x40") auto
    next
      case 3
      from this show ?thesis by (elim insertE emptyE) (use first reads_as_normal [OF ok', of False] in simp_all)
    next
      case 4
      then show ?thesis using first same_atom [OF ok c(2,3), of E] by auto
    qed
  qed
qed

interpretation kept: same_tokens E text_stream text_stream "\<lambda>t u. mallocs E \<and> reads_as t u" for E
  by unfold_locales (use same_token in blast)

interpretation kept_back: same_tokens E text_stream text_stream "\<lambda>u t. mallocs E \<and> reads_as t u" for E
  by unfold_locales (use same_token in blast)

interpretation str_text: two_streams string_stream "string_delivers str" text_stream "\<lambda>t t'. t' = t \<and> NUL \<notin> set t" for str
  by unfold_locales

interpretation text_str: two_streams text_stream "\<lambda>t t'. t' = t \<and> NUL \<notin> set t" string_stream "string_delivers str" for str
  by unfold_locales

lemma tokpar_parse_text:
  assumes "NUL \<notin> set s"
  shows "tokpar_parse E rt s = parse_program E text_stream rt s"
proof -
  let ?s = "\<lparr>ts_str = s, ts_pos = 0\<rparr>"
  have "string_delivers s s ?s" using assms by (simp add: string_delivers_def nul_free_def)
  then have "str_text.same_text s ?s s" "text_str.same_text s s ?s"
    using assms unfolding str_text.same_text_def text_str.same_text_def by auto
  from str_text.tokens.sim_parse_program [OF this(1), of E rt] text_str.tokens.sim_parse_program [OF this(2), of E rt]
  show ?thesis unfolding tokpar_parse_def by (rule sim_antisym)
qed

lemma parse_normalise:
  assumes "NUL \<notin> set s" "plain_literals s" "mallocs E"
  shows "tokpar_parse E rt (normalise s) = tokpar_parse E rt s"
proof -
  have r: "reads_as s (normalise s)" using reads_as_normal [of s False] assms(1,2) by (simp add: normalise_def nul_free_def)
  then have "mallocs E \<and> reads_as s (normalise s)" using assms(3) by simp
  from kept_back.sim_parse_program [OF this, of rt] kept.sim_parse_program [OF this, of rt]
  have "parse_program E text_stream rt (normalise s) = parse_program E text_stream rt s" by (rule sim_antisym)
  then show ?thesis using r assms(1) by (simp add: tokpar_parse_text reads_as_def nul_free_def)
qed

end
