(* ===== verification/Parser_Correct.thy ===== *)
theory Parser_Correct
  imports Normal_Tokens
begin

text \<open>
  Properties of \<open>src/tokpar.c\<close>: the tokeniser returns, stays inside the text and makes progress; reading
  compressed code gives the same expressions, symbols and memory as reading the text it was made from.
\<close>

lemma normalise_nul_free: "NUL \<notin> set s \<Longrightarrow> nul_free (normalise s)"
  using normal_nul_free [of s None False] by (simp add: nul_free_def normalise_def)

text \<open>
  C18: \<open>next_token\<close> on a C string returns without reading behind the final zero, leaves the position inside
  the text, and takes at least one character for every token other than the end of the input and the error.
\<close>

theorem next_token_total:
  assumes "NUL \<notin> set str" and "pos \<le> length str"
  shows "\<exists>tok pos'. next_token E string_stream \<lparr>ts_str = str, ts_pos = pos\<rparr> = Some (tok, \<lparr>ts_str = str, ts_pos = pos'\<rparr>) \<and>
    pos \<le> pos' \<and> pos' \<le> length str \<and> (tok \<noteq> TOKENIZER_END \<and> tok \<noteq> TOKENIZER_ERROR \<longrightarrow> pos < pos')"
proof -
  let ?s = "\<lparr>ts_str = str, ts_pos = pos\<rparr>"
  have d: "string_delivers str (drop pos str) ?s" using assms by (simp add: string_delivers_def nul_free_def)
  have "nul_free (drop pos str)" using str.nul_law [OF d] by (simp add: nul_free_def)
  then obtain tok t' where t': "next_token E text_stream (drop pos str) = Some (tok, t')" "leaves (drop pos str) (\<not> is_end tok) t'"
    using next_token_text by blast
  obtain s' where s': "next_token E string_stream ?s = Some (tok, s')" "string_delivers str t' s'"
    using simD [OF str.sim_next_token [OF d] t'(1)] by auto
  have "length t' \<le> length str - pos" using t'(2) suffix_length_le [of t' "drop pos str"] by (simp add: leaves_def)
  moreover have "length t' < length str - pos" if "\<not> is_end tok" using t'(2) that by (simp add: leaves_def)
  moreover have "s' = \<lparr>ts_str = str, ts_pos = ts_pos s'\<rparr>" "ts_pos s' \<le> length str" "length t' = length str - ts_pos s'"
    using s'(2) by (auto simp: string_delivers_def)
  ultimately show ?thesis using s'(1) assms(2) by (intro exI [of _ tok] exI [of _ "ts_pos s'"]) (auto simp: is_end_def)
qed

theorem next_token_total_witness:
  "\<forall>E. \<exists>tok pos'. next_token E string_stream \<lparr>ts_str = ''(+ 1.5'', ts_pos = 3\<rparr> = Some (tok, \<lparr>ts_str = ''(+ 1.5'', ts_pos = pos'\<rparr>) \<and>
    3 \<le> pos' \<and> pos' \<le> length ''(+ 1.5'' \<and> (tok \<noteq> TOKENIZER_END \<and> tok \<noteq> TOKENIZER_ERROR \<longrightarrow> 3 < pos')"
  by (intro allI next_token_total) simp_all

text \<open>What the compressed data delivers is the text without comments and superfluous white space.\<close>

lemma parse_compressed_normal:
  assumes "NUL \<notin> set s" "length s < 2 ^ 28" "encodable None s" "normalise s \<noteq> []" "\<forall>n. has_mem n"
  shows "\<exists>d. compression_compress has_mem s = Some (Some d) \<and>
    (\<forall>E rt. tokpar_parse_compressed E rt d = tokpar_parse E rt (normalise s))"
proof -
  obtain its d where r: "lex None False s = Some its" "compression_compress has_mem s = Some (Some d)"
      "length d = size_bytes (length (items_bits its))" "read_header d = Some (of_nat (length (items_bits its)))"
      "take (length (items_bits its)) (drop 32 (bits_of d)) = items_bits its" "length (items_bits its) \<le> 8 * length s"
    using compression_compress_result [OF assms] by blast
  let ?ds = "\<lparr>dc_compressed_bits = of_nat (length (items_bits its)), dc_i = 32, dc_string_mode = False, dc_last_string_char = NUL, dc_src = d\<rparr>"
  let ?s = "\<lparr>tc_ds = ?ds, tc_decomp_buff = replicate DECOMP_BUFF_SIZE NUL, tc_decomp_bytes = 0, tc_buff_pos = 0\<rparr>"
  have "decoding None 32 (length (items_bits its)) ?ds" using r(3,6) assms(2) by (simp add: decoding_def size_bytes_def)
  then have "compressed_delivers (normalise s) ?s"
    unfolding compressed_delivers_def using normalise_nul_free [OF assms(1)] wf_lex [OF r(1)] r(5) lex_text [OF r(1)]
    by (intro conjI exI [of _ None] exI [of _ its] exI [of _ 32]) (simp_all add: normalise_def)
  moreover have "string_delivers (normalise s) (normalise s) \<lparr>ts_str = normalise s, ts_pos = 0\<rparr>"
    using normalise_nul_free [OF assms(1)] by (simp add: string_delivers_def)
  ultimately have "tokpar_parse_compressed E rt d = tokpar_parse E rt (normalise s)" for E rt
    using parse_same_text r(4) by (simp add: tokpar_parse_compressed_def tokpar_parse_def compression_init_state_def)
  with r(2) show ?thesis by blast
qed

text \<open>
  C17: for a text that can be compressed, \<open>tokpar_parse_compressed\<close> on the compressed data does the same as
  \<open>tokpar_parse\<close> on the text itself, with its comments and white space: the same value, heap, symbol table and memory,
  and the same failures. The text must not have a backslash before a quote, nor the character literal of the semicolon or of the quote,
  and the \<open>malloc\<close> of the tokeniser must succeed.
\<close>

theorem parse_compressed_equiv:
  assumes "NUL \<notin> set s" "length s < 2 ^ 28" "encodable None s" "plain_literals s" "normalise s \<noteq> []" "\<forall>n. has_mem n"
  shows "\<exists>d. compression_compress has_mem s = Some (Some d) \<and>
    (\<forall>E rt. mallocs E \<longrightarrow> tokpar_parse_compressed E rt d = tokpar_parse E rt s)"
proof -
  obtain d where "compression_compress has_mem s = Some (Some d)" "\<forall>E rt. tokpar_parse_compressed E rt d = tokpar_parse E rt (normalise s)"
    using parse_compressed_normal [OF assms(1-3,5,6)] by blast
  then show ?thesis using parse_normalise [OF assms(1,4)] by auto
qed

text \<open>A program with a comment, a string literal with a semicolon in it and a character literal.\<close>

definition commented_text :: string where
  "commented_text = ''(define  f ; A comment (of one'' @ [QUOTE_CHAR, CHR 0x0A] @ ''  (list '' @ [QUOTE_CHAR] @ ''X ; y'' @ [QUOTE_CHAR] @
     '' '' @ [BACKSLASH] @ ''#a ;b'' @ [CHR 0x0A] @ '' 12u28))''"

lemma commented_text_size: "NUL \<notin> set commented_text" "length commented_text < 2 ^ 28"
  by (simp_all add: commented_text_def)

lemma commented_text_encodable: "encodable None commented_text" "plain_literals commented_text"
  by code_simp+

lemma commented_text_normalise:
  "normalise commented_text = ''(define f (list '' @ [QUOTE_CHAR] @ ''X ; y'' @ [QUOTE_CHAR] @ '' '' @ [BACKSLASH] @ ''#a 12u28))''"
  by code_simp

lemmas commented_text_facts = commented_text_size commented_text_encodable commented_text_normalise

theorem parse_compressed_equiv_witness:
  "\<exists>d. compression_compress (\<lambda>n. True) commented_text = Some (Some d) \<and>
    (\<forall>E rt. mallocs E \<longrightarrow> tokpar_parse_compressed E rt d = tokpar_parse E rt commented_text)"
  using parse_compressed_equiv [of commented_text "\<lambda>n. True"] commented_text_facts by simp

text \<open>
  Without the condition on backslashes the two differ. The compressor takes the semicolon of a character literal
  for the start of a comment: the tokeniser reads the literal from the text and an error from what is kept of it.
\<close>

lemma semicolon_literal_lost:
  "next_token E text_stream [BACKSLASH, CHR ''#'', CHR '';''] = Some (TOKCHAR (CHR '';''), [])"
  "normalise [BACKSLASH, CHR ''#'', CHR '';''] = [BACKSLASH, CHR ''#'']"
  "next_token E text_stream [BACKSLASH, CHR ''#''] = Some (TOKENIZER_ERROR, [BACKSLASH, CHR ''#''])"
proof -
  let ?t = "[BACKSLASH, CHR ''#'', CHR '';'']" and ?u = "[BACKSLASH, CHR ''#'']"
  have nf: "nul_free ?t" "nul_free ?u" by (simp_all add: nul_free_def)
  have trim: "trim ?t = ?t" "trim ?u = ?u" by (simp_all add: isspace_def)
  have sym: "tok_symbol E text_stream ?t = Some (0, [], ?t)" "tok_symbol E text_stream ?u = Some (0, [], ?u)"
    by (simp_all add: tok_symbol_def str_at_def symchar0_def)
  have "tok_char text_stream ?t = Some (3, CHR '';'', [])" by (simp add: tok_char_def str_at_def isgraph_def less_eq_char_def)
  then show "next_token E text_stream ?t = Some (TOKCHAR (CHR '';''), [])"
    using next_token_first [OF nf(1) trim(1), of E] sym(1) by (simp add: next_text_def)
  show "normalise ?t = ?u" by (simp add: normalise_def is_blank_def)
  have dec: "scan text_stream ?u is_digit 0 = Some 0" "scan_dec text_stream ?u 0 0 = Some (0, 0)"
    using scan_text [OF nf(2), of is_digit 0] scan_dec_text [OF nf(2), of 0 0] by (simp_all add: is_digit_def less_eq_char_def)
  then have "next_number E text_stream ?u = Some (TOKENIZER_ERROR, ?u)"
    by (simp add: next_number_def tok_F_def tok_U_def tok_u_def tok_I_def tok_i_def str_at_def)
  moreover have "tok_char text_stream ?u = Some (0, NUL, ?u)" by (simp add: tok_char_def str_at_def isgraph_def less_eq_char_def)
  moreover have "tok_string E text_stream ?u = Some (0, [], ?u)" by (simp add: tok_string_def str_at_def)
  ultimately show "next_token E text_stream ?u = Some (TOKENIZER_ERROR, ?u)"
    using next_token_first [OF nf(2) trim(2), of E] sym(2) by (simp add: next_text_def)
qed

end
