(* ===== verification/Printer.thy ===== *)
theory Printer
  imports Stack Fundamental
begin

text \<open>
  The printer of \<open>src/print.c\<close>: \<open>print_value\<close> writes the text of a value into a buffer, with a work stack of
  values and instructions.

  Buffers are lists of characters of their full size. \<open>snprintf\<close> writes at most one character less than the size it
  is given and a zero, and returns the length of the whole text. The text of a float is a parameter.
\<close>

abbreviation (input) "PRINT_STACK_SIZE \<equiv> (256 :: nat)"
abbreviation (input) "PRINT \<equiv> (1 :: UINT)"
abbreviation (input) "PRINT_SPACE \<equiv> (2 :: UINT)"
abbreviation (input) "START_LIST \<equiv> (3 :: UINT)"
abbreviation (input) "CONTINUE_LIST \<equiv> (4 :: UINT)"
abbreviation (input) "END_LIST \<equiv> (5 :: UINT)"

subsection \<open>Formatting\<close>

fun nat_text :: "nat \<Rightarrow> nat \<Rightarrow> string" where
  "nat_text base n =
     (if base \<le> 1 then [] else
      (if n < base then [] else nat_text base (n div base)) @
      [char_of (let d = n mod base in if d < 10 then 48 + d else 87 + d)])"

declare nat_text.simps [simp del]

definition u_text :: "UINT \<Rightarrow> string" where
  "u_text w = nat_text 10 (unat w)"

definition i_text :: "SINT \<Rightarrow> string" where
  "i_text w = (if sint w < 0 then ''-'' @ nat_text 10 (nat (- sint w)) else nat_text 10 (nat (sint w)))"

definition x_text :: "UINT \<Rightarrow> string" where
  "x_text w = nat_text 16 (unat w)"

definition snprintf :: "string \<Rightarrow> int \<Rightarrow> int \<Rightarrow> string \<Rightarrow> string option" where
  "snprintf buf off sz txt =
     (if sz = 0 then Some buf
      else
        let w = take (nat sz - 1) txt @ [CHR 0x00] in
        if 0 \<le> off \<and> nat off + length w \<le> length buf
        then Some (take (nat off) buf @ w @ drop (nat off + length w) buf) else None)"

record printer_state =
  ps_stack :: stack
  ps_buf :: string
  ps_offset :: int
  ps_n :: int

text \<open>\<open>n = snprintf(buf + offset, len - offset, ...); offset += n\<close>\<close>

definition print_text :: "int \<Rightarrow> printer_state \<Rightarrow> string \<Rightarrow> printer_state option" where
  "print_text len ps txt = do {
     buf \<leftarrow> snprintf (ps_buf ps) (ps_offset ps) (len - ps_offset ps) txt;
     Some (ps\<lparr>ps_buf := buf, ps_n := int (length txt), ps_offset := ps_offset ps + int (length txt)\<rparr>)
   }"

subsection \<open>Instructions\<close>

text \<open>The text of an error with the buffer as it is by then, or the next state.\<close>

type_synonym print_result = "(string \<times> string) + printer_state"

definition out_of_stack :: string where
  "out_of_stack = ''Error: Out of print stack'' @ [CHR 0x0A]"

definition push_or_fail :: "printer_state \<Rightarrow> UINT list \<Rightarrow> print_result option" where
  "push_or_fail ps vs = do {
     (res, s) \<leftarrow> push_seq (push_u32 no_malloc) (ps_stack ps) vs;
     if res then Some (Inr (ps\<lparr>ps_stack := s\<rparr>)) else Some (Inl (out_of_stack, ps_buf ps))
   }"

definition print_cell :: "printer_state \<Rightarrow> VALUE \<Rightarrow> VALUE \<Rightarrow> print_result option" where
  "print_cell ps car_val cdr_val =
     push_or_fail ps
       ((if type_of cdr_val = PTR_TYPE_CONS then [cdr_val, CONTINUE_LIST]
         else if type_of cdr_val = VAL_TYPE_SYMBOL \<and> dec_sym cdr_val = DEF_REPR_NIL then [END_LIST]
         else [END_LIST, cdr_val, PRINT, PRINT_SPACE]) @ [car_val, PRINT])"

definition print_start_list :: "int \<Rightarrow> heap_state \<Rightarrow> printer_state \<Rightarrow> VALUE \<Rightarrow> print_result option" where
  "print_start_list len h ps cur = do {
     ps \<leftarrow> print_text len ps ''('';
     car_val \<leftarrow> car h cur;
     cdr_val \<leftarrow> cdr h cur;
     print_cell ps car_val cdr_val
   }"

definition print_continue_list :: "int \<Rightarrow> heap_state \<Rightarrow> printer_state \<Rightarrow> VALUE \<Rightarrow> print_result option" where
  "print_continue_list len h ps cur =
     (if type_of cur = VAL_TYPE_SYMBOL \<and> dec_sym cur = DEF_REPR_NIL then Some (Inr ps)
      else do {
        car_val \<leftarrow> car h cur;
        cdr_val \<leftarrow> cdr h cur;
        ps \<leftarrow> print_text len ps '' '';
        print_cell ps car_val cdr_val
      })"

definition cstring_text :: "cstring \<Rightarrow> string" where
  "cstring_text = map (\<lambda>w. char_of (unat w))"

text \<open>The text of a value that is not a list: \<open>Inl\<close> an error.\<close>

definition atom_text :: "(FLOAT \<Rightarrow> string) \<Rightarrow> runtime \<Rightarrow> VALUE \<Rightarrow> (string + string) option" where
  "atom_text f_text rt cur =
     (let t = type_of cur; h = rt_heap rt; m = rt_mem rt in
      if t = PTR_TYPE_REF then Some (Inr ''_ref_'')
      else if t = PTR_TYPE_BOXED_F then do { v \<leftarrow> car h cur; Some (Inr (''{'' @ f_text v @ ''}'')) }
      else if t = PTR_TYPE_BOXED_U then do { v \<leftarrow> car h cur; Some (Inr (''{'' @ u_text v @ ''}'')) }
      else if t = PTR_TYPE_BOXED_I then do { v \<leftarrow> car h cur; Some (Inr (''{'' @ i_text v @ ''}'')) }
      else if t = PTR_TYPE_ARRAY then do {
        array \<leftarrow> car h cur;
        elt_type \<leftarrow> mem_read m array;
        if elt_type = VAL_TYPE_CHAR then do {
          s \<leftarrow> read_cstring m (array + 8);
          Some (Inr ([CHR 0x22] @ cstring_text s @ [CHR 0x22]))
        } else Some (Inl (''Error: Array type not supported'' @ [CHR 0x0A]))
      }
      else if t = PTR_TYPE_SYMBOL_INDIRECTION then Some (Inr (''*'' @ u_text (dec_symbol_indirection cur) @ ''*''))
      else if t = VAL_TYPE_SYMBOL then do {
        name \<leftarrow> symrepr_lookup_name (rt_sym rt) m (dec_sym cur);
        case name of
          SpecialName s \<Rightarrow> Some (Inr s)
        | MemoryName a \<Rightarrow>
            if a = 0 then Some (Inl (''Error: Symbol not in table '' @ u_text (dec_sym cur)))
            else do { s \<leftarrow> read_cstring m a; Some (Inr (cstring_text s)) }
      }
      else if t = VAL_TYPE_I then Some (Inr (i_text (dec_i cur)))
      else if t = VAL_TYPE_U then Some (Inr (u_text (dec_u cur)))
      else if t = VAL_TYPE_CHAR then Some (Inr [CHR 0x5C, CHR ''#'', char_of (unat (dec_char cur))])
      else Some (Inl (''Error: print does not recognize type of value: '' @ x_text cur)))"

definition print_print :: "(FLOAT \<Rightarrow> string) \<Rightarrow> int \<Rightarrow> runtime \<Rightarrow> printer_state \<Rightarrow> VALUE \<Rightarrow> print_result option" where
  "print_print f_text len rt ps cur =
     (if type_of cur = PTR_TYPE_CONS then push_or_fail ps [cur, START_LIST]
      else do {
        r \<leftarrow> atom_text f_text rt cur;
        case r of Inl err \<Rightarrow> Some (Inl (err, ps_buf ps)) | Inr txt \<Rightarrow> map_option Inr (print_text len ps txt)
      })"

definition print_instr :: "(FLOAT \<Rightarrow> string) \<Rightarrow> int \<Rightarrow> runtime \<Rightarrow> printer_state \<Rightarrow> print_result option" where
  "print_instr f_text len rt ps = do {
     (instr, s) \<leftarrow> pop_u32 (ps_stack ps);
     let ps = ps\<lparr>ps_stack := s\<rparr>;
     if instr = START_LIST then do {
       (cur, s) \<leftarrow> pop_u32 s; print_start_list len (rt_heap rt) (ps\<lparr>ps_stack := s\<rparr>) cur }
     else if instr = CONTINUE_LIST then do {
       (cur, s) \<leftarrow> pop_u32 s; print_continue_list len (rt_heap rt) (ps\<lparr>ps_stack := s\<rparr>) cur }
     else if instr = END_LIST then map_option Inr (print_text len ps '')'')
     else if instr = PRINT_SPACE then map_option Inr (print_text len ps '' '')
     else if instr = PRINT then do {
       (cur, s) \<leftarrow> pop_u32 s; print_print f_text len rt (ps\<lparr>ps_stack := s\<rparr>) cur }
     else Some (Inl (''Error: Corrupt print stack!'', ps_buf ps))
   }"

partial_function (option) print_loop ::
  "(FLOAT \<Rightarrow> string) \<Rightarrow> int \<Rightarrow> runtime \<Rightarrow> printer_state \<Rightarrow> print_result option" where
  "print_loop f_text len rt ps =
     (if \<not> stack_is_empty (ps_stack ps) \<and> ps_offset ps \<le> len - 5
      then Option.bind (print_instr f_text len rt ps) (\<lambda>r.
        case r of Inl err \<Rightarrow> Some (Inl err) | Inr ps \<Rightarrow> print_loop f_text len rt ps)
      else Some (Inr ps))"

text \<open>The return value and the two buffers; \<open>storage\<close> is the uninitialised array of the work stack.\<close>

definition print_value ::
  "(FLOAT \<Rightarrow> string) \<Rightarrow> UINT list \<Rightarrow> runtime \<Rightarrow> string \<Rightarrow> int \<Rightarrow> string \<Rightarrow> int \<Rightarrow> VALUE \<Rightarrow> (int \<times> string \<times> string) option" where
  "print_value f_text storage rt buf len error len_error t = do {
     let s = snd (stack_create \<lparr>sk_data = None, sk_sp = 0, sk_size = 0, sk_growable = False\<rparr> storage 256);
     (_, s) \<leftarrow> push_u32_2 no_malloc s t PRINT;
     r \<leftarrow> print_loop f_text len rt \<lparr>ps_stack = s, ps_buf = buf, ps_offset = 0, ps_n = 0\<rparr>;
     case r of
       Inl (err, buf) \<Rightarrow> do { error \<leftarrow> snprintf error 0 len_error err; Some (- 1, buf, error) }
     | Inr ps \<Rightarrow>
         if \<not> stack_is_empty (ps_stack ps) then do {
           buf \<leftarrow> snprintf (ps_buf ps) (len - 5) 4 ''...'';
           buf \<leftarrow> arr_set buf (nat (len - 1)) (CHR 0x00);
           Some (len, buf, error)
         } else Some (ps_n ps, ps_buf ps, error)
   }"

end
