(* ===== verification/Printer_Correct.thy ===== *)
theory Printer_Correct
  imports Printer
begin

text \<open>
  What \<open>print_value\<close> of \<open>src/print.c\<close> prints: the relation \<open>prints\<close> gives the text of a value by
  recursion over lists, with the number of words the work stack needs; the loop over the work stack writes
  this text when the buffer and the stack are large enough.
\<close>

subsection \<open>The text of a value\<close>

text \<open>The words on the stack for what follows the first element of a list, top first.\<close>

definition tail_words :: "VALUE \<Rightarrow> UINT list" where
  "tail_words d =
     (if type_of d = PTR_TYPE_CONS then [CONTINUE_LIST, d]
      else if type_of d = VAL_TYPE_SYMBOL \<and> dec_sym d = DEF_REPR_NIL then [END_LIST]
      else [PRINT_SPACE, PRINT, d, END_LIST])"

inductive prints :: "(FLOAT \<Rightarrow> string) \<Rightarrow> runtime \<Rightarrow> VALUE \<Rightarrow> string \<Rightarrow> nat \<Rightarrow> bool"
  and prints_tail :: "(FLOAT \<Rightarrow> string) \<Rightarrow> runtime \<Rightarrow> VALUE \<Rightarrow> string \<Rightarrow> nat \<Rightarrow> bool"
  for f_text rt where
  prints_atom: "type_of v \<noteq> PTR_TYPE_CONS \<Longrightarrow> atom_text f_text rt v = Some (Inr out) \<Longrightarrow> out \<noteq> [] \<Longrightarrow> 2 \<le> k \<Longrightarrow> prints f_text rt v out k"
| prints_list: "type_of v = PTR_TYPE_CONS \<Longrightarrow> car (rt_heap rt) v = Some a \<Longrightarrow> cdr (rt_heap rt) v = Some d \<Longrightarrow>
    prints f_text rt a ta ka \<Longrightarrow> prints_tail f_text rt d td kd \<Longrightarrow> length (tail_words d) + ka \<le> k \<Longrightarrow> kd \<le> k \<Longrightarrow> 2 \<le> k \<Longrightarrow>
    prints f_text rt v (''('' @ ta @ td) k"
| tail_list: "type_of v = PTR_TYPE_CONS \<Longrightarrow> car (rt_heap rt) v = Some a \<Longrightarrow> cdr (rt_heap rt) v = Some d \<Longrightarrow>
    prints f_text rt a ta ka \<Longrightarrow> prints_tail f_text rt d td kd \<Longrightarrow> length (tail_words d) + ka \<le> k \<Longrightarrow> kd \<le> k \<Longrightarrow> 2 \<le> k \<Longrightarrow>
    prints_tail f_text rt v ('' '' @ ta @ td) k"
| tail_nil: "type_of v = VAL_TYPE_SYMBOL \<Longrightarrow> dec_sym v = DEF_REPR_NIL \<Longrightarrow> 1 \<le> k \<Longrightarrow> prints_tail f_text rt v '')'' k"
| tail_dot: "type_of v \<noteq> PTR_TYPE_CONS \<Longrightarrow> \<not> (type_of v = VAL_TYPE_SYMBOL \<and> dec_sym v = DEF_REPR_NIL) \<Longrightarrow>
    atom_text f_text rt v = Some (Inr out) \<Longrightarrow> out \<noteq> [] \<Longrightarrow> 4 \<le> k \<Longrightarrow> prints_tail f_text rt v ('' '' @ out @ '')'') k"

subsection \<open>States of the printer\<close>

definition buffer_with :: "string \<Rightarrow> string \<Rightarrow> string" where
  "buffer_with buf out = (if out = [] then buf else out @ CHR 0x00 # drop (Suc (length out)) buf)"

definition printing :: "string \<Rightarrow> printer_state \<Rightarrow> UINT list \<Rightarrow> string \<Rightarrow> bool" where
  "printing buf ps xs out \<longleftrightarrow> fixed_stack (ps_stack ps) \<and> unat (sk_size (ps_stack ps)) = PRINT_STACK_SIZE \<and>
     stack_list (ps_stack ps) = xs \<and> ps_buf ps = buffer_with buf out \<and> ps_offset ps = int (length out) \<and> 0 \<le> ps_n ps"

lemma print_text_printing:
  assumes "printing buf ps xs out" "p \<noteq> []" "length (out @ p) + 5 \<le> nat len" "nat len \<le> length buf"
  shows "\<exists>ps'. print_text len ps p = Some ps' \<and> printing buf ps' xs (out @ p)"
proof -
  have b: "ps_buf ps = buffer_with buf out" "ps_offset ps = int (length out)" using assms(1) by (simp_all add: printing_def)
  have sz: "nat (len - int (length out)) - 1 \<ge> length p" "len - int (length out) \<noteq> 0" using assms(3) by auto
  have buf: "take (length out) (buffer_with buf out) = out" "length (buffer_with buf out) = length buf"
    "drop (length out + length (p @ [CHR 0x00])) (buffer_with buf out) = drop (Suc (length (out @ p))) buf"
    using assms(3,4) by (auto simp: buffer_with_def add.commute)
  have "snprintf (ps_buf ps) (ps_offset ps) (len - ps_offset ps) p = Some (buffer_with buf (out @ p))"
    using sz buf assms(2-4) unfolding b snprintf_def by (auto simp: Let_def buffer_with_def [of buf "out @ p"])
  then show ?thesis using assms(1) unfolding print_text_def b by (simp add: printing_def)
qed

lemma printing_pop:
  assumes "printing buf ps (x # xs) out"
  shows "\<exists>s. pop_u32 (ps_stack ps) = Some (x, s) \<and> printing buf (ps\<lparr>ps_stack := s\<rparr>) xs out"
proof -
  obtain s where s: "pop_u32 (ps_stack ps) = Some (x, s)" "fixed_stack s" "stack_list s = xs"
    using fstack.pop_law [of "ps_stack ps" x xs] assms by (auto simp: printing_def)
  have "sk_size s = sk_size (ps_stack ps)" using s(1) by (auto simp: pop_u32_def Let_def bind_eq_Some_conv)
  with s assms show ?thesis by (simp add: printing_def)
qed

lemma push_or_fail_printing:
  assumes "printing buf ps xs out" "length vs + length xs \<le> PRINT_STACK_SIZE"
  shows "\<exists>ps'. push_or_fail ps vs = Some (Inr ps') \<and> printing buf ps' (rev vs @ xs) out"
  using fstack.push_seq_fits [of "ps_stack ps" vs] assms by (auto simp: push_or_fail_def printing_def add.commute)

lemma print_cell_printing:
  assumes "printing buf ps xs out" "length (tail_words d) + 2 + length xs \<le> PRINT_STACK_SIZE"
  shows "\<exists>ps'. print_cell ps a d = Some (Inr ps') \<and> printing buf ps' ([PRINT, a] @ tail_words d @ xs) out"
proof -
  let ?vs = "(if type_of d = PTR_TYPE_CONS then [d, CONTINUE_LIST]
     else if type_of d = VAL_TYPE_SYMBOL \<and> dec_sym d = DEF_REPR_NIL then [END_LIST]
     else [END_LIST, d, PRINT, PRINT_SPACE]) @ [a, PRINT]"
  have rev: "rev ?vs = [PRINT, a] @ tail_words d" by (simp add: tail_words_def)
  have "length (rev ?vs) = length (tail_words d) + 2" unfolding rev by simp
  then have "length ?vs = length (tail_words d) + 2" unfolding length_rev .
  then show ?thesis using push_or_fail_printing [OF assms(1), of ?vs] assms(2) unfolding rev print_cell_def by simp
qed

text \<open>One round of the loop.\<close>

lemma print_loop_step:
  assumes "printing buf ps xs out" "xs \<noteq> []" "length out + 5 \<le> nat len" "print_instr f_text len rt ps = Some (Inr ps')"
  shows "print_loop f_text len rt ps = print_loop f_text len rt ps'"
proof -
  have "\<not> stack_is_empty (ps_stack ps)"
    using assms(1,2) length_stack_list [of "ps_stack ps"] by (auto simp: printing_def stack_is_empty_def fixed_stack_def)
  moreover have "ps_offset ps \<le> len - 5" using assms(1,3) by (auto simp: printing_def)
  ultimately show ?thesis using assms(4) by (subst print_loop.simps) simp
qed

subsection \<open>The loop prints the text\<close>

definition print_goes ::
  "(FLOAT \<Rightarrow> string) \<Rightarrow> int \<Rightarrow> runtime \<Rightarrow> string \<Rightarrow> printer_state \<Rightarrow> UINT list \<Rightarrow> string \<Rightarrow> bool" where
  "print_goes f_text len rt buf ps xs out \<longleftrightarrow>
     (\<exists>ps'. print_loop f_text len rt ps = print_loop f_text len rt ps' \<and> printing buf ps' xs out)"

lemma print_goesI:
  assumes "printing buf ps xs out" "xs \<noteq> []" "length out + 5 \<le> nat len" "print_instr f_text len rt ps = Some (Inr ps1)"
    and "print_goes f_text len rt buf ps1 ys out'"
  shows "print_goes f_text len rt buf ps ys out'"
  using print_loop_step [OF assms(1-4)] assms(5) by (simp add: print_goes_def)

lemma print_goes_here: "printing buf ps xs out \<Longrightarrow> print_goes f_text len rt buf ps xs out"
  by (auto simp: print_goes_def)

lemma print_goes_trans:
  "print_goes f_text len rt buf ps xs out \<Longrightarrow> (\<And>ps'. printing buf ps' xs out \<Longrightarrow> print_goes f_text len rt buf ps' ys out') \<Longrightarrow>
     print_goes f_text len rt buf ps ys out'"
  by (fastforce simp: print_goes_def)

text \<open>A word on top of the stack that prints a text and is done.\<close>

lemma print_const:
  assumes "printing buf ps (i # xs) out" "i = END_LIST \<and> p = '')'' \<or> i = PRINT_SPACE \<and> p = '' ''"
    "length (out @ p) + 5 \<le> nat len" "nat len \<le> length buf"
  shows "print_goes f_text len rt buf ps xs (out @ p)"
proof -
  obtain s where s: "pop_u32 (ps_stack ps) = Some (i, s)" "printing buf (ps\<lparr>ps_stack := s\<rparr>) xs out" using printing_pop [OF assms(1)] by blast
  have "p \<noteq> []" using assms(2) by auto
  then obtain ps' where ps': "print_text len (ps\<lparr>ps_stack := s\<rparr>) p = Some ps'" "printing buf ps' xs (out @ p)"
    using print_text_printing [OF s(2) _ assms(3,4)] by blast
  have "print_instr f_text len rt ps = Some (Inr ps')" using s(1) ps'(1) assms(2) by (auto simp: print_instr_def Let_def)
  then show ?thesis using print_goesI [OF assms(1)] assms(3) print_goes_here [OF ps'(2)] by simp
qed

lemma print_atom:
  assumes "printing buf ps (PRINT # v # xs) out" "type_of v \<noteq> PTR_TYPE_CONS" "atom_text f_text rt v = Some (Inr p)" "p \<noteq> []"
    "length (out @ p) + 5 \<le> nat len" "nat len \<le> length buf"
  shows "print_goes f_text len rt buf ps xs (out @ p)"
proof -
  obtain s where s: "pop_u32 (ps_stack ps) = Some (PRINT, s)" "printing buf (ps\<lparr>ps_stack := s\<rparr>) (v # xs) out" using printing_pop [OF assms(1)] by blast
  obtain s' where s': "pop_u32 s = Some (v, s')" "printing buf (ps\<lparr>ps_stack := s'\<rparr>) xs out" using printing_pop [OF s(2)] by auto
  obtain ps' where ps': "print_text len (ps\<lparr>ps_stack := s'\<rparr>) p = Some ps'" "printing buf ps' xs (out @ p)"
    using print_text_printing [OF s'(2) assms(4-6)] by blast
  have "print_instr f_text len rt ps = Some (Inr ps')"
    using s(1) s'(1) ps'(1) assms(2,3) by (simp add: print_instr_def print_print_def Let_def)
  then show ?thesis using print_goesI [OF assms(1)] assms(5) print_goes_here [OF ps'(2)] by simp
qed

text \<open>A list, from its first cell or from a later one: the separator and then the element and the rest.\<close>

lemma print_list_cell:
  assumes "printing buf ps (i # v # xs) out" "i = START_LIST \<and> p = ''('' \<or> i = CONTINUE_LIST \<and> p = '' ''" "type_of v = PTR_TYPE_CONS"
    "car (rt_heap rt) v = Some a" "cdr (rt_heap rt) v = Some d"
    "length (out @ p) + 5 \<le> nat len" "nat len \<le> length buf" "length (tail_words d) + 2 + length xs \<le> PRINT_STACK_SIZE"
  shows "print_goes f_text len rt buf ps ([PRINT, a] @ tail_words d @ xs) (out @ p)"
proof -
  obtain s where s: "pop_u32 (ps_stack ps) = Some (i, s)" "printing buf (ps\<lparr>ps_stack := s\<rparr>) (v # xs) out" using printing_pop [OF assms(1)] by blast
  obtain s' where s': "pop_u32 s = Some (v, s')" "printing buf (ps\<lparr>ps_stack := s'\<rparr>) xs out" using printing_pop [OF s(2)] by auto
  have "p \<noteq> []" using assms(2) by auto
  then obtain ps' where ps': "print_text len (ps\<lparr>ps_stack := s'\<rparr>) p = Some ps'" "printing buf ps' xs (out @ p)"
    using print_text_printing [OF s'(2) _ assms(6,7)] by blast
  obtain ps2 where ps2: "print_cell ps' a d = Some (Inr ps2)" "printing buf ps2 ([PRINT, a] @ tail_words d @ xs) (out @ p)"
    using print_cell_printing [OF ps'(2) assms(8)] by blast
  have "print_instr f_text len rt ps = Some (Inr ps2)"
    using s(1) s'(1) ps'(1) ps2(1) assms(2-5) cons_not_symbol
    by (auto simp: print_instr_def print_start_list_def print_continue_list_def Let_def)
  then show ?thesis using print_goesI [OF assms(1)] assms(6) print_goes_here [OF ps2(2)] by simp
qed

lemma print_start:
  assumes "printing buf ps (PRINT # v # xs) out" "type_of v = PTR_TYPE_CONS" "length out + 5 \<le> nat len" "2 + length xs \<le> PRINT_STACK_SIZE"
  shows "print_goes f_text len rt buf ps (START_LIST # v # xs) out"
proof -
  obtain s where s: "pop_u32 (ps_stack ps) = Some (PRINT, s)" "printing buf (ps\<lparr>ps_stack := s\<rparr>) (v # xs) out" using printing_pop [OF assms(1)] by blast
  obtain s' where s': "pop_u32 s = Some (v, s')" "printing buf (ps\<lparr>ps_stack := s'\<rparr>) xs out" using printing_pop [OF s(2)] by auto
  obtain ps' where ps': "push_or_fail (ps\<lparr>ps_stack := s'\<rparr>) [v, START_LIST] = Some (Inr ps')" "printing buf ps' (START_LIST # v # xs) out"
    using push_or_fail_printing [OF s'(2), of "[v, START_LIST]"] assms(4) by auto
  have "print_instr f_text len rt ps = Some (Inr ps')"
    using s(1) s'(1) ps'(1) assms(2) by (simp add: print_instr_def print_print_def Let_def)
  then show ?thesis using print_goesI [OF assms(1)] assms(3) print_goes_here [OF ps'(2)] by simp
qed

lemma prints_words: "prints f_text rt v t k \<Longrightarrow> 2 \<le> k"
  by (erule prints.cases) simp_all

lemma print_prints:
  assumes len: "nat len \<le> length buf"
  shows "prints f_text rt v t k \<Longrightarrow> printing buf ps (PRINT # v # xs) out \<Longrightarrow> length (out @ t) + 5 \<le> nat len \<Longrightarrow>
      k + length xs \<le> PRINT_STACK_SIZE \<Longrightarrow> print_goes f_text len rt buf ps xs (out @ t)"
    "prints_tail f_text rt v t k \<Longrightarrow> printing buf ps (tail_words v @ xs) out \<Longrightarrow> length (out @ t) + 5 \<le> nat len \<Longrightarrow>
      k + length xs \<le> PRINT_STACK_SIZE \<Longrightarrow> print_goes f_text len rt buf ps xs (out @ t)"
proof (induction arbitrary: ps xs out and ps xs out rule: prints_prints_tail.inducts, goal_cases)
  case prints_atom: (1 v t k ps xs out)
  show ?case by (rule print_atom [OF _ _ _ _ _ len]) (use prints_atom in auto)
next
  case prints_list: (2 v a d ta ka td kd k ps xs out)
  have body: "print_goes f_text len rt buf ps2 xs (out @ ''('' @ ta @ td)" if "printing buf ps2 ([PRINT, a] @ tail_words d @ xs) (out @ ''('')" for ps2
  proof (rule print_goes_trans [where xs = "tail_words d @ xs" and out = "(out @ ''('') @ ta"])
    show "print_goes f_text len rt buf ps2 (tail_words d @ xs) ((out @ ''('') @ ta)"
      using prints_list(5) [of ps2 "tail_words d @ xs" "out @ ''(''"] that prints_list(8-13) by simp
    show "print_goes f_text len rt buf ps3 xs (out @ ''('' @ ta @ td)" if "printing buf ps3 (tail_words d @ xs) ((out @ ''('') @ ta)" for ps3
      using prints_list(7) [of ps3 xs "(out @ ''('') @ ta"] that prints_list(8-13) by simp
  qed
  show ?case
  proof (rule print_goes_trans [OF print_start print_goes_trans [OF print_list_cell body]])
    show "printing buf ps (PRINT # v # xs) out" by (rule prints_list(11))
  qed (use prints_list(1-4,6,8-13) len in \<open>auto dest: prints_words\<close>)
next
  case tail_list: (3 v a d ta ka td kd k ps xs out)
  have body: "print_goes f_text len rt buf ps2 xs (out @ '' '' @ ta @ td)" if "printing buf ps2 ([PRINT, a] @ tail_words d @ xs) (out @ '' '')" for ps2
  proof (rule print_goes_trans [where xs = "tail_words d @ xs" and out = "(out @ '' '') @ ta"])
    show "print_goes f_text len rt buf ps2 (tail_words d @ xs) ((out @ '' '') @ ta)"
      using tail_list(5) [of ps2 "tail_words d @ xs" "out @ '' ''"] that tail_list(8-13) by simp
    show "print_goes f_text len rt buf ps3 xs (out @ '' '' @ ta @ td)" if "printing buf ps3 (tail_words d @ xs) ((out @ '' '') @ ta)" for ps3
      using tail_list(7) [of ps3 xs "(out @ '' '') @ ta"] that tail_list(8-13) by simp
  qed
  have "printing buf ps (CONTINUE_LIST # v # xs) out" using tail_list(11) tail_list(1) by (simp add: tail_words_def)
  then show ?case
    by (rule print_goes_trans [OF print_list_cell body]) (use tail_list(1-4,6,8-13) len in \<open>auto dest: prints_words\<close>)
next
  case tail_nil: (4 v k ps xs out)
  then show ?case using print_const [of buf ps END_LIST xs out "'')''"] len by (simp add: tail_words_def cons_not_symbol)
next
  case tail_dot: (5 v t k ps xs out)
  then have w: "tail_words v = [PRINT_SPACE, PRINT, v, END_LIST]" by (simp add: tail_words_def)
  have "print_goes f_text len rt buf ps (PRINT # v # END_LIST # xs) (out @ '' '')"
    using print_const [of buf ps PRINT_SPACE "PRINT # v # END_LIST # xs" out "'' ''"] tail_dot w len by simp
  moreover have "print_goes f_text len rt buf ps2 xs (out @ '' '' @ t @ '')'')" if "printing buf ps2 (PRINT # v # END_LIST # xs) (out @ '' '')" for ps2
  proof (rule print_goes_trans [OF print_atom [OF that]])
    show "print_goes f_text len rt buf ps3 xs (out @ '' '' @ t @ '')'')" if "printing buf ps3 (END_LIST # xs) ((out @ '' '') @ t)" for ps3
      using print_const [OF that, of "'')''"] tail_dot len by simp
  qed (use tail_dot len in auto)
  ultimately show ?case by (rule print_goes_trans)
qed

lemma prints_nonempty: "prints f_text rt v out k \<Longrightarrow> out \<noteq> []"
  by (erule prints.cases) simp_all

lemma print_value_prints:
  assumes "prints f_text rt v out k" "k \<le> 256" "length out + 5 \<le> nat len" "nat len \<le> length buf" "length storage = 256"
  shows "\<exists>n. print_value f_text storage rt buf len error len_error v =
      Some (n, out @ CHR 0x00 # drop (Suc (length out)) buf, error) \<and> 0 \<le> n"
proof -
  let ?s = "snd (stack_create \<lparr>sk_data = None, sk_sp = 0, sk_size = 0, sk_growable = False\<rparr> storage 256)"
  have s0: "fixed_stack ?s" "stack_list ?s = []" "unat (sk_size ?s) = 256"
    using assms(5) by (simp_all add: stack_create_def fixed_stack_def stack_wf_def stack_list_def)
  obtain s where s: "push_u32_2 no_malloc ?s v PRINT = Some (True, s)" "fixed_stack s" "stack_list s = [PRINT, v]" "unat (sk_size s) = 256"
    using fstack.push_seq_fits [OF s0(1), of "[v, PRINT]"] s0 unfolding push_u32_seq by auto
  let ?ps = "\<lparr>ps_stack = s, ps_buf = buf, ps_offset = 0, ps_n = 0\<rparr>"
  have "printing buf ?ps (PRINT # v # []) []" using s by (simp add: printing_def buffer_with_def)
  then have "print_goes f_text len rt buf ?ps [] ([] @ out)"
    using print_prints(1) [OF assms(4,1), of ?ps "[]" "[]"] assms(2,3) by simp
  then obtain ps' where ps': "print_loop f_text len rt ?ps = print_loop f_text len rt ps'" "printing buf ps' [] out"
    by (auto simp: print_goes_def)
  have "stack_is_empty (ps_stack ps')"
    using ps'(2) stack_is_empty_iff [of "ps_stack ps'"] by (simp add: printing_def fixed_stack_def)
  then have "print_loop f_text len rt ps' = Some (Inr ps')" by (subst print_loop.simps) simp
  then show ?thesis
    using s(1) ps' \<open>stack_is_empty (ps_stack ps')\<close> prints_nonempty [OF assms(1)]
    by (simp add: print_value_def printing_def buffer_with_def)
qed

subsection \<open>Properties\<close>

text \<open>
  C19: \<open>print_value\<close> writes the text of a value, followed by a zero, to the start of the buffer, returns a
  number that is not negative and leaves the rest of the buffer and the error buffer as they are, whenever the text and five more
  characters fit and the work stack of 256 words suffices.
\<close>

theorem print_value_correct:
  assumes "prints f_text rt v out k" "k \<le> 256" "length out + 5 \<le> nat len" "nat len \<le> length buf" "length storage = 256"
  shows "\<exists>n. print_value f_text storage rt buf len error len_error v =
      Some (n, out @ CHR 0x00 # drop (Suc (length out)) buf, error) \<and> 0 \<le> n"
  by (rule print_value_prints [OF assms])

definition demo_runtime :: runtime where
  "demo_runtime = \<lparr>rt_heap = demo_heap, rt_mem = demo_memory, rt_sym = \<lparr>ss_symlist = 0, ss_next_symbol_id = 0\<rparr>\<rparr>"

lemma demo_prints: "prints f_text demo_runtime (enc_cons_ptr 1) ''(1 2)'' 256"
proof -
  have atoms: "atom_text f_text demo_runtime (enc_i 1) = Some (Inr ''1'')" "atom_text f_text demo_runtime (enc_i 2) = Some (Inr ''2'')"
    by code_simp+
  have cells: "car demo_heap (enc_cons_ptr 1) = Some (enc_i 1)" "cdr demo_heap (enc_cons_ptr 1) = Some (enc_cons_ptr 0)"
    "car demo_heap (enc_cons_ptr 0) = Some (enc_i 2)" "cdr demo_heap (enc_cons_ptr 0) = Some NIL" by code_simp+
  have types: "type_of (enc_i 1) \<noteq> PTR_TYPE_CONS" "type_of (enc_i 2) \<noteq> PTR_TYPE_CONS" "type_of NIL = VAL_TYPE_SYMBOL" "dec_sym NIL = DEF_REPR_NIL"
    "type_of (enc_cons_ptr 0) = PTR_TYPE_CONS" "type_of (enc_cons_ptr 1) = PTR_TYPE_CONS" by code_simp+
  have words: "length (tail_words d) \<le> 4" for d by (simp add: tail_words_def)
  have one: "prints f_text demo_runtime (enc_i 1) ''1'' 2" and two: "prints f_text demo_runtime (enc_i 2) ''2'' 2"
    using atoms types by (auto intro: prints_atom)
  have rest: "prints_tail f_text demo_runtime (enc_cons_ptr 0) ('' '' @ ''2'' @ '')'') 256"
    by (rule tail_list [OF _ _ _ two tail_nil [OF types(3,4)]]) (use cells types words [of NIL] in \<open>auto simp: demo_runtime_def\<close>)
  have "prints f_text demo_runtime (enc_cons_ptr 1) (''('' @ ''1'' @ '' '' @ ''2'' @ '')'') 256"
    by (rule prints_list [OF _ _ _ one rest]) (use cells types words [of "enc_cons_ptr 0"] in \<open>auto simp: demo_runtime_def\<close>)
  then show ?thesis by simp
qed

theorem print_value_correct_witness:
  "\<forall>f_text. \<exists>n. print_value f_text (replicate 256 0) demo_runtime (replicate 20 (CHR ''x'')) 20 [] 0 (enc_cons_ptr 1) =
      Some (n, ''(1 2)'' @ CHR 0x00 # replicate 14 (CHR ''x''), []) \<and> 0 \<le> n"
proof
  fix f_text
  show "\<exists>n. print_value f_text (replicate 256 0) demo_runtime (replicate 20 (CHR ''x'')) 20 [] 0 (enc_cons_ptr 1) =
      Some (n, ''(1 2)'' @ CHR 0x00 # replicate 14 (CHR ''x''), []) \<and> 0 \<le> n"
    using print_value_correct [OF demo_prints, of 20 "replicate 20 (CHR ''x'')" "replicate 256 0" f_text "[]" 0]
    by simp
qed

end
