(* ===== verification/EC_Eval.thy ===== *)
theory EC_Eval
  imports Eval_Ctx Printer
begin

text \<open>
  The explicit-control evaluator of \<open>src/ec_eval.c\<close>: a register machine that alternates between
  dispatching on an expression, continuing with a value and applying a function.

  The static \<open>rm_state\<close> is a record, together with the state it works on: heap, memory and
  symbols, the global environment, the extensions and the two static buffers that error texts
  are printed to. The return values of the pushes are not looked at, as in the C code.
\<close>

record ec_host =
  eh_float :: float_ops
  eh_malloc :: malloc_fun
  eh_ext :: "extension_fptr \<Rightarrow> runtime \<Rightarrow> VALUE list \<Rightarrow> UINT \<Rightarrow> (VALUE \<times> runtime) option"
  eh_f_text :: "FLOAT \<Rightarrow> string"
  eh_storage :: "UINT list"

record register_machine =
  rm_cont :: u32
  rm_env :: VALUE
  rm_unev :: VALUE
  rm_prg :: VALUE
  rm_exp :: VALUE
  rm_argl :: VALUE
  rm_val :: VALUE
  rm_fun :: VALUE
  rm_S :: stack
  rm_rt :: runtime
  rm_global :: VALUE
  rm_extensions :: extensions
  rm_str :: string
  rm_err :: string

datatype ec_state = EVAL_DISPATCH | EVAL_CONTINUATION | EVAL_APPLY_DISPATCH

abbreviation (input) "CONT_DONE \<equiv> (0 :: UINT)"
abbreviation (input) "CONT_ERROR \<equiv> (1 :: UINT)"
abbreviation (input) "CONT_DEFINE \<equiv> (2 :: UINT)"
abbreviation (input) "CONT_SETUP_NO_ARG_APPLY \<equiv> (3 :: UINT)"
abbreviation (input) "CONT_EVAL_ARGS \<equiv> (4 :: UINT)"
abbreviation (input) "CONT_ACCUMULATE_ARG \<equiv> (5 :: UINT)"
abbreviation (input) "CONT_ACCUMULATE_LAST_ARG \<equiv> (6 :: UINT)"
abbreviation (input) "CONT_BRANCH \<equiv> (7 :: UINT)"
abbreviation (input) "CONT_BIND_VAR \<equiv> (8 :: UINT)"
abbreviation (input) "CONT_END_LET \<equiv> (9 :: UINT)"
abbreviation (input) "CONT_SEQUENCE \<equiv> (10 :: UINT)"
abbreviation (input) "CONT_AND \<equiv> (11 :: UINT)"
abbreviation (input) "CONT_OR \<equiv> (12 :: UINT)"

type_synonym ec_step = "(ec_state \<times> register_machine) option"

abbreviation rm_heap :: "register_machine \<Rightarrow> heap_state" where
  "rm_heap rm \<equiv> rt_heap (rm_rt rm)"

definition rm_set_heap :: "register_machine \<Rightarrow> heap_state \<Rightarrow> register_machine" where
  "rm_set_heap rm h = rm\<lparr>rm_rt := (rm_rt rm)\<lparr>rt_heap := h\<rparr>\<rparr>"

definition rm_push :: "ec_host \<Rightarrow> register_machine \<Rightarrow> UINT list \<Rightarrow> register_machine option" where
  "rm_push H rm vs = do {
     (_, s) \<leftarrow> push_seq (push_u32 (eh_malloc H)) (rm_S rm) vs;
     Some (rm\<lparr>rm_S := s\<rparr>)
   }"

text \<open>Paths like \<open>car(cdr(cdr(v)))\<close>, the innermost step first.\<close>

primrec path :: "heap_state \<Rightarrow> bool list \<Rightarrow> VALUE \<Rightarrow> VALUE option" where
  "path h [] v = Some v"
| "path h (b # bs) v = do { w \<leftarrow> (if b then cdr h v else car h v); path h bs w }"

abbreviation (input) "cadr_path \<equiv> [True, False]"
abbreviation (input) "caddr_path \<equiv> [True, True, False]"
abbreviation (input) "cadddr_path \<equiv> [True, True, True, False]"

subsection \<open>Garbage collection\<close>

primrec ec_mark :: "heap_state \<Rightarrow> VALUE list \<Rightarrow> heap_state option" where
  "ec_mark h [] = Some h"
| "ec_mark h (v # vs) = do { (_, h) \<leftarrow> gc_mark_phase h v; ec_mark h vs }"

definition ec_gc :: "register_machine \<Rightarrow> register_machine option" where
  "ec_gc rm = do {
     let h = gc_state_inc (rm_heap rm);
     (_, h) \<leftarrow> gc_mark_freelist h;
     h \<leftarrow> ec_mark h [rm_global rm, rm_env rm, rm_unev rm, rm_prg rm, rm_exp rm, rm_argl rm, rm_val rm, rm_fun rm];
     d \<leftarrow> sk_data (rm_S rm);
     if length d < unat (sk_sp (rm_S rm)) then None
     else do {
       (_, h) \<leftarrow> gc_mark_aux h (take (unat (sk_sp (rm_S rm))) d);
       (_, h, m) \<leftarrow> gc_sweep_phase h (rt_mem (rm_rt rm));
       Some (rm\<lparr>rm_rt := (rm_rt rm)\<lparr>rt_heap := h, rt_mem := m\<rparr>\<rparr>)
     }
   }"

text \<open>The pattern of the allocating operations: collect and try once more when memory is out.\<close>

definition or_collect ::
  "(register_machine \<Rightarrow> (VALUE \<times> register_machine) option) \<Rightarrow> register_machine \<Rightarrow> (VALUE \<times> register_machine) option" where
  "or_collect f rm = do {
     (v, rm) \<leftarrow> f rm;
     if is_symbol_merror v then do { rm \<leftarrow> ec_gc rm; f rm } else Some (v, rm)
   }"

definition rm_alloc ::
  "(heap_state \<Rightarrow> (VALUE \<times> heap_state) option) \<Rightarrow> register_machine \<Rightarrow> (VALUE \<times> register_machine) option" where
  "rm_alloc f rm = do { (v, h) \<leftarrow> f (rm_heap rm); Some (v, rm_set_heap rm h) }"

definition out_of_memory :: "register_machine \<Rightarrow> ec_step" where
  "out_of_memory rm = Some (EVAL_CONTINUATION, rm\<lparr>rm_cont := enc_u CONT_ERROR, rm_val := enc_sym DEF_REPR_MERROR\<rparr>)"

subsection \<open>Leaves and definitions\<close>

definition last_operand :: "heap_state \<Rightarrow> VALUE \<Rightarrow> bool option" where
  "last_operand h exp = do { d \<leftarrow> cdr h exp; Some (is_symbol_nil d) }"

definition ec_eval_self_evaluating :: "register_machine \<Rightarrow> ec_step" where
  "ec_eval_self_evaluating rm = Some (EVAL_CONTINUATION, rm\<lparr>rm_val := rm_exp rm\<rparr>)"

definition is_not_found :: "VALUE \<Rightarrow> bool" where
  "is_not_found v \<longleftrightarrow> type_of v = VAL_TYPE_SYMBOL \<and> dec_sym v = DEF_REPR_NOT_FOUND"

definition ec_print :: "ec_host \<Rightarrow> register_machine \<Rightarrow> VALUE \<Rightarrow> register_machine option" where
  "ec_print H rm v = do {
     (_, buf, err) \<leftarrow> print_value (eh_f_text H) (eh_storage H) (rm_rt rm) (rm_str rm) 1024 (rm_err rm) 1024 v;
     Some (rm\<lparr>rm_str := buf, rm_err := err\<rparr>)
   }"

definition ec_eval_variable :: "ec_host \<Rightarrow> register_machine \<Rightarrow> ec_step" where
  "ec_eval_variable H rm = do {
     v \<leftarrow> (if is_special (rm_exp rm) \<or> is_extension (rm_extensions rm) (rm_exp rm) then Some (rm_exp rm)
           else env_lookup (rm_heap rm) (rm_exp rm) (rm_env rm));
     v \<leftarrow> (if is_not_found v then env_lookup (rm_heap rm) (rm_exp rm) (rm_global rm) else Some v);
     let rm = rm\<lparr>rm_val := v\<rparr>;
     if is_not_found v then do {
       rm \<leftarrow> ec_print H rm (rm_exp rm);
       Some (EVAL_CONTINUATION, rm\<lparr>rm_cont := enc_u CONT_ERROR\<rparr>)
     } else Some (EVAL_CONTINUATION, rm)
   }"

definition ec_eval_quoted :: "register_machine \<Rightarrow> ec_step" where
  "ec_eval_quoted rm = do {
     v \<leftarrow> path (rm_heap rm) cadr_path (rm_exp rm);
     Some (EVAL_CONTINUATION, rm\<lparr>rm_val := v\<rparr>)
   }"

definition ec_eval_define :: "ec_host \<Rightarrow> register_machine \<Rightarrow> ec_step" where
  "ec_eval_define H rm = do {
     unev \<leftarrow> path (rm_heap rm) cadr_path (rm_exp rm);
     exp \<leftarrow> path (rm_heap rm) caddr_path (rm_exp rm);
     rm \<leftarrow> rm_push H (rm\<lparr>rm_unev := unev, rm_exp := exp\<rparr>) [unev, rm_cont rm];
     Some (EVAL_DISPATCH, rm\<lparr>rm_cont := enc_u CONT_DEFINE\<rparr>)
   }"

definition ec_cont_define :: "register_machine \<Rightarrow> ec_step" where
  "ec_cont_define rm = do {
     (cont, unev, s) \<leftarrow> pop_u32_2 (rm_S rm);
     let rm = rm\<lparr>rm_cont := cont, rm_unev := unev, rm_S := s\<rparr>;
     (new_env, rm) \<leftarrow> or_collect (\<lambda>rm. rm_alloc (\<lambda>h. env_set h (rm_global rm) (rm_unev rm) (rm_val rm)) rm) rm;
     if is_symbol_merror new_env then out_of_memory rm
     else Some (EVAL_CONTINUATION, rm\<lparr>rm_global := new_env, rm_val := rm_unev rm\<rparr>)
   }"

definition ec_make_closure :: "VALUE \<Rightarrow> VALUE \<Rightarrow> heap_state \<Rightarrow> (VALUE \<times> heap_state) option" where
  "ec_make_closure exp env h = do {
     (env_end, h) \<leftarrow> cons h env (enc_sym DEF_REPR_NIL);
     b \<leftarrow> path h caddr_path exp;
     (body, h) \<leftarrow> cons h b env_end;
     p \<leftarrow> path h cadr_path exp;
     (params, h) \<leftarrow> cons h p body;
     cons h (enc_sym DEF_REPR_CLOSURE) params
   }"

definition ec_eval_lambda :: "register_machine \<Rightarrow> ec_step" where
  "ec_eval_lambda rm = do {
     (closure, rm) \<leftarrow> or_collect (\<lambda>rm. rm_alloc (ec_make_closure (rm_exp rm) (rm_env rm)) rm) rm;
     if is_symbol_merror closure then out_of_memory rm
     else Some (EVAL_CONTINUATION, rm\<lparr>rm_val := closure\<rparr>)
   }"

subsection \<open>Application\<close>

definition ec_eval_no_args :: "ec_host \<Rightarrow> register_machine \<Rightarrow> ec_step" where
  "ec_eval_no_args H rm = do {
     f \<leftarrow> car (rm_heap rm) (rm_exp rm);
     rm \<leftarrow> rm_push H (rm\<lparr>rm_exp := f\<rparr>) [rm_cont rm];
     Some (EVAL_DISPATCH, rm\<lparr>rm_cont := enc_u CONT_SETUP_NO_ARG_APPLY\<rparr>)
   }"

definition ec_cont_setup_no_arg_apply :: "register_machine \<Rightarrow> ec_step" where
  "ec_cont_setup_no_arg_apply rm =
     Some (EVAL_APPLY_DISPATCH, rm\<lparr>rm_fun := rm_val rm, rm_argl := enc_sym DEF_REPR_NIL\<rparr>)"

definition ec_eval_application :: "ec_host \<Rightarrow> register_machine \<Rightarrow> ec_step" where
  "ec_eval_application H rm = do {
     unev \<leftarrow> cdr (rm_heap rm) (rm_exp rm);
     exp \<leftarrow> car (rm_heap rm) (rm_exp rm);
     rm \<leftarrow> rm_push H (rm\<lparr>rm_unev := unev, rm_exp := exp\<rparr>) [rm_cont rm, rm_env rm, unev];
     Some (EVAL_DISPATCH, rm\<lparr>rm_cont := enc_u CONT_EVAL_ARGS\<rparr>)
   }"

definition ec_eval_last_arg :: "register_machine \<Rightarrow> ec_step" where
  "ec_eval_last_arg rm = Some (EVAL_DISPATCH, rm\<lparr>rm_cont := enc_u CONT_ACCUMULATE_LAST_ARG\<rparr>)"

definition ec_eval_arg_loop :: "ec_host \<Rightarrow> register_machine \<Rightarrow> ec_step" where
  "ec_eval_arg_loop H rm = do {
     rm \<leftarrow> rm_push H rm [rm_argl rm];
     exp \<leftarrow> car (rm_heap rm) (rm_unev rm);
     let rm = rm\<lparr>rm_exp := exp\<rparr>;
     last \<leftarrow> last_operand (rm_heap rm) (rm_unev rm);
     if last then ec_eval_last_arg rm
     else do {
       rm \<leftarrow> rm_push H rm [rm_env rm, rm_unev rm];
       Some (EVAL_DISPATCH, rm\<lparr>rm_cont := enc_u CONT_ACCUMULATE_ARG\<rparr>)
     }
   }"

definition ec_cont_eval_args :: "ec_host \<Rightarrow> register_machine \<Rightarrow> ec_step" where
  "ec_cont_eval_args H rm = do {
     (unev, env, s) \<leftarrow> pop_u32_2 (rm_S rm);
     let rm = rm\<lparr>rm_unev := unev, rm_env := env, rm_S := s, rm_fun := rm_val rm\<rparr>;
     rm \<leftarrow> rm_push H rm [rm_fun rm];
     ec_eval_arg_loop H (rm\<lparr>rm_argl := enc_sym DEF_REPR_NIL\<rparr>)
   }"

definition ec_cont_accumulate_arg :: "ec_host \<Rightarrow> register_machine \<Rightarrow> ec_step" where
  "ec_cont_accumulate_arg H rm = do {
     (unev, env, argl, s) \<leftarrow> pop_u32_3 (rm_S rm);
     let rm = rm\<lparr>rm_unev := unev, rm_env := env, rm_argl := argl, rm_S := s\<rparr>;
     (argl, rm) \<leftarrow> or_collect (\<lambda>rm. rm_alloc (\<lambda>h. cons h (rm_val rm) (rm_argl rm)) rm) rm;
     if is_symbol_merror argl then out_of_memory rm
     else do {
       unev \<leftarrow> cdr (rm_heap rm) (rm_unev rm);
       ec_eval_arg_loop H (rm\<lparr>rm_argl := argl, rm_unev := unev\<rparr>)
     }
   }"

text \<open>
  When the reversed list cannot be had, the continuation is set to the raw constant, and the code goes on to
  apply the function to the out-of-memory symbol.
\<close>

definition ec_cont_accumulate_last_arg :: "register_machine \<Rightarrow> ec_step" where
  "ec_cont_accumulate_last_arg rm = do {
     (argl, s) \<leftarrow> pop_u32 (rm_S rm);
     let rm = rm\<lparr>rm_argl := argl, rm_S := s\<rparr>;
     (argl, rm) \<leftarrow> or_collect (\<lambda>rm. rm_alloc (\<lambda>h. cons h (rm_val rm) (rm_argl rm)) rm) rm;
     if is_symbol_merror argl then out_of_memory rm
     else do {
       (rev_args, rm) \<leftarrow> or_collect (\<lambda>rm. rm_alloc (\<lambda>h. reverse h (rm_argl rm)) rm) (rm\<lparr>rm_argl := argl\<rparr>);
       let rm = (if is_symbol_merror rev_args then rm\<lparr>rm_cont := CONT_ERROR, rm_val := enc_sym DEF_REPR_MERROR\<rparr> else rm);
       (f, s) \<leftarrow> pop_u32 (rm_S rm);
       Some (EVAL_APPLY_DISPATCH, rm\<lparr>rm_argl := rev_args, rm_fun := f, rm_S := s\<rparr>)
     }
   }"

partial_function (option) push_args ::
  "ec_host \<Rightarrow> register_machine \<Rightarrow> VALUE \<Rightarrow> UINT \<Rightarrow> (UINT \<times> register_machine) option" where
  "push_args H rm args count =
     (if type_of args = PTR_TYPE_CONS then
        Option.bind (car (rm_heap rm) args) (\<lambda>a.
        Option.bind (rm_push H rm [a]) (\<lambda>rm.
        Option.bind (cdr (rm_heap rm) args) (\<lambda>args.
          push_args H rm args (count + 1))))
      else Some (count, rm))"

definition rm_call ::
  "(runtime \<Rightarrow> (VALUE \<times> runtime) option) \<Rightarrow> register_machine \<Rightarrow> (VALUE \<times> register_machine) option" where
  "rm_call f rm = do { (v, rt) \<leftarrow> f (rm_rt rm); Some (v, rm\<lparr>rm_rt := rt\<rparr>) }"

definition ec_return :: "register_machine \<Rightarrow> UINT \<Rightarrow> ec_step" where
  "ec_return rm count = do {
     let s = snd (stack_drop (rm_S rm) count);
     (cont, s) \<leftarrow> pop_u32 s;
     Some (EVAL_CONTINUATION, rm\<lparr>rm_S := s, rm_cont := cont\<rparr>)
   }"

definition ec_eval_apply_fundamental :: "ec_host \<Rightarrow> register_machine \<Rightarrow> ec_step" where
  "ec_eval_apply_fundamental H rm = do {
     (count, rm) \<leftarrow> push_args H rm (rm_argl rm) 0;
     i \<leftarrow> stack_ptr (rm_S rm) count;
     d \<leftarrow> sk_data (rm_S rm);
     (v, rm) \<leftarrow> or_collect (rm_call (\<lambda>rt. fundamental_exec (eh_float H) rt (drop (unat i) d) count (rm_fun rm))) rm;
     if is_symbol_merror v then out_of_memory rm
     else ec_return (rm\<lparr>rm_val := v\<rparr>) count
   }"

definition ec_bind_params :: "VALUE \<Rightarrow> VALUE \<Rightarrow> heap_state \<Rightarrow> (VALUE \<times> heap_state) option" where
  "ec_bind_params f argl h = do {
     params \<leftarrow> path h cadr_path f;
     env \<leftarrow> path h cadddr_path f;
     env_build_params_args h params argl env
   }"

definition ec_eval_apply_closure :: "register_machine \<Rightarrow> ec_step" where
  "ec_eval_apply_closure rm = do {
     (local_env, rm) \<leftarrow> or_collect (\<lambda>rm. rm_alloc (ec_bind_params (rm_fun rm) (rm_argl rm)) rm) rm;
     if is_symbol_merror local_env then out_of_memory rm
     else do {
       exp \<leftarrow> path (rm_heap rm) caddr_path (rm_fun rm);
       (cont, s) \<leftarrow> pop_u32 (rm_S rm);
       Some (EVAL_DISPATCH, rm\<lparr>rm_env := local_env, rm_exp := exp, rm_cont := cont, rm_S := s\<rparr>)
     }
   }"

text \<open>The pointer to the arguments is taken before they are pushed, where the first of them will be.\<close>

definition ec_eval_apply_extension :: "ec_host \<Rightarrow> register_machine \<Rightarrow> ec_step" where
  "ec_eval_apply_extension H rm =
     (let f = extensions_lookup (rm_extensions rm) (dec_sym (rm_fun rm)) in
      if f = 0 then Some (EVAL_CONTINUATION, rm\<lparr>rm_cont := enc_u CONT_ERROR\<rparr>)
      else do {
        i \<leftarrow> stack_ptr (rm_S rm) 0;
        (count, rm) \<leftarrow> push_args H rm (rm_argl rm) 0;
        d \<leftarrow> sk_data (rm_S rm);
        (v, rm) \<leftarrow> rm_call (\<lambda>rt. eh_ext H f rt (drop (unat i) d) count) rm;
        ec_return (rm\<lparr>rm_val := v\<rparr>) count
      })"

definition ec_eval_eval :: "register_machine \<Rightarrow> ec_step" where
  "ec_eval_eval rm = do {
     exp \<leftarrow> car (rm_heap rm) (rm_argl rm);
     (cont, s) \<leftarrow> pop_u32 (rm_S rm);
     Some (EVAL_DISPATCH, rm\<lparr>rm_exp := exp, rm_cont := cont, rm_S := s\<rparr>)
   }"

definition ec_eval_apply_dispatch :: "ec_host \<Rightarrow> register_machine \<Rightarrow> ec_step" where
  "ec_eval_apply_dispatch H rm =
     (if is_symbol_eval (rm_fun rm) then ec_eval_eval rm
      else if is_fundamental (rm_fun rm) then ec_eval_apply_fundamental H rm
      else do {
        closure \<leftarrow> is_closure (rm_heap rm) (rm_fun rm);
        if closure then ec_eval_apply_closure rm
        else if is_extension (rm_extensions rm) (rm_fun rm) then ec_eval_apply_extension H rm
        else do {
          rm \<leftarrow> ec_print H (rm\<lparr>rm_cont := enc_u CONT_ERROR, rm_val := enc_sym DEF_REPR_EERROR\<rparr>) (rm_fun rm);
          Some (EVAL_CONTINUATION, rm)
        }
      })"

subsection \<open>Sequences, conditionals and bindings\<close>

definition ec_eval_sequence :: "ec_host \<Rightarrow> register_machine \<Rightarrow> ec_step" where
  "ec_eval_sequence H rm = do {
     exp \<leftarrow> car (rm_heap rm) (rm_unev rm);
     (env, s) \<leftarrow> pop_u32 (rm_S rm);
     let rm = rm\<lparr>rm_exp := exp, rm_env := env, rm_S := s\<rparr>;
     tmp \<leftarrow> cdr (rm_heap rm) (rm_unev rm);
     if type_of tmp = VAL_TYPE_SYMBOL \<and> dec_sym tmp = DEF_REPR_NIL then do {
       (cont, s) \<leftarrow> pop_u32 (rm_S rm);
       Some (EVAL_DISPATCH, rm\<lparr>rm_cont := cont, rm_S := s\<rparr>)
     } else do {
       rm \<leftarrow> rm_push H rm [rm_env rm, rm_unev rm];
       Some (EVAL_DISPATCH, rm\<lparr>rm_cont := enc_u CONT_SEQUENCE\<rparr>)
     }
   }"

definition ec_cont_sequence :: "ec_host \<Rightarrow> register_machine \<Rightarrow> ec_step" where
  "ec_cont_sequence H rm = do {
     (unev, s) \<leftarrow> pop_u32 (rm_S rm);
     unev \<leftarrow> cdr (rm_heap rm) unev;
     ec_eval_sequence H (rm\<lparr>rm_unev := unev, rm_S := s\<rparr>)
   }"

definition ec_eval_progn :: "ec_host \<Rightarrow> register_machine \<Rightarrow> ec_step" where
  "ec_eval_progn H rm = do {
     rm \<leftarrow> rm_push H rm [rm_cont rm, rm_env rm];
     unev \<leftarrow> cdr (rm_heap rm) (rm_exp rm);
     ec_eval_sequence H (rm\<lparr>rm_unev := unev\<rparr>)
   }"

definition ec_eval_if :: "ec_host \<Rightarrow> register_machine \<Rightarrow> ec_step" where
  "ec_eval_if H rm = do {
     unev \<leftarrow> path (rm_heap rm) [True, True] (rm_exp rm);
     exp \<leftarrow> path (rm_heap rm) cadr_path (rm_exp rm);
     rm \<leftarrow> rm_push H (rm\<lparr>rm_unev := unev, rm_exp := exp\<rparr>) [rm_cont rm, rm_env rm, unev];
     Some (EVAL_DISPATCH, rm\<lparr>rm_cont := enc_u CONT_BRANCH\<rparr>)
   }"

definition ec_cont_branch :: "register_machine \<Rightarrow> ec_step" where
  "ec_cont_branch rm = do {
     (unev, env, cont, s) \<leftarrow> pop_u32_3 (rm_S rm);
     let rm = rm\<lparr>rm_unev := unev, rm_env := env, rm_cont := cont, rm_S := s\<rparr>;
     exp \<leftarrow> (if is_symbol_nil (rm_val rm) then path (rm_heap rm) cadr_path unev else car (rm_heap rm) unev);
     Some (EVAL_DISPATCH, rm\<lparr>rm_exp := exp\<rparr>)
   }"

definition ec_eval_let_loop :: "ec_host \<Rightarrow> register_machine \<Rightarrow> ec_step" where
  "ec_eval_let_loop H rm =
     (if is_symbol_nil (rm_unev rm) then do {
        (exp, s) \<leftarrow> pop_u32 (rm_S rm);
        Some (EVAL_DISPATCH, rm\<lparr>rm_exp := exp, rm_S := s, rm_cont := enc_u CONT_END_LET\<rparr>)
      } else do {
        exp \<leftarrow> path (rm_heap rm) [False, True, False] (rm_unev rm);
        rm \<leftarrow> rm_push H (rm\<lparr>rm_exp := exp\<rparr>) [rm_env rm, rm_unev rm];
        Some (EVAL_DISPATCH, rm\<lparr>rm_cont := enc_u CONT_BIND_VAR\<rparr>)
      })"

text \<open>
  The loop that allocates the bindings. The test after the two allocations looks at \<open>binding\<close> and at the old
  \<open>new_env\<close>; \<open>None\<close> inside when memory is out.
\<close>

definition ec_new_binding :: "VALUE \<Rightarrow> VALUE \<Rightarrow> register_machine \<Rightarrow> (VALUE \<times> VALUE \<times> register_machine) option" where
  "ec_new_binding key new_env rm = do {
     (binding, rm) \<leftarrow> rm_alloc (\<lambda>h. cons h key (enc_u DEF_REPR_NIL)) rm;
     (tmp_env, rm) \<leftarrow> rm_alloc (\<lambda>h. cons h binding new_env) rm;
     Some (binding, tmp_env, rm)
   }"

partial_function (option) ec_let_prealloc ::
  "register_machine \<Rightarrow> VALUE \<Rightarrow> VALUE \<Rightarrow> (VALUE option \<times> register_machine) option" where
  "ec_let_prealloc rm cur new_env =
     (if is_symbol_nil cur then Some (Some new_env, rm)
      else
        Option.bind (path (rm_heap rm) [False, False] cur) (\<lambda>key.
        Option.bind (ec_new_binding key new_env rm) (\<lambda>(binding, tmp_env, rm).
        Option.bind (if is_symbol_merror binding \<or> is_symbol_merror new_env
                     then Option.bind (ec_gc rm) (ec_new_binding key new_env)
                     else Some (binding, tmp_env, rm)) (\<lambda>(binding, tmp_env, rm).
          if is_symbol_merror binding \<or> is_symbol_merror new_env then Some (None, rm)
          else Option.bind (cdr (rm_heap rm) cur) (\<lambda>cur. ec_let_prealloc rm cur tmp_env)))))"

definition ec_eval_let :: "ec_host \<Rightarrow> register_machine \<Rightarrow> ec_step" where
  "ec_eval_let H rm = do {
     body \<leftarrow> path (rm_heap rm) caddr_path (rm_exp rm);
     rm \<leftarrow> rm_push H rm [rm_cont rm, rm_env rm, body];
     unev \<leftarrow> path (rm_heap rm) cadr_path (rm_exp rm);
     let rm = rm\<lparr>rm_unev := unev\<rparr>;
     (r, rm) \<leftarrow> ec_let_prealloc rm unev (rm_env rm);
     case r of
       None \<Rightarrow> out_of_memory rm
     | Some new_env \<Rightarrow> ec_eval_let_loop H (rm\<lparr>rm_env := new_env\<rparr>)
   }"

definition ec_cont_bind_var :: "ec_host \<Rightarrow> register_machine \<Rightarrow> ec_step" where
  "ec_cont_bind_var H rm = do {
     (unev, env, s) \<leftarrow> pop_u32_2 (rm_S rm);
     let rm = rm\<lparr>rm_unev := unev, rm_env := env, rm_S := s\<rparr>;
     key \<leftarrow> path (rm_heap rm) [False, False] unev;
     (_, rm) \<leftarrow> rm_alloc (\<lambda>h. env_modify_binding h env key (rm_val rm)) rm;
     unev \<leftarrow> cdr (rm_heap rm) unev;
     ec_eval_let_loop H (rm\<lparr>rm_unev := unev\<rparr>)
   }"

definition ec_cont_end_let :: "register_machine \<Rightarrow> ec_step" where
  "ec_cont_end_let rm = do {
     (env, cont, s) \<leftarrow> pop_u32_2 (rm_S rm);
     Some (EVAL_CONTINUATION, rm\<lparr>rm_env := env, rm_cont := cont, rm_S := s\<rparr>)
   }"

subsection \<open>Conjunction and disjunction\<close>

text \<open>
  The test for a form without operands does not return: the value it sets is overwritten by the evaluation
  of \<open>car(cdr(exp))\<close>, which is nil.
\<close>

definition ec_eval_logic :: "ec_host \<Rightarrow> register_machine \<Rightarrow> VALUE \<Rightarrow> UINT \<Rightarrow> ec_step" where
  "ec_eval_logic H rm no_operands cont = do {
     d \<leftarrow> cdr (rm_heap rm) (rm_exp rm);
     let rm = (if is_symbol_nil d then rm\<lparr>rm_val := no_operands\<rparr> else rm);
     unev \<leftarrow> path (rm_heap rm) [True, True] (rm_exp rm);
     rm \<leftarrow> rm_push H (rm\<lparr>rm_unev := unev\<rparr>) [rm_cont rm, rm_env rm, unev];
     exp \<leftarrow> path (rm_heap rm) cadr_path (rm_exp rm);
     Some (EVAL_DISPATCH, rm\<lparr>rm_exp := exp, rm_cont := enc_u cont\<rparr>)
   }"

definition ec_eval_and :: "ec_host \<Rightarrow> register_machine \<Rightarrow> ec_step" where
  "ec_eval_and H rm = ec_eval_logic H rm (enc_sym DEF_REPR_TRUE) CONT_AND"

definition ec_eval_or :: "ec_host \<Rightarrow> register_machine \<Rightarrow> ec_step" where
  "ec_eval_or H rm = ec_eval_logic H rm (enc_sym DEF_REPR_NIL) CONT_OR"

definition ec_cont_logic :: "ec_host \<Rightarrow> register_machine \<Rightarrow> (VALUE \<Rightarrow> bool) \<Rightarrow> UINT \<Rightarrow> ec_step" where
  "ec_cont_logic H rm decided cont = do {
     (unev, env, s) \<leftarrow> pop_u32_2 (rm_S rm);
     let rm = rm\<lparr>rm_unev := unev, rm_env := env, rm_S := s\<rparr>;
     if decided (rm_val rm) \<or> is_symbol_nil unev then do {
       (cont, s) \<leftarrow> pop_u32 (rm_S rm);
       Some (EVAL_CONTINUATION, rm\<lparr>rm_cont := cont, rm_S := s\<rparr>)
     } else do {
       exp \<leftarrow> car (rm_heap rm) unev;
       unev \<leftarrow> cdr (rm_heap rm) unev;
       rm \<leftarrow> rm_push H (rm\<lparr>rm_exp := exp, rm_unev := unev\<rparr>) [env, unev];
       Some (EVAL_DISPATCH, rm\<lparr>rm_cont := enc_u cont\<rparr>)
     }
   }"

definition ec_cont_and :: "ec_host \<Rightarrow> register_machine \<Rightarrow> ec_step" where
  "ec_cont_and H rm = ec_cont_logic H rm is_symbol_nil CONT_AND"

definition ec_cont_or :: "ec_host \<Rightarrow> register_machine \<Rightarrow> ec_step" where
  "ec_cont_or H rm = ec_cont_logic H rm (\<lambda>v. \<not> is_symbol_nil v) CONT_OR"

subsection \<open>The machine\<close>

text \<open>The flag tells whether the machine is done.\<close>

definition ec_cont_done :: "register_machine \<Rightarrow> (bool \<times> ec_state \<times> register_machine) option" where
  "ec_cont_done rm =
     (if type_of (rm_prg rm) \<noteq> PTR_TYPE_CONS then Some (True, EVAL_CONTINUATION, rm)
      else do {
        exp \<leftarrow> car (rm_heap rm) (rm_prg rm);
        prg \<leftarrow> cdr (rm_heap rm) (rm_prg rm);
        let nil = enc_sym DEF_REPR_NIL;
        Some (False, EVAL_DISPATCH, rm\<lparr>rm_exp := exp, rm_prg := prg, rm_cont := enc_u CONT_DONE, rm_env := nil, rm_argl := nil,
          rm_val := nil, rm_fun := nil, rm_S := snd (stack_clear (rm_S rm))\<rparr>)
      })"

definition ec_cont_error :: "register_machine \<Rightarrow> register_machine" where
  "ec_cont_error rm =
     (let nil = enc_sym DEF_REPR_NIL in
      rm\<lparr>rm_exp := nil, rm_prg := nil, rm_cont := nil, rm_env := nil, rm_argl := nil, rm_val := enc_sym DEF_REPR_EERROR,
        rm_fun := nil, rm_S := snd (stack_clear (rm_S rm))\<rparr>)"

definition ec_dispatch :: "ec_host \<Rightarrow> register_machine \<Rightarrow> (bool \<times> ec_state \<times> register_machine) option" where
  "ec_dispatch H rm = do {
     kind \<leftarrow> exp_kind_of (rm_heap rm) (rm_exp rm);
     case kind of
       EXP_KIND_ERROR \<Rightarrow> Some (True, EVAL_DISPATCH, rm)
     | EXP_SELF_EVALUATING \<Rightarrow> map_option (Pair False) (ec_eval_self_evaluating rm)
     | EXP_VARIABLE \<Rightarrow> map_option (Pair False) (ec_eval_variable H rm)
     | EXP_QUOTED \<Rightarrow> map_option (Pair False) (ec_eval_quoted rm)
     | EXP_DEFINE \<Rightarrow> map_option (Pair False) (ec_eval_define H rm)
     | EXP_NO_ARGS \<Rightarrow> map_option (Pair False) (ec_eval_no_args H rm)
     | EXP_APPLICATION \<Rightarrow> map_option (Pair False) (ec_eval_application H rm)
     | EXP_LAMBDA \<Rightarrow> map_option (Pair False) (ec_eval_lambda rm)
     | EXP_PROGN \<Rightarrow> map_option (Pair False) (ec_eval_progn H rm)
     | EXP_IF \<Rightarrow> map_option (Pair False) (ec_eval_if H rm)
     | EXP_LET \<Rightarrow> map_option (Pair False) (ec_eval_let H rm)
     | EXP_AND \<Rightarrow> map_option (Pair False) (ec_eval_and H rm)
     | EXP_OR \<Rightarrow> map_option (Pair False) (ec_eval_or H rm)
   }"

definition ec_continue :: "ec_host \<Rightarrow> register_machine \<Rightarrow> (bool \<times> ec_state \<times> register_machine) option" where
  "ec_continue H rm =
     (let c = dec_u (rm_cont rm) in
      if c = CONT_DONE then ec_cont_done rm
      else if c = CONT_ERROR then Some (True, EVAL_DISPATCH, ec_cont_error rm)
      else if c = CONT_DEFINE then map_option (Pair False) (ec_cont_define rm)
      else if c = CONT_SETUP_NO_ARG_APPLY then map_option (Pair False) (ec_cont_setup_no_arg_apply rm)
      else if c = CONT_EVAL_ARGS then map_option (Pair False) (ec_cont_eval_args H rm)
      else if c = CONT_ACCUMULATE_ARG then map_option (Pair False) (ec_cont_accumulate_arg H rm)
      else if c = CONT_ACCUMULATE_LAST_ARG then map_option (Pair False) (ec_cont_accumulate_last_arg rm)
      else if c = CONT_BRANCH then map_option (Pair False) (ec_cont_branch rm)
      else if c = CONT_BIND_VAR then map_option (Pair False) (ec_cont_bind_var H rm)
      else if c = CONT_END_LET then map_option (Pair False) (ec_cont_end_let rm)
      else if c = CONT_SEQUENCE then map_option (Pair False) (ec_cont_sequence H rm)
      else if c = CONT_AND then map_option (Pair False) (ec_cont_and H rm)
      else if c = CONT_OR then map_option (Pair False) (ec_cont_or H rm)
      else Some (False, EVAL_CONTINUATION, rm))"

definition ec_round :: "ec_host \<Rightarrow> ec_state \<Rightarrow> register_machine \<Rightarrow> (bool \<times> ec_state \<times> register_machine) option" where
  "ec_round H es rm =
     (case es of
        EVAL_DISPATCH \<Rightarrow> ec_dispatch H rm
      | EVAL_CONTINUATION \<Rightarrow> ec_continue H rm
      | EVAL_APPLY_DISPATCH \<Rightarrow> map_option (Pair False) (ec_eval_apply_dispatch H rm))"

partial_function (option) ec_eval_loop :: "ec_host \<Rightarrow> ec_state \<Rightarrow> register_machine \<Rightarrow> register_machine option" where
  "ec_eval_loop H es rm =
     Option.bind (ec_round H es rm) (\<lambda>(finished, es, rm). if finished then Some rm else ec_eval_loop H es rm)"

definition ec_eval :: "ec_host \<Rightarrow> register_machine \<Rightarrow> register_machine option" where
  "ec_eval H rm = ec_eval_loop H EVAL_DISPATCH rm"

text \<open>The result of \<open>stack_allocate\<close> is not looked at.\<close>

definition ec_eval_program :: "ec_host \<Rightarrow> register_machine \<Rightarrow> VALUE \<Rightarrow> (VALUE \<times> register_machine) option" where
  "ec_eval_program H rm prg = do {
     rest \<leftarrow> cdr (rm_heap rm) prg;
     exp \<leftarrow> car (rm_heap rm) prg;
     let nil = enc_sym DEF_REPR_NIL;
     rm \<leftarrow> ec_eval H (rm\<lparr>rm_prg := rest, rm_exp := exp, rm_cont := enc_u CONT_DONE, rm_env := nil, rm_argl := nil,
       rm_val := nil, rm_fun := nil, rm_S := snd (stack_allocate (eh_malloc H) (rm_S rm) 256 False)\<rparr>);
     Some (rm_val rm, rm\<lparr>rm_S := stack_free (rm_S rm)\<rparr>)
   }"

end
