(* ===== verification/EC_Spec.thy ===== *)
theory EC_Spec
  imports EC_Eval Eval_Spec
begin

text \<open>
  A big-step specification of the evaluator of \<open>src/ec_eval.c\<close>, without registers, stack,
  continuations and garbage collection, over the scenes of the specification of \<open>src/eval_cps.c\<close>.

  \<open>ec_runs H exts n t s v s'\<close> says that the task \<open>t\<close> in the scene \<open>s\<close> has the value \<open>v\<close> and ends in
  \<open>s'\<close>, and that \<open>n\<close> words of evaluation stack are enough for it. Unlike the other evaluator this one
  goes back to the environment of the form after a condition, an operand or an inner expression of a
  sequence: the rules put \<open>sc_env s\<close> into the scene again.
\<close>

text \<open>The heads that \<open>exp_kind_of\<close> takes for special forms.\<close>

definition ec_special_head :: "VALUE \<Rightarrow> bool" where
  "ec_special_head v \<longleftrightarrow> type_of v = VAL_TYPE_SYMBOL \<and>
     dec_sym v \<in> {SYM_AND, SYM_OR, DEF_REPR_QUOTE, DEF_REPR_DEFINE, DEF_REPR_PROGN, DEF_REPR_LAMBDA, DEF_REPR_IF,
       DEF_REPR_LET}"

text \<open>The elements of a list as the argument loops read them, up to the first value that is no cons cell.\<close>

primrec items :: "heap_state \<Rightarrow> VALUE \<Rightarrow> VALUE list \<Rightarrow> bool" where
  "items h v [] \<longleftrightarrow> type_of v \<noteq> PTR_TYPE_CONS"
| "items h v (x # xs) \<longleftrightarrow> type_of v = PTR_TYPE_CONS \<and> car h v = Some x \<and> (\<exists>d. cdr h v = Some d \<and> items h d xs)"

text \<open>The keys of a \<open>let\<close> in front of the environment, each with a place for its value.\<close>

inductive places :: "heap_state \<Rightarrow> VALUE \<Rightarrow> VALUE \<Rightarrow> VALUE \<Rightarrow> heap_state \<Rightarrow> bool" where
  places_nil: "is_sym binds DEF_REPR_NIL \<Longrightarrow> places h binds env env h"
| places_cons: "\<not> is_sym binds DEF_REPR_NIL \<Longrightarrow> car h binds = Some b \<Longrightarrow> car h b = Some key \<Longrightarrow>
    \<not> is_sym env DEF_REPR_MERROR \<Longrightarrow>
    cons h key (enc_u DEF_REPR_NIL) = Some (p, h1) \<Longrightarrow> type_of p = PTR_TYPE_CONS \<Longrightarrow>
    cons h1 p env = Some (env1, h2) \<Longrightarrow> type_of env1 = PTR_TYPE_CONS \<Longrightarrow>
    cdr h2 binds = Some bs \<Longrightarrow> places h2 bs env1 env' h' \<Longrightarrow> places h binds env env' h'"

datatype ec_task =
    E_exp VALUE
  | E_seq VALUE
  | E_and VALUE VALUE VALUE
  | E_or VALUE VALUE VALUE
  | E_let VALUE VALUE VALUE
  | E_args VALUE VALUE VALUE
  | E_apply VALUE VALUE

inductive ec_runs :: "ec_host \<Rightarrow> extensions \<Rightarrow> nat \<Rightarrow> ec_task \<Rightarrow> scene \<Rightarrow> VALUE \<Rightarrow> scene \<Rightarrow> bool" for H exts where
  ec_self: "self_evaluating e \<or> is_special e \<Longrightarrow> ec_runs H exts 0 (E_exp e) s e s"
| ec_variable: "type_of e = VAL_TYPE_SYMBOL \<Longrightarrow> \<not> is_special e \<Longrightarrow> symbol_value exts s e = Some v \<Longrightarrow>
    \<not> is_sym v DEF_REPR_NOT_FOUND \<Longrightarrow> ec_runs H exts 0 (E_exp e) s v s"
| ec_quote: "form (sc_heap s) e a d \<Longrightarrow> is_sym a DEF_REPR_QUOTE \<Longrightarrow> car (sc_heap s) d = Some v \<Longrightarrow>
    ec_runs H exts 0 (E_exp e) s v s"
| ec_define: "form (sc_heap s) e a d \<Longrightarrow> is_sym a DEF_REPR_DEFINE \<Longrightarrow>
    car (sc_heap s) d = Some key \<Longrightarrow> cdr (sc_heap s) d = Some d2 \<Longrightarrow> car (sc_heap s) d2 = Some x \<Longrightarrow>
    ec_runs H exts n (E_exp x) s v s1 \<Longrightarrow>
    env_set (sc_heap s1) (sc_global s1) key v = Some (ge, h) \<Longrightarrow> \<not> is_sym ge DEF_REPR_MERROR \<Longrightarrow>
    ec_runs H exts (n + 2) (E_exp e) s key ((with_h s1 h)\<lparr>sc_global := ge\<rparr>)"
| ec_lambda: "form (sc_heap s) e a d \<Longrightarrow> is_sym a DEF_REPR_LAMBDA \<Longrightarrow>
    ec_make_closure e (sc_env s) (sc_heap s) = Some (v, h) \<Longrightarrow> \<not> is_sym v DEF_REPR_MERROR \<Longrightarrow>
    ec_runs H exts 0 (E_exp e) s v (with_h s h)"
| ec_if: "form (sc_heap s) e a d \<Longrightarrow> is_sym a DEF_REPR_IF \<Longrightarrow> car (sc_heap s) d = Some c \<Longrightarrow>
    cdr (sc_heap s) d = Some d2 \<Longrightarrow> ec_runs H exts n (E_exp c) s v s1 \<Longrightarrow>
    car (sc_heap s1) d2 = Some x \<Longrightarrow> cdr (sc_heap s1) d2 = Some d3 \<Longrightarrow> car (sc_heap s1) d3 = Some y \<Longrightarrow>
    ec_runs H exts m (E_exp (if is_sym v DEF_REPR_NIL then y else x)) (s1\<lparr>sc_env := sc_env s\<rparr>) w s2 \<Longrightarrow>
    ec_runs H exts (max (n + 3) m) (E_exp e) s w s2"
| ec_progn: "form (sc_heap s) e a xs \<Longrightarrow> is_sym a DEF_REPR_PROGN \<Longrightarrow> ec_runs H exts n (E_seq xs) s w s1 \<Longrightarrow>
    ec_runs H exts (max 2 n) (E_exp e) s w s1"
| seq_last: "car (sc_heap s) xs = Some x \<Longrightarrow> cdr (sc_heap s) xs = Some d \<Longrightarrow> is_sym d DEF_REPR_NIL \<Longrightarrow>
    ec_runs H exts n (E_exp x) s w s1 \<Longrightarrow> ec_runs H exts n (E_seq xs) s w s1"
| seq_more: "car (sc_heap s) xs = Some x \<Longrightarrow> cdr (sc_heap s) xs = Some d \<Longrightarrow> \<not> is_sym d DEF_REPR_NIL \<Longrightarrow>
    ec_runs H exts n (E_exp x) s v s1 \<Longrightarrow> cdr (sc_heap s1) xs = Some d1 \<Longrightarrow>
    ec_runs H exts m (E_seq d1) (s1\<lparr>sc_env := sc_env s\<rparr>) w s2 \<Longrightarrow>
    ec_runs H exts (max (n + 3) m) (E_seq xs) s w s2"
| ec_let: "form (sc_heap s) e a d \<Longrightarrow> is_sym a DEF_REPR_LET \<Longrightarrow> car (sc_heap s) d = Some binds \<Longrightarrow>
    cdr (sc_heap s) d = Some d2 \<Longrightarrow> car (sc_heap s) d2 = Some body \<Longrightarrow>
    places (sc_heap s) binds (sc_env s) env h \<Longrightarrow>
    ec_runs H exts n (E_let (sc_env s) body binds) ((with_h s h)\<lparr>sc_env := env\<rparr>) w s1 \<Longrightarrow>
    ec_runs H exts (max 3 n) (E_exp e) s w s1"
| let_body: "is_sym binds DEF_REPR_NIL \<Longrightarrow> ec_runs H exts n (E_exp body) s w s1 \<Longrightarrow>
    ec_runs H exts (n + 2) (E_let env0 body binds) s w (s1\<lparr>sc_env := env0\<rparr>)"
| let_bind: "\<not> is_sym binds DEF_REPR_NIL \<Longrightarrow> car (sc_heap s) binds = Some b \<Longrightarrow> cdr (sc_heap s) b = Some bd \<Longrightarrow>
    car (sc_heap s) bd = Some x \<Longrightarrow> ec_runs H exts n (E_exp x) s v s1 \<Longrightarrow>
    car (sc_heap s1) binds = Some b1 \<Longrightarrow> car (sc_heap s1) b1 = Some key \<Longrightarrow>
    env_modify_binding (sc_heap s1) (sc_env s) key v = Some (r, h) \<Longrightarrow> cdr h binds = Some bs \<Longrightarrow>
    ec_runs H exts m (E_let env0 body bs) ((with_h s1 h)\<lparr>sc_env := sc_env s\<rparr>) w s2 \<Longrightarrow>
    ec_runs H exts (max (n + 5) m) (E_let env0 body binds) s w s2"
| ec_and: "form (sc_heap s) e a d \<Longrightarrow> is_sym a SYM_AND \<Longrightarrow> car (sc_heap s) d = Some x \<Longrightarrow> cdr (sc_heap s) d = Some xs \<Longrightarrow>
    ec_runs H exts n (E_exp x) s v s1 \<Longrightarrow> ec_runs H exts m (E_and (sc_env s) xs v) s1 w s2 \<Longrightarrow>
    ec_runs H exts (max (n + 3) m) (E_exp e) s w s2"
| and_stop: "is_sym v DEF_REPR_NIL \<or> is_sym xs DEF_REPR_NIL \<Longrightarrow>
    ec_runs H exts 0 (E_and env xs v) s v (s\<lparr>sc_env := env\<rparr>)"
| and_more: "\<not> is_sym v DEF_REPR_NIL \<Longrightarrow> \<not> is_sym xs DEF_REPR_NIL \<Longrightarrow> car (sc_heap s) xs = Some x \<Longrightarrow>
    cdr (sc_heap s) xs = Some d \<Longrightarrow> ec_runs H exts n (E_exp x) (s\<lparr>sc_env := env\<rparr>) v1 s1 \<Longrightarrow>
    ec_runs H exts m (E_and env d v1) s1 w s2 \<Longrightarrow> ec_runs H exts (max (n + 3) m) (E_and env xs v) s w s2"
| ec_or: "form (sc_heap s) e a d \<Longrightarrow> is_sym a SYM_OR \<Longrightarrow> car (sc_heap s) d = Some x \<Longrightarrow> cdr (sc_heap s) d = Some xs \<Longrightarrow>
    ec_runs H exts n (E_exp x) s v s1 \<Longrightarrow> ec_runs H exts m (E_or (sc_env s) xs v) s1 w s2 \<Longrightarrow>
    ec_runs H exts (max (n + 3) m) (E_exp e) s w s2"
| or_stop: "\<not> is_sym v DEF_REPR_NIL \<or> is_sym xs DEF_REPR_NIL \<Longrightarrow>
    ec_runs H exts 0 (E_or env xs v) s v (s\<lparr>sc_env := env\<rparr>)"
| or_more: "is_sym v DEF_REPR_NIL \<Longrightarrow> \<not> is_sym xs DEF_REPR_NIL \<Longrightarrow> car (sc_heap s) xs = Some x \<Longrightarrow>
    cdr (sc_heap s) xs = Some d \<Longrightarrow> ec_runs H exts n (E_exp x) (s\<lparr>sc_env := env\<rparr>) v1 s1 \<Longrightarrow>
    ec_runs H exts m (E_or env d v1) s1 w s2 \<Longrightarrow> ec_runs H exts (max (n + 3) m) (E_or env xs v) s w s2"
| ec_call0: "form (sc_heap s) e a d \<Longrightarrow> \<not> ec_special_head a \<Longrightarrow> type_of a = VAL_TYPE_SYMBOL \<Longrightarrow>
    is_sym d DEF_REPR_NIL \<Longrightarrow> ec_runs H exts n (E_exp a) s f s1 \<Longrightarrow>
    ec_runs H exts m (E_apply f NIL) s1 w s2 \<Longrightarrow> ec_runs H exts (max (n + 1) m) (E_exp e) s w s2"
| ec_call: "form (sc_heap s) e a d \<Longrightarrow> \<not> ec_special_head a \<Longrightarrow>
    \<not> (type_of a = VAL_TYPE_SYMBOL \<and> is_sym d DEF_REPR_NIL) \<Longrightarrow> ec_runs H exts n (E_exp a) s f s1 \<Longrightarrow>
    ec_runs H exts m (E_args f NIL d) (s1\<lparr>sc_env := sc_env s\<rparr>) w s2 \<Longrightarrow>
    ec_runs H exts (max (n + 3) m) (E_exp e) s w s2"
| args_last: "car (sc_heap s) xs = Some x \<Longrightarrow> cdr (sc_heap s) xs = Some d \<Longrightarrow> is_sym d DEF_REPR_NIL \<Longrightarrow>
    ec_runs H exts n (E_exp x) s v s1 \<Longrightarrow>
    cons (sc_heap s1) v argl = Some (l, h1) \<Longrightarrow> type_of l = PTR_TYPE_CONS \<Longrightarrow>
    reverse h1 l = Some (args, h2) \<Longrightarrow> type_of args = PTR_TYPE_CONS \<Longrightarrow>
    ec_runs H exts m (E_apply f args) (with_h s1 h2) w s2 \<Longrightarrow>
    ec_runs H exts (max (n + 3) m) (E_args f argl xs) s w s2"
| args_more: "car (sc_heap s) xs = Some x \<Longrightarrow> cdr (sc_heap s) xs = Some d \<Longrightarrow> \<not> is_sym d DEF_REPR_NIL \<Longrightarrow>
    ec_runs H exts n (E_exp x) s v s1 \<Longrightarrow>
    cons (sc_heap s1) v argl = Some (l, h1) \<Longrightarrow> type_of l = PTR_TYPE_CONS \<Longrightarrow> cdr h1 xs = Some d1 \<Longrightarrow>
    ec_runs H exts m (E_args f l d1) ((with_h s1 h1)\<lparr>sc_env := sc_env s\<rparr>) w s2 \<Longrightarrow>
    ec_runs H exts (max (n + 5) m) (E_args f argl xs) s w s2"
| apply_eval: "is_sym f SYM_EVAL \<Longrightarrow> car (sc_heap s) args = Some x \<Longrightarrow> ec_runs H exts n (E_exp x) s w s1 \<Longrightarrow>
    ec_runs H exts n (E_apply f args) s w s1"
| apply_fundamental: "is_fundamental f \<Longrightarrow> \<not> is_sym f SYM_EVAL \<Longrightarrow> items (sc_heap s) args vs \<Longrightarrow>
    (\<forall>rest. fundamental_exec (eh_float H) (sc_rt s) (vs @ rest) (of_nat (length vs)) f = Some (w, rt)) \<Longrightarrow>
    \<not> is_sym w DEF_REPR_MERROR \<Longrightarrow>
    ec_runs H exts (length vs + 1) (E_apply f args) s w (s\<lparr>sc_rt := rt\<rparr>)"
| apply_closure: "form (sc_heap s) f c d1 \<Longrightarrow> is_sym c DEF_REPR_CLOSURE \<Longrightarrow>
    ec_bind_params f args (sc_heap s) = Some (env, h) \<Longrightarrow> \<not> is_sym env DEF_REPR_MERROR \<Longrightarrow>
    cdr h f = Some d2 \<Longrightarrow> cdr h d2 = Some d3 \<Longrightarrow> car h d3 = Some body \<Longrightarrow>
    ec_runs H exts n (E_exp body) ((with_h s h)\<lparr>sc_env := env\<rparr>) w s1 \<Longrightarrow>
    ec_runs H exts n (E_apply f args) s w s1"
| apply_extension: "is_extension exts f \<Longrightarrow> \<not> is_fundamental f \<Longrightarrow> \<not> is_sym f SYM_EVAL \<Longrightarrow>
    items (sc_heap s) args vs \<Longrightarrow>
    (\<forall>rest. eh_ext H (extensions_lookup exts (dec_sym f)) (sc_rt s) (vs @ rest) (of_nat (length vs)) = Some (w, rt)) \<Longrightarrow>
    ec_runs H exts (length vs + 1) (E_apply f args) s w (s\<lparr>sc_rt := rt\<rparr>)"

text \<open>A program: every expression starts in the empty environment.\<close>

inductive ec_runs_program :: "ec_host \<Rightarrow> extensions \<Rightarrow> nat \<Rightarrow> VALUE \<Rightarrow> scene \<Rightarrow> VALUE \<Rightarrow> scene \<Rightarrow> bool" for H exts where
  ec_last: "car (sc_heap s) prg = Some e \<Longrightarrow> cdr (sc_heap s) prg = Some d \<Longrightarrow>
    ec_runs H exts n (E_exp e) (s\<lparr>sc_env := NIL\<rparr>) v s1 \<Longrightarrow> type_of d \<noteq> PTR_TYPE_CONS \<Longrightarrow>
    ec_runs_program H exts n prg s v s1"
| ec_more: "car (sc_heap s) prg = Some e \<Longrightarrow> cdr (sc_heap s) prg = Some d \<Longrightarrow>
    ec_runs H exts n (E_exp e) (s\<lparr>sc_env := NIL\<rparr>) v s1 \<Longrightarrow> type_of d = PTR_TYPE_CONS \<Longrightarrow>
    ec_runs_program H exts m d s1 w s2 \<Longrightarrow> ec_runs_program H exts (max n m) prg s w s2"

end
