(* ===== verification/EC_Machine.thy ===== *)
theory EC_Machine
  imports EC_Spec Eval_Machine
begin

text \<open>
  Runs of the register machine of \<open>src/ec_eval.c\<close>: what one round of \<open>ec_eval\<close> does, seen through the
  list of words on the stack.

  An \<open>ec_setting\<close> names what stays fixed while an expression is evaluated: the host, the registers
  and tables that evaluation does not touch, and the size of the stack. The states between two rounds
  are described by \<open>dispatching\<close>, \<open>continuing\<close> and \<open>applying\<close>, one for each value of \<open>eval_state\<close>;
  \<open>ec_goes M P Q\<close> says that from every state in \<open>P\<close> some rounds lead to one in \<open>Q\<close>.
\<close>

record ec_setting =
  em_host :: ec_host
  em_rm :: register_machine
  em_size :: nat

abbreviation (input) "em_exts M \<equiv> rm_extensions (em_rm M)"

definition at :: "ec_setting \<Rightarrow> scene \<Rightarrow> UINT list \<Rightarrow> register_machine \<Rightarrow> bool" where
  "at M s stk rm \<longleftrightarrow> rm_prg rm = rm_prg (em_rm M) \<and> rm_extensions rm = rm_extensions (em_rm M) \<and>
     rm_rt rm = sc_rt s \<and> rm_global rm = sc_global s \<and> rm_env rm = sc_env s \<and> stack_is (rm_S rm) stk (em_size M)"

definition dispatching :: "ec_setting \<Rightarrow> scene \<Rightarrow> VALUE \<Rightarrow> u32 \<Rightarrow> UINT list \<Rightarrow> ec_state \<times> register_machine \<Rightarrow> bool" where
  "dispatching M s e k stk x \<longleftrightarrow> (case x of (es, rm) \<Rightarrow> es = EVAL_DISPATCH \<and> at M s stk rm \<and> rm_exp rm = e \<and> rm_cont rm = k)"

definition continuing :: "ec_setting \<Rightarrow> scene \<Rightarrow> VALUE \<Rightarrow> u32 \<Rightarrow> UINT list \<Rightarrow> ec_state \<times> register_machine \<Rightarrow> bool" where
  "continuing M s v k stk x \<longleftrightarrow> (case x of (es, rm) \<Rightarrow> es = EVAL_CONTINUATION \<and> at M s stk rm \<and> rm_val rm = v \<and> rm_cont rm = k)"

definition applying :: "ec_setting \<Rightarrow> scene \<Rightarrow> VALUE \<Rightarrow> VALUE \<Rightarrow> UINT list \<Rightarrow> ec_state \<times> register_machine \<Rightarrow> bool" where
  "applying M s f args stk x \<longleftrightarrow> (case x of (es, rm) \<Rightarrow> es = EVAL_APPLY_DISPATCH \<and> at M s stk rm \<and> rm_fun rm = f \<and> rm_argl rm = args)"

text \<open>Three operations run inside of a round: the registers they start from.\<close>

definition at_sequence :: "ec_setting \<Rightarrow> scene \<Rightarrow> VALUE \<Rightarrow> UINT list \<Rightarrow> register_machine \<Rightarrow> bool" where
  "at_sequence M s xs stk rm \<longleftrightarrow> at M s (sc_env s # stk) (rm\<lparr>rm_env := sc_env s\<rparr>) \<and> rm_unev rm = xs"

definition at_let :: "ec_setting \<Rightarrow> scene \<Rightarrow> VALUE \<Rightarrow> UINT list \<Rightarrow> register_machine \<Rightarrow> bool" where
  "at_let M s binds stk rm \<longleftrightarrow> at M s stk rm \<and> rm_unev rm = binds"

definition at_args :: "ec_setting \<Rightarrow> scene \<Rightarrow> VALUE \<Rightarrow> VALUE \<Rightarrow> UINT list \<Rightarrow> register_machine \<Rightarrow> bool" where
  "at_args M s argl xs stk rm \<longleftrightarrow> at M s stk rm \<and> rm_argl rm = argl \<and> rm_unev rm = xs"

fun ec_rounds :: "ec_host \<Rightarrow> nat \<Rightarrow> ec_state \<times> register_machine \<Rightarrow> (ec_state \<times> register_machine) option" where
  "ec_rounds H 0 x = Some x"
| "ec_rounds H (Suc j) (es, rm) =
     (case ec_round H es rm of Some (False, es', rm') \<Rightarrow> ec_rounds H j (es', rm') | _ \<Rightarrow> None)"

definition ec_goes ::
  "ec_setting \<Rightarrow> (ec_state \<times> register_machine \<Rightarrow> bool) \<Rightarrow> (ec_state \<times> register_machine \<Rightarrow> bool) \<Rightarrow> bool" where
  "ec_goes M P Q \<longleftrightarrow> (\<forall>x. P x \<longrightarrow> (\<exists>j y. ec_rounds (em_host M) j x = Some y \<and> Q y))"

lemma ec_rounds_add: "ec_rounds H (i + j) x = Option.bind (ec_rounds H i x) (ec_rounds H j)"
  by (induction H i x rule: ec_rounds.induct) (auto split: option.split bool.split)

lemma ec_goes_refl: "ec_goes M P P"
  unfolding ec_goes_def by (metis ec_rounds.simps(1))

lemma ec_goes_trans [trans]: "ec_goes M P Q \<Longrightarrow> ec_goes M Q R \<Longrightarrow> ec_goes M P R"
  unfolding ec_goes_def by (metis ec_rounds_add Option.bind.bind_lunit)

lemma ec_goes_trans3: "ec_goes M P Q \<Longrightarrow> ec_goes M Q R \<Longrightarrow> ec_goes M R S \<Longrightarrow> ec_goes M P S"
  by (blast intro: ec_goes_trans)

lemma ec_goes_step:
  "(\<And>es rm. P (es, rm) \<Longrightarrow> \<exists>y. ec_round (em_host M) es rm = Some (False, y) \<and> Q y) \<Longrightarrow> ec_goes M P Q"
  unfolding ec_goes_def
proof (intro allI impI)
  fix x
  assume 1: "\<And>es rm. P (es, rm) \<Longrightarrow> \<exists>y. ec_round (em_host M) es rm = Some (False, y) \<and> Q y" and "P x"
  obtain es rm where x: "x = (es, rm)" by fastforce
  from 1 [of es rm] \<open>P x\<close> x obtain y where "ec_round (em_host M) es rm = Some (False, y)" "Q y" by blast
  then have "ec_rounds (em_host M) (Suc 0) x = Some y \<and> Q y" by (cases y) (simp add: x)
  then show "\<exists>j y. ec_rounds (em_host M) j x = Some y \<and> Q y" by blast
qed

text \<open>\<open>ec_then M A f Q\<close>: from registers in \<open>A\<close> the operation \<open>f\<close> ends its round, and some rounds later the machine is in \<open>Q\<close>.\<close>

definition ec_then ::
  "ec_setting \<Rightarrow> (register_machine \<Rightarrow> bool) \<Rightarrow> (register_machine \<Rightarrow> ec_step) \<Rightarrow> (ec_state \<times> register_machine \<Rightarrow> bool) \<Rightarrow> bool"
where
  "ec_then M A f Q \<longleftrightarrow> (\<forall>rm. A rm \<longrightarrow> (\<exists>x j y. f rm = Some x \<and> ec_rounds (em_host M) j x = Some y \<and> Q y))"

lemma ec_then_goes:
  "(\<And>rm. A rm \<Longrightarrow> \<exists>x. f rm = Some x \<and> P x) \<Longrightarrow> ec_goes M P Q \<Longrightarrow> ec_then M A f Q"
  unfolding ec_then_def ec_goes_def by blast

lemma ec_goes_then:
  assumes step: "\<And>es rm. P (es, rm) \<Longrightarrow> \<exists>rm'. A rm' \<and> ec_round (em_host M) es rm = map_option (Pair False) (f rm')"
    and "ec_then M A f Q"
  shows "ec_goes M P Q"
  unfolding ec_goes_def
proof (intro allI impI)
  fix x
  assume "P x"
  then obtain es rm rm' where x: "x = (es, rm)" "A rm'" "ec_round (em_host M) es rm = map_option (Pair False) (f rm')"
    using step by (metis surj_pair)
  then obtain z j y where "f rm' = Some z" "ec_rounds (em_host M) j z = Some y" "Q y"
    using assms(2) unfolding ec_then_def by blast
  then have "ec_rounds (em_host M) (Suc j) x = Some y \<and> Q y" using x by (cases z) simp
  then show "\<exists>j y. ec_rounds (em_host M) j x = Some y \<and> Q y" by blast
qed

subsection \<open>The rules for one round\<close>

lemma dispatching_goes:
  assumes "\<And>rm. at M s stk rm \<Longrightarrow> rm_exp rm = e \<Longrightarrow> rm_cont rm = k \<Longrightarrow>
      \<exists>y. ec_dispatch (em_host M) rm = Some (False, y) \<and> Q y"
  shows "ec_goes M (dispatching M s e k stk) Q"
  using assms by (intro ec_goes_step) (auto simp: dispatching_def ec_round_def)

lemma continuing_goes:
  assumes "\<And>rm. at M s stk rm \<Longrightarrow> rm_val rm = v \<Longrightarrow> rm_cont rm = k \<Longrightarrow>
      \<exists>y. ec_continue (em_host M) rm = Some (False, y) \<and> Q y"
  shows "ec_goes M (continuing M s v k stk) Q"
  using assms by (intro ec_goes_step) (auto simp: continuing_def ec_round_def)

lemma dispatching_then:
  assumes "\<And>rm. at M s stk rm \<Longrightarrow> rm_exp rm = e \<Longrightarrow> rm_cont rm = k \<Longrightarrow>
      \<exists>rm'. A rm' \<and> ec_dispatch (em_host M) rm = map_option (Pair False) (f rm')"
    and "ec_then M A f Q"
  shows "ec_goes M (dispatching M s e k stk) Q"
  using assms(1) by (intro ec_goes_then [OF _ assms(2)]) (auto simp: dispatching_def ec_round_def)

lemma continuing_then:
  assumes "\<And>rm. at M s stk rm \<Longrightarrow> rm_val rm = v \<Longrightarrow> rm_cont rm = k \<Longrightarrow>
      \<exists>rm'. A rm' \<and> ec_continue (em_host M) rm = map_option (Pair False) (f rm')"
    and "ec_then M A f Q"
  shows "ec_goes M (continuing M s v k stk) Q"
  using assms(1) by (intro ec_goes_then [OF _ assms(2)]) (auto simp: continuing_def ec_round_def)

lemma applying_goes:
  assumes "\<And>rm. at M s stk rm \<Longrightarrow> rm_fun rm = f \<Longrightarrow> rm_argl rm = args \<Longrightarrow>
      \<exists>y. ec_eval_apply_dispatch (em_host M) rm = Some y \<and> Q y"
  shows "ec_goes M (applying M s f args stk) Q"
  using assms by (intro ec_goes_step) (auto simp: applying_def ec_round_def)

lemma atD:
  assumes "at M s stk rm"
  shows "rm_heap rm = sc_heap s" "rm_rt rm = sc_rt s" "rm_global rm = sc_global s" "rm_env rm = sc_env s"
    "rm_extensions rm = em_exts M" "stack_is (rm_S rm) stk (em_size M)"
  using assms by (simp_all add: at_def)

lemma is_symbol_sym: "is_symbol_nil v \<longleftrightarrow> is_sym v DEF_REPR_NIL" "is_symbol_merror v \<longleftrightarrow> is_sym v DEF_REPR_MERROR"
  "is_symbol_eval v \<longleftrightarrow> is_sym v SYM_EVAL" "is_not_found v \<longleftrightarrow> is_sym v DEF_REPR_NOT_FOUND"
  by (simp_all add: is_symbol_nil_def is_symbol_merror_def is_symbol_eval_def is_not_found_def is_symbol_def is_sym_def)

lemma rm_push_at:
  assumes "stack_is (rm_S rm) stk n" and "length stk + length vs \<le> n"
  shows "\<exists>S. rm_push H rm vs = Some (rm\<lparr>rm_S := S\<rparr>) \<and> stack_is S (rev vs @ stk) n"
  using push_words_fit [OF assms, of "eh_malloc H"] by (auto simp: rm_push_def)

lemma pop_u32_2_is:
  assumes "stack_is k (v # w # xs) n"
  shows "\<exists>k'. pop_u32_2 k = Some (v, w, k') \<and> stack_is k' xs n"
  using pop2_is [OF assms] by (auto simp: pop2_def split: bind_splits)

lemma pop_u32_3_is:
  assumes "stack_is k (u # v # w # xs) n"
  shows "\<exists>k'. pop_u32_3 k = Some (u, v, w, k') \<and> stack_is k' xs n"
  using pop3_is [OF assms] by (auto simp: pop3_def split: bind_splits)

lemma exp_kind_special:
  assumes "form h e a d" and "type_of a = VAL_TYPE_SYMBOL"
  shows "dec_sym a = SYM_AND \<Longrightarrow> exp_kind_of h e = Some EXP_AND"
    and "dec_sym a = SYM_OR \<Longrightarrow> exp_kind_of h e = Some EXP_OR"
    and "dec_sym a = DEF_REPR_QUOTE \<Longrightarrow> exp_kind_of h e = Some EXP_QUOTED"
    and "dec_sym a = DEF_REPR_DEFINE \<Longrightarrow> exp_kind_of h e = Some EXP_DEFINE"
    and "dec_sym a = DEF_REPR_PROGN \<Longrightarrow> exp_kind_of h e = Some EXP_PROGN"
    and "dec_sym a = DEF_REPR_LAMBDA \<Longrightarrow> exp_kind_of h e = Some EXP_LAMBDA"
    and "dec_sym a = DEF_REPR_IF \<Longrightarrow> exp_kind_of h e = Some EXP_IF"
    and "dec_sym a = DEF_REPR_LET \<Longrightarrow> exp_kind_of h e = Some EXP_LET"
  using assms by (simp_all add: exp_kind_of_def form_def)

lemma exp_kind_call:
  assumes "form h e a d" and "\<not> ec_special_head a"
  shows "exp_kind_of h e = Some (if type_of a = VAL_TYPE_SYMBOL \<and> is_sym d DEF_REPR_NIL then EXP_NO_ARGS else EXP_APPLICATION)"
  using assms by (auto simp: exp_kind_of_def form_def ec_special_head_def is_sym_def Let_def)

lemma exp_kind_atom:
  "self_evaluating e \<or> is_special e \<Longrightarrow> exp_kind_of h e = Some EXP_SELF_EVALUATING"
  "type_of e = VAL_TYPE_SYMBOL \<Longrightarrow> \<not> is_special e \<Longrightarrow> exp_kind_of h e = Some EXP_VARIABLE"
  by (auto simp: exp_kind_of_def self_evaluating_def is_special_def)

end
