(* ===== verification/EC_Steps.thy ===== *)
theory EC_Steps
  imports EC_Machine
begin

text \<open>
  The single rounds of the register machine: for every kind of expression, every continuation and
  every kind of function, from which state to which state one round of \<open>ec_eval\<close> leads.
\<close>

lemma push_at:
  assumes "at M s stk rm" and "length stk + length vs \<le> em_size M"
  obtains S where "\<And>rm'. rm_S rm' = rm_S rm \<Longrightarrow> rm_push H rm' vs = Some (rm'\<lparr>rm_S := S\<rparr>)"
    and "stack_is S (rev vs @ stk) (em_size M)"
proof -
  have "\<exists>S. push_seq (push_u32 (eh_malloc H)) (rm_S rm) vs = Some (True, S) \<and> stack_is S (rev vs @ stk) (em_size M)"
    using push_words_fit [OF atD(6) [OF assms(1)] assms(2)] by blast
  then show ?thesis using that by (auto simp: rm_push_def)
qed

lemmas state_defs = dispatching_def continuing_def applying_def at_def with_h_def rm_set_heap_def

subsection \<open>Leaves\<close>

lemma ec_step_self:
  assumes "self_evaluating e \<or> is_special e"
  shows "ec_goes M (dispatching M s e k stk) (continuing M s e k stk)"
  using exp_kind_atom(1) [OF assms]
  by (intro dispatching_goes) (auto simp: ec_dispatch_def ec_eval_self_evaluating_def state_defs)

lemma ec_step_variable:
  assumes e: "type_of e = VAL_TYPE_SYMBOL" "\<not> is_special e" and v: "symbol_value (em_exts M) s e = Some v"
    "\<not> is_sym v DEF_REPR_NOT_FOUND"
  shows "ec_goes M (dispatching M s e k stk) (continuing M s v k stk)"
proof (rule dispatching_goes)
  fix rm
  assume rm: "at M s stk rm" "rm_exp rm = e" "rm_cont rm = k"
  have "ec_eval_variable (em_host M) rm = Some (EVAL_CONTINUATION, rm\<lparr>rm_val := v\<rparr>)"
  proof (cases "extensions_lookup (em_exts M) (dec_sym e) = 0")
    case False
    with v e rm show ?thesis
      by (simp add: ec_eval_variable_def symbol_value_def is_extension_def atD(5) [OF rm(1)] is_symbol_sym)
  next
    case True
    with v e rm show ?thesis
      by (auto simp: ec_eval_variable_def symbol_value_def is_extension_def atD [OF rm(1)] is_symbol_sym
          bind_eq_Some_conv split: if_splits)
  qed
  then show "\<exists>y. ec_dispatch (em_host M) rm = Some (False, y) \<and> continuing M s v k stk y"
    using rm exp_kind_atom(2) [OF e] by (auto simp: ec_dispatch_def state_defs)
qed

lemma ec_step_quote:
  assumes f: "form (sc_heap s) e a d" "is_sym a DEF_REPR_QUOTE" and v: "car (sc_heap s) d = Some v"
  shows "ec_goes M (dispatching M s e k stk) (continuing M s v k stk)"
proof -
  have "exp_kind_of (sc_heap s) e = Some EXP_QUOTED" using f exp_kind_special(3) by (auto simp: is_sym_def)
  then show ?thesis
    using f v by (intro dispatching_goes) (auto simp: ec_dispatch_def ec_eval_quoted_def form_def state_defs)
qed

subsection \<open>Definitions and lambda expressions\<close>

lemma ec_step_define:
  assumes f: "form (sc_heap s) e a d" "is_sym a DEF_REPR_DEFINE"
    and d: "car (sc_heap s) d = Some key" "cdr (sc_heap s) d = Some d2" "car (sc_heap s) d2 = Some x"
    and room: "length stk + 2 \<le> em_size M"
  shows "ec_goes M (dispatching M s e k stk) (dispatching M s x (enc_u CONT_DEFINE) (k # key # stk))"
proof -
  have kind: "exp_kind_of (sc_heap s) e = Some EXP_DEFINE" using f exp_kind_special(4) by (auto simp: is_sym_def)
  show ?thesis
  proof (rule dispatching_goes)
    fix rm
    assume rm: "at M s stk rm" "rm_exp rm = e" "rm_cont rm = k"
    obtain S where "\<And>rm'. rm_S rm' = rm_S rm \<Longrightarrow> rm_push (em_host M) rm' [key, k] = Some (rm'\<lparr>rm_S := S\<rparr>)"
        "stack_is S (k # key # stk) (em_size M)"
      using push_at [OF rm(1), of "[key, k]" "em_host M"] room by auto
    then show "\<exists>y. ec_dispatch (em_host M) rm = Some (False, y) \<and> dispatching M s x (enc_u CONT_DEFINE) (k # key # stk) y"
      using f d rm kind by (auto simp: ec_dispatch_def ec_eval_define_def form_def state_defs)
  qed
qed

lemma or_collect_ok:
  "f rm = Some (v, rm') \<Longrightarrow> \<not> is_sym v DEF_REPR_MERROR \<Longrightarrow> or_collect f rm = Some (v, rm')"
  by (simp add: or_collect_def is_symbol_sym)

lemma alloc_ok:
  assumes "f (sc_heap s) = Some (v, h)" and "\<not> is_sym v DEF_REPR_MERROR" and "rm_rt rm = sc_rt s"
  shows "or_collect (rm_alloc f) rm = Some (v, rm_set_heap rm h)"
  using assms by (intro or_collect_ok) (simp_all add: rm_alloc_def)

lemma dec_enc_cont [simp]: "take_bit 28 c = c \<Longrightarrow> dec_u (enc_u c) = c"
  by (simp add: dec_u_enc_u)

lemma ec_cont_define_goes:
  assumes g: "env_set (sc_heap s) (sc_global s) key v = Some (ge, h)" "\<not> is_sym ge DEF_REPR_MERROR"
  shows "ec_goes M (continuing M s v (enc_u CONT_DEFINE) (k # key # stk)) (continuing M ((with_h s h)\<lparr>sc_global := ge\<rparr>) key k stk)"
proof (rule continuing_goes)
  fix rm
  assume rm: "at M s (k # key # stk) rm" "rm_val rm = v" "rm_cont rm = enc_u CONT_DEFINE"
  obtain S where S: "pop_u32_2 (rm_S rm) = Some (k, key, S)" "stack_is S stk (em_size M)"
    using pop_u32_2_is [OF atD(6) [OF rm(1)]] by blast
  have "ec_cont_define rm = Some (EVAL_CONTINUATION,
      (rm_set_heap (rm\<lparr>rm_cont := k, rm_unev := key, rm_S := S\<rparr>) h)\<lparr>rm_global := ge, rm_val := key\<rparr>)"
    using g S rm by (simp add: ec_cont_define_def or_collect_def rm_alloc_def atD [OF rm(1)] is_symbol_sym rm_set_heap_def)
  then show "\<exists>y. ec_continue (em_host M) rm = Some (False, y) \<and> continuing M ((with_h s h)\<lparr>sc_global := ge\<rparr>) key k stk y"
    using rm S(2) by (auto simp: ec_continue_def state_defs)
qed

lemma ec_step_lambda:
  assumes f: "form (sc_heap s) e a d" "is_sym a DEF_REPR_LAMBDA"
    and c: "ec_make_closure e (sc_env s) (sc_heap s) = Some (v, h)" "\<not> is_sym v DEF_REPR_MERROR"
  shows "ec_goes M (dispatching M s e k stk) (continuing M (with_h s h) v k stk)"
proof -
  have kind: "exp_kind_of (sc_heap s) e = Some EXP_LAMBDA" using f exp_kind_special(6) by (auto simp: is_sym_def)
  show ?thesis
  proof (rule dispatching_goes)
    fix rm
    assume rm: "at M s stk rm" "rm_exp rm = e" "rm_cont rm = k"
    have "ec_eval_lambda rm = Some (EVAL_CONTINUATION, (rm_set_heap rm h)\<lparr>rm_val := v\<rparr>)"
      using c rm by (simp add: ec_eval_lambda_def or_collect_def rm_alloc_def atD [OF rm(1)] is_symbol_sym)
    then show "\<exists>y. ec_dispatch (em_host M) rm = Some (False, y) \<and> continuing M (with_h s h) v k stk y"
      using rm kind by (auto simp: ec_dispatch_def state_defs)
  qed
qed

subsection \<open>Conditionals and sequences\<close>

lemma ec_step_if:
  assumes f: "form (sc_heap s) e a d" "is_sym a DEF_REPR_IF"
    and d: "car (sc_heap s) d = Some c" "cdr (sc_heap s) d = Some d2" and room: "length stk + 3 \<le> em_size M"
  shows "ec_goes M (dispatching M s e k stk) (dispatching M s c (enc_u CONT_BRANCH) (d2 # sc_env s # k # stk))"
proof -
  have kind: "exp_kind_of (sc_heap s) e = Some EXP_IF" using f exp_kind_special(7) by (auto simp: is_sym_def)
  show ?thesis
  proof (rule dispatching_goes)
    fix rm
    assume rm: "at M s stk rm" "rm_exp rm = e" "rm_cont rm = k"
    obtain S where "\<And>rm'. rm_S rm' = rm_S rm \<Longrightarrow> rm_push (em_host M) rm' [k, sc_env s, d2] = Some (rm'\<lparr>rm_S := S\<rparr>)"
        "stack_is S (d2 # sc_env s # k # stk) (em_size M)"
      using push_at [OF rm(1), of "[k, sc_env s, d2]" "em_host M"] room by auto
    then show "\<exists>y. ec_dispatch (em_host M) rm = Some (False, y) \<and>
        dispatching M s c (enc_u CONT_BRANCH) (d2 # sc_env s # k # stk) y"
      using f d rm kind by (auto simp: ec_dispatch_def ec_eval_if_def form_def state_defs)
  qed
qed

lemma ec_cont_branch_goes:
  assumes "car (sc_heap s) d2 = Some x" "cdr (sc_heap s) d2 = Some d3" "car (sc_heap s) d3 = Some y"
  shows "ec_goes M (continuing M s v (enc_u CONT_BRANCH) (d2 # env # k # stk))
    (dispatching M (s\<lparr>sc_env := env\<rparr>) (if is_sym v DEF_REPR_NIL then y else x) k stk)"
proof (rule continuing_goes)
  fix rm
  assume rm: "at M s (d2 # env # k # stk) rm" "rm_val rm = v" "rm_cont rm = enc_u CONT_BRANCH"
  obtain S where "pop_u32_3 (rm_S rm) = Some (d2, env, k, S)" "stack_is S stk (em_size M)"
    using pop_u32_3_is [OF atD(6) [OF rm(1)]] by blast
  then show "\<exists>z. ec_continue (em_host M) rm = Some (False, z) \<and>
      dispatching M (s\<lparr>sc_env := env\<rparr>) (if is_sym v DEF_REPR_NIL then y else x) k stk z"
    using rm assms by (auto simp: ec_continue_def ec_cont_branch_def is_symbol_sym state_defs)
qed

lemma ec_step_progn:
  assumes f: "form (sc_heap s) e a xs" "is_sym a DEF_REPR_PROGN" and room: "length stk + 2 \<le> em_size M"
    and seq: "ec_then M (at_sequence M s xs (k # stk)) (ec_eval_sequence (em_host M)) Q"
  shows "ec_goes M (dispatching M s e k stk) Q"
proof (rule dispatching_then [OF _ seq])
  fix rm
  assume rm: "at M s stk rm" "rm_exp rm = e" "rm_cont rm = k"
  have kind: "exp_kind_of (sc_heap s) e = Some EXP_PROGN" using f exp_kind_special(5) by (auto simp: is_sym_def)
  obtain S where S: "\<And>rm'. rm_S rm' = rm_S rm \<Longrightarrow> rm_push (em_host M) rm' [k, sc_env s] = Some (rm'\<lparr>rm_S := S\<rparr>)"
      "stack_is S (sc_env s # k # stk) (em_size M)"
    using push_at [OF rm(1), of "[k, sc_env s]" "em_host M"] room by auto
  let ?rm = "rm\<lparr>rm_S := S, rm_unev := xs\<rparr>"
  have "at_sequence M s xs (k # stk) ?rm" using rm(1) S(2) by (simp add: at_def at_sequence_def)
  moreover have "ec_dispatch (em_host M) rm = map_option (Pair False) (ec_eval_sequence (em_host M) ?rm)"
    using f rm S(1) kind by (simp add: ec_dispatch_def ec_eval_progn_def form_def atD [OF rm(1)])
  ultimately show "\<exists>rm'. at_sequence M s xs (k # stk) rm' \<and>
      ec_dispatch (em_host M) rm = map_option (Pair False) (ec_eval_sequence (em_host M) rm')" by blast
qed

lemma ec_seq_last:
  assumes xs: "car (sc_heap s) xs = Some x" "cdr (sc_heap s) xs = Some d" "is_sym d DEF_REPR_NIL"
  shows "ec_goes M (dispatching M s x k stk) Q \<Longrightarrow> ec_then M (at_sequence M s xs (k # stk)) (ec_eval_sequence H) Q"
proof (rule ec_then_goes)
  fix rm
  assume "at_sequence M s xs (k # stk) rm"
  then have rm: "at M s (sc_env s # k # stk) (rm\<lparr>rm_env := sc_env s\<rparr>)" "rm_unev rm = xs" by (simp_all add: at_sequence_def)
  obtain S1 where S1: "pop_u32 (rm_S rm) = Some (sc_env s, S1)" "stack_is S1 (k # stk) (em_size M)"
    using pop_is atD(6) [OF rm(1)] by fastforce
  obtain S2 where "pop_u32 S1 = Some (k, S2)" "stack_is S2 stk (em_size M)" using pop_is [OF S1(2)] by blast
  then show "\<exists>y. ec_eval_sequence H rm = Some y \<and> dispatching M s x k stk y"
    using xs rm S1 by (auto simp: ec_eval_sequence_def state_defs is_sym_def)
qed

lemma ec_seq_more:
  assumes xs: "car (sc_heap s) xs = Some x" "cdr (sc_heap s) xs = Some d" "\<not> is_sym d DEF_REPR_NIL"
    and room: "length stk + 2 \<le> em_size M" and H: "H = em_host M"
  shows "ec_goes M (dispatching M s x (enc_u CONT_SEQUENCE) (xs # sc_env s # stk)) Q \<Longrightarrow>
    ec_then M (at_sequence M s xs stk) (ec_eval_sequence H) Q"
proof (rule ec_then_goes)
  fix rm
  assume "at_sequence M s xs stk rm"
  then have rm: "at M s (sc_env s # stk) (rm\<lparr>rm_env := sc_env s\<rparr>)" "rm_unev rm = xs" by (simp_all add: at_sequence_def)
  obtain S1 where S1: "pop_u32 (rm_S rm) = Some (sc_env s, S1)" "stack_is S1 stk (em_size M)"
    using pop_is atD(6) [OF rm(1)] by fastforce
  have "at M s stk (rm\<lparr>rm_env := sc_env s, rm_S := S1\<rparr>)" using rm(1) S1(2) by (simp add: at_def)
  from push_at [OF this, of "[sc_env s, xs]" H] room
  obtain S2 where "\<And>rm'. rm_S rm' = S1 \<Longrightarrow> rm_push H rm' [sc_env s, xs] = Some (rm'\<lparr>rm_S := S2\<rparr>)"
      "stack_is S2 (xs # sc_env s # stk) (em_size M)" by auto
  then show "\<exists>y. ec_eval_sequence H rm = Some y \<and> dispatching M s x (enc_u CONT_SEQUENCE) (xs # sc_env s # stk) y"
    using xs rm S1 by (auto simp: ec_eval_sequence_def state_defs is_sym_def)
qed

lemma ec_cont_sequence_goes:
  assumes d: "cdr (sc_heap s) xs = Some d"
    and seq: "ec_then M (at_sequence M (s\<lparr>sc_env := env\<rparr>) d stk) (ec_eval_sequence (em_host M)) Q"
  shows "ec_goes M (continuing M s v (enc_u CONT_SEQUENCE) (xs # env # stk)) Q"
proof (rule continuing_then [OF _ seq])
  fix rm
  assume rm: "at M s (xs # env # stk) rm" "rm_val rm = v" "rm_cont rm = enc_u CONT_SEQUENCE"
  obtain S where S: "pop_u32 (rm_S rm) = Some (xs, S)" "stack_is S (env # stk) (em_size M)"
    using pop_is [OF atD(6) [OF rm(1)]] by blast
  let ?rm = "rm\<lparr>rm_unev := d, rm_S := S\<rparr>"
  have "at_sequence M (s\<lparr>sc_env := env\<rparr>) d stk ?rm" using rm(1) S(2) by (simp add: at_def at_sequence_def)
  moreover have "ec_continue (em_host M) rm = map_option (Pair False) (ec_eval_sequence (em_host M) ?rm)"
    using S d rm by (simp add: ec_continue_def ec_cont_sequence_def atD [OF rm(1)])
  ultimately show "\<exists>rm'. at_sequence M (s\<lparr>sc_env := env\<rparr>) d stk rm' \<and>
      ec_continue (em_host M) rm = map_option (Pair False) (ec_eval_sequence (em_host M) rm')" by blast
qed

subsection \<open>Bindings\<close>

lemma ec_let_prealloc_places:
  assumes "places h binds env env' h'"
  shows "rm_heap rm = h \<Longrightarrow> ec_let_prealloc rm binds env = Some (Some env', rm_set_heap rm h')"
  using assms
proof (induction arbitrary: rm rule: places.induct)
  case (places_nil binds h env)
  then have "rm_set_heap rm h = rm" by (cases rm) (auto simp: rm_set_heap_def)
  with places_nil show ?case by (subst ec_let_prealloc.simps) (simp add: is_symbol_sym)
next
  case (places_cons binds h b key env p h1 env1 h2 bs env' h')
  have "\<not> is_sym p DEF_REPR_MERROR" using places_cons.hyps by (simp add: is_sym_def)
  moreover have "rm_set_heap (rm_set_heap rm h1) h2 = rm_set_heap rm h2" "rm_set_heap (rm_set_heap rm h2) h' = rm_set_heap rm h'"
    by (simp_all add: rm_set_heap_def)
  moreover have "rm_heap (rm_set_heap rm h1) = h1" "rm_heap (rm_set_heap rm h2) = h2" by (simp_all add: rm_set_heap_def)
  ultimately show ?case
    using places_cons by (subst ec_let_prealloc.simps) (simp add: is_symbol_sym ec_new_binding_def rm_alloc_def)
qed

lemma ec_step_let:
  assumes f: "form (sc_heap s) e a d" "is_sym a DEF_REPR_LET"
    and d: "car (sc_heap s) d = Some binds" "cdr (sc_heap s) d = Some d2" "car (sc_heap s) d2 = Some body"
    and p: "\<And>rm. rm_heap rm = sc_heap s \<Longrightarrow> ec_let_prealloc rm binds (sc_env s) = Some (Some env, rm_set_heap rm h)"
    and room: "length stk + 3 \<le> em_size M"
    and loop: "ec_then M (at_let M ((with_h s h)\<lparr>sc_env := env\<rparr>) binds (body # sc_env s # k # stk)) (ec_eval_let_loop (em_host M)) Q"
  shows "ec_goes M (dispatching M s e k stk) Q"
proof (rule dispatching_then [OF _ loop])
  fix rm
  assume rm: "at M s stk rm" "rm_exp rm = e" "rm_cont rm = k"
  have kind: "exp_kind_of (sc_heap s) e = Some EXP_LET" using f exp_kind_special(8) by (auto simp: is_sym_def)
  obtain S where S: "\<And>rm'. rm_S rm' = rm_S rm \<Longrightarrow> rm_push (em_host M) rm' [k, sc_env s, body] = Some (rm'\<lparr>rm_S := S\<rparr>)"
      "stack_is S (body # sc_env s # k # stk) (em_size M)"
    using push_at [OF rm(1), of "[k, sc_env s, body]" "em_host M"] room by auto
  let ?rm = "(rm_set_heap (rm\<lparr>rm_S := S, rm_unev := binds\<rparr>) h)\<lparr>rm_env := env\<rparr>"
  have "ec_let_prealloc (rm\<lparr>rm_S := S, rm_unev := binds\<rparr>) binds (sc_env s) =
      Some (Some env, rm_set_heap (rm\<lparr>rm_S := S, rm_unev := binds\<rparr>) h)"
    using atD(1) [OF rm(1)] by (intro p) simp
  then have "ec_dispatch (em_host M) rm = map_option (Pair False) (ec_eval_let_loop (em_host M) ?rm)"
    using f d rm S(1) kind by (simp add: ec_dispatch_def ec_eval_let_def form_def atD [OF rm(1)])
  moreover have "at_let M ((with_h s h)\<lparr>sc_env := env\<rparr>) binds (body # sc_env s # k # stk) ?rm"
    using rm(1) S(2) by (simp add: at_let_def state_defs)
  ultimately show "\<exists>rm'. at_let M ((with_h s h)\<lparr>sc_env := env\<rparr>) binds (body # sc_env s # k # stk) rm' \<and>
      ec_dispatch (em_host M) rm = map_option (Pair False) (ec_eval_let_loop (em_host M) rm')" by blast
qed

lemma ec_let_body:
  assumes "is_sym binds DEF_REPR_NIL"
  shows "ec_goes M (dispatching M s body (enc_u CONT_END_LET) stk) Q \<Longrightarrow>
    ec_then M (at_let M s binds (body # stk)) (ec_eval_let_loop H) Q"
proof (rule ec_then_goes)
  fix rm
  assume "at_let M s binds (body # stk) rm"
  then have rm: "at M s (body # stk) rm" "rm_unev rm = binds" by (simp_all add: at_let_def)
  obtain S where "pop_u32 (rm_S rm) = Some (body, S)" "stack_is S stk (em_size M)" using pop_is [OF atD(6) [OF rm(1)]] by blast
  then show "\<exists>x. ec_eval_let_loop H rm = Some x \<and> dispatching M s body (enc_u CONT_END_LET) stk x"
    using assms rm by (auto simp: ec_eval_let_loop_def is_symbol_sym state_defs)
qed

lemma ec_cont_end_let_goes:
  "ec_goes M (continuing M s v (enc_u CONT_END_LET) (env # k # stk)) (continuing M (s\<lparr>sc_env := env\<rparr>) v k stk)"
proof (rule continuing_goes)
  fix rm
  assume rm: "at M s (env # k # stk) rm" "rm_val rm = v" "rm_cont rm = enc_u CONT_END_LET"
  obtain S where "pop_u32_2 (rm_S rm) = Some (env, k, S)" "stack_is S stk (em_size M)"
    using pop_u32_2_is [OF atD(6) [OF rm(1)]] by blast
  then show "\<exists>y. ec_continue (em_host M) rm = Some (False, y) \<and> continuing M (s\<lparr>sc_env := env\<rparr>) v k stk y"
    using rm by (auto simp: ec_continue_def ec_cont_end_let_def state_defs)
qed

lemma ec_let_bind:
  assumes b: "\<not> is_sym binds DEF_REPR_NIL" "car (sc_heap s) binds = Some b" "cdr (sc_heap s) b = Some bd"
      "car (sc_heap s) bd = Some x"
    and room: "length stk + 2 \<le> em_size M"
  shows "ec_goes M (dispatching M s x (enc_u CONT_BIND_VAR) (binds # sc_env s # stk)) Q \<Longrightarrow>
    ec_then M (at_let M s binds stk) (ec_eval_let_loop H) Q"
proof (rule ec_then_goes)
  fix rm
  assume "at_let M s binds stk rm"
  then have rm: "at M s stk rm" "rm_unev rm = binds" by (simp_all add: at_let_def)
  obtain S where "\<And>rm'. rm_S rm' = rm_S rm \<Longrightarrow> rm_push H rm' [sc_env s, binds] = Some (rm'\<lparr>rm_S := S\<rparr>)"
      "stack_is S (binds # sc_env s # stk) (em_size M)"
    using push_at [OF rm(1), of "[sc_env s, binds]" H] room by auto
  then show "\<exists>y. ec_eval_let_loop H rm = Some y \<and> dispatching M s x (enc_u CONT_BIND_VAR) (binds # sc_env s # stk) y"
    using b rm by (auto simp: ec_eval_let_loop_def is_symbol_sym state_defs)
qed

lemma ec_cont_bind_var_goes:
  assumes b: "car (sc_heap s) binds = Some b" "car (sc_heap s) b = Some key"
    and m: "env_modify_binding (sc_heap s) env key v = Some (r, h)" and bs: "cdr h binds = Some bs"
    and loop: "ec_then M (at_let M ((with_h s h)\<lparr>sc_env := env\<rparr>) bs stk) (ec_eval_let_loop (em_host M)) Q"
  shows "ec_goes M (continuing M s v (enc_u CONT_BIND_VAR) (binds # env # stk)) Q"
proof (rule continuing_then [OF _ loop])
  fix rm
  assume rm: "at M s (binds # env # stk) rm" "rm_val rm = v" "rm_cont rm = enc_u CONT_BIND_VAR"
  obtain S where S: "pop_u32_2 (rm_S rm) = Some (binds, env, S)" "stack_is S stk (em_size M)"
    using pop_u32_2_is [OF atD(6) [OF rm(1)]] by blast
  let ?rm = "(rm_set_heap (rm\<lparr>rm_unev := binds, rm_env := env, rm_S := S\<rparr>) h)\<lparr>rm_unev := bs\<rparr>"
  have "ec_continue (em_host M) rm = map_option (Pair False) (ec_eval_let_loop (em_host M) ?rm)"
    using b m bs S rm by (simp add: ec_continue_def ec_cont_bind_var_def rm_alloc_def atD [OF rm(1)] rm_set_heap_def)
  moreover have "at_let M ((with_h s h)\<lparr>sc_env := env\<rparr>) bs stk ?rm" using rm(1) S(2) by (simp add: at_let_def state_defs)
  ultimately show "\<exists>rm'. at_let M ((with_h s h)\<lparr>sc_env := env\<rparr>) bs stk rm' \<and>
      ec_continue (em_host M) rm = map_option (Pair False) (ec_eval_let_loop (em_host M) rm')" by blast
qed

subsection \<open>Conjunction and disjunction\<close>

lemma ec_step_logic:
  assumes f: "form (sc_heap s) e a d" and d: "car (sc_heap s) d = Some x" "cdr (sc_heap s) d = Some xs"
    and step: "\<And>rm. rm_heap rm = sc_heap s \<Longrightarrow> rm_exp rm = e \<Longrightarrow>
      ec_dispatch (em_host M) rm = map_option (Pair False) (ec_eval_logic (em_host M) rm z c)"
    and room: "length stk + 3 \<le> em_size M"
  shows "ec_goes M (dispatching M s e k stk) (dispatching M s x (enc_u c) (xs # sc_env s # k # stk))"
proof (rule dispatching_goes)
  fix rm
  assume rm: "at M s stk rm" "rm_exp rm = e" "rm_cont rm = k"
  obtain S where "\<And>rm'. rm_S rm' = rm_S rm \<Longrightarrow> rm_push (em_host M) rm' [k, sc_env s, xs] = Some (rm'\<lparr>rm_S := S\<rparr>)"
      "stack_is S (xs # sc_env s # k # stk) (em_size M)"
    using push_at [OF rm(1), of "[k, sc_env s, xs]" "em_host M"] room by auto
  then have "\<exists>y. ec_eval_logic (em_host M) rm z c = Some y \<and> dispatching M s x (enc_u c) (xs # sc_env s # k # stk) y"
    using f d rm by (auto simp: ec_eval_logic_def form_def state_defs Let_def)
  then show "\<exists>y. ec_dispatch (em_host M) rm = Some (False, y) \<and> dispatching M s x (enc_u c) (xs # sc_env s # k # stk) y"
    using step [OF atD(1) [OF rm(1)] rm(2)] by auto
qed

lemma ec_step_and:
  assumes "form (sc_heap s) e a d" "is_sym a SYM_AND" "car (sc_heap s) d = Some x" "cdr (sc_heap s) d = Some xs"
    "length stk + 3 \<le> em_size M"
  shows "ec_goes M (dispatching M s e k stk) (dispatching M s x (enc_u CONT_AND) (xs # sc_env s # k # stk))"
proof -
  have "exp_kind_of (sc_heap s) e = Some EXP_AND" using assms exp_kind_special(1) by (auto simp: is_sym_def)
  then show ?thesis
    using assms by (intro ec_step_logic [where z = "enc_sym DEF_REPR_TRUE"]) (auto simp: ec_dispatch_def ec_eval_and_def)
qed

lemma ec_step_or:
  assumes "form (sc_heap s) e a d" "is_sym a SYM_OR" "car (sc_heap s) d = Some x" "cdr (sc_heap s) d = Some xs"
    "length stk + 3 \<le> em_size M"
  shows "ec_goes M (dispatching M s e k stk) (dispatching M s x (enc_u CONT_OR) (xs # sc_env s # k # stk))"
proof -
  have "exp_kind_of (sc_heap s) e = Some EXP_OR" using assms exp_kind_special(2) by (auto simp: is_sym_def)
  then show ?thesis
    using assms by (intro ec_step_logic [where z = "enc_sym DEF_REPR_NIL"]) (auto simp: ec_dispatch_def ec_eval_or_def)
qed

lemma ec_cont_logic_stop:
  assumes step: "\<And>rm. rm_cont rm = enc_u c \<Longrightarrow> ec_continue (em_host M) rm = map_option (Pair False) (ec_cont_logic (em_host M) rm decided c)"
    and stop: "decided v \<or> is_sym xs DEF_REPR_NIL"
  shows "ec_goes M (continuing M s v (enc_u c) (xs # env # k # stk)) (continuing M (s\<lparr>sc_env := env\<rparr>) v k stk)"
proof (rule continuing_goes)
  fix rm
  assume rm: "at M s (xs # env # k # stk) rm" "rm_val rm = v" "rm_cont rm = enc_u c"
  obtain S1 where S1: "pop_u32_2 (rm_S rm) = Some (xs, env, S1)" "stack_is S1 (k # stk) (em_size M)"
    using pop_u32_2_is [OF atD(6) [OF rm(1)]] by blast
  obtain S2 where "pop_u32 S1 = Some (k, S2)" "stack_is S2 stk (em_size M)" using pop_is [OF S1(2)] by blast
  then show "\<exists>y. ec_continue (em_host M) rm = Some (False, y) \<and> continuing M (s\<lparr>sc_env := env\<rparr>) v k stk y"
    using rm S1 stop step [OF rm(3)] by (auto simp: ec_cont_logic_def is_symbol_sym state_defs)
qed

lemma ec_cont_logic_more:
  assumes step: "\<And>rm. rm_cont rm = enc_u c \<Longrightarrow> ec_continue (em_host M) rm = map_option (Pair False) (ec_cont_logic (em_host M) rm decided c)"
    and more: "\<not> decided v" "\<not> is_sym xs DEF_REPR_NIL" "car (sc_heap s) xs = Some x" "cdr (sc_heap s) xs = Some d"
    and room: "length stk + 2 \<le> em_size M"
  shows "ec_goes M (continuing M s v (enc_u c) (xs # env # stk)) (dispatching M (s\<lparr>sc_env := env\<rparr>) x (enc_u c) (d # env # stk))"
proof (rule continuing_goes)
  fix rm
  assume rm: "at M s (xs # env # stk) rm" "rm_val rm = v" "rm_cont rm = enc_u c"
  obtain S1 where S1: "pop_u32_2 (rm_S rm) = Some (xs, env, S1)" "stack_is S1 stk (em_size M)"
    using pop_u32_2_is [OF atD(6) [OF rm(1)]] by blast
  have "at M s stk (rm\<lparr>rm_S := S1\<rparr>)" using rm(1) S1(2) by (simp add: at_def)
  from push_at [OF this, of "[env, d]" "em_host M"] room
  obtain S2 where "\<And>rm'. rm_S rm' = S1 \<Longrightarrow> rm_push (em_host M) rm' [env, d] = Some (rm'\<lparr>rm_S := S2\<rparr>)"
      "stack_is S2 (d # env # stk) (em_size M)" by auto
  then show "\<exists>y. ec_continue (em_host M) rm = Some (False, y) \<and>
      dispatching M (s\<lparr>sc_env := env\<rparr>) x (enc_u c) (d # env # stk) y"
    using rm S1 more step [OF rm(3)] by (auto simp: ec_cont_logic_def is_symbol_sym state_defs)
qed

lemma ec_continue_logic:
  "rm_cont rm = enc_u CONT_AND \<Longrightarrow> ec_continue H rm = map_option (Pair False) (ec_cont_logic H rm is_symbol_nil CONT_AND)"
  "rm_cont rm = enc_u CONT_OR \<Longrightarrow> ec_continue H rm = map_option (Pair False) (ec_cont_logic H rm (\<lambda>v. \<not> is_symbol_nil v) CONT_OR)"
  by (simp_all add: ec_continue_def ec_cont_and_def ec_cont_or_def)

lemmas ec_cont_and_goes = ec_cont_logic_stop [OF ec_continue_logic(1), unfolded is_symbol_sym]
  ec_cont_logic_more [OF ec_continue_logic(1), unfolded is_symbol_sym]
lemmas ec_cont_or_goes = ec_cont_logic_stop [OF ec_continue_logic(2), unfolded is_symbol_sym]
  ec_cont_logic_more [OF ec_continue_logic(2), unfolded is_symbol_sym not_not]

subsection \<open>Applications\<close>

lemma ec_step_call0:
  assumes f: "form (sc_heap s) e a d" "\<not> ec_special_head a" "type_of a = VAL_TYPE_SYMBOL" "is_sym d DEF_REPR_NIL"
    and room: "length stk + 1 \<le> em_size M"
  shows "ec_goes M (dispatching M s e k stk) (dispatching M s a (enc_u CONT_SETUP_NO_ARG_APPLY) (k # stk))"
proof (rule dispatching_goes)
  fix rm
  assume rm: "at M s stk rm" "rm_exp rm = e" "rm_cont rm = k"
  obtain S where "\<And>rm'. rm_S rm' = rm_S rm \<Longrightarrow> rm_push (em_host M) rm' [k] = Some (rm'\<lparr>rm_S := S\<rparr>)"
      "stack_is S (k # stk) (em_size M)"
    using push_at [OF rm(1), of "[k]" "em_host M"] room by auto
  moreover have "exp_kind_of (sc_heap s) e = Some EXP_NO_ARGS" using exp_kind_call [OF f(1,2)] f(3,4) by simp
  ultimately show "\<exists>y. ec_dispatch (em_host M) rm = Some (False, y) \<and>
      dispatching M s a (enc_u CONT_SETUP_NO_ARG_APPLY) (k # stk) y"
    using f(1) rm by (auto simp: ec_dispatch_def ec_eval_no_args_def form_def state_defs)
qed

lemma ec_cont_setup_goes:
  "ec_goes M (continuing M s f (enc_u CONT_SETUP_NO_ARG_APPLY) stk) (applying M s f NIL stk)"
  by (rule continuing_goes) (auto simp: ec_continue_def ec_cont_setup_no_arg_apply_def state_defs)

lemma ec_step_call:
  assumes f: "form (sc_heap s) e a d" "\<not> ec_special_head a" "\<not> (type_of a = VAL_TYPE_SYMBOL \<and> is_sym d DEF_REPR_NIL)"
    and room: "length stk + 3 \<le> em_size M"
  shows "ec_goes M (dispatching M s e k stk) (dispatching M s a (enc_u CONT_EVAL_ARGS) (d # sc_env s # k # stk))"
proof (rule dispatching_goes)
  fix rm
  assume rm: "at M s stk rm" "rm_exp rm = e" "rm_cont rm = k"
  obtain S where "\<And>rm'. rm_S rm' = rm_S rm \<Longrightarrow> rm_push (em_host M) rm' [k, sc_env s, d] = Some (rm'\<lparr>rm_S := S\<rparr>)"
      "stack_is S (d # sc_env s # k # stk) (em_size M)"
    using push_at [OF rm(1), of "[k, sc_env s, d]" "em_host M"] room by auto
  moreover have "exp_kind_of (sc_heap s) e = Some EXP_APPLICATION" using exp_kind_call [OF f(1,2)] f(3) by simp
  ultimately show "\<exists>y. ec_dispatch (em_host M) rm = Some (False, y) \<and>
      dispatching M s a (enc_u CONT_EVAL_ARGS) (d # sc_env s # k # stk) y"
    using f(1) rm by (auto simp: ec_dispatch_def ec_eval_application_def form_def state_defs)
qed

lemma ec_cont_eval_args_goes:
  assumes room: "length stk + 1 \<le> em_size M"
    and args: "ec_then M (at_args M (s\<lparr>sc_env := env\<rparr>) NIL xs (f # stk)) (ec_eval_arg_loop (em_host M)) Q"
  shows "ec_goes M (continuing M s f (enc_u CONT_EVAL_ARGS) (xs # env # stk)) Q"
proof (rule continuing_then [OF _ args])
  fix rm
  assume rm: "at M s (xs # env # stk) rm" "rm_val rm = f" "rm_cont rm = enc_u CONT_EVAL_ARGS"
  obtain S1 where S1: "pop_u32_2 (rm_S rm) = Some (xs, env, S1)" "stack_is S1 stk (em_size M)"
    using pop_u32_2_is [OF atD(6) [OF rm(1)]] by blast
  have "at M s stk (rm\<lparr>rm_S := S1\<rparr>)" using rm(1) S1(2) by (simp add: at_def)
  from push_at [OF this, of "[f]" "em_host M"] room
  obtain S2 where S2: "\<And>rm'. rm_S rm' = S1 \<Longrightarrow> rm_push (em_host M) rm' [f] = Some (rm'\<lparr>rm_S := S2\<rparr>)"
      "stack_is S2 (f # stk) (em_size M)" by auto
  let ?rm = "rm\<lparr>rm_unev := xs, rm_env := env, rm_S := S1, rm_fun := f, rm_S := S2, rm_argl := NIL\<rparr>"
  have "ec_continue (em_host M) rm = map_option (Pair False) (ec_eval_arg_loop (em_host M) ?rm)"
    using S1(1) S2(1) rm by (simp add: ec_continue_def ec_cont_eval_args_def)
  moreover have "at_args M (s\<lparr>sc_env := env\<rparr>) NIL xs (f # stk) ?rm" using rm(1) S2(2) by (simp add: at_args_def at_def)
  ultimately show "\<exists>rm'. at_args M (s\<lparr>sc_env := env\<rparr>) NIL xs (f # stk) rm' \<and>
      ec_continue (em_host M) rm = map_option (Pair False) (ec_eval_arg_loop (em_host M) rm')" by blast
qed

subsection \<open>Arguments\<close>

lemma ec_args_last:
  assumes xs: "car (sc_heap s) xs = Some x" "cdr (sc_heap s) xs = Some d" "is_sym d DEF_REPR_NIL"
    and room: "length stk + 1 \<le> em_size M"
  shows "ec_goes M (dispatching M s x (enc_u CONT_ACCUMULATE_LAST_ARG) (argl # stk)) Q \<Longrightarrow>
    ec_then M (at_args M s argl xs stk) (ec_eval_arg_loop H) Q"
proof (rule ec_then_goes)
  fix rm
  assume "at_args M s argl xs stk rm"
  then have rm: "at M s stk rm" "rm_argl rm = argl" "rm_unev rm = xs" by (simp_all add: at_args_def)
  obtain S where "\<And>rm'. rm_S rm' = rm_S rm \<Longrightarrow> rm_push H rm' [argl] = Some (rm'\<lparr>rm_S := S\<rparr>)"
      "stack_is S (argl # stk) (em_size M)"
    using push_at [OF rm(1), of "[argl]" H] room by auto
  then show "\<exists>y. ec_eval_arg_loop H rm = Some y \<and> dispatching M s x (enc_u CONT_ACCUMULATE_LAST_ARG) (argl # stk) y"
    using xs rm by (auto simp: ec_eval_arg_loop_def last_operand_def ec_eval_last_arg_def is_symbol_sym state_defs)
qed

lemma ec_args_more:
  assumes xs: "car (sc_heap s) xs = Some x" "cdr (sc_heap s) xs = Some d" "\<not> is_sym d DEF_REPR_NIL"
    and room: "length stk + 3 \<le> em_size M"
  shows "ec_goes M (dispatching M s x (enc_u CONT_ACCUMULATE_ARG) (xs # sc_env s # argl # stk)) Q \<Longrightarrow>
    ec_then M (at_args M s argl xs stk) (ec_eval_arg_loop H) Q"
proof (rule ec_then_goes)
  fix rm
  assume "at_args M s argl xs stk rm"
  then have rm: "at M s stk rm" "rm_argl rm = argl" "rm_unev rm = xs" by (simp_all add: at_args_def)
  obtain S1 where S1: "\<And>rm'. rm_S rm' = rm_S rm \<Longrightarrow> rm_push H rm' [argl] = Some (rm'\<lparr>rm_S := S1\<rparr>)"
      "stack_is S1 (argl # stk) (em_size M)"
    using push_at [OF rm(1), of "[argl]" H] room by auto
  have "at M s (argl # stk) (rm\<lparr>rm_S := S1\<rparr>)" using rm(1) S1(2) by (simp add: at_def)
  from push_at [OF this, of "[sc_env s, xs]" H] room
  obtain S2 where "\<And>rm'. rm_S rm' = S1 \<Longrightarrow> rm_push H rm' [sc_env s, xs] = Some (rm'\<lparr>rm_S := S2\<rparr>)"
      "stack_is S2 (xs # sc_env s # argl # stk) (em_size M)" by auto
  then show "\<exists>y. ec_eval_arg_loop H rm = Some y \<and>
      dispatching M s x (enc_u CONT_ACCUMULATE_ARG) (xs # sc_env s # argl # stk) y"
    using xs rm S1 by (auto simp: ec_eval_arg_loop_def last_operand_def is_symbol_sym state_defs)
qed

lemma not_merror: "type_of v = PTR_TYPE_CONS \<Longrightarrow> \<not> is_sym v DEF_REPR_MERROR"
  by (simp add: is_sym_def)

lemma ec_cont_accumulate_goes:
  assumes l: "cons (sc_heap s) v argl = Some (l, h)" "type_of l = PTR_TYPE_CONS" and d: "cdr h xs = Some d"
    and args: "ec_then M (at_args M ((with_h s h)\<lparr>sc_env := env\<rparr>) l d stk) (ec_eval_arg_loop (em_host M)) Q"
  shows "ec_goes M (continuing M s v (enc_u CONT_ACCUMULATE_ARG) (xs # env # argl # stk)) Q"
proof (rule continuing_then [OF _ args])
  fix rm
  assume rm: "at M s (xs # env # argl # stk) rm" "rm_val rm = v" "rm_cont rm = enc_u CONT_ACCUMULATE_ARG"
  obtain S where S: "pop_u32_3 (rm_S rm) = Some (xs, env, argl, S)" "stack_is S stk (em_size M)"
    using pop_u32_3_is [OF atD(6) [OF rm(1)]] by blast
  let ?rm = "(rm_set_heap (rm\<lparr>rm_unev := xs, rm_env := env, rm_argl := argl, rm_S := S\<rparr>) h)\<lparr>rm_argl := l, rm_unev := d\<rparr>"
  have "ec_continue (em_host M) rm = map_option (Pair False) (ec_eval_arg_loop (em_host M) ?rm)"
    using S(1) rm l d not_merror [OF l(2)]
    by (simp add: ec_continue_def ec_cont_accumulate_arg_def or_collect_def rm_alloc_def atD [OF rm(1)] is_symbol_sym rm_set_heap_def)
  moreover have "at_args M ((with_h s h)\<lparr>sc_env := env\<rparr>) l d stk ?rm" using rm(1) S(2) by (simp add: at_args_def state_defs)
  ultimately show "\<exists>rm'. at_args M ((with_h s h)\<lparr>sc_env := env\<rparr>) l d stk rm' \<and>
      ec_continue (em_host M) rm = map_option (Pair False) (ec_eval_arg_loop (em_host M) rm')" by blast
qed

lemma ec_cont_accumulate_last_goes:
  assumes l: "cons (sc_heap s) v argl = Some (l, h1)" "type_of l = PTR_TYPE_CONS"
    and r: "reverse h1 l = Some (args, h2)" "type_of args = PTR_TYPE_CONS"
  shows "ec_goes M (continuing M s v (enc_u CONT_ACCUMULATE_LAST_ARG) (argl # f # stk)) (applying M (with_h s h2) f args stk)"
proof (rule continuing_goes)
  fix rm
  assume rm: "at M s (argl # f # stk) rm" "rm_val rm = v" "rm_cont rm = enc_u CONT_ACCUMULATE_LAST_ARG"
  obtain S1 where S1: "pop_u32 (rm_S rm) = Some (argl, S1)" "stack_is S1 (f # stk) (em_size M)"
    using pop_is [OF atD(6) [OF rm(1)]] by blast
  obtain S2 where S2: "pop_u32 S1 = Some (f, S2)" "stack_is S2 stk (em_size M)" using pop_is [OF S1(2)] by blast
  have "ec_cont_accumulate_last_arg rm = Some (EVAL_APPLY_DISPATCH,
      (rm_set_heap (rm\<lparr>rm_argl := l, rm_S := S1\<rparr>) h2)\<lparr>rm_argl := args, rm_fun := f, rm_S := S2\<rparr>)"
    using S1(1) S2(1) rm l r not_merror [OF l(2)] not_merror [OF r(2)]
    by (simp add: ec_cont_accumulate_last_arg_def or_collect_def rm_alloc_def atD [OF rm(1)] is_symbol_sym rm_set_heap_def)
  then show "\<exists>y. ec_continue (em_host M) rm = Some (False, y) \<and> applying M (with_h s h2) f args stk y"
    using rm S2(2) by (auto simp: ec_continue_def state_defs)
qed

subsection \<open>Functions\<close>

lemma push_args_items:
  "items (rm_heap rm) args vs \<Longrightarrow> stack_is (rm_S rm) stk n \<Longrightarrow> length stk + length vs \<le> n \<Longrightarrow>
     \<exists>S. push_args H rm args c = Some (c + of_nat (length vs), rm\<lparr>rm_S := S\<rparr>) \<and> stack_is S (rev vs @ stk) n"
proof (induction vs arbitrary: rm args stk c)
  case Nil
  then show ?case by (subst push_args.simps) (auto intro!: exI [of _ "rm_S rm"])
next
  case (Cons v vs)
  obtain d where d: "cdr (rm_heap rm) args = Some d" "items (rm_heap rm) d vs" using Cons.prems(1) by auto
  obtain S1 where S1: "rm_push H rm [v] = Some (rm\<lparr>rm_S := S1\<rparr>)" "stack_is S1 (v # stk) n"
    using rm_push_at [OF Cons.prems(2), of "[v]" H] Cons.prems(3) by auto
  then obtain S2 where "push_args H (rm\<lparr>rm_S := S1\<rparr>) d (c + 1) = Some (c + 1 + of_nat (length vs), rm\<lparr>rm_S := S2\<rparr>)"
      "stack_is S2 (rev vs @ v # stk) n"
    using Cons.IH [of "rm\<lparr>rm_S := S1\<rparr>" d "v # stk" "c + 1"] d Cons.prems(3) by auto
  then show ?case using Cons.prems(1) d(1) S1(1) by (subst push_args.simps) (auto simp: add.assoc)
qed

lemma ec_return_goes:
  assumes "stack_is (rm_S rm) (rev vs @ k # stk) n"
  shows "\<exists>S. ec_return rm (of_nat (length vs)) = Some (EVAL_CONTINUATION, rm\<lparr>rm_S := S, rm_cont := k\<rparr>) \<and> stack_is S stk n"
proof -
  obtain S1 where S1: "stack_drop (rm_S rm) (of_nat (length vs)) = (True, S1)" "stack_is S1 (k # stk) n"
    using stack_top_words(2) [OF assms] by blast
  obtain S2 where "pop_u32 S1 = Some (k, S2)" "stack_is S2 stk n" using pop_is [OF S1(2)] by blast
  with S1 show ?thesis by (auto simp: ec_return_def)
qed

lemma ec_apply_eval:
  assumes f: "is_sym f SYM_EVAL" and x: "car (sc_heap s) args = Some x"
  shows "ec_goes M (applying M s f args (k # stk)) (dispatching M s x k stk)"
proof (rule applying_goes)
  fix rm
  assume rm: "at M s (k # stk) rm" "rm_fun rm = f" "rm_argl rm = args"
  obtain S where "pop_u32 (rm_S rm) = Some (k, S)" "stack_is S stk (em_size M)" using pop_is [OF atD(6) [OF rm(1)]] by blast
  then show "\<exists>y. ec_eval_apply_dispatch (em_host M) rm = Some y \<and> dispatching M s x k stk y"
    using f x rm by (auto simp: ec_eval_apply_dispatch_def ec_eval_eval_def is_symbol_sym state_defs)
qed

lemma ec_apply_closure:
  assumes f: "form (sc_heap s) f c d1" "is_sym c DEF_REPR_CLOSURE"
    and b: "ec_bind_params f args (sc_heap s) = Some (env, h)" "\<not> is_sym env DEF_REPR_MERROR"
    and body: "cdr h f = Some d2" "cdr h d2 = Some d3" "car h d3 = Some body"
  shows "ec_goes M (applying M s f args (k # stk)) (dispatching M ((with_h s h)\<lparr>sc_env := env\<rparr>) body k stk)"
proof (rule applying_goes)
  fix rm
  assume rm: "at M s (k # stk) rm" "rm_fun rm = f" "rm_argl rm = args"
  obtain S where S: "pop_u32 (rm_S rm) = Some (k, S)" "stack_is S stk (em_size M)" using pop_is [OF atD(6) [OF rm(1)]] by blast
  have "\<not> is_sym f SYM_EVAL" "\<not> is_fundamental f" using f(1) by (auto simp: form_def is_sym_def is_fundamental_def)
  moreover have "is_closure (sc_heap s) f = Some True" using f by (simp add: form_def is_sym_def is_closure_def)
  moreover have "ec_eval_apply_closure rm = Some (EVAL_DISPATCH,
      (rm_set_heap rm h)\<lparr>rm_env := env, rm_exp := body, rm_cont := k, rm_S := S\<rparr>)"
    using S(1) rm b body
    by (simp add: ec_eval_apply_closure_def or_collect_def rm_alloc_def atD [OF rm(1)] is_symbol_sym rm_set_heap_def)
  ultimately have "ec_eval_apply_dispatch (em_host M) rm = Some (EVAL_DISPATCH,
      (rm_set_heap rm h)\<lparr>rm_env := env, rm_exp := body, rm_cont := k, rm_S := S\<rparr>)"
    using rm(2) atD(1) [OF rm(1)] by (simp add: ec_eval_apply_dispatch_def is_symbol_sym)
  then show "\<exists>y. ec_eval_apply_dispatch (em_host M) rm = Some y \<and>
      dispatching M ((with_h s h)\<lparr>sc_env := env\<rparr>) body k stk y"
    using rm S(2) by (simp add: state_defs)
qed

lemma ec_apply_fundamental:
  assumes f: "is_fundamental f" "\<not> is_sym f SYM_EVAL" and args: "items (sc_heap s) args vs"
    and w: "\<forall>rest. fundamental_exec (eh_float (em_host M)) (sc_rt s) (vs @ rest) (of_nat (length vs)) f = Some (w, rt)"
      "\<not> is_sym w DEF_REPR_MERROR"
    and room: "length stk + (length vs + 1) \<le> em_size M"
  shows "ec_goes M (applying M s f args (k # stk)) (continuing M (s\<lparr>sc_rt := rt\<rparr>) w k stk)"
proof (rule applying_goes)
  fix rm
  assume rm: "at M s (k # stk) rm" "rm_fun rm = f" "rm_argl rm = args"
  obtain S where S: "push_args (em_host M) rm args 0 = Some (of_nat (length vs), rm\<lparr>rm_S := S\<rparr>)"
      "stack_is S (rev vs @ k # stk) (em_size M)"
    using push_args_items [of rm args vs "k # stk" "em_size M" "em_host M" 0] args atD [OF rm(1)] room by auto
  obtain d rest where d: "stack_ptr S (of_nat (length vs)) = Some (of_nat (length (k # stk)))" "sk_data S = Some d"
      "unat (of_nat (length (k # stk)) :: u32) = length (k # stk)" "drop (length (k # stk)) d = vs @ rest"
    using stack_top_words(1) [OF S(2)] by blast
  let ?rm = "rm\<lparr>rm_S := S, rm_rt := rt, rm_val := w\<rparr>"
  obtain S' where S': "ec_return ?rm (of_nat (length vs)) = Some (EVAL_CONTINUATION, ?rm\<lparr>rm_S := S', rm_cont := k\<rparr>)"
      "stack_is S' stk (em_size M)"
    using ec_return_goes [of ?rm vs k stk "em_size M"] S(2) by auto
  have "ec_eval_apply_fundamental (em_host M) rm = Some (EVAL_CONTINUATION, ?rm\<lparr>rm_S := S', rm_cont := k\<rparr>)"
    using S(1) S'(1) d w rm
    by (simp add: ec_eval_apply_fundamental_def or_collect_def rm_call_def atD(2) [OF rm(1)] is_symbol_sym del: of_nat_Suc list.size length_Cons)
  then show "\<exists>y. ec_eval_apply_dispatch (em_host M) rm = Some y \<and> continuing M (s\<lparr>sc_rt := rt\<rparr>) w k stk y"
    using f rm S'(2) by (auto simp: ec_eval_apply_dispatch_def is_symbol_sym state_defs)
qed

lemma ec_apply_extension:
  assumes f: "is_extension (em_exts M) f" "\<not> is_fundamental f" "\<not> is_sym f SYM_EVAL" and args: "items (sc_heap s) args vs"
    and w: "\<forall>rest. eh_ext (em_host M) (extensions_lookup (em_exts M) (dec_sym f)) (sc_rt s) (vs @ rest) (of_nat (length vs)) = Some (w, rt)"
    and room: "length stk + (length vs + 1) \<le> em_size M"
  shows "ec_goes M (applying M s f args (k # stk)) (continuing M (s\<lparr>sc_rt := rt\<rparr>) w k stk)"
proof (rule applying_goes)
  fix rm
  assume rm: "at M s (k # stk) rm" "rm_fun rm = f" "rm_argl rm = args"
  obtain S where S: "push_args (em_host M) rm args 0 = Some (of_nat (length vs), rm\<lparr>rm_S := S\<rparr>)"
      "stack_is S (rev vs @ k # stk) (em_size M)"
    using push_args_items [of rm args vs "k # stk" "em_size M" "em_host M" 0] args atD [OF rm(1)] room by auto
  obtain d rest where d: "sk_data S = Some d" "unat (of_nat (length (k # stk)) :: u32) = length (k # stk)"
      "drop (length (k # stk)) d = vs @ rest"
    using stack_top_words(1) [OF S(2)] by blast
  have i: "stack_ptr (rm_S rm) 0 = Some (of_nat (length (k # stk)))"
    using stack_top_words(1) [of "rm_S rm" "[]" "k # stk"] atD(6) [OF rm(1)] by auto
  let ?rm = "rm\<lparr>rm_S := S, rm_rt := rt, rm_val := w\<rparr>"
  obtain S' where S': "ec_return ?rm (of_nat (length vs)) = Some (EVAL_CONTINUATION, ?rm\<lparr>rm_S := S', rm_cont := k\<rparr>)"
      "stack_is S' stk (em_size M)"
    using ec_return_goes [of ?rm vs k stk "em_size M"] S(2) by auto
  have "ec_eval_apply_extension (em_host M) rm = Some (EVAL_CONTINUATION, ?rm\<lparr>rm_S := S', rm_cont := k\<rparr>)"
    using S(1) S'(1) d i w rm f(1)
    by (simp add: ec_eval_apply_extension_def is_extension_def rm_call_def Let_def atD(2,5) [OF rm(1)] del: of_nat_Suc list.size length_Cons)
  moreover have "is_closure (rm_heap rm) f = Some False" using f(1) by (simp add: is_closure_def is_extension_def)
  ultimately have "ec_eval_apply_dispatch (em_host M) rm = Some (EVAL_CONTINUATION, ?rm\<lparr>rm_S := S', rm_cont := k\<rparr>)"
    using f rm(2) atD(5) [OF rm(1)] by (simp add: ec_eval_apply_dispatch_def is_symbol_sym)
  then show "\<exists>y. ec_eval_apply_dispatch (em_host M) rm = Some y \<and> continuing M (s\<lparr>sc_rt := rt\<rparr>) w k stk y"
    using rm S'(2) by (simp add: state_defs)
qed

end
