(* ===== verification/EC_Correct.thy ===== *)
theory EC_Correct
  imports EC_Steps
begin

text \<open>
  The register machine of \<open>src/ec_eval.c\<close> implements its big-step specification: a simulation by rule
  induction over the specification, and from it the result of \<open>ec_eval_program\<close>.
\<close>

text \<open>How the machine enters a task, with the continuation \<open>k\<close> it will go on with above the words \<open>stk\<close>.\<close>

fun ec_reaches ::
  "ec_setting \<Rightarrow> ec_task \<Rightarrow> scene \<Rightarrow> u32 \<Rightarrow> UINT list \<Rightarrow> (ec_state \<times> register_machine \<Rightarrow> bool) \<Rightarrow> bool" where
  "ec_reaches M (E_exp e) s k stk Q = ec_goes M (dispatching M s e k stk) Q"
| "ec_reaches M (E_seq xs) s k stk Q = ec_then M (at_sequence M s xs (k # stk)) (ec_eval_sequence (em_host M)) Q"
| "ec_reaches M (E_and env xs v) s k stk Q = ec_goes M (continuing M s v (enc_u CONT_AND) (xs # env # k # stk)) Q"
| "ec_reaches M (E_or env xs v) s k stk Q = ec_goes M (continuing M s v (enc_u CONT_OR) (xs # env # k # stk)) Q"
| "ec_reaches M (E_let env0 body binds) s k stk Q =
     ec_then M (at_let M s binds (body # env0 # k # stk)) (ec_eval_let_loop (em_host M)) Q"
| "ec_reaches M (E_args f argl xs) s k stk Q =
     ec_then M (at_args M s argl xs (f # k # stk)) (ec_eval_arg_loop (em_host M)) Q"
| "ec_reaches M (E_apply f args) s k stk Q = ec_goes M (applying M s f args (k # stk)) Q"

lemma ec_simulation:
  assumes "ec_runs (em_host M) (em_exts M) n t s v s'" and "length stk + n \<le> em_size M"
  shows "ec_reaches M t s k stk (continuing M s' v k stk)"
  using assms
proof (induction arbitrary: k stk rule: ec_runs.induct)
  case ec_self
  then show ?case by (simp add: ec_step_self)
next
  case ec_variable
  then show ?case by (simp add: ec_step_variable)
next
  case ec_quote
  then show ?case by (simp add: ec_step_quote)
next
  case ec_define
  show ?case unfolding ec_reaches.simps
    by (rule ec_goes_trans3 [OF ec_step_define ec_define.IH [unfolded ec_reaches.simps] ec_cont_define_goes])
      (use ec_define in auto)
next
  case ec_lambda
  then show ?case by (simp add: ec_step_lambda)
next
  case ec_if
  show ?case unfolding ec_reaches.simps
    by (rule ec_goes_trans3 [OF ec_step_if ec_if.IH(1) [unfolded ec_reaches.simps]
          ec_goes_trans [OF ec_cont_branch_goes ec_if.IH(2) [unfolded ec_reaches.simps]]])
      (use ec_if in auto)
next
  case ec_progn
  show ?case unfolding ec_reaches.simps
    by (rule ec_step_progn [OF _ _ _ ec_progn.IH [unfolded ec_reaches.simps]]) (use ec_progn in auto)
next
  case seq_last
  show ?case unfolding ec_reaches.simps
    by (rule ec_seq_last [OF _ _ _ seq_last.IH [unfolded ec_reaches.simps]]) (use seq_last in auto)
next
  case seq_more
  show ?case unfolding ec_reaches.simps
    by (rule ec_seq_more [OF _ _ _ _ refl ec_goes_trans [OF seq_more.IH(1) [unfolded ec_reaches.simps]
            ec_cont_sequence_goes [OF _ seq_more.IH(2) [unfolded ec_reaches.simps]]]])
      (use seq_more in auto)
next
  case ec_let
  show ?case unfolding ec_reaches.simps
    by (rule ec_step_let [OF _ _ _ _ _ ec_let_prealloc_places _ ec_let.IH [unfolded ec_reaches.simps]]) (use ec_let in auto)
next
  case let_body
  show ?case unfolding ec_reaches.simps
    by (rule ec_let_body [OF _ ec_goes_trans [OF let_body.IH [unfolded ec_reaches.simps] ec_cont_end_let_goes]])
      (use let_body in auto)
next
  case let_bind
  show ?case unfolding ec_reaches.simps
    by (rule ec_let_bind [OF _ _ _ _ _ ec_goes_trans [OF let_bind.IH(1) [unfolded ec_reaches.simps]
            ec_cont_bind_var_goes [OF _ _ _ _ let_bind.IH(2) [unfolded ec_reaches.simps]]]])
      (use let_bind in auto)
next
  case ec_and
  show ?case unfolding ec_reaches.simps
    by (rule ec_goes_trans3 [OF ec_step_and ec_and.IH [unfolded ec_reaches.simps]]) (use ec_and in auto)
next
  case and_stop
  then show ?case by (simp add: ec_cont_and_goes(1))
next
  case and_more
  show ?case unfolding ec_reaches.simps
    by (rule ec_goes_trans3 [OF ec_cont_and_goes(2) and_more.IH [unfolded ec_reaches.simps]]) (use and_more in auto)
next
  case ec_or
  show ?case unfolding ec_reaches.simps
    by (rule ec_goes_trans3 [OF ec_step_or ec_or.IH [unfolded ec_reaches.simps]]) (use ec_or in auto)
next
  case or_stop
  then show ?case by (simp add: ec_cont_or_goes(1))
next
  case or_more
  show ?case unfolding ec_reaches.simps
    by (rule ec_goes_trans3 [OF ec_cont_or_goes(2) or_more.IH [unfolded ec_reaches.simps]]) (use or_more in auto)
next
  case ec_call0
  show ?case unfolding ec_reaches.simps
    by (rule ec_goes_trans3 [OF ec_step_call0 ec_call0.IH(1) [unfolded ec_reaches.simps]
          ec_goes_trans [OF ec_cont_setup_goes ec_call0.IH(2) [unfolded ec_reaches.simps]]])
      (use ec_call0 in auto)
next
  case ec_call
  show ?case unfolding ec_reaches.simps
    by (rule ec_goes_trans3 [OF ec_step_call ec_call.IH(1) [unfolded ec_reaches.simps]
          ec_cont_eval_args_goes [OF _ ec_call.IH(2) [unfolded ec_reaches.simps]]])
      (use ec_call in auto)
next
  case args_last
  show ?case unfolding ec_reaches.simps
    by (rule ec_args_last [OF _ _ _ _ ec_goes_trans3 [OF args_last.IH(1) [unfolded ec_reaches.simps]
            ec_cont_accumulate_last_goes args_last.IH(2) [unfolded ec_reaches.simps]]])
      (use args_last in auto)
next
  case args_more
  show ?case unfolding ec_reaches.simps
    by (rule ec_args_more [OF _ _ _ _ ec_goes_trans [OF args_more.IH(1) [unfolded ec_reaches.simps]
            ec_cont_accumulate_goes [OF _ _ _ args_more.IH(2) [unfolded ec_reaches.simps]]]])
      (use args_more in auto)
next
  case apply_eval
  show ?case unfolding ec_reaches.simps
    by (rule ec_goes_trans [OF ec_apply_eval apply_eval.IH [unfolded ec_reaches.simps]]) (use apply_eval in auto)
next
  case apply_fundamental
  then show ?case by (simp add: ec_apply_fundamental)
next
  case apply_closure
  show ?case unfolding ec_reaches.simps
    by (rule ec_goes_trans [OF ec_apply_closure apply_closure.IH [unfolded ec_reaches.simps]]) (use apply_closure in auto)
next
  case apply_extension
  then show ?case by (simp add: ec_apply_extension)
qed

subsection \<open>Programs\<close>

lemma ec_eval_loop_rounds:
  "ec_rounds H j (es, rm) = Some (es', rm') \<Longrightarrow> ec_eval_loop H es rm = ec_eval_loop H es' rm'"
proof (induction j arbitrary: es rm)
  case (Suc j)
  obtain es1 rm1 where 1: "ec_round H es rm = Some (False, es1, rm1)" "ec_rounds H j (es1, rm1) = Some (es', rm')"
    using Suc.prems by (auto split: option.splits bool.splits)
  then show ?case using Suc.IH [OF 1(2)] by (subst ec_eval_loop.simps) simp
qed simp

definition ec_result :: "scene \<Rightarrow> VALUE \<Rightarrow> register_machine \<Rightarrow> bool" where
  "ec_result s v rm \<longleftrightarrow> rm_val rm = v \<and> rm_rt rm = sc_rt s \<and> rm_global rm = sc_global s"

definition ec_next :: "ec_setting \<Rightarrow> VALUE \<Rightarrow> ec_setting" where
  "ec_next M prg = M\<lparr>em_rm := (em_rm M)\<lparr>rm_prg := prg\<rparr>\<rparr>"

lemma ec_next_simps [simp]:
  "em_host (ec_next M prg) = em_host M" "em_size (ec_next M prg) = em_size M" "em_exts (ec_next M prg) = em_exts M"
  "rm_prg (em_rm (ec_next M prg)) = prg"
  by (simp_all add: ec_next_def)

lemma ec_program_last:
  assumes "continuing M s v (enc_u CONT_DONE) stk (es, rm)" and "type_of (rm_prg (em_rm M)) \<noteq> PTR_TYPE_CONS"
  shows "\<exists>rm'. ec_eval_loop (em_host M) es rm = Some rm' \<and> ec_result s v rm'"
  using assms
  by (subst ec_eval_loop.simps)
    (auto simp: continuing_def at_def ec_round_def ec_continue_def ec_cont_done_def ec_result_def)

lemma stack_clear_is: "stack_is k xs n \<Longrightarrow> stack_is (snd (stack_clear k)) [] n"
  by (auto simp: stack_is_def stack_clear_def stack_wf_def stack_list_def split: option.splits)

lemma ec_program_next:
  assumes "type_of (rm_prg (em_rm M)) = PTR_TYPE_CONS"
    and "car (sc_heap s) (rm_prg (em_rm M)) = Some e" and "cdr (sc_heap s) (rm_prg (em_rm M)) = Some d"
  shows "ec_goes M (continuing M s v (enc_u CONT_DONE) stk) (dispatching (ec_next M d) (s\<lparr>sc_env := NIL\<rparr>) e (enc_u CONT_DONE) [])"
  by (rule continuing_goes)
    (use assms stack_clear_is in \<open>auto simp: ec_continue_def ec_cont_done_def dispatching_def at_def Let_def\<close>)

lemma ec_program_simulation:
  assumes "ec_runs_program H exts n prg s v s'" and "em_host M = H" and "em_exts M = exts" and "n \<le> em_size M"
    and "car (sc_heap s) prg = Some e" and "cdr (sc_heap s) prg = Some (rm_prg (em_rm M))"
    and "dispatching M (s\<lparr>sc_env := NIL\<rparr>) e (enc_u CONT_DONE) [] (es, rm)"
  shows "\<exists>rm'. ec_eval_loop H es rm = Some rm' \<and> ec_result s' v rm'"
  using assms
proof (induction arbitrary: M e es rm rule: ec_runs_program.induct)
  case (ec_last s prg e' d n v s1)
  then have "ec_goes M (dispatching M (s\<lparr>sc_env := NIL\<rparr>) e (enc_u CONT_DONE) []) (continuing M s1 v (enc_u CONT_DONE) [])"
    using ec_simulation [of M n "E_exp e"] by simp
  then obtain j es1 rm1 where 1: "ec_rounds H j (es, rm) = Some (es1, rm1)" "continuing M s1 v (enc_u CONT_DONE) [] (es1, rm1)"
    using ec_last.prems unfolding ec_goes_def by (metis surj_pair)
  then show ?case using ec_program_last [OF 1(2)] ec_eval_loop_rounds [OF 1(1)] ec_last by simp
next
  case (ec_more s prg e' d n v s1 m w s2)
  then obtain e2 d2 where d: "car (sc_heap s1) d = Some e2" "cdr (sc_heap s1) d = Some d2"
    by (auto elim: ec_runs_program.cases)
  from ec_more have "ec_goes M (dispatching M (s\<lparr>sc_env := NIL\<rparr>) e (enc_u CONT_DONE) []) (continuing M s1 v (enc_u CONT_DONE) [])"
    using ec_simulation [of M n "E_exp e"] by simp
  also have "ec_goes M \<dots> (dispatching (ec_next M d2) (s1\<lparr>sc_env := NIL\<rparr>) e2 (enc_u CONT_DONE) [])"
    using ec_more d by (intro ec_program_next) auto
  finally obtain j es1 rm1 where 1: "ec_rounds H j (es, rm) = Some (es1, rm1)"
      "dispatching (ec_next M d2) (s1\<lparr>sc_env := NIL\<rparr>) e2 (enc_u CONT_DONE) [] (es1, rm1)"
    using ec_more.prems unfolding ec_goes_def by (metis surj_pair)
  then show ?case using ec_more.IH [of "ec_next M d2" e2 es1 rm1] ec_more.prems d ec_eval_loop_rounds [OF 1(1)] by simp
qed

lemma ec_program_returns:
  assumes run: "ec_runs_program H (rm_extensions rm) n prg \<lparr>sc_rt = rm_rt rm, sc_global = rm_global rm, sc_env = NIL\<rparr> v s'"
    and n: "n \<le> 256" and m: "eh_malloc H 1024 = Some d" "length d = 256"
  shows "\<exists>rm'. ec_eval_program H rm prg = Some (v, rm') \<and> rm_rt rm' = sc_rt s' \<and> rm_global rm' = sc_global s'"
proof -
  let ?s = "\<lparr>sc_rt = rm_rt rm, sc_global = rm_global rm, sc_env = NIL\<rparr>"
  obtain e rest where e: "car (rm_heap rm) prg = Some e" "cdr (rm_heap rm) prg = Some rest"
    using run by (auto elim: ec_runs_program.cases)
  let ?S = "snd (stack_allocate (eh_malloc H) (rm_S rm) 256 False)"
  let ?rm = "rm\<lparr>rm_prg := rest, rm_exp := e, rm_cont := enc_u CONT_DONE, rm_env := NIL, rm_argl := NIL,
    rm_val := NIL, rm_fun := NIL, rm_S := ?S\<rparr>"
  let ?M = "\<lparr>em_host = H, em_rm = ?rm, em_size = 256\<rparr>"
  have "stack_is ?S [] 256" using m by (simp add: stack_allocate_def stack_is_def stack_wf_def stack_list_def)
  then have "dispatching ?M (?s\<lparr>sc_env := NIL\<rparr>) e (enc_u CONT_DONE) [] (EVAL_DISPATCH, ?rm)" by (simp add: dispatching_def at_def)
  then obtain rm' where "ec_eval_loop H EVAL_DISPATCH ?rm = Some rm'" "ec_result s' v rm'"
    using ec_program_simulation [OF run, of ?M e EVAL_DISPATCH ?rm] n e by auto
  then show ?thesis using e by (simp add: ec_eval_program_def ec_eval_def ec_result_def Let_def)
qed

end
