(* ===== verification/EC_Program.thy ===== *)
theory EC_Program
  imports EC_Correct Eval_Program
begin

text \<open>
  The correctness of the register machine of \<open>src/ec_eval.c\<close> as properties, and where the two
  evaluators of the repository give different values to one program.
\<close>

subsection \<open>Example programs\<close>

text \<open>
  \<open>(if (let ((x t)) x) x nil)\<close> as in the example for the other evaluator, with a global binding of
  \<open>x\<close> to 5 in the cells 11 and 12.
\<close>

abbreviation (input) "shadow_global \<equiv> enc_cons_ptr 12"

definition shadow_code :: "(VALUE \<times> VALUE) list" where
  "shadow_code = leak_code @ [(sym_x, enc_i 5), (enc_cons_ptr 11, NIL)]"

definition shadow0 :: heap_state where
  "shadow0 = cells_heap (shadow_code @ [(RECOVERED, enc_cons_ptr 14), (RECOVERED, enc_cons_ptr 15), (RECOVERED, NIL)]) 13 16"

definition shadow1 :: "VALUE \<Rightarrow> heap_state" where
  "shadow1 v = cells_heap (shadow_code @ [(sym_x, v), (enc_cons_ptr 13, NIL), (RECOVERED, NIL)]) 15 16"

lemmas shadow_defs = shadow0_def shadow1_def shadow_code_def run_defs

lemma shadow_cells:
  "form shadow0 (enc_cons_ptr 1) (enc_sym DEF_REPR_IF) (enc_cons_ptr 2)"
  "form shadow0 (enc_cons_ptr 5) (enc_sym DEF_REPR_LET) (enc_cons_ptr 6)"
  "car shadow0 (enc_cons_ptr 0) = Some (enc_cons_ptr 1)" "cdr shadow0 (enc_cons_ptr 0) = Some NIL"
  "car shadow0 (enc_cons_ptr 2) = Some (enc_cons_ptr 5)" "cdr shadow0 (enc_cons_ptr 2) = Some (enc_cons_ptr 3)"
  "car shadow0 (enc_cons_ptr 3) = Some sym_x" "cdr shadow0 (enc_cons_ptr 3) = Some (enc_cons_ptr 4)"
  "car shadow0 (enc_cons_ptr 4) = Some NIL"
  "car shadow0 (enc_cons_ptr 6) = Some (enc_cons_ptr 8)" "cdr shadow0 (enc_cons_ptr 6) = Some (enc_cons_ptr 7)"
  "car shadow0 (enc_cons_ptr 7) = Some sym_x"
  by (simp_all add: form_def shadow_defs)

lemma shadow1_cells:
  "car (shadow1 v) (enc_cons_ptr 3) = Some sym_x" "cdr (shadow1 v) (enc_cons_ptr 3) = Some (enc_cons_ptr 4)"
  "car (shadow1 v) (enc_cons_ptr 4) = Some NIL"
  "car (shadow1 v) (enc_cons_ptr 8) = Some (enc_cons_ptr 9)" "cdr (shadow1 v) (enc_cons_ptr 8) = Some NIL"
  "car (shadow1 v) (enc_cons_ptr 9) = Some sym_x" "cdr (shadow1 v) (enc_cons_ptr 9) = Some (enc_cons_ptr 10)"
  "car (shadow1 v) (enc_cons_ptr 10) = Some (enc_sym DEF_REPR_TRUE)"
  by (simp_all add: shadow_defs)

lemma shadow_heaps:
  "let_prealloc shadow0 (enc_cons_ptr 8) NIL = Some (Some (enc_cons_ptr 14), shadow1 NIL)"
  "places shadow0 (enc_cons_ptr 8) NIL (enc_cons_ptr 14) (shadow1 (enc_u DEF_REPR_NIL))"
  "env_modify_binding (shadow1 u) (enc_cons_ptr 14) sym_x v = Some (enc_cons_ptr 14, shadow1 v)"
proof -
  show "let_prealloc shadow0 (enc_cons_ptr 8) NIL = Some (Some (enc_cons_ptr 14), shadow1 NIL)"
    by (simp add: let_prealloc.simps shadow_defs)
  show "env_modify_binding (shadow1 u) (enc_cons_ptr 14) sym_x v = Some (enc_cons_ptr 14, shadow1 v)"
    by (simp add: env_modify_binding_def env_update_loop.simps shadow_defs)
  let ?h = "cells_heap (shadow_code @ [(sym_x, enc_u DEF_REPR_NIL), (RECOVERED, enc_cons_ptr 15), (RECOVERED, NIL)]) 14 16"
  show "places shadow0 (enc_cons_ptr 8) NIL (enc_cons_ptr 14) (shadow1 (enc_u DEF_REPR_NIL))"
    by (rule places_cons [where b = "enc_cons_ptr 9" and key = sym_x and p = "enc_cons_ptr 13" and ?h1.0 = ?h and
          ?env1.0 = "enc_cons_ptr 14" and ?h2.0 = "shadow1 (enc_u DEF_REPR_NIL)" and bs = NIL])
      (auto simp: is_sym_def dec_sym_def shadow_defs intro!: places_nil)
qed

lemma shadow_lookup:
  "env_lookup (shadow1 v) sym_x (enc_cons_ptr 14) = Some v"
  "env_lookup (shadow1 v) sym_x NIL = Some (enc_sym DEF_REPR_NOT_FOUND)"
  "env_lookup (shadow1 v) sym_x shadow_global = Some (enc_i 5)"
  by (simp_all add: env_lookup_def env_lookup_loop.simps dec_sym_def shadow_defs)

lemma is_sym_values [simp]: "is_sym NIL DEF_REPR_NIL" "unat i < 2 ^ 23 \<Longrightarrow> \<not> is_sym (enc_cons_ptr i) z" "\<not> is_sym (enc_i j) z"
  by (simp_all add: is_sym_def dec_sym_enc_sym type_of_enc_cons_ptr type_of_enc_i)

definition shadow_scene :: "runtime \<Rightarrow> heap_state \<Rightarrow> VALUE \<Rightarrow> scene" where
  "shadow_scene rt h env = \<lparr>sc_rt = rt\<lparr>rt_heap := h\<rparr>, sc_global = shadow_global, sc_env = env\<rparr>"

lemma shadow_scene_simps [simp]:
  "sc_heap (shadow_scene rt h env) = h" "sc_env (shadow_scene rt h env) = env" "sc_global (shadow_scene rt h env) = shadow_global"
  "with_h (shadow_scene rt h env) h' = shadow_scene rt h' env" "(shadow_scene rt h env)\<lparr>sc_env := env'\<rparr> = shadow_scene rt h env'"
  by (simp_all add: shadow_scene_def with_h_def)

abbreviation (input) "TRUE \<equiv> enc_sym DEF_REPR_TRUE"

lemma shadow_ec_let:
  "ec_runs H [] 5 (E_exp (enc_cons_ptr 5)) (shadow_scene rt shadow0 NIL) TRUE (shadow_scene rt (shadow1 TRUE) NIL)"
proof -
  let ?s = "\<lambda>v. shadow_scene rt (shadow1 v) (enc_cons_ptr 14)"
  have "ec_runs H [] 0 (E_exp sym_x) (?s TRUE) TRUE (?s TRUE)"
    by (rule ec_variable) (simp_all add: symbol_value_def leak_syms shadow_lookup)
  then have "ec_runs H [] (0 + 2) (E_let NIL sym_x NIL) (?s TRUE) TRUE ((?s TRUE)\<lparr>sc_env := NIL\<rparr>)" by (intro let_body) simp_all
  then have 1: "ec_runs H [] 2 (E_let NIL sym_x NIL) (?s TRUE) TRUE (shadow_scene rt (shadow1 TRUE) NIL)" by (simp add: numeral_2_eq_2)
  have 2: "ec_runs H [] 0 (E_exp TRUE) (?s (enc_u DEF_REPR_NIL)) TRUE (?s (enc_u DEF_REPR_NIL))" by (rule ec_self) (simp add: leak_syms)
  have 3: "ec_runs H [] (max (0 + 5) 2) (E_let NIL sym_x (enc_cons_ptr 8)) (?s (enc_u DEF_REPR_NIL)) TRUE (shadow_scene rt (shadow1 TRUE) NIL)"
    by (rule let_bind [OF _ _ _ _ 2, where key = sym_x and b = "enc_cons_ptr 9" and bd = "enc_cons_ptr 10" and ?b1.0 = "enc_cons_ptr 9" and
          r = "enc_cons_ptr 14" and h = "shadow1 TRUE" and bs = NIL]) (use 1 in \<open>simp_all add: shadow1_cells shadow_heaps(3)\<close>)
  have "ec_runs H [] (max 3 (max (0 + 5) 2)) (E_exp (enc_cons_ptr 5)) (shadow_scene rt shadow0 NIL) TRUE (shadow_scene rt (shadow1 TRUE) NIL)"
    by (rule ec_let [where env = "enc_cons_ptr 14" and h = "shadow1 (enc_u DEF_REPR_NIL)" and a = "enc_sym DEF_REPR_LET" and
          d = "enc_cons_ptr 6" and ?d2.0 = "enc_cons_ptr 7" and body = sym_x and binds = "enc_cons_ptr 8"])
      (use 3 in \<open>simp_all add: shadow_cells shadow_heaps(2) leak_syms\<close>)
  then show ?thesis by simp
qed

lemma shadow_ec_program:
  "ec_runs_program H [] 8 (enc_cons_ptr 0) (shadow_scene rt shadow0 NIL) (enc_i 5) (shadow_scene rt (shadow1 TRUE) NIL)"
proof -
  let ?s = "shadow_scene rt (shadow1 TRUE) NIL"
  have 1: "ec_runs H [] 0 (E_exp sym_x) ?s (enc_i 5) ?s"
    by (rule ec_variable) (simp_all add: symbol_value_def leak_syms shadow_lookup, simp_all add: is_sym_def dec_sym_enc_sym)
  have nt: "\<not> is_sym TRUE DEF_REPR_NIL" by (simp add: is_sym_def dec_sym_enc_sym)
  have "ec_runs H [] (max (5 + 3) 0) (E_exp (enc_cons_ptr 1)) (shadow_scene rt shadow0 NIL) (enc_i 5) ?s"
    by (rule ec_if [OF _ _ _ _ shadow_ec_let, where a = "enc_sym DEF_REPR_IF" and d = "enc_cons_ptr 2" and ?d2.0 = "enc_cons_ptr 3" and
          x = sym_x and ?d3.0 = "enc_cons_ptr 4" and y = NIL])
      (use 1 nt in \<open>simp_all add: shadow_cells shadow1_cells leak_syms\<close>)
  then show ?thesis
    by (intro ec_last [where e = "enc_cons_ptr 1" and d = NIL]) (simp_all add: shadow_cells)
qed

lemma shadow_cps_let:
  "runs H [] 5 (Eval (enc_cons_ptr 5)) (shadow_scene rt shadow0 NIL) TRUE (shadow_scene rt (shadow1 TRUE) (enc_cons_ptr 14))"
proof -
  let ?s = "\<lambda>v. shadow_scene rt (shadow1 v) (enc_cons_ptr 14)"
  have 1: "runs H [] 0 (Eval TRUE) (?s NIL) TRUE (?s NIL)"
    by (rule runs.eval_symbol) (simp_all add: symbol_value_def leak_syms)
  have "runs H [] 0 (Eval sym_x) (?s TRUE) TRUE (?s TRUE)"
    by (rule runs.eval_symbol) (simp_all add: symbol_value_def leak_syms shadow_lookup)
  then have 2: "runs H [] 0 (Bind sym_x (enc_cons_ptr 14) sym_x NIL TRUE) (?s NIL) TRUE (?s TRUE)"
    by (intro runs.bind_last [where r = "enc_cons_ptr 14" and h = "shadow1 TRUE"]) (simp_all add: shadow_heaps(3))
  have "runs H [] (max (0 + 5) 0) (Eval (enc_cons_ptr 5)) (shadow_scene rt shadow0 NIL) TRUE (?s TRUE)"
    by (rule runs.eval_let [where a = "enc_sym DEF_REPR_LET" and d = "enc_cons_ptr 6" and binds = "enc_cons_ptr 8" and
         ?d2.0 = "enc_cons_ptr 7" and b = "enc_cons_ptr 9" and bd = "enc_cons_ptr 10" and env = "enc_cons_ptr 14" and
         h = "shadow1 NIL" and key = sym_x and body = sym_x])
      (use 1 2 in \<open>simp_all add: shadow_cells shadow1_cells shadow_heaps(1) leak_syms type_of_enc_cons_ptr\<close>)
  then show ?thesis by simp
qed

lemma shadow_cps_program:
  "runs_program H [] 8 (enc_cons_ptr 0) (shadow_scene rt shadow0 NIL) TRUE (shadow_scene rt (shadow1 TRUE) (enc_cons_ptr 14))"
proof -
  let ?s = "shadow_scene rt (shadow1 TRUE) (enc_cons_ptr 14)"
  have 1: "runs H [] 0 (Eval sym_x) ?s TRUE ?s"
    by (rule runs.eval_symbol) (simp_all add: symbol_value_def leak_syms shadow_lookup)
  have "runs H [] (max (5 + 3) 0) (Eval (enc_cons_ptr 1)) (shadow_scene rt shadow0 NIL) TRUE ?s"
    by (rule runs.eval_if [where a = "enc_sym DEF_REPR_IF" and d = "enc_cons_ptr 2" and ?d2.0 = "enc_cons_ptr 3" and x = sym_x and
         ?d3.0 = "enc_cons_ptr 4" and y = NIL, OF _ _ _ _ _ _ _ shadow_cps_let])
      (use 1 in \<open>simp_all add: shadow_cells leak_syms\<close>)
  then show ?thesis
    by (intro runs_program.last [where e = "enc_cons_ptr 1" and d = NIL]) (simp_all add: shadow_cells)
qed

text \<open>A call of either evaluator on a given heap and global environment, without extensions.\<close>

definition cps_start :: "eval_state \<Rightarrow> eval_context \<Rightarrow> heap_state \<Rightarrow> VALUE \<Rightarrow> eval_state" where
  "cps_start es c h global = (leak_state es c)\<lparr>es_rt := (es_rt es)\<lparr>rt_heap := h\<rparr>, es_env_global := global\<rparr>"

definition ec_start :: "register_machine \<Rightarrow> heap_state \<Rightarrow> VALUE \<Rightarrow> register_machine" where
  "ec_start rm h global = rm\<lparr>rm_rt := (rm_rt rm)\<lparr>rt_heap := h\<rparr>, rm_global := global, rm_extensions := []\<rparr>"

definition with_memory :: "ec_host \<Rightarrow> ec_host" where
  "with_memory H = H\<lparr>eh_malloc := \<lambda>n. Some (replicate (unat n div 4) 0)\<rparr>"

lemma cps_start_returns:
  assumes "runs_program (H\<lparr>hst_done := \<lambda>x. x\<rparr>) [] n (enc_cons_ptr 0) \<lparr>sc_rt = (es_rt es)\<lparr>rt_heap := h\<rparr>, sc_global = g, sc_env = NIL\<rparr> v s'"
    and "n < 16"
  shows "\<exists>es'. eval_cps_program_nc (H\<lparr>hst_done := \<lambda>x. x\<rparr>) (cps_start es c h g) (enc_cons_ptr 0) = Some (v, es')"
  using program_nc_returns [of "H\<lparr>hst_done := \<lambda>x. x\<rparr>" "cps_start es c h g" n "enc_cons_ptr 0" v s' "c\<lparr>ec_K := leak_stack\<rparr>"]
    assms leak_stack_wf by (auto simp: cps_start_def leak_state_def type_of_enc_cons_ptr)

lemma ec_start_returns:
  assumes "ec_runs_program (with_memory H) [] n (enc_cons_ptr 0) \<lparr>sc_rt = (rm_rt rm)\<lparr>rt_heap := h\<rparr>, sc_global = g, sc_env = NIL\<rparr> v s'"
    and "n \<le> 256"
  shows "\<exists>rm'. ec_eval_program (with_memory H) (ec_start rm h g) (enc_cons_ptr 0) = Some (v, rm')"
  using ec_program_returns [of "with_memory H" "ec_start rm h g" n "enc_cons_ptr 0" v s' "replicate 256 0"] assms
  by (auto simp: ec_start_def with_memory_def)

text \<open>\<open>(and)\<close>.\<close>

definition and_heap :: heap_state where
  "and_heap = cells_heap [(enc_cons_ptr 1, NIL), (enc_sym SYM_AND, NIL), (RECOVERED, NIL)] 2 3"

lemma and_heap_cells:
  "form and_heap (enc_cons_ptr 1) (enc_sym SYM_AND) NIL" "car and_heap (enc_cons_ptr 0) = Some (enc_cons_ptr 1)"
  "cdr and_heap (enc_cons_ptr 0) = Some NIL" "car h NIL = Some NIL" "cdr h NIL = Some NIL"
  by (simp_all add: form_def and_heap_def run_defs)

lemma and_symbol: "is_sym (enc_sym SYM_AND) SYM_AND" "is_special (enc_sym SYM_AND)" "\<not> special_head (enc_sym SYM_AND)" "is_special NIL"
  "is_nil NIL"
  by (simp_all add: is_sym_def is_special_def special_head_def is_nil_def dec_sym_enc_sym)

lemma and_cps_program:
  assumes "sc_heap s = and_heap"
  shows "runs_program H [] 4 (enc_cons_ptr 0) s TRUE s"
proof -
  have 1: "runs H [] 0 (Eval (enc_sym SYM_AND)) s (enc_sym SYM_AND) s"
    by (rule runs.eval_symbol) (simp_all add: symbol_value_def and_symbol)
  have 2: "runs H [] 0 (Args (sc_env s) [] NIL (enc_sym SYM_AND)) s TRUE s"
    by (rule runs.args_and_nil) (simp_all add: and_symbol)
  have "runs H [] (max (0 + 4) 0) (Eval (enc_cons_ptr 1)) s TRUE s"
    by (rule runs.eval_application [OF _ _ 1 2]) (simp_all add: assms and_heap_cells and_symbol)
  then show ?thesis by (intro runs_program.last) (simp_all add: assms and_heap_cells, simp add: type_of_def enc_sym_def)
qed

lemma and_ec_program:
  assumes "sc_heap s = and_heap" and "sc_env s = NIL"
  shows "ec_runs_program H [] 3 (enc_cons_ptr 0) s NIL s"
proof -
  have s: "s\<lparr>sc_env := NIL\<rparr> = s" using assms(2) by (cases s) simp
  have 1: "ec_runs H [] 0 (E_exp NIL) s NIL s" by (rule ec_self) (simp add: and_symbol)
  have "ec_runs H [] 0 (E_and (sc_env s) NIL NIL) s NIL (s\<lparr>sc_env := sc_env s\<rparr>)" by (rule and_stop) simp
  then have 2: "ec_runs H [] 0 (E_and (sc_env s) NIL NIL) s NIL s" by simp
  have "ec_runs H [] (max (0 + 3) 0) (E_exp (enc_cons_ptr 1)) s NIL s"
    by (rule ec_and [OF _ _ _ _ 1 2, where a = "enc_sym SYM_AND" and d = NIL]) (simp_all add: assms and_heap_cells and_symbol)
  then show ?thesis by (intro ec_last) (simp_all add: assms s and_heap_cells, simp add: type_of_def enc_sym_def)
qed

text \<open>\<open>(let ((x 5)) x)\<close> on a heap with one free cell and a global binding of \<open>x\<close> to 7.\<close>

definition lost_code :: "(VALUE \<times> VALUE) list" where
  "lost_code = [(enc_cons_ptr 1, NIL),
     (enc_sym DEF_REPR_LET, enc_cons_ptr 2), (enc_cons_ptr 4, enc_cons_ptr 3), (sym_x, NIL),
     (enc_cons_ptr 5, NIL), (sym_x, enc_cons_ptr 6), (enc_i 5, NIL), (sym_x, enc_i 7), (enc_cons_ptr 7, NIL)]"

definition lost0 :: heap_state where
  "lost0 = cells_heap (lost_code @ [(RECOVERED, NIL)]) 9 10"

definition lost1 :: heap_state where
  "lost1 = (cells_heap (lost_code @ [(sym_x, enc_u DEF_REPR_NIL)]) 10 10)\<lparr>hs_freelist := NIL\<rparr>"

lemmas lost_defs = lost0_def lost1_def lost_code_def run_defs

lemma lost_prealloc:
  assumes "rm_heap rm = lost0"
  shows "ec_let_prealloc rm (enc_cons_ptr 4) NIL = Some (Some (enc_sym DEF_REPR_MERROR), rm_set_heap rm lost1)"
proof -
  have "cons lost0 sym_x (enc_u DEF_REPR_NIL) = Some (enc_cons_ptr 9, lost1)"
    "cons lost1 (enc_cons_ptr 9) NIL = Some (enc_sym DEF_REPR_MERROR, lost1)"
    "path lost0 [False, False] (enc_cons_ptr 4) = Some sym_x" "cdr lost1 (enc_cons_ptr 4) = Some NIL"
    by (simp_all add: lost_defs)
  moreover have "rm_heap (rm_set_heap rm lost1) = lost1" "rm_set_heap (rm_set_heap rm lost1) lost1 = rm_set_heap rm lost1"
    by (simp_all add: rm_set_heap_def)
  moreover have "\<not> is_sym NIL DEF_REPR_MERROR" by (simp add: is_sym_def dec_sym_enc_sym)
  ultimately show ?thesis
    using assms
    by (subst ec_let_prealloc.simps, simp add: ec_new_binding_def rm_alloc_def is_symbol_sym)
      (subst ec_let_prealloc.simps, simp add: is_symbol_sym)
qed

definition lost_scene :: "runtime \<Rightarrow> heap_state \<Rightarrow> VALUE \<Rightarrow> scene" where
  "lost_scene rt h env = \<lparr>sc_rt = rt\<lparr>rt_heap := h\<rparr>, sc_global = enc_cons_ptr 8, sc_env = env\<rparr>"

lemma lost_scene_simps [simp]:
  "sc_heap (lost_scene rt h env) = h" "sc_env (lost_scene rt h env) = env" "sc_global (lost_scene rt h env) = enc_cons_ptr 8"
  "with_h (lost_scene rt h env) h' = lost_scene rt h' env" "(lost_scene rt h env)\<lparr>sc_env := env'\<rparr> = lost_scene rt h env'"
  by (simp_all add: lost_scene_def with_h_def)

lemma lost_env:
  "env_modify_binding lost1 (enc_sym DEF_REPR_MERROR) sym_x v = Some (enc_sym DEF_REPR_NOT_FOUND, lost1)"
  "env_lookup lost1 sym_x (enc_sym DEF_REPR_MERROR) = Some (enc_sym DEF_REPR_NOT_FOUND)"
  "env_lookup lost1 sym_x (enc_cons_ptr 8) = Some (enc_i 7)"
  by (simp_all add: env_modify_binding_def env_update_loop.simps env_lookup_def env_lookup_loop.simps dec_sym_def lost_defs)

lemma lost_let:
  "ec_runs H [] 5 (E_let NIL sym_x (enc_cons_ptr 4)) (lost_scene rt lost1 (enc_sym DEF_REPR_MERROR)) (enc_i 7) (lost_scene rt lost1 NIL)"
proof -
  let ?s = "lost_scene rt lost1 (enc_sym DEF_REPR_MERROR)"
  have nf: "is_sym (enc_sym DEF_REPR_NOT_FOUND) DEF_REPR_NOT_FOUND" by (simp add: is_sym_def dec_sym_enc_sym)
  have "ec_runs H [] 0 (E_exp sym_x) ?s (enc_i 7) ?s"
    by (rule ec_variable) (simp_all add: symbol_value_def leak_syms lost_env nf)
  then have "ec_runs H [] (0 + 2) (E_let NIL sym_x NIL) ?s (enc_i 7) (?s\<lparr>sc_env := NIL\<rparr>)" by (intro let_body) simp_all
  then have 1: "ec_runs H [] 2 (E_let NIL sym_x NIL) ?s (enc_i 7) (lost_scene rt lost1 NIL)" by (simp add: numeral_2_eq_2)
  have 2: "ec_runs H [] 0 (E_exp (enc_i 5)) ?s (enc_i 5) ?s" by (rule ec_self) (simp add: self_evaluating_def)
  have c: "car lost1 (enc_cons_ptr 4) = Some (enc_cons_ptr 5)" "cdr lost1 (enc_cons_ptr 5) = Some (enc_cons_ptr 6)"
    "car lost1 (enc_cons_ptr 6) = Some (enc_i 5)" "car lost1 (enc_cons_ptr 5) = Some sym_x" "cdr lost1 (enc_cons_ptr 4) = Some NIL"
    by (simp_all add: lost_defs)
  have "ec_runs H [] (max (0 + 5) 2) (E_let NIL sym_x (enc_cons_ptr 4)) ?s (enc_i 7) (lost_scene rt lost1 NIL)"
    by (rule let_bind [OF _ _ _ _ 2, where key = sym_x and b = "enc_cons_ptr 5" and bd = "enc_cons_ptr 6" and ?b1.0 = "enc_cons_ptr 5" and
          r = "enc_sym DEF_REPR_NOT_FOUND" and h = lost1 and bs = NIL])
      (use 1 in \<open>simp_all add: c lost_env\<close>)
  then show ?thesis by simp
qed

lemma lost_returns:
  "\<exists>rm'. ec_eval_program (with_memory H) (ec_start rm lost0 (enc_cons_ptr 8)) (enc_cons_ptr 0) = Some (enc_i 7, rm')"
proof -
  let ?H = "with_memory H" and ?rm0 = "ec_start rm lost0 (enc_cons_ptr 8)" and ?s = "lost_scene (rm_rt rm) lost0 NIL"
  let ?S = "snd (stack_allocate (eh_malloc ?H) (rm_S ?rm0) 256 False)"
  let ?rm = "?rm0\<lparr>rm_prg := NIL, rm_exp := enc_cons_ptr 1, rm_cont := enc_u CONT_DONE, rm_env := NIL, rm_argl := NIL,
    rm_val := NIL, rm_fun := NIL, rm_S := ?S\<rparr>"
  let ?M = "\<lparr>em_host = ?H, em_rm = ?rm, em_size = 256\<rparr>"
  have c: "form lost0 (enc_cons_ptr 1) (enc_sym DEF_REPR_LET) (enc_cons_ptr 2)"
    "car lost0 (enc_cons_ptr 2) = Some (enc_cons_ptr 4)" "cdr lost0 (enc_cons_ptr 2) = Some (enc_cons_ptr 3)"
    "car lost0 (enc_cons_ptr 3) = Some sym_x" "car lost0 (enc_cons_ptr 0) = Some (enc_cons_ptr 1)" "cdr lost0 (enc_cons_ptr 0) = Some NIL"
    by (simp_all add: form_def lost_defs)
  have loop: "ec_then ?M (at_let ?M (lost_scene (rm_rt rm) lost1 (enc_sym DEF_REPR_MERROR)) (enc_cons_ptr 4) [sym_x, NIL, enc_u CONT_DONE])
      (ec_eval_let_loop ?H) (continuing ?M (lost_scene (rm_rt rm) lost1 NIL) (enc_i 7) (enc_u CONT_DONE) [])"
    using ec_simulation [of ?M 5 "E_let NIL sym_x (enc_cons_ptr 4)" _ _ _ "[]" "enc_u CONT_DONE"] lost_let [of ?H "rm_rt rm"]
    by (simp add: ec_start_def)
  have "ec_goes ?M (dispatching ?M ?s (enc_cons_ptr 1) (enc_u CONT_DONE) [])
      (continuing ?M (lost_scene (rm_rt rm) lost1 NIL) (enc_i 7) (enc_u CONT_DONE) [])"
    by (rule ec_step_let [where a = "enc_sym DEF_REPR_LET" and d = "enc_cons_ptr 2" and ?d2.0 = "enc_cons_ptr 3" and body = sym_x and
          binds = "enc_cons_ptr 4" and env = "enc_sym DEF_REPR_MERROR" and h = lost1])
      (use loop in \<open>simp_all add: c leak_syms lost_prealloc\<close>)
  moreover have "stack_is ?S [] 256"
    by (simp add: with_memory_def stack_allocate_def stack_is_def stack_wf_def stack_list_def)
  then have "dispatching ?M ?s (enc_cons_ptr 1) (enc_u CONT_DONE) [] (EVAL_DISPATCH, ?rm)"
    by (simp add: dispatching_def at_def ec_start_def lost_scene_def)
  ultimately obtain j es1 rm1 where 1: "ec_rounds ?H j (EVAL_DISPATCH, ?rm) = Some (es1, rm1)"
      "continuing ?M (lost_scene (rm_rt rm) lost1 NIL) (enc_i 7) (enc_u CONT_DONE) [] (es1, rm1)"
    unfolding ec_goes_def by (metis (no_types, lifting) surj_pair ec_setting.select_convs(1))
  then obtain rm' where "ec_eval_loop ?H EVAL_DISPATCH ?rm = Some rm'" "rm_val rm' = enc_i 7"
    using ec_program_last [OF 1(2)] ec_eval_loop_rounds [OF 1(1)] by (auto simp: ec_result_def type_of_def enc_sym_def)
  moreover have "rm_heap ?rm0 = lost0" by (simp add: ec_start_def)
  ultimately show ?thesis using c by (simp add: ec_eval_program_def ec_eval_def Let_def)
qed

subsection \<open>Properties\<close>

text \<open>
  C4: \<open>ec_eval_program\<close> returns the value of a program. When the specification runs the list of
  expressions \<open>prg\<close> to the value \<open>v\<close> with at most 256 words of stack, and \<open>malloc\<close> has a block for the
  stack, then the call terminates and returns \<open>v\<close>, and leaves the heap, the memory and the global
  environment of the specification.
\<close>

theorem ec_eval_program_correct:
  assumes "ec_runs_program H (rm_extensions rm) n prg \<lparr>sc_rt = rm_rt rm, sc_global = rm_global rm, sc_env = NIL\<rparr> v s'"
    and "n \<le> 256" and "malloc_ok (eh_malloc H)" and "eh_malloc H 1024 \<noteq> None"
  shows "\<exists>rm'. ec_eval_program H rm prg = Some (v, rm') \<and> rm_rt rm' = sc_rt s' \<and> rm_global rm' = sc_global s'"
proof -
  obtain d where "eh_malloc H 1024 = Some d" "length d = 256" using assms(3,4) by (auto simp: malloc_ok_def)
  then show ?thesis using ec_program_returns [OF assms(1,2)] by blast
qed

theorem ec_eval_program_correct_witness:
  "\<forall>H rm. \<exists>rm'. ec_eval_program (H\<lparr>eh_malloc := \<lambda>n. if unat n < 2 ^ 31 then Some (replicate (unat n div 4) 0) else None\<rparr>)
     (ec_start rm shadow0 (enc_cons_ptr 12)) (enc_cons_ptr 0) = Some (enc_i 5, rm') \<and>
     rm_rt rm' = (rm_rt rm)\<lparr>rt_heap := shadow1 (enc_sym DEF_REPR_TRUE)\<rparr> \<and> rm_global rm' = enc_cons_ptr 12"
proof (intro allI)
  fix H :: ec_host and rm :: register_machine
  let ?H = "H\<lparr>eh_malloc := \<lambda>n. if unat n < 2 ^ 31 then Some (replicate (unat n div 4) 0) else None\<rparr>"
  have "ec_runs_program ?H [] 8 (enc_cons_ptr 0) (shadow_scene (rm_rt rm) shadow0 NIL) (enc_i 5)
      (shadow_scene (rm_rt rm) (shadow1 (enc_sym DEF_REPR_TRUE)) NIL)" by (rule shadow_ec_program)
  then show "\<exists>rm'. ec_eval_program ?H (ec_start rm shadow0 (enc_cons_ptr 12)) (enc_cons_ptr 0) = Some (enc_i 5, rm') \<and>
     rm_rt rm' = (rm_rt rm)\<lparr>rt_heap := shadow1 (enc_sym DEF_REPR_TRUE)\<rparr> \<and> rm_global rm' = enc_cons_ptr 12"
    using ec_eval_program_correct [of ?H "ec_start rm shadow0 (enc_cons_ptr 12)" 8 "enc_cons_ptr 0" "enc_i 5"
        "shadow_scene (rm_rt rm) (shadow1 (enc_sym DEF_REPR_TRUE)) NIL"]
    by (simp add: ec_start_def shadow_scene_def malloc_ok_def split: if_splits)
qed

text \<open>
  C5: the two evaluators scope variables differently. With a global binding of \<open>x\<close> to 5 the program
  \<open>(if (let ((x t)) x) x nil)\<close> has the value 5 under \<open>ec_eval_program\<close>, which evaluates the branch in
  the environment of the \<open>if\<close>, and \<open>t\<close> under \<open>eval_cps_program_nc\<close>, which evaluates it in the environment
  that the condition leaves behind.
\<close>

theorem evaluators_scope_differently:
  "(\<exists>rm'. ec_eval_program (with_memory E) (ec_start rm shadow0 (enc_cons_ptr 12)) (enc_cons_ptr 0) = Some (enc_i 5, rm')) \<and>
   (\<exists>es'. eval_cps_program_nc (H\<lparr>hst_done := \<lambda>x. x\<rparr>) (cps_start es c shadow0 (enc_cons_ptr 12)) (enc_cons_ptr 0) =
     Some (enc_sym DEF_REPR_TRUE, es'))"
  using ec_start_returns [OF shadow_ec_program [of "with_memory E" "rm_rt rm", unfolded shadow_scene_def]]
    cps_start_returns [OF shadow_cps_program [of "H\<lparr>hst_done := \<lambda>x. x\<rparr>" "es_rt es", unfolded shadow_scene_def]] by simp

text \<open>
  C6: \<open>(and)\<close> is \<open>t\<close> for \<open>eval_cps_program_nc\<close> and \<open>nil\<close> for \<open>ec_eval_program\<close>, whose \<open>eval_and\<close> sets the
  value \<open>t\<close> and then goes on to evaluate an operand that is not there.
\<close>

theorem and_without_operands:
  "(\<exists>es'. eval_cps_program_nc (H\<lparr>hst_done := \<lambda>x. x\<rparr>) (cps_start es c and_heap NIL) (enc_cons_ptr 0) =
     Some (enc_sym DEF_REPR_TRUE, es')) \<and>
   (\<exists>rm'. ec_eval_program (with_memory E) (ec_start rm and_heap NIL) (enc_cons_ptr 0) = Some (NIL, rm'))"
  by (intro conjI cps_start_returns [OF and_cps_program] ec_start_returns [OF and_ec_program]) simp_all

text \<open>
  C7: when the heap has a single free cell, the bindings of a \<open>let\<close> can be lost without an error:
  \<open>(let ((x 5)) x)\<close> has the value 7 of a global \<open>x\<close>, because \<open>eval_let\<close> does not look at the result of the
  second allocation and takes the out-of-memory symbol for the new environment.
\<close>

theorem let_binding_lost:
  "heap_wf lost0 \<and> free_cells lost0 = [9] \<and>
   (\<exists>rm'. ec_eval_program (with_memory E) (ec_start rm lost0 (enc_cons_ptr 8)) (enc_cons_ptr 0) = Some (enc_i 7, rm'))"
proof -
  have "heap_inv lost0 (heap_cells lost0) [9]"
    by (simp add: heap_inv_def heap_cells_def lost0_def lost_code_def cells_heap_def cell_defs)
  then show ?thesis using lost_returns heap_inv_wf by blast
qed

end
