(* ===== verification/Eval_Run.thy ===== *)
theory Eval_Run
  imports Eval_Program Ready_Queue
begin

text \<open>
  The evaluator of \<open>src/eval_cps.c\<close> as a thread: the callbacks of the host, the endless loop of
  \<open>eval_cps_run_eval\<close> that takes contexts from the queue and evaluates them, and \<open>eval_cps_wait_ctx\<close>,
  with which another thread waits for a result.

  What happens to the shared state while a thread sleeps is the effect of the \<open>usleep\<close> callback; what
  other threads do between two rounds, and the advance of the clock \<open>es_now\<close>, is the parameter \<open>world\<close>.
\<close>

record callbacks =
  usleep_callback :: "(u32 \<Rightarrow> eval_state \<Rightarrow> eval_state option) option"
  ctx_done_callback :: "(eval_state \<Rightarrow> eval_state) option"

definition eval_cps_set_usleep_callback ::
  "(u32 \<Rightarrow> eval_state \<Rightarrow> eval_state option) option \<Rightarrow> callbacks \<Rightarrow> callbacks" where
  "eval_cps_set_usleep_callback fptr cb = cb\<lparr>usleep_callback := fptr\<rparr>"

text \<open>The clock callback is known by its reading.\<close>

definition eval_cps_set_timestamp_us_callback :: "u32 option \<Rightarrow> eval_state \<Rightarrow> eval_state" where
  "eval_cps_set_timestamp_us_callback reading es = es\<lparr>es_now := reading\<rparr>"

definition eval_cps_set_ctx_done_callback :: "(eval_state \<Rightarrow> eval_state) option \<Rightarrow> callbacks \<Rightarrow> callbacks" where
  "eval_cps_set_ctx_done_callback fptr cb = cb\<lparr>ctx_done_callback := fptr\<rparr>"

text \<open>The host with the callback for finished contexts.\<close>

definition with_done :: "callbacks \<Rightarrow> host \<Rightarrow> host" where
  "with_done cb H = H\<lparr>hst_done := case ctx_done_callback cb of None \<Rightarrow> \<lambda>es. es | Some f \<Rightarrow> f\<rparr>"

definition run_eval_round :: "host \<Rightarrow> callbacks \<Rightarrow> eval_state \<Rightarrow> eval_state option" where
  "run_eval_round H cb es =
     (if es_running es = 0 then do {
        (r, es) \<leftarrow> dequeue_ctx es;
        case r of
          Inl us \<Rightarrow> (case usleep_callback cb of Some f \<Rightarrow> f us es | None \<Rightarrow> Some es)
        | Inr p \<Rightarrow> evaluation_step H (es\<lparr>es_running := p\<rparr>)
      } else evaluation_step H es)"

partial_function (option) run_eval_loop ::
  "host \<Rightarrow> callbacks \<Rightarrow> (nat \<Rightarrow> eval_state \<Rightarrow> eval_state) \<Rightarrow> nat \<Rightarrow> eval_state \<Rightarrow> eval_state option" where
  "run_eval_loop H cb world i es =
     (if es_eval_running es then
        Option.bind (run_eval_round (with_done cb H) cb es) (\<lambda>es. run_eval_loop H cb world (Suc i) (world i es))
      else Some es)"

definition eval_cps_run_eval :: "host \<Rightarrow> callbacks \<Rightarrow> (nat \<Rightarrow> eval_state \<Rightarrow> eval_state) \<Rightarrow> eval_state \<Rightarrow> eval_state option" where
  "eval_cps_run_eval H cb world es = run_eval_loop H cb world 0 (es\<lparr>es_perform_gc := False, es_last_iteration_gc := False\<rparr>)"

text \<open>Waiting calls the callback without looking whether it is set; calling \<open>NULL\<close> is \<open>None\<close>.\<close>

partial_function (option) eval_cps_wait_ctx :: "callbacks \<Rightarrow> eval_state \<Rightarrow> CID \<Rightarrow> (VALUE \<times> eval_state) option" where
  "eval_cps_wait_ctx cb es cid =
     Option.bind (wait_ctx_scan es cid (es_done es)) (\<lambda>r.
       case r of
         Some v \<Rightarrow> Some (v, es)
       | None \<Rightarrow> Option.bind (usleep_callback cb) (\<lambda>f. Option.bind (f 1000 es) (\<lambda>es. eval_cps_wait_ctx cb es cid)))"

subsection \<open>Rounds\<close>

text \<open>The first \<open>k\<close> rounds of the loop, when nothing happens between them.\<close>

primrec eval_rounds :: "host \<Rightarrow> callbacks \<Rightarrow> nat \<Rightarrow> eval_state \<Rightarrow> eval_state option" where
  "eval_rounds H cb 0 es = Some es"
| "eval_rounds H cb (Suc k) es = Option.bind (run_eval_round (with_done cb H) cb es) (eval_rounds H cb k)"

lemma eval_steps_rounds:
  "eval_steps (with_done cb H) k x = Some y \<Longrightarrow> eval_rounds H cb k x = Some y"
proof (induction k arbitrary: x)
  case (Suc k)
  then obtain z where z: "evaluation_step (with_done cb H) x = Some z" "eval_steps (with_done cb H) k z = Some y"
    by (auto simp: bind_eq_Some_conv)
  then have "es_running x \<noteq> 0" using step_needs_running [of x "with_done cb H"] by auto
  with z Suc show ?case by (simp add: run_eval_round_def)
qed simp

lemma with_done_none [simp]: "ctx_done_callback cb = None \<Longrightarrow> hst_done (with_done cb H) x = x"
  "hst_malloc (with_done cb H) = hst_malloc H" "hst_new_ctx (with_done cb H) = hst_new_ctx H"
  by (simp_all add: with_done_def)

text \<open>A new context in an empty queue is the one that the next round takes.\<close>

lemma fresh_ctx_round:
  assumes "es_running es = 0" and "es_queue es = p" "es_queue_last es = p" "p \<noteq> 0" and "es_ctxs es p = Some c"
    and "ec_sleep_us c = 0" "ec_prev c = 0"
  shows "run_eval_round H cb es = evaluation_step H (es\<lparr>es_queue := 0, es_queue_last := 0, es_running := p\<rparr>)"
  using assms
  by (simp add: run_eval_round_def dequeue_ctx_def dequeue_loop.simps [of es _ _ p] get_ctx_def unlink_ctx_def Let_def)

subsection \<open>From a new context to its result\<close>

definition idle :: "eval_state \<Rightarrow> bool" where
  "idle es \<longleftrightarrow> es_queue es = 0 \<and> es_queue_last es = 0 \<and> es_running es = 0 \<and> es_done es = 0 \<and>
     \<not> es_perform_gc es \<and> \<not> es_last_iteration_gc es"

lemma eval_cps_program_creates:
  assumes idle: "idle es" and id: "es_next_ctx_id es \<noteq> 0" and new: "hst_new_ctx H es = Some (p, raw)" "p \<noteq> 0"
    and lisp: "type_of lisp = PTR_TYPE_CONS" "car (es_heap es) lisp = Some e" "cdr (es_heap es) lisp = Some prg"
    and m: "hst_malloc H 1024 = Some d" "length d = 256"
  shows "\<exists>k. eval_cps_program H es lisp = Some (ucast (es_next_ctx_id es),
      es\<lparr>es_next_ctx_id := es_next_ctx_id es + 1, es_ctxs := (es_ctxs es)(p \<mapsto> raw\<lparr>ec_program := prg, ec_curr_exp := e, ec_curr_env := NIL, ec_done := False,
          ec_app_cont := False, ec_timestamp := 0, ec_sleep_us := 0, ec_id := ucast (es_next_ctx_id es), ec_K := k,
          ec_prev := 0, ec_next := 0\<rparr>), es_queue := p, es_queue_last := p\<rparr>) \<and>
    stack_is k [enc_u K_DONE] 256"
proof -
  obtain k0 where k0: "stack_allocate (hst_malloc H) (ec_K raw) 256 False = (True, k0)" "stack_is k0 [] 256"
    using m by (simp add: stack_allocate_def stack_is_def stack_wf_def stack_list_def)
  then obtain k where k: "push_u32 (hst_malloc H) k0 (enc_u K_DONE) = Some (True, k)" "stack_is k [enc_u K_DONE] 256"
    using push_u32_fits by fastforce
  have "eval_cps_program H es lisp = Some (ucast (es_next_ctx_id es),
      es\<lparr>es_next_ctx_id := es_next_ctx_id es + 1, es_ctxs := (es_ctxs es)(p \<mapsto> raw\<lparr>ec_program := prg, ec_curr_exp := e, ec_curr_env := NIL, ec_done := False,
          ec_app_cont := False, ec_timestamp := 0, ec_sleep_us := 0, ec_id := ucast (es_next_ctx_id es), ec_K := k,
          ec_prev := 0, ec_next := 0\<rparr>), es_queue := p, es_queue_last := p\<rparr>)"
    using idle id new lisp k0(1) k(1)
    by (simp add: eval_cps_program_def create_ctx_def idle_def on_K_def upd_ctx_def get_ctx_def enqueue_ctx_def Let_def)
  with k(2) show ?thesis by blast
qed

lemma program_result:
  assumes run: "runs_program (with_done cb H) (es_extensions es) n lisp \<lparr>sc_rt = es_rt es, sc_global = es_env_global es, sc_env = NIL\<rparr> v s'"
    and lisp: "type_of lisp = PTR_TYPE_CONS" and n: "n < 256" and idle: "idle es" and id: "es_next_ctx_id es \<noteq> 0"
    and new: "hst_new_ctx H es = Some (p, raw)" "p \<noteq> 0" and m: "hst_malloc H 1024 = Some d" "length d = 256"
    and cb: "ctx_done_callback cb = None"
  shows "\<exists>es1 k es2. eval_cps_program H es lisp = Some (ucast (es_next_ctx_id es), es1) \<and> eval_rounds H cb k es1 = Some es2 \<and>
    es_rt es2 = sc_rt s' \<and> es_env_global es2 = sc_global s' \<and>
    eval_cps_wait_ctx cb2 es2 (ucast (es_next_ctx_id es)) = Some (v, es2)"
proof -
  let ?s = "\<lparr>sc_rt = es_rt es, sc_global = es_env_global es, sc_env = NIL\<rparr>" and ?H = "with_done cb H"
  obtain e prg where e: "car (es_heap es) lisp = Some e" "cdr (es_heap es) lisp = Some prg"
    using run by (auto elim: runs_program.cases)
  let ?c = "\<lambda>k. raw\<lparr>ec_program := prg, ec_curr_exp := e, ec_curr_env := NIL, ec_done := False,
    ec_app_cont := False, ec_timestamp := 0, ec_sleep_us := 0, ec_id := ucast (es_next_ctx_id es), ec_K := k, ec_prev := 0, ec_next := 0\<rparr>"
  let ?es1 = "\<lambda>k. es\<lparr>es_next_ctx_id := es_next_ctx_id es + 1, es_ctxs := (es_ctxs es)(p \<mapsto> ?c k), es_queue := p, es_queue_last := p\<rparr>"
  obtain k where k: "eval_cps_program H es lisp = Some (ucast (es_next_ctx_id es), ?es1 k)" "stack_is k [enc_u K_DONE] 256"
    using eval_cps_program_creates [OF idle id new lisp e m] by blast
  let ?x = "(?es1 k)\<lparr>es_queue := 0, es_queue_last := 0, es_running := p\<rparr>"
  let ?M = "\<lparr>st_host = ?H, st_es = ?x, st_p = p, st_ctx = ?c k, st_size = 256\<rparr>"
  have ok: "setting_ok ?M" using idle new(2) by (simp add: setting_ok_def idle_def)
  have x: "machine ?M (es_rt es) (es_env_global es) (?c k) = ?x" by (simp add: machine_def)
  have "evaluating ?M ?s e [enc_u K_DONE] ?x"
    using k(2) x evaluatingI [of ?M "?c k" e ?s "[enc_u K_DONE]" "es_rt es" "es_env_global es"] by (simp add: frame_def)
  then obtain l y where y: "eval_steps ?H l ?x = Some y" "finished ?M s' v y"
    using program_simulation [OF run ok, of e] n e cb idle by (auto simp: goes_def idle_def)
  obtain l' where l: "l = Suc l'" using y new(2) by (cases l) (auto simp: finished_def)
  have "run_eval_round ?H cb (?es1 k) = evaluation_step ?H ?x"
    using fresh_ctx_round [of "?es1 k" p "?c k" ?H cb] idle new(2) by (simp add: idle_def)
  moreover have "run_eval_round ?H cb ?x = evaluation_step ?H ?x" using new(2) by (simp add: run_eval_round_def)
  ultimately have "eval_rounds H cb l (?es1 k) = Some y" using eval_steps_rounds [OF y(1)] by (simp add: l)
  moreover have "eval_cps_wait_ctx cb2 y (ucast (es_next_ctx_id es)) = Some (v, y)"
    using y(2) new(2) by (subst eval_cps_wait_ctx.simps, subst wait_ctx_scan.simps) (auto simp: finished_def)
  ultimately show ?thesis using k(1) y(2) by (auto simp: finished_def)
qed

text \<open>
  C3: from a new context to its result. When the specification runs the program \<open>lisp\<close> to the value
  \<open>v\<close>, then \<open>eval_cps_program\<close> on an idle evaluator creates a context and returns its identifier, after
  finitely many rounds of the loop of \<open>eval_cps_run_eval\<close> the heap and the global environment are those
  of the specification, and \<open>eval_cps_wait_ctx\<close> with the identifier returns \<open>v\<close>.
\<close>

theorem eval_cps_program_result:
  assumes "runs_program (with_done cb H) (es_extensions es) n lisp \<lparr>sc_rt = es_rt es, sc_global = es_env_global es, sc_env = NIL\<rparr> v s'"
    and "type_of lisp = PTR_TYPE_CONS" and "n < 256" and "idle es" and "es_next_ctx_id es \<noteq> 0"
    and "hst_new_ctx H es = Some (p, raw)" "p \<noteq> 0" and "malloc_ok (hst_malloc H)" "hst_malloc H 1024 \<noteq> None"
    and "ctx_done_callback cb = None"
  shows "\<exists>es1 k es2. eval_cps_program H es lisp = Some (ucast (es_next_ctx_id es), es1) \<and> eval_rounds H cb k es1 = Some es2 \<and>
    es_rt es2 = sc_rt s' \<and> es_env_global es2 = sc_global s' \<and>
    eval_cps_wait_ctx cb2 es2 (ucast (es_next_ctx_id es)) = Some (v, es2)"
proof -
  obtain d where "hst_malloc H 1024 = Some d" "length d = 256" using assms(8,9) by (auto simp: malloc_ok_def)
  then show ?thesis using program_result [OF assms(1-7) _ _ assms(10)] by blast
qed

definition leak_idle :: "eval_state \<Rightarrow> eval_state" where
  "leak_idle es = es\<lparr>es_rt := (es_rt es)\<lparr>rt_heap := leak0\<rparr>, es_env_global := NIL, es_extensions := [], es_queue := 0,
     es_queue_last := 0, es_running := 0, es_done := 0, es_perform_gc := False, es_last_iteration_gc := False, es_next_ctx_id := 7\<rparr>"

definition leak_host :: "host \<Rightarrow> eval_context \<Rightarrow> host" where
  "leak_host H c = H\<lparr>hst_new_ctx := \<lambda>es. Some (2, c),
     hst_malloc := \<lambda>n. if unat n < 2 ^ 31 then Some (replicate (unat n div 4) 0) else None\<rparr>"

abbreviation (input) "no_callbacks \<equiv> \<lparr>usleep_callback = None, ctx_done_callback = None\<rparr>"

theorem eval_cps_program_result_witness:
  "\<forall>H es c. \<exists>es1 k es2. eval_cps_program (leak_host H c) (leak_idle es) (enc_cons_ptr 0) = Some (7, es1) \<and>
     eval_rounds (leak_host H c) no_callbacks k es1 = Some es2 \<and> es_rt es2 = (es_rt es)\<lparr>rt_heap := leak2\<rparr> \<and> es_env_global es2 = NIL \<and>
     eval_cps_wait_ctx no_callbacks es2 7 = Some (enc_sym DEF_REPR_TRUE, es2)"
proof (intro allI)
  fix H es c
  have h: "leak_scene (es_rt es) = \<lparr>sc_rt = es_rt (leak_idle es), sc_global = es_env_global (leak_idle es), sc_env = NIL\<rparr>"
    "es_extensions (leak_idle es) = []" "es_next_ctx_id (leak_idle es) = 7" "idle (leak_idle es)"
    by (simp_all add: leak_scene_def leak_idle_def idle_def)
  have m: "hst_new_ctx (leak_host H c) (leak_idle es) = Some (2, c)" "malloc_ok (hst_malloc (leak_host H c))"
    "hst_malloc (leak_host H c) 1024 \<noteq> None"
    by (simp_all add: leak_host_def malloc_ok_def)
  show "\<exists>es1 k es2. eval_cps_program (leak_host H c) (leak_idle es) (enc_cons_ptr 0) = Some (7, es1) \<and>
     eval_rounds (leak_host H c) no_callbacks k es1 = Some es2 \<and> es_rt es2 = (es_rt es)\<lparr>rt_heap := leak2\<rparr> \<and> es_env_global es2 = NIL \<and>
     eval_cps_wait_ctx no_callbacks es2 7 = Some (enc_sym DEF_REPR_TRUE, es2)"
    using eval_cps_program_result [of no_callbacks "leak_host H c" "leak_idle es" 8 "enc_cons_ptr 0" "enc_sym DEF_REPR_TRUE"
        "leak_end (es_rt es)" 2 c no_callbacks] leak_program [of "with_done no_callbacks (leak_host H c)" "es_rt es"] h m
    by (simp add: type_of_enc_cons_ptr with_h_def leak_scene_def)
qed

end
