(* ===== verification/Sexp.thy ===== *)
theory Sexp
  imports Heap_Lists
begin

text \<open>
  Symbolic expressions as trees, and when a value of the heap denotes a tree. A tree in the heap is
  made of live, unmarked cons cells; its leaves are the values that are no cons cells.
\<close>

datatype sexp = Atom VALUE | Cell sexp sexp

primrec shape :: "heap_state \<Rightarrow> VALUE \<Rightarrow> sexp \<Rightarrow> bool" where
  "shape h v (Atom a) \<longleftrightarrow> v = a \<and> type_of v \<noteq> PTR_TYPE_CONS \<and> \<not> val_get_gc_mark v"
| "shape h v (Cell a d) \<longleftrightarrow> type_of v = PTR_TYPE_CONS \<and> \<not> val_get_gc_mark v \<and> live h v \<and>
     (\<exists>x y. car h v = Some x \<and> cdr h v = Some y \<and> shape h x a \<and> shape h y d)"

abbreviation (input) "leaf_sym s \<equiv> Atom (enc_sym s)"
abbreviation (input) "nil_tree \<equiv> leaf_sym DEF_REPR_NIL"

lemma shape_mark: "shape h v t \<Longrightarrow> \<not> val_get_gc_mark v"
  by (cases t) auto

lemma shape_ext: "shape h v t \<Longrightarrow> heap_ext h h' \<Longrightarrow> shape h' v t"
proof (induction t arbitrary: v)
  case (Cell a d)
  then show ?case using heap_ext_live [OF Cell.prems(2), of v] by fastforce
qed simp

lemma shape_unique: "shape h v t \<Longrightarrow> shape h v u \<Longrightarrow> t = u"
proof (induction t arbitrary: v u)
  case (Atom a)
  then show ?case by (cases u) auto
next
  case (Cell a d)
  then show ?case by (cases u) auto
qed

lemma shape_sym: "shape h (enc_sym s) (leaf_sym s)"
  by simp

text \<open>\<open>allocates h n r t\<close>: the result \<open>r\<close> of an operation on \<open>h\<close> denotes \<open>t\<close>, and \<open>n\<close> free cells have become live.\<close>

definition allocates :: "heap_state \<Rightarrow> nat \<Rightarrow> (VALUE \<times> heap_state) option \<Rightarrow> sexp \<Rightarrow> bool" where
  "allocates h n r t \<longleftrightarrow> (\<exists>v h'. r = Some (v, h') \<and> heap_wf h' \<and> heap_ext h h' \<and> room h = room h' + n \<and> shape h' v t)"

lemma allocates_none: "heap_wf h \<Longrightarrow> shape h v t \<Longrightarrow> allocates h 0 (Some (v, h)) t"
  by (auto simp: allocates_def)

lemma allocates_cons:
  assumes "heap_wf h" and "0 < room h" and "shape h a t" and "shape h d u"
  shows "allocates h 1 (cons h a d) (Cell t u)"
proof -
  obtain p h' where "cons h a d = Some (p, h')" "heap_wf h'" "heap_ext h h'" "room h = Suc (room h')"
      "type_of p = PTR_TYPE_CONS" "\<not> val_get_gc_mark p" "live h' p" "car h' p = Some a" "cdr h' p = Some d"
    using store.cons_room [OF assms(1,2) shape_mark [OF assms(4)], of a] by blast
  then show ?thesis using shape_ext [OF assms(3)] shape_ext [OF assms(4)] by (simp add: allocates_def)
qed

lemma allocates_bind:
  assumes "allocates h n r t"
    and "\<And>v h'. heap_wf h' \<Longrightarrow> heap_ext h h' \<Longrightarrow> room h = room h' + n \<Longrightarrow> shape h' v t \<Longrightarrow> allocates h' m (f (v, h')) u"
  shows "allocates h (n + m) (Option.bind r f) u"
proof -
  obtain v h' where 1: "r = Some (v, h')" "heap_wf h'" "heap_ext h h'" "room h = room h' + n" "shape h' v t"
    using assms(1) by (auto simp: allocates_def)
  then have "allocates h' m (f (v, h')) u" by (intro assms(2)) auto
  then obtain w h'' where 2: "f (v, h') = Some (w, h'')" "heap_wf h''" "heap_ext h' h''" "room h' = room h'' + m" "shape h'' w u"
    by (auto simp: allocates_def)
  show ?thesis using 1 2 heap_ext_trans [OF 1(3) 2(3)] by (simp add: allocates_def)
qed

text \<open>A cons onto a cons, as in \<open>cons(x, cons(y, z))\<close>.\<close>

lemma allocates_then_cons:
  assumes "allocates h n r d" and "shape h a t" and "n < room h"
  shows "allocates h (n + 1) (Option.bind r (\<lambda>(v, h). cons h a v)) (Cell t d)"
  using assms(1)
proof (rule allocates_bind)
  fix v h'
  assume "heap_wf h'" "heap_ext h h'" "room h = room h' + n" "shape h' v d"
  then show "allocates h' 1 (case (v, h') of (v, h) \<Rightarrow> cons h a v) (Cell t d)"
    using allocates_cons [of h' a t v d] shape_ext [OF assms(2)] assms(3) by simp
qed

text \<open>A proper list of leaves.\<close>

primrec list_tree :: "VALUE list \<Rightarrow> sexp" where
  "list_tree [] = nil_tree"
| "list_tree (x # xs) = Cell (Atom x) (list_tree xs)"

lemma shape_list_tree:
  "lisp_list h v xs \<Longrightarrow> \<forall>x \<in> set xs. type_of x \<noteq> PTR_TYPE_CONS \<and> \<not> val_get_gc_mark x \<Longrightarrow> shape h v (list_tree xs)"
  by (induction xs arbitrary: v) (auto split: option.splits)

end
