(* ===== verification/QQ_Correct.thy ===== *)
theory QQ_Correct
  imports QQ_Expand Sexp
begin

text \<open>
  Quasiquotation: the code \<open>qq_expand\<close> builds in the heap is that of a function on trees, and evaluating
  it gives the template with its unquoted parts filled in.
\<close>

subsection \<open>The expansion on trees\<close>

definition leaf_is :: "sexp \<Rightarrow> UINT \<Rightarrow> bool" where
  "leaf_is t s \<longleftrightarrow> (case t of Atom v \<Rightarrow> type_of v = VAL_TYPE_SYMBOL \<and> dec_sym v = s | Cell a d \<Rightarrow> False)"

definition call1 :: "UINT \<Rightarrow> sexp \<Rightarrow> sexp" where
  "call1 f a = Cell (leaf_sym f) (Cell a nil_tree)"

definition call2 :: "UINT \<Rightarrow> sexp \<Rightarrow> sexp \<Rightarrow> sexp" where
  "call2 f a b = Cell (leaf_sym f) (Cell a (Cell b nil_tree))"

fun operand :: "sexp \<Rightarrow> sexp" where
  "operand (Cell x r) = x"
| "operand (Atom v) = Atom v"

definition is_cell :: "sexp \<Rightarrow> bool" where
  "is_cell t \<longleftrightarrow> (case t of Atom v \<Rightarrow> False | Cell a d \<Rightarrow> True)"

fun qq_tree :: "bool \<Rightarrow> sexp \<Rightarrow> sexp" where
  "qq_tree b (Atom v) = call1 DEF_REPR_QUOTE (if b then Cell (Atom v) nil_tree else Atom v)"
| "qq_tree b (Cell a d) =
     (if leaf_is a DEF_REPR_COMMA then if b then call1 SYM_LIST (operand d) else operand d
      else if leaf_is a DEF_REPR_COMMAAT then if b then operand d else leaf_sym DEF_REPR_RERROR
      else let e = call2 SYM_APPEND (qq_tree True a) (qq_tree False d) in if b then call1 SYM_LIST e else e)"

text \<open>Unquoted forms have an operand, and splicing happens in the elements of a list only.\<close>

fun qq_ok :: "bool \<Rightarrow> sexp \<Rightarrow> bool" where
  "qq_ok b (Atom v) = True"
| "qq_ok b (Cell a d) =
     (if leaf_is a DEF_REPR_COMMA then is_cell d
      else if leaf_is a DEF_REPR_COMMAAT then b \<and> is_cell d
      else qq_ok True a \<and> qq_ok False d)"

fun qq_cells :: "bool \<Rightarrow> sexp \<Rightarrow> nat" where
  "qq_cells b (Atom v) = (if b then 3 else 2)"
| "qq_cells b (Cell a d) =
     (if leaf_is a DEF_REPR_COMMA then if b then 2 else 0
      else if leaf_is a DEF_REPR_COMMAAT then 0
      else qq_cells True a + qq_cells False d + (if b then 5 else 3))"

subsection \<open>The heap holds that tree\<close>

lemma shape_leaf_is:
  "shape h v t \<Longrightarrow> type_of v = VAL_TYPE_SYMBOL \<and> dec_sym v = s \<longleftrightarrow> leaf_is t s"
  by (cases t) (auto simp: leaf_is_def)

lemma allocates_call1:
  assumes "heap_wf h" and "shape h a t" and "2 \<le> room h"
  shows "allocates h 2 (Option.bind (cons h a (enc_sym DEF_REPR_NIL)) (\<lambda>(c, h). cons h (enc_sym f) c)) (call1 f t)"
proof -
  have "allocates h 1 (cons h a (enc_sym DEF_REPR_NIL)) (Cell t nil_tree)"
    using assms by (intro allocates_cons) auto
  from allocates_then_cons [OF this shape_sym [of h f]] assms(3) show ?thesis by (simp add: call1_def numeral_2_eq_2)
qed

lemma allocates_append_exp:
  assumes "heap_wf h" and "shape h a t" and "shape h b u" and "3 \<le> room h"
  shows "allocates h 3 (append_exp h a b) (call2 SYM_APPEND t u)"
proof -
  have "allocates h 1 (cons h b (enc_sym DEF_REPR_NIL)) (Cell u nil_tree)"
    using assms by (intro allocates_cons) auto
  from allocates_then_cons [OF this assms(2)] assms(4)
  have "allocates h 2 (Option.bind (cons h b (enc_sym DEF_REPR_NIL)) (\<lambda>(v, h). cons h a v)) (Cell t (Cell u nil_tree))"
    by (simp add: numeral_2_eq_2)
  from allocates_then_cons [OF this shape_sym [of h SYM_APPEND]] assms(4) show ?thesis
    by (simp add: append_exp_def call2_def case_prod_beta')
qed

lemma allocates_wrap:
  assumes "allocates h n r t" and "n + 2 \<le> room h"
  shows "allocates h (n + 2) (Option.bind r (\<lambda>(a, h). Option.bind (cons h a (enc_sym DEF_REPR_NIL)) (\<lambda>(c, h). cons h (enc_sym f) c))) (call1 f t)"
  using assms(1) by (rule allocates_bind) (use assms(2) in \<open>auto intro: allocates_call1\<close>)

lemma allocates_append:
  assumes "allocates h n r t" and room: "n + m + 3 \<le> room h"
    and f: "\<And>h'. heap_wf h' \<Longrightarrow> heap_ext h h' \<Longrightarrow> m \<le> room h' \<Longrightarrow> allocates h' m (f h') u"
  shows "allocates h (n + (m + 3)) (Option.bind r (\<lambda>(a, h). Option.bind (f h) (\<lambda>(b, h). append_exp h a b))) (call2 SYM_APPEND t u)"
  using assms(1)
proof (rule allocates_bind)
  fix a h1
  assume 1: "heap_wf h1" "heap_ext h h1" "room h = room h1 + n" "shape h1 a t"
  have "allocates h1 (m + 3) (Option.bind (f h1) (\<lambda>(b, h). append_exp h a b)) (call2 SYM_APPEND t u)"
  proof (rule allocates_bind [OF f [OF 1(1,2)]])
    show "m \<le> room h1" using room 1(3) by simp
    fix b h2
    assume 2: "heap_wf h2" "heap_ext h1 h2" "room h1 = room h2 + m" "shape h2 b u"
    then show "allocates h2 3 (case (b, h2) of (b, h) \<Rightarrow> append_exp h a b) (call2 SYM_APPEND t u)"
      using allocates_append_exp [OF 2(1) shape_ext [OF 1(4) 2(2)] 2(4)] room 1(3) by simp
  qed
  then show "allocates h1 (m + 3) (case (a, h1) of (a, h) \<Rightarrow> Option.bind (f h) (\<lambda>(b, h). append_exp h a b)) (call2 SYM_APPEND t u)" by simp
qed

lemma qq_exp_shape:
  assumes "heap_wf h" and "shape h v t" and "qq_ok b t" and "qq_cells b t \<le> room h"
  shows "allocates h (qq_cells b t) (qq_exp b h v) (qq_tree b t)"
  using assms
proof (induction t arbitrary: b h v)
  case (Atom x)
  have 1: "b \<Longrightarrow> allocates h 1 (cons h v (enc_sym DEF_REPR_NIL)) (Cell (Atom x) nil_tree)"
    using Atom.prems by (intro allocates_cons) auto
  show ?case
    using Atom.prems allocates_wrap [OF 1, of DEF_REPR_QUOTE] allocates_call1 [of h v "Atom x" DEF_REPR_QUOTE]
    by (subst qq_exp.simps) (auto simp: eval_nat_numeral)
next
  case (Cell a d)
  obtain x y where v: "type_of v = PTR_TYPE_CONS" "car h v = Some x" "cdr h v = Some y" "shape h x a" "shape h y d"
    using Cell.prems(2) by auto
  note leaf = shape_leaf_is [OF v(4)]
  show ?case
  proof (cases "leaf_is a DEF_REPR_COMMA \<or> leaf_is a DEF_REPR_COMMAAT")
    case True
    then obtain z r where d: "d = Cell z r" using Cell.prems(3) by (cases d) (auto simp: is_cell_def split: if_splits)
    then obtain w where w: "car h y = Some w" "shape h w z" using v(5) by auto
    show ?thesis
      using True Cell.prems v w d allocates_call1 [of h w z SYM_LIST] allocates_none [of h w z]
      by (subst qq_exp.simps) (auto simp: leaf split: if_splits)
  next
    case False
    let ?n = "qq_cells True a" and ?m = "qq_cells False d"
    have room: "?n + ?m + (if b then 5 else 3) \<le> room h" and ok: "qq_ok True a" "qq_ok False d"
      using Cell.prems False by (auto split: if_splits)
    have 1: "allocates h (?n + (?m + 3))
        (Option.bind (qq_exp True h x) (\<lambda>(ea, h). Option.bind (qq_exp False h y) (\<lambda>(ed, h). append_exp h ea ed)))
        (call2 SYM_APPEND (qq_tree True a) (qq_tree False d))"
      using room ok v Cell.prems(1) by (intro allocates_append Cell.IH) (auto intro: shape_ext split: if_splits)
    have "?n + (?m + 3) + 2 \<le> room h" if b using room that by simp
    with allocates_wrap [OF 1, of SYM_LIST] 1 show ?thesis
      using v False by (subst qq_exp.simps) (cases b, auto simp: leaf case_prod_beta' algebra_simps eval_nat_numeral)
  qed
qed

subsection \<open>The meaning of the expansion\<close>

text \<open>
  \<open>append\<close> on trees; the values of the three functions that expansions use, the other forms having the
  value \<open>\<rho>\<close> gives them; and the template with the unquoted parts replaced by their values.
\<close>

fun append_tree :: "sexp \<Rightarrow> sexp \<Rightarrow> sexp" where
  "append_tree (Cell a d) t = Cell a (append_tree d t)"
| "append_tree (Atom v) t = t"

fun tree_value :: "(sexp \<Rightarrow> sexp) \<Rightarrow> sexp \<Rightarrow> sexp" where
  "tree_value \<rho> (Cell (Atom f) (Cell x (Atom n))) =
     (if f = enc_sym DEF_REPR_QUOTE \<and> n = NIL then x
      else if f = enc_sym SYM_LIST \<and> n = NIL then Cell (tree_value \<rho> x) nil_tree
      else \<rho> (Cell (Atom f) (Cell x (Atom n))))"
| "tree_value \<rho> (Cell (Atom f) (Cell x (Cell y (Atom n)))) =
     (if f = enc_sym SYM_APPEND \<and> n = NIL then append_tree (tree_value \<rho> x) (tree_value \<rho> y)
      else \<rho> (Cell (Atom f) (Cell x (Cell y (Atom n)))))"
| "tree_value \<rho> e = \<rho> e"

fun fill :: "(sexp \<Rightarrow> sexp) \<Rightarrow> sexp \<Rightarrow> sexp" where
  "fill val (Atom v) = Atom v"
| "fill val (Cell a d) =
     (if leaf_is a DEF_REPR_COMMA then val (operand d)
      else case a of
        Cell s r \<Rightarrow> if leaf_is s DEF_REPR_COMMAAT then append_tree (val (operand r)) (fill val d) else Cell (fill val a) (fill val d)
      | Atom v \<Rightarrow> Cell a (fill val d))"

definition is_splice :: "sexp \<Rightarrow> bool" where
  "is_splice t \<longleftrightarrow> (case t of Atom v \<Rightarrow> False | Cell a d \<Rightarrow> leaf_is a DEF_REPR_COMMAAT)"

lemma tree_value_calls:
  "tree_value \<rho> (call1 DEF_REPR_QUOTE t) = t"
  "tree_value \<rho> (call1 SYM_LIST t) = Cell (tree_value \<rho> t) nil_tree"
  "tree_value \<rho> (call2 SYM_APPEND t u) = append_tree (tree_value \<rho> t) (tree_value \<rho> u)"
  by (simp_all add: call1_def call2_def enc_sym_def)

lemma leaf_is_unique: "leaf_is a s \<Longrightarrow> leaf_is a s' \<Longrightarrow> s = s'"
  by (auto simp: leaf_is_def split: sexp.splits)

lemma fill_Cell:
  "fill val (Cell a d) = (if leaf_is a DEF_REPR_COMMA then val (operand d)
     else if is_splice a then append_tree (val (operand (case a of Cell s r \<Rightarrow> r | Atom v \<Rightarrow> a))) (fill val d)
     else Cell (fill val a) (fill val d))"
  by (cases a) (auto simp: is_splice_def)

lemma qq_tree_value:
  "qq_ok b t \<Longrightarrow> tree_value \<rho> (qq_tree b t) =
     (if \<not> b then fill (tree_value \<rho>) t
      else case t of Cell a d \<Rightarrow> if leaf_is a DEF_REPR_COMMAAT then tree_value \<rho> (operand d) else Cell (fill (tree_value \<rho>) t) nil_tree
           | Atom v \<Rightarrow> Cell t nil_tree)"
proof (induction b t rule: qq_tree.induct)
  case (1 b v)
  then show ?case by (simp add: tree_value_calls)
next
  case (2 b a d)
  show ?case
  proof (cases "leaf_is a DEF_REPR_COMMA \<or> leaf_is a DEF_REPR_COMMAAT")
    case True
    then show ?thesis
      using 2 leaf_is_unique [of a DEF_REPR_COMMA DEF_REPR_COMMAAT] by (auto simp: tree_value_calls split: if_splits)
  next
    case False
    then have "tree_value \<rho> (qq_tree True a) = (if is_splice a then tree_value \<rho> (operand (case a of Cell s r \<Rightarrow> r | Atom v \<Rightarrow> a))
        else Cell (fill (tree_value \<rho>) a) nil_tree)" "tree_value \<rho> (qq_tree False d) = fill (tree_value \<rho>) d"
      using 2 by (auto simp: is_splice_def split: sexp.splits)
    then have "append_tree (tree_value \<rho> (qq_tree True a)) (tree_value \<rho> (qq_tree False d)) = fill (tree_value \<rho>) (Cell a d)"
      using False by (simp add: fill_Cell del: fill.simps)
    then show ?thesis using False by (simp add: Let_def tree_value_calls del: fill.simps)
  qed
qed

subsection \<open>Property\<close>

text \<open>
  C22: \<open>qq_expand\<close> is correct. For a template in the heap, with unquoted forms that have an operand and
  splices only inside of lists, and enough free cells, it returns code in fresh cells; whatever values
  the unquoted expressions have, the code has the value of the template with these values filled in
  and spliced. No live cell changes.
\<close>

theorem qq_expand_correct:
  assumes "heap_wf h" and "shape h v t" and "qq_ok False t" and "qq_cells False t \<le> room h"
  shows "\<exists>r h' e. qq_expand h v = Some (r, h') \<and> heap_wf h' \<and> heap_ext h h' \<and> room h = room h' + qq_cells False t \<and>
    shape h' r e \<and> (\<forall>\<rho>. tree_value \<rho> e = fill (tree_value \<rho>) t)"
  using qq_exp_shape [OF assms] qq_tree_value [OF assms(3)] by (auto simp: allocates_def qq_expand_def)

text \<open>The template \<open>(x ,y ,@z)\<close> in the cells 0 to 6, and the 16 free cells its expansion takes.\<close>

definition qq_heap :: heap_state where
  "qq_heap = \<lparr>hs_heap = Some ([\<lparr>cell_car = enc_sym 4096, cell_cdr = enc_cons_ptr 1\<rparr>,
      \<lparr>cell_car = enc_cons_ptr 3, cell_cdr = enc_cons_ptr 2\<rparr>, \<lparr>cell_car = enc_cons_ptr 5, cell_cdr = NIL\<rparr>,
      \<lparr>cell_car = enc_sym DEF_REPR_COMMA, cell_cdr = enc_cons_ptr 4\<rparr>, \<lparr>cell_car = enc_sym 4097, cell_cdr = NIL\<rparr>,
      \<lparr>cell_car = enc_sym DEF_REPR_COMMAAT, cell_cdr = enc_cons_ptr 6\<rparr>, \<lparr>cell_car = enc_sym 4098, cell_cdr = NIL\<rparr>] @
      map (\<lambda>i. \<lparr>cell_car = RECOVERED, cell_cdr = enc_cons_ptr i\<rparr>) [8, 9, 10, 11, 12, 13, 14, 15, 16, 17, 18, 19, 20, 21, 22] @
      [\<lparr>cell_car = RECOVERED, cell_cdr = NIL\<rparr>]),
    hs_malloced = False, hs_freelist = enc_cons_ptr 7, hs_heap_size = 23, hs_heap_bytes = 184,
    hs_num_alloc = 7, hs_num_alloc_arrays = 0, hs_gc_num = 0, hs_gc_marked = 0,
    hs_gc_recovered = 0, hs_gc_recovered_arrays = 0\<rparr>"

definition qq_template :: sexp where
  "qq_template = Cell (leaf_sym 4096) (Cell (call1 DEF_REPR_COMMA (leaf_sym 4097)) (Cell (call1 DEF_REPR_COMMAAT (leaf_sym 4098)) nil_tree))"

lemma qq_heap_inv: "heap_inv qq_heap (heap_cells qq_heap) [7, 8, 9, 10, 11, 12, 13, 14, 15, 16, 17, 18, 19, 20, 21, 22]"
  by (simp add: heap_inv_def heap_cells_def qq_heap_def cell_defs)

lemmas qq_heap_wf = heap_inv_wf [OF qq_heap_inv]

lemma qq_heap_cells:
  "car qq_heap (enc_cons_ptr 0) = Some (enc_sym 4096)" "cdr qq_heap (enc_cons_ptr 0) = Some (enc_cons_ptr 1)"
  "car qq_heap (enc_cons_ptr 1) = Some (enc_cons_ptr 3)" "cdr qq_heap (enc_cons_ptr 1) = Some (enc_cons_ptr 2)"
  "car qq_heap (enc_cons_ptr 2) = Some (enc_cons_ptr 5)" "cdr qq_heap (enc_cons_ptr 2) = Some NIL"
  "car qq_heap (enc_cons_ptr 3) = Some (enc_sym DEF_REPR_COMMA)" "cdr qq_heap (enc_cons_ptr 3) = Some (enc_cons_ptr 4)"
  "car qq_heap (enc_cons_ptr 4) = Some (enc_sym 4097)" "cdr qq_heap (enc_cons_ptr 4) = Some NIL"
  "car qq_heap (enc_cons_ptr 5) = Some (enc_sym DEF_REPR_COMMAAT)" "cdr qq_heap (enc_cons_ptr 5) = Some (enc_cons_ptr 6)"
  "car qq_heap (enc_cons_ptr 6) = Some (enc_sym 4098)" "cdr qq_heap (enc_cons_ptr 6) = Some NIL"
  by (simp_all add: qq_heap_def car_def cdr_def get_cell_def ref_cell_def cell_defs is_ptr_def type_of_def dec_ptr_def enc_cons_ptr_def enc_sym_def)

lemma qq_heap_live:
  assumes "i < 7"
  shows "live qq_heap (enc_cons_ptr (of_nat i))" "\<not> val_get_gc_mark (enc_cons_ptr (of_nat i))"
proof -
  have "length (heap_cells qq_heap) = 23" by (simp add: heap_cells_def qq_heap_def)
  moreover have "i \<notin> set [7, 8, 9, 10, 11, 12, 13, 14, 15, 16, 17, 18, 19, 20, 21, 22]" using assms by auto
  ultimately show "live qq_heap (enc_cons_ptr (of_nat i))" "\<not> val_get_gc_mark (enc_cons_ptr (of_nat i))"
    using assms qq_heap_wf by (auto simp: live_def live_cell_def ref_cell_enc_cons_ptr)
qed

lemma qq_heap_shape: "shape qq_heap (enc_cons_ptr 0) qq_template"
  using qq_heap_live [of 0] qq_heap_live [of 1] qq_heap_live [of 2] qq_heap_live [of 3] qq_heap_live [of 4] qq_heap_live [of 5]
    qq_heap_live [of 6]
  by (simp add: qq_template_def call1_def type_of_enc_cons_ptr qq_heap_cells)

theorem qq_expand_correct_witness:
  "\<exists>r h' e. qq_expand qq_heap (enc_cons_ptr 0) = Some (r, h') \<and> shape h' r e \<and>
     (\<forall>\<rho>. tree_value \<rho> e = Cell (leaf_sym 4096) (Cell (\<rho> (leaf_sym 4097)) (append_tree (\<rho> (leaf_sym 4098)) nil_tree)))"
proof -
  have leaf: "leaf_is (leaf_sym DEF_REPR_COMMA) DEF_REPR_COMMA" "leaf_is (leaf_sym DEF_REPR_COMMAAT) DEF_REPR_COMMAAT"
    "\<not> leaf_is (leaf_sym DEF_REPR_COMMAAT) DEF_REPR_COMMA" "\<not> leaf_is (leaf_sym DEF_REPR_COMMA) DEF_REPR_COMMAAT" "\<not> leaf_is (leaf_sym 4096) s \<or> s = 4096" "\<not> leaf_is (Cell a d) s" for s a d
    by (auto simp: leaf_is_def dec_sym_enc_sym)
  have "qq_ok False qq_template" "qq_cells False qq_template = 16"
    "fill val qq_template = Cell (leaf_sym 4096) (Cell (val (leaf_sym 4097)) (append_tree (val (leaf_sym 4098)) nil_tree))" for val
    using leaf(5) [of DEF_REPR_COMMA] leaf(5) [of DEF_REPR_COMMAAT] leaf
    by (simp_all add: qq_template_def call1_def is_cell_def)
  then show ?thesis
    using qq_expand_correct [of qq_heap "enc_cons_ptr 0" qq_template] qq_heap_wf qq_heap_shape by auto
qed

end
