(* ===== verification/Fundamental_Correct.thy ===== *)
theory Fundamental_Correct
  imports Fundamental_Exec Sexp
begin

text \<open>
  The fundamental operations: lists, integer arithmetic and structural equality of \<open>fundamental_exec\<close>
  against their meaning on HOL lists, words and trees.
\<close>

subsection \<open>Lists\<close>

abbreviation (input) "either r \<equiv> (case r of Inl v \<Rightarrow> v | Inr v \<Rightarrow> v)"

text \<open>One cell of a list that is built from its end.\<close>

lemma cons_all_step:
  assumes wf: "heap_wf h" and acc: "\<not> val_get_gc_mark acc"
    and loop: "\<And>p h'. heap_wf h' \<Longrightarrow> heap_ext h h' \<Longrightarrow> \<not> val_get_gc_mark p \<Longrightarrow>
      f p h' = map_option (\<lambda>(r, h). (either r, h)) (cons_all cons h' xs p)"
  shows "(do { (result, h) \<leftarrow> cons h x acc; if type_of result = VAL_TYPE_SYMBOL then Some (result, h) else f result h }) =
    map_option (\<lambda>(r, h). (either r, h)) (cons_all cons h (x # xs) acc)"
proof (cases "room h = 0")
  case True
  then show ?thesis by (simp add: store.cons_full [OF wf True])
next
  case False
  then obtain p h' where "cons h x acc = Some (p, h')" "heap_wf h'" "heap_ext h h'" "type_of p = PTR_TYPE_CONS" "\<not> val_get_gc_mark p"
    using store.cons_room [OF wf _ acc, of x] by auto
  then show ?thesis using loop by simp
qed

lemma rev_take_Suc: "n < length xs \<Longrightarrow> rev (take (Suc n) xs) = xs ! n # rev (take n xs)"
  by (simp add: take_Suc_conv_app_nth)

lemma exec_list_loop_cons_all:
  "heap_wf h \<Longrightarrow> \<not> val_get_gc_mark acc \<Longrightarrow> n \<le> length args \<Longrightarrow>
     exec_list_loop h args acc n = map_option (\<lambda>(r, h). (either r, h)) (cons_all cons h (rev (take n args)) acc)"
proof (induction n arbitrary: h acc)
  case (Suc n)
  have "exec_list_loop h args acc (Suc n) =
      do { (result, h) \<leftarrow> cons h (args ! n) acc; if type_of result = VAL_TYPE_SYMBOL then Some (result, h) else exec_list_loop h args result n }"
    using Suc.prems by simp
  also have "\<dots> = map_option (\<lambda>(r, h). (either r, h)) (cons_all cons h (args ! n # rev (take n args)) acc)"
    using Suc by (intro cons_all_step) auto
  finally show ?case using Suc.prems by (simp add: rev_take_Suc)
qed simp

lemma index_list_nth:
  "lisp_list h v xs \<Longrightarrow> i < length xs \<Longrightarrow> index_list h v (int i) = Some (xs ! i)"
proof (induction xs arbitrary: v i)
  case (Cons x xs)
  then obtain d where d: "type_of v = PTR_TYPE_CONS" "car h v = Some x" "cdr h v = Some d" "lisp_list h d xs"
    by (auto split: option.splits)
  show ?case
  proof (cases i)
    case 0
    then show ?thesis using d by (simp add: index_list_def index_list_loop.simps)
  next
    case (Suc j)
    have "index_list_loop h v (int i) = index_list_loop h d (int j)" using d Suc by (subst index_list_loop.simps) simp
    then show ?thesis using Cons.IH [OF d(4), of j] Cons.prems(2) Suc by (simp add: index_list_def)
  qed
qed simp

lemma count_cells_list: "lisp_list h v xs \<Longrightarrow> count_cells h v n = Some (n + length xs)"
proof (induction xs arbitrary: v n)
  case Nil
  then show ?case by (subst count_cells.simps) simp
next
  case (Cons x xs)
  then show ?case by (subst count_cells.simps) (auto split: option.splits)
qed

lemma exec_append_loop_cons_all:
  "heap_wf h \<Longrightarrow> \<not> val_get_gc_mark acc \<Longrightarrow> lisp_list h v xs \<Longrightarrow> n \<le> length xs \<Longrightarrow>
     exec_append_loop h v acc n = map_option (\<lambda>(r, h). (either r, h)) (cons_all cons h (rev (take n xs)) acc)"
proof (induction n arbitrary: h acc)
  case (Suc n)
  have "exec_append_loop h v acc (Suc n) =
      do { (result, h) \<leftarrow> cons h (xs ! n) acc; if type_of result = VAL_TYPE_SYMBOL then Some (result, h) else exec_append_loop h v result n }"
    using Suc.prems index_list_nth [OF Suc.prems(3), of n] by simp
  also have "\<dots> = map_option (\<lambda>(r, h). (either r, h)) (cons_all cons h (xs ! n # rev (take n xs)) acc)"
    using Suc store.list_ext by (intro cons_all_step) auto
  finally show ?case using Suc.prems by (simp add: rev_take_Suc)
qed simp

text \<open>What building \<open>xs\<close> in front of a list of \<open>ys\<close> comes to.\<close>

lemma cons_all_onto:
  assumes wf: "heap_wf h" and ys: "lisp_list h acc ys"
  shows "\<exists>r h'. map_option (\<lambda>(r, h). (either r, h)) (cons_all cons h (rev xs) acc) = Some (r, h') \<and> heap_wf h' \<and> heap_ext h h' \<and>
    (if length xs \<le> room h then lisp_list h' r (xs @ ys) \<and> room h = room h' + length xs else r = enc_sym DEF_REPR_MERROR)"
proof (cases "length xs \<le> room h")
  case True
  then show ?thesis using store.cons_all_room [OF wf _ ys, of "rev xs"] by auto
next
  case False
  then show ?thesis using store.cons_all_full [OF wf _ list_at_mark [OF ys], of "rev xs"] by auto
qed

lemma with_heap_onto:
  assumes e: "e = map_option (\<lambda>(r, h). (either r, h)) (cons_all cons (rt_heap rt) (rev xs) acc)"
    and "heap_wf (rt_heap rt)" and "lisp_list (rt_heap rt) acc ys"
  shows "\<exists>r h'. with_heap rt e = Some (r, rt\<lparr>rt_heap := h'\<rparr>) \<and> heap_wf h' \<and> heap_ext (rt_heap rt) h' \<and>
    (if length xs \<le> room (rt_heap rt) then lisp_list h' r (xs @ ys) \<and> room (rt_heap rt) = room h' + length xs
     else r = enc_sym DEF_REPR_MERROR)"
proof -
  obtain r h' where "e = Some (r, h')" "heap_wf h'" "heap_ext (rt_heap rt) h'"
      "if length xs \<le> room (rt_heap rt) then lisp_list h' r (xs @ ys) \<and> room (rt_heap rt) = room h' + length xs
       else r = enc_sym DEF_REPR_MERROR"
    using cons_all_onto [OF assms(2,3), of xs] unfolding e by blast
  then show ?thesis unfolding with_heap_def by (intro exI [of _ r] exI [of _ h']) simp
qed

lemma fundamental_dispatch:
  "fundamental_exec F rt args n (enc_sym SYM_LIST) = with_heap rt (exec_list (rt_heap rt) args n)"
  "fundamental_exec F rt args n (enc_sym SYM_APPEND) = with_heap rt (exec_append (rt_heap rt) args n)"
  "fundamental_exec F rt args n (enc_sym SYM_ADD) = with_heap rt (exec_arith (add2 F) (rt_heap rt) args n)"
  "fundamental_exec F rt args n (enc_sym SYM_MUL) = with_heap rt (exec_arith (mul2 F) (rt_heap rt) args n)"
  "fundamental_exec F rt args n (enc_sym SYM_SUB) = with_heap rt (exec_sub F (rt_heap rt) args n)"
  "fundamental_exec F rt args n (enc_sym SYM_EQ) = with_value rt (exec_eq F (rt_heap rt) (rt_mem rt) args n)"
  by (simp_all add: fundamental_exec_def dec_sym_enc_sym Let_def)

text \<open>
  \<open>append\<close> of two proper lists. With a free cell for every element of the first list the result is
  the list of the elements of both, the cells of the second being shared; otherwise it is the
  out-of-memory symbol. No live cell changes.
\<close>

theorem append_correct:
  assumes "heap_wf (rt_heap rt)" and "lisp_list (rt_heap rt) a xs" and "lisp_list (rt_heap rt) b ys"
  shows "\<exists>r h'. fundamental_exec F rt (a # b # rest) 2 (enc_sym SYM_APPEND) = Some (r, rt\<lparr>rt_heap := h'\<rparr>) \<and>
    heap_wf h' \<and> heap_ext (rt_heap rt) h' \<and>
    (if length xs \<le> room (rt_heap rt) then lisp_list h' r (xs @ ys) \<and> room (rt_heap rt) = room h' + length xs
     else r = enc_sym DEF_REPR_MERROR)"
proof -
  have "exec_append (rt_heap rt) (a # b # rest) 2 = map_option (\<lambda>(r, h). (either r, h)) (cons_all cons (rt_heap rt) (rev xs) b)"
    using count_cells_list [OF assms(2), of 0] exec_append_loop_cons_all [OF assms(1) list_at_mark [OF assms(3)] assms(2) order.refl]
    by (simp add: exec_append_def)
  then show ?thesis
    using with_heap_onto [OF _ assms(1,3)] unfolding fundamental_dispatch by blast
qed

text \<open>
  \<open>list\<close> returns the list of its arguments in fresh cells, or the out-of-memory symbol when there
  are fewer free cells than arguments.
\<close>

theorem list_correct:
  assumes "heap_wf (rt_heap rt)" and "length xs < 2 ^ 32"
  shows "\<exists>r h'. fundamental_exec F rt (xs @ rest) (of_nat (length xs)) (enc_sym SYM_LIST) = Some (r, rt\<lparr>rt_heap := h'\<rparr>) \<and>
    heap_wf h' \<and> heap_ext (rt_heap rt) h' \<and>
    (if length xs \<le> room (rt_heap rt) then lisp_list h' r xs \<and> room (rt_heap rt) = room h' + length xs
     else r = enc_sym DEF_REPR_MERROR)"
proof -
  have "unat (of_nat (length xs) :: u32) = length xs" using assms(2) by (intro unat_u32_of_nat) simp
  then have "exec_list (rt_heap rt) (xs @ rest) (of_nat (length xs)) =
      map_option (\<lambda>(r, h). (either r, h)) (cons_all cons (rt_heap rt) (rev xs) (enc_sym DEF_REPR_NIL))"
    using exec_list_loop_cons_all [OF assms(1), of NIL "length xs" "xs @ rest"] by (simp add: exec_list_def)
  then show ?thesis
    unfolding fundamental_dispatch by (rule with_heap_onto [OF _ assms(1), of _ xs NIL "[]", unfolded append_Nil2]) simp
qed

subsection \<open>Integer arithmetic\<close>

text \<open>Encoding shifts by four bits, so that it depends on the lower 28 bits only.\<close>

lemma shift_dec_i: "16 * dec_i (enc_i x) = 16 * x"
proof -
  have "push_bit 4 (dec_i (enc_i x)) = push_bit 4 x"
    by (rule bit_word_eqI) (auto simp: bit_push_bit_iff enc_bits dec_i_def bit_signed_drop_bit_iff)
  then show ?thesis by (simp add: push_bit_eq_mult mult.commute)
qed

lemma enc_i_cong: "16 * x = 16 * y \<Longrightarrow> enc_i x = enc_i y"
  by (simp add: enc_i_def push_bit_eq_mult mult.commute)

lemma enc_i_ring:
  "enc_i (dec_i (enc_i x) + dec_i (enc_i y)) = enc_i (x + y)" "enc_i (dec_i (enc_i x) * dec_i (enc_i y)) = enc_i (x * y)"
  "enc_i (dec_i (enc_i x) - dec_i (enc_i y)) = enc_i (x - y)" "enc_i (- dec_i (enc_i x)) = enc_i (- x)"
proof -
  let ?x = "dec_i (enc_i x)" and ?y = "dec_i (enc_i y)"
  note eq = shift_dec_i [of x] shift_dec_i [of y]
  show "enc_i (?x + ?y) = enc_i (x + y)" by (rule enc_i_cong) (simp only: distrib_left eq)
  show "enc_i (?x - ?y) = enc_i (x - y)" by (rule enc_i_cong) (simp only: right_diff_distrib eq)
  show "enc_i (- ?x) = enc_i (- x)" by (rule enc_i_cong) (simp only: mult_minus_right eq)
  have "16 * (?x * ?y) = 16 * ?x * ?y" "16 * x * ?y = x * (16 * ?y)" "16 * (x * y) = x * (16 * y)" by (simp_all only: ac_simps)
  then show "enc_i (?x * ?y) = enc_i (x * y)" by (intro enc_i_cong) (simp only: eq)
qed

lemma fixnum_ops:
  "add2 F h (enc_i x) (enc_i y) = Some (enc_i (x + y), h)"
  "mul2 F h (enc_i x) (enc_i y) = Some (enc_i (x * y), h)"
  "sub2 F h (enc_i x) (enc_i y) = Some (enc_i (x - y), h)"
  "negate F h (enc_i x) = Some (enc_i (- x), h)"
  by (simp_all add: add2_def mul2_def sub2_def negate_def t_min_def t_max_def as_i_def is_number_def enc_i_ring Let_def)

lemma fold_args_fixnums:
  assumes "\<And>x y. f h (enc_i x) (enc_i y) = Some (enc_i (g x y), h)"
  shows "fold_args f h (args @ map enc_i xs @ rest) (enc_i a) (length args) (length xs) = Some (enc_i (foldl g a xs), h)"
proof (induction xs arbitrary: a args)
  case (Cons x xs)
  have "fold_args f h ((args @ [enc_i x]) @ map enc_i xs @ rest) (enc_i (g a x)) (length (args @ [enc_i x])) (length xs) =
      Some (enc_i (foldl g (g a x) xs), h)" by (rule Cons.IH)
  then show ?case by (simp add: assms nth_append)
qed simp

lemma exec_arith_fixnums:
  assumes "\<And>x y. f h (enc_i x) (enc_i y) = Some (enc_i (g x y), h)" and "length (x # xs) < 2 ^ 32"
  shows "exec_arith f h (map enc_i (x # xs) @ rest) (of_nat (length (x # xs))) = Some (enc_i (foldl g x xs), h)"
proof -
  have "unat (of_nat (length (x # xs)) :: u32) = length (x # xs)" using assms(2) by (intro unat_u32_of_nat) simp
  then show ?thesis
    using fold_args_fixnums [where f = f and args = "[enc_i x]" and a = x and xs = xs and rest = rest, OF assms(1)]
    by (simp add: exec_arith_def)
qed

lemma foldl_ring: "foldl (+) a xs = a + sum_list xs" "foldl (*) a xs = a * prod_list xs" "foldl (-) a xs = a - sum_list xs"
  for a :: "'a :: comm_ring_1"
  by (induction xs arbitrary: a) (simp_all add: algebra_simps)

text \<open>
  C24: on unboxed integers \<open>+\<close>, \<open>*\<close> and \<open>-\<close> with any number of arguments are the operations of the
  integers modulo \<open>2^28\<close>, to which \<open>enc_i\<close> reduces its argument; they allocate nothing.
\<close>

theorem fixnum_arithmetic:
  assumes "length (x # xs) < 2 ^ 32"
  shows "fundamental_exec F rt (map enc_i (x # xs) @ rest) (of_nat (length (x # xs))) (enc_sym SYM_ADD) =
      Some (enc_i (x + sum_list xs), rt) \<and>
    fundamental_exec F rt (map enc_i (x # xs) @ rest) (of_nat (length (x # xs))) (enc_sym SYM_MUL) =
      Some (enc_i (x * prod_list xs), rt) \<and>
    fundamental_exec F rt (map enc_i (x # xs) @ rest) (of_nat (length (x # xs))) (enc_sym SYM_SUB) =
      Some (enc_i (if xs = [] then - x else x - sum_list xs), rt)"
proof -
  have n: "(of_nat (length (x # xs)) :: u32) = 1 \<longleftrightarrow> xs = []"
    using assms unat_u32_of_nat [of "length (x # xs)"] by (metis One_nat_def Suc_inject length_0_conv list.size(4) add.right_neutral add_Suc_right unat_1 of_nat_1)
  show ?thesis
    using exec_arith_fixnums [where f = "add2 F" and g = "(+)" and h = "rt_heap rt", OF fixnum_ops(1) assms] exec_arith_fixnums [where f = "mul2 F" and g = "(*)" and h = "rt_heap rt", OF fixnum_ops(2) assms]
      exec_arith_fixnums [where f = "sub2 F" and g = "(-)" and h = "rt_heap rt", OF fixnum_ops(3) assms] n fixnum_ops(4)
    by (simp add: fundamental_dispatch with_heap_def exec_sub_def foldl_ring)
qed

text \<open>The number that an integer value of one of the four types stands for, and the value of a type for a number.\<close>

definition integer_value :: "heap_state \<Rightarrow> VALUE \<Rightarrow> UINT option" where
  "integer_value h v =
     (if type_of v = VAL_TYPE_I then Some (dec_i v)
      else if type_of v = VAL_TYPE_U then Some (dec_u v)
      else if type_of v = PTR_TYPE_BOXED_I \<or> type_of v = PTR_TYPE_BOXED_U then car h v
      else None)"

definition integer_of_type :: "LTYPE \<Rightarrow> heap_state \<Rightarrow> UINT \<Rightarrow> (VALUE \<times> heap_state) option" where
  "integer_of_type t h x =
     (if t = VAL_TYPE_I then Some (enc_i x, h)
      else if t = VAL_TYPE_U then Some (enc_u x, h)
      else if t = PTR_TYPE_BOXED_I then enc_I h x
      else enc_U h x)"

lemma integer_value_type:
  "integer_value h v = Some x \<Longrightarrow> type_of v = VAL_TYPE_I \<or> type_of v = VAL_TYPE_U \<or> type_of v = PTR_TYPE_BOXED_I \<or> type_of v = PTR_TYPE_BOXED_U"
  by (auto simp: integer_value_def split: if_splits)

lemma integer_value_as: "integer_value h v = Some x \<Longrightarrow> as_u F h v = Some x \<and> as_i F h v = Some x"
  by (auto simp: integer_value_def as_u_def as_i_def Let_def split: if_splits)

lemma exec_sub_two: "exec_sub F h (a # b # rest) 2 = sub2 F h a b"
  by (cases "sub2 F h a b") (auto simp: exec_sub_def exec_arith_def)

lemma sub2_mixed:
  assumes "type_of a < type_of b" and "integer_value h a = Some x" and "integer_value h b = Some y"
  shows "sub2 F h a b = integer_of_type (type_of b) h (y - x)" "sub2 F h b a = integer_of_type (type_of b) h (y - x)"
proof -
  have "t_min a b = a" "t_max a b = b" "t_min b a = a" "t_max b a = b" using assms(1) by (auto simp: t_min_def t_max_def)
  moreover have "type_of a > VAL_TYPE_CHAR" using integer_value_type [OF assms(2)] by auto
  moreover note integer_value_as [OF assms(2), of F]
  ultimately show "sub2 F h a b = integer_of_type (type_of b) h (y - x)" "sub2 F h b a = integer_of_type (type_of b) h (y - x)"
    using integer_value_type [OF assms(3)] assms(3)
    by (auto simp: sub2_def integer_of_type_def integer_value_def dec_U_def dec_I_def)
qed

text \<open>
  C25: the difference of two integers of different types, unboxed or boxed, signed or unsigned, does not depend on the order of the
  operands: \<open>sub2\<close> subtracts the operand of the smaller type from that of the larger type, and gives the larger type to the result.
\<close>

theorem sub_mixed_symmetric:
  assumes "type_of a < type_of b" and "integer_value (rt_heap rt) a = Some x" and "integer_value (rt_heap rt) b = Some y"
  shows "fundamental_exec F rt (a # b # rest) 2 (enc_sym SYM_SUB) = with_heap rt (integer_of_type (type_of b) (rt_heap rt) (y - x)) \<and>
    fundamental_exec F rt (b # a # rest) 2 (enc_sym SYM_SUB) = with_heap rt (integer_of_type (type_of b) (rt_heap rt) (y - x))"
  using sub2_mixed [OF assms, of F] by (simp add: fundamental_dispatch exec_sub_two)

subsection \<open>Symbol indirections\<close>

lemma bit_enc_symbol_indirection:
  "bit (enc_symbol_indirection x) n \<longleftrightarrow> (3 \<le> n \<and> n < 32 \<and> bit x (n - 3)) \<or> n = 28 \<or> n = 30 \<or> n = 0"
  unfolding enc_symbol_indirection_def word_bits by auto

lemma dec_enc_symbol_indirection: "dec_symbol_indirection (enc_symbol_indirection x) = take_bit 23 x"
proof (rule bit_word_eqI)
  fix n
  show "bit (dec_symbol_indirection (enc_symbol_indirection x)) n \<longleftrightarrow> bit (take_bit 23 x) n"
    unfolding dec_symbol_indirection_def bit_drop_bit_eq bit_and_iff mask_bits bit_enc_symbol_indirection comp_def bit_take_bit_iff
    by (auto simp: add.commute)
qed

lemma small_bits: "unat (x :: u32) < 2 ^ n \<longleftrightarrow> take_bit n x = x"
  by (metis take_bit_nat_eq_self_iff unsigned_take_bit_eq word_unat_eq_iff)

lemma type_of_enc_symbol_indirection:
  assumes "unat x < 2 ^ 25"
  shows "type_of (enc_symbol_indirection x) = PTR_TYPE_SYMBOL_INDIRECTION \<longleftrightarrow> unat x < 2 ^ 23"
proof -
  let ?v = "enc_symbol_indirection x"
  have ty: "bit (type_of ?v) n \<longleftrightarrow> 26 \<le> n \<and> bit ?v n" if "n < 32" for n
    using that bit_enc_symbol_indirection [of x 0] unfolding bit_type_of by auto
  have hi: "\<not> bit x k" if "25 \<le> k" for k
    using assms that unfolding small_bits by (metis bit_take_bit_iff not_le)
  have "type_of ?v = PTR_TYPE_SYMBOL_INDIRECTION \<longleftrightarrow> (\<forall>n < 32. bit (type_of ?v) n \<longleftrightarrow> bit PTR_TYPE_SYMBOL_INDIRECTION n)"
    by (auto intro: bit_word_eqI)
  also have "\<dots> \<longleftrightarrow> (\<forall>n < 32. 26 \<le> n \<longrightarrow> \<not> bit x (n - 3))"
  proof (intro all_cong1 imp_cong refl)
    fix n :: nat
    assume n: "n < 32"
    have "n = 28 \<or> n = 30 \<Longrightarrow> \<not> bit x (n - 3)" using hi [of "n - 3"] by auto
    then show "(bit (type_of ?v) n \<longleftrightarrow> bit PTR_TYPE_SYMBOL_INDIRECTION n) \<longleftrightarrow> (26 \<le> n \<longrightarrow> \<not> bit x (n - 3))"
      unfolding ty [OF n] bit_SYMBOL_INDIRECTION bit_enc_symbol_indirection using n by auto
  qed
  also have "\<dots> \<longleftrightarrow> take_bit 23 x = x"
  proof
    assume no: "\<forall>n < 32. 26 \<le> n \<longrightarrow> \<not> bit x (n - 3)"
    have "\<not> bit x k" if "23 \<le> k" for k using no [rule_format, of "k + 3"] hi [of k] that by (cases "k < 25") auto
    then show "take_bit 23 x = x" by (intro bit_word_eqI) (metis bit_take_bit_iff not_le)
  next
    assume "take_bit 23 x = x"
    then have "\<not> bit x k" if "23 \<le> k" for k using that by (metis bit_take_bit_iff not_le)
    then show "\<forall>n < 32. 26 \<le> n \<longrightarrow> \<not> bit x (n - 3)" by auto
  qed
  finally show ?thesis unfolding small_bits .
qed

text \<open>
  C40: \<open>mk-sym-indirect\<close> accepts every number below \<open>2^25\<close>, but a symbol indirection has 23 bits for it. For every number
  it accepts, the result is a symbol indirection exactly when the number is below \<open>2^23\<close>, and from there on, where the number spills
  into the type field, it decodes to another number, the lower 23 bits. Numbers from \<open>2^25\<close> on are refused.
\<close>

theorem symbol_indirection_overflow:
  assumes "unat n < 2 ^ 28"
  shows "if unat n < 2 ^ 25 then
      \<exists>v. fundamental_exec F rt (enc_u n # rest) 1 (enc_sym SYM_MK_SYMBOL_INDIRECT) = Some (v, rt) \<and>
        (type_of v = PTR_TYPE_SYMBOL_INDIRECTION \<longleftrightarrow> unat n < 2 ^ 23) \<and>
        dec_symbol_indirection v = take_bit 23 n \<and> (dec_symbol_indirection v = n \<longleftrightarrow> unat n < 2 ^ 23)
    else fundamental_exec F rt (enc_u n # rest) 1 (enc_sym SYM_MK_SYMBOL_INDIRECT) = Some (enc_sym DEF_REPR_EERROR, rt)"
proof -
  have "dec_u (enc_u n) = n" using assms small_bits [of n 28] by (simp add: dec_u_enc_u)
  moreover have "n < 33554432 \<longleftrightarrow> unat n < 2 ^ 25" by (simp add: word_less_nat_alt)
  ultimately have "fundamental_exec F rt (enc_u n # rest) 1 (enc_sym SYM_MK_SYMBOL_INDIRECT) =
      Some (if unat n < 2 ^ 25 then enc_symbol_indirection n else enc_sym DEF_REPR_EERROR, rt)"
    by (simp add: fundamental_exec_def dec_sym_enc_sym Let_def with_value_def exec_mk_symbol_indirect_def)
  then show ?thesis
    using type_of_enc_symbol_indirection [of n] dec_enc_symbol_indirection [of n] small_bits [of n 23] by simp
qed

theorem symbol_indirection_overflow_witness:
  "\<forall>F rt. \<exists>v. fundamental_exec F rt [enc_u 0x800007] 1 (enc_sym SYM_MK_SYMBOL_INDIRECT) = Some (v, rt) \<and>
     type_of v \<noteq> PTR_TYPE_SYMBOL_INDIRECTION \<and> dec_symbol_indirection v = 7"
proof (intro allI)
  fix F rt
  show "\<exists>v. fundamental_exec F rt [enc_u 0x800007] 1 (enc_sym SYM_MK_SYMBOL_INDIRECT) = Some (v, rt) \<and>
     type_of v \<noteq> PTR_TYPE_SYMBOL_INDIRECTION \<and> dec_symbol_indirection v = 7"
    using symbol_indirection_overflow [where n = "0x800007" and F = F and rt = rt and rest = "[]"] by auto
qed

subsection \<open>Structural equality\<close>

text \<open>Leaves that are values themselves: symbols, unboxed integers and characters.\<close>

definition plain_leaf :: "VALUE \<Rightarrow> bool" where
  "plain_leaf v \<longleftrightarrow> (\<exists>x. v = enc_sym x \<or> v = enc_i x \<or> v = enc_u x) \<or> (\<exists>c. v = enc_char c)"

primrec plain :: "sexp \<Rightarrow> bool" where
  "plain (Atom v) \<longleftrightarrow> plain_leaf v"
| "plain (Cell a d) \<longleftrightarrow> plain a \<and> plain d"

lemma type_of_cases: "type_of v = (if is_ptr v then ptr_type v else val_type v)"
  by (simp add: type_of_def is_ptr_def ptr_type_def val_type_def)

lemma plain_leaf_ptr: "plain_leaf v \<Longrightarrow> \<not> is_ptr v \<and> val_type v = type_of v"
  by (auto simp: plain_leaf_def type_of_cases enc_bits)

lemma enc_dec_plain: "enc_sym (dec_sym (enc_sym x)) = enc_sym x" "enc_i (dec_i (enc_i x)) = enc_i x" "enc_u (dec_u (enc_u x)) = enc_u x"
  by (rule bit_word_eqI, auto simp: enc_bits)
    (rule enc_i_cong, rule shift_dec_i, rule bit_word_eqI, auto simp: enc_bits)

lemma struct_eq_leaf:
  assumes a: "plain_leaf a" and b: "plain_leaf b"
  shows "struct_eq F h m a b = Some (a = b)"
proof -
  have 1: "struct_eq F h m a b = (if type_of a = type_of b then
      if type_of a = VAL_TYPE_SYMBOL then Some (dec_sym a = dec_sym b)
      else if type_of a = VAL_TYPE_I then Some (dec_i a = dec_i b)
      else if type_of a = VAL_TYPE_U then Some (dec_u a = dec_u b)
      else if type_of a = VAL_TYPE_CHAR then Some (dec_char a = dec_char b)
      else Some False else Some False)"
    using plain_leaf_ptr [OF a] plain_leaf_ptr [OF b] by (subst struct_eq.simps) simp
  from a b show ?thesis
    unfolding plain_leaf_def 1 by (auto simp: dec_char_enc_char) (metis enc_dec_plain)+
qed

lemma struct_eq_shape:
  "shape h a t \<Longrightarrow> shape h b u \<Longrightarrow> plain t \<Longrightarrow> plain u \<Longrightarrow> struct_eq F h m a b = Some (t = u)"
proof (induction t arbitrary: a b u)
  case (Atom v)
  show ?case
  proof (cases u)
    case (Atom w)
    then show ?thesis using Atom.prems struct_eq_leaf [of a b F h m] by auto
  next
    case (Cell x y)
    then have "is_ptr b" "\<not> is_ptr a" using Atom.prems plain_leaf_ptr [of a] by (auto simp: live_def)
    then show ?thesis using Cell by (subst struct_eq.simps) simp
  qed
next
  case (Cell t1 t2)
  obtain x y where a: "is_ptr a" "type_of a = PTR_TYPE_CONS" "car h a = Some x" "cdr h a = Some y" "shape h x t1" "shape h y t2"
    using Cell.prems(1) by (auto simp: live_def)
  show ?case
  proof (cases u)
    case (Atom w)
    then have "\<not> is_ptr b" using Cell.prems plain_leaf_ptr [of b] by auto
    then show ?thesis using a Atom by (subst struct_eq.simps) simp
  next
    case (Cell u1 u2)
    then obtain x' y' where b: "is_ptr b" "type_of b = PTR_TYPE_CONS" "car h b = Some x'" "cdr h b = Some y'" "shape h x' u1" "shape h y' u2"
      using Cell.prems(2) by (auto simp: live_def)
    have "ptr_type a = PTR_TYPE_CONS" "ptr_type b = PTR_TYPE_CONS" using a(1,2) b(1,2) by (simp_all add: type_of_cases)
    then show ?thesis
      using a b Cell Cell.prems Cell.IH(1) [of x x' u1] Cell.IH(2) [of y y' u2] by (subst struct_eq.simps) simp
  qed
qed

lemma eq_args_shape:
  assumes "shape h a t" and "plain t"
  shows "list_all2 (shape h) bs us \<Longrightarrow> list_all plain us \<Longrightarrow>
    eq_args F h m (args @ bs @ rest) a r (length args) (length bs) = Some (r \<and> (\<forall>u \<in> set us. u = t))"
proof (induction bs arbitrary: us r args)
  case (Cons b bs)
  then obtain u us' where us: "us = u # us'" "shape h b u" "list_all2 (shape h) bs us'" "plain u" "list_all plain us'"
    by (auto simp: list_all2_Cons1)
  have "eq_args F h m ((args @ [b]) @ bs @ rest) a r' (length (args @ [b])) (length bs) = Some (r' \<and> (\<forall>u \<in> set us'. u = t))" for r'
    by (rule Cons.IH [OF us(3,5)])
  then show ?case using struct_eq_shape [OF assms(1) us(2) assms(2) us(4)] us(1) by (auto simp: nth_append)
qed simp

text \<open>
  C23: \<open>=\<close> compares trees. For arguments that denote trees of symbols, unboxed integers and characters
  it returns, and the result is \<open>t\<close> if all arguments denote the same tree and \<open>nil\<close> otherwise.
\<close>

theorem eq_correct:
  assumes "list_all2 (shape (rt_heap rt)) (a # bs) (t # us)" and "list_all plain (t # us)" and "length (a # bs) < 2 ^ 32"
  shows "fundamental_exec F rt (a # bs @ rest) (of_nat (length (a # bs))) (enc_sym SYM_EQ) =
    Some (enc_sym (if \<forall>u \<in> set us. u = t then DEF_REPR_TRUE else DEF_REPR_NIL), rt)"
proof -
  have "unat (of_nat (length (a # bs)) :: u32) = length (a # bs)" using assms(3) by (intro unat_u32_of_nat) simp
  then show ?thesis
    using assms eq_args_shape [of "rt_heap rt" a t bs us F "rt_mem rt" "[a]" rest True]
    by (simp add: fundamental_dispatch with_value_def exec_eq_def)
qed

subsection \<open>Witnesses\<close>

definition demo_rt :: "memory_state \<Rightarrow> sym_state \<Rightarrow> runtime" where
  "demo_rt m ss = \<lparr>rt_heap = demo_heap, rt_mem = m, rt_sym = ss\<rparr>"

lemma demo_rt_heap [simp]: "rt_heap (demo_rt m ss) = demo_heap"
  by (simp add: demo_rt_def)

theorem sub_mixed_symmetric_witness:
  "\<forall>F m ss. fundamental_exec F (demo_rt m ss) [enc_i 3, enc_u 5] 2 (enc_sym SYM_SUB) = Some (enc_u 2, demo_rt m ss) \<and>
     fundamental_exec F (demo_rt m ss) [enc_u 5, enc_i 3] 2 (enc_sym SYM_SUB) = Some (enc_u 2, demo_rt m ss)"
proof (intro allI)
  fix F m ss
  have v: "integer_value (rt_heap (demo_rt m ss)) (enc_i 3) = Some 3" "integer_value (rt_heap (demo_rt m ss)) (enc_u 5) = Some 5"
    by (simp_all add: integer_value_def) (simp_all add: enc_i_def dec_i_def enc_u_def dec_u_def)
  show "fundamental_exec F (demo_rt m ss) [enc_i 3, enc_u 5] 2 (enc_sym SYM_SUB) = Some (enc_u 2, demo_rt m ss) \<and>
     fundamental_exec F (demo_rt m ss) [enc_u 5, enc_i 3] 2 (enc_sym SYM_SUB) = Some (enc_u 2, demo_rt m ss)"
    using sub_mixed_symmetric [OF _ v, of F "[]"] by (simp add: integer_of_type_def with_heap_def demo_rt_def)
qed

theorem append_correct_witness:
  "\<forall>F m ss. \<exists>r h'. fundamental_exec F (demo_rt m ss) [enc_cons_ptr 1, enc_cons_ptr 1] 2 (enc_sym SYM_APPEND) =
       Some (r, (demo_rt m ss)\<lparr>rt_heap := h'\<rparr>) \<and>
     lisp_list h' r ([enc_i 1, enc_i 2] @ [enc_i 1, enc_i 2])"
proof (intro allI)
  fix F m ss
  show "\<exists>r h'. fundamental_exec F (demo_rt m ss) [enc_cons_ptr 1, enc_cons_ptr 1] 2 (enc_sym SYM_APPEND) =
       Some (r, (demo_rt m ss)\<lparr>rt_heap := h'\<rparr>) \<and> lisp_list h' r ([enc_i 1, enc_i 2] @ [enc_i 1, enc_i 2])"
    using append_correct [of "demo_rt m ss" "enc_cons_ptr 1" "[enc_i 1, enc_i 2]" "enc_cons_ptr 1" "[enc_i 1, enc_i 2]" F "[]"]
      demo_heap_wf demo_heap_free demo_heap_list by (fastforce simp del: list_at.simps)
qed

theorem list_correct_witness:
  "\<forall>F m ss. \<exists>r h'. fundamental_exec F (demo_rt m ss) [enc_i 4, enc_i 5] 2 (enc_sym SYM_LIST) = Some (r, (demo_rt m ss)\<lparr>rt_heap := h'\<rparr>) \<and>
     lisp_list h' r [enc_i 4, enc_i 5]"
proof (intro allI)
  fix F m ss
  show "\<exists>r h'. fundamental_exec F (demo_rt m ss) [enc_i 4, enc_i 5] 2 (enc_sym SYM_LIST) = Some (r, (demo_rt m ss)\<lparr>rt_heap := h'\<rparr>) \<and>
     lisp_list h' r [enc_i 4, enc_i 5]"
    using list_correct [of "demo_rt m ss" "[enc_i 4, enc_i 5]" F "[]"] demo_heap_wf demo_heap_free
    by (fastforce simp del: list_at.simps)
qed

theorem fixnum_arithmetic_witness:
  "\<forall>F rt. fundamental_exec F rt [enc_i 4, enc_i 5, enc_i 6] 3 (enc_sym SYM_ADD) = Some (enc_i 15, rt) \<and>
     fundamental_exec F rt [enc_i 4, enc_i 5, enc_i 6] 3 (enc_sym SYM_MUL) = Some (enc_i 120, rt) \<and>
     fundamental_exec F rt [enc_i 4, enc_i 5, enc_i 6] 3 (enc_sym SYM_SUB) = Some (enc_i (- 7), rt)"
proof (intro allI)
  fix F rt
  show "fundamental_exec F rt [enc_i 4, enc_i 5, enc_i 6] 3 (enc_sym SYM_ADD) = Some (enc_i 15, rt) \<and>
     fundamental_exec F rt [enc_i 4, enc_i 5, enc_i 6] 3 (enc_sym SYM_MUL) = Some (enc_i 120, rt) \<and>
     fundamental_exec F rt [enc_i 4, enc_i 5, enc_i 6] 3 (enc_sym SYM_SUB) = Some (enc_i (- 7), rt)"
    using fixnum_arithmetic [of 4 "[5, 6]" F rt "[]"] by simp
qed

theorem eq_correct_witness:
  "\<forall>F m ss. fundamental_exec F (demo_rt m ss) [enc_cons_ptr 1, enc_cons_ptr 1] 2 (enc_sym SYM_EQ) = Some (enc_sym DEF_REPR_TRUE, demo_rt m ss) \<and>
     fundamental_exec F (demo_rt m ss) [enc_cons_ptr 1, enc_cons_ptr 0] 2 (enc_sym SYM_EQ) = Some (NIL, demo_rt m ss)"
proof (intro allI)
  fix F m ss
  have "lisp_list demo_heap (enc_cons_ptr 0) [enc_i 2]" by code_simp
  then have 1: "shape demo_heap (enc_cons_ptr 0) (Cell (Atom (enc_i 2)) nil_tree)"
    "shape demo_heap (enc_cons_ptr 1) (Cell (Atom (enc_i 1)) (Cell (Atom (enc_i 2)) nil_tree))"
    using shape_list_tree [OF demo_heap_list] shape_list_tree [of demo_heap "enc_cons_ptr 0" "[enc_i 2]"]
    by (simp_all add: enc_bits del: shape.simps)
  have 2: "plain_leaf (enc_i x)" "plain_leaf NIL" for x by (auto simp: plain_leaf_def)
  have 3: "enc_i 1 \<noteq> enc_i 2" by (simp add: enc_i_def)
  show "fundamental_exec F (demo_rt m ss) [enc_cons_ptr 1, enc_cons_ptr 1] 2 (enc_sym SYM_EQ) = Some (enc_sym DEF_REPR_TRUE, demo_rt m ss) \<and>
     fundamental_exec F (demo_rt m ss) [enc_cons_ptr 1, enc_cons_ptr 0] 2 (enc_sym SYM_EQ) = Some (NIL, demo_rt m ss)"
    using 1 2 3
      eq_correct [of "demo_rt m ss" "enc_cons_ptr 1" "[enc_cons_ptr 1]" "Cell (Atom (enc_i 1)) (Cell (Atom (enc_i 2)) nil_tree)"
        "[Cell (Atom (enc_i 1)) (Cell (Atom (enc_i 2)) nil_tree)]" F "[]"]
      eq_correct [of "demo_rt m ss" "enc_cons_ptr 1" "[enc_cons_ptr 0]" "Cell (Atom (enc_i 1)) (Cell (Atom (enc_i 2)) nil_tree)"
        "[Cell (Atom (enc_i 2)) nil_tree]" F "[]"]
    by (simp del: shape.simps)
qed

end
