(* ===== verification/Symrepr_Correct.thy ===== *)
theory Symrepr_Correct
  imports Symrepr Arrays
begin

text \<open>
  The symbol table of \<open>src/symrepr.c\<close> as a list of names with their identifiers: what the nodes and
  strings in the word memory represent, and what adding and looking up a symbol does to that list.
\<close>

subsection \<open>Bytes of the memory\<close>

definition byte_of :: "u32 \<Rightarrow> nat \<Rightarrow> 8 word" where
  "byte_of w k = ucast (drop_bit (8 * k) w)"

definition set_byte :: "u32 \<Rightarrow> nat \<Rightarrow> 8 word \<Rightarrow> u32" where
  "set_byte w k c = (w AND NOT (push_bit (8 * k) 0xFF)) OR push_bit (8 * k) (ucast c)"

lemma byte_of_set_byte:
  assumes "k < 4" and "l < 4"
  shows "byte_of (set_byte w k c) l = (if l = k then c else byte_of w l)"
proof (rule bit_word_eqI)
  fix n
  assume n: "n < LENGTH(8)"
  have ff: "bit (0xFF :: int) i \<longleftrightarrow> i < 8" for i
    using bit_mask_iff [of 8 i, where ?'a = int] by (simp add: mask_eq_exp_minus_1)
  have b: "bit (byte_of v l) n \<longleftrightarrow> bit v (8 * l + n)" for v
    using n by (simp add: byte_of_def bit_simps)
  have "8 * k \<le> 8 * l + n \<and> 8 * l + n - 8 * k < 8 \<longleftrightarrow> l = k" using n by auto
  then show "bit (byte_of (set_byte w k c) l) n \<longleftrightarrow> bit (if l = k then c else byte_of w l) n"
    using n assms unfolding b by (auto simp: set_byte_def bit_simps ff b dest: bit_imp_le_length)
qed

lemma byte_address:
  assumes "memory_wf m" and "j < 4 * segs_len (memory_segs m)"
  shows "unat (ms_base m + of_nat j - ms_base m) = j"
proof -
  have "4 * segs_len (memory_segs m) \<le> 2 ^ 32"
    using assms(1) by (elim memory_wfE) simp
  then show ?thesis using assms(2) by (simp add: unat_u32_of_nat)
qed

lemma mem_byte:
  assumes "memory_wf m" and "j < 4 * segs_len (memory_segs m)" and "ms_memory m = Some ws"
  shows "mem_read_byte m (ms_base m + of_nat j) = Some (byte_of (ws ! (j div 4)) (j mod 4))"
    and "mem_write_byte m (ms_base m + of_nat j) c =
      Some (m\<lparr>ms_memory := Some (ws[j div 4 := set_byte (ws ! (j div 4)) (j mod 4) c])\<rparr>)"
proof -
  have "length ws = segs_len (memory_segs m)" using length_memory [OF assms(1)] assms(3) by auto
  then have "j div 4 < length ws" using assms(2) by linarith
  then show "mem_read_byte m (ms_base m + of_nat j) = Some (byte_of (ws ! (j div 4)) (j mod 4))"
    and "mem_write_byte m (ms_base m + of_nat j) c =
      Some (m\<lparr>ms_memory := Some (ws[j div 4 := set_byte (ws ! (j div 4)) (j mod 4) c])\<rparr>)"
    using assms(3) byte_address [OF assms(1,2)]
    by (simp_all add: mem_read_byte_def mem_write_byte_def mem_ix_def byte_of_def set_byte_def Let_def)
qed

text \<open>The memory as a row of words and as a row of bytes.\<close>

definition words :: "memory_state \<Rightarrow> u32 list" where
  "words m = (case ms_memory m of None \<Rightarrow> [] | Some ws \<Rightarrow> ws)"

definition bytes :: "memory_state \<Rightarrow> nat \<Rightarrow> 8 word" where
  "bytes m j = byte_of (words m ! (j div 4)) (j mod 4)"

lemma words_wf: "memory_wf m \<Longrightarrow> ms_memory m = Some (words m) \<and> length (words m) = segs_len (memory_segs m)"
  using length_memory [of m] by (auto simp: words_def)

lemma mem_read_words: "memory_wf m \<Longrightarrow> p < length (words m) \<Longrightarrow> mem_read m (mem_addr m p) = Some (words m ! p)"
  using words_wf [of m] mem_ix_mem_addr [of m p] mem_addr_aligned [of m p] by (simp add: mem_read_def)

lemma mem_read_bytes: "memory_wf m \<Longrightarrow> j < 4 * length (words m) \<Longrightarrow> mem_read_byte m (ms_base m + of_nat j) = Some (bytes m j)"
  using words_wf [of m] mem_byte(1) [of m j "words m"] by (simp add: bytes_def)

lemma memory_wf_words:
  assumes "memory_wf m" and "length ws = length (words m)"
  shows "memory_wf (m\<lparr>ms_memory := Some ws\<rparr>)" and "memory_segs (m\<lparr>ms_memory := Some ws\<rparr>) = memory_segs m"
    and "words (m\<lparr>ms_memory := Some ws\<rparr>) = ws"
proof -
  have "ms_memory m = Some (words m)" using words_wf [OF assms(1)] by simp
  then show "memory_wf (m\<lparr>ms_memory := Some ws\<rparr>)" using assms by (simp add: memory_wf_def split: option.splits)
qed (simp_all add: memory_segs_def words_def)

text \<open>\<open>m'\<close> is \<open>m\<close> with other contents outside of the words \<open>W\<close>.\<close>

definition keeps :: "memory_state \<Rightarrow> memory_state \<Rightarrow> nat set \<Rightarrow> bool" where
  "keeps m m' W \<longleftrightarrow> memory_wf m' \<and> ms_base m' = ms_base m \<and> length (words m') = length (words m) \<and>
     (\<forall>p \<in> W. words m' ! p = words m ! p)"

lemma keeps_trans: "keeps m m' W \<Longrightarrow> keeps m' m'' V \<Longrightarrow> keeps m m'' (W \<inter> V)"
  by (auto simp: keeps_def)

lemma keeps_addr: "keeps m m' W \<Longrightarrow> mem_addr m' = mem_addr m"
  by (simp add: keeps_def mem_addr_def fun_eq_iff)

lemma base_step: "ms_base m + of_nat j + 1 = ms_base m + of_nat (Suc j)"
  by simp

lemma write_bytes_keeps:
  "memory_wf m \<Longrightarrow> j + length bs \<le> 4 * length (words m) \<Longrightarrow>
     \<exists>m'. write_bytes m (ms_base m + of_nat j) bs = Some m' \<and> memory_segs m' = memory_segs m \<and>
       keeps m m' {p. 4 * p + 4 \<le> j \<or> j + length bs \<le> 4 * p} \<and>
       (\<forall>i. bytes m' i = (if j \<le> i \<and> i < j + length bs then bs ! (i - j) else bytes m i))"
proof (induction bs arbitrary: m j)
  case Nil
  then show ?case by (auto simp: keeps_def)
next
  case (Cons b bs)
  let ?ws = "(words m)[j div 4 := set_byte (words m ! (j div 4)) (j mod 4) b]"
  let ?m = "m\<lparr>ms_memory := Some ?ws\<rparr>"
  have lt: "j div 4 < length (words m)" using Cons.prems(2) by simp
  have m1: "memory_wf ?m" "memory_segs ?m = memory_segs m" "words ?m = ?ws" "ms_base ?m = ms_base m"
    using memory_wf_words [OF Cons.prems(1), of ?ws] by simp_all
  have w: "mem_write_byte m (ms_base m + of_nat j) b = Some ?m"
    using mem_byte(2) [of m j "words m" b] words_wf [OF Cons.prems(1)] Cons.prems by simp
  have "Suc j + length bs \<le> 4 * length (words ?m)" using Cons.prems(2) m1(3) by simp
  from Cons.IH [OF m1(1) this]
  obtain m' where m': "write_bytes ?m (ms_base m + of_nat (Suc j)) bs = Some m'" "memory_segs m' = memory_segs m"
      "keeps ?m m' {p. 4 * p + 4 \<le> Suc j \<or> Suc j + length bs \<le> 4 * p}"
      "\<forall>i. bytes m' i = (if Suc j \<le> i \<and> i < Suc j + length bs then bs ! (i - Suc j) else bytes ?m i)"
    using m1 by auto
  have byte: "bytes ?m i = (if i = j then b else bytes m i)" for i
  proof (cases "i div 4 = j div 4")
    case True
    then have "i mod 4 = j mod 4 \<longleftrightarrow> i = j" by (metis div_mult_mod_eq)
    then show ?thesis using lt True by (simp add: bytes_def m1(3) byte_of_set_byte)
  next
    case False
    then show ?thesis by (auto simp: bytes_def m1(3))
  qed
  have "keeps m ?m (- {j div 4})" using m1 by (simp add: keeps_def)
  from keeps_trans [OF this m'(3)] have "keeps m m' (- {j div 4} \<inter> {p. 4 * p + 4 \<le> Suc j \<or> Suc j + length bs \<le> 4 * p})" .
  moreover have "{p. 4 * p + 4 \<le> j \<or> j + length (b # bs) \<le> 4 * p} \<subseteq> - {j div 4} \<inter> {p. 4 * p + 4 \<le> Suc j \<or> Suc j + length bs \<le> 4 * p}"
    by auto
  ultimately have "keeps m m' {p. 4 * p + 4 \<le> j \<or> j + length (b # bs) \<le> 4 * p}" by (auto simp: keeps_def)
  moreover have "write_bytes m (ms_base m + of_nat j) (b # bs) = Some m'" using w m'(1) by (simp add: base_step del: of_nat_Suc)
  moreover have "bytes m' i = (if j \<le> i \<and> i < j + length (b # bs) then (b # bs) ! (i - j) else bytes m i)" for i
  proof -
    have "j \<le> i \<Longrightarrow> i \<noteq> j \<Longrightarrow> (b # bs) ! (i - j) = bs ! (i - Suc j)" by (simp add: nth_Cons')
    then show ?thesis using m'(4) byte by auto
  qed
  ultimately show ?case using m'(2) by blast
qed

subsection \<open>Strings\<close>

definition string_at :: "memory_state \<Rightarrow> nat \<Rightarrow> cstring \<Rightarrow> bool" where
  "string_at m j s \<longleftrightarrow> 0 \<notin> set s \<and> j + length s < 4 * length (words m) \<and> (\<forall>i \<le> length s. bytes m (j + i) = (s @ [0]) ! i)"

lemma string_at_byte: "string_at m j s \<Longrightarrow> i \<le> length s \<Longrightarrow> bytes m (j + i) = (s @ [0]) ! i"
  by (simp add: string_at_def)

lemma string_at_first: "string_at m j s \<Longrightarrow> j < 4 * length (words m) \<and> bytes m j = (case s of [] \<Rightarrow> 0 | c # cs \<Rightarrow> c)"
  using string_at_byte [of m j s 0] by (auto simp: string_at_def split: list.split)

lemma string_at_nonzero: "string_at m j (c # cs) \<Longrightarrow> c \<noteq> 0"
  by (simp add: string_at_def)

lemma string_at_rest:
  assumes "string_at m j (c # cs)"
  shows "string_at m (Suc j) cs"
proof -
  have "bytes m (Suc j + i) = (cs @ [0]) ! i" if "i \<le> length cs" for i
    using string_at_byte [OF assms, of "Suc i"] that by simp
  with assms show ?thesis by (simp add: string_at_def)
qed

lemma strcmp_string:
  "memory_wf m \<Longrightarrow> string_at m j s \<Longrightarrow> 0 \<notin> set name \<Longrightarrow> strcmp_mem m name (ms_base m + of_nat j) = Some (name = s)"
proof (induction name arbitrary: j s)
  case Nil
  then show ?case using string_at_first [of m j s] string_at_nonzero [of m j] by (cases s) (auto simp: mem_read_bytes)
next
  case (Cons c cs)
  then have r: "mem_read_byte m (ms_base m + of_nat j) = Some (case s of [] \<Rightarrow> 0 | c # cs \<Rightarrow> c)"
    using string_at_first [of m j s] by (simp add: mem_read_bytes)
  show ?case
  proof (cases s)
    case (Cons d ds)
    then show ?thesis
      using r Cons.prems Cons.IH [of "Suc j" ds] string_at_rest [of m j d ds] by (auto simp: base_step simp del: of_nat_Suc)
  qed (use r Cons.prems in auto)
qed

lemma read_string:
  "memory_wf m \<Longrightarrow> string_at m j s \<Longrightarrow> read_cstring_loop m (ms_base m + of_nat j) acc = Some (rev acc @ s)"
proof (induction s arbitrary: j acc)
  case Nil
  then show ?case using string_at_first [of m j "[]"] by (subst read_cstring_loop.simps) (simp add: mem_read_bytes)
next
  case (Cons c cs)
  then show ?case
    using string_at_first [of m j "c # cs"] string_at_rest [of m j c cs] Cons.IH [of "Suc j" "c # acc"]
      string_at_nonzero [of m j c cs]
    by (subst read_cstring_loop.simps) (simp add: mem_read_bytes base_step del: of_nat_Suc)
qed

subsection \<open>Memories that keep the blocks of another\<close>

text \<open>Every block of \<open>m\<close> is a block of \<open>m'\<close> with the same words.\<close>

definition extends :: "memory_state \<Rightarrow> memory_state \<Rightarrow> bool" where
  "extends m m' \<longleftrightarrow> memory_wf m' \<and> ms_base m' = ms_base m \<and> length (words m') = length (words m) \<and>
     (\<forall>p k. block_at (memory_segs m) p k \<longrightarrow>
        block_at (memory_segs m') p k \<and> (\<forall>i < k. words m' ! (p + i) = words m ! (p + i)))"

lemma extends_refl: "memory_wf m \<Longrightarrow> extends m m"
  by (simp add: extends_def)

lemma extends_trans: "extends m m' \<Longrightarrow> extends m' m'' \<Longrightarrow> extends m m''"
  by (simp add: extends_def) metis

lemma extends_addr: "extends m m' \<Longrightarrow> mem_addr m' = mem_addr m"
  by (simp add: extends_def mem_addr_def fun_eq_iff)

lemma extends_word: "extends m m' \<Longrightarrow> block_at (memory_segs m) p k \<Longrightarrow> i < k \<Longrightarrow> words m' ! (p + i) = words m ! (p + i)"
  by (simp add: extends_def)

lemma extends_string:
  assumes "extends m m'" and "block_at (memory_segs m) q (length s + 1)" and "string_at m (4 * q) s"
  shows "string_at m' (4 * q) s"
proof -
  have "bytes m' (4 * q + i) = bytes m (4 * q + i)" if "i \<le> length s" for i
  proof -
    have "i div 4 < length s + 1" using that by (intro le_less_trans [OF div_le_dividend]) simp
    from extends_word [OF assms(1,2) this] show ?thesis by (simp add: bytes_def)
  qed
  with assms show ?thesis by (simp add: string_at_def extends_def)
qed

lemma words_eq: "ms_memory m' = ms_memory m \<Longrightarrow> words m' = words m"
  by (simp add: words_def)

lemma allocate_extends:
  assumes "memory_wf m" and "0 < unat n"
  shows "\<exists>r m'. memory_allocate m n = Some (r, m') \<and> extends m m' \<and> words m' = words m \<and> (r = 0 \<longrightarrow> m' = m) \<and>
    (r \<noteq> 0 \<longrightarrow> (\<exists>q. r = mem_addr m q \<and> block_at (memory_segs m') q (unat n) \<and>
       (\<forall>p k. block_at (memory_segs m) p k \<longrightarrow> p + k \<le> q \<or> q + unat n \<le> p)))"
proof -
  obtain r m' where a: "memory_allocate m n = Some (r, m')" "memory_wf m'" "ms_memory m' = ms_memory m"
      "ms_base m' = ms_base m"
    using memory_allocate_refines [OF assms] by blast
  have e: "extends m m'"
    using a words_eq [OF a(3)] mem.alloc_keeps_blocks [OF assms a(1)] by (simp add: extends_def)
  have z: "r = 0 \<longrightarrow> m' = m" using mem.alloc_law [OF assms] a(1) by auto
  have "\<exists>q. r = mem_addr m q \<and> block_at (memory_segs m') q (unat n) \<and>
       (\<forall>p k. block_at (memory_segs m) p k \<longrightarrow> p + k \<le> q \<or> q + unat n \<le> p)" if nz: "r \<noteq> 0"
  proof -
    obtain A B where AB: "memory_segs m = A @ replicate (unat n) Free @ B" "memory_segs m' = A @ Block (unat n) # B"
        "r = mem_addr m (segs_len A)"
      using mem.alloc_law [OF assms] a(1) nz by auto
    then show ?thesis using block_at_free_run [of A "unat n" B] by (auto simp: block_at_def)
  qed
  with a e z words_eq [OF a(3)] show ?thesis by blast
qed

lemma write_keeps:
  assumes "memory_wf m" and "p < length (words m)"
  shows "\<exists>m'. mem_write m (mem_addr m p) v = Some m' \<and> memory_segs m' = memory_segs m \<and>
    keeps m m' (- {p}) \<and> words m' = (words m)[p := v]"
proof -
  have w: "ms_memory m = Some (words m)" "p < segs_len (memory_segs m)" using words_wf [OF assms(1)] assms(2) by auto
  let ?m = "m\<lparr>ms_memory := Some ((words m)[p := v])\<rparr>"
  have "mem_write m (mem_addr m p) v = Some ?m"
    using w assms(2) mem_ix_mem_addr [OF assms(1) w(2)] mem_addr_aligned [OF assms(1) w(2)]
    by (simp add: mem_write_def)
  with memory_wf_words [OF assms(1), of "(words m)[p := v]"] show ?thesis by (auto simp: keeps_def)
qed

text \<open>Writing into a block that is apart from all blocks of \<open>m\<close>.\<close>

lemma keeps_extends:
  assumes "extends m m1" and "keeps m1 m2 W" and "memory_segs m2 = memory_segs m1"
    and "\<And>p k i. block_at (memory_segs m) p k \<Longrightarrow> i < k \<Longrightarrow> p + i \<in> W"
  shows "extends m m2"
  using assms by (auto simp: extends_def keeps_def)

subsection \<open>The list of symbols\<close>

text \<open>
  The nodes from address \<open>cur\<close> on hold the names and identifiers \<open>es\<close>: each node is a block of three
  words, each name a block with one word for every byte of the string and its final zero.
\<close>

primrec symlist_at :: "memory_state \<Rightarrow> u32 \<Rightarrow> (cstring \<times> UINT) list \<Rightarrow> bool" where
  "symlist_at m cur [] \<longleftrightarrow> cur = 0"
| "symlist_at m cur (e # es) \<longleftrightarrow> cur \<noteq> 0 \<and>
     (\<exists>p q. cur = mem_addr m p \<and> block_at (memory_segs m) p 3 \<and> block_at (memory_segs m) q (length (fst e) + 1) \<and>
        words m ! p = mem_addr m q \<and> words m ! (p + 1) = snd e \<and> string_at m (4 * q) (fst e) \<and>
        symlist_at m (words m ! (p + 2)) es)"

lemma symlist_at_extends:
  "symlist_at m cur es \<Longrightarrow> extends m m' \<Longrightarrow> symlist_at m' cur es"
proof (induction es arbitrary: cur)
  case (Cons e es)
  then obtain p q where pq: "cur = mem_addr m p" "block_at (memory_segs m) p 3" "block_at (memory_segs m) q (length (fst e) + 1)"
      "words m ! p = mem_addr m q" "words m ! (p + 1) = snd e" "string_at m (4 * q) (fst e)"
      "symlist_at m (words m ! (p + 2)) es" "cur \<noteq> 0"
    by auto
  have w: "words m' ! (p + i) = words m ! (p + i)" if "i < 3" for i
    by (rule extends_word [OF Cons.prems(2) pq(2) that])
  have "block_at (memory_segs m') p 3" "block_at (memory_segs m') q (length (fst e) + 1)"
    using Cons.prems(2) pq(2,3) by (simp_all add: extends_def)
  moreover have "symlist_at m' (words m' ! (p + 2)) es" using Cons.IH [OF pq(7) Cons.prems(2)] w [of 2] by simp
  ultimately show ?case
    using pq w [of 0] w [of 1] extends_string [OF Cons.prems(2) pq(3,6)] extends_addr [OF Cons.prems(2)] by auto
qed simp

lemma node_fields:
  assumes "memory_wf m" and "block_at (memory_segs m) p 3"
  shows "mem_read m (mem_addr m p) = Some (words m ! p)"
    and "mem_read m (mem_addr m p + 4) = Some (words m ! (p + 1))"
    and "mem_read m (mem_addr m p + 8) = Some (words m ! (p + 2))"
proof -
  have "p + 3 \<le> length (words m)" using block_at_bound [OF assms(2)] words_wf [OF assms(1)] by simp
  moreover have "mem_addr m p + 8 = mem_addr m (p + 2)" by (simp add: mem_addr_def algebra_simps)
  ultimately show "mem_read m (mem_addr m p) = Some (words m ! p)"
    and "mem_read m (mem_addr m p + 4) = Some (words m ! (p + 1))"
    and "mem_read m (mem_addr m p + 8) = Some (words m ! (p + 2))"
    using mem_read_words [OF assms(1)] by (simp_all add: mem_addr_step)
qed

lemma mem_addr_byte: "mem_addr m q = ms_base m + of_nat (4 * q)"
  by (simp add: mem_addr_def)

lemma lookup_loop_entries:
  "memory_wf m \<Longrightarrow> symlist_at m cur es \<Longrightarrow> 0 \<notin> set name \<Longrightarrow> symrepr_lookup_loop m name cur = Some (map_of es name)"
proof (induction es arbitrary: cur)
  case (Cons e es)
  then obtain p q where pq: "cur = mem_addr m p" "block_at (memory_segs m) p 3"
      "words m ! p = mem_addr m q" "words m ! (p + 1) = snd e" "string_at m (4 * q) (fst e)"
      "symlist_at m (words m ! (p + 2)) es" "cur \<noteq> 0"
    by auto
  note f = node_fields [OF Cons.prems(1) pq(2)]
  have "strcmp_mem m name (mem_addr m q) = Some (name = fst e)"
    using strcmp_string [OF Cons.prems(1) pq(5) Cons.prems(3)] by (simp only: mem_addr_byte)
  then show ?case
    using f pq Cons.IH [OF Cons.prems(1) pq(6) Cons.prems(3)] by (subst symrepr_lookup_loop.simps) simp
qed (simp add: symrepr_lookup_loop.simps)

lemma mem_addr_nonzero:
  assumes "memory_wf m" and "q < length (words m)"
  shows "mem_addr m q \<noteq> 0"
proof -
  have "unat (mem_addr m q) = unat (ms_base m) + 4 * q" using unat_mem_addr [OF assms(1)] words_wf [OF assms(1)] assms(2) by simp
  moreover have "ms_base m \<noteq> 0" using assms(1) by (elim memory_wfE)
  ultimately show ?thesis by (auto simp: unat_eq_0)
qed

lemma lookup_name_entries:
  "memory_wf m \<Longrightarrow> symlist_at m cur es \<Longrightarrow>
     \<exists>a. lookup_name_loop m cur sid = Some a \<and>
       (case find (\<lambda>e. snd e = sid) es of None \<Rightarrow> a = 0 | Some e \<Rightarrow> a \<noteq> 0 \<and> read_cstring m a = Some (fst e))"
proof (induction es arbitrary: cur)
  case (Cons e es)
  then obtain p q where pq: "cur = mem_addr m p" "block_at (memory_segs m) p 3"
      "words m ! p = mem_addr m q" "words m ! (p + 1) = snd e" "string_at m (4 * q) (fst e)"
      "symlist_at m (words m ! (p + 2)) es" "cur \<noteq> 0"
    by auto
  note f = node_fields [OF Cons.prems(1) pq(2)]
  have "read_cstring m (mem_addr m q) = Some (fst e)"
    using read_string [OF Cons.prems(1) pq(5), of "[]"] by (simp add: mem_addr_byte read_cstring_def del: of_nat_mult)
  moreover have "mem_addr m q \<noteq> 0"
    using mem_addr_nonzero [OF Cons.prems(1)] string_at_first [OF pq(5)] by simp
  ultimately show ?case
    using f pq Cons.IH [OF Cons.prems(1) pq(6)] by (subst lookup_name_loop.simps) auto
qed (simp add: lookup_name_loop.simps)

subsection \<open>Adding a symbol\<close>

lemma keeps_string:
  assumes "keeps m m' W" and "{q ..< q + length s + 1} \<subseteq> W" and "string_at m (4 * q) s"
  shows "string_at m' (4 * q) s"
proof -
  have "bytes m' (4 * q + i) = bytes m (4 * q + i)" if "i \<le> length s" for i
  proof -
    have "i div 4 \<le> length s" using div_le_dividend [of i 4] that by (rule order_trans)
    then have "q + i div 4 \<in> W" using assms(2) by auto
    then show ?thesis using assms(1) by (simp add: bytes_def keeps_def)
  qed
  with assms show ?thesis by (simp add: string_at_def keeps_def)
qed

lemma strcpy_string:
  assumes "memory_wf m" and "q + length s + 1 \<le> length (words m)" and "0 \<notin> set s"
  shows "\<exists>m'. strcpy m (mem_addr m q) s = Some m' \<and> memory_segs m' = memory_segs m \<and>
    keeps m m' (- {q ..< q + length s + 1}) \<and> string_at m' (4 * q) s"
proof -
  obtain m' where m': "write_bytes m (ms_base m + of_nat (4 * q)) (s @ [0]) = Some m'" "memory_segs m' = memory_segs m"
      "keeps m m' {p. 4 * p + 4 \<le> 4 * q \<or> 4 * q + length (s @ [0]) \<le> 4 * p}"
      "\<forall>i. bytes m' i = (if 4 * q \<le> i \<and> i < 4 * q + length (s @ [0]) then (s @ [0]) ! (i - 4 * q) else bytes m i)"
    using write_bytes_keeps [OF assms(1), of "4 * q" "s @ [0]"] assms(2) by auto
  have "string_at m' (4 * q) s" using m'(3,4) assms(2,3) by (simp add: string_at_def keeps_def)
  moreover have "keeps m m' (- {q ..< q + length s + 1})" using m'(3) by (auto simp: keeps_def)
  ultimately show ?thesis using m'(1,2) by (auto simp: strcpy_def mem_addr_byte simp del: of_nat_mult)
qed

text \<open>The assignments to a new node at \<open>p\<close> whose name goes to \<open>q\<close>.\<close>

lemma fill_node:
  assumes "memory_wf m" and "block_at (memory_segs m) p 3" and "block_at (memory_segs m) q (length s + 1)"
    and "p + 3 \<le> q \<or> q + length s + 1 \<le> p" and "0 \<notin> set s"
  shows "\<exists>m'. do {
      m1 \<leftarrow> strcpy m (mem_addr m q) s;
      m2 \<leftarrow> mem_write m1 (mem_addr m p) (mem_addr m q);
      m3 \<leftarrow> mem_write m2 (mem_addr m p + 8) link;
      mem_write m3 (mem_addr m p + 4) sid
    } = Some m' \<and> memory_segs m' = memory_segs m \<and>
    keeps m m' (- ({p ..< p + 3} \<union> {q ..< q + length s + 1})) \<and> string_at m' (4 * q) s \<and>
    words m' ! p = mem_addr m q \<and> words m' ! (p + 1) = sid \<and> words m' ! (p + 2) = link"
proof -
  have b: "p + 3 \<le> length (words m)" "q + length s + 1 \<le> length (words m)"
    using block_at_bound [OF assms(2)] block_at_bound [OF assms(3)] words_wf [OF assms(1)] by simp_all
  have a: "mem_addr m p + 8 = mem_addr m (p + 2)" by (simp add: mem_addr_def algebra_simps)
  obtain m1 where m1: "strcpy m (mem_addr m q) s = Some m1" "memory_segs m1 = memory_segs m"
      "keeps m m1 (- {q ..< q + length s + 1})" "string_at m1 (4 * q) s"
    using strcpy_string [OF assms(1) b(2) assms(5)] by blast
  have wf1: "memory_wf m1" "length (words m1) = length (words m)" "mem_addr m1 = mem_addr m"
    using m1(3) keeps_addr [OF m1(3)] by (simp_all add: keeps_def)
  obtain m2 where m2: "mem_write m1 (mem_addr m p) (mem_addr m q) = Some m2" "memory_segs m2 = memory_segs m1"
      "keeps m1 m2 (- {p})" "words m2 = (words m1)[p := mem_addr m q]"
    using write_keeps [OF wf1(1), of p "mem_addr m q"] wf1 b by auto
  have wf2: "memory_wf m2" "mem_addr m2 = mem_addr m" using m2(3) keeps_addr [OF m2(3)] wf1 by (simp_all add: keeps_def)
  obtain m3 where m3: "mem_write m2 (mem_addr m (p + 2)) link = Some m3" "memory_segs m3 = memory_segs m2"
      "keeps m2 m3 (- {p + 2})" "words m3 = (words m2)[p + 2 := link]"
    using write_keeps [OF wf2(1), of "p + 2" link] wf1 wf2 m2(4) b by auto
  have wf3: "memory_wf m3" "mem_addr m3 = mem_addr m" using m3(3) keeps_addr [OF m3(3)] wf2 by (simp_all add: keeps_def)
  obtain m4 where m4: "mem_write m3 (mem_addr m (p + 1)) sid = Some m4" "memory_segs m4 = memory_segs m3"
      "keeps m3 m4 (- {p + 1})" "words m4 = (words m3)[p + 1 := sid]"
    using write_keeps [OF wf3(1), of "p + 1" sid] wf1 wf3 m2(4) m3(4) b by auto
  have w: "words m4 = (words m1)[p := mem_addr m q, p + 2 := link, p + 1 := sid]" using m2(4) m3(4) m4(4) by simp
  have k: "keeps m1 m4 (- {p ..< p + 3})"
    using keeps_trans [OF keeps_trans [OF m2(3) m3(3)] m4(3)] by (auto simp: keeps_def)
  have "{q ..< q + length s + 1} \<subseteq> - {p ..< p + 3}" using assms(4) by auto
  then have "string_at m4 (4 * q) s" by (rule keeps_string [OF k _ m1(4)])
  moreover have "keeps m m4 (- ({p ..< p + 3} \<union> {q ..< q + length s + 1}))"
    using keeps_trans [OF m1(3) k] by (simp add: Int_commute)
  moreover have "words m4 ! p = mem_addr m q \<and> words m4 ! (p + 1) = sid \<and> words m4 ! (p + 2) = link"
    using wf1(2) b by (simp add: w nth_list_update)
  ultimately show ?thesis using m1(1,2) m2(1,2) m3(1,2) m4(1,2) a by (auto simp: mem_addr_step)
qed

text \<open>
  What a call of \<open>symrepr_addsym\<close> leaves: nothing new and all blocks as before, or one more entry in
  front of the list, with the next identifier.
\<close>

definition added :: "sym_state \<Rightarrow> memory_state \<Rightarrow> cstring \<Rightarrow> UINT option \<Rightarrow> sym_state \<Rightarrow> memory_state \<Rightarrow> bool" where
  "added ss m name r ss' m' \<longleftrightarrow>
     (case r of
        None \<Rightarrow> ss' = ss \<and> memory_segs m' = memory_segs m \<and> extends m m'
      | Some sid \<Rightarrow> sid = MAX_SPECIAL_SYMBOLS + ss_next_symbol_id ss \<and> ss_next_symbol_id ss' = ss_next_symbol_id ss + 1 \<and>
          extends m m' \<and>
          (\<forall>es. symlist_at m (ss_symlist ss) es \<longrightarrow> symlist_at m' (ss_symlist ss') ((name, sid) # es)))"

lemma name_words:
  assumes "length name + 1 < 2 ^ 32"
  shows "unat (of_nat (length name) + 1 :: u32) = length name + 1"
    and "name \<noteq> [] \<Longrightarrow> of_nat (length name) + 1 \<noteq> (1 :: u32)"
proof -
  show n: "unat (of_nat (length name) + 1 :: u32) = length name + 1"
    using assms by (metis of_nat_1 of_nat_add unat_u32_of_nat)
  show "of_nat (length name) + 1 \<noteq> (1 :: u32)" if "name \<noteq> []"
    using n that by (metis add_right_cancel add_0 length_0_conv unsigned_1)
qed

lemma addsym_node:
  assumes "memory_wf m" and "0 \<notin> set name" and "name \<noteq> []" and "length name + 1 < 2 ^ 32"
    and "memory_allocate m 3 = Some (node, m1)" and "node \<noteq> 0"
    and "memory_allocate m1 (of_nat (length name) + 1) = Some (storage, m2)" and "storage \<noteq> 0"
  shows "\<exists>r ss' m'. symrepr_addsym ss m name = Some (r, ss', m') \<and> r \<noteq> None \<and> added ss m name r ss' m' \<and> memory_segs m' = memory_segs m2"
proof -
  note n = name_words(1) [OF assms(4)] and n1 = name_words(2) [OF assms(4,3)]
  obtain p where p: "extends m m1" "words m1 = words m" "node = mem_addr m p" "block_at (memory_segs m1) p 3"
      "\<forall>p' k. block_at (memory_segs m) p' k \<longrightarrow> p' + k \<le> p \<or> p + 3 \<le> p'"
    using allocate_extends [OF assms(1), of 3] assms(5,6) by auto
  have wf1: "memory_wf m1" using p(1) by (simp add: extends_def)
  obtain q where q: "extends m1 m2" "words m2 = words m1" "storage = mem_addr m1 q"
      "block_at (memory_segs m2) q (length name + 1)"
      "\<forall>p' k. block_at (memory_segs m1) p' k \<longrightarrow> p' + k \<le> q \<or> q + (length name + 1) \<le> p'"
    using allocate_extends [OF wf1, of "of_nat (length name) + 1"] assms(7,8) unfolding n by auto
  have ad: "mem_addr m1 = mem_addr m" "mem_addr m2 = mem_addr m"
    using extends_addr [OF p(1)] extends_addr [OF q(1)] by simp_all
  have m2: "memory_wf m2" "block_at (memory_segs m2) p 3" "p + 3 \<le> q \<or> q + length name + 1 \<le> p"
    using q p(4) by (auto simp: extends_def)
  let ?link = "if ss_symlist ss = 0 then 0 else ss_symlist ss" and ?sid = "MAX_SPECIAL_SYMBOLS + ss_next_symbol_id ss"
  obtain m' where m': "do {
      m1 \<leftarrow> strcpy m2 (mem_addr m2 q) name;
      m2 \<leftarrow> mem_write m1 (mem_addr m p) (mem_addr m2 q);
      m3 \<leftarrow> mem_write m2 (mem_addr m p + 8) ?link;
      mem_write m3 (mem_addr m p + 4) ?sid
    } = Some m'" "memory_segs m' = memory_segs m2"
    "keeps m2 m' (- ({p ..< p + 3} \<union> {q ..< q + length name + 1}))" "string_at m' (4 * q) name"
    "words m' ! p = mem_addr m q" "words m' ! (p + 1) = ?sid" "words m' ! (p + 2) = ?link"
    using fill_node [OF m2(1,2) q(4) m2(3) assms(2), of ?link ?sid] unfolding ad by blast
  have e: "extends m m'"
  proof (rule keeps_extends [OF extends_trans [OF p(1) q(1)] m'(3,2)])
    fix p' k i
    assume b: "block_at (memory_segs m) p' k" "i < k"
    then have "block_at (memory_segs m1) p' k" using p(1) by (simp add: extends_def)
    then show "p' + i \<in> - ({p ..< p + 3} \<union> {q ..< q + length name + 1})" using b p(5) q(5) by fastforce
  qed
  have ad': "mem_addr m' = mem_addr m" by (rule extends_addr [OF e])
  have "symlist_at m' node ((name, ?sid) # es)" if "symlist_at m (ss_symlist ss) es" for es
  proof -
    have "symlist_at m' ?link es" using symlist_at_extends [OF that e] by simp
    then show ?thesis
      using m'(2,4-7) m2(2) q(4) assms(6) p(3) ad' unfolding symlist_at.simps
      by (intro conjI exI [of _ p] exI [of _ q]) simp_all
  qed
  moreover have "symrepr_addsym ss m name =
      Some (Some ?sid, ss\<lparr>ss_symlist := node, ss_next_symbol_id := ss_next_symbol_id ss + 1\<rparr>, m')"
    using m'(1) assms(5-8) n1 p(3) q(3) ad by (auto simp: symrepr_addsym_def Let_def bind_eq_Some_conv)
  ultimately show ?thesis using e m'(2) by (auto simp: added_def)
qed

lemma addsym_added:
  assumes "memory_wf m" and "0 \<notin> set name" and "name \<noteq> []" and "length name + 1 < 2 ^ 32"
  shows "\<exists>r ss' m'. symrepr_addsym ss m name = Some (r, ss', m') \<and> added ss m name r ss' m'"
proof -
  note n = name_words(1) [OF assms(4)] and n1 = name_words(2) [OF assms(4,3)]
  obtain node m1 where m1: "memory_allocate m 3 = Some (node, m1)" "extends m m1" "node = 0 \<longrightarrow> m1 = m"
      "words m1 = words m"
    using allocate_extends [OF assms(1), of 3] by auto
  have wf1: "memory_wf m1" using m1(2) by (simp add: extends_def)
  obtain storage m2 where m2: "memory_allocate m1 (of_nat (length name) + 1) = Some (storage, m2)" "storage = 0 \<longrightarrow> m2 = m1"
    using allocate_extends [OF wf1, of "of_nat (length name) + 1"] unfolding n by auto
  consider "node = 0" | "node \<noteq> 0" "storage = 0" | "node \<noteq> 0" "storage \<noteq> 0" by blast
  then show ?thesis
  proof cases
    case 1
    then show ?thesis
      using m1 n1 extends_refl [OF assms(1)] by (simp add: symrepr_addsym_def Let_def added_def)
  next
    case 2
    have three: "0 < unat (3 :: u32)" by simp
    obtain A B where AB: "memory_segs m1 = A @ Block 3 # B" "node = mem_addr m (segs_len A)"
        "memory_segs m = A @ replicate 3 Free @ B"
      using mem.alloc_law [OF assms(1) three] m1(1) 2(1) by auto
    obtain m3 where m3: "memory_free m1 (mem_addr m1 (segs_len A)) = Some (True, m3)" "memory_wf m3" "ms_memory m3 = ms_memory m1"
        "ms_base m3 = ms_base m1" "memory_segs m3 = memory_segs m"
      using memory_free_refines [OF wf1 AB(1)] AB(3) by auto
    have "extends m m3" using m3 words_eq [OF m3(3)] m1(2,4) by (simp add: extends_def)
    moreover have "memory_free m1 node = Some (True, m3)" using m3(1) AB(2) extends_addr [OF m1(2)] by simp
    ultimately show ?thesis using 2 m1(1) m2 m3(5) n1 by (simp add: symrepr_addsym_def Let_def added_def)
  next
    case 3
    then show ?thesis using addsym_node [OF assms m1(1) 3(1) m2(1) 3(2)] by blast
  qed
qed

lemma lookup_entries:
  assumes "memory_wf m" and "symlist_at m (ss_symlist ss) es" and "0 \<notin> set name"
  shows "symrepr_lookup ss m name =
    Some (case find (\<lambda>(s, i). name = cstr s) special_symbols of Some (s, i) \<Rightarrow> Some i | None \<Rightarrow> map_of es name)"
  using lookup_loop_entries [OF assms] by (simp add: symrepr_lookup_def split: option.split)

subsection \<open>Properties\<close>

text \<open>
  for a table that holds the entries \<open>es\<close> in well-formed memory, \<open>symrepr_addsym\<close> of a nonempty name always
  returns. If it reports failure the state is the old one, no block is lost (a node whose name found no
  room has been freed) and the table still holds \<open>es\<close>; otherwise the identifier is the next one and
  the table holds the new entry in front of \<open>es\<close>. In both cases every block of the memory that was
  there keeps its place and its words.
\<close>

theorem symrepr_addsym_correct:
  assumes "memory_wf m" and "symlist_at m (ss_symlist ss) es"
    and "0 \<notin> set name" and "name \<noteq> []" and "length name + 1 < 2 ^ 32"
  shows "\<exists>r ss' m'. symrepr_addsym ss m name = Some (r, ss', m') \<and> extends m m' \<and>
    (case r of
       None \<Rightarrow> ss' = ss \<and> memory_segs m' = memory_segs m \<and> symlist_at m' (ss_symlist ss') es
     | Some sid \<Rightarrow> sid = MAX_SPECIAL_SYMBOLS + ss_next_symbol_id ss \<and>
         ss_next_symbol_id ss' = ss_next_symbol_id ss + 1 \<and> symlist_at m' (ss_symlist ss') ((name, sid) # es))"
proof -
  obtain r ss' m' where r: "symrepr_addsym ss m name = Some (r, ss', m')" "added ss m name r ss' m'"
    using addsym_added [OF assms(1,3-5)] by blast
  then show ?thesis
    using assms(2) symlist_at_extends [OF assms(2)] by (auto simp: added_def split: option.splits)
qed

definition demo_symbols :: sym_state where
  "demo_symbols = \<lparr>ss_symlist = 0, ss_next_symbol_id = 0\<rparr>"

theorem symrepr_addsym_correct_witness:
  "\<exists>r ss' m'. symrepr_addsym demo_symbols demo_memory (cstr ''ab'') = Some (r, ss', m') \<and> extends demo_memory m' \<and>
    (case r of
       None \<Rightarrow> ss' = demo_symbols \<and> memory_segs m' = memory_segs demo_memory \<and> symlist_at m' (ss_symlist ss') []
     | Some sid \<Rightarrow> sid = MAX_SPECIAL_SYMBOLS + ss_next_symbol_id demo_symbols \<and>
         ss_next_symbol_id ss' = ss_next_symbol_id demo_symbols + 1 \<and>
         symlist_at m' (ss_symlist ss') [(cstr ''ab'', sid)])"
  by (rule symrepr_addsym_correct [OF demo_memory_wf]) (simp_all add: demo_symbols_def cstr_def)

text \<open>
  C26: the symbol table round trip: after a name that is not one of the special symbols has been added, looking up
  the name gives the new identifier, looking up the identifier gives a C string equal to the name,
  and every other name has the meaning it had. The number of symbols added so far must be such that
  the identifier does not wrap.
\<close>

theorem symrepr_add_lookup:
  assumes "memory_wf m" and "symlist_at m (ss_symlist ss) es"
    and "0 \<notin> set name" and "name \<noteq> []" and "length name + 1 < 2 ^ 32"
    and "find (\<lambda>(s, i). name = cstr s) special_symbols = None"
    and "unat (ss_next_symbol_id ss) + unat MAX_SPECIAL_SYMBOLS < 2 ^ 32"
    and "symrepr_addsym ss m name = Some (Some sid, ss', m')"
  shows "symrepr_lookup ss' m' name = Some (Some sid) \<and>
    (\<exists>a. symrepr_lookup_name ss' m' sid = Some (MemoryName a) \<and> read_cstring m' a = Some name) \<and>
    (\<forall>other. other \<noteq> name \<and> 0 \<notin> set other \<longrightarrow> symrepr_lookup ss' m' other = symrepr_lookup ss m other)"
proof (intro conjI)
  have m': "memory_wf m'" "symlist_at m' (ss_symlist ss') ((name, sid) # es)" "sid = MAX_SPECIAL_SYMBOLS + ss_next_symbol_id ss"
    using addsym_added [OF assms(1,3-5), of ss] assms(2,8) by (auto simp: added_def extends_def)
  show "symrepr_lookup ss' m' name = Some (Some sid)" using lookup_entries [OF m'(1,2) assms(3)] assms(6) by simp
  have "\<not> sid < MAX_SPECIAL_SYMBOLS" using assms(7) by (simp add: m'(3) word_less_nat_alt unat_word_ariths)
  then show "\<exists>a. symrepr_lookup_name ss' m' sid = Some (MemoryName a) \<and> read_cstring m' a = Some name"
    using lookup_name_entries [OF m'(1,2), of sid] by (auto simp: symrepr_lookup_name_def lookup_symrepr_name_memory_def)
  show "\<forall>other. other \<noteq> name \<and> 0 \<notin> set other \<longrightarrow> symrepr_lookup ss' m' other = symrepr_lookup ss m other"
    using lookup_entries [OF m'(1,2)] lookup_entries [OF assms(1,2)] by (auto split: option.split)
qed

theorem symrepr_add_lookup_witness:
  "\<exists>sid ss' m'. symrepr_addsym demo_symbols demo_memory (cstr ''ab'') = Some (Some sid, ss', m') \<and>
    symrepr_lookup ss' m' (cstr ''ab'') = Some (Some sid) \<and>
    (\<exists>a. symrepr_lookup_name ss' m' sid = Some (MemoryName a) \<and> read_cstring m' a = Some (cstr ''ab'')) \<and>
    (\<forall>other. other \<noteq> cstr ''ab'' \<and> 0 \<notin> set other \<longrightarrow>
       symrepr_lookup ss' m' other = symrepr_lookup demo_symbols demo_memory other)"
proof -
  let ?r = "symrepr_addsym demo_symbols demo_memory (cstr ''ab'')"
  have "?r \<noteq> None \<and> fst (the ?r) \<noteq> None" unfolding demo_memory_def demo_symbols_def by code_simp
  then obtain sid ss' m' where r: "?r = Some (Some sid, ss', m')" by (cases ?r) auto
  have p: "symlist_at demo_memory (ss_symlist demo_symbols) []" "0 \<notin> set (cstr ''ab'')" "cstr ''ab'' \<noteq> []"
      "length (cstr ''ab'') + 1 < 2 ^ 32" "unat (ss_next_symbol_id demo_symbols) + unat MAX_SPECIAL_SYMBOLS < 2 ^ 32"
    by (simp_all add: demo_symbols_def cstr_def)
  have f: "find (\<lambda>(s, i). cstr ''ab'' = cstr s) special_symbols = None"
    by (simp add: special_symbols_def cstr_def)
  show ?thesis using r symrepr_add_lookup [OF demo_memory_wf p(1-4) f p(5) r] by blast
qed

end
