(* ===== verification/Fundamental_Keeps.thy ===== *)
theory Fundamental_Keeps
  imports Fundamental_Correct Symrepr_Correct
begin

text \<open>
  What the fundamental operations keep: whatever the operation and its arguments, the heap and the
  word memory stay well-formed, no live cell changes and no block of the memory is lost.
\<close>

subsection \<open>Operations on the heap\<close>

text \<open>An outcome on the heap that keeps what is there; no outcome at all is the undefined behaviour of the C code.\<close>

definition heap_kept :: "heap_state \<Rightarrow> (VALUE \<times> heap_state) option \<Rightarrow> bool" where
  "heap_kept h r \<longleftrightarrow> (\<forall>v h'. r = Some (v, h') \<longrightarrow> heap_wf h' \<and> heap_ext h h')"

named_theorems kept

lemma heap_kept_simps [kept]:
  "heap_wf h \<Longrightarrow> heap_kept h (Some (v, h))"
  "heap_kept h None"
  by (simp_all add: heap_kept_def store.ext_refl)

lemma heap_kept_bind [kept]: "(\<And>x. heap_kept h (f x)) \<Longrightarrow> heap_kept h (Option.bind r f)"
  by (cases r) (simp_all add: heap_kept_def)

lemma heap_kept_if [kept]: "heap_kept h r \<Longrightarrow> heap_kept h r' \<Longrightarrow> heap_kept h (if b then r else r')"
  by simp

lemma heap_kept_seq:
  "heap_kept h (Some (v, h')) \<Longrightarrow> heap_kept h' r \<Longrightarrow> heap_kept h r"
  using store.ext_trans [of h h'] by (auto simp: heap_kept_def)

lemma cons_outcome:
  assumes "heap_wf h" and "\<not> val_get_gc_mark d" and "cons h a d = Some (p, h')"
  shows "heap_wf h' \<and> heap_ext h h' \<and> \<not> val_get_gc_mark p"
proof (cases "room h = 0")
  case True
  then show ?thesis using store.cons_full [OF assms(1) True, of a d] assms(1,3) store.ext_refl [of h] by simp
next
  case False
  then show ?thesis using store.cons_room [OF assms(1) _ assms(2), of a] assms(3) by auto
qed

lemma cons_kept: "heap_wf h \<Longrightarrow> \<not> val_get_gc_mark d \<Longrightarrow> heap_kept h (cons h a d)"
  using cons_outcome [of h d a] by (simp add: heap_kept_def)

lemma boxed_kept:
  "heap_wf h \<Longrightarrow> heap_kept h (do { (r, h) \<leftarrow> cons h x (enc_sym s); if type_of r = VAL_TYPE_SYMBOL then Some (r, h) else Some (set_ptr_type r t, h) })"
  using cons_outcome [of h "enc_sym s" x] by (auto simp: heap_kept_def bind_eq_Some_conv split: if_splits)

lemma enc_boxed_kept [kept]:
  "heap_wf h \<Longrightarrow> heap_kept h (enc_I h x)"
  "heap_wf h \<Longrightarrow> heap_kept h (enc_U h x)"
  "heap_wf h \<Longrightarrow> heap_kept h (enc_F h x)"
  "heap_wf h \<Longrightarrow> heap_kept h (read_boxed h x s t)"
  unfolding enc_I_def enc_U_def enc_F_def read_boxed_def by (rule boxed_kept, assumption)+

lemma arith_kept [kept]:
  "heap_wf h \<Longrightarrow> heap_kept h (add2 F h a b)"
  "heap_wf h \<Longrightarrow> heap_kept h (mul2 F h a b)"
  "heap_wf h \<Longrightarrow> heap_kept h (div2 F h a b)"
  "heap_wf h \<Longrightarrow> heap_kept h (mod2 F h a b)"
  "heap_wf h \<Longrightarrow> heap_kept h (sub2 F h a b)"
  "heap_wf h \<Longrightarrow> heap_kept h (negate F h a)"
  unfolding add2_def mul2_def div2_def mod2_def sub2_def negate_def Let_def by (intro kept; assumption)+

text \<open>One round of a loop that stops at a symbol.\<close>

lemma round_kept:
  assumes "\<And>v h'. r = Some (v, h') \<Longrightarrow> heap_wf h' \<and> heap_ext h h' \<and> heap_kept h' (f v h')"
  shows "heap_kept h (do { (acc, h) \<leftarrow> r; if type_of acc = VAL_TYPE_SYMBOL then Some (acc, h) else f acc h })"
proof (cases r)
  case (Some x)
  obtain v h' where x: "x = (v, h')" by (cases x)
  have "heap_kept h (Some (v, h'))" "heap_kept h' (f v h')" using assms [of v h'] Some x by (simp_all add: heap_kept_def)
  then show ?thesis using Some x heap_kept_seq [of h v h'] by simp
qed (simp add: kept)

lemma fold_args_kept:
  assumes "\<And>h a b. heap_wf h \<Longrightarrow> heap_kept h (op h a b)"
  shows "heap_wf h \<Longrightarrow> heap_kept h (fold_args op h args acc i k)"
proof (induction k arbitrary: h acc i)
  case (Suc k)
  show ?case
    unfolding fold_args.simps
    by (intro heap_kept_bind round_kept) (use assms [OF Suc.prems] Suc.IH in \<open>auto simp: heap_kept_def [of h]\<close>)
qed (simp add: kept)

lemma exec_list_loop_kept: "heap_wf h \<Longrightarrow> \<not> val_get_gc_mark acc \<Longrightarrow> heap_kept h (exec_list_loop h args acc n)"
proof (induction n arbitrary: h acc)
  case (Suc n)
  show ?case
    unfolding exec_list_loop.simps
    by (intro heap_kept_bind round_kept) (use cons_outcome [OF Suc.prems] Suc.IH in blast)
qed (simp add: kept)

lemma exec_append_loop_kept: "heap_wf h \<Longrightarrow> \<not> val_get_gc_mark acc \<Longrightarrow> heap_kept h (exec_append_loop h v acc n)"
proof (induction n arbitrary: h acc)
  case (Suc n)
  show ?case
    unfolding exec_append_loop.simps
    by (intro heap_kept_bind round_kept) (use cons_outcome [OF Suc.prems] Suc.IH in blast)
qed (simp add: kept)

lemma arr_get_kept:
  assumes "\<forall>v \<in> set args. \<not> val_get_gc_mark v" and "\<And>b. \<not> val_get_gc_mark b \<Longrightarrow> heap_kept h (f b)"
  shows "heap_kept h (do { b \<leftarrow> arr_get args j; f b })"
  using assms by (cases "arr_get args j") (auto simp: kept arr_get_Some_iff)

lemma list_kept [kept]:
  assumes "heap_wf h" and "\<forall>v \<in> set args. \<not> val_get_gc_mark v"
  shows "heap_kept h (exec_list h args n)" and "heap_kept h (exec_append h args n)"
    and "heap_kept h (do { a \<leftarrow> arr_get args i; b \<leftarrow> arr_get args j; cons h a b })"
proof -
  show "heap_kept h (exec_list h args n)"
    using exec_list_loop_kept [OF assms(1), of "enc_sym DEF_REPR_NIL"] by (simp add: exec_list_def)
  show "heap_kept h (exec_append h args n)"
    unfolding exec_append_def
    by (intro heap_kept_if heap_kept_simps(1) arr_get_kept [OF assms(2)] heap_kept_bind exec_append_loop_kept assms(1))
  show "heap_kept h (do { a \<leftarrow> arr_get args i; b \<leftarrow> arr_get args j; cons h a b })"
    by (intro arr_get_kept [OF assms(2)] cons_kept [OF assms(1)])
qed

lemma exec_arith_kept:
  assumes "heap_wf h" and "\<And>h a b. heap_wf h \<Longrightarrow> heap_kept h (op h a b)"
  shows "heap_kept h (exec_arith op h args n)"
  unfolding exec_arith_def by (intro heap_kept_bind fold_args_kept assms)

lemma exec_sub_kept [kept]: "heap_wf h \<Longrightarrow> heap_kept h (exec_sub F h args n)"
  unfolding exec_sub_def by (intro kept exec_arith_kept)

lemma heap_kept_sum [kept]:
  "heap_wf h \<Longrightarrow> (\<And>i. heap_kept h (f i)) \<Longrightarrow> heap_kept h (case x of Inl r \<Rightarrow> Some (r, h) | Inr i \<Rightarrow> f i)"
  by (cases x) (simp_all add: kept)

lemma array_read_kept [kept]: "heap_wf h \<Longrightarrow> heap_kept h (array_read h m args)"
  unfolding array_read_def by (intro kept; assumption)

subsection \<open>Operations on the memory\<close>

definition memory_kept :: "memory_state \<Rightarrow> memory_state \<Rightarrow> bool" where
  "memory_kept m m' \<longleftrightarrow> memory_wf m' \<and> (\<forall>p k. block_at (memory_segs m) p k \<longrightarrow> block_at (memory_segs m') p k)"

lemma memory_kept_refl: "memory_wf m \<Longrightarrow> memory_kept m m"
  by (simp add: memory_kept_def)

lemma memory_kept_trans: "memory_kept m m' \<Longrightarrow> memory_kept m' m'' \<Longrightarrow> memory_kept m m''"
  by (simp add: memory_kept_def)

lemma extends_kept: "extends m m' \<Longrightarrow> memory_kept m m'"
  by (simp add: memory_kept_def extends_def)

lemma mem_write_kept:
  assumes "memory_wf m" and "mem_write m a v = Some m'"
  shows "memory_kept m m'"
proof -
  have "m' = m\<lparr>ms_memory := Some ((words m)[mem_ix m a := v])\<rparr>"
    using assms(2) words_wf [OF assms(1)] by (auto simp: mem_write_def bind_eq_Some_conv arr_set_Some_iff split: if_splits)
  then show ?thesis using memory_wf_words [OF assms(1), of "(words m)[mem_ix m a := v]"] by (simp add: memory_kept_def)
qed

lemma mem_write_byte_kept:
  assumes "memory_wf m" and "mem_write_byte m a c = Some m'"
  shows "memory_kept m m'"
proof -
  obtain v where "m' = m\<lparr>ms_memory := Some ((words m)[mem_ix m a := v])\<rparr>"
    using assms(2) words_wf [OF assms(1)] by (auto simp: mem_write_byte_def Let_def bind_eq_Some_conv arr_set_Some_iff split: if_splits)
  then show ?thesis using memory_wf_words [OF assms(1), of "(words m)[mem_ix m a := v]"] by (simp add: memory_kept_def)
qed

lemma write_bytes_kept: "memory_wf m \<Longrightarrow> write_bytes m a bs = Some m' \<Longrightarrow> memory_kept m m'"
proof (induction bs arbitrary: m a)
  case (Cons b bs)
  then obtain m1 where m1: "mem_write_byte m a b = Some m1" "write_bytes m1 (a + 1) bs = Some m'"
    by (auto simp: bind_eq_Some_conv)
  have "memory_kept m m1" by (rule mem_write_byte_kept [OF Cons.prems(1) m1(1)])
  moreover from this have "memory_wf m1" by (simp add: memory_kept_def)
  then have "memory_kept m1 m'" using m1(2) by (rule Cons.IH)
  ultimately show ?case by (rule memory_kept_trans)
qed (simp add: memory_kept_refl)

definition memory_ends :: "memory_state \<Rightarrow> (VALUE \<times> memory_state) option \<Rightarrow> bool" where
  "memory_ends m r \<longleftrightarrow> (\<forall>v m'. r = Some (v, m') \<longrightarrow> memory_kept m m')"

lemma memory_ends_write:
  assumes "memory_wf m"
  shows "memory_ends m (do { m \<leftarrow> mem_write m a w; Some (v, m) })"
    and "memory_ends m (do { m \<leftarrow> mem_write_byte m a c; Some (v, m) })"
  using mem_write_kept [OF assms, of a w] mem_write_byte_kept [OF assms, of a c]
  by (auto simp: memory_ends_def bind_eq_Some_conv)

lemma memory_ends_intros:
  "memory_wf m \<Longrightarrow> memory_ends m (Some (v, m))"
  "(\<And>x. memory_ends m (f x)) \<Longrightarrow> memory_ends m (Option.bind r f)"
  "memory_ends m r1 \<Longrightarrow> memory_ends m r2 \<Longrightarrow> memory_ends m (if b then r1 else r2)"
  "memory_wf m \<Longrightarrow> (\<And>i. memory_ends m (f i)) \<Longrightarrow> memory_ends m (case x of Inl r \<Rightarrow> Some (r, m) | Inr i \<Rightarrow> f i)"
  by (auto simp: memory_ends_def bind_eq_Some_conv memory_kept_refl split: sum.splits)

lemma array_write_kept: "memory_wf m \<Longrightarrow> memory_ends m (array_write h m args)"
  unfolding array_write_def by (intro memory_ends_write memory_ends_intros; assumption)

subsection \<open>Strings and symbols\<close>

text \<open>A string that is read from the memory ends inside of it.\<close>

lemma memory_area:
  assumes "memory_wf m"
  shows "4 * length (words m) + 4 \<le> 2 ^ 32"
proof -
  have m: "ms_base m \<noteq> 0" "ms_base m mod 4 = 0" "unat (ms_base m) + 4 * length (words m) \<le> 2 ^ 32"
    using assms words_wf [OF assms] by (elim memory_wfE, simp)+
  then have "unat (ms_base m) \<noteq> 0" "unat (ms_base m) mod 4 = 0"
    by (simp_all add: word_unat_eq_iff unat_mod)
  then have "4 \<le> unat (ms_base m)" by presburger
  then show ?thesis using m(3) by linarith
qed

lemma read_cstring_loop_inside:
  assumes "read_cstring_loop m str acc = Some s" and "memory_wf m" and "0 \<notin> set acc"
  shows "0 \<notin> set s \<and> length s + unat (str - ms_base m) < length acc + 4 * length (words m)"
proof -
  have "memory_wf m \<longrightarrow> 0 \<notin> set acc \<longrightarrow>
      0 \<notin> set s \<and> length s + unat (str - ms_base m) < length acc + 4 * length (words m)"
  proof (rule read_cstring_loop.raw_induct [OF _ assms(1),
        where P = "\<lambda>m str acc s. memory_wf m \<longrightarrow> 0 \<notin> set acc \<longrightarrow>
          0 \<notin> set s \<and> length s + unat (str - ms_base m) < length acc + 4 * length (words m)"])
    fix loop m str acc s
    assume IH: "\<And>m str acc s. loop m str acc = Some s \<Longrightarrow> memory_wf m \<longrightarrow> 0 \<notin> set acc \<longrightarrow>
          0 \<notin> set s \<and> length s + unat (str - ms_base m) < length acc + 4 * length (words m)"
      and r: "Option.bind (mem_read_byte m str) (\<lambda>b. if b = 0 then Some (rev acc) else loop m (str + 1) (b # acc)) = Some s"
    show "memory_wf m \<longrightarrow> 0 \<notin> set acc \<longrightarrow> 0 \<notin> set s \<and> length s + unat (str - ms_base m) < length acc + 4 * length (words m)"
    proof (intro impI)
      assume wf: "memory_wf m" and acc: "0 \<notin> set acc"
      obtain b where b: "mem_read_byte m str = Some b" "(if b = 0 then Some (rev acc) else loop m (str + 1) (b # acc)) = Some s"
        using r by (auto simp: bind_eq_Some_conv)
      have "mem_ix m str < length (words m)"
        using b(1) words_wf [OF wf] by (auto simp: mem_read_byte_def bind_eq_Some_conv arr_get_Some_iff)
      then have i: "unat (str - ms_base m) < 4 * length (words m)" by (simp add: mem_ix_def)
      have "str + 1 - ms_base m = (str - ms_base m) + 1" by simp
      then have step: "unat (str + 1 - ms_base m) = unat (str - ms_base m) + 1"
        using i memory_area [OF wf] by (simp only: unat_word_ariths) simp
      show "0 \<notin> set s \<and> length s + unat (str - ms_base m) < length acc + 4 * length (words m)"
        using b(2) i acc IH [of m "str + 1" "b # acc" s] wf step by (auto split: if_splits)
    qed
  qed
  with assms(2,3) show ?thesis by simp
qed

lemma read_cstring_inside:
  assumes "read_cstring m str = Some s" and "memory_wf m"
  shows "0 \<notin> set s" and "length s + 1 < 2 ^ 32 - 2"
proof -
  have s: "0 \<notin> set s \<and> length s + unat (str - ms_base m) < 4 * length (words m)"
    using read_cstring_loop_inside [of m str "[]" s] assms by (simp add: read_cstring_def)
  then show "0 \<notin> set s" by simp
  from s memory_area [OF assms(2)] show "length s + 1 < 2 ^ 32 - 2" by linarith
qed

lemma special_names_short: "list_all (\<lambda>(s, i). length s < 100) special_symbols"
  by (simp add: special_symbols_def)

lemma lookup_name_short:
  assumes "symrepr_lookup_name ss m sid = Some (SpecialName s)"
  shows "length (cstr s) + 1 < 2 ^ 32 - 2"
proof -
  have "\<exists>i. (s, i) \<in> set special_symbols"
    using assms by (auto simp: symrepr_lookup_name_def find_Some_iff split: option.splits if_splits prod.splits) (metis nth_mem)+
  then have "length s < 100" using special_names_short by (auto simp: list_all_iff)
  then show ?thesis by (simp add: cstr_def)
qed

text \<open>Allocating an array keeps the blocks of the memory.\<close>

lemma allocate_array_kept:
  assumes "heap_wf h" and "memory_wf m" and "unat sz < 2 ^ 32 - 2" and "heap_allocate_array h m sz t = Some (r, res, h', m')"
  shows "heap_wf h' \<and> heap_ext h h' \<and> memory_kept m m'"
proof -
  have h: "heap_wf h' \<and> heap_ext h h'" using heap_allocate_array_outcomes [OF assms(1-3), of t] assms(4) by auto
  have n: "0 < unat (2 + array_words sz t)" using unat_array_size [OF assms(3), of t] by simp
  consider "m' = m" | a m1 m2 where "memory_allocate m (2 + array_words sz t) = Some (a, m1)"
      "mem_write m1 a t = Some m2" "mem_write m2 (a + 4) sz = Some m'"
    | a where "memory_allocate m (2 + array_words sz t) = Some (a, m')"
    using assms(4) by (auto simp: heap_allocate_array_def Let_def bind_eq_Some_conv split: if_splits prod.splits)
  then have "memory_kept m m'"
  proof cases
    case 1
    then show ?thesis using memory_kept_refl [OF assms(2)] by simp
  next
    case (2 a m1 m2)
    have 1: "memory_kept m m1" using allocate_extends [OF assms(2) n] 2(1) extends_kept by auto
    then have 2: "memory_kept m1 m2" using mem_write_kept 2(2) by (simp add: memory_kept_def [of m])
    then have "memory_kept m2 m'" using mem_write_kept \<open>mem_write m2 (a + 4) sz = Some m'\<close> by (simp add: memory_kept_def [of m1])
    with 1 2 show ?thesis by (blast intro: memory_kept_trans)
  next
    case 3
    then show ?thesis using allocate_extends [OF assms(2) n] extends_kept by auto
  qed
  with h show ?thesis by blast
qed

definition runtime_kept :: "runtime \<Rightarrow> (VALUE \<times> runtime) option \<Rightarrow> bool" where
  "runtime_kept rt r \<longleftrightarrow> (\<forall>v rt'. r = Some (v, rt') \<longrightarrow>
     heap_wf (rt_heap rt') \<and> heap_ext (rt_heap rt) (rt_heap rt') \<and> memory_kept (rt_mem rt) (rt_mem rt'))"

lemma runtime_kept_intros:
  "heap_wf (rt_heap rt) \<Longrightarrow> memory_wf (rt_mem rt) \<Longrightarrow> runtime_kept rt (Some (v, rt))"
  "heap_wf (rt_heap rt) \<Longrightarrow> memory_wf (rt_mem rt) \<Longrightarrow> runtime_kept rt (with_value rt r)"
  "heap_kept (rt_heap rt) e \<Longrightarrow> memory_wf (rt_mem rt) \<Longrightarrow> runtime_kept rt (with_heap rt e)"
  "heap_wf (rt_heap rt) \<Longrightarrow> memory_ends (rt_mem rt) e' \<Longrightarrow> runtime_kept rt (map_option (\<lambda>(v, m). (v, rt\<lparr>rt_mem := m\<rparr>)) e')"
  "(\<And>x. runtime_kept rt (f x)) \<Longrightarrow> runtime_kept rt (Option.bind q f)"
  "runtime_kept rt r1 \<Longrightarrow> runtime_kept rt r2 \<Longrightarrow> runtime_kept rt (if b then r1 else r2)"
  by (auto simp: runtime_kept_def with_value_def with_heap_def heap_kept_def memory_ends_def memory_kept_refl
      store.ext_refl bind_eq_Some_conv)

lemma runtime_kept_bind: "(\<And>x. q = Some x \<Longrightarrow> runtime_kept rt (f x)) \<Longrightarrow> runtime_kept rt (Option.bind q f)"
  by (cases q) (simp_all add: runtime_kept_def)

lemma runtime_kept_store:
  "heap_wf h \<Longrightarrow> heap_ext (rt_heap rt) h \<Longrightarrow> memory_kept (rt_mem rt) m \<Longrightarrow> runtime_kept rt (Some (v, rt\<lparr>rt_heap := h, rt_mem := m\<rparr>))"
  by (simp add: runtime_kept_def)

text \<open>The new array of \<open>sym-to-str\<close> and the bytes written to it.\<close>

lemma store_string_kept:
  assumes wf: "heap_wf (rt_heap rt)" "memory_wf (rt_mem rt)" and len: "length str + 1 < 2 ^ 32 - 2"
  shows "runtime_kept rt (do {
      (ok, res, h, m) \<leftarrow> heap_allocate_array (rt_heap rt) (rt_mem rt) (of_nat (length str) + 1) VAL_TYPE_CHAR;
      if ok \<noteq> 0 then do {
        v \<leftarrow> res;
        arr \<leftarrow> car h v;
        if arr = 0 then Some (enc_sym DEF_REPR_MERROR, rt\<lparr>rt_heap := h, rt_mem := m\<rparr>)
        else do {
          m \<leftarrow> write_bytes m (arr + 8) (replicate (length str + 1) 0);
          m \<leftarrow> write_bytes m (arr + 8) str;
          Some (v, rt\<lparr>rt_heap := h, rt_mem := m\<rparr>)
        }
      } else Some (enc_sym DEF_REPR_MERROR, rt\<lparr>rt_heap := h, rt_mem := m\<rparr>)
    })"
proof (rule runtime_kept_bind)
  fix x
  assume a: "heap_allocate_array (rt_heap rt) (rt_mem rt) (of_nat (length str) + 1) VAL_TYPE_CHAR = Some x"
  obtain ok res h m where x: "x = (ok, res, h, m)" by (cases x)
  have "unat (of_nat (length str) + 1 :: u32) < 2 ^ 32 - 2" using name_words(1) [of str] len by simp
  from allocate_array_kept [OF wf this] a x
  have k: "heap_wf h" "heap_ext (rt_heap rt) h" "memory_kept (rt_mem rt) m" by auto
  have w: "memory_kept (rt_mem rt) m2" "memory_wf m2" if "memory_kept (rt_mem rt) m1" "write_bytes m1 b bs = Some m2" for m1 m2 b bs
    using that write_bytes_kept [OF _ that(2)] memory_kept_trans [of "rt_mem rt" m1 m2] by (simp_all add: memory_kept_def)
  show "runtime_kept rt (case x of (ok, res, h, m) \<Rightarrow>
      if ok \<noteq> 0 then do {
        v \<leftarrow> res;
        arr \<leftarrow> car h v;
        if arr = 0 then Some (enc_sym DEF_REPR_MERROR, rt\<lparr>rt_heap := h, rt_mem := m\<rparr>)
        else do {
          m \<leftarrow> write_bytes m (arr + 8) (replicate (length str + 1) 0);
          m \<leftarrow> write_bytes m (arr + 8) str;
          Some (v, rt\<lparr>rt_heap := h, rt_mem := m\<rparr>)
        }
      } else Some (enc_sym DEF_REPR_MERROR, rt\<lparr>rt_heap := h, rt_mem := m\<rparr>))"
    unfolding x prod.case
    by (intro runtime_kept_intros(6) runtime_kept_bind runtime_kept_store k) (erule (1) w(1) [OF w(1) [OF k(3)]])
qed

lemma symbol_to_string_kept:
  assumes "heap_wf (rt_heap rt)" "memory_wf (rt_mem rt)"
  shows "runtime_kept rt (exec_symbol_to_string rt args n)"
proof -
  have "length str + 1 < 2 ^ 32 - 2"
    if "symrepr_lookup_name (rt_sym rt) (rt_mem rt) s = Some name"
      "(case name of SpecialName n \<Rightarrow> Some (cstr n) | MemoryName a \<Rightarrow> read_cstring (rt_mem rt) a) = Some str" for s name str
    using that lookup_name_short [of "rt_sym rt" "rt_mem rt" s] read_cstring_inside(2) [OF _ assms(2)]
    by (cases name) auto
  then show ?thesis
    unfolding exec_symbol_to_string_def Let_def
    by (intro runtime_kept_intros(6) runtime_kept_intros(1) runtime_kept_bind store_string_kept assms)
qed

lemma string_to_symbol_kept:
  assumes "heap_wf (rt_heap rt)" "memory_wf (rt_mem rt)"
  shows "runtime_kept rt (exec_string_to_symbol rt args n)"
proof -
  have "memory_kept (rt_mem rt) m"
    if "read_cstring (rt_mem rt) a = Some str" "symrepr_addsym (rt_sym rt) (rt_mem rt) str = Some (r, ss, m)" for a str r ss m
  proof (cases "str = []")
    case True
    then show ?thesis using that(2) memory_kept_refl [OF assms(2)] by (simp add: symrepr_addsym_def)
  next
    case False
    have l: "length str + 1 < 2 ^ 32" using read_cstring_inside(2) [OF that(1) assms(2)] by simp
    show ?thesis
      using addsym_added [OF assms(2) read_cstring_inside(1) [OF that(1) assms(2)] False l, of "rt_sym rt"] that(2) extends_kept
      by (auto simp: added_def split: option.splits)
  qed
  then show ?thesis
    using memory_kept_refl [OF assms(2)] assms(1) store.ext_refl [of "rt_heap rt"]
    unfolding exec_string_to_symbol_def
    by (auto simp: runtime_kept_def bind_eq_Some_conv split: if_splits option.splits)
qed

subsection \<open>Properties\<close>

text \<open>
  C20: every fundamental operation keeps the state well-formed. Whatever the operation symbol, the number of
  arguments and the values on the stack (as long as none carries the mark bit of the collector), an operation
  that returns leaves a well-formed heap in which every live cell is unchanged and a well-formed memory
  in which every block is still allocated.
\<close>

theorem fundamental_exec_keeps:
  assumes "heap_wf (rt_heap rt)" and "memory_wf (rt_mem rt)" and "\<forall>v \<in> set args. \<not> val_get_gc_mark v"
    and "fundamental_exec F rt args nargs op = Some (r, rt')"
  shows "heap_wf (rt_heap rt') \<and> heap_ext (rt_heap rt) (rt_heap rt') \<and> memory_wf (rt_mem rt') \<and>
    (\<forall>p k. block_at (memory_segs (rt_mem rt)) p k \<longrightarrow> block_at (memory_segs (rt_mem rt')) p k)"
proof -
  have c: "runtime_kept rt (do { a \<leftarrow> arr_get args 0; b \<leftarrow> arr_get args 1; with_heap rt (cons (rt_heap rt) a b) })"
    using list_kept(3) [OF assms(1,3), of 0 1] assms(2)
    by (auto simp: runtime_kept_def heap_kept_def with_heap_def bind_eq_Some_conv memory_kept_refl)
  have "runtime_kept rt (fundamental_exec F rt args nargs op)"
    unfolding fundamental_exec_def Let_def
    by (intro c runtime_kept_intros symbol_to_string_kept string_to_symbol_kept array_write_kept array_read_kept
        exec_sub_kept exec_arith_kept arith_kept list_kept assms)
  with assms(4) show ?thesis by (simp add: runtime_kept_def memory_kept_def)
qed

definition demo_runtime :: runtime where
  "demo_runtime = \<lparr>rt_heap = demo_heap, rt_mem = demo_memory, rt_sym = demo_symbols\<rparr>"

theorem fundamental_exec_keeps_witness:
  "\<forall>F. \<exists>r rt'. fundamental_exec F demo_runtime [enc_i 7, enc_sym DEF_REPR_NIL] 2 (enc_sym SYM_CONS) = Some (r, rt') \<and>
    heap_wf (rt_heap rt') \<and> heap_ext demo_heap (rt_heap rt') \<and> memory_wf (rt_mem rt') \<and>
    (\<forall>p k. block_at (memory_segs demo_memory) p k \<longrightarrow> block_at (memory_segs (rt_mem rt')) p k)"
proof
  fix F
  have wf: "heap_wf (rt_heap demo_runtime)" "memory_wf (rt_mem demo_runtime)"
    by (simp_all add: demo_runtime_def demo_heap_wf demo_memory_wf)
  have d: "rt_heap demo_runtime = demo_heap" "rt_mem demo_runtime = demo_memory" by (simp_all add: demo_runtime_def)
  have args: "\<forall>v \<in> set [enc_i 7, enc_sym DEF_REPR_NIL]. \<not> val_get_gc_mark v" by code_simp
  obtain p h' where c: "cons demo_heap (enc_i 7) (enc_sym DEF_REPR_NIL) = Some (p, h')"
    using store.cons_full [OF demo_heap_wf] store.cons_room [OF demo_heap_wf, of "enc_sym DEF_REPR_NIL" "enc_i 7"] by (cases "room demo_heap = 0") auto
  then have e: "fundamental_exec F demo_runtime [enc_i 7, enc_sym DEF_REPR_NIL] 2 (enc_sym SYM_CONS) = Some (p, demo_runtime\<lparr>rt_heap := h'\<rparr>)"
    by (simp add: fundamental_exec_def dec_sym_enc_sym Let_def with_heap_def demo_runtime_def)
  show "\<exists>r rt'. fundamental_exec F demo_runtime [enc_i 7, enc_sym DEF_REPR_NIL] 2 (enc_sym SYM_CONS) = Some (r, rt') \<and>
    heap_wf (rt_heap rt') \<and> heap_ext demo_heap (rt_heap rt') \<and> memory_wf (rt_mem rt') \<and>
    (\<forall>p k. block_at (memory_segs demo_memory) p k \<longrightarrow> block_at (memory_segs (rt_mem rt')) p k)"
    using e fundamental_exec_keeps [OF wf args e, unfolded d] by blast
qed

end
