(* ===== verification/Forged.thy ===== *)
theory Forged
  imports Parser Fundamental_Correct
begin

text \<open>
  A hole in the type safety of the interpreter: \<open>car\<close> of a boxed number is the number, taken as a value as it stands. With the literals of
  \<open>src/tokpar.c\<close> and the fundamental operation \<open>car\<close> of \<open>src/fundamental.c\<close> a program can make any value.
\<close>

lemma cons_cells:
  assumes "heap_wf h" and "0 < room h" and "cons h a d = Some (p, h')"
  shows "length (heap_cells h') = length (heap_cells h)"
proof -
  obtain i fl where "heap_inv h (heap_cells h) (i # fl)" using heap_wf_inv [OF assms(1)] assms(2) by (cases "free_cells h") auto
  from cons_take [OF this, of a d] assms(3) show ?thesis by (simp add: heap_take_def heap_cells_def)
qed

lemma boxed_literal:
  assumes "heap_wf (rt_heap rt)" and "0 < room (rt_heap rt)"
  shows "\<exists>p h. parse_boxed rt x DEF_REPR_BOXED_U_TYPE PTR_TYPE_BOXED_U = Some (p, rt\<lparr>rt_heap := h\<rparr>) \<and> type_of p = PTR_TYPE_BOXED_U \<and>
    car h p = Some x \<and> heap_wf h \<and> length (heap_cells h) = length (heap_cells (rt_heap rt))"
proof -
  obtain i p h where c: "cons (rt_heap rt) x (enc_sym DEF_REPR_BOXED_U_TYPE) = Some (p, h)" "heap_wf h" "ref_cell p = i"
      "get_cell h i = Some \<lparr>cell_car = x, cell_cdr = enc_sym DEF_REPR_BOXED_U_TYPE\<rparr>"
    using cons_law [OF assms, of "enc_sym DEF_REPR_BOXED_U_TYPE" x] by auto
  have t: "PTR_TYPE_BOXED_U AND PTR_TYPE_MASK = PTR_TYPE_BOXED_U" by simp
  let ?p = "set_ptr_type p PTR_TYPE_BOXED_U"
  have p: "type_of ?p = PTR_TYPE_BOXED_U" "get_cell h (ref_cell ?p) = Some \<lparr>cell_car = x, cell_cdr = enc_sym DEF_REPR_BOXED_U_TYPE\<rparr>"
    using enc_boxed_room [OF assms t c(1)] by simp_all
  have "?p \<noteq> NIL" by (metis is_ptr_set_ptr_type sym_laws(1))
  then have "car h ?p = Some x" using p by (simp add: car_def read_car_def)
  then show ?thesis using c(1,2) p(1) cons_cells [OF assms c(1)]
    by (intro exI [of _ ?p] exI [of _ h]) (simp add: parse_boxed_def rt_cons_def)
qed

text \<open>
  C21: a program can forge pointers. In a well-formed heap with a free cell the literal of a boxed unsigned number whose bits are those of a
  pointer to the cell \<open>k\<close> is read, \<open>car\<close> of it is that pointer, and \<open>car\<close> of the result reads outside of the heap when
  \<open>k\<close> is not the index of a cell.
\<close>

theorem car_forges_pointer:
  assumes "heap_wf (rt_heap rt)" and "0 < room (rt_heap rt)" and "length (heap_cells (rt_heap rt)) \<le> unat k" and "unat k < 2 ^ 23"
  shows "\<exists>p rt1. parse_atom rt (TOKBOXEDUINT (enc_cons_ptr k)) = Some (Some (p, rt1)) \<and> heap_wf (rt_heap rt1) \<and>
    fundamental_exec F rt1 (p # rest) 1 (enc_sym SYM_CAR) = Some (enc_cons_ptr k, rt1) \<and>
    type_of (enc_cons_ptr k) = PTR_TYPE_CONS \<and>
    fundamental_exec F rt1 (enc_cons_ptr k # rest) 1 (enc_sym SYM_CAR) = None"
proof -
  obtain p h where p: "parse_boxed rt (enc_cons_ptr k) DEF_REPR_BOXED_U_TYPE PTR_TYPE_BOXED_U = Some (p, rt\<lparr>rt_heap := h\<rparr>)"
      "car h p = Some (enc_cons_ptr k)" "heap_wf h" "length (heap_cells h) = length (heap_cells (rt_heap rt))"
    using boxed_literal [OF assms(1,2)] by blast
  have k: "type_of (enc_cons_ptr k) = PTR_TYPE_CONS" "ref_cell (enc_cons_ptr k) = unat k" "is_ptr (enc_cons_ptr k)"
    using assms(4) by (simp_all add: type_of_enc_cons_ptr ref_cell_def dec_ptr_enc_cons_ptr)
  have "get_cell h (unat k) = None" using p(4) assms(3) by (auto simp: get_cell_def heap_cells_def arr_get_def split: option.splits)
  then have "car h (enc_cons_ptr k) = None" using k by (simp add: car_def)
  then show ?thesis using p k(1) by (auto simp: parse_atom_def fundamental_exec_def dec_sym_enc_sym with_value_def)
qed

theorem car_forges_pointer_witness:
  "\<forall>F m ss. \<exists>p rt1. parse_atom (demo_rt m ss) (TOKBOXEDUINT (enc_cons_ptr 4000)) = Some (Some (p, rt1)) \<and> heap_wf (rt_heap rt1) \<and>
    fundamental_exec F rt1 [p] 1 (enc_sym SYM_CAR) = Some (enc_cons_ptr 4000, rt1) \<and> type_of (enc_cons_ptr 4000) = PTR_TYPE_CONS \<and>
    fundamental_exec F rt1 [enc_cons_ptr 4000] 1 (enc_sym SYM_CAR) = None"
proof (intro allI)
  fix F m ss
  let ?rt = "demo_rt m ss"
  have "heap_wf (rt_heap ?rt)" using demo_heap_wf by simp
  moreover have "0 < room (rt_heap ?rt)" by (simp add: demo_heap_free)
  moreover have "length (heap_cells (rt_heap ?rt)) \<le> unat (4000 :: UINT)" by (simp add: demo_heap_def heap_cells_def)
  moreover have "unat (4000 :: UINT) < 2 ^ 23" by simp
  ultimately show "\<exists>p rt1. parse_atom (demo_rt m ss) (TOKBOXEDUINT (enc_cons_ptr 4000)) = Some (Some (p, rt1)) \<and> heap_wf (rt_heap rt1) \<and>
    fundamental_exec F rt1 [p] 1 (enc_sym SYM_CAR) = Some (enc_cons_ptr 4000, rt1) \<and> type_of (enc_cons_ptr 4000) = PTR_TYPE_CONS \<and>
    fundamental_exec F rt1 [enc_cons_ptr 4000] 1 (enc_sym SYM_CAR) = None" by (rule car_forges_pointer)
qed

end
