(* ===== verification/Lispbmc.thy ===== *)
theory Lispbmc
  imports Printer
begin

text \<open>
  The C part of the compiler, \<open>compiler/lispbmc.c\<close>: the extensions \<open>print\<close> and \<open>asm-out\<close> that the
  compiler, itself a lisp program, calls to produce its output, and the choice of the output file.

  What is written to the console and to the output file is text that is appended; the options come
  from the C library's \<open>getopt_long\<close> and are arguments here. A C string of the command line is its
  characters without the final zero.
\<close>

record outputs =
  out_console :: string
  out_file :: string

definition printf :: "outputs \<Rightarrow> string \<Rightarrow> outputs" where
  "printf f s = f\<lparr>out_console := out_console f @ s\<rparr>"

definition fprintf :: "outputs \<Rightarrow> string \<Rightarrow> outputs" where
  "fprintf f s = f\<lparr>out_file := out_file f @ s\<rparr>"

definition line :: "string \<Rightarrow> string" where
  "line s = s @ [CHR 0x0A]"

text \<open>\<open>%-20s\<close>\<close>

definition pad_20 :: "string \<Rightarrow> string" where
  "pad_20 s = s @ replicate (20 - length s) (CHR '' '')"

text \<open>The characters of an array of them, or \<open>None\<close> inside for an array of another type.\<close>

definition array_string :: "memory_state \<Rightarrow> u32 \<Rightarrow> string option option" where
  "array_string m array = do {
     elt_type \<leftarrow> mem_read m array;
     if elt_type = VAL_TYPE_CHAR then do { s \<leftarrow> read_cstring m (array + 8); Some (Some (cstring_text s)) }
     else Some None
   }"

subsection \<open>The extension print\<close>

text \<open>\<open>buf\<close> and \<open>err\<close> are the uninitialised arrays \<open>output\<close> and \<open>error\<close>; \<open>printf\<close> stops at the first zero.\<close>

primrec ext_print_loop ::
  "(FLOAT \<Rightarrow> string) \<Rightarrow> UINT list \<Rightarrow> runtime \<Rightarrow> outputs \<Rightarrow> string \<Rightarrow> string \<Rightarrow> VALUE list \<Rightarrow> (VALUE \<times> outputs) option" where
  "ext_print_loop f_text storage rt f buf err [] = Some (enc_sym DEF_REPR_TRUE, f)"
| "ext_print_loop f_text storage rt f buf err (t # ts) =
     (if is_ptr t \<and> ptr_type t = PTR_TYPE_ARRAY then do {
        array \<leftarrow> car (rt_heap rt) t;
        s \<leftarrow> array_string (rt_mem rt) array;
        case s of
          Some s \<Rightarrow> ext_print_loop f_text storage rt (printf f s) buf err ts
        | None \<Rightarrow> Some (enc_sym DEF_REPR_NIL, f)
      }
      else if val_type t = VAL_TYPE_CHAR then
        ext_print_loop f_text storage rt (printf f [char_of (unat (dec_char t))]) buf err ts
      else do {
        (print_ret, buf, err) \<leftarrow> print_value f_text storage rt buf 1024 err 1024 t;
        let s = (if print_ret \<ge> 0 then buf else err);
        ext_print_loop f_text storage rt (printf f (takeWhile (\<lambda>c. c \<noteq> CHR 0x00) s)) buf err ts
      })"

definition ext_print ::
  "(FLOAT \<Rightarrow> string) \<Rightarrow> UINT list \<Rightarrow> runtime \<Rightarrow> outputs \<Rightarrow> string \<Rightarrow> string \<Rightarrow> VALUE list \<Rightarrow> (VALUE \<times> outputs) option" where
  "ext_print f_text storage rt f buf err args =
     (if length args < 1 then Some (enc_sym DEF_REPR_NIL, f)
      else ext_print_loop f_text storage rt f buf err args)"

subsection \<open>The extension asm-out\<close>

text \<open>
  The text of a label, a list of a tag, a string and a number: \<open>Some None\<close> when name and number do
  not have these types, \<open>Some (Some None)\<close> when the name is an array of another type.
\<close>

definition label_string :: "runtime \<Rightarrow> VALUE \<Rightarrow> string option option option" where
  "label_string rt arg = do {
     let h = rt_heap rt;
     d \<leftarrow> cdr h arg;
     name \<leftarrow> car h d;
     dd \<leftarrow> cdr h d;
     num \<leftarrow> car h dd;
     if type_of name = PTR_TYPE_ARRAY \<and> type_of num = VAL_TYPE_I then do {
       array \<leftarrow> car h name;
       s \<leftarrow> array_string (rt_mem rt) array;
       Some (Some (map_option (\<lambda>s. s @ i_text (dec_i num)) s))
     } else Some None
   }"

text \<open>The string case takes the value itself, not its \<open>car\<close>, for the address of the array.\<close>

definition output_arg_assembly :: "runtime \<Rightarrow> outputs \<Rightarrow> VALUE \<Rightarrow> (bool \<times> outputs) option" where
  "output_arg_assembly rt f arg =
     (let t = type_of arg in
      if t = VAL_TYPE_I then
        Some (True, fprintf (printf f (line ''outputing int argument'')) (i_text (dec_i arg)))
      else if t = VAL_TYPE_U then
        Some (True, fprintf (printf f (line ''outputing uint argument'')) (u_text (dec_u arg)))
      else if t = PTR_TYPE_SYMBOL_INDIRECTION then
        Some (True, fprintf f (''*'' @ u_text (dec_symbol_indirection arg) @ ''*''))
      else if t = VAL_TYPE_SYMBOL then do {
        name \<leftarrow> symrepr_lookup_name (rt_sym rt) (rt_mem rt) (dec_sym arg);
        case name of
          SpecialName s \<Rightarrow> Some (True, fprintf f s)
        | MemoryName a \<Rightarrow>
            if a = 0 then Some (False, printf f (line ''Error looking up symbol name''))
            else do { s \<leftarrow> read_cstring (rt_mem rt) a; Some (True, fprintf f (cstring_text s)) }
      }
      else if t = PTR_TYPE_ARRAY then do {
        s \<leftarrow> array_string (rt_mem rt) arg;
        case s of
          Some s \<Rightarrow> Some (True, fprintf f s)
        | None \<Rightarrow> Some (False, printf f (line ''Error outputing string argument''))
      }
      else if t = PTR_TYPE_CONS then do {
        s \<leftarrow> label_string rt arg;
        case s of
          None \<Rightarrow> Some (True, f)
        | Some None \<Rightarrow> Some (False, printf f (line ''Error outputing label argument''))
        | Some (Some s) \<Rightarrow> Some (True, fprintf f s)
      }
      else Some (False, printf f (line ''Error default'')))"

text \<open>The loop over instruction and arguments; the flag tells whether it came to the end.\<close>

partial_function (option) output_args_loop :: "runtime \<Rightarrow> outputs \<Rightarrow> VALUE \<Rightarrow> (bool \<times> outputs) option" where
  "output_args_loop rt f cur =
     (if type_of cur \<noteq> VAL_TYPE_SYMBOL then
        Option.bind (car (rt_heap rt) cur) (\<lambda>a.
        Option.bind (output_arg_assembly rt f a) (\<lambda>(ok, f).
          if ok then
            Option.bind (cdr (rt_heap rt) cur) (\<lambda>d. output_args_loop rt (fprintf f [CHR 0x09]) d)
          else Some (False, printf f (line ''Error in asm-out (argument output)''))))
      else Some (True, f))"

text \<open>The label column. \<open>snprintf\<close> cuts the composite off at 1023 characters.\<close>

definition output_label :: "runtime \<Rightarrow> outputs \<Rightarrow> VALUE \<Rightarrow> (bool \<times> outputs) option" where
  "output_label rt f lbl =
     (if type_of lbl = PTR_TYPE_CONS then do {
        s \<leftarrow> label_string rt lbl;
        case s of
          None \<Rightarrow> Some (True, f)
        | Some None \<Rightarrow> Some (False, printf f (line ''Error in asm-out 1''))
        | Some (Some s) \<Rightarrow> Some (True, fprintf f (pad_20 (take 1023 s)))
      }
      else if type_of lbl = VAL_TYPE_SYMBOL \<and> dec_sym lbl = DEF_REPR_NIL then Some (True, fprintf f (pad_20 []))
      else Some (True, f))"

definition ext_output_assembly :: "runtime \<Rightarrow> outputs \<Rightarrow> VALUE list \<Rightarrow> (VALUE \<times> outputs) option" where
  "ext_output_assembly rt f args =
     (if length args \<noteq> 2 then Some (enc_sym DEF_REPR_EERROR, f)
      else do {
        (ok, f) \<leftarrow> output_label rt f (args ! 0);
        if \<not> ok then Some (enc_sym DEF_REPR_EERROR, f)
        else if type_of (args ! 1) = PTR_TYPE_CONS then do {
          (ok, f) \<leftarrow> output_args_loop rt f (args ! 1);
          if ok then Some (enc_sym DEF_REPR_NIL, fprintf f [CHR 0x0A])
          else Some (enc_sym DEF_REPR_EERROR, f)
        }
        else Some (enc_sym DEF_REPR_EERROR, printf f (line ''Error in asm-out 3''))
      })"

definition ext_output_bytecode :: "VALUE list \<Rightarrow> VALUE" where
  "ext_output_bytecode args = enc_sym DEF_REPR_NIL"

definition ext_output_symbol_indirection :: "VALUE list \<Rightarrow> VALUE" where
  "ext_output_symbol_indirection args = enc_sym DEF_REPR_NIL"

subsection \<open>The output file\<close>

text \<open>\<open>strncpy\<close> of a name shorter than the buffer of 1024 characters fills the rest with zeros.\<close>

definition name_buffer :: "string \<Rightarrow> string" where
  "name_buffer s = s @ replicate (1024 - length s) (CHR 0x00)"

text \<open>\<open>Inl\<close> is the message with which \<open>parse_args\<close> returns 0. The argument of option \<open>-o\<close>:\<close>

definition option_o :: "string \<Rightarrow> string + string" where
  "option_o optarg =
     (if length optarg < 1023 then Inr (name_buffer optarg)
      else Inl (line ''Error: Output filename is too long''))"

text \<open>
  The search for the last dot counts an unsigned index down. Below 0 it wraps, and the next character is read from outside of
  the buffer: \<open>None\<close>.
\<close>

primrec find_dot :: "string \<Rightarrow> nat \<Rightarrow> nat option" where
  "find_dot buf 0 = do { c \<leftarrow> arr_get buf 0; if c = CHR ''.'' then Some 0 else None }"
| "find_dot buf (Suc n) = do { c \<leftarrow> arr_get buf (Suc n); if c = CHR ''.'' then Some (Suc n) else find_dot buf n }"

definition write_name :: "string \<Rightarrow> nat \<Rightarrow> string \<Rightarrow> string" where
  "write_name buf i s = foldl (\<lambda>buf (k, c). buf[i + k := c]) buf (enumerate 0 s)"

definition choose_output ::
  "bool \<Rightarrow> string option \<Rightarrow> string \<Rightarrow> (string + string) option" where
  "choose_output output_assembler output_file arg =
     (if length arg \<ge> 1023 then Some (Inl (line ''Error: Input filename is too long''))
      else do {
        let input_file = name_buffer arg;
        dot_index \<leftarrow> find_dot input_file (length arg);
        case output_file of
          Some buf \<Rightarrow> Some (Inr buf)
        | None \<Rightarrow>
            let buf = input_file[dot_index := CHR 0x00] in
            if dot_index < 1020 then
              Some (Inr (if output_assembler then write_name buf dot_index (''.S'' @ [CHR 0x00])
                         else write_name buf dot_index (''.bmc'' @ [CHR 0x00])))
            else Some (Inl (line ''Error: Input filename is too long''))
      })"

end
