(* ===== verification/Lispbmc_Correct.thy ===== *)
theory Lispbmc_Correct
  imports Lispbmc
begin

text \<open>
  The output of the compiler's C part, \<open>compiler/lispbmc.c\<close>: the line of assembler that \<open>asm-out\<close>
  writes for a label and an instruction, and the name of the output file.
\<close>

subsection \<open>Lines of assembler\<close>

text \<open>A label is a list of a tag, a string and a number.\<close>

inductive label_text :: "runtime \<Rightarrow> VALUE \<Rightarrow> string \<Rightarrow> bool" where
  label: "lisp_list (rt_heap rt) v [tag, name, num] \<Longrightarrow> type_of name = PTR_TYPE_ARRAY \<Longrightarrow> type_of num = VAL_TYPE_I \<Longrightarrow>
    car (rt_heap rt) name = Some array \<Longrightarrow> array_string (rt_mem rt) array = Some (Some s) \<Longrightarrow>
    label_text rt v (s @ i_text (dec_i num))"

text \<open>What an instruction or one of its arguments looks like in the file.\<close>

inductive asm_text :: "runtime \<Rightarrow> VALUE \<Rightarrow> string \<Rightarrow> bool" where
  signed: "type_of v = VAL_TYPE_I \<Longrightarrow> asm_text rt v (i_text (dec_i v))"
| unsigned: "type_of v = VAL_TYPE_U \<Longrightarrow> asm_text rt v (u_text (dec_u v))"
| indirection: "type_of v = PTR_TYPE_SYMBOL_INDIRECTION \<Longrightarrow> asm_text rt v (''*'' @ u_text (dec_symbol_indirection v) @ ''*'')"
| special: "type_of v = VAL_TYPE_SYMBOL \<Longrightarrow> symrepr_lookup_name (rt_sym rt) (rt_mem rt) (dec_sym v) = Some (SpecialName s) \<Longrightarrow>
    asm_text rt v s"
| named: "type_of v = VAL_TYPE_SYMBOL \<Longrightarrow> symrepr_lookup_name (rt_sym rt) (rt_mem rt) (dec_sym v) = Some (MemoryName a) \<Longrightarrow>
    a \<noteq> 0 \<Longrightarrow> read_cstring (rt_mem rt) a = Some s \<Longrightarrow> asm_text rt v (cstring_text s)"
| target: "label_text rt v t \<Longrightarrow> asm_text rt v t"

lemma out_file_simps [simp]:
  "out_file (printf f s) = out_file f" "out_file (fprintf f s) = out_file f @ s"
  by (simp_all add: printf_def fprintf_def)

lemma label_text_string:
  assumes "label_text rt v t"
  shows "type_of v = PTR_TYPE_CONS \<and> label_string rt v = Some (Some (Some t))"
  using assms by cases (auto simp: label_string_def Let_def split: option.splits)

lemma output_arg_text:
  assumes "asm_text rt v t"
  shows "\<exists>f'. output_arg_assembly rt f v = Some (True, f') \<and> out_file f' = out_file f @ t"
  using assms
proof cases
  case target
  then show ?thesis using label_text_string [of rt v t] by (simp add: output_arg_assembly_def)
qed (simp_all add: output_arg_assembly_def)

lemma output_args_text:
  "lisp_list (rt_heap rt) cur xs \<Longrightarrow> list_all2 (asm_text rt) xs ts \<Longrightarrow>
     \<exists>f'. output_args_loop rt f cur = Some (True, f') \<and> out_file f' = out_file f @ concat (map (\<lambda>t. t @ [CHR 0x09]) ts)"
proof (induction xs arbitrary: cur ts f)
  case Nil
  then show ?case by (subst output_args_loop.simps) simp
next
  case (Cons x xs)
  then obtain t us d where t: "ts = t # us" "asm_text rt x t" "list_all2 (asm_text rt) xs us"
      and c: "type_of cur = PTR_TYPE_CONS" "car (rt_heap rt) cur = Some x" "cdr (rt_heap rt) cur = Some d" "lisp_list (rt_heap rt) d xs"
    by (auto simp: list_all2_Cons1 split: option.splits)
  obtain f1 where f1: "output_arg_assembly rt f x = Some (True, f1)" "out_file f1 = out_file f @ t"
    using output_arg_text [OF t(2)] by blast
  have "output_args_loop rt f cur = output_args_loop rt (fprintf f1 [CHR 0x09]) d"
    using c f1(1) by (subst output_args_loop.simps) simp
  then show ?case using Cons.IH [OF c(4) t(3), of "fprintf f1 [CHR 0x09]"] f1(2) t(1) by simp
qed

text \<open>
  C27: \<open>asm-out\<close> applied to a label (or \<open>nil\<close>) and a proper nonempty list of an instruction and its arguments
  writes one line to the output file, the label in a column of at least twenty characters, then instruction and
  arguments with a tab after each, and returns \<open>nil\<close>.
\<close>

theorem asm_out_correct:
  assumes "lbl = NIL \<and> l = [] \<or> label_text rt lbl l \<and> length l \<le> 1023"
    and "lisp_list (rt_heap rt) ops xs" and "xs \<noteq> []" and "list_all2 (asm_text rt) xs ts"
  shows "\<exists>f'. ext_output_assembly rt f [lbl, ops] = Some (enc_sym DEF_REPR_NIL, f') \<and>
    out_file f' = out_file f @ pad_20 l @ concat (map (\<lambda>t. t @ [CHR 0x09]) ts) @ [CHR 0x0A]"
proof -
  have "output_label rt f lbl = Some (True, fprintf f (pad_20 l))"
    using assms(1) label_text_string [of rt lbl l] by (auto simp: output_label_def dec_sym_enc_sym)
  moreover have "type_of ops = PTR_TYPE_CONS" using assms(2,3) by (cases xs) auto
  ultimately show ?thesis
    using output_args_text [OF assms(2,4), of "fprintf f (pad_20 l)"] by (auto simp: ext_output_assembly_def)
qed

theorem asm_out_correct_witness:
  "\<forall>m ss f. \<exists>f'. ext_output_assembly \<lparr>rt_heap = demo_heap, rt_mem = m, rt_sym = ss\<rparr> f [NIL, enc_cons_ptr 1] =
      Some (enc_sym DEF_REPR_NIL, f') \<and>
    out_file f' = out_file f @ replicate 20 (CHR '' '') @ ''1'' @ [CHR 0x09] @ ''2'' @ [CHR 0x09, CHR 0x0A]"
proof (intro allI)
  fix m ss f
  let ?rt = "\<lparr>rt_heap = demo_heap, rt_mem = m, rt_sym = ss\<rparr> :: runtime"
  have l: "lisp_list (rt_heap ?rt) (enc_cons_ptr 1) [enc_i 1, enc_i 2]" by simp code_simp
  have t: "type_of (enc_i 1) = VAL_TYPE_I" "type_of (enc_i 2) = VAL_TYPE_I" "i_text (dec_i (enc_i 1)) = ''1''"
      "i_text (dec_i (enc_i 2)) = ''2''" by code_simp+
  have "list_all2 (asm_text ?rt) [enc_i 1, enc_i 2] [''1'', ''2'']"
    using asm_text.signed [OF t(1), of ?rt] asm_text.signed [OF t(2), of ?rt] t(3,4) by simp
  from asm_out_correct [of NIL "[]" ?rt, OF _ l _ this, of f]
  show "\<exists>f'. ext_output_assembly ?rt f [NIL, enc_cons_ptr 1] = Some (enc_sym DEF_REPR_NIL, f') \<and>
    out_file f' = out_file f @ replicate 20 (CHR '' '') @ ''1'' @ [CHR 0x09] @ ''2'' @ [CHR 0x09, CHR 0x0A]"
    by (simp add: pad_20_def)
qed

subsection \<open>The name of the output file\<close>

lemma find_dot_last:
  "n < length buf \<Longrightarrow> i \<le> n \<Longrightarrow> buf ! i = CHR ''.'' \<Longrightarrow> \<forall>j. i < j \<and> j \<le> n \<longrightarrow> buf ! j \<noteq> CHR ''.'' \<Longrightarrow> find_dot buf n = Some i"
  by (induction n) (auto simp: le_Suc_eq)

lemma find_dot_none: "n < length buf \<Longrightarrow> \<forall>j \<le> n. buf ! j \<noteq> CHR ''.'' \<Longrightarrow> find_dot buf n = None"
  by (induction n) auto

lemma length_name_buffer [simp]: "length arg \<le> 1024 \<Longrightarrow> length (name_buffer arg) = 1024"
  by (simp add: name_buffer_def)

lemma name_buffer_nth: "length arg < 1023 \<Longrightarrow> j \<le> length arg \<Longrightarrow> name_buffer arg ! j = (if j < length arg then arg ! j else CHR 0x00)"
  by (simp add: name_buffer_def nth_append)

text \<open>The C string in a buffer.\<close>

definition buffer_text :: "string \<Rightarrow> string" where
  "buffer_text = takeWhile (\<lambda>c. c \<noteq> CHR 0x00)"

lemma write_name_append:
  "length A = i \<Longrightarrow> length s \<le> length B \<Longrightarrow> write_name (A @ B) i s = A @ s @ drop (length s) B"
proof (induction s rule: rev_induct)
  case (snoc c s)
  then have "write_name (A @ B) i (s @ [c]) = (A @ s @ drop (length s) B)[i + length s := c]"
    by (simp add: write_name_def enumerate_append_eq)
  also have "\<dots> = A @ s @ c # drop (Suc (length s)) B"
    using snoc.prems Cons_nth_drop_Suc [of "length s" B, symmetric] by (simp add: list_update_append)
  finally show ?case by simp
qed (simp add: write_name_def)

lemma last_dot: "CHR ''.'' \<in> set arg \<Longrightarrow> \<exists>base ext. arg = base @ CHR ''.'' # ext \<and> CHR ''.'' \<notin> set ext"
  by (rule split_list_last)

text \<open>
  C28: the name of the output file. For an input file whose name has a dot, without option \<open>-o\<close>, the output has the name
  up to the last dot with the extension \<open>.S\<close> or \<open>.bmc\<close>; the buffer keeps its size. For a name without a dot the
  search runs below the start of the buffer: the error message about a missing extension is never reached.
\<close>

theorem choose_output_correct:
  assumes "CHR 0x00 \<notin> set arg" and "length arg < 1020"
  shows "if CHR ''.'' \<in> set arg
    then \<exists>base ext buf. arg = base @ CHR ''.'' # ext \<and> CHR ''.'' \<notin> set ext \<and>
      choose_output asm None arg = Some (Inr buf) \<and> length buf = 1024 \<and>
      buffer_text buf = base @ (if asm then ''.S'' else ''.bmc'')
    else choose_output asm None arg = None"
proof (cases "CHR ''.'' \<in> set arg")
  case True
  then obtain base ext where a: "arg = base @ CHR ''.'' # ext" "CHR ''.'' \<notin> set ext" using last_dot by blast
  define e where "e = (if asm then ''.S'' else ''.bmc'')"
  have e: "length e \<le> 4" "CHR 0x00 \<notin> set e" by (simp_all add: e_def)
  let ?n = "length base"
  have "name_buffer arg ! j \<noteq> CHR ''.''" if "?n < j" "j \<le> length arg" for j
  proof -
    have "j < length arg \<Longrightarrow> arg ! j \<in> set ext" using that a(1) by (auto simp: nth_append nth_Cons')
    then show ?thesis using name_buffer_nth [of arg j] that assms(2) a(2) by auto
  qed
  moreover have "name_buffer arg ! ?n = CHR ''.''" using name_buffer_nth [of arg ?n] a(1) assms(2) by simp
  ultimately have d: "find_dot (name_buffer arg) (length arg) = Some ?n"
    using assms(2) a(1) by (intro find_dot_last) auto
  define B where "B = CHR 0x00 # ext @ replicate (1024 - length arg) (CHR 0x00)"
  have B: "length B = 1024 - ?n" "length (e @ [CHR 0x00]) \<le> length B" "?n < 1019" using assms(2) a(1) e(1) by (simp_all add: B_def)
  have "(name_buffer arg)[?n := CHR 0x00] = base @ B" by (simp add: a(1) name_buffer_def B_def)
  then have "choose_output asm None arg = Some (Inr (write_name (base @ B) ?n (e @ [CHR 0x00])))"
    using d assms(2) B(3) by (simp add: choose_output_def Let_def e_def)
  also have "write_name (base @ B) ?n (e @ [CHR 0x00]) = base @ e @ CHR 0x00 # drop (length e + 1) B"
    using write_name_append [OF refl B(2), of base] by simp
  finally have c: "choose_output asm None arg = Some (Inr (base @ e @ CHR 0x00 # drop (length e + 1) B))" .
  have "buffer_text (base @ e @ CHR 0x00 # drop (length e + 1) B) = base @ e"
    using assms(1) a(1) e(2) by (auto simp: buffer_text_def takeWhile_append)
  moreover have "length (base @ e @ CHR 0x00 # drop (length e + 1) B) = 1024" using B by simp
  ultimately show ?thesis using a c True unfolding e_def by auto
next
  case False
  have "name_buffer arg ! j \<noteq> CHR ''.''" if "j \<le> length arg" for j
  proof -
    have "j < length arg \<Longrightarrow> arg ! j \<noteq> CHR ''.''" using False nth_mem [of j arg] by metis
    then show ?thesis using name_buffer_nth [of arg j] that assms(2) by auto
  qed
  then have "find_dot (name_buffer arg) (length arg) = None"
    using assms(2) by (intro find_dot_none) auto
  with False assms(2) show ?thesis by (simp add: choose_output_def)
qed

theorem choose_output_correct_witness:
  "(\<exists>base ext buf. ''a.b.lisp'' = base @ CHR ''.'' # ext \<and> CHR ''.'' \<notin> set ext \<and>
      choose_output True None ''a.b.lisp'' = Some (Inr buf) \<and> length buf = 1024 \<and> buffer_text buf = base @ ''.S'') \<and>
   choose_output True None ''prog'' = None"
  using choose_output_correct [of "''a.b.lisp''" True] choose_output_correct [of "''prog''" True] by simp

end
