(* ===== verification/Parser_Lex.thy ===== *)
theory Parser_Lex
  imports Parser Token_Total Printer
begin

text \<open>
  The concrete syntax of expressions: what an expression of the language looks like as a text and as a
  row of tokens, and that the tokeniser of \<open>src/tokpar.c\<close> reads these tokens from that text.
\<close>

datatype form =
    Int_lit nat
  | Uint_lit nat
  | Char_lit char
  | Symbol_lit string
  | Quote_form form
  | List_form "form list"

text \<open>Names as the tokeniser reads them, in lower case.\<close>

definition name_ok :: "string \<Rightarrow> bool" where
  "name_ok x \<longleftrightarrow> x \<noteq> [] \<and> symchar0 (hd x) \<and> list_all symchar x \<and> map tolower x = x"

primrec form_ok :: "form \<Rightarrow> bool" where
  "form_ok (Int_lit n) = True"
| "form_ok (Uint_lit n) = True"
| "form_ok (Char_lit c) = isgraph c"
| "form_ok (Symbol_lit x) = name_ok x"
| "form_ok (Quote_form e) = form_ok e"
| "form_ok (List_form es) = list_all form_ok es"

definition spaced :: "string list \<Rightarrow> string" where
  "spaced ts = concat (case ts of [] \<Rightarrow> [] | t # us \<Rightarrow> t # map (Cons (CHR '' '')) us)"

primrec form_text :: "form \<Rightarrow> string" where
  "form_text (Int_lit n) = nat_text 10 n"
| "form_text (Uint_lit n) = nat_text 10 n @ ''u28''"
| "form_text (Char_lit c) = [BACKSLASH, CHR ''#'', c]"
| "form_text (Symbol_lit x) = x"
| "form_text (Quote_form e) = CHR 0x27 # form_text e"
| "form_text (List_form es) = ''('' @ spaced (map form_text es) @ '')''"

primrec form_tokens :: "form \<Rightarrow> token list" where
  "form_tokens (Int_lit n) = [TOKINT (of_nat n)]"
| "form_tokens (Uint_lit n) = [TOKUINT (of_nat n)]"
| "form_tokens (Char_lit c) = [TOKCHAR c]"
| "form_tokens (Symbol_lit x) = [TOKSYMBOL x (length x)]"
| "form_tokens (Quote_form e) = TOKQUOTE # form_tokens e"
| "form_tokens (List_form es) = TOKOPENPAR # concat (map form_tokens es) @ [TOKCLOSEPAR]"

text \<open>The tokens \<open>ts\<close> are read from \<open>t\<close>, and \<open>u\<close> is left.\<close>

primrec tokenises :: "tok_env \<Rightarrow> string \<Rightarrow> token list \<Rightarrow> string \<Rightarrow> bool" where
  "tokenises E t [] u \<longleftrightarrow> u = t"
| "tokenises E t (k # ks) u \<longleftrightarrow> (\<exists>t'. next_token E text_stream t = Some (k, t') \<and> tokenises E t' ks u)"

lemma tokenises_append: "tokenises E t (ks @ ls) u \<longleftrightarrow> (\<exists>t'. tokenises E t ks t' \<and> tokenises E t' ls u)"
  by (induction ks arbitrary: t) auto

subsection \<open>One token\<close>

text \<open>What may follow a number or a name.\<close>

definition delimited :: "string \<Rightarrow> bool" where
  "delimited r \<longleftrightarrow> r = [] \<or> hd r = CHR '' '' \<or> hd r = CHR '')'' \<or> hd r = CHR 0x0A"

lemma clean_text: "nul_free t \<Longrightarrow> clean_whitespace text_stream t = Some (trim t)"
  using plain.clean_whitespace_law [of t t] by (auto simp: nul_free_def)

lemma next_token_trim:
  assumes "nul_free t" and "trim t = c # cs" and "c \<noteq> CHR 0x60" and "c \<noteq> CHR '',''"
  shows "next_token E text_stream t =
    (if c = CHR 0x27 then Some (TOKQUOTE, cs) else if c = CHR ''('' then Some (TOKOPENPAR, cs)
     else if c = CHR '')'' then Some (TOKCLOSEPAR, cs) else next_text E text_stream (c # cs))"
proof -
  have "t \<noteq> []" using assms(2) by auto
  then show ?thesis
    using clean_text [OF assms(1)] assms(2-4)
    by (simp add: next_token_def tok_quote_def tok_backquote_def tok_commaat_def tok_comma_def tok_openpar_def
        tok_closepar_def str_at_def)
qed

lemma trim_space [simp]: "trim (CHR '' '' # t) = trim t"
  by (simp add: isspace_def)

lemma next_token_end: "nul_free t \<Longrightarrow> trim t = [] \<Longrightarrow> next_token E text_stream t = Some (TOKENIZER_END, [])"
  using clean_text [of t] by (cases "t = []") (simp_all add: next_token_def)

text \<open>A character that starts an atom.\<close>

definition atom_start :: "char \<Rightarrow> bool" where
  "atom_start c \<longleftrightarrow> \<not> isspace c \<and> c \<noteq> CHR '';'' \<and> c \<noteq> CHR 0x60 \<and> c \<noteq> CHR '','' \<and> c \<noteq> CHR 0x27 \<and> c \<noteq> CHR ''('' \<and> c \<noteq> CHR '')''"

lemma next_token_atom:
  assumes "nul_free t" and "trim t = c # cs" and "atom_start c"
  shows "next_token E text_stream t = next_text E text_stream (c # cs)"
  using next_token_trim [OF assms(1,2)] assms(3) by (simp add: atom_start_def)

lemma trim_start: "\<not> isspace c \<Longrightarrow> c \<noteq> CHR '';'' \<Longrightarrow> trim (c # cs) = c # cs"
  by simp

lemma symchar0_start: "symchar0 c \<Longrightarrow> atom_start c"
  by (auto simp: symchar0_def atom_start_def isspace_def)

lemma digit_start: "is_digit c \<Longrightarrow> atom_start c \<and> \<not> symchar0 c \<and> c \<noteq> BACKSLASH \<and> c \<noteq> QUOTE_CHAR"
  by (auto simp: is_digit_def symchar0_def atom_start_def isspace_def less_eq_char_def)

lemma delimited_test: "delimited r \<Longrightarrow> \<not> test (CHR '' '') \<Longrightarrow> \<not> test (CHR '')'') \<Longrightarrow> \<not> test (CHR 0x0A) \<Longrightarrow> takeWhile test r = []"
  by (cases r) (auto simp: delimited_def)

lemma delimited_symchar: "delimited r \<Longrightarrow> takeWhile symchar r = []"
  by (rule delimited_test) (simp_all add: symchar_def)

lemma delimited_digit: "delimited r \<Longrightarrow> takeWhile is_digit r = []"
  by (rule delimited_test) (simp_all add: is_digit_def less_eq_char_def)

lemma takeWhile_all: "list_all P xs \<Longrightarrow> takeWhile P (xs @ ys) = xs @ takeWhile P ys"
  by (induction xs) simp_all

lemma next_text_symbol:
  assumes "name_ok x" and "delimited r" and "nul_free (x @ r)" and "te_malloc E (length x + 1)"
  shows "next_text E text_stream (x @ r) = Some (TOKSYMBOL x (length x), r)"
proof -
  obtain c cs where x: "x = c # cs" using assms(1) by (cases x) (auto simp: name_ok_def)
  have "takeWhile symchar (cs @ r) = cs" using assms(1) delimited_symchar [OF assms(2)] by (simp add: takeWhile_all x name_ok_def)
  then have "scan text_stream (x @ r) symchar 1 = Some (length x)"
    using scan_text [OF assms(3), of symchar 1] by (simp add: x symchar_def)
  then show ?thesis
    using assms(1,4) get_chars_text [of "length x" "x @ r"] by (simp add: next_text_def tok_symbol_def str_at_def x name_ok_def)
qed

lemma next_text_char:
  assumes "isgraph c" and "delimited r" and "nul_free r"
  shows "next_text E text_stream ([BACKSLASH, CHR ''#'', c] @ r) = Some (TOKCHAR c, r)"
proof -
  let ?t = "[BACKSLASH, CHR ''#'', c] @ r"
  have "peeks text_stream ?t 0 (BACKSLASH # ''#newline'') = Some False"
    using assms(2) by (cases r) (auto simp: str_at_def delimited_def)
  moreover have "peeks text_stream ?t 0 [BACKSLASH, CHR ''#''] = Some True" by (simp add: str_at_def)
  ultimately have "tok_char text_stream ?t = Some (3, c, r)"
    using assms(1) unfolding tok_char_def by (simp add: str_at_def del: peeks.simps)
  then show ?thesis by (simp add: next_text_def tok_symbol_def str_at_def symchar0_def)
qed

subsection \<open>Numbers\<close>

lemma digit_char: "n < 10 \<Longrightarrow> is_digit (char_of (48 + n)) \<and> digit (char_of (48 + n)) = of_nat n"
  by (auto simp: is_digit_def digit_def less_eq_char_def of_char_of)

lemma nat_text_digits: "list_all is_digit (nat_text 10 n) \<and> nat_text 10 n \<noteq> []"
proof (induction n rule: less_induct)
  case (less n)
  then show ?case using digit_char [of "n mod 10"] by (subst nat_text.simps) (auto simp: Let_def nat_text.simps [of 10 n])
qed

lemma nat_text_value: "foldl (\<lambda>a c. a * 10 + digit c) 0 (nat_text 10 n) = (of_nat n :: u32)"
proof (induction n rule: less_induct)
  case (less n)
  have m: "digit (char_of (48 + n mod 10)) = of_nat (n mod 10)" using digit_char [of "n mod 10"] by simp
  show ?case
  proof (cases "n < 10")
    case True
    then show ?thesis using m by (subst nat_text.simps) (simp add: Let_def)
  next
    case False
    have "(of_nat n :: u32) = of_nat (n div 10) * 10 + of_nat (n mod 10)"
      by (metis div_mult_mod_eq of_nat_add of_nat_mult of_nat_numeral)
    then show ?thesis using less [of "n div 10"] False m by (subst nat_text.simps) (simp add: Let_def)
  qed
qed

text \<open>What follows the digits of a number that is neither a float nor an unsigned number of 32 bits.\<close>

definition after_digits :: "string \<Rightarrow> bool" where
  "after_digits r \<longleftrightarrow> takeWhile is_digit r = [] \<and> (r = [] \<or> hd r \<notin> set ''.xX'') \<and> take 3 r \<noteq> ''u32''"

lemma delimited_after: "delimited r \<Longrightarrow> after_digits r"
  by (cases r) (auto simp: after_digits_def delimited_def is_digit_def less_eq_char_def)

lemma u28_after: "after_digits (''u28'' @ r)"
  by (simp add: after_digits_def is_digit_def less_eq_char_def)

lemma scan_number:
  assumes "nul_free (ds @ r)" and "list_all is_digit ds" and "takeWhile is_digit r = []"
  shows "scan text_stream (ds @ r) is_digit 0 = Some (length ds)"
    and "scan_dec text_stream (ds @ r) 0 0 = Some (length ds, foldl (\<lambda>a c. a * 10 + digit c) 0 ds)"
  using scan_text [OF assms(1), of is_digit 0] scan_dec_text [OF assms(1), of 0 0] assms(2,3)
  by (simp_all add: takeWhile_all is_digit_def less_eq_char_def)

lemma peeks_after: "NUL \<notin> set w \<Longrightarrow> peeks text_stream (ds @ r) (length ds) w = Some (take (length w) r = w)"
  using peeks_text [of "length ds" "ds @ r" w] by simp

lemma no_suffix: "take 3 r \<noteq> [a, b, c] \<Longrightarrow> NUL \<notin> {a, b, c} \<Longrightarrow> peeks text_stream (ds @ r) (length ds) [a, b, c] = Some False"
  using peeks_after [of "[a, b, c]" ds r] by (simp add: numeral_3_eq_3 del: peeks.simps)

lemma str_at_after: "str_at (ds @ r) (length ds) = Some (case r of [] \<Rightarrow> NUL | c # cs \<Rightarrow> c)"
  by (cases r) (simp_all add: str_at_def)

lemma no_hex:
  assumes "list_all is_digit ds" and "ds \<noteq> []" and "after_digits r"
  shows "\<exists>d. str_at (ds @ r) 1 = Some d \<and> d \<noteq> CHR ''x'' \<and> d \<noteq> CHR ''X''"
proof -
  obtain c cs where ds: "ds = c # cs" using assms(2) by (cases ds) auto
  show ?thesis
  proof (cases cs)
    case Nil
    then show ?thesis using assms(3) ds by (cases r) (auto simp: str_at_def after_digits_def)
  next
    case (Cons d es)
    then show ?thesis using assms(1) ds by (auto simp: str_at_def is_digit_def less_eq_char_def)
  qed
qed

lemma next_text_digits:
  assumes "nul_free (ds @ r)" and "list_all is_digit ds" and "ds \<noteq> []" and "after_digits r"
  shows "next_text E text_stream (ds @ r) = do {
      (n, u, s) \<leftarrow> tok_u text_stream (ds @ r);
      if n \<noteq> 0 then Some (TOKUINT u, s)
      else do {
        (n, i, s) \<leftarrow> tok_I text_stream s;
        if n \<noteq> 0 then Some (TOKBOXEDINT i, s)
        else do { (n, i, s) \<leftarrow> tok_i text_stream s; if n \<noteq> 0 then Some (TOKINT i, s) else Some (TOKENIZER_ERROR, s) }
      }
    }"
proof -
  obtain c cs where ds: "ds = c # cs" using assms(3) by (cases ds) auto
  have c: "\<not> symchar0 c" "c \<noteq> BACKSLASH" "c \<noteq> QUOTE_CHAR" using assms(2) digit_start [of c] by (simp_all add: ds)
  have r: "takeWhile is_digit r = []" "take 3 r \<noteq> ''u32''" using assms(4) by (simp_all add: after_digits_def)
  note sc = scan_number [OF assms(1,2) r(1)]
  have "tok_F E text_stream (ds @ r) = Some (0, 0, ds @ r)"
    using sc(1) assms(4) by (auto simp: tok_F_def str_at_after after_digits_def split: list.split)
  moreover have "tok_U text_stream (ds @ r) = Some (0, 0, ds @ r)"
    using sc(2) no_hex [OF assms(2-4)] no_suffix [OF r(2), of ds] by (auto simp: tok_U_def str_at_def [of _ 0] ds simp del: peeks.simps)
  moreover have "tok_symbol E text_stream (ds @ r) = Some (0, [], ds @ r)" "tok_char text_stream (ds @ r) = Some (0, NUL, ds @ r)"
      "tok_string E text_stream (ds @ r) = Some (0, [], ds @ r)"
    using c by (simp_all add: ds tok_symbol_def tok_char_def tok_string_def str_at_def)
  ultimately show ?thesis by (simp add: next_text_def next_number_def)
qed

lemma next_text_uint:
  assumes "nul_free (nat_text 10 n @ ''u28'' @ r)"
  shows "next_text E text_stream (nat_text 10 n @ ''u28'' @ r) = Some (TOKUINT (of_nat n), r)"
proof -
  let ?ds = "nat_text 10 n"
  have ds: "list_all is_digit ?ds" "?ds \<noteq> []" using nat_text_digits [of n] by simp_all
  have "tok_u text_stream (?ds @ ''u28'' @ r) = Some (length ?ds + 3, of_nat n, r)"
    using scan_number(2) [OF assms ds(1)] u28_after [of r] peeks_after [of "''u28''" ?ds "''u28'' @ r"] nat_text_value [of n]
    by (simp add: tok_u_def after_digits_def del: peeks.simps)
  then show ?thesis using next_text_digits [OF assms ds u28_after] by simp
qed

lemma next_text_int:
  assumes "nul_free (nat_text 10 n @ r)" and "delimited r"
  shows "next_text E text_stream (nat_text 10 n @ r) = Some (TOKINT (of_nat n), r)"
proof -
  let ?ds = "nat_text 10 n"
  have ds: "list_all is_digit ?ds" "?ds \<noteq> []" using nat_text_digits [of n] by simp_all
  have r: "takeWhile is_digit r = []" "take 3 r \<noteq> ''u28''" "take 3 r \<noteq> ''i32''"
    using delimited_digit [OF assms(2)] assms(2) by (cases r; auto simp: delimited_def)+
  note sc = scan_number(2) [OF assms(1) ds(1) r(1)]
  have "tok_u text_stream (?ds @ r) = Some (0, 0, ?ds @ r)" "tok_I text_stream (?ds @ r) = Some (0, 0, ?ds @ r)"
    using sc no_suffix [OF r(2)] no_suffix [OF r(3)] by (simp_all add: tok_u_def tok_I_def del: peeks.simps)
  moreover have "tok_i text_stream (?ds @ r) = Some (length ?ds, of_nat n, r)"
    using sc assms(2) nat_text_value [of n] str_at_after [of ?ds r] by (cases r) (auto simp: tok_i_def delimited_def)
  ultimately show ?thesis using next_text_digits [OF assms(1) ds delimited_after [OF assms(2)]] ds(2) by simp
qed

subsection \<open>Forms\<close>

lemma tokenises_one: "next_token E text_stream t = Some (k, u) \<Longrightarrow> tokenises E t [k] u"
  by simp

text \<open>Text that begins with \<open>w\<close>, perhaps after a space.\<close>

definition begins :: "string \<Rightarrow> string \<Rightarrow> bool" where
  "begins w t \<longleftrightarrow> t = w \<or> t = CHR '' '' # w"

lemma begins_trim: "begins (c # cs) t \<Longrightarrow> \<not> isspace c \<Longrightarrow> c \<noteq> CHR '';'' \<Longrightarrow> trim t = c # cs"
  by (auto simp: begins_def isspace_def)

lemma begins_nul: "begins w t \<Longrightarrow> nul_free w \<Longrightarrow> nul_free t"
  by (auto simp: begins_def nul_free_def)

lemma next_token_begins:
  assumes "begins w t" and "nul_free w" and "w = c # cs" and "atom_start c"
  shows "next_token E text_stream t = next_text E text_stream w"
  using next_token_atom [OF begins_nul [OF assms(1,2)] begins_trim] assms by (simp add: atom_start_def)

lemma symchar_nul: "list_all symchar x \<Longrightarrow> NUL \<notin> set x"
  by (auto simp: list_all_iff symchar_def)

lemma digits_nul: "list_all is_digit x \<Longrightarrow> NUL \<notin> set x"
  by (auto simp: list_all_iff is_digit_def less_eq_char_def)

lemma form_text_nul: "form_ok e \<Longrightarrow> nul_free (form_text e)"
proof (induction e)
  case (Char_lit c)
  then show ?case by (auto simp: nul_free_def isgraph_def less_eq_char_def)
next
  case (List_form es)
  then have "\<forall>t \<in> set (map form_text es). NUL \<notin> set t" by (auto simp: nul_free_def list_all_iff)
  then have "NUL \<notin> set (spaced (map form_text es))" by (cases es) (auto simp: spaced_def)
  then show ?case by (simp add: nul_free_def)
qed (use digits_nul nat_text_digits symchar_nul in \<open>auto simp: nul_free_def name_ok_def\<close>)

lemma next_token_mark:
  assumes "begins (c # cs) t" and "nul_free cs" and "c = CHR 0x27 \<and> k = TOKQUOTE \<or> c = CHR ''('' \<and> k = TOKOPENPAR \<or> c = CHR '')'' \<and> k = TOKCLOSEPAR"
  shows "next_token E text_stream t = Some (k, cs)"
proof -
  have "trim t = c # cs" using begins_trim [OF assms(1)] assms(3) by (auto simp: isspace_def)
  moreover have "nul_free t" using begins_nul [OF assms(1)] assms(2,3) by (auto simp: nul_free_def)
  ultimately show ?thesis using next_token_trim [of t c cs E] assms(3) by auto
qed

lemma spaced_Cons: "spaced (t # us) = t @ concat (map (Cons (CHR '' '')) us)"
  by (simp add: spaced_def)

text \<open>The texts of several forms, each after a space.\<close>

definition rest_text :: "form list \<Rightarrow> string" where
  "rest_text es = concat (map (\<lambda>e. CHR '' '' # form_text e) es)"

lemma rest_text_simps [simp]: "rest_text [] = []" "rest_text (e # es) = CHR '' '' # form_text e @ rest_text es"
  by (simp_all add: rest_text_def)

lemma rest_text_nul: "list_all form_ok es \<Longrightarrow> nul_free (rest_text es)"
  using form_text_nul by (induction es) (auto simp: nul_free_def)

lemma delimited_rest: "delimited r \<Longrightarrow> delimited (rest_text es @ r)"
  by (cases es) (simp_all add: delimited_def)

lemma spaced_forms: "spaced (map form_text (e # es)) = form_text e @ rest_text es"
  by (simp add: spaced_def rest_text_def comp_def)

text \<open>What the tokeniser has to do for one form, whatever follows it.\<close>

definition reads_form :: "tok_env \<Rightarrow> form \<Rightarrow> bool" where
  "reads_form E e \<longleftrightarrow> (\<forall>t r. delimited r \<longrightarrow> nul_free r \<longrightarrow> begins (form_text e @ r) t \<longrightarrow> tokenises E t (form_tokens e) r)"

lemma reads_rest:
  "\<forall>e \<in> set es. reads_form E e \<Longrightarrow> list_all form_ok es \<Longrightarrow> delimited r \<Longrightarrow> nul_free r \<Longrightarrow>
     tokenises E (rest_text es @ r) (concat (map form_tokens es)) r"
proof (induction es)
  case (Cons e es)
  have "nul_free (rest_text es @ r)" using rest_text_nul [of es] Cons.prems(2,4) by (simp add: nul_free_def)
  then have "tokenises E (rest_text (e # es) @ r) (form_tokens e) (rest_text es @ r)"
    using Cons.prems(1) delimited_rest [OF Cons.prems(3)] by (simp add: reads_form_def begins_def)
  then show ?case using Cons by (auto simp: tokenises_append)
qed simp

lemma reads_atom:
  assumes "form_ok e" and "form_tokens e = [k]" and "form_text e = c # cs" and "atom_start c"
    and "\<And>r. delimited r \<Longrightarrow> nul_free (form_text e @ r) \<Longrightarrow> next_text E text_stream (form_text e @ r) = Some (k, r)"
  shows "reads_form E e"
  unfolding reads_form_def assms(2)
proof (intro allI impI tokenises_one)
  fix t r
  assume r: "delimited r" "nul_free r" "begins (form_text e @ r) t"
  have "nul_free (form_text e @ r)" using form_text_nul [OF assms(1)] r(2) by (simp add: nul_free_def)
  then show "next_token E text_stream t = Some (k, r)"
    using next_token_begins [OF r(3), of c "cs @ r"] assms(3-5) r(1) by simp
qed

lemma nat_text_start: "\<exists>c cs. nat_text 10 n = c # cs \<and> atom_start c"
  using nat_text_digits [of n] digit_start by (cases "nat_text 10 n") auto

text \<open>Forms with one space between them, as in a list or in a program.\<close>

lemma reads_spaced:
  assumes "\<forall>e \<in> set es. reads_form E e" and "list_all form_ok es" and "delimited r" and "nul_free r"
  shows "tokenises E (spaced (map form_text es) @ r) (concat (map form_tokens es)) r"
proof (cases es)
  case (Cons e es')
  have "nul_free (rest_text es' @ r)" using rest_text_nul [of es'] assms(2,4) Cons by (simp add: nul_free_def)
  then have "tokenises E (form_text e @ rest_text es' @ r) (form_tokens e) (rest_text es' @ r)"
    using assms(1) Cons delimited_rest [OF assms(3)] by (simp add: reads_form_def begins_def)
  then show ?thesis
    using reads_rest [of es' E r] assms Cons unfolding Cons spaced_forms by (auto simp: tokenises_append)
qed (simp add: spaced_def)

lemma reads_quote:
  assumes "form_ok e" and "reads_form E e"
  shows "reads_form E (Quote_form e)"
  unfolding reads_form_def
proof (intro allI impI)
  fix t r
  assume r: "delimited r" "nul_free r" "begins (form_text (Quote_form e) @ r) t"
  have "next_token E text_stream t = Some (TOKQUOTE, form_text e @ r)"
    using r(2,3) form_text_nul [of e] assms(1) by (intro next_token_mark) (auto simp: nul_free_def)
  moreover have "tokenises E (form_text e @ r) (form_tokens e) r"
    using assms(2) r by (simp add: reads_form_def begins_def)
  ultimately show "tokenises E t (form_tokens (Quote_form e)) r" by simp
qed

lemma reads_list:
  assumes "\<forall>e \<in> set es. reads_form E e" and "list_all form_ok es"
  shows "reads_form E (List_form es)"
  unfolding reads_form_def
proof (intro allI impI)
  fix t r
  assume r: "delimited r" "nul_free r" "begins (form_text (List_form es) @ r) t"
  let ?r = "CHR '')'' # r"
  have d: "delimited ?r" "nul_free ?r" using r(2) by (simp_all add: delimited_def nul_free_def)
  have "nul_free (form_text (List_form es))" using assms(2) by (intro form_text_nul) simp
  then have "nul_free (spaced (map form_text es) @ ?r)" using r(2) by (auto simp: nul_free_def)
  then have "next_token E text_stream t = Some (TOKOPENPAR, spaced (map form_text es) @ ?r)"
    using r(3) by (intro next_token_mark) auto
  moreover have "next_token E text_stream ?r = Some (TOKCLOSEPAR, r)"
    using r(2) by (intro next_token_mark [of _ r]) (simp_all add: begins_def)
  ultimately show "tokenises E t (form_tokens (List_form es)) r"
    using reads_spaced [OF assms d] by (auto simp: tokenises_append)
qed

lemma form_tokenises:
  assumes "mallocs E"
  shows "form_ok e \<Longrightarrow> reads_form E e"
proof (induction e)
  case (Int_lit n)
  obtain c cs where "nat_text 10 n = c # cs" "atom_start c" using nat_text_start by blast
  then show ?case using Int_lit next_text_int [of n] by (intro reads_atom [of _ _ c cs]) auto
next
  case (Uint_lit n)
  obtain c cs where c: "nat_text 10 n = c # cs" "atom_start c" using nat_text_start by blast
  show ?case
  proof (rule reads_atom [OF Uint_lit _ _ c(2), of _ "cs @ ''u28''"])
    show "next_text E text_stream (form_text (Uint_lit n) @ r) = Some (TOKUINT (of_nat n), r)"
      if "nul_free (form_text (Uint_lit n) @ r)" for r
      using next_text_uint [of n r E] that by simp
  qed (simp_all add: c(1))
next
  case (Char_lit c)
  have "atom_start BACKSLASH" by (simp add: atom_start_def isspace_def)
  moreover have "next_text E text_stream (form_text (Char_lit c) @ r) = Some (TOKCHAR c, r)"
    if "delimited r" "nul_free (form_text (Char_lit c) @ r)" for r
    using next_text_char [of c r E] Char_lit that by (simp add: nul_free_def)
  ultimately show ?case using Char_lit by (intro reads_atom [of _ _ BACKSLASH "[CHR ''#'', c]"]) auto
next
  case (Symbol_lit x)
  then obtain c cs where c: "x = c # cs" "atom_start c" using symchar0_start by (cases x) (auto simp: name_ok_def)
  show ?case
    using Symbol_lit c assms next_text_symbol [of x] by (intro reads_atom [of _ _ c cs]) (auto simp: mallocs_def)
next
  case (Quote_form e)
  then show ?case by (simp add: reads_quote)
next
  case (List_form es)
  then show ?case by (simp add: reads_list list_all_iff)
qed

end
