(* ===== verification/Parser_Forms.thy ===== *)
theory Parser_Forms
  imports Parser_Lex Symrepr_Correct Sexp
begin

text \<open>
  The parser of \<open>src/tokpar.c\<close> builds the trees of the forms it reads. The names it meets are looked up in the symbol
  table and added to it when they are new, so the tree of a form depends on the names known at the end; names never change their
  meaning. Heap and memory must have room for the cells and for the names.
\<close>

subsection \<open>Free words at the end of the memory\<close>

definition tail_free :: "memory_state \<Rightarrow> nat \<Rightarrow> bool" where
  "tail_free m n \<longleftrightarrow> (\<exists>A. memory_segs m = A @ replicate n Free)"

lemma tail_free_less: "tail_free m n \<Longrightarrow> k \<le> n \<Longrightarrow> tail_free m k"
  unfolding tail_free_def by (metis append.assoc le_add_diff_inverse2 replicate_add)

lemma append_replicate_suffix:
  assumes "A @ replicate n x = A' @ B" and "length B = k" and "k \<le> n"
  shows "B = replicate k x"
proof -
  have "A @ replicate (n - k) x @ replicate k x = A' @ B" using assms(1,3) by (simp flip: replicate_add)
  then show ?thesis using assms(2) by (metis append.assoc append_eq_append_conv length_replicate)
qed

lemma length_le_segs_len: "list_all seg_ok ss \<Longrightarrow> length ss \<le> segs_len ss"
proof (induction ss)
  case (Cons s ss)
  then show ?case by (cases s) auto
qed simp

lemma allocate_tail:
  assumes wf: "memory_wf m" and tail: "tail_free m N" and n: "0 < unat n" "unat n \<le> N"
  shows "\<exists>r m'. memory_allocate m n = Some (r, m') \<and> r \<noteq> 0 \<and> tail_free m' (N - unat n)"
proof -
  obtain A0 where A0: "memory_segs m = A0 @ replicate N Free" using tail by (auto simp: tail_free_def)
  then have split: "memory_segs m = A0 @ replicate (unat n) Free @ replicate (N - unat n) Free" using n(2) by (simp flip: replicate_add)
  obtain p where p: "first_fit (unat n) 0 0 (memory_segs m) = Some p"
    using first_fit_complete [of "unat n" 0 0 "memory_segs m" A0 "replicate (N - unat n) Free"] split n(1)
    by (cases "first_fit (unat n) 0 0 (memory_segs m)") auto
  have min: "p \<le> segs_len A0" using first_fit_sound [OF p] split n(1) by auto
  obtain r m' A B where m': "memory_allocate m n = Some (r, m')" "r \<noteq> 0" "memory_segs m = A @ replicate (unat n) Free @ B"
      "memory_segs m' = A @ Block (unat n) # B" "p = segs_len A"
    using memory_allocate_refines [OF wf n(1)] p by auto
  have ok: "list_all seg_ok (memory_segs m)" using wf by (elim memory_wfE)
  have "length A \<le> length A0"
  proof (rule ccontr)
    assume *: "\<not> length A \<le> length A0"
    then obtain X where X: "A = A0 @ X" "X \<noteq> []"
      using m'(3) A0 by (metis append_eq_append_conv_if linorder_not_less append_take_drop_id drop_eq_Nil nat_less_le)
    then have "0 < segs_len X" using ok length_le_segs_len [of X] m'(3) by (cases X) auto
    then show False using min m'(5) X by simp
  qed
  then have "N - unat n \<le> length B" using arg_cong [OF m'(3), of length] A0 by simp
  then obtain B1 B2 where B: "B = B1 @ B2" "length B2 = N - unat n"
    by (metis append_take_drop_id length_drop diff_diff_cancel)
  have "B2 = replicate (N - unat n) Free"
    using append_replicate_suffix [of A0 N Free "A @ replicate (unat n) Free @ B1" B2 "N - unat n"] A0 m'(3) B by simp
  then have "memory_segs m' = (A @ Block (unat n) # B1) @ replicate (N - unat n) Free" using m'(4) B by simp
  then show ?thesis using m'(1,2) unfolding tail_free_def by blast
qed

lemma addsym_tail:
  assumes "memory_wf m" and "0 \<notin> set name" and "name \<noteq> []" and "length name + 1 < 2 ^ 32"
    and "tail_free m N" and "length name + 4 \<le> N"
  shows "\<exists>r ss' m'. symrepr_addsym ss m name = Some (r, ss', m') \<and> r \<noteq> None \<and> added ss m name r ss' m' \<and>
    tail_free m' (N - (length name + 4))"
proof -
  obtain node m1 where m1: "memory_allocate m 3 = Some (node, m1)" "node \<noteq> 0" "tail_free m1 (N - 3)"
    using allocate_tail [OF assms(1,5), of 3] assms(6) by auto
  have wf1: "memory_wf m1" using allocate_extends [OF assms(1), of 3] m1(1) by (auto simp: extends_def)
  note n = name_words(1) [OF assms(4)]
  have le: "length name + 1 \<le> N - 3" using assms(6) by linarith
  obtain storage m2 where m2: "memory_allocate m1 (of_nat (length name) + 1) = Some (storage, m2)" "storage \<noteq> 0"
      "tail_free m2 (N - 3 - (length name + 1))"
    using allocate_tail [OF wf1 m1(3), of "of_nat (length name) + 1"] le unfolding n by auto
  obtain r ss' m' where "symrepr_addsym ss m name = Some (r, ss', m')" "r \<noteq> None" "added ss m name r ss' m'" "memory_segs m' = memory_segs m2"
    using addsym_node [OF assms(1-4) m1(1,2) m2(1,2)] by blast
  moreover have "tail_free m2 (N - (length name + 4))" using m2(3) by (simp add: add.commute)
  ultimately show ?thesis by (auto simp: tail_free_def)
qed

subsection \<open>Trees of forms\<close>

definition known :: "(cstring \<times> UINT) list \<Rightarrow> string \<Rightarrow> UINT option" where
  "known es x = (case find (\<lambda>(s, i). cstr x = cstr s) special_symbols of Some (s, i) \<Rightarrow> Some i | None \<Rightarrow> map_of es (cstr x))"

primrec names_known :: "(cstring \<times> UINT) list \<Rightarrow> form \<Rightarrow> bool" where
  "names_known es (Int_lit n) = True"
| "names_known es (Uint_lit n) = True"
| "names_known es (Char_lit c) = True"
| "names_known es (Symbol_lit x) = (known es x \<noteq> None)"
| "names_known es (Quote_form e) = names_known es e"
| "names_known es (List_form fs) = list_all (names_known es) fs"

abbreviation proper :: "sexp list \<Rightarrow> sexp" where
  "proper ts \<equiv> foldr Cell ts nil_tree"

primrec form_tree :: "(cstring \<times> UINT) list \<Rightarrow> form \<Rightarrow> sexp" where
  "form_tree es (Int_lit n) = Atom (enc_i (of_nat n))"
| "form_tree es (Uint_lit n) = Atom (enc_u (of_nat n))"
| "form_tree es (Char_lit c) = Atom (enc_char (of_char c))"
| "form_tree es (Symbol_lit x) = Atom (enc_sym (the (known es x)))"
| "form_tree es (Quote_form e) = Cell (leaf_sym DEF_REPR_QUOTE) (Cell (form_tree es e) nil_tree)"
| "form_tree es (List_form fs) = proper (map (form_tree es) fs)"

text \<open>The cells of the heap and the words of the memory a form needs at most.\<close>

primrec form_cells :: "form \<Rightarrow> nat" where
  "form_cells (Int_lit n) = 0"
| "form_cells (Uint_lit n) = 0"
| "form_cells (Char_lit c) = 0"
| "form_cells (Symbol_lit x) = 0"
| "form_cells (Quote_form e) = form_cells e + 2"
| "form_cells (List_form fs) = sum_list (map form_cells fs) + length fs"

primrec form_words :: "form \<Rightarrow> nat" where
  "form_words (Int_lit n) = 0"
| "form_words (Uint_lit n) = 0"
| "form_words (Char_lit c) = 0"
| "form_words (Symbol_lit x) = length x + 4"
| "form_words (Quote_form e) = form_words e"
| "form_words (List_form fs) = sum_list (map form_words fs)"

text \<open>New names do not change what is known.\<close>

lemma map_le_lookup: "f \<subseteq>\<^sub>m g \<Longrightarrow> f k = Some v \<Longrightarrow> g k = Some v"
  by (metis domI map_le_def)

lemma known_mono: "map_of es \<subseteq>\<^sub>m map_of es' \<Longrightarrow> known es x = Some i \<Longrightarrow> known es' x = Some i"
  by (auto simp: known_def dest: map_le_lookup split: option.splits)

lemma form_tree_mono:
  assumes "map_of es \<subseteq>\<^sub>m map_of es'"
  shows "names_known es e \<Longrightarrow> names_known es' e \<and> form_tree es' e = form_tree es e"
proof (induction e)
  case (Symbol_lit x)
  then show ?case using known_mono [OF assms] by auto
next
  case (List_form fs)
  then have "map (form_tree es') fs = map (form_tree es) fs" "list_all (names_known es') fs" by (auto simp: list_all_iff)
  then show ?case by (simp only: form_tree.simps names_known.simps simp_thms)
qed simp_all

subsection \<open>Names\<close>

text \<open>
  A state in which the names \<open>es\<close> are known and which has room for \<open>c\<close> cells and \<open>w\<close> words of names.
\<close>

definition ready :: "runtime \<Rightarrow> (cstring \<times> UINT) list \<Rightarrow> nat \<Rightarrow> nat \<Rightarrow> bool" where
  "ready rt es c w \<longleftrightarrow> heap_wf (rt_heap rt) \<and> c \<le> room (rt_heap rt) \<and> memory_wf (rt_mem rt) \<and> tail_free (rt_mem rt) w \<and>
     symlist_at (rt_mem rt) (ss_symlist (rt_sym rt)) es \<and> distinct (map snd es) \<and>
     (\<forall>e \<in> set es. 4096 \<le> unat (snd e) \<and> unat (snd e) < 4096 + unat (ss_next_symbol_id (rt_sym rt))) \<and>
     unat (ss_next_symbol_id (rt_sym rt)) + 4096 + w < 2 ^ 28"

definition grows :: "runtime \<Rightarrow> (cstring \<times> UINT) list \<Rightarrow> runtime \<Rightarrow> (cstring \<times> UINT) list \<Rightarrow> bool" where
  "grows rt es rt' es' \<longleftrightarrow> heap_ext (rt_heap rt) (rt_heap rt') \<and> extends (rt_mem rt) (rt_mem rt') \<and> map_of es \<subseteq>\<^sub>m map_of es'"

lemma grows_refl: "ready rt es c w \<Longrightarrow> grows rt es rt es"
  by (simp add: ready_def grows_def store.ext_refl extends_refl)

lemma grows_trans: "grows rt es rt' es' \<Longrightarrow> grows rt' es' rt'' es'' \<Longrightarrow> grows rt es rt'' es''"
  by (auto simp: grows_def intro: heap_ext_trans extends_trans map_le_trans)

lemma ready_less: "ready rt es c w \<Longrightarrow> c' \<le> c \<Longrightarrow> w' \<le> w \<Longrightarrow> ready rt es c' w'"
  using tail_free_less by (fastforce simp: ready_def)

lemma ready_cons:
  assumes "ready rt es (Suc c) w" and "shape (rt_heap rt) a t" and "shape (rt_heap rt) d u"
  shows "\<exists>v rt'. rt_cons rt a d = Some (v, rt') \<and> ready rt' es c w \<and> grows rt es rt' es \<and> shape (rt_heap rt') v (Cell t u) \<and> \<not> is_rerror v"
proof -
  have r: "heap_wf (rt_heap rt)" "0 < room (rt_heap rt)" using assms(1) by (auto simp: ready_def)
  obtain v h' where "cons (rt_heap rt) a d = Some (v, h')" "heap_wf h'" "heap_ext (rt_heap rt) h'" "room (rt_heap rt) = room h' + 1"
      "shape h' v (Cell t u)"
    using allocates_cons [OF r assms(2,3)] unfolding allocates_def by blast
  moreover from this have "\<not> is_rerror v" by (simp add: is_rerror_def)
  ultimately show ?thesis using assms(1) by (auto simp: rt_cons_def ready_def grows_def extends_refl)
qed

lemma special_table: "list_all (\<lambda>(s, i). unat i < 2 ^ 28 \<and> (i = DEF_REPR_RERROR \<longrightarrow> s = ''read_error'')) special_symbols"
  by (simp add: special_symbols_def)

lemma unat_of_char: "unat (of_char c :: 8 word) = of_char c"
proof -
  have "unat (of_char c :: 8 word) = unat (of_nat (of_char c) :: 8 word)" by (simp only: of_nat_of_char)
  also have "\<dots> = of_char c mod 256" by (simp only: unat_of_nat) simp
  finally show ?thesis by (simp only: of_char_mod_256)
qed

lemma byte_of_char_inj: "(of_char c :: 8 word) = of_char d \<longleftrightarrow> c = d"
  by (metis unat_of_char of_char_eq_iff)

lemma cstr_inj: "cstr x = cstr y \<longleftrightarrow> x = y"
  by (simp add: cstr_def byte_of_char_inj inj_map_eq_map inj_on_def)

text \<open>The name of the error symbol has a character no name in a program has.\<close>

lemma special_name:
  assumes "(s, i) \<in> set special_symbols" and "cstr x = cstr s" and "name_ok x"
  shows "unat i < 2 ^ 28" and "i \<noteq> DEF_REPR_RERROR"
proof -
  have t: "unat i < 2 ^ 28" "i = DEF_REPR_RERROR \<longrightarrow> s = ''read_error''"
    using assms(1) special_table by (auto simp: list_all_iff)
  show "unat i < 2 ^ 28" by (rule t(1))
  show "i \<noteq> DEF_REPR_RERROR" using t(2) assms(2,3) by (auto simp: cstr_inj name_ok_def symchar_def)
qed

lemma known_ok:
  assumes "ready rt es c w" and "name_ok x" and "known es x = Some i"
  shows "unat i < 2 ^ 28" and "i \<noteq> DEF_REPR_RERROR"
proof -
  have "unat i < 2 ^ 28 \<and> i \<noteq> DEF_REPR_RERROR"
  proof (cases "find (\<lambda>(s, i). cstr x = cstr s) special_symbols")
    case None
    then have "(cstr x, i) \<in> set es" using assms(3) by (auto simp: known_def dest: map_of_SomeD)
    then show ?thesis using assms(1) by (auto simp: ready_def)
  next
    case (Some si)
    then obtain s where "si = (s, i)" using assms(3) by (cases si) (auto simp: known_def)
    with Some have "(s, i) \<in> set special_symbols" "cstr x = cstr s" by (auto simp: find_Some_iff intro: nth_mem dest: sym)
    then show ?thesis using special_name [OF _ _ assms(2)] by blast
  qed
  then show "unat i < 2 ^ 28" and "i \<noteq> DEF_REPR_RERROR" by simp_all
qed

lemma name_bytes:
  assumes "name_ok x"
  shows "0 \<notin> set (cstr x)" and "cstr x \<noteq> []"
proof -
  have "NUL \<notin> set x" using assms symchar_nul by (auto simp: name_ok_def)
  moreover have "(of_char c :: 8 word) = 0 \<longleftrightarrow> c = NUL" for c :: char
    using byte_of_char_inj [of c NUL] by (simp only: of_char_Char horner_sum_simps) simp
  ultimately show "0 \<notin> set (cstr x)" by (force simp: cstr_def)
  show "cstr x \<noteq> []" using assms by (auto simp: cstr_def name_ok_def)
qed

lemma enc_sym_ok: "unat i < 2 ^ 28 \<Longrightarrow> i \<noteq> DEF_REPR_RERROR \<Longrightarrow> \<not> is_rerror (enc_sym i) \<and> shape h (enc_sym i) (Atom (enc_sym i))"
  by (simp add: is_rerror_def dec_sym_enc_sym)

text \<open>What reading something gives: the state grows, the rest of the room is left and the value is the tree.\<close>

definition builds :: "runtime \<Rightarrow> (cstring \<times> UINT) list \<Rightarrow> nat \<Rightarrow> nat \<Rightarrow> form list \<Rightarrow> ((cstring \<times> UINT) list \<Rightarrow> sexp) \<Rightarrow>
    VALUE \<Rightarrow> runtime \<Rightarrow> bool" where
  "builds rt es c w fs T v rt' \<longleftrightarrow> \<not> is_rerror v \<and>
     (\<exists>es'. ready rt' es' c w \<and> grows rt es rt' es' \<and> list_all (names_known es') fs \<and> shape (rt_heap rt') v (T es'))"

abbreviation builds_form :: "runtime \<Rightarrow> (cstring \<times> UINT) list \<Rightarrow> nat \<Rightarrow> nat \<Rightarrow> form \<Rightarrow> VALUE \<Rightarrow> runtime \<Rightarrow> bool" where
  "builds_form rt es c w e \<equiv> builds rt es c w [e] (\<lambda>es. form_tree es e)"

abbreviation builds_list :: "runtime \<Rightarrow> (cstring \<times> UINT) list \<Rightarrow> nat \<Rightarrow> nat \<Rightarrow> form list \<Rightarrow> VALUE \<Rightarrow> runtime \<Rightarrow> bool" where
  "builds_list rt es c w fs \<equiv> builds rt es c w fs (\<lambda>es. proper (map (form_tree es) fs))"

lemma parse_symbol_builds:
  assumes "ready rt es c (length x + 4 + w)" and "name_ok x"
  shows "\<exists>v rt'. parse_symbol rt x = Some (v, rt') \<and> builds_form rt es c w (Symbol_lit x) v rt'"
proof -
  note r = assms(1) [unfolded ready_def]
  have look: "symrepr_lookup (rt_sym rt) (rt_mem rt) (cstr x) = Some (known es x)"
    using lookup_entries [of "rt_mem rt" "rt_sym rt" es "cstr x"] r name_bytes(1) [OF assms(2)] by (simp add: known_def)
  show ?thesis
  proof (cases "known es x")
    case (Some i)
    have rd: "ready rt es c w" using ready_less [OF assms(1)] by simp
    then show ?thesis
      using look Some enc_sym_ok [OF known_ok [OF assms Some]] grows_refl [OF rd] by (auto simp: parse_symbol_def builds_def)
  next
    case None
    have len: "length (cstr x) = length x" by (simp add: cstr_def)
    obtain i ss' m' where a: "symrepr_addsym (rt_sym rt) (rt_mem rt) (cstr x) = Some (Some i, ss', m')"
        "added (rt_sym rt) (rt_mem rt) (cstr x) (Some i) ss' m'" "tail_free m' w"
      using addsym_tail [of "rt_mem rt" "cstr x" "length x + 4 + w" "rt_sym rt"] r name_bytes [OF assms(2)] by (auto simp: len)
    let ?rt = "rt\<lparr>rt_sym := ss', rt_mem := m'\<rparr>" and ?es = "(cstr x, i) # es"
    have i: "unat i = 4096 + unat (ss_next_symbol_id (rt_sym rt))" "unat (ss_next_symbol_id ss') = unat (ss_next_symbol_id (rt_sym rt)) + 1"
      using a(2) r by (auto simp: added_def unat_word_ariths)
    have fresh: "find (\<lambda>(s, i). cstr x = cstr s) special_symbols = None" "map_of es (cstr x) = None"
      using None by (auto simp: known_def split: option.splits)
    have k: "known ?es x = Some i" using fresh by (simp add: known_def)
    have rd: "ready ?rt ?es c w" using r a(2,3) i by (auto simp: ready_def added_def extends_def)
    have "grows rt es ?rt ?es" using a(2) r fresh(2) by (auto simp: grows_def added_def map_le_def store.ext_refl)
    then show ?thesis
      using look None a(1) k rd enc_sym_ok [OF known_ok [OF rd assms(2) k]] by (auto simp: parse_symbol_def builds_def)
  qed
qed

subsection \<open>Forms\<close>

lemma builds_cons:
  assumes f: "ready rt1 es1 c1 w1" "grows rt es rt1 es1" "names_known es1 f" "shape (rt_heap rt1) v (form_tree es1 f)"
    and fs: "builds_list rt1 es1 (Suc c) w fs u rt2"
  shows "\<exists>x rt3. rt_cons rt2 v u = Some (x, rt3) \<and> builds_list rt es c w (f # fs) x rt3"
proof -
  obtain es2 where es2: "ready rt2 es2 (Suc c) w" "grows rt1 es1 rt2 es2" "list_all (names_known es2) fs"
      "shape (rt_heap rt2) u (proper (map (form_tree es2) fs))"
    using fs by (auto simp: builds_def)
  have f2: "names_known es2 f" "form_tree es2 f = form_tree es1 f"
    using form_tree_mono [of es1 es2 f] f(3) es2(2) by (simp_all add: grows_def)
  have "shape (rt_heap rt2) v (form_tree es2 f)" using f(4) es2(2) shape_ext unfolding f2(2) grows_def by blast
  then obtain x rt3 where x: "rt_cons rt2 v u = Some (x, rt3)" "ready rt3 es2 c w" "grows rt2 es2 rt3 es2"
      "shape (rt_heap rt3) x (Cell (form_tree es2 f) (proper (map (form_tree es2) fs)))" "\<not> is_rerror x"
    using ready_cons [OF es2(1) _ es2(4)] by blast
  moreover have "grows rt es rt3 es2" using grows_trans [OF f(2) grows_trans [OF es2(2) x(3)]] .
  ultimately show ?thesis using f2(1) es2(3) by (auto simp: builds_def)
qed

lemma ready_builds:
  assumes "ready rt es c w" and "shape (rt_heap rt) v (T es)" and "\<not> is_rerror v" and "list_all (names_known es) fs"
  shows "builds rt es c w fs T v rt"
  using assms grows_refl [OF assms(1)] by (auto simp: builds_def)

lemma wrap_quote:
  assumes "builds_form rt es (c + 2) w e v rt1"
  shows "\<exists>x rt2. wrap_sexp rt1 DEF_REPR_QUOTE v = Some (x, rt2) \<and> builds_form rt es c w (Quote_form e) x rt2"
proof -
  obtain es1 where es1: "ready rt1 es1 (Suc (Suc c)) w" "grows rt es rt1 es1" "names_known es1 e" "shape (rt_heap rt1) v (form_tree es1 e)"
    using assms by (auto simp: builds_def)
  have nil: "shape h (enc_sym DEF_REPR_NIL) nil_tree" for h by simp
  obtain l rt2 where l: "rt_cons rt1 v (enc_sym DEF_REPR_NIL) = Some (l, rt2)" "ready rt2 es1 (Suc c) w" "grows rt1 es1 rt2 es1"
      "shape (rt_heap rt2) l (Cell (form_tree es1 e) nil_tree)"
    using ready_cons [OF es1(1,4) nil] by blast
  have q: "shape (rt_heap rt2) (enc_sym DEF_REPR_QUOTE) (leaf_sym DEF_REPR_QUOTE)" by simp
  obtain x rt3 where x: "rt_cons rt2 (enc_sym DEF_REPR_QUOTE) l = Some (x, rt3)" "ready rt3 es1 c w" "grows rt2 es1 rt3 es1"
      "shape (rt_heap rt3) x (form_tree es1 (Quote_form e))" "\<not> is_rerror x"
    using ready_cons [OF l(2) q l(4)] by auto
  moreover have "grows rt es rt3 es1" using grows_trans [OF es1(2) grows_trans [OF l(3) x(3)]] .
  ultimately show ?thesis using l(1) es1(3) assms by (auto simp: wrap_sexp_def builds_def)
qed

text \<open>What the parser has to do for one form, from any state with enough room.\<close>

definition parses_form :: "tok_env \<Rightarrow> form \<Rightarrow> bool" where
  "parses_form E e \<longleftrightarrow> (\<forall>k ks t r rt es c w. form_tokens e = k # ks \<longrightarrow> tokenises E t ks r \<longrightarrow>
     ready rt es (form_cells e + c) (form_words e + w) \<longrightarrow>
     (\<exists>v rt'. parse_exp E text_stream (Sexp k) rt t = Some (v, rt', r) \<and> builds_form rt es c w e v rt'))"

lemma form_tokens_start: "\<exists>k ks. form_tokens e = k # ks \<and> k \<notin> {TOKENIZER_END, TOKENIZER_ERROR, TOKCLOSEPAR}"
  by (cases e) auto

lemma parse_list_forms:
  assumes "\<forall>e \<in> set fs. parses_form E e" and "concat (map form_tokens fs) @ [TOKCLOSEPAR] = k # ks" and "tokenises E t ks r"
    and "ready rt es (sum_list (map form_cells fs) + length fs + c) (sum_list (map form_words fs) + w)"
  shows "\<exists>v rt'. parse_exp E text_stream (Sexp_List k) rt t = Some (v, rt', r) \<and> builds_list rt es c w fs v rt'"
  using assms
proof (induction fs arbitrary: k ks t rt es c)
  case Nil
  then have "builds_list rt es c w [] (enc_sym DEF_REPR_NIL) rt" by (intro ready_builds) (auto simp: is_rerror_def dec_sym_enc_sym)
  then show ?case using Nil by (subst parse_exp.simps) auto
next
  case (Cons f fs)
  obtain k1 ks1 where k1: "form_tokens f = k1 # ks1" "k1 \<notin> {TOKENIZER_END, TOKENIZER_ERROR, TOKCLOSEPAR}"
    using form_tokens_start by blast
  obtain k2 ks2 where k2: "concat (map form_tokens fs) @ [TOKCLOSEPAR] = k2 # ks2" by (cases "concat (map form_tokens fs) @ [TOKCLOSEPAR]") auto
  have k: "k = k1" "ks = ks1 @ k2 # ks2" using Cons.prems(2) k1(1) k2 by auto
  then obtain t1 t2 where t: "tokenises E t ks1 t1" "next_token E text_stream t1 = Some (k2, t2)" "tokenises E t2 ks2 r"
    using Cons.prems(3) by (auto simp: tokenises_append)
  let ?c = "sum_list (map form_cells fs) + length fs + Suc c" and ?w = "sum_list (map form_words fs) + w"
  have "ready rt es (form_cells f + ?c) (form_words f + ?w)" using Cons.prems(4) by (simp add: algebra_simps)
  then obtain v rt1 where v: "parse_exp E text_stream (Sexp k) rt t = Some (v, rt1, t1)" "builds_form rt es ?c ?w f v rt1"
    using Cons.prems(1) k1(1) t(1) unfolding parses_form_def k(1) list.set by blast
  then obtain es1 where es1: "ready rt1 es1 ?c ?w" "grows rt es rt1 es1" "names_known es1 f" "shape (rt_heap rt1) v (form_tree es1 f)"
    by (auto simp: builds_def)
  obtain u rt2 where u: "parse_exp E text_stream (Sexp_List k2) rt1 t2 = Some (u, rt2, r)" "builds_list rt1 es1 (Suc c) w fs u rt2"
    using Cons.IH [OF _ k2 t(3) es1(1)] Cons.prems(1) by auto
  obtain x rt3 where x: "rt_cons rt2 v u = Some (x, rt3)" "builds_list rt es c w (f # fs) x rt3" using builds_cons [OF es1 u(2)] by blast
  have "list_sexp rt2 v u = Some (x, rt3)" using v(2) u(2) x(1) by (simp add: list_sexp_def builds_def)
  then show ?case using v(1) t(2) u(1) x(2) k1(2) k(1) by (subst parse_exp.simps) auto
qed

lemma parses_form_atom:
  assumes "form_tokens e = [k]" and "\<And>rt es c w. ready rt es (form_cells e + c) (form_words e + w) \<Longrightarrow>
    \<exists>v rt'. parse_atom rt k = Some (Some (v, rt')) \<and> builds_form rt es c w e v rt'"
  shows "parses_form E e"
  unfolding parses_form_def
proof (intro allI impI)
  fix k' ks t r rt es c w
  assume a: "form_tokens e = k' # ks" "tokenises E t ks r" "ready rt es (form_cells e + c) (form_words e + w)"
  then obtain v rt' where "parse_atom rt k = Some (Some (v, rt'))" "builds_form rt es c w e v rt'" using assms(2) by blast
  then show "\<exists>v rt'. parse_exp E text_stream (Sexp k') rt t = Some (v, rt', r) \<and> builds_form rt es c w e v rt'"
    using a(1,2) assms(1) by (subst parse_exp.simps) auto
qed

lemma parses_form_leaf:
  assumes "form_tokens e = [k]" and "\<And>rt. parse_atom rt k = Some (Some (v, rt))" and "\<And>es. form_tree es e = Atom v"
    and "\<And>es. names_known es e" and "\<And>h. shape h v (Atom v)" and "\<not> is_rerror v"
  shows "parses_form E e"
proof (rule parses_form_atom [OF assms(1)])
  fix rt es c w
  assume "ready rt es (form_cells e + c) (form_words e + w)"
  then have "ready rt es c w" by (rule ready_less) simp_all
  then have "builds_form rt es c w e v rt" using assms(3-6) by (intro ready_builds) simp_all
  then show "\<exists>v rt'. parse_atom rt k = Some (Some (v, rt')) \<and> builds_form rt es c w e v rt'" using assms(2) by blast
qed

lemma parses_quote:
  assumes "parses_form E e"
  shows "parses_form E (Quote_form e)"
  unfolding parses_form_def
proof (intro allI impI)
  fix k ks t r rt es c w
  assume a: "form_tokens (Quote_form e) = k # ks" "tokenises E t ks r"
    "ready rt es (form_cells (Quote_form e) + c) (form_words (Quote_form e) + w)"
  obtain k1 ks1 where k1: "form_tokens e = k1 # ks1" using form_tokens_start by blast
  obtain t1 where t1: "next_token E text_stream t = Some (k1, t1)" "tokenises E t1 ks1 r" using a(1,2) unfolding form_tokens.simps k1 by auto
  have "ready rt es (form_cells e + (c + 2)) (form_words e + w)" using a(3) by (simp add: algebra_simps)
  then obtain v rt1 where v: "parse_exp E text_stream (Sexp k1) rt t1 = Some (v, rt1, r)" "builds_form rt es (c + 2) w e v rt1"
    using assms k1 t1(2) unfolding parses_form_def by blast
  then show "\<exists>v rt'. parse_exp E text_stream (Sexp k) rt t = Some (v, rt', r) \<and> builds_form rt es c w (Quote_form e) v rt'"
    using wrap_quote [OF v(2)] t1(1) a(1) by (subst parse_exp.simps) (auto simp: parse_atom_def)
qed

lemma parses_list:
  assumes all: "\<forall>e \<in> set fs. parses_form E e"
  shows "parses_form E (List_form fs)"
  unfolding parses_form_def
proof (intro allI impI)
  fix k ks t r rt es c w
  assume a: "form_tokens (List_form fs) = k # ks" "tokenises E t ks r"
    "ready rt es (form_cells (List_form fs) + c) (form_words (List_form fs) + w)"
  obtain k1 ks1 where k1: "concat (map form_tokens fs) @ [TOKCLOSEPAR] = k1 # ks1"
    by (cases "concat (map form_tokens fs) @ [TOKCLOSEPAR]") auto
  obtain t1 where t1: "next_token E text_stream t = Some (k1, t1)" "tokenises E t1 ks1 r" using a(1,2) unfolding form_tokens.simps k1 by auto
  obtain v rt' where "parse_exp E text_stream (Sexp_List k1) rt t1 = Some (v, rt', r)" "builds_list rt es c w fs v rt'"
    using parse_list_forms [OF all k1 t1(2), of rt es c w] a(3) by auto
  then have "builds_form rt es c w (List_form fs) v rt'" "parse_exp E text_stream (Sexp TOKOPENPAR) rt t = Some (v, rt', r)"
    using t1(1) by (auto simp: builds_def parse_exp.simps [of _ _ "Sexp TOKOPENPAR"] parse_atom_def)
  then show "\<exists>v rt'. parse_exp E text_stream (Sexp k) rt t = Some (v, rt', r) \<and> builds_form rt es c w (List_form fs) v rt'"
    using a(1) by auto
qed

lemma form_parses: "form_ok e \<Longrightarrow> parses_form E e"
proof (induction e)
  case (Int_lit n)
  show ?case by (rule parses_form_leaf [of _ "TOKINT (of_nat n)" "enc_i (of_nat n)"]) (simp_all add: parse_atom_def is_rerror_def type_of_enc_i)
next
  case (Uint_lit n)
  show ?case by (rule parses_form_leaf [of _ "TOKUINT (of_nat n)" "enc_u (of_nat n)"]) (simp_all add: parse_atom_def is_rerror_def)
next
  case (Char_lit c)
  show ?case by (rule parses_form_leaf [of _ "TOKCHAR c" "enc_char (of_char c)"]) (simp_all add: parse_atom_def is_rerror_def)
next
  case (Symbol_lit x)
  show ?case
    using parse_symbol_builds [of _ _ _ x] Symbol_lit by (intro parses_form_atom [of _ "TOKSYMBOL x (length x)"]) (simp_all add: parse_atom_def)
next
  case (Quote_form e)
  then show ?case by (simp add: parses_quote)
next
  case (List_form fs)
  then show ?case by (simp add: parses_list list_all_iff)
qed

lemma parse_program_forms:
  assumes "list_all form_ok fs" and "tokenises E t (concat (map form_tokens fs)) r" and "next_token E text_stream r = Some (TOKENIZER_END, r')"
    and "ready rt es (sum_list (map form_cells fs) + length fs + c) (sum_list (map form_words fs) + w)"
  shows "\<exists>v rt'. parse_program E text_stream rt t = Some (v, rt') \<and> builds_list rt es c w fs v rt'"
  using assms
proof (induction fs arbitrary: t rt es c)
  case Nil
  then have "builds_list rt es c w [] (enc_sym DEF_REPR_NIL) rt" by (intro ready_builds) (auto simp: is_rerror_def dec_sym_enc_sym)
  then show ?case using Nil by (subst parse_program.simps) auto
next
  case (Cons f fs)
  obtain k1 ks1 where k1: "form_tokens f = k1 # ks1" "k1 \<notin> {TOKENIZER_END, TOKENIZER_ERROR, TOKCLOSEPAR}"
    using form_tokens_start by blast
  obtain t1 t2 where t: "next_token E text_stream t = Some (k1, t1)" "tokenises E t1 ks1 t2" "tokenises E t2 (concat (map form_tokens fs)) r"
    using Cons.prems(2) by (auto simp: tokenises_append k1(1))
  let ?c = "sum_list (map form_cells fs) + length fs + Suc c" and ?w = "sum_list (map form_words fs) + w"
  have "ready rt es (form_cells f + ?c) (form_words f + ?w)" using Cons.prems(4) by (simp add: algebra_simps)
  then obtain v rt1 where v: "parse_exp E text_stream (Sexp k1) rt t1 = Some (v, rt1, t2)" "builds_form rt es ?c ?w f v rt1"
    using form_parses [of f E] Cons.prems(1) k1(1) t(2) unfolding parses_form_def list.pred_inject(2) by blast
  then obtain es1 where es1: "ready rt1 es1 ?c ?w" "grows rt es rt1 es1" "names_known es1 f" "shape (rt_heap rt1) v (form_tree es1 f)"
    by (auto simp: builds_def)
  obtain u rt2 where u: "parse_program E text_stream rt1 t2 = Some (u, rt2)" "builds_list rt1 es1 (Suc c) w fs u rt2"
    using Cons.IH [OF _ t(3) Cons.prems(3) es1(1)] Cons.prems(1) by auto
  show ?case
    using builds_cons [OF es1 u(2)] v(1) t(1) u(1) k1(2) by (subst parse_program.simps) (auto simp: parse_sexp_def)
qed

end
