(* ===== verification/Read_Print.thy ===== *)
theory Read_Print
  imports Parser_Forms Parser_Streams Printer_Correct
begin

text \<open>
  Reading and printing together: \<open>tokpar_parse\<close> of \<open>src/tokpar.c\<close> turns the text of a program into the list of its
  forms, and \<open>print_value\<close> of \<open>src/print.c\<close> turns such a list into text. The text of a program whose forms have no
  quote marks and no empty lists is printed as it was read, between parentheses.
\<close>

definition program_text :: "form list \<Rightarrow> string" where
  "program_text fs = spaced (map form_text fs)"

subsection \<open>Reading a program\<close>

interpretation plain_str: two_streams text_stream "\<lambda>t t'. t' = t \<and> NUL \<notin> set t" string_stream "string_delivers str" for str
  by unfold_locales

text \<open>What may follow the last form: nothing, or a line end and blanks.\<close>

definition blank :: "string \<Rightarrow> bool" where
  "blank u \<longleftrightarrow> delimited u \<and> nul_free u \<and> trim u = []"

lemma blank_simps [simp]: "blank []" "blank [CHR 0x0A]"
  by (simp_all add: blank_def delimited_def nul_free_def isspace_def)

lemma program_tokens:
  assumes "mallocs E" and "list_all form_ok fs" and "blank u"
  shows "tokenises E (program_text fs @ u) (concat (map form_tokens fs)) u" and "NUL \<notin> set (program_text fs @ u)"
proof -
  have "\<forall>e \<in> set fs. reads_form E e" using assms(1,2) form_tokenises by (auto simp: list_all_iff)
  then show "tokenises E (program_text fs @ u) (concat (map form_tokens fs)) u"
    unfolding program_text_def using assms(2,3) by (intro reads_spaced) (simp_all add: blank_def)
  have "nul_free (form_text (List_form fs))" using assms(2) by (intro form_text_nul) simp
  then show "NUL \<notin> set (program_text fs @ u)" using assms(3) by (auto simp: program_text_def nul_free_def blank_def)
qed

lemma parse_text_forms:
  assumes "mallocs E" and "list_all form_ok fs" and "blank u"
    and "ready rt es (sum_list (map form_cells fs) + length fs + c) (sum_list (map form_words fs) + w)"
  shows "\<exists>v rt'. tokpar_parse E rt (program_text fs @ u) = Some (v, rt') \<and> builds_list rt es c w fs v rt'"
proof -
  let ?t = "program_text fs @ u" and ?s = "\<lparr>ts_str = program_text fs @ u, ts_pos = 0\<rparr>"
  note tok = program_tokens [OF assms(1-3)]
  have "next_token E text_stream u = Some (TOKENIZER_END, [])" using assms(3) by (intro next_token_end) (simp_all add: blank_def)
  then obtain v rt' where v: "parse_program E text_stream rt ?t = Some (v, rt')" "builds_list rt es c w fs v rt'"
    using parse_program_forms [OF assms(2) tok(1) _ assms(4)] by blast
  have "plain_str.same_text ?t ?t ?s"
    unfolding plain_str.same_text_def using tok(2) by (auto simp: string_delivers_def nul_free_def)
  then have "sim (=) (parse_program E text_stream rt ?t) (parse_program E string_stream rt ?s)"
    by (rule plain_str.tokens.sim_parse_program)
  then show ?thesis using v by (auto simp: sim_def tokpar_parse_def)
qed

lemma tokpar_parse_forms:
  assumes "mallocs E" and "list_all form_ok fs"
    and "ready rt es (sum_list (map form_cells fs) + length fs + c) (sum_list (map form_words fs) + w)"
  shows "\<exists>v rt'. tokpar_parse E rt (program_text fs) = Some (v, rt') \<and> builds_list rt es c w fs v rt'"
  using parse_text_forms [OF assms(1,2) _ assms(3), of "[]"] by simp

subsection \<open>Printing what was read\<close>

text \<open>Forms that are printed as they are written, and the words of the work stack the printer needs for them.\<close>

primrec printable :: "form \<Rightarrow> bool" where
  "printable (Int_lit n) \<longleftrightarrow> n < 2 ^ 27"
| "printable (Uint_lit n) \<longleftrightarrow> False"
| "printable (Char_lit c) \<longleftrightarrow> True"
| "printable (Symbol_lit x) \<longleftrightarrow> True"
| "printable (Quote_form e) \<longleftrightarrow> False"
| "printable (List_form fs) \<longleftrightarrow> fs \<noteq> [] \<and> list_all printable fs"

primrec print_words :: "form \<Rightarrow> nat" where
  "print_words (Int_lit n) = 2"
| "print_words (Uint_lit n) = 2"
| "print_words (Char_lit c) = 2"
| "print_words (Symbol_lit x) = 2"
| "print_words (Quote_form e) = print_words e + 2"
| "print_words (List_form fs) = 2 + foldr max (map print_words fs) 0"

lemma cstring_text_cstr: "cstring_text (cstr x) = x"
  by (simp add: cstring_text_def cstr_def unat_of_char comp_def)

lemma special_distinct: "distinct (map snd special_symbols)" "list_all (\<lambda>e. snd e < MAX_SPECIAL_SYMBOLS) special_symbols"
  by (simp_all add: special_symbols_def)

lemma find_snd: "distinct (map snd es) \<Longrightarrow> (x, i) \<in> set es \<Longrightarrow> find (\<lambda>e. snd e = i) es = Some (x, i)"
  by (induction es) (auto simp: image_iff rev_image_eqI)

lemma atom_text_symbol:
  assumes "ready rt es c w" and "name_ok x" and "known es x = Some i"
  shows "atom_text f_text rt (enc_sym i) = Some (Inr x)"
proof -
  have i: "dec_sym (enc_sym i) = i" using known_ok(1) [OF assms] by (simp add: dec_sym_enc_sym)
  note r = assms(1) [unfolded ready_def]
  show ?thesis
  proof (cases "find (\<lambda>(s, i). cstr x = cstr s) special_symbols")
    case None
    then have e: "(cstr x, i) \<in> set es" using assms(3) by (auto simp: known_def dest: map_of_SomeD)
    have big: "\<not> i < MAX_SPECIAL_SYMBOLS" using e r by (auto simp: word_less_nat_alt)
    have f: "find (\<lambda>e. snd e = i) es = Some (cstr x, i)" using e r by (intro find_snd) auto
    obtain a where a: "lookup_name_loop (rt_mem rt) (ss_symlist (rt_sym rt)) i = Some a" "a \<noteq> 0" "read_cstring (rt_mem rt) a = Some (cstr x)"
      using lookup_name_entries [of "rt_mem rt" "ss_symlist (rt_sym rt)" es i] r f by auto
    then show ?thesis
      using big i by (simp add: atom_text_def symrepr_lookup_name_def lookup_symrepr_name_memory_def cstring_text_cstr)
  next
    case (Some si)
    then obtain s where s: "si = (s, i)" using assms(3) by (cases si) (auto simp: known_def)
    with Some have e: "(s, i) \<in> set special_symbols" "cstr x = cstr s" by (auto simp: find_Some_iff intro: nth_mem dest: sym)
    have "find (\<lambda>e. snd e = i) special_symbols = Some (s, i)" using find_snd [OF special_distinct(1) e(1)] .
    moreover have "(\<lambda>(name, j). i = j) = (\<lambda>e :: string \<times> UINT. snd e = i)" by auto
    moreover have "i < MAX_SPECIAL_SYMBOLS" using special_distinct(2) e(1) by (auto simp: list_all_iff)
    ultimately show ?thesis using e(2) i by (simp add: atom_text_def symrepr_lookup_name_def cstr_inj)
  qed
qed

lemma atom_text_int: "n < 2 ^ 27 \<Longrightarrow> atom_text f_text rt (enc_i (of_nat n)) = Some (Inr (nat_text 10 n))"
proof -
  assume n: "n < 2 ^ 27"
  then have "sint (of_nat n :: u32) = int n"
    by (simp add: signed_of_nat signed_take_bit_eq_if_positive take_bit_int_eq_self bit_iff_odd)
  then have "sint (dec_i (enc_i (of_nat n))) = int n" using n by (simp add: dec_i_enc_i signed_take_bit_int_eq_self)
  then show ?thesis by (simp add: atom_text_def i_text_def)
qed

lemma atom_text_char: "atom_text f_text rt (enc_char (of_char c)) = Some (Inr [BACKSLASH, CHR ''#'', c])"
  by (simp add: atom_text_def dec_char_enc_char unat_of_char)

lemma tail_words_proper: "shape h v (proper ts) \<Longrightarrow> length (tail_words v) \<le> 2"
  by (cases ts) (auto simp: tail_words_def dec_sym_enc_sym)

lemma prints_rest:
  assumes "\<forall>f \<in> set fs. \<forall>v k. shape (rt_heap rt) v (form_tree es f) \<longrightarrow> print_words f \<le> k \<longrightarrow> prints f_text rt v (form_text f) k"
    and "shape (rt_heap rt) v (proper (map (form_tree es) fs))" and "2 + foldr max (map print_words fs) 0 \<le> k"
  shows "prints_tail f_text rt v (rest_text fs @ '')'') k"
  using assms
proof (induction fs arbitrary: v)
  case Nil
  then show ?case by (auto intro!: tail_nil simp: dec_sym_enc_sym)
next
  case (Cons f fs)
  then obtain a d where v: "type_of v = PTR_TYPE_CONS" "car (rt_heap rt) v = Some a" "cdr (rt_heap rt) v = Some d"
      "shape (rt_heap rt) a (form_tree es f)" "shape (rt_heap rt) d (proper (map (form_tree es) fs))" by auto
  have k: "2 + print_words f \<le> k" "2 + foldr max (map print_words fs) 0 \<le> k" using Cons.prems(3) by auto
  have 1: "prints f_text rt a (form_text f) (print_words f)" using Cons.prems(1) v(4) by auto
  have 2: "prints_tail f_text rt d (rest_text fs @ '')'') k" using Cons.IH [OF _ v(5) k(2)] Cons.prems(1) by auto
  have "prints_tail f_text rt v ('' '' @ form_text f @ rest_text fs @ '')'') k"
    by (rule tail_list [OF v(1-3) 1 2]) (use k tail_words_proper [OF v(5)] in auto)
  then show ?case by simp
qed

lemma prints_form:
  assumes "ready rt es c w"
  shows "form_ok e \<Longrightarrow> printable e \<Longrightarrow> names_known es e \<Longrightarrow> shape (rt_heap rt) v (form_tree es e) \<Longrightarrow> print_words e \<le> k \<Longrightarrow>
    prints f_text rt v (form_text e) k"
proof (induction e arbitrary: v k)
  case (Int_lit n)
  then show ?case using nat_text_digits [of n] by (auto intro!: prints_atom simp: atom_text_int)
next
  case (Char_lit x)
  then show ?case by (auto intro!: prints_atom simp: atom_text_char)
next
  case (Symbol_lit x)
  then obtain i where "known es x = Some i" by auto
  then show ?case using Symbol_lit atom_text_symbol [OF assms, of x i] by (auto intro!: prints_atom simp: name_ok_def)
next
  case (List_form fs)
  then obtain f gs where fs: "fs = f # gs" by (cases fs) auto
  have all: "\<forall>g \<in> set fs. \<forall>v k. shape (rt_heap rt) v (form_tree es g) \<longrightarrow> print_words g \<le> k \<longrightarrow> prints f_text rt v (form_text g) k"
    using List_form by (simp add: list_all_iff)
  obtain a d where v: "type_of v = PTR_TYPE_CONS" "car (rt_heap rt) v = Some a" "cdr (rt_heap rt) v = Some d"
      "shape (rt_heap rt) a (form_tree es f)" "shape (rt_heap rt) d (proper (map (form_tree es) gs))"
    using List_form.prems(4) by (auto simp: fs)
  have k: "2 + print_words f \<le> k" "2 + foldr max (map print_words gs) 0 \<le> k" using List_form.prems(5) by (auto simp: fs)
  have 1: "prints f_text rt a (form_text f) (print_words f)" using all v(4) by (simp add: fs)
  have 2: "prints_tail f_text rt d (rest_text gs @ '')'') k" using all by (intro prints_rest [OF _ v(5) k(2)]) (simp add: fs)
  have "prints f_text rt v (''('' @ form_text f @ rest_text gs @ '')'') k"
    by (rule prints_list [OF v(1-3) 1 2]) (use k tail_words_proper [OF v(5)] in auto)
  then show ?case by (simp add: fs spaced_forms del: list.map)
qed simp_all

subsection \<open>Properties\<close>

text \<open>
  C15: the parser builds the forms of a program. For a program of numbers, characters, names, quoted forms and lists, written with
  one space between its forms, and a heap and a memory with room for its cells and its names, \<open>tokpar_parse\<close> ends and returns
  a list that is the list of the trees of its forms, over the names it knows in the end. Everything that was in the heap and in the
  memory before is still there, and names that were known keep their identifiers.
\<close>

theorem tokpar_parse_correct:
  assumes "\<forall>n. te_malloc E n" and "list_all form_ok fs" and "ready rt es (sum_list (map form_cells fs) + length fs) (sum_list (map form_words fs))"
  shows "\<exists>v rt' es'. tokpar_parse E rt (program_text fs) = Some (v, rt') \<and> shape (rt_heap rt') v (proper (map (form_tree es') fs)) \<and>
    symlist_at (rt_mem rt') (ss_symlist (rt_sym rt')) es' \<and> list_all (names_known es') fs \<and> map_of es \<subseteq>\<^sub>m map_of es' \<and>
    heap_wf (rt_heap rt') \<and> heap_ext (rt_heap rt) (rt_heap rt') \<and> memory_wf (rt_mem rt') \<and> extends (rt_mem rt) (rt_mem rt')"
  using tokpar_parse_forms [of E fs rt es 0 0] assms by (auto simp: mallocs_def builds_def ready_def grows_def)

text \<open>The program \<open>(+ ab 7)\<close>, in which \<open>ab\<close> is a new name.\<close>

definition sum_program :: "form list" where
  "sum_program = [List_form [Symbol_lit ''+'', Symbol_lit ''ab'', Int_lit 7]]"

definition sum_runtime :: runtime where
  "sum_runtime = \<lparr>rt_heap = demo_heap, rt_mem = demo_memory, rt_sym = \<lparr>ss_symlist = 0, ss_next_symbol_id = 0\<rparr>\<rparr>"

lemma sum_program_text: "program_text sum_program = ''(+ ab 7)''" and sum_program_ok: "list_all form_ok sum_program"
  by code_simp+

lemma sum_runtime_ready: "ready sum_runtime [] 8 11"
proof -
  have "tail_free demo_memory 11" unfolding tail_free_def demo_memory_row by blast
  then show ?thesis using demo_heap_wf demo_memory_wf by (simp add: ready_def sum_runtime_def demo_heap_free)
qed

lemma sum_ready: "ready sum_runtime [] (sum_list (map form_cells sum_program) + length sum_program) (sum_list (map form_words sum_program))"
  using ready_less [OF sum_runtime_ready] by (simp add: sum_program_def)

theorem tokpar_parse_correct_witness:
  "\<forall>E. \<exists>v rt' i. tokpar_parse (E\<lparr>te_malloc := \<lambda>n. True\<rparr>) sum_runtime ''(+ ab 7)'' = Some (v, rt') \<and>
    symrepr_lookup (rt_sym rt') (rt_mem rt') (cstr ''ab'') = Some (Some i) \<and>
    shape (rt_heap rt') v (Cell (Cell (Atom (enc_sym SYM_ADD)) (Cell (Atom (enc_sym i)) (Cell (Atom (enc_i 7)) nil_tree))) nil_tree)"
proof
  fix E :: tok_env
  obtain v rt' es' where "tokpar_parse (E\<lparr>te_malloc := \<lambda>n. True\<rparr>) sum_runtime ''(+ ab 7)'' = Some (v, rt')"
      "shape (rt_heap rt') v (proper (map (form_tree es') sum_program))" "symlist_at (rt_mem rt') (ss_symlist (rt_sym rt')) es'"
      "list_all (names_known es') sum_program" "memory_wf (rt_mem rt')"
    using tokpar_parse_correct [OF _ sum_program_ok sum_ready, of "E\<lparr>te_malloc := \<lambda>n. True\<rparr>"] unfolding sum_program_text by auto
  moreover have "known es' ''+'' = Some SYM_ADD" by (simp add: known_def cstr_inj special_symbols_def)
  moreover have "0 \<notin> set (cstr ''ab'')" by code_simp
  ultimately show "\<exists>v rt' i. tokpar_parse (E\<lparr>te_malloc := \<lambda>n. True\<rparr>) sum_runtime ''(+ ab 7)'' = Some (v, rt') \<and>
    symrepr_lookup (rt_sym rt') (rt_mem rt') (cstr ''ab'') = Some (Some i) \<and>
    shape (rt_heap rt') v (Cell (Cell (Atom (enc_sym SYM_ADD)) (Cell (Atom (enc_sym i)) (Cell (Atom (enc_i 7)) nil_tree))) nil_tree)"
    using lookup_entries [of "rt_mem rt'" "rt_sym rt'" es' "cstr ''ab''"]
    by (auto simp: sum_program_def simp flip: known_def)
qed

text \<open>
  C16: printing undoes reading. What \<open>tokpar_parse\<close> returns for a program of non-negative numbers of 27 bits, characters, names and
  non-empty lists is printed by \<open>print_value\<close> as the text of the program between parentheses.
\<close>

theorem read_print_roundtrip:
  assumes "\<forall>n. te_malloc E n" and "list_all form_ok fs" and "list_all printable fs" and "fs \<noteq> []"
    and "ready rt es (sum_list (map form_cells fs) + length fs) (sum_list (map form_words fs))"
    and "print_words (List_form fs) \<le> 256" and "length (program_text fs) + 7 \<le> nat len" and "nat len \<le> length buf"
    and "length storage = 256"
  shows "\<exists>v rt' n. tokpar_parse E rt (program_text fs) = Some (v, rt') \<and>
    print_value f_text storage rt' buf len error len_error v =
      Some (n, ''('' @ program_text fs @ '')'' @ CHR 0x00 # drop (length (program_text fs) + 3) buf, error) \<and> 0 \<le> n"
proof -
  obtain v rt' where v: "tokpar_parse E rt (program_text fs) = Some (v, rt')" "builds_list rt es 0 0 fs v rt'"
    using tokpar_parse_forms [of E fs rt es 0 0] assms(1,2,5) by (auto simp: mallocs_def)
  then obtain es' where es': "ready rt' es' 0 0" "list_all (names_known es') fs" "shape (rt_heap rt') v (proper (map (form_tree es') fs))"
    by (auto simp: builds_def)
  have "prints f_text rt' v (form_text (List_form fs)) 256"
    using prints_form [OF es'(1), of "List_form fs" v 256] es'(2,3) assms(2-4,6) by simp
  then have "prints f_text rt' v (''('' @ program_text fs @ '')'') 256" by (simp add: program_text_def)
  from print_value_prints [OF this, of len buf storage error len_error]
  show ?thesis using v(1) assms(7-9) by (auto simp: numeral_3_eq_3)
qed

theorem read_print_roundtrip_witness:
  "\<forall>E f_text. \<exists>v rt' n. tokpar_parse (E\<lparr>te_malloc := \<lambda>n. True\<rparr>) sum_runtime ''(+ ab 7)'' = Some (v, rt') \<and>
    print_value f_text (replicate 256 0) rt' (replicate 20 (CHR ''x'')) 20 [] 0 v =
      Some (n, ''((+ ab 7))'' @ CHR 0x00 # replicate 9 (CHR ''x''), []) \<and> 0 \<le> n"
proof (intro allI)
  fix E :: tok_env and f_text
  have "list_all printable sum_program" "sum_program \<noteq> []" "print_words (List_form sum_program) \<le> 256" by (simp_all add: sum_program_def)
  from read_print_roundtrip [OF _ sum_program_ok this(1,2) sum_ready this(3), of "E\<lparr>te_malloc := \<lambda>n. True\<rparr>" 20 "replicate 20 (CHR ''x'')"
      "replicate 256 0" f_text "[]" 0]
  show "\<exists>v rt' n. tokpar_parse (E\<lparr>te_malloc := \<lambda>n. True\<rparr>) sum_runtime ''(+ ab 7)'' = Some (v, rt') \<and>
    print_value f_text (replicate 256 0) rt' (replicate 20 (CHR ''x'')) 20 [] 0 v =
      Some (n, ''((+ ab 7))'' @ CHR 0x00 # replicate 9 (CHR ''x''), []) \<and> 0 \<le> n"
    unfolding sum_program_text by simp
qed

end
