(* ===== verification/Repl.thy ===== *)
theory Repl
  imports EC_Eval Eval_Cps Parser Lispbmc
begin

text \<open>
  The read-eval-print loops around the library: \<open>repl-ec/repl.c\<close> over the explicit-control evaluator,
  \<open>repl-cps-nc/repl.c\<close> over the continuation-passing evaluator without concurrency, and the line editor, the line handler and
  the callbacks of \<open>repl-cps/repl.c\<close>.

  What is written to the terminal is text that is appended. Lines, characters and files come from the C library and are
  arguments: \<open>getline\<close> delivers a line or fails, \<open>fopen\<close> finds a file with its size and its bytes or does not. In
  \<open>repl-cps\<close> the evaluator runs in a thread of its own; a handler here is one undisturbed step.
\<close>

subsection \<open>Files\<close>

text \<open>A file as \<open>ftell\<close> at its end and \<open>fread\<close> see it; \<open>long\<close> has 32 bits, so the size is one of \<open>unsigned int\<close> as well.\<close>

record file_data =
  fl_size :: int
  fl_bytes :: string

record repl_host =
  rh_tok :: tok_env
  rh_f_text :: "FLOAT \<Rightarrow> string"
  rh_storage :: "UINT list"
  rh_malloc :: "nat \<Rightarrow> bool"
  rh_fopen :: "string \<Rightarrow> file_data option"
  rh_errno :: "string \<Rightarrow> u32"
  rh_mib :: "UINT \<Rightarrow> string"

definition c_string :: "string \<Rightarrow> string" where
  "c_string s = takeWhile (\<lambda>c. c \<noteq> CHR 0x00) s"

text \<open>The result of \<open>malloc\<close> is not looked at: \<open>None\<close> when there is no memory.\<close>

definition read_file :: "repl_host \<Rightarrow> file_data \<Rightarrow> string option option" where
  "read_file R f =
     (if fl_size f \<le> 0 then Some None
      else
        let fsize = nat (fl_size f); file_str = take fsize (fl_bytes f) in
        if \<not> rh_malloc R (fsize + 1) then None
        else if length file_str \<noteq> fsize then Some None
        else Some (Some (c_string file_str)))"

definition skip_spaces :: "string \<Rightarrow> string" where
  "skip_spaces filename = dropWhile (\<lambda>c. c = CHR '' '') filename"

definition ec_load_file :: "repl_host \<Rightarrow> string \<Rightarrow> string \<Rightarrow> (string option \<times> string) option" where
  "ec_load_file R filename out =
     (let name = skip_spaces filename in
      if 0 < length name then
        (case rh_fopen R name of
           None \<Rightarrow> Some (None, out @ line (''cannot fopen file '' @ name) @ line (''filename length: '' @ nat_text 10 (length name)) @
             line (i_text (rh_errno R name)))
         | Some f \<Rightarrow> map_option (\<lambda>s. (s, out)) (read_file R f))
      else Some (None, out))"

definition cps_load_file :: "repl_host \<Rightarrow> string \<Rightarrow> string \<Rightarrow> (string option \<times> string) option" where
  "cps_load_file R filename out =
     (let name = skip_spaces filename; out = out @ line (''filename: '' @ name) in
      if 0 < length name then
        (case rh_fopen R name of
           None \<Rightarrow> Some (None, out)
         | Some f \<Rightarrow> map_option (\<lambda>s. (s, out)) (read_file R f))
      else Some (None, out))"

subsection \<open>Replies\<close>

text \<open>The state of a loop: the evaluator with its data, the arrays \<open>output\<close> and \<open>error\<close> of \<open>main\<close>, and the terminal.\<close>

record 'm repl =
  rp_machine :: 'm
  rp_output :: string
  rp_error :: string
  rp_out :: string

definition say :: "string \<Rightarrow> 'm repl \<Rightarrow> 'm repl" where
  "say s st = st\<lparr>rp_out := rp_out st @ s\<rparr>"

definition print_reply :: "repl_host \<Rightarrow> runtime \<Rightarrow> string \<Rightarrow> VALUE \<Rightarrow> 'm repl \<Rightarrow> 'm repl option" where
  "print_reply R rt pre v st = do {
     (r, output, error) \<leftarrow> print_value (rh_f_text R) (rh_storage R) rt (rp_output st) 1024 (rp_error st) 1024 v;
     let st = st\<lparr>rp_output := output, rp_error := error\<rparr>;
     Some (say (if r \<ge> 0 then line (pre @ c_string output) else line (c_string error)) st)
   }"

text \<open>What \<open>:info\<close> prints, before and after the line that only \<open>repl-ec\<close> has.\<close>

definition hash_line :: string where
  "hash_line = line (replicate 60 (CHR ''#''))"

definition info_head :: "repl_host \<Rightarrow> UINT \<Rightarrow> runtime \<Rightarrow> VALUE \<Rightarrow> 'm repl \<Rightarrow> 'm repl option" where
  "info_head R cells rt global_env st = do {
     free \<leftarrow> heap_num_free (rt_heap rt);
     print_reply R rt ''ENV: '' global_env (say (hash_line @ line (''Used cons cells: '' @ i_text (cells - free))) st)
   }"

definition info_tail :: "UINT \<Rightarrow> runtime \<Rightarrow> 'm repl \<Rightarrow> 'm repl option" where
  "info_tail cells rt st = do {
     let hs = heap_get_state (rt_heap rt);
     sym_size \<leftarrow> symrepr_size (rt_sym rt) (rt_mem rt);
     mem_free \<leftarrow> memory_num_free (rt_mem rt);
     free \<leftarrow> heap_num_free (rt_heap rt);
     Some (say (line (''Symbol table size: '' @ u_text sym_size @ '' Bytes'') @
       line (''Heap size: '' @ u_text (cells * 8) @ '' Bytes'') @
       line (''Memory size: '' @ u_text (memory_num_words (rt_mem rt)) @ '' Words'') @
       line (''Memory free: '' @ u_text mem_free @ '' Words'') @
       line (''Allocated arrays: '' @ u_text (hs_num_alloc_arrays hs)) @
       line (''GC counter: '' @ i_text (hs_gc_num hs)) @
       line (''Recovered: '' @ i_text (hs_gc_recovered hs)) @
       line (''Recovered arrays: '' @ u_text (hs_gc_recovered_arrays hs)) @
       line (''Marked: '' @ i_text (hs_gc_marked hs)) @
       line (''Free cons cells: '' @ i_text free) @ hash_line) st)
   }"

partial_function (option) env_len_loop :: "heap_state \<Rightarrow> VALUE \<Rightarrow> u32 \<Rightarrow> u32 option" where
  "env_len_loop h cur env_len =
     (if type_of cur = PTR_TYPE_CONS then Option.bind (cdr h cur) (\<lambda>cur. env_len_loop h cur (env_len + 1))
      else Some env_len)"

subsection \<open>The loop of repl-ec\<close>

text \<open>The line \<open>getline\<close> delivered starts with a command.\<close>

definition is_command :: "string \<Rightarrow> string option \<Rightarrow> bool" where
  "is_command cmd inp = (case inp of None \<Rightarrow> False | Some str \<Rightarrow> length cmd \<le> length str \<and> take (length cmd) str = cmd)"

definition line_string :: "string option \<Rightarrow> string" where
  "line_string inp = (case inp of None \<Rightarrow> [] | Some str \<Rightarrow> c_string str)"

definition ec_read_eval_print :: "ec_host \<Rightarrow> repl_host \<Rightarrow> string \<Rightarrow> register_machine repl \<Rightarrow> register_machine repl option" where
  "ec_read_eval_print H R str st = do {
     let rm = rp_machine st;
     (t, rt) \<leftarrow> tokpar_parse (rh_tok R) (rm_rt rm) str;
     (r_r, rm) \<leftarrow> ec_eval_program H (rm\<lparr>rm_rt := rt\<rparr>) t;
     print_reply R (rm_rt rm) ''> '' r_r (st\<lparr>rp_machine := rm\<rparr>)
   }"

definition ec_info :: "repl_host \<Rightarrow> register_machine repl \<Rightarrow> register_machine repl option" where
  "ec_info R st = do {
     let rm = rp_machine st;
     st \<leftarrow> info_head R 8192 (rm_rt rm) (rm_global rm) st;
     env_len \<leftarrow> env_len_loop (rt_heap (rm_rt rm)) (rm_global rm) 0;
     info_tail 8192 (rm_rt rm) (say (line (''Global env num bindings: '' @ i_text env_len)) st)
   }"

text \<open>The last character of the line, its line end, is overwritten before the name of the file is used.\<close>

definition ec_load :: "ec_host \<Rightarrow> repl_host \<Rightarrow> string \<Rightarrow> register_machine repl \<Rightarrow> register_machine repl option" where
  "ec_load H R str st = do {
     let name = butlast (drop 5 str);
     (file_str, out) \<leftarrow> ec_load_file R name (rp_out st);
     let st = st\<lparr>rp_out := out\<rparr>;
     case file_str of
       Some file_str \<Rightarrow> ec_read_eval_print H R file_str (say (line (''Loading file '' @ name)) st)
     | None \<Rightarrow> Some (say (line (''Failed to load file '' @ name)) st)
   }"

text \<open>One turn of the loop: \<open>False\<close> when it is left.\<close>

definition ec_line :: "ec_host \<Rightarrow> repl_host \<Rightarrow> string option \<Rightarrow> register_machine repl \<Rightarrow> (bool \<times> register_machine repl) option" where
  "ec_line H R inp st =
     (let st = say (''# '' @ line []) st; str = line_string inp in
      if is_command '':info'' inp then map_option (\<lambda>st. (True, st)) (ec_info R st)
      else if is_command '':load'' inp then map_option (\<lambda>st. (True, st)) (ec_load H R str st)
      else if is_command '':quit'' inp then Some (False, st)
      else map_option (\<lambda>st. (True, st)) (ec_read_eval_print H R str st))"

text \<open>The loop over the lines that have come, and what follows it. \<open>True\<close> when the loop waits for the next line.\<close>

primrec ec_loop :: "ec_host \<Rightarrow> repl_host \<Rightarrow> string option list \<Rightarrow> register_machine repl \<Rightarrow> (bool \<times> register_machine repl) option" where
  "ec_loop H R [] st = Some (True, st)"
| "ec_loop H R (inp # inps) st = do {
     (more, st) \<leftarrow> ec_line H R inp st;
     if more then ec_loop H R inps st
     else do {
       let rm = rp_machine st;
       let rt = rm_rt rm;
       m \<leftarrow> symrepr_del (rt_sym rt) (rt_mem rt);
       Some (False, st\<lparr>rp_machine := rm\<lparr>rm_rt := rt\<lparr>rt_mem := m, rt_heap := heap_del (rt_heap rt)\<rparr>\<rparr>\<rparr>)
     }
   }"

subsection \<open>The start of repl-ec\<close>

text \<open>
  The blocks \<open>malloc\<close> gives for the memory and its bitmap, with their addresses; the heap's; whether there is one for
  an extension; the number that stands for \<open>ext_print\<close>; and the text of the prelude.
\<close>

record start_blocks =
  sb_memory :: "(u32 \<times> u32 list) option"
  sb_bitmap :: "(u32 \<times> u32 list) option"
  sb_heap :: "UINT \<Rightarrow> cell list option"
  sb_ext :: bool
  sb_print :: extension_fptr
  sb_prelude :: string

abbreviation (input) "MEMORY_SIZE_16K \<equiv> (64 * 256 :: u32)"
abbreviation (input) "MEMORY_BITMAP_SIZE_16K \<equiv> (4 * 256 :: u32)"

text \<open>The parts both evaluators share. \<open>Inl\<close> the text before \<open>main\<close> returns early, or \<open>Inr\<close> the data and the text so far.\<close>

definition start_memory :: "start_blocks \<Rightarrow> runtime \<Rightarrow> string \<Rightarrow> (string + runtime \<times> string) option" where
  "start_memory B rt out =
     (if sb_memory B = None \<or> sb_bitmap B = None then Some (Inl out)
      else do {
        (res, m) \<leftarrow> memory_init (rt_mem rt) (sb_memory B) MEMORY_SIZE_16K (sb_bitmap B) MEMORY_BITMAP_SIZE_16K;
        if res then do {
          free \<leftarrow> memory_num_free m;
          Some (Inr (rt\<lparr>rt_mem := m\<rparr>, out @ line (''Memory initialized. Memory size: '' @ u_text (memory_num_words m) @
            '' Words. Free: '' @ u_text free @ '' Words.'')))
        } else Some (Inl (out @ line ''Error initializing memory!''))
      })"

definition start_symrepr :: "string \<Rightarrow> string + string" where
  "start_symrepr out =
     (if symrepr_init then Inr (out @ line ''Symrepr initialized.'') else Inl (out @ line ''Error initializing symrepr!''))"

definition start_heap :: "repl_host \<Rightarrow> start_blocks \<Rightarrow> UINT \<Rightarrow> runtime \<Rightarrow> string \<Rightarrow> (string + runtime \<times> string) option" where
  "start_heap R B cells rt out = do {
     (res, h) \<leftarrow> heap_init (sb_heap B) (rt_heap rt) cells;
     if res then do {
       free \<leftarrow> heap_num_free h;
       Some (Inr (rt\<lparr>rt_heap := h\<rparr>, out @ line (''Heap initialized. Heap size: '' @ rh_mib R (heap_size_bytes h) @
         '' MiB. Free cons cells: '' @ i_text free)))
     } else Some (Inl (out @ line ''Error initializing heap!''))
   }"

definition banner :: string where
  "banner = line ''Lisp REPL started!'' @ line ''Type :quit to exit.'' @ line ''     :info for statistics.'' @
     line ''     :load [filename] to load lisp source.''"

definition ec_start_data :: "repl_host \<Rightarrow> start_blocks \<Rightarrow> register_machine \<Rightarrow> (string + register_machine \<times> string) option" where
  "ec_start_data R B rm = do {
     s1 \<leftarrow> start_memory B (rm_rt rm) [];
     case s1 of Inl out \<Rightarrow> Some (Inl out) | Inr (rt, out) \<Rightarrow>
     (case start_symrepr out of Inl out \<Rightarrow> Some (Inl out) | Inr out \<Rightarrow> do {
        s2 \<leftarrow> start_heap R B 8192 rt out;
        case s2 of Inl out \<Rightarrow> Some (Inl out) | Inr (rt, out) \<Rightarrow>
          (let (res, env) = env_init in
           if \<not> res then Some (Inl (out @ line ''Error initializing environment!''))
           else do {
             let out = out @ line ''Environment initialized.'';
             (res, exts, ss, m) \<leftarrow> extensions_add (sb_ext B) (rm_extensions rm) (rt_sym rt) (rt_mem rt) (cstr ''print'') (sb_print B);
             if \<not> res then Some (Inl (out @ line ''Error adding extension.''))
             else Some (Inr (rm\<lparr>rm_rt := rt\<lparr>rt_mem := m, rt_sym := ss\<rparr>, rm_global := env, rm_extensions := exts\<rparr>,
               out @ line ''Extension added.''))
           })
      })
   }"

definition ec_main_start :: "ec_host \<Rightarrow> repl_host \<Rightarrow> start_blocks \<Rightarrow> register_machine repl \<Rightarrow> (bool \<times> register_machine repl) option" where
  "ec_main_start H R B st = do {
     s \<leftarrow> ec_start_data R B (rp_machine st);
     case s of
       Inl out \<Rightarrow> Some (False, say out st)
     | Inr (rm, out) \<Rightarrow> do {
         (prelude, rt) \<leftarrow> prelude_load (rh_tok R) (sb_prelude B) (rm_rt rm);
         (_, rm) \<leftarrow> ec_eval_program H (rm\<lparr>rm_rt := rt\<rparr>) prelude;
         Some (True, say (out @ banner) (st\<lparr>rp_machine := rm\<rparr>))
       }
   }"

subsection \<open>The loop of repl-cps-nc\<close>

definition nc_read_eval_print :: "host \<Rightarrow> repl_host \<Rightarrow> string \<Rightarrow> eval_state repl \<Rightarrow> eval_state repl option" where
  "nc_read_eval_print H R str st = do {
     let es = rp_machine st;
     (t, rt) \<leftarrow> tokpar_parse (rh_tok R) (es_rt es) str;
     (r_r, es) \<leftarrow> eval_cps_program_nc H (es\<lparr>es_rt := rt\<rparr>) t;
     print_reply R (es_rt es) ''> '' r_r (st\<lparr>rp_machine := es\<rparr>)
   }"

definition cps_info :: "repl_host \<Rightarrow> eval_state repl \<Rightarrow> eval_state repl option" where
  "cps_info R st = do {
     let es = rp_machine st;
     st \<leftarrow> info_head R 2048 (es_rt es) (es_env_global es) st;
     info_tail 2048 (es_rt es) st
   }"

text \<open>The line end is left at the end of the name of the file.\<close>

definition nc_load :: "host \<Rightarrow> repl_host \<Rightarrow> string \<Rightarrow> eval_state repl \<Rightarrow> eval_state repl option" where
  "nc_load H R str st = do {
     (file_str, out) \<leftarrow> cps_load_file R (drop 5 str) (rp_out st);
     let st = st\<lparr>rp_out := out\<rparr>;
     case file_str of Some file_str \<Rightarrow> nc_read_eval_print H R file_str st | None \<Rightarrow> Some st
   }"

definition nc_line :: "host \<Rightarrow> repl_host \<Rightarrow> string option \<Rightarrow> eval_state repl \<Rightarrow> (bool \<times> eval_state repl) option" where
  "nc_line H R inp st =
     (let st = say (''# '' @ line []) st; str = line_string inp in
      if is_command '':info'' inp then map_option (\<lambda>st. (True, st)) (cps_info R st)
      else if is_command '':load'' inp then map_option (\<lambda>st. (True, st)) (nc_load H R str st)
      else if is_command '':quit'' inp then Some (False, st)
      else map_option (\<lambda>st. (True, st)) (nc_read_eval_print H R str st))"

primrec nc_loop :: "host \<Rightarrow> repl_host \<Rightarrow> string option list \<Rightarrow> eval_state repl \<Rightarrow> (bool \<times> eval_state repl) option" where
  "nc_loop H R [] st = Some (True, st)"
| "nc_loop H R (inp # inps) st = do {
     (more, st) \<leftarrow> nc_line H R inp st;
     if more then nc_loop H R inps st
     else do {
       let es = rp_machine st;
       let rt = es_rt es;
       m \<leftarrow> symrepr_del (rt_sym rt) (rt_mem rt);
       Some (False, st\<lparr>rp_machine := es\<lparr>es_rt := rt\<lparr>rt_mem := m, rt_heap := heap_del (rt_heap rt)\<rparr>\<rparr>\<rparr>)
     }
   }"

text \<open>Here a failure of the evaluator or of the extension is reported and does not end the program.\<close>

definition nc_main_start :: "host \<Rightarrow> repl_host \<Rightarrow> start_blocks \<Rightarrow> eval_state repl \<Rightarrow> (bool \<times> eval_state repl) option" where
  "nc_main_start H R B st =
     (case start_symrepr [] of Inl out \<Rightarrow> Some (False, say out st) | Inr out \<Rightarrow> do {
        let es = rp_machine st;
        s1 \<leftarrow> start_memory B (es_rt es) out;
        case s1 of Inl out \<Rightarrow> Some (False, say out st) | Inr (rt, out) \<Rightarrow> do {
          s2 \<leftarrow> start_heap R B 2048 rt out;
          case s2 of Inl out \<Rightarrow> Some (False, say out st) | Inr (rt, out) \<Rightarrow> do {
            (res, es) \<leftarrow> eval_cps_init_nc H (es\<lparr>es_rt := rt\<rparr>) 256 False;
            let out = out @ line (if res then ''Evaluator initialized.'' else ''Error initializing evaluator.'');
            let rt = es_rt es;
            (res, exts, ss, m) \<leftarrow> extensions_add (sb_ext B) (es_extensions es) (rt_sym rt) (rt_mem rt) (cstr ''print'') (sb_print B);
            let out = out @ line (if res then ''Extension added.'' else ''Error adding extension.'');
            let es = es\<lparr>es_rt := rt\<lparr>rt_mem := m, rt_sym := ss\<rparr>, es_extensions := exts\<rparr>;
            (prelude, rt) \<leftarrow> prelude_load (rh_tok R) (sb_prelude B) (es_rt es);
            (_, es) \<leftarrow> eval_cps_program_nc H (es\<lparr>es_rt := rt\<rparr>) prelude;
            Some (True, say (out @ banner) (st\<lparr>rp_machine := es\<rparr>))
          }
        }
      })"

subsection \<open>The line editor and the handlers of repl-cps\<close>

record line_state =
  ls_buffer :: string
  ls_allow_print :: bool
  ls_echo :: string

text \<open>The result of \<open>inputline\<close>; \<open>Waiting n\<close> when all characters that have come are used up.\<close>

datatype line_result = Waiting int | Line int

definition isprint :: "int \<Rightarrow> bool" where
  "isprint c \<longleftrightarrow> 32 \<le> c \<and> c < 127"

text \<open>\<open>getchar\<close> gives a negative number when no character has come yet. The loop adds one to \<open>n\<close> after every turn.\<close>

fun inputline_loop :: "u32 \<Rightarrow> int list \<Rightarrow> int \<Rightarrow> line_state \<Rightarrow> (line_result \<times> int list \<times> line_state) option" where
  "inputline_loop sz cs n ls =
     (if (of_int n :: u32) < sz - 1 then
        (case cs of
           [] \<Rightarrow> Some (Waiting n, [], ls)
         | c # cs \<Rightarrow>
             if c < 0 then inputline_loop sz cs (n - 1 + 1) ls
             else
               let ls = ls\<lparr>ls_allow_print := False\<rparr> in
               if c = 127 \<or> c = 8 then do {
                 let n = (if n > 0 then n - 1 else n);
                 buf \<leftarrow> arr_set (ls_buffer ls) (nat n) (CHR 0x00);
                 inputline_loop sz cs (n - 1 + 1) (ls\<lparr>ls_buffer := buf, ls_echo := ls_echo ls @ [CHR 0x08, CHR '' '', CHR 0x08]\<rparr>)
               }
               else if c = 10 \<or> c = 13 then do {
                 buf \<leftarrow> arr_set (ls_buffer ls) (nat n) (CHR 0x00);
                 Some (Line n, cs, ls\<lparr>ls_buffer := buf\<rparr>)
               }
               else if isprint c then do {
                 buf \<leftarrow> arr_set (ls_buffer ls) (nat n) (char_of (nat c));
                 inputline_loop sz cs (n + 1) (ls\<lparr>ls_buffer := buf, ls_echo := ls_echo ls @ [char_of (nat c)]\<rparr>)
               }
               else inputline_loop sz cs (n - 1 + 1) ls)
      else do {
        buf \<leftarrow> arr_set (ls_buffer ls) (unat (sz - 1)) (CHR 0x00);
        Some (Line 0, cs, ls\<lparr>ls_buffer := buf\<rparr>)
      })"

declare inputline_loop.simps [simp del]

definition inputline :: "u32 \<Rightarrow> int list \<Rightarrow> line_state \<Rightarrow> (line_result \<times> int list \<times> line_state) option" where
  "inputline sz cs ls = inputline_loop sz cs 0 ls"

text \<open>The context that has finished is the first of the list of finished ones.\<close>

definition done_callback :: "repl_host \<Rightarrow> string \<Rightarrow> string \<Rightarrow> eval_state \<Rightarrow> string \<Rightarrow> (eval_state \<times> string) option" where
  "done_callback R output error es out = do {
     ctx \<leftarrow> get_ctx es (es_done es);
     let cid = ec_id ctx;
     let t = ec_r ctx;
     (r, output, error) \<leftarrow> print_value (rh_f_text R) (rh_storage R) (es_rt es) output 1024 error 1024 t;
     let txt = (if r \<ge> 0 then c_string output else c_string error);
     let out = out @ line (''<< Context '' @ nat_text 10 (unat cid) @ '' finished with value '' @ txt @ '' >>'');
     (found, es) \<leftarrow> eval_cps_remove_done_ctx es cid;
     Some (es, if found \<noteq> None then out else out @ line (''Error: done context ('' @ nat_text 10 (unat cid) @ '')  not in list''))
   }"

definition cps_ext_print ::
  "bool \<Rightarrow> (FLOAT \<Rightarrow> string) \<Rightarrow> UINT list \<Rightarrow> runtime \<Rightarrow> outputs \<Rightarrow> string \<Rightarrow> string \<Rightarrow> VALUE list \<Rightarrow> (VALUE \<times> outputs) option" where
  "cps_ext_print allow_print f_text storage rt f buf err args =
     (if length args < 1 then Some (enc_sym DEF_REPR_NIL, f)
      else if \<not> allow_print then Some (enc_sym DEF_REPR_TRUE, f)
      else ext_print_loop f_text storage rt f buf err args)"

definition cps_read_start :: "host \<Rightarrow> repl_host \<Rightarrow> string \<Rightarrow> eval_state repl \<Rightarrow> eval_state repl option" where
  "cps_read_start H R str st = do {
     let es = rp_machine st;
     (t, rt) \<leftarrow> tokpar_parse (rh_tok R) (es_rt es) str;
     (cid, es) \<leftarrow> eval_cps_program H (es\<lparr>es_rt := rt\<rparr>) t;
     Some (say (line (''started ctx: '' @ nat_text 10 (unat cid))) (st\<lparr>rp_machine := es\<rparr>))
   }"

definition cps_load :: "host \<Rightarrow> repl_host \<Rightarrow> string \<Rightarrow> eval_state repl \<Rightarrow> eval_state repl option" where
  "cps_load H R str st = do {
     (file_str, out) \<leftarrow> cps_load_file R (drop 5 str) (rp_out st);
     let st = st\<lparr>rp_out := out\<rparr>;
     case file_str of Some file_str \<Rightarrow> cps_read_start H R file_str st | None \<Rightarrow> Some st
   }"

text \<open>The handler of a line of \<open>n\<close> characters; whether the loop goes on, and the new \<open>allow_print\<close>.\<close>

definition cps_line :: "host \<Rightarrow> repl_host \<Rightarrow> int \<Rightarrow> string \<Rightarrow> bool \<Rightarrow> eval_state repl \<Rightarrow> (bool \<times> bool \<times> eval_state repl) option" where
  "cps_line H R n buffer allow_print st =
     (let st = say (line []) st; str = c_string buffer in
      if n \<ge> 5 \<and> take 5 str = '':info'' then map_option (\<lambda>st. (True, allow_print, st)) (cps_info R st)
      else if n \<ge> 5 \<and> take 5 str = '':load'' then map_option (\<lambda>st. (True, allow_print, st)) (cps_load H R str st)
      else if n \<ge> 4 \<and> take 4 str = '':pon'' then Some (True, True, st)
      else if n \<ge> 5 \<and> take 5 str = '':quit'' then Some (False, allow_print, st)
      else map_option (\<lambda>st. (True, allow_print, st)) (cps_read_start H R str st))"

text \<open>
  One turn of the loop from the keys that have come: \<open>None\<close> inside while the line is not finished, otherwise whether the loop
  goes on, the keys that are left, \<open>allow_print\<close> and the state. The buffer of 1024 characters is cleared before every line.
\<close>

definition cps_turn ::
  "host \<Rightarrow> repl_host \<Rightarrow> int list \<Rightarrow> bool \<Rightarrow> eval_state repl \<Rightarrow> (bool \<times> int list \<times> bool \<times> eval_state repl) option option" where
  "cps_turn H R keys allow_print st = do {
     (r, keys, ls) \<leftarrow> inputline 1024 keys
       \<lparr>ls_buffer = replicate 1024 (CHR 0x00), ls_allow_print = allow_print, ls_echo = rp_out st @ ''# ''\<rparr>;
     case r of
       Waiting n \<Rightarrow> Some None
     | Line n \<Rightarrow> do {
         (more, allow_print, st) \<leftarrow> cps_line H R n (ls_buffer ls) (ls_allow_print ls) (st\<lparr>rp_out := ls_echo ls\<rparr>);
         Some (Some (more, keys, allow_print, st))
       }
   }"

text \<open>The start, with the result of \<open>pthread_create\<close>; \<open>False\<close> when \<open>main\<close> returns early.\<close>

definition cps_main_start :: "host \<Rightarrow> repl_host \<Rightarrow> start_blocks \<Rightarrow> bool \<Rightarrow> eval_state repl \<Rightarrow> (bool \<times> eval_state repl) option" where
  "cps_main_start H R B thread st = do {
     let es = rp_machine st;
     s1 \<leftarrow> start_memory B (es_rt es) [];
     case s1 of Inl out \<Rightarrow> Some (False, say out st) | Inr (rt, out) \<Rightarrow>
     (case start_symrepr out of Inl out \<Rightarrow> Some (False, say out st) | Inr out \<Rightarrow> do {
        s2 \<leftarrow> start_heap R B 2048 rt out;
        case s2 of Inl out \<Rightarrow> Some (False, say out st) | Inr (rt, out) \<Rightarrow> do {
          (res, es) \<leftarrow> eval_cps_init (es\<lparr>es_rt := rt\<rparr>);
          let out = out @ line (if res then ''Evaluator initialized.'' else ''Error initializing evaluator.'');
          let rt = es_rt es;
          (res, exts, ss, m) \<leftarrow> extensions_add (sb_ext B) (es_extensions es) (rt_sym rt) (rt_mem rt) (cstr ''print'') (sb_print B);
          let out = out @ line (if res then ''Extension added.'' else ''Error adding extension.'');
          let es = es\<lparr>es_rt := rt\<lparr>rt_mem := m, rt_sym := ss\<rparr>, es_extensions := exts\<rparr>;
          if \<not> thread then Some (False, say (out @ line ''Error creating evaluation thread'') (st\<lparr>rp_machine := es\<rparr>))
          else do {
            (prelude, rt) \<leftarrow> prelude_load (rh_tok R) (sb_prelude B) (es_rt es);
            (_, es) \<leftarrow> eval_cps_program H (es\<lparr>es_rt := rt\<rparr>) prelude;
            Some (True, say (out @ banner) (st\<lparr>rp_machine := es\<rparr>))
          }
        }
      })
   }"

end
