(* ===== verification/Repl_Correct.thy ===== *)
theory Repl_Correct
  imports Repl Read_Print EC_Correct Eval_Correct
begin

text \<open>
  What the read-eval-print loops show: the start of \<open>repl-ec\<close> gives a state the parser can work in, a line is read,
  evaluated and printed, and a quoted expression comes back as it was typed; the line editor of \<open>repl-cps\<close> keeps the text
  that is visible on the terminal.
\<close>

subsection \<open>A line of an expression\<close>

definition typed :: "string \<Rightarrow> bool" where
  "typed str \<longleftrightarrow> take 1 str \<noteq> '':''"

lemma typed_no_command: "typed str \<Longrightarrow> c = CHR '':'' # cs \<Longrightarrow> \<not> is_command c (Some str)"
  by (cases str) (auto simp: typed_def is_command_def)

text \<open>The reply for a value whose text fits into the buffer.\<close>

lemma print_reply_prints:
  assumes "prints (rh_f_text R) rt v out k" and "k \<le> 256" and "length out + 5 \<le> 1024" and "NUL \<notin> set out"
    and "length (rp_output st) = 1024" and "length (rh_storage R) = 256"
  shows "\<exists>st'. print_reply R rt pre v st = Some st' \<and> rp_out st' = rp_out st @ line (pre @ out) \<and>
    rp_machine st' = rp_machine st \<and> length (rp_output st') = 1024"
proof -
  obtain n where n: "print_value (rh_f_text R) (rh_storage R) rt (rp_output st) 1024 (rp_error st) 1024 v =
      Some (n, out @ CHR 0x00 # drop (Suc (length out)) (rp_output st), rp_error st)" "0 \<le> n"
    using print_value_prints [OF assms(1,2), of 1024 "rp_output st" "rh_storage R" "rp_error st" 1024] assms(3,5,6) by auto
  have "c_string (out @ CHR 0x00 # r) = out" for r
    using assms(4) by (induction out) (auto simp: c_string_def)
  then show ?thesis using n assms(3,5) by (simp add: print_reply_def say_def)
qed

text \<open>A line that is no command is read, evaluated as its specification says and answered with the text of the value.\<close>

lemma ec_line_evaluates:
  assumes "typed str"
    and "tokpar_parse (rh_tok R) (rm_rt (rp_machine st)) (c_string str) = Some (t, rt)"
    and "ec_runs_program H (rm_extensions (rp_machine st)) n t \<lparr>sc_rt = rt, sc_global = rm_global (rp_machine st), sc_env = NIL\<rparr> v s'"
    and "n \<le> 256" and "eh_malloc H 1024 = Some d" and "length d = 256"
    and "prints (rh_f_text R) (sc_rt s') v out k" and "k \<le> 256" and "length out + 5 \<le> 1024" and "NUL \<notin> set out"
    and "length (rp_output st) = 1024" and "length (rh_storage R) = 256"
  shows "\<exists>st'. ec_line H R (Some str) st = Some (True, st') \<and> rp_out st' = rp_out st @ ''# '' @ line [] @ line (''> '' @ out) \<and>
    rm_rt (rp_machine st') = sc_rt s' \<and> rm_global (rp_machine st') = sc_global s' \<and> length (rp_output st') = 1024"
proof -
  let ?st = "say (''# '' @ line []) st" and ?rm = "(rp_machine st)\<lparr>rm_rt := rt\<rparr>"
  have "ec_runs_program H (rm_extensions ?rm) n t \<lparr>sc_rt = rm_rt ?rm, sc_global = rm_global ?rm, sc_env = NIL\<rparr> v s'"
    using assms(3) by simp
  from ec_program_returns [OF this assms(4-6)] obtain rm' where
    rm': "ec_eval_program H ?rm t = Some (v, rm')" "rm_rt rm' = sc_rt s'" "rm_global rm' = sc_global s'"
    by blast
  obtain st' where st': "print_reply R (rm_rt rm') ''> '' v (?st\<lparr>rp_machine := rm'\<rparr>) = Some st'"
      "rp_out st' = rp_out st @ ''# '' @ line [] @ line (''> '' @ out)" "rp_machine st' = rm'" "length (rp_output st') = 1024"
    using print_reply_prints [of R "rm_rt rm'" v out k "?st\<lparr>rp_machine := rm'\<rparr>" "''> ''"] assms(7-12) rm'(2) by (auto simp: say_def)
  have "ec_read_eval_print H R (c_string str) ?st = Some st'"
    using assms(2) rm'(1) st'(1) by (simp add: ec_read_eval_print_def say_def)
  then show ?thesis
    using st'(2-4) rm'(2,3) typed_no_command [OF assms(1)] by (simp add: ec_line_def line_string_def)
qed

text \<open>What the evaluators need besides a program whose run takes \<open>n\<close> words of stack.\<close>

definition ec_able :: "ec_host \<Rightarrow> register_machine \<Rightarrow> bool" where
  "ec_able H rm \<longleftrightarrow> (\<exists>d. eh_malloc H 1024 = Some d \<and> length d = 256)"

definition nc_able :: "host \<Rightarrow> nat \<Rightarrow> eval_state \<Rightarrow> bool" where
  "nc_able H n es \<longleftrightarrow> es_done es = 0 \<and> (\<forall>x. hst_done H x = x) \<and>
     (\<exists>c. es_ctxs es ctx_non_concurrent = Some c \<and> stack_wf (ec_K c) \<and> n < unat (sk_size (ec_K c)) \<and> unat (sk_size (ec_K c)) < 2 ^ 28)"

lemma nc_line_evaluates:
  assumes "typed str"
    and "tokpar_parse (rh_tok R) (es_rt (rp_machine st)) (c_string str) = Some (t, rt)" and "type_of t = PTR_TYPE_CONS"
    and "runs_program H (es_extensions (rp_machine st)) n t \<lparr>sc_rt = rt, sc_global = es_env_global (rp_machine st), sc_env = NIL\<rparr> v s'"
    and "nc_able H n (rp_machine st)"
    and "prints (rh_f_text R) (sc_rt s') v out k" and "k \<le> 256" and "length out + 5 \<le> 1024" and "NUL \<notin> set out"
    and "length (rp_output st) = 1024" and "length (rh_storage R) = 256"
  shows "\<exists>st'. nc_line H R (Some str) st = Some (True, st') \<and> rp_out st' = rp_out st @ ''# '' @ line [] @ line (''> '' @ out) \<and>
    es_rt (rp_machine st') = sc_rt s' \<and> es_env_global (rp_machine st') = sc_global s' \<and> nc_able H n (rp_machine st') \<and>
    length (rp_output st') = 1024"
proof -
  let ?st = "say (''# '' @ line []) st" and ?es = "(rp_machine st)\<lparr>es_rt := rt\<rparr>"
  obtain c where c: "es_ctxs (rp_machine st) ctx_non_concurrent = Some c" "stack_wf (ec_K c)" "n < unat (sk_size (ec_K c))"
      "unat (sk_size (ec_K c)) < 2 ^ 28" "es_done (rp_machine st) = 0" "\<forall>x. hst_done H x = x"
    using assms(5) by (auto simp: nc_able_def)
  have "runs_program H (es_extensions ?es) n t \<lparr>sc_rt = es_rt ?es, sc_global = es_env_global ?es, sc_env = NIL\<rparr> v s'"
    and "es_ctxs ?es ctx_non_concurrent = Some c" and "es_done ?es = 0" using assms(4) c(1,5) by simp_all
  from program_nc_returns [OF this(1) assms(3) this(2) c(2-4) this(3) c(6)] obtain es' c' where
    es': "eval_cps_program_nc H ?es t = Some (v, es')" "es_rt es' = sc_rt s'" "es_env_global es' = sc_global s'"
      "es_done es' = 0" "es_ctxs es' ctx_non_concurrent = Some c'" "stack_wf (ec_K c')" "sk_size (ec_K c') = sk_size (ec_K c)"
    by blast
  obtain st' where st': "print_reply R (es_rt es') ''> '' v (?st\<lparr>rp_machine := es'\<rparr>) = Some st'"
      "rp_out st' = rp_out st @ ''# '' @ line [] @ line (''> '' @ out)" "rp_machine st' = es'" "length (rp_output st') = 1024"
    using print_reply_prints [of R "es_rt es'" v out k "?st\<lparr>rp_machine := es'\<rparr>" "''> ''"] assms(6-11) es'(2) by (auto simp: say_def)
  have "nc_read_eval_print H R (c_string str) ?st = Some st'"
    using assms(2) es'(1) st'(1) by (simp add: nc_read_eval_print_def say_def)
  moreover have "nc_able H n es'" using es'(4-7) c(3,4,6) by (auto simp: nc_able_def)
  ultimately show ?thesis
    using st'(2-4) es'(2,3) typed_no_command [OF assms(1)] by (simp add: nc_line_def line_string_def)
qed

subsection \<open>A quoted expression\<close>

lemma quote_text_typed: "typed (program_text [Quote_form e] @ u)" "c_string (program_text [Quote_form e] @ [CHR 0x0A]) = program_text [Quote_form e] @ [CHR 0x0A]"
  if "form_ok e"
proof -
  have "NUL \<notin> set (program_text [Quote_form e] @ [CHR 0x0A])"
    using form_text_nul [OF that] by (simp add: program_text_def spaced_def nul_free_def)
  then show "c_string (program_text [Quote_form e] @ [CHR 0x0A]) = program_text [Quote_form e] @ [CHR 0x0A]"
    unfolding c_string_def takeWhile_eq_all_conv by (metis (full_types))
qed (simp add: typed_def program_text_def spaced_def)

text \<open>What the parser makes of the line: the list of the one form \<open>(quote x)\<close>.\<close>

definition quoted :: "heap_state \<Rightarrow> VALUE \<Rightarrow> VALUE \<Rightarrow> bool" where
  "quoted h t x \<longleftrightarrow> type_of t = PTR_TYPE_CONS \<and> cdr h t = Some NIL \<and>
     (\<exists>q d. car h t = Some q \<and> form h q (enc_sym DEF_REPR_QUOTE) d \<and> car h d = Some x)"

definition quote_line :: "form \<Rightarrow> string" where
  "quote_line e = program_text [Quote_form e] @ [CHR 0x0A]"

lemma quote_parses:
  assumes "mallocs E" and "form_ok e" and "printable e" and "ready rt es (form_cells e + 3 + c) (form_words e + w)"
  shows "\<exists>t rt' x es'. tokpar_parse E rt (quote_line e) = Some (t, rt') \<and> quoted (rt_heap rt') t x \<and> ready rt' es' c w \<and>
    (\<forall>k f_text. print_words e \<le> k \<longrightarrow> prints f_text rt' x (form_text e) k)"
proof -
  have "ready rt es (sum_list (map form_cells [Quote_form e]) + length [Quote_form e] + c) (sum_list (map form_words [Quote_form e]) + w)"
    using assms(4) by (simp add: numeral_3_eq_3)
  then obtain t rt' where t: "tokpar_parse E rt (quote_line e) = Some (t, rt')" "builds_list rt es c w [Quote_form e] t rt'"
    using parse_text_forms [OF assms(1), of "[Quote_form e]" "[CHR 0x0A]"] assms(2) unfolding quote_line_def by fastforce
  then obtain es' where es': "ready rt' es' c w" "names_known es' e" "shape (rt_heap rt') t (proper (map (form_tree es') [Quote_form e]))"
    by (auto simp: builds_def)
  then obtain x where q: "quoted (rt_heap rt') t x" "shape (rt_heap rt') x (form_tree es' e)" by (auto simp: form_def quoted_def)
  moreover have "prints f_text rt' x (form_text e) k" if "print_words e \<le> k" for k f_text
    using prints_form [OF es'(1) assms(2,3) es'(2) q(2) that] .
  ultimately show ?thesis using t(1) es'(1) by blast
qed

text \<open>
  What a session needs of a loop: a handler for one line that answers a quoted value with its text, as long as the machine is able to
  evaluate, and a loop that hands the lines to it one after the other.
\<close>

definition reply :: "string \<Rightarrow> string" where
  "reply out = ''# '' @ line [] @ line (''> '' @ out)"

locale line_handler =
  fixes R :: repl_host
    and handle :: "string option \<Rightarrow> 'm repl \<Rightarrow> (bool \<times> 'm repl) option"
    and loop :: "string option list \<Rightarrow> 'm repl \<Rightarrow> (bool \<times> 'm repl) option"
    and rt_of :: "'m \<Rightarrow> runtime"
    and able :: "'m \<Rightarrow> bool"
  assumes quote_law: "able (rp_machine st) \<Longrightarrow> typed str \<Longrightarrow>
      tokpar_parse (rh_tok R) (rt_of (rp_machine st)) (c_string str) = Some (t, rt) \<Longrightarrow> quoted (rt_heap rt) t x \<Longrightarrow>
      prints (rh_f_text R) rt x out 256 \<Longrightarrow> length out + 5 \<le> 1024 \<Longrightarrow> NUL \<notin> set out \<Longrightarrow>
      length (rp_output st) = 1024 \<Longrightarrow> length (rh_storage R) = 256 \<Longrightarrow>
      \<exists>st'. handle (Some str) st = Some (True, st') \<and> rp_out st' = rp_out st @ reply out \<and> rt_of (rp_machine st') = rt \<and>
        able (rp_machine st') \<and> length (rp_output st') = 1024"
    and loop_nil: "loop [] st = Some (True, st)"
    and loop_cons: "handle inp st = Some (True, st') \<Longrightarrow> loop (inp # inps) st = loop inps st'"
begin

lemma quote_echo:
  assumes "mallocs (rh_tok R)" and "form_ok e" and "printable e" and "print_words e \<le> 256" and "length (form_text e) + 5 \<le> 1024"
    and "ready (rt_of (rp_machine st)) es (form_cells e + 3 + c) (form_words e + w)"
    and "able (rp_machine st)" and "length (rp_output st) = 1024" and "length (rh_storage R) = 256"
  shows "\<exists>st' es'. handle (Some (quote_line e)) st = Some (True, st') \<and> rp_out st' = rp_out st @ reply (form_text e) \<and>
    ready (rt_of (rp_machine st')) es' c w \<and> able (rp_machine st') \<and> length (rp_output st') = 1024"
proof -
  obtain t rt x es' where t: "tokpar_parse (rh_tok R) (rt_of (rp_machine st)) (quote_line e) = Some (t, rt)" "quoted (rt_heap rt) t x"
      "ready rt es' c w" "prints (rh_f_text R) rt x (form_text e) 256"
    using quote_parses [OF assms(1-3,6)] assms(4) by blast
  have "NUL \<notin> set (form_text e)" using form_text_nul [OF assms(2)] by (simp add: nul_free_def)
  moreover have "typed (quote_line e)" "c_string (quote_line e) = quote_line e"
    unfolding quote_line_def using quote_text_typed assms(2) by blast+
  ultimately have "\<exists>st'. handle (Some (quote_line e)) st = Some (True, st') \<and> rp_out st' = rp_out st @ reply (form_text e) \<and>
      rt_of (rp_machine st') = rt \<and> able (rp_machine st') \<and> length (rp_output st') = 1024"
    using assms(5,7-9) t by (intro quote_law) simp_all
  then show ?thesis using t(3) by blast
qed

text \<open>A session is answered line by line, as long as there is room for all of its data.\<close>

lemma session_echo:
  assumes "mallocs (rh_tok R)" and "length (rh_storage R) = 256"
    and "\<forall>e \<in> set es. form_ok e \<and> printable e \<and> print_words e \<le> 256 \<and> length (form_text e) + 5 \<le> 1024"
    and "ready (rt_of (rp_machine st)) ks (sum_list (map (\<lambda>e. form_cells e + 3) es)) (sum_list (map form_words es))"
    and "able (rp_machine st)" and "length (rp_output st) = 1024"
  shows "\<exists>st'. loop (map (\<lambda>e. Some (quote_line e)) es) st = Some (True, st') \<and>
    rp_out st' = rp_out st @ concat (map (\<lambda>e. reply (form_text e)) es)"
  using assms(3-6)
proof (induction es arbitrary: st ks)
  case Nil
  then show ?case by (simp add: loop_nil)
next
  case (Cons e es)
  have e: "form_ok e" "printable e" "print_words e \<le> 256" "length (form_text e) + 5 \<le> 1024" using Cons.prems(1) by simp_all
  have "ready (rt_of (rp_machine st)) ks (form_cells e + 3 + sum_list (map (\<lambda>e. form_cells e + 3) es))
      (form_words e + sum_list (map form_words es))" using Cons.prems(2) by simp
  from quote_echo [OF assms(1) e this Cons.prems(3,4) assms(2)] obtain st1 ks1 where
    st1: "handle (Some (quote_line e)) st = Some (True, st1)" "rp_out st1 = rp_out st @ reply (form_text e)"
      "ready (rt_of (rp_machine st1)) ks1 (sum_list (map (\<lambda>e. form_cells e + 3) es)) (sum_list (map form_words es))"
      "able (rp_machine st1)" "length (rp_output st1) = 1024"
    by blast
  from Cons.IH [OF _ st1(3-5)] Cons.prems(1) obtain st' where
    "loop (map (\<lambda>e. Some (quote_line e)) es) st1 = Some (True, st')" "rp_out st' = rp_out st1 @ concat (map (\<lambda>e. reply (form_text e)) es)"
    by auto
  then show ?case using loop_cons [OF st1(1)] st1(2) by simp
qed

end

lemma quoted_ec_runs:
  assumes "quoted (rt_heap rt) t x"
  shows "ec_runs_program H exts 0 t \<lparr>sc_rt = rt, sc_global = ge, sc_env = NIL\<rparr> x \<lparr>sc_rt = rt, sc_global = ge, sc_env = NIL\<rparr>"
proof -
  let ?s = "\<lparr>sc_rt = rt, sc_global = ge, sc_env = NIL\<rparr>"
  obtain q d where q: "cdr (rt_heap rt) t = Some NIL" "car (rt_heap rt) t = Some q" "form (rt_heap rt) q (enc_sym DEF_REPR_QUOTE) d" "car (rt_heap rt) d = Some x"
    using assms by (auto simp: quoted_def)
  have "ec_runs H exts 0 (E_exp q) (?s\<lparr>sc_env := NIL\<rparr>) x ?s"
    using ec_quote [of ?s q "enc_sym DEF_REPR_QUOTE" d x H exts] q(3,4) by (simp add: is_sym_def dec_sym_enc_sym)
  then show ?thesis using q(1,2) by (intro ec_last) auto
qed

lemma quoted_runs:
  assumes "quoted (rt_heap rt) t x"
  shows "runs_program H exts 0 t \<lparr>sc_rt = rt, sc_global = ge, sc_env = NIL\<rparr> x \<lparr>sc_rt = rt, sc_global = ge, sc_env = NIL\<rparr>"
proof -
  let ?s = "\<lparr>sc_rt = rt, sc_global = ge, sc_env = NIL\<rparr>"
  obtain q d where q: "cdr (rt_heap rt) t = Some NIL" "car (rt_heap rt) t = Some q" "form (rt_heap rt) q (enc_sym DEF_REPR_QUOTE) d" "car (rt_heap rt) d = Some x"
    using assms by (auto simp: quoted_def)
  have "runs H exts 0 (Eval q) ?s x ?s"
    using eval_quote [of ?s q "enc_sym DEF_REPR_QUOTE" d x H exts] q(3,4) by (simp add: is_sym_def dec_sym_enc_sym)
  then show ?thesis using q(1,2) by (intro runs_program.last) auto
qed

text \<open>The two loops keep this contract.\<close>

interpretation ec: line_handler R "ec_line H R" "ec_loop H R" rm_rt "ec_able H" for R H
proof unfold_locales
  fix st :: "register_machine repl" and str t rt x out
  assume a: "ec_able H (rp_machine st)" "typed str" "tokpar_parse (rh_tok R) (rm_rt (rp_machine st)) (c_string str) = Some (t, rt)"
    "quoted (rt_heap rt) t x" "prints (rh_f_text R) rt x out 256" "length out + 5 \<le> 1024" "NUL \<notin> set out"
    "length (rp_output st) = 1024" "length (rh_storage R) = 256"
  obtain d where d: "eh_malloc H 1024 = Some d" "length d = 256" using a(1) by (auto simp: ec_able_def)
  let ?s = "\<lparr>sc_rt = rt, sc_global = rm_global (rp_machine st), sc_env = NIL\<rparr>"
  have "ec_runs_program H (rm_extensions (rp_machine st)) 0 t ?s x ?s" using a(4) by (rule quoted_ec_runs)
  from ec_line_evaluates [OF a(2,3) this _ d] a(5-9)
  show "\<exists>st'. ec_line H R (Some str) st = Some (True, st') \<and> rp_out st' = rp_out st @ reply out \<and> rm_rt (rp_machine st') = rt \<and>
      ec_able H (rp_machine st') \<and> length (rp_output st') = 1024"
    using d by (fastforce simp: reply_def ec_able_def)
qed simp_all

interpretation nc: line_handler R "nc_line H R" "nc_loop H R" es_rt "nc_able H 0" for R H
proof unfold_locales
  fix st :: "eval_state repl" and str t rt x out
  assume a: "nc_able H 0 (rp_machine st)" "typed str" "tokpar_parse (rh_tok R) (es_rt (rp_machine st)) (c_string str) = Some (t, rt)"
    "quoted (rt_heap rt) t x" "prints (rh_f_text R) rt x out 256" "length out + 5 \<le> 1024" "NUL \<notin> set out"
    "length (rp_output st) = 1024" "length (rh_storage R) = 256"
  let ?s = "\<lparr>sc_rt = rt, sc_global = es_env_global (rp_machine st), sc_env = NIL\<rparr>"
  have run: "runs_program H (es_extensions (rp_machine st)) 0 t ?s x ?s" using a(4) by (rule quoted_runs)
  have "type_of t = PTR_TYPE_CONS" using a(4) by (simp add: quoted_def)
  from nc_line_evaluates [OF a(2,3) this run a(1), of out 256] a(5-9)
  show "\<exists>st'. nc_line H R (Some str) st = Some (True, st') \<and> rp_out st' = rp_out st @ reply out \<and> es_rt (rp_machine st') = rt \<and>
      nc_able H 0 (rp_machine st') \<and> length (rp_output st') = 1024"
    by (auto simp: reply_def)
qed simp_all

text \<open>
  C8: a session of quoted expressions comes back as it was typed. When the user types lines of a quote mark and an expression of
  non-negative numbers of 27 bits, characters, names and non-empty lists, the loops of \<open>repl-ec\<close> and \<open>repl-cps-nc\<close> both print for
  every line the prompt, a line end and, after a greater-than sign, the text of that expression, and wait for the next line. Tokeniser,
  parser, symbol table, heap, either evaluator and the printer take part; the data of the session must fit into the heap and the memory,
  and each expression into the stack of the printer and its buffer.
\<close>

theorem repl_session_echo:
  assumes "\<forall>n. te_malloc (rh_tok R) n" and "length (rh_storage R) = 256"
    and "\<forall>e \<in> set es. form_ok e \<and> printable e \<and> print_words e \<le> 256 \<and> length (form_text e) + 5 \<le> 1024"
    and "ready (rm_rt (rp_machine st)) ks (sum_list (map (\<lambda>e. form_cells e + 3) es)) (sum_list (map form_words es))"
    and "ec_able HE (rp_machine st)" and "length (rp_output st) = 1024"
    and "ready (es_rt (rp_machine st2)) ks2 (sum_list (map (\<lambda>e. form_cells e + 3) es)) (sum_list (map form_words es))"
    and "nc_able H 0 (rp_machine st2)" and "length (rp_output st2) = 1024"
  shows "(\<exists>st'. ec_loop HE R (map (\<lambda>e. Some (quote_line e)) es) st = Some (True, st') \<and>
      rp_out st' = rp_out st @ concat (map (\<lambda>e. reply (form_text e)) es)) \<and>
    (\<exists>st'. nc_loop H R (map (\<lambda>e. Some (quote_line e)) es) st2 = Some (True, st') \<and>
      rp_out st' = rp_out st2 @ concat (map (\<lambda>e. reply (form_text e)) es))"
  using ec.session_echo [of R es st ks HE] nc.session_echo [of R es st2 ks2 H] assms by (simp add: mallocs_def)

text \<open>The expression \<open>(+ ab 7)\<close> typed to a machine with the small heap and memory.\<close>

definition sum_form :: form where
  "sum_form = List_form [Symbol_lit ''+'', Symbol_lit ''ab'', Int_lit 7]"

lemma sum_form_text: "form_text sum_form = ''(+ ab 7)''" "program_text [Quote_form sum_form] = CHR 0x27 # ''(+ ab 7)''"
  by code_simp+

lemma sum_form_laws: "form_ok sum_form" "printable sum_form" "form_cells sum_form + 3 \<le> 8" "form_words sum_form \<le> 11" "print_words sum_form \<le> 256"
  by (simp_all add: sum_form_def name_ok_def symchar0_def symchar_def tolower_def)

definition sum_repl :: "'m \<Rightarrow> 'm repl" where
  "sum_repl m = \<lparr>rp_machine = m, rp_output = replicate 1024 NUL, rp_error = replicate 1024 NUL, rp_out = []\<rparr>"

definition sum_context :: "eval_context \<Rightarrow> eval_context" where
  "sum_context c = c\<lparr>ec_K := \<lparr>sk_data = Some (replicate 256 0), sk_sp = 0, sk_size = 256, sk_growable = False\<rparr>\<rparr>"

lemma sum_context_laws: "stack_wf (ec_K (sum_context c))" "unat (sk_size (ec_K (sum_context c))) = 256"
  by (simp_all add: sum_context_def stack_wf_def)

theorem repl_session_echo_witness:
  "\<forall>HE H R rm es c.
    (\<exists>st'. ec_loop (HE\<lparr>eh_malloc := \<lambda>n. Some (replicate (unat n div 4) 0)\<rparr>)
       (R\<lparr>rh_tok := (rh_tok R)\<lparr>te_malloc := \<lambda>n. True\<rparr>, rh_storage := replicate 256 0\<rparr>) [Some ((CHR 0x27 # ''(+ ab 7)'') @ [CHR 0x0A])]
       (sum_repl (rm\<lparr>rm_rt := sum_runtime\<rparr>)) = Some (True, st') \<and> rp_out st' = ''# '' @ line [] @ line (''> '' @ ''(+ ab 7)'')) \<and>
    (\<exists>st'. nc_loop (H\<lparr>hst_done := \<lambda>x. x\<rparr>)
       (R\<lparr>rh_tok := (rh_tok R)\<lparr>te_malloc := \<lambda>n. True\<rparr>, rh_storage := replicate 256 0\<rparr>) [Some ((CHR 0x27 # ''(+ ab 7)'') @ [CHR 0x0A])]
       (sum_repl (es\<lparr>es_rt := sum_runtime, es_ctxs := (es_ctxs es)(ctx_non_concurrent \<mapsto> sum_context c), es_done := 0\<rparr>)) = Some (True, st') \<and>
       rp_out st' = ''# '' @ line [] @ line (''> '' @ ''(+ ab 7)''))"
proof (intro allI)
  fix HE :: ec_host and H :: host and R :: repl_host and rm :: register_machine and es :: eval_state and c :: eval_context
  let ?HE = "HE\<lparr>eh_malloc := \<lambda>n. Some (replicate (unat n div 4) 0)\<rparr>" and ?H = "H\<lparr>hst_done := \<lambda>x. x\<rparr>"
    and ?R = "R\<lparr>rh_tok := (rh_tok R)\<lparr>te_malloc := \<lambda>n. True\<rparr>, rh_storage := replicate 256 0\<rparr>"
    and ?st = "sum_repl (rm\<lparr>rm_rt := sum_runtime\<rparr>)"
    and ?st2 = "sum_repl (es\<lparr>es_rt := sum_runtime, es_ctxs := (es_ctxs es)(ctx_non_concurrent \<mapsto> sum_context c), es_done := 0\<rparr>)"
  have r: "ready sum_runtime [] (sum_list (map (\<lambda>e. form_cells e + 3) [sum_form])) (sum_list (map form_words [sum_form]))"
    using ready_less [OF sum_runtime_ready sum_form_laws(3,4)] by simp
  have o: "rp_out ?st = []" "rp_out ?st2 = []" "quote_line sum_form = (CHR 0x27 # ''(+ ab 7)'') @ [CHR 0x0A]"
    by (simp_all add: sum_repl_def quote_line_def sum_form_text)
  have able: "ec_able ?HE (rp_machine ?st)" "nc_able ?H 0 (rp_machine ?st2)"
    using sum_context_laws [of c] by (simp_all add: ec_able_def nc_able_def sum_repl_def)
  show "(\<exists>st'. ec_loop ?HE ?R [Some ((CHR 0x27 # ''(+ ab 7)'') @ [CHR 0x0A])] ?st = Some (True, st') \<and>
      rp_out st' = ''# '' @ line [] @ line (''> '' @ ''(+ ab 7)'')) \<and>
    (\<exists>st'. nc_loop ?H ?R [Some ((CHR 0x27 # ''(+ ab 7)'') @ [CHR 0x0A])] ?st2 = Some (True, st') \<and>
      rp_out st' = ''# '' @ line [] @ line (''> '' @ ''(+ ab 7)''))"
    using repl_session_echo [of ?R "[sum_form]" ?st "[]" ?HE ?st2 "[]" ?H] r sum_form_laws able o sum_form_text(1)
    by (simp add: reply_def sum_repl_def)
qed

subsection \<open>Starting up\<close>

definition blocks_ok :: "start_blocks \<Rightarrow> nat \<Rightarrow> bool" where
  "blocks_ok B n \<longleftrightarrow>
     (\<exists>a ws b bs. sb_memory B = Some (a, ws) \<and> sb_bitmap B = Some (b, bs) \<and> a \<noteq> 0 \<and> a mod 4 = 0 \<and> b mod 4 = 0 \<and>
        unat a + 16384 \<le> 2 ^ 32 \<and> length ws = 4096 \<and> length bs = 256) \<and>
     (\<exists>cs. sb_heap B (of_nat n * 8) = Some cs \<and> length cs = n) \<and> sb_ext B"

lemma start_memory_ok:
  assumes "blocks_ok B n"
  shows "\<exists>m txt. start_memory B rt out = Some (Inr (rt\<lparr>rt_mem := m\<rparr>, out @ txt)) \<and> memory_wf m \<and> memory_segs m = replicate 4096 Free"
proof -
  obtain a ws b bs where B: "sb_memory B = Some (a, ws)" "sb_bitmap B = Some (b, bs)" "a \<noteq> 0" "a mod 4 = 0" "b mod 4 = 0"
      "unat a + 16384 \<le> 2 ^ 32" "length ws = 4096" "length bs = 256"
    using assms unfolding blocks_ok_def by (elim conjE exE) (rule that; assumption)
  obtain m where m: "memory_init (rt_mem rt) (Some (a, ws)) (64 * 256) (Some (b, bs)) (4 * 256) = Some (True, m)" "memory_wf m"
      "memory_segs m = replicate 4096 Free"
    using memory_init_all_free [of a b "64 * 256" "4 * 256" bs ws "rt_mem rt"] B by auto
  moreover obtain f where "memory_num_free m = Some f" using memory_num_free_refines [OF m(2)] by blast
  ultimately show ?thesis using B(1,2) by (auto simp: start_memory_def)
qed

lemma start_heap_ok:
  assumes "blocks_ok B (unat n)" and "0 < unat n" and "unat n \<le> 2 ^ 23"
  shows "\<exists>h txt. start_heap R B n rt out = Some (Inr (rt\<lparr>rt_heap := h\<rparr>, out @ txt)) \<and> heap_wf h \<and> room h = unat n"
proof -
  obtain cs where cs: "sb_heap B (n * 8) = Some cs" "length cs = unat n" using assms(1) by (auto simp: blocks_ok_def)
  obtain h where h: "generate_freelist (heap_init_state (rt_heap rt) (Some cs) n True) n = Some (True, h)" "heap_wf h" "free_cells h = [0..<unat n]"
    using generate_freelist_correct [of "heap_init_state (rt_heap rt) (Some cs) n True" cs n, OF _ cs(2) _ assms(2,3)]
    by (force simp: heap_init_state_def)
  then have "heap_init (sb_heap B) (rt_heap rt) n = Some (True, h)" using cs(1) by (simp add: heap_init_def)
  then show ?thesis using h heap_num_free_wf [OF h(2)] by (auto simp: start_heap_def)
qed

text \<open>
  C35: the start of \<open>repl-ec\<close> establishes what the parser needs. With the blocks of the sizes \<open>main\<close> asks for, an empty symbol table
  and no extensions, \<open>main\<close> reaches the prelude with a well-formed heap of 8192 free cells, a well-formed memory whose last
  4087 words are free, an empty global environment, and the name \<open>print\<close> known as the first symbol and bound to the extension.
\<close>

theorem ec_start_ready:
  assumes "blocks_ok B 8192" and "rt_sym (rm_rt rm) = \<lparr>ss_symlist = 0, ss_next_symbol_id = 0\<rparr>" and "rm_extensions rm = []"
  shows "\<exists>rm' out. ec_start_data R B rm = Some (Inr (rm', out)) \<and> ready (rm_rt rm') [(cstr ''print'', 4096)] 8192 4087 \<and>
    rm_global rm' = NIL \<and> rm_extensions rm' = [(4096, sb_print B)]"
proof -
  obtain m t1 where m: "start_memory B (rm_rt rm) [] = Some (Inr ((rm_rt rm)\<lparr>rt_mem := m\<rparr>, t1))" "memory_wf m" "memory_segs m = replicate 4096 Free"
    using start_memory_ok [OF assms(1), of "rm_rt rm" "[]"] by auto
  let ?rt = "(rm_rt rm)\<lparr>rt_mem := m\<rparr>" and ?t2 = "t1 @ line ''Symrepr initialized.''"
  obtain h t3 where h: "start_heap R B 8192 ?rt ?t2 = Some (Inr (?rt\<lparr>rt_heap := h\<rparr>, ?t2 @ t3))" "heap_wf h" "room h = 8192"
    using start_heap_ok [of B 8192 R ?rt ?t2] assms(1) by auto
  have p: "0 \<notin> set (cstr ''print'')" "cstr ''print'' \<noteq> []" "length (cstr ''print'') = 5" by code_simp+
  have "tail_free m 4096" unfolding tail_free_def m(3) by (intro exI [of _ "[]"]) simp
  then obtain i ss' m' where a: "symrepr_addsym (rt_sym (rm_rt rm)) m (cstr ''print'') = Some (Some i, ss', m')"
      "added (rt_sym (rm_rt rm)) m (cstr ''print'') (Some i) ss' m'" "tail_free m' 4087"
    using addsym_tail [OF m(2) p(1,2), of 4096 "rt_sym (rm_rt rm)"] p(3) by auto
  have i: "i = 4096" "ss_next_symbol_id ss' = 1" "extends m m'" using a(2) assms(2) by (auto simp: added_def)
  have "\<forall>es. symlist_at m (ss_symlist (rt_sym (rm_rt rm))) es \<longrightarrow> symlist_at m' (ss_symlist ss') ((cstr ''print'', i) # es)"
    using a(2) unfolding added_def option.case by blast
  moreover have "symlist_at m (ss_symlist (rt_sym (rm_rt rm))) []" using assms(2) by simp
  ultimately have "symlist_at m' (ss_symlist ss') [(cstr ''print'', i)]" by blast
  then have l: "symlist_at m' (ss_symlist ss') [(cstr ''print'', 4096)]" unfolding i(1) .
  have x: "extensions_add True [] (rt_sym (rm_rt rm)) m (cstr ''print'') (sb_print B) = Some (True, [(4096, sb_print B)], ss', m')"
    using a(1) i(1) by (simp add: extensions_add_def)
  have "sb_ext B" using assms(1) by (simp add: blocks_ok_def)
  then show ?thesis
    using m(1) h x i l a(3) assms(3)
    by (simp add: ec_start_data_def start_symrepr_def symrepr_init_def env_init_def ready_def extends_def)
qed

theorem ec_start_ready_witness:
  "\<forall>R rm. \<exists>rm' out. ec_start_data R
      \<lparr>sb_memory = Some (0x10000, replicate 4096 0), sb_bitmap = Some (0x20000, replicate 256 0),
       sb_heap = \<lambda>n. Some (replicate (unat n div 8) \<lparr>cell_car = 0, cell_cdr = 0\<rparr>), sb_ext = True, sb_print = 1, sb_prelude = []\<rparr>
      (rm\<lparr>rm_rt := (rm_rt rm)\<lparr>rt_sym := \<lparr>ss_symlist = 0, ss_next_symbol_id = 0\<rparr>\<rparr>, rm_extensions := []\<rparr>) = Some (Inr (rm', out)) \<and>
    ready (rm_rt rm') [(cstr ''print'', 4096)] 8192 4087 \<and> rm_global rm' = NIL \<and> rm_extensions rm' = [(4096, 1)]"
proof (intro allI)
  fix R :: repl_host and rm :: register_machine
  let ?B = "\<lparr>sb_memory = Some (0x10000, replicate 4096 0), sb_bitmap = Some (0x20000, replicate 256 0),
       sb_heap = \<lambda>n. Some (replicate (unat n div 8) \<lparr>cell_car = 0, cell_cdr = 0\<rparr>), sb_ext = True, sb_print = 1, sb_prelude = []\<rparr>"
  have "blocks_ok ?B 8192" by (simp add: blocks_ok_def)
  from ec_start_ready [OF this, of "rm\<lparr>rm_rt := (rm_rt rm)\<lparr>rt_sym := \<lparr>ss_symlist = 0, ss_next_symbol_id = 0\<rparr>\<rparr>, rm_extensions := []\<rparr>" R]
  show "\<exists>rm' out. ec_start_data R ?B
      (rm\<lparr>rm_rt := (rm_rt rm)\<lparr>rt_sym := \<lparr>ss_symlist = 0, ss_next_symbol_id = 0\<rparr>\<rparr>, rm_extensions := []\<rparr>) = Some (Inr (rm', out)) \<and>
    ready (rm_rt rm') [(cstr ''print'', 4096)] 8192 4087 \<and> rm_global rm' = NIL \<and> rm_extensions rm' = [(4096, 1)]"
    by simp
qed

subsection \<open>The line editor\<close>

text \<open>The text a line editor keeps, and the text up to the end of the line or until the line is full.\<close>

definition edit_key :: "string \<Rightarrow> int \<Rightarrow> string" where
  "edit_key xs c = (if c = 127 \<or> c = 8 then butlast xs else if isprint c then xs @ [char_of (nat c)] else xs)"

fun edit_line :: "nat \<Rightarrow> string \<Rightarrow> int list \<Rightarrow> string \<times> bool option \<times> int list" where
  "edit_line k xs cs =
     (if length xs < k then
        (case cs of
           [] \<Rightarrow> (xs, None, [])
         | c # cs \<Rightarrow> if c = 10 \<or> c = 13 then (xs, Some True, cs) else edit_line k (edit_key xs c) cs)
      else (xs, Some False, cs))"

declare edit_line.simps [simp del]

lemma edit_negative: "c < 0 \<Longrightarrow> edit_key xs c = xs"
  by (simp add: edit_key_def isprint_def)

lemma take_list_update_append: "n < length b \<Longrightarrow> take n b = xs \<Longrightarrow> take (Suc n) (b[n := x]) = xs @ [x]"
  by (auto simp: take_Suc_conv_app_nth)

definition key_state :: "string \<Rightarrow> int \<Rightarrow> line_state \<Rightarrow> line_state" where
  "key_state xs c ls =
     (if c < 0 then ls
      else let ls = ls\<lparr>ls_allow_print := False\<rparr> in
        if c = 127 \<or> c = 8 then
          ls\<lparr>ls_buffer := (ls_buffer ls)[length (butlast xs) := NUL], ls_echo := ls_echo ls @ [CHR 0x08, CHR '' '', CHR 0x08]\<rparr>
        else if isprint c then ls\<lparr>ls_buffer := (ls_buffer ls)[length xs := char_of (nat c)], ls_echo := ls_echo ls @ [char_of (nat c)]\<rparr>
        else ls)"

definition holds :: "u32 \<Rightarrow> string \<Rightarrow> line_state \<Rightarrow> bool" where
  "holds sz xs ls \<longleftrightarrow> 1 \<le> unat sz \<and> length (ls_buffer ls) = unat sz \<and> length xs < unat sz \<and> take (length xs) (ls_buffer ls) = xs"

lemma room_left: "1 \<le> unat sz \<Longrightarrow> n < unat sz \<Longrightarrow> (of_int (int n) :: u32) < sz - 1 \<longleftrightarrow> n < unat sz - 1"
proof -
  assume a: "1 \<le> unat sz" "n < unat sz"
  then have "unat (sz - 1) = unat sz - 1" by (simp add: unat_sub word_le_nat_alt)
  moreover have "unat sz < 2 ^ LENGTH(32)" by (rule unsigned_less)
  then have "unat (of_nat n :: u32) = n" using a(2) by (simp add: unat_of_nat)
  ultimately show ?thesis by (simp add: word_less_nat_alt)
qed

lemma inputline_key:
  assumes "holds sz xs ls" and "length xs < unat sz - 1" and "c \<noteq> 10" and "c \<noteq> 13"
  shows "inputline_loop sz (c # cs) (int (length xs)) ls = inputline_loop sz cs (int (length (edit_key xs c))) (key_state xs c ls)"
proof -
  have b: "length xs < length (ls_buffer ls)" "length xs - 1 < length (ls_buffer ls)" using assms(1) by (auto simp: holds_def)
  have r: "(of_int (int (length xs)) :: u32) < sz - 1" using room_left assms(1,2) by (auto simp: holds_def)
  consider "c < 0" | "c = 127 \<or> c = 8" | "isprint c" "c \<noteq> 127" "c \<noteq> 8" "0 \<le> c" | "0 \<le> c" "c \<noteq> 127" "c \<noteq> 8" "\<not> isprint c" by linarith
  then show ?thesis
  proof cases
    case 1
    then show ?thesis using r by (subst inputline_loop.simps) (simp add: key_state_def edit_key_def isprint_def)
  next
    case 2
    then have k: "edit_key xs c = butlast xs" "0 \<le> c" by (auto simp: edit_key_def)
    have n: "nat (int (length xs) - 1) = length xs - 1" by simp
    have m: "xs \<noteq> [] \<Longrightarrow> int (length xs - Suc 0) = int (length xs) - 1" by (simp add: of_nat_diff Suc_le_eq)
    show ?thesis
      using r b 2 k n m by (subst inputline_loop.simps) (cases "xs = []"; simp add: key_state_def Let_def)
  next
    case 3
    then show ?thesis
      using r b assms(3,4) by (subst inputline_loop.simps) (simp add: key_state_def edit_key_def Let_def add.commute)
  next
    case 4
    then show ?thesis using r assms(3,4) by (subst inputline_loop.simps) (simp add: key_state_def edit_key_def Let_def)
  qed
qed

lemma key_holds:
  assumes "holds sz xs ls" and "length xs < unat sz - 1"
  shows "holds sz (edit_key xs c) (key_state xs c ls)"
proof -
  have "take (length xs - 1) (ls_buffer ls) = butlast xs" using assms(1) by (metis butlast_take holds_def butlast_conv_take less_imp_le min.absorb2 take_take diff_le_self)
  moreover have "take (Suc (length xs)) ((ls_buffer ls)[length xs := char_of (nat c)]) = xs @ [char_of (nat c)]"
    using assms(1) by (intro take_list_update_append) (auto simp: holds_def)
  ultimately show ?thesis using assms by (auto simp: holds_def key_state_def edit_key_def isprint_def Let_def)
qed

text \<open>What \<open>inputline\<close> returns for what the editor keeps.\<close>

definition line_done :: "string \<Rightarrow> bool option \<Rightarrow> line_result" where
  "line_done ys r = (case r of None \<Rightarrow> Waiting (int (length ys)) | Some ended \<Rightarrow> Line (if ended then int (length ys) else 0))"

lemma inputline_full:
  assumes "holds sz xs ls" and "\<not> length xs < unat sz - 1"
  shows "\<exists>ls'. inputline_loop sz cs (int (length xs)) ls = Some (line_done xs (Some False), cs, ls') \<and> holds sz xs ls' \<and>
    ls_buffer ls' ! length xs = NUL"
proof -
  have n: "length xs = unat sz - 1" "unat (sz - 1) = unat sz - 1" "length xs < length (ls_buffer ls)"
    using assms by (auto simp: holds_def unat_sub word_le_nat_alt)
  have "\<not> (of_int (int (length xs)) :: u32) < sz - 1" using room_left assms by (auto simp: holds_def)
  then show ?thesis using n assms(1) by (subst inputline_loop.simps) (auto simp: line_done_def holds_def)
qed

lemma inputline_end:
  assumes "holds sz xs ls" and "length xs < unat sz - 1" and "c = 10 \<or> c = 13"
  shows "\<exists>ls'. inputline_loop sz (c # cs) (int (length xs)) ls = Some (line_done xs (Some True), cs, ls') \<and> holds sz xs ls' \<and>
    ls_buffer ls' ! length xs = NUL"
  using assms room_left by (subst inputline_loop.simps) (auto simp: line_done_def holds_def)

lemma inputline_edits:
  assumes "holds sz xs ls" and "edit_line (unat sz - 1) xs cs = (ys, r, rest)"
  shows "\<exists>ls'. inputline_loop sz cs (int (length xs)) ls = Some (line_done ys r, rest, ls') \<and> holds sz ys ls' \<and>
    (r \<noteq> None \<longrightarrow> ls_buffer ls' ! length ys = NUL)"
  using assms
proof (induction cs arbitrary: xs ls)
  case Nil
  show ?case
  proof (cases "length xs < unat sz - 1")
    case True
    then show ?thesis using Nil room_left by (subst inputline_loop.simps) (auto simp: edit_line.simps line_done_def holds_def)
  next
    case False
    then show ?thesis using inputline_full [OF Nil.prems(1)] Nil.prems(2) by (auto simp: edit_line.simps)
  qed
next
  case (Cons c cs)
  show ?case
  proof (cases "length xs < unat sz - 1")
    case True
    show ?thesis
    proof (cases "c = 10 \<or> c = 13")
      case newline: True
      then show ?thesis using Cons.prems True inputline_end [OF Cons.prems(1) True newline] by (auto simp: edit_line.simps)
    next
      case False
      then show ?thesis
        using Cons.IH [OF key_holds [OF Cons.prems(1) True], of c] inputline_key [OF Cons.prems(1) True] Cons.prems(2) True
        by (simp add: edit_line.simps [of _ xs])
    qed
  next
    case False
    then show ?thesis using inputline_full [OF Cons.prems(1)] Cons.prems(2) by (auto simp: edit_line.simps)
  qed
qed

text \<open>
  C36: \<open>inputline\<close> is a line editor. Whatever keys come, printable characters are appended, backspace and delete remove the last
  character, all other keys and the moments without a key do nothing, until a line end comes or the buffer is full but for one place.
  Then the buffer holds the edited text and a zero; the result is its length, or 0 when the buffer is full, and no key after that has been used.
\<close>

theorem inputline_correct:
  assumes "1 \<le> unat sz" and "length (ls_buffer ls) = unat sz" and "edit_line (unat sz - 1) [] cs = (ys, r, rest)"
  shows "\<exists>ls'. inputline sz cs ls = Some (case r of None \<Rightarrow> Waiting (int (length ys)) | Some ended \<Rightarrow> Line (if ended then int (length ys) else 0), rest, ls') \<and>
    length (ls_buffer ls') = unat sz \<and> length ys < unat sz \<and> take (length ys) (ls_buffer ls') = ys \<and>
    (r \<noteq> None \<longrightarrow> ls_buffer ls' ! length ys = NUL)"
  using inputline_edits [of sz "[]" ls cs ys r rest] assms by (auto simp: holds_def inputline_def line_done_def)

theorem inputline_correct_witness:
  "\<exists>ls'. inputline 6 [-1, 97, 120, 8, 7, 98, 10, 99] \<lparr>ls_buffer = replicate 6 NUL, ls_allow_print = True, ls_echo = []\<rparr> = Some (Line 2, [99], ls') \<and>
    take 2 (ls_buffer ls') = ''ab'' \<and> ls_buffer ls' ! 2 = NUL"
proof -
  have e: "edit_line (unat (6 :: u32) - 1) [] [-1, 97, 120, 8, 7, 98, 10, 99] = (''ab'', Some True, [99])" by code_simp
  let ?ls = "\<lparr>ls_buffer = replicate 6 NUL, ls_allow_print = True, ls_echo = []\<rparr>"
  have "1 \<le> unat (6 :: u32)" "length (ls_buffer ?ls) = unat (6 :: u32)" by simp_all
  from inputline_correct [OF this e] obtain ls' where
    ls': "inputline 6 [-1, 97, 120, 8, 7, 98, 10, 99] ?ls = Some (Line (int (length ''ab'')), [99], ls')"
      "take (length ''ab'') (ls_buffer ls') = ''ab''" "ls_buffer ls' ! length ''ab'' = NUL"
    by (elim exE conjE) simp
  have "length ''ab'' = 2" by simp
  then show ?thesis using ls' by (metis of_nat_numeral)
qed

subsection \<open>Loading a file\<close>

text \<open>
  C37: \<open>repl-cps-nc\<close> cannot load files. \<open>getline\<close> leaves the line end in the line and \<open>:load\<close> takes it for the last character of the
  name of the file; where no file has a line end in its name, every \<open>:load\<close> only prints the name and leaves the evaluator as it is.
  \<open>repl-ec\<close> removes the line end and reads, evaluates and prints the file of that name.
\<close>

theorem nc_load_never_opens:
  assumes "\<forall>f. CHR 0x0A \<in> set f \<longrightarrow> rh_fopen R f = None" and "NUL \<notin> set name" and "take 1 name \<noteq> '' ''" and "name \<noteq> []"
    and "rh_fopen R name = Some \<lparr>fl_size = int (length src), fl_bytes = src\<rparr>" and "src \<noteq> []" and "rh_malloc R (length src + 1)" and "NUL \<notin> set src"
  shows "nc_line H R (Some ('':load '' @ name @ [CHR 0x0A])) st =
      Some (True, say (''# '' @ line [] @ line (''filename: '' @ name @ [CHR 0x0A])) st) \<and>
    ec_line HE R (Some ('':load '' @ name @ [CHR 0x0A])) st2 =
      map_option (\<lambda>st. (True, st)) (ec_read_eval_print HE R src (say (''# '' @ line [] @ line (''Loading file '' @ '' '' @ name)) st2))"
proof -
  have c: "c_string ('':load '' @ name @ [CHR 0x0A]) = '':load '' @ name @ [CHR 0x0A]"
    using assms(2) unfolding c_string_def takeWhile_eq_all_conv by auto
  have k: "is_command '':load'' (Some ('':load '' @ name @ [CHR 0x0A]))" "\<not> is_command '':info'' (Some ('':load '' @ name @ [CHR 0x0A]))"
    by (simp_all add: is_command_def)
  have sp: "skip_spaces ('' '' @ name @ r) = name @ r" for r using assms(3,4) by (cases name) (auto simp: skip_spaces_def)
  have rd: "read_file R \<lparr>fl_size = int (length src), fl_bytes = src\<rparr> = Some (Some src)"
    using assms(6-8) by (auto simp: read_file_def c_string_def takeWhile_eq_all_conv)
  have "cps_load_file R ('' '' @ name @ [CHR 0x0A]) out = Some (None, out @ line (''filename: '' @ name @ [CHR 0x0A]))" for out
    using assms(1) sp [of "[CHR 0x0A]"] by (simp add: cps_load_file_def Let_def)
  then have "nc_load H R ('':load '' @ name @ [CHR 0x0A]) st1 = Some (say (line (''filename: '' @ name @ [CHR 0x0A])) st1)" for st1
    by (simp add: nc_load_def say_def)
  moreover have "ec_load_file R ('' '' @ name) out = Some (Some src, out)" for out
    using assms(4,5) sp [of "[]"] rd by (simp add: ec_load_file_def)
  then have "ec_load HE R ('':load '' @ name @ [CHR 0x0A]) st1 = ec_read_eval_print HE R src (say (line (''Loading file '' @ '' '' @ name)) st1)" for st1
    by (simp add: ec_load_def butlast_append say_def)
  ultimately show ?thesis using k c by (simp add: nc_line_def ec_line_def line_string_def say_def)
qed

theorem nc_load_never_opens_witness:
  "\<forall>H HE R st st2. nc_line H (R\<lparr>rh_fopen := (\<lambda>f. None)(''f'' := Some \<lparr>fl_size = 1, fl_bytes = ''7''\<rparr>), rh_malloc := \<lambda>n. True\<rparr>)
      (Some ('':load '' @ ''f'' @ [CHR 0x0A])) st = Some (True, say (''# '' @ line [] @ line (''filename: '' @ ''f'' @ [CHR 0x0A])) st) \<and>
    ec_line HE (R\<lparr>rh_fopen := (\<lambda>f. None)(''f'' := Some \<lparr>fl_size = 1, fl_bytes = ''7''\<rparr>), rh_malloc := \<lambda>n. True\<rparr>)
      (Some ('':load '' @ ''f'' @ [CHR 0x0A])) st2 =
      map_option (\<lambda>st. (True, st)) (ec_read_eval_print HE (R\<lparr>rh_fopen := (\<lambda>f. None)(''f'' := Some \<lparr>fl_size = 1, fl_bytes = ''7''\<rparr>),
        rh_malloc := \<lambda>n. True\<rparr>) ''7'' (say (''# '' @ line [] @ line (''Loading file '' @ '' '' @ ''f'')) st2))"
proof (intro allI)
  fix H :: host and HE :: ec_host and R :: repl_host and st st2
  let ?R = "R\<lparr>rh_fopen := (\<lambda>f. None)(''f'' := Some \<lparr>fl_size = 1, fl_bytes = ''7''\<rparr>), rh_malloc := \<lambda>n. True\<rparr>"
  show "nc_line H ?R (Some ('':load '' @ ''f'' @ [CHR 0x0A])) st = Some (True, say (''# '' @ line [] @ line (''filename: '' @ ''f'' @ [CHR 0x0A])) st) \<and>
    ec_line HE ?R (Some ('':load '' @ ''f'' @ [CHR 0x0A])) st2 =
      map_option (\<lambda>st. (True, st)) (ec_read_eval_print HE ?R ''7'' (say (''# '' @ line [] @ line (''Loading file '' @ '' '' @ ''f'')) st2))"
    by (rule nc_load_never_opens) auto
qed

end
