(* ===== verification/Lispbmc_Main.thy ===== *)
theory Lispbmc_Main
  imports Repl Sexp
begin

text \<open>
  The rest of \<open>compiler/lispbmc.c\<close>: the command line, the files, and \<open>main\<close>, which starts the library, loads the compiler, a
  lisp program, and evaluates the call of the compiler on the program to compile.

  What \<open>getopt_long\<close> finds on the command line is a list of options, and the arguments that are no options. What the extension
  \<open>asm-out\<close> writes to the output file is not followed through the evaluation.
\<close>

subsection \<open>Files and the command line\<close>

definition comp_load_file :: "repl_host \<Rightarrow> file_data \<Rightarrow> string \<Rightarrow> (string option \<times> string) option" where
  "comp_load_file R f out =
     (if fl_size f \<le> 0 then Some (None, out @ line ''File is empty'') else map_option (\<lambda>s. (s, out)) (read_file R f))"

datatype command_option = Option_S | Option_o string | Option_unknown | Option_code nat

record arguments =
  ar_assembler :: bool
  ar_output :: "string option"

text \<open>\<open>Inl\<close> the text before \<open>parse_args\<close> returns 0.\<close>

primrec parse_options :: "command_option list \<Rightarrow> arguments \<Rightarrow> string \<Rightarrow> string + arguments \<times> string" where
  "parse_options [] a out = Inr (a, out)"
| "parse_options (c # cs) a out =
     (case c of
        Option_S \<Rightarrow> parse_options cs (a\<lparr>ar_assembler := True\<rparr>) out
      | Option_o optarg \<Rightarrow>
          (case option_o optarg of
             Inl msg \<Rightarrow> Inl (out @ msg)
           | Inr buf \<Rightarrow> parse_options cs (a\<lparr>ar_output := Some buf\<rparr>) out)
      | Option_unknown \<Rightarrow> parse_options cs a out
      | Option_code n \<Rightarrow> parse_options cs a (out @ line (''?? getopt returned character code 0'' @ nat_text 8 n @ '' ??'')))"

text \<open>The input file; whether the output file can be opened for writing is an argument.\<close>

definition parse_args ::
  "repl_host \<Rightarrow> (string \<Rightarrow> bool) \<Rightarrow> command_option list \<Rightarrow> string list \<Rightarrow> (string + file_data \<times> string \<times> string) option" where
  "parse_args R can_write cs args =
     (case parse_options cs \<lparr>ar_assembler = False, ar_output = None\<rparr> [] of
        Inl out \<Rightarrow> Some (Inl out)
      | Inr (a, out) \<Rightarrow>
          (case args of
             [] \<Rightarrow> Some (Inl (out @ line ''Error: No input file specified''))
           | arg # _ \<Rightarrow> do {
               r \<leftarrow> choose_output (ar_assembler a) (ar_output a) arg;
               case r of
                 Inl msg \<Rightarrow> Some (Inl (out @ msg))
               | Inr buf \<Rightarrow>
                   (let output_file = c_string buf; out = out @ line (''Output to: '' @ output_file) in
                    case rh_fopen R arg of
                      None \<Rightarrow> Some (Inl (out @ line (''Error: Unable to open input file '' @ arg)))
                    | Some in_file \<Rightarrow>
                        if can_write output_file then Some (Inr (in_file, output_file, out))
                        else Some (Inl (out @ line (''Error: Unable to open output file '' @ output_file))))
             }))"

subsection \<open>Starting the library\<close>

definition add_extension ::
  "start_blocks \<Rightarrow> register_machine \<Rightarrow> string \<Rightarrow> extension_fptr \<Rightarrow> string \<Rightarrow> (string + register_machine \<times> string) option" where
  "add_extension B rm name fptr out = do {
     (res, exts, ss, m) \<leftarrow> extensions_add (sb_ext B) (rm_extensions rm) (rt_sym (rm_rt rm)) (rt_mem (rm_rt rm)) (cstr name) fptr;
     if res then Some (Inr (rm\<lparr>rm_rt := (rm_rt rm)\<lparr>rt_mem := m, rt_sym := ss\<rparr>, rm_extensions := exts\<rparr>,
       out @ line (''Extension '' @ name @ '' added.'')))
     else Some (Inl (out @ line (''Error adding '' @ name @ '' extension.'')))
   }"

text \<open>\<open>asm_out\<close> is the number that stands for \<open>ext_output_assembly\<close>.\<close>

definition comp_start :: "repl_host \<Rightarrow> start_blocks \<Rightarrow> extension_fptr \<Rightarrow> register_machine \<Rightarrow> string \<Rightarrow> (string + register_machine \<times> string) option" where
  "comp_start R B asm_out rm out = do {
     s1 \<leftarrow> start_memory B (rm_rt rm) out;
     case s1 of Inl out \<Rightarrow> Some (Inl out) | Inr (rt, out) \<Rightarrow>
     (case start_symrepr out of Inl out \<Rightarrow> Some (Inl out) | Inr out \<Rightarrow> do {
        s2 \<leftarrow> start_heap R B 8192 rt out;
        case s2 of Inl out \<Rightarrow> Some (Inl out) | Inr (rt, out) \<Rightarrow>
          (let (res, env) = env_init in
           if \<not> res then Some (Inl (out @ line ''Error initializing environment!''))
           else do {
             s3 \<leftarrow> add_extension B (rm\<lparr>rm_rt := rt, rm_global := env\<rparr>) ''print'' (sb_print B) (out @ line ''Environment initialized.'');
             case s3 of Inl out \<Rightarrow> Some (Inl out) | Inr (rm, out) \<Rightarrow> add_extension B rm ''asm-out'' asm_out out
           })
      })
   }"

subsection \<open>Loading and compiling\<close>

text \<open>
  A lisp program that is loaded, and the message after it. The text of the value is replaced by \<open>UNKNOWN\<close> when \<open>print_value\<close>
  returns 0; \<open>name_of\<close> is what is printed otherwise when the value is an error.
\<close>

definition load_lisp ::
  "ec_host \<Rightarrow> repl_host \<Rightarrow> string \<Rightarrow> string \<Rightarrow> (string \<Rightarrow> string) \<Rightarrow> string \<Rightarrow> register_machine repl \<Rightarrow> register_machine repl option" where
  "load_lisp H R bad good name_of src st = do {
     let rm = rp_machine st;
     (prg, rt) \<leftarrow> tokpar_parse (rh_tok R) (rm_rt rm) src;
     (v, rm) \<leftarrow> ec_eval_program H (rm\<lparr>rm_rt := rt\<rparr>) prg;
     (r, output, error) \<leftarrow> print_value (rh_f_text R) (rh_storage R) (rm_rt rm) (rp_output st) 1024 (rp_error st) 1024 v;
     let st = st\<lparr>rp_machine := rm, rp_output := output, rp_error := error\<rparr>;
     Some (say (if is_symbol v \<and> symrepr_is_error (dec_sym v)
                then line (bad @ (if r = 0 then ''UNKNOWN'' else name_of (c_string output)))
                else line (good @ (if r = 0 then ''UNKNOWN'' else c_string output))) st)
   }"

definition load_prelude :: "ec_host \<Rightarrow> repl_host \<Rightarrow> start_blocks \<Rightarrow> register_machine repl \<Rightarrow> register_machine repl option" where
  "load_prelude H R B = load_lisp H R ''Error loading Prelude: '' ''Prelude loaded successfully: '' (\<lambda>s. s) (sb_prelude B)"

text \<open>The word output is in quotes in the code: it is printed in place of the text.\<close>

definition load_compiler :: "ec_host \<Rightarrow> repl_host \<Rightarrow> string \<Rightarrow> register_machine repl \<Rightarrow> register_machine repl option" where
  "load_compiler H R = load_lisp H R ''Error loading compiler: '' ''Compiler loaded successfully: '' (\<lambda>s. ''output'')"

text \<open>The list with the one expression \<open>(gen-asm (quote prg))\<close>.\<close>

definition invoke_compiler :: "heap_state \<Rightarrow> UINT \<Rightarrow> VALUE \<Rightarrow> (VALUE \<times> heap_state) option" where
  "invoke_compiler h compiler input_prg = do {
     (a, h) \<leftarrow> cons h input_prg (enc_sym DEF_REPR_NIL);
     (a, h) \<leftarrow> cons h (enc_sym DEF_REPR_QUOTE) a;
     (a, h) \<leftarrow> cons h a (enc_sym DEF_REPR_NIL);
     (a, h) \<leftarrow> cons h (enc_sym compiler) a;
     cons h a (enc_sym DEF_REPR_NIL)
   }"

definition compile_program :: "ec_host \<Rightarrow> repl_host \<Rightarrow> string \<Rightarrow> register_machine repl \<Rightarrow> register_machine repl option" where
  "compile_program H R src st = do {
     let rm = rp_machine st;
     (input_prg, rt) \<leftarrow> tokpar_parse (rh_tok R) (rm_rt rm) src;
     let rm = rm\<lparr>rm_rt := rt\<rparr>;
     found \<leftarrow> symrepr_lookup (rt_sym rt) (rt_mem rt) (cstr ''gen-asm'');
     case found of
       None \<Rightarrow> Some (say (line ''Error: Compiler not present'') (st\<lparr>rp_machine := rm\<rparr>))
     | Some compiler \<Rightarrow> do {
         (call, h) \<leftarrow> invoke_compiler (rt_heap rt) compiler input_prg;
         let rt = rt\<lparr>rt_heap := h\<rparr>;
         st \<leftarrow> print_reply R rt ''> '' call (st\<lparr>rp_machine := rm\<lparr>rm_rt := rt\<rparr>\<rparr>);
         (v, rm) \<leftarrow> ec_eval_program H (rp_machine st) call;
         print_reply R (rm_rt rm) ''> '' v (st\<lparr>rp_machine := rm\<rparr>)
       }
   }"

text \<open>
  \<open>main\<close> after the command line. \<open>tokpar_parse\<close> of the null pointer \<open>load_file\<close> returns for an empty file is undefined. The
  value returned is the exit status.
\<close>

definition comp_main ::
  "ec_host \<Rightarrow> repl_host \<Rightarrow> start_blocks \<Rightarrow> extension_fptr \<Rightarrow> file_data \<Rightarrow> register_machine repl \<Rightarrow> (nat \<times> register_machine repl) option" where
  "comp_main H R B asm_out in_file st = do {
     s \<leftarrow> comp_start R B asm_out (rp_machine st) (rp_out st);
     case s of
       Inl out \<Rightarrow> Some (0, st\<lparr>rp_out := out\<rparr>)
     | Inr (rm, out) \<Rightarrow> do {
         st \<leftarrow> load_prelude H R B (st\<lparr>rp_machine := rm, rp_out := out\<rparr>);
         case rh_fopen R ''compile.lisp'' of
           None \<Rightarrow> Some (1, say (line ''Error: Unable to open compile.lisp'') st)
         | Some fp \<Rightarrow> do {
             (comp_str, out) \<leftarrow> comp_load_file R fp (rp_out st);
             comp_str \<leftarrow> comp_str;
             st \<leftarrow> load_compiler H R comp_str (st\<lparr>rp_out := out\<rparr>);
             (file_str, out) \<leftarrow> comp_load_file R in_file (rp_out st);
             file_str \<leftarrow> file_str;
             st \<leftarrow> compile_program H R file_str (st\<lparr>rp_out := out\<rparr>);
             let rm = rp_machine st;
             let rt = rm_rt rm;
             m \<leftarrow> symrepr_del (rt_sym rt) (rt_mem rt);
             Some (0, st\<lparr>rp_machine := rm\<lparr>rm_rt := rt\<lparr>rt_mem := m, rt_heap := heap_del (rt_heap rt)\<rparr>\<rparr>\<rparr>)
           }
       }
   }"

subsection \<open>The call of the compiler\<close>

lemma allocates_two:
  assumes "heap_wf h" and "2 \<le> room h" and "shape h v t"
  shows "allocates h 2 (Option.bind (cons h v (enc_sym DEF_REPR_NIL)) (\<lambda>(a, h). cons h (enc_sym i) a)) (Cell (leaf_sym i) (Cell t nil_tree))"
proof -
  have r: "0 < room h" "1 < room h" using assms(2) by auto
  have "allocates h (1 + 1) (Option.bind (cons h v (enc_sym DEF_REPR_NIL)) (\<lambda>(a, h). cons h (enc_sym i) a)) (Cell (leaf_sym i) (Cell t nil_tree))"
    by (rule allocates_then_cons [OF allocates_cons [OF assms(1) r(1) assms(3) shape_sym] shape_sym r(2)])
  then show ?thesis by (simp only: one_add_one)
qed

text \<open>With five free cells the call is the expression it is meant to be.\<close>

lemma invoke_compiler_builds:
  assumes "heap_wf h" and "5 \<le> room h" and "shape h prg t"
  shows "allocates h 5 (invoke_compiler h compiler prg)
    (Cell (Cell (leaf_sym compiler) (Cell (Cell (leaf_sym DEF_REPR_QUOTE) (Cell t nil_tree)) nil_tree)) nil_tree)"
proof -
  let ?q = "Cell (leaf_sym DEF_REPR_QUOTE) (Cell t nil_tree)"
  let ?c = "\<lambda>h v. Option.bind (Option.bind (cons h v (enc_sym DEF_REPR_NIL)) (\<lambda>(a, h). cons h (enc_sym compiler) a))
      (\<lambda>(a, h). cons h a (enc_sym DEF_REPR_NIL))"
  have c: "allocates h' (2 + 1) (?c h' v) (Cell (Cell (leaf_sym compiler) (Cell ?q nil_tree)) nil_tree)"
    if "heap_wf h'" "3 \<le> room h'" "shape h' v ?q" for h' v
  proof (rule allocates_bind [OF allocates_two [OF that(1) _ that(3)]])
    show "allocates h'' 1 (case (a, h'') of (a, h) \<Rightarrow> cons h a (enc_sym DEF_REPR_NIL)) (Cell (Cell (leaf_sym compiler) (Cell ?q nil_tree)) nil_tree)"
      if "heap_wf h''" "room h' = room h'' + 2" "shape h'' a (Cell (leaf_sym compiler) (Cell ?q nil_tree))" for h'' a
    proof -
      have "0 < room h''" using that(2) \<open>3 \<le> room h'\<close> by linarith
      from allocates_cons [OF that(1) this that(3) shape_sym] show ?thesis by simp
    qed
  qed (use that in simp)
  have "allocates h (2 + 3) (Option.bind (Option.bind (cons h prg (enc_sym DEF_REPR_NIL)) (\<lambda>(a, h). cons h (enc_sym DEF_REPR_QUOTE) a))
      (\<lambda>(a, h). ?c h a)) (Cell (Cell (leaf_sym compiler) (Cell ?q nil_tree)) nil_tree)"
  proof (rule allocates_bind [OF allocates_two [OF assms(1) _ assms(3)]])
    show "allocates h' 3 (case (v, h') of (a, h) \<Rightarrow> ?c h a) (Cell (Cell (leaf_sym compiler) (Cell ?q nil_tree)) nil_tree)"
      if "heap_wf h'" "room h = room h' + 2" "shape h' v ?q" for h' v
      using c [OF that(1) _ that(3)] that(2) assms(2) by (simp del: bind_assoc)
  qed (use assms in simp)
  moreover have "invoke_compiler h compiler prg = Option.bind (Option.bind (cons h prg (enc_sym DEF_REPR_NIL)) (\<lambda>(a, h). cons h (enc_sym DEF_REPR_QUOTE) a))
      (\<lambda>(a, h). ?c h a)"
    by (simp add: invoke_compiler_def case_prod_unfold)
  ultimately show ?thesis by simp
qed

end
