(* ===== verification/Spec2Isabelle.thy ===== *)
theory Spec2Isabelle
  imports Stack Memory_Correct Arrays GC_Correct Env_Correct Exp_Kind QQ_Expand Eval_Program
    Ready_Queue Compression_Correct Parser_Correct Printer_Correct EC_Program Eval_Run
    QQ_Correct Fundamental_Keeps Forged Lispbmc_Correct Read_Print Repl_Correct Lispbmc_Main
begin

text \<open>
  A verification development for lispBM, a lisp interpreter in C for 32-bit microcontrollers.

  \<^bold>\<open>The program.\<close> A program text is turned into an expression on a heap of cons cells by the tokeniser
  and parser (\<open>src/tokpar.c\<close>), from plain text or from text in the compressed form of
  \<open>src/compression.c\<close>; backquoted expressions are expanded on the way (\<open>src/qq_expand.c\<close>). Symbols are
  numbers, with their names in a table (\<open>src/symrepr.c\<close>) that lives, like arrays and strings, in a
  word memory with a bitmap allocator (\<open>src/memory.c\<close>). One of two evaluators runs the expression:
  the continuation-passing one (\<open>src/eval_cps.c\<close>), which schedules any number of contexts from a
  queue, and the explicit-control one (\<open>src/ec_eval.c\<close>), a register machine that classifies
  expressions with \<open>src/exp_kind.c\<close>. Both use the environments of \<open>src/env.c\<close>, the built-in functions
  of \<open>src/fundamental.c\<close>, native functions registered with \<open>src/extensions.c\<close>, and the garbage collector
  of \<open>src/heap.c\<close>, which they call when an allocation has failed and start the step again. \<open>src/print.c\<close>
  prints values. \<open>repl-ec/repl.c\<close>, \<open>repl-cps-nc/repl.c\<close> and \<open>repl-cps/repl.c\<close> are read-eval-print loops over this library, and
  \<open>compiler/lispbmc.c\<close> is the C part of a compiler that is itself a lisp program.

  \<^bold>\<open>How C is modelled.\<close> Every operation is a function on the state it works on, a record with a field for each static
  variable or structure member: \<open>stack\<close>, \<open>memory_state\<close>, \<open>heap_state\<close>, \<open>sym_state\<close>, and \<open>runtime\<close> for the last three
  together; \<open>eval_state\<close> with its store of contexts; \<open>register_machine\<close>; \<open>tokenizer_state\<close>. Integers of
  the C code are 32-bit words, with \<open>unat\<close> and \<open>sint\<close> where the code compares them as unsigned
  or signed; signed arithmetic wraps. Pointers into the word memory are addresses, pointers to cells are tagged
  indices as in \<open>include/heap.h\<close>. The result \<open>None\<close> stands for undefined behaviour (an access outside of
  an array, a use of freed or uninitialised data) and, for a loop given as a \<open>partial_function\<close>, for not
  returning; the C functions' own failure values are ordinary results. Parameters of the model
  are: floating point (\<open>float_ops\<close>, the text and the parsing of floats), \<open>malloc\<close>, native extensions, the callbacks of the host and what
  other threads do while the evaluator sleeps, the text of the prelude that the build generates.

  \<^bold>\<open>Foundations.\<close> \<open>Prelude\<close> has arrays with bounds, word lemmas and the collections of rewrite rules.
  \<open>Values\<close>: the tagged values of \<open>include/heap.h\<close>, their 28-bit wrap, and the indirections whose index runs into the
  type bits from 2^23 on. \<open>Stack\<close>: \<open>src/stack.c\<close>, growing and fixed stacks,
  interpreted as the contract \<open>bounded_lifo\<close>; \<open>push_k\<close> on a full stack writes past the end.

  \<^bold>\<open>Memory.\<close> \<open>Memory\<close> is \<open>src/memory.c\<close>; \<open>Memory_Spec\<close> the row of segments it implements with the contract
  \<open>allocator\<close>; \<open>Memory_Correct\<close> the refinement: allocation is first fit, never touches a live block, and
  freeing is its inverse. \<open>Symrepr\<close> is \<open>src/symrepr.c\<close>, and \<open>Symrepr_Correct\<close> shows that the linked nodes and strings
  it keeps in that memory represent a list of names with identifiers: adding a name
  puts one entry in front or, without room, leaves everything as it was; lookup by name and by
  identifier read it back.

  \<^bold>\<open>Heap.\<close> \<open>Heap\<close> is the cell part of \<open>src/heap.c\<close>; \<open>Heap_Correct\<close> has the invariant \<open>heap_wf\<close> and the contract
  \<open>cons_store\<close>, in which the list functions are verified (\<open>Heap_Lists\<close>); \<open>Arrays\<close> covers the arrays, which
  tie a cell to a block of the memory; \<open>Sexp\<close> describes values as trees. \<open>GC\<close> is the collector, \<open>GC_Mark\<close> shows that marking is reachability if the
  mark stack of 1024 words suffices, \<open>GC_Correct\<close> that a collection keeps what is reachable, frees the rest and
  returns unreachable arrays to the memory.

  \<^bold>\<open>Environments and built-in functions.\<close> \<open>Env\<close> and \<open>Env_Correct\<close>: \<open>src/env.c\<close> as association lists, with the contract
  \<open>bindings\<close>. \<open>Exp_Kind\<close>: \<open>src/exp_kind.c\<close>. \<open>Extensions\<close>: \<open>src/extensions.c\<close>. \<open>QQ_Expand\<close> and \<open>QQ_Correct\<close>: the expansion of a
  quasiquotation denotes the template with its holes filled in. \<open>Fundamental\<close> and \<open>Fundamental_Exec\<close>:
  \<open>src/fundamental.c\<close>; \<open>Fundamental_Correct\<close>: lists, arithmetic on 28-bit integers, structural equality;
  \<open>Fundamental_Keeps\<close>: every operation keeps heap and memory well-formed and all that is live in them.
  \<open>Forged\<close> shows what they do not keep: \<open>car\<close> of a boxed number gives its bits as a value, so a program can make a pointer out of the heap.

  \<^bold>\<open>Evaluators.\<close> \<open>Eval_Ctx\<close> and \<open>Eval_Cps\<close> are \<open>src/eval_cps.c\<close>, one definition for each continuation
  and special form, with garbage collection and error paths; \<open>Eval_Run\<close> adds the callbacks and the concurrent run loop.
  \<open>Ready_Queue\<close> verifies the queues of contexts, with the contract \<open>ready_queue\<close>. \<open>Eval_Spec\<close> is a big-step semantics without stack and
  continuations; \<open>Eval_Machine\<close>, \<open>Eval_Steps\<close>, \<open>Eval_Correct\<close> and \<open>Eval_Program\<close> prove by a simulation that the evaluator
  returns the value of the semantics, and \<open>Eval_Run\<close> that a program given to the scheduler does.
  \<open>EC_Eval\<close> is \<open>src/ec_eval.c\<close>; \<open>EC_Spec\<close>, \<open>EC_Machine\<close>, \<open>EC_Steps\<close>, \<open>EC_Correct\<close> and \<open>EC_Program\<close> do the same for it
  and show programs on which the two evaluators differ. The semantics cover runs in
  which no allocation fails, so no collection happens, and whose programs use closures, special
  forms and fundamental operations; \<open>runs\<close> counts the words of stack a run needs, which the stack of the context must have.

  \<^bold>\<open>Text.\<close> \<open>Compression\<close> is \<open>src/compression.c\<close>; \<open>Compression_Bits\<close>, \<open>Compression_Lex\<close>, \<open>Compression_Scan\<close>,
  \<open>Compression_Decode\<close> and \<open>Compression_Correct\<close> prove the round trip, its sizes and what is
  refused, for texts of fewer than 2^28 characters, so that bit counts stay below 2^31. \<open>Tokenizer\<close> and \<open>Parser\<close> are \<open>src/tokpar.c\<close> and \<open>src/prelude.c\<close>;
  \<open>Token_Stream\<close> has the contract \<open>char_stream\<close> of the streams they read, \<open>Token_Total\<close> that every
  recogniser returns and makes progress, \<open>Parser_Streams\<close> the two streams that keep the contract,
  \<open>Normal_Tokens\<close> that a text and what the compressor keeps of it have the same tokens if no backslash hides a semicolon or a quote, and
  \<open>Parser_Correct\<close> that compressed and plain text parse alike. \<open>Printer\<close> is \<open>src/print.c\<close>, and
  \<open>Printer_Correct\<close> shows which text \<open>print_value\<close> writes when work stack (256 words) and buffer suffice. \<open>Parser_Lex\<close> gives the
  concrete syntax of numbers, characters, names, quoted forms and lists and shows that the tokeniser reads it; \<open>Parser_Forms\<close> that the
  parser then builds the trees of the forms, given enough free cells and, at the end of the memory, words for the new names;
  \<open>Read_Print\<close> that printing such a tree gives its text again.

  \<^bold>\<open>Host programs.\<close> \<open>Repl\<close> is the three read-eval-print loops: start-up, line editor, commands and line handlers, with what is
  written to the terminal as a text that grows. \<open>Repl_Correct\<close> composes the parts: the start of \<open>repl-ec\<close> establishes the
  invariants of heap, memory and symbol table; a line is read, evaluated as the semantics say and printed; in the contract \<open>line_handler\<close>, which both loops keep, a session of quoted
  expressions comes back as it was typed; the line editor keeps the text on the
  screen; and \<open>repl-cps-nc\<close> never finds a file to load. \<open>Lispbmc\<close>, \<open>Lispbmc_Correct\<close> and \<open>Lispbmc_Main\<close>: the assembler
  output, the output file name, the command line and \<open>main\<close> of \<open>compiler/lispbmc.c\<close>.

  \<^bold>\<open>Bounds.\<close> The evaluation loops are partial functions; that they return is part of the theorems about them. No fuel is
  used but in \<open>free_walk\<close>, which reads the free list with as many steps as there are cells and so sees every list
  without a cycle. Texts are without zero characters, as C strings are.

  \<^bold>\<open>Not modelled.\<close> \<open>src/visual/heap_vis.c\<close> uses a member \<open>heap_base\<close> that \<open>heap_state_t\<close> does not have, so the
  \<open>VISUALIZE_HEAP\<close> build does not compile. \<open>src/bytecode.c\<close> has no code yet. In \<open>repl-cps\<close> the evaluator runs in a thread of its own
  and shares heap and symbol table with the line handler without a lock; each handler is modelled as one undisturbed step, and the terminal
  settings, \<open>timestamp_callback\<close> and \<open>sleep_callback\<close> are left to the host. What an extension writes to the terminal or a file during an evaluation is
  modelled in the extension, not in the evaluators, which take extensions as parameters. The unused \<open>static\<close> collector call of \<open>src/tokpar.c\<close> is left out. The
  ports below \<open>repl-cps-zynq\<close>, \<open>repl-ChibiOS\<close> and \<open>repl-zephyr\<close>, with the operating systems they contain, are not part of the
  interpreter; \<open>repl-cps-zynq\<close> and \<open>examples/evaluator.c\<close> use a header \<open>builtin.h\<close> that does not exist any more.
\<close>

end
